(* ===== verification/EvqBase.thy ===== *)
theory EvqBase
  imports Main "HOL-Library.Word" "HOL-Library.Char_ord"
begin

text \<open>
  Prelude of the evQueue development: what every component model shares.

  \<^item> \<open>fault\<close> and \<open>'a res\<close>: the ways a C++ function leaves other than by returning.
    \<open>Exn\<close> is the class \<open>Exception\<close> of include/Exception/Exception.h (context, error
    text, error code), \<open>StdExn\<close> an exception of the standard library and \<open>UB\<close> undefined
    behaviour (an out of range read, a signed overflow). A handler \<open>catch(Exception &)\<close>
    sees the first only, \<open>catch(...)\<close> the first two, and nothing catches the third.
    \<open>NoFuel\<close> is no behaviour of the code: it says that the bound on the depth of a recursion,
    which a definition takes as an argument, was too small; theorems show which bound is enough.
  \<^item> the parts of the C++ standard library the sources call: character classes, \<open>substr\<close>,
    \<open>stoi\<close>, \<open>strtol\<close>, \<open>atoi\<close>, \<open>to_string\<close> and range checks of \<open>int\<close>.
    Strings are lists of bytes; the character classes are those of the C locale.
  \<^item> the collection \<open>res_simps\<close> and generic lemmas on results, numbers and lists.
\<close>

section \<open>Results and exceptions\<close>

datatype fault = Exn string string string | StdExn string | UB string | NoFuel

type_synonym 'a res = "fault + 'a"

named_theorems res_simps "equations that evaluate results and exception handlers"

text \<open>Sequencing: the rest of a function runs only when the call before it returned.\<close>

fun bindr :: "'a res \<Rightarrow> ('a \<Rightarrow> 'b res) \<Rightarrow> 'b res" where
  "bindr (Inl e) f = Inl e"
| "bindr (Inr x) f = f x"

text \<open>\<open>try { m } catch(Exception &e) { h(e) }\<close>.\<close>

fun catch_exn :: "'a res \<Rightarrow> (string \<Rightarrow> string \<Rightarrow> string \<Rightarrow> 'a res) \<Rightarrow> 'a res" where
  "catch_exn (Inl (Exn c e k)) h = h c e k"
| "catch_exn (Inl (StdExn s)) h = Inl (StdExn s)"
| "catch_exn (Inl (UB s)) h = Inl (UB s)"
| "catch_exn (Inl NoFuel) h = Inl NoFuel"
| "catch_exn (Inr x) h = Inr x"

text \<open>\<open>try { m } catch(...) { h }\<close>.\<close>

fun catch_all :: "'a res \<Rightarrow> 'a res \<Rightarrow> 'a res" where
  "catch_all (Inl (Exn c e k)) h = h"
| "catch_all (Inl (StdExn s)) h = h"
| "catch_all (Inl (UB s)) h = Inl (UB s)"
| "catch_all (Inl NoFuel) h = Inl NoFuel"
| "catch_all (Inr x) h = Inr x"

declare bindr.simps [res_simps] catch_exn.simps [res_simps] catch_all.simps [res_simps]

lemma bindr_cong [fundef_cong]:
  "m = m' \<Longrightarrow> (\<And>x. m' = Inr x \<Longrightarrow> f x = f' x) \<Longrightarrow> bindr m f = bindr m' f'"
  by (cases m') auto

lemma bindr_eq_Inr: "bindr m f = Inr y \<longleftrightarrow> (\<exists>x. m = Inr x \<and> f x = Inr y)"
  by (cases m) auto

lemma bindr_eq_Inl: "bindr m f = Inl e \<longleftrightarrow> m = Inl e \<or> (\<exists>x. m = Inr x \<and> f x = Inl e)"
  by (cases m) auto

lemma bindr_Inr_id [simp]: "bindr m Inr = m"
  by (cases m) auto

lemma bindr_assoc: "bindr (bindr m f) g = bindr m (\<lambda>x. bindr (f x) g)"
  by (cases m) auto

text \<open>Calls over a list, left to right, stopping at the first fault.\<close>

fun mapr :: "('a \<Rightarrow> 'b res) \<Rightarrow> 'a list \<Rightarrow> 'b list res" where
  "mapr f [] = Inr []"
| "mapr f (x # xs) = bindr (f x) (\<lambda>y. bindr (mapr f xs) (\<lambda>ys. Inr (y # ys)))"

lemma mapr_cong [fundef_cong]:
  "xs = ys \<Longrightarrow> (\<And>x. x \<in> set ys \<Longrightarrow> f x = g x) \<Longrightarrow> mapr f xs = mapr g ys"
  by (induction xs arbitrary: ys) auto

lemma mapr_Inr: "mapr f xs = Inr ys \<Longrightarrow> length ys = length xs \<and> list_all2 (\<lambda>x y. f x = Inr y) xs ys"
  by (induction xs arbitrary: ys) (auto simp: bindr_eq_Inr)

definition is_ub :: "'a res \<Rightarrow> bool" where
  "is_ub r = (case r of Inl (UB s) \<Rightarrow> True | _ \<Rightarrow> False)"

lemma is_ub_simps [simp]:
  "is_ub (Inl (UB s))" "\<not> is_ub (Inl (Exn c e k))" "\<not> is_ub (Inl (StdExn s))" "\<not> is_ub (Inr x)"
  "\<not> is_ub (Inl NoFuel)"
  by (simp_all add: is_ub_def)

section \<open>Characters and strings\<close>

definition byte :: "char \<Rightarrow> nat" where
  "byte c = of_char c"

definition isdigit :: "char \<Rightarrow> bool" where
  "isdigit c \<longleftrightarrow> 48 \<le> byte c \<and> byte c \<le> 57"

definition isalpha :: "char \<Rightarrow> bool" where
  "isalpha c \<longleftrightarrow> (65 \<le> byte c \<and> byte c \<le> 90) \<or> (97 \<le> byte c \<and> byte c \<le> 122)"

definition isalnum :: "char \<Rightarrow> bool" where
  "isalnum c \<longleftrightarrow> isalpha c \<or> isdigit c"

definition isspace :: "char \<Rightarrow> bool" where
  "isspace c \<longleftrightarrow> byte c = 32 \<or> (9 \<le> byte c \<and> byte c \<le> 13)"

text \<open>The character \<open>s[i]\<close> of a \<open>std::string\<close>: reading at the length gives NUL.\<close>

definition at :: "string \<Rightarrow> nat \<Rightarrow> char" where
  "at s i = (if i < length s then s ! i else CHR 0x00)"

text \<open>\<open>s.substr(i,n)\<close> for \<open>i\<close> at most the length; beyond it C++ throws \<open>out_of_range\<close>.\<close>

definition substr :: "string \<Rightarrow> nat \<Rightarrow> nat \<Rightarrow> string" where
  "substr s i n = take n (drop i s)"

lemma byte_less [simp]: "byte c < 256"
  by (simp add: byte_def)

lemma byte_char_of [simp]: "n < 256 \<Longrightarrow> byte (char_of n) = n"
  by (simp add: byte_def)

lemma char_of_byte [simp]: "char_of (byte c) = c"
  by (simp add: byte_def)

lemma at_less [simp]: "i < length s \<Longrightarrow> at s i = s ! i"
  by (simp add: at_def)

lemma at_append_left: "i < length xs \<Longrightarrow> at (xs @ ys) i = xs ! i"
  by (simp add: at_def nth_append)

section \<open>Decimal numbers\<close>

definition digit_char :: "nat \<Rightarrow> char" where
  "digit_char d = char_of (48 + d)"

definition digit_val :: "char \<Rightarrow> nat" where
  "digit_val c = byte c - 48"

fun show_nat :: "nat \<Rightarrow> string" where
  "show_nat n = (if n < 10 then [digit_char n] else show_nat (n div 10) @ [digit_char (n mod 10)])"

declare show_nat.simps [simp del]

text \<open>\<open>std::to_string(int)\<close>.\<close>

definition to_string :: "int \<Rightarrow> string" where
  "to_string i = (if i < 0 then CHR ''-'' # show_nat (nat (- i)) else show_nat (nat i))"

text \<open>The value of a run of digits, most significant first.\<close>

definition digits_val :: "string \<Rightarrow> nat" where
  "digits_val ds = foldl (\<lambda>v c. 10 * v + digit_val c) 0 ds"

text \<open>
  \<open>strtol(s,&end,10)\<close>: blanks, an optional sign, digits. The result is the value and the
  number of characters read, or \<open>None\<close> when no digit was read (\<open>end == s\<close>). The value is
  not clamped to \<open>long\<close>: every caller rejects what is out of its own smaller range.
\<close>

definition strtol10 :: "string \<Rightarrow> (int \<times> nat) option" where
  "strtol10 s =
     (let blanks = takeWhile isspace s;
          r = dropWhile isspace s;
          signed = (r \<noteq> [] \<and> (hd r = CHR ''-'' \<or> hd r = CHR ''+''));
          neg = (r \<noteq> [] \<and> hd r = CHR ''-'');
          r' = (if signed then tl r else r);
          ds = takeWhile isdigit r';
          v = int (digits_val ds)
      in if ds = [] then None
         else Some ((if neg then - v else v), length blanks + (if signed then 1 else 0) + length ds))"

definition int_range :: "int \<Rightarrow> bool" where
  "int_range i \<longleftrightarrow> - 2147483648 \<le> i \<and> i \<le> 2147483647"

text \<open>\<open>std::stoi(s,&pos)\<close>.\<close>

definition stoi :: "string \<Rightarrow> (int \<times> nat) res" where
  "stoi s = (case strtol10 s of
       None \<Rightarrow> Inl (StdExn ''invalid_argument'')
     | Some (v, p) \<Rightarrow> if int_range v then Inr (v, p) else Inl (StdExn ''out_of_range''))"

text \<open>\<open>atoi(s)\<close>: 0 when there is no number; its behaviour is undefined out of range.\<close>

definition atoi :: "string \<Rightarrow> int res" where
  "atoi s = (case strtol10 s of
       None \<Rightarrow> Inr 0
     | Some (v, p) \<Rightarrow> if int_range v then Inr v else Inl (UB ''atoi overflow''))"

text \<open>A signed computation on \<open>int\<close>: overflow is undefined.\<close>

definition int_ck :: "int \<Rightarrow> int res" where
  "int_ck i = (if int_range i then Inr i else Inl (UB ''signed overflow''))"

lemma isdigit_digit_char [simp]: "d < 10 \<Longrightarrow> isdigit (digit_char d)"
  by (simp add: isdigit_def digit_char_def)

lemma digit_val_digit_char [simp]: "d < 10 \<Longrightarrow> digit_val (digit_char d) = d"
  by (simp add: digit_val_def digit_char_def)

lemma show_nat_nonempty [simp]: "show_nat n \<noteq> []"
  by (subst show_nat.simps) simp

lemma show_nat_digits: "list_all isdigit (show_nat n)"
proof (induction n rule: show_nat.induct)
  case (1 n)
  then show ?case by (subst show_nat.simps) simp
qed

lemma digits_val_snoc [simp]: "digits_val (ds @ [c]) = 10 * digits_val ds + digit_val c"
  by (simp add: digits_val_def)

lemma digits_val_Nil [simp]: "digits_val [] = 0"
  by (simp add: digits_val_def)

lemma digits_val_show_nat [simp]: "digits_val (show_nat n) = n"
proof (induction n rule: show_nat.induct)
  case (1 n)
  show ?case
  proof (cases "n < 10")
    case True
    then show ?thesis using digits_val_snoc [of "[]" "digit_char n"] by (subst show_nat.simps) simp
  next
    case False
    with 1 show ?thesis by (subst show_nat.simps) simp
  qed
qed

lemma isdigit_not_space [simp]: "isdigit c \<Longrightarrow> \<not> isspace c"
  by (auto simp: isdigit_def isspace_def)

lemma isdigit_not_sign [simp]: "isdigit c \<Longrightarrow> c \<noteq> CHR ''-'' \<and> c \<noteq> CHR ''+''"
  by (auto simp: isdigit_def byte_def)

lemma takeWhile_list_all: "list_all P xs \<Longrightarrow> takeWhile P (xs @ ys) = xs @ takeWhile P ys"
  by (induction xs) auto

lemma takeWhile_stop: "ys = [] \<or> \<not> P (hd ys) \<Longrightarrow> takeWhile P ys = []"
  by (cases ys) auto

text \<open>Reading back a printed number, whatever non-digit follows it.\<close>

lemma strtol10_digits:
  assumes "list_all isdigit ds" "ds \<noteq> []" "rest = [] \<or> \<not> isdigit (hd rest)"
  shows "strtol10 (ds @ rest) = Some (int (digits_val ds), length ds)"
proof -
  obtain c cs where ds: "ds = c # cs" using assms(2) by (cases ds) auto
  with assms(1) have c: "isdigit c" by simp
  have tw: "takeWhile isdigit (ds @ rest) = ds"
    using assms(1) takeWhile_stop [of rest isdigit] assms(3) by (simp add: takeWhile_list_all)
  show ?thesis using c tw ds isdigit_not_sign [OF c] by (simp add: strtol10_def Let_def)
qed

lemma strtol10_neg_digits:
  assumes "list_all isdigit ds" "ds \<noteq> []" "rest = [] \<or> \<not> isdigit (hd rest)"
  shows "strtol10 (CHR ''-'' # ds @ rest) = Some (- int (digits_val ds), Suc (length ds))"
proof -
  have tw: "takeWhile isdigit (ds @ rest) = ds"
    using assms(1) takeWhile_stop [of rest isdigit] assms(3) by (simp add: takeWhile_list_all)
  have "\<not> isspace (CHR ''-'')" by (simp add: isspace_def byte_def)
  then show ?thesis using tw assms(2) by (simp add: strtol10_def Let_def)
qed

lemma strtol10_to_string: "strtol10 (to_string i) = Some (i, length (to_string i))"
  using strtol10_digits [of "show_nat (nat i)" "[]"] strtol10_neg_digits [of "show_nat (nat (- i))" "[]"]
  by (simp add: to_string_def show_nat_digits)

lemma stoi_to_string: "int_range i \<Longrightarrow> stoi (to_string i) = Inr (i, length (to_string i))"
  by (simp add: stoi_def strtol10_to_string)

lemma stoi_not_ub [simp]: "\<not> is_ub (stoi s)"
  by (simp add: stoi_def split: option.splits)

lemma stoi_range: "stoi s = Inr (v, p) \<Longrightarrow> int_range v"
  by (auto simp: stoi_def split: option.splits if_splits)

section \<open>Lists\<close>

lemma filter_length_split: "length (filter P xs) + length (filter (\<lambda>x. \<not> P x) xs) = length xs"
  by (induction xs) auto

lemma length_filter_update:
  "i < length xs \<Longrightarrow>
   length (filter P (xs[i := x])) + (if P (xs ! i) then 1 else 0) =
     length (filter P xs) + (if P x then 1 else 0)"
proof (induction xs arbitrary: i)
  case (Cons y xs)
  show ?case
  proof (cases i)
    case (Suc j)
    then show ?thesis using Cons.IH [of j] Cons.prems by simp
  qed simp
qed simp

lemma list_eq_hd_tl: "xs \<noteq> [] \<Longrightarrow> xs = hd xs # tl xs"
  by simp

end
