(* ===== verification/StdMap.thy ===== *)
theory StdMap
  imports EvqBase "HOL-Library.List_Lexorder"
begin

text \<open>
  The ordered containers of the C++ library the engine is built on. A \<open>std::map\<close> is the list
  of its pairs in the order of iteration, which is that of the keys; strings compare byte by
  byte, which is the lexicographic order of the library. A \<open>std::multimap\<close> keeps pairs with
  equal keys in the order of their insertion. The locale \<open>ordered_map\<close> is the interface the
  clients use: lookup, insertion (\<open>m[k] = v\<close>), erasure, and an invariant of the representation.
\<close>

section \<open>The interface\<close>

locale ordered_map =
  fixes emp :: "'m"
    and find :: "'m \<Rightarrow> 'k \<Rightarrow> 'v option"
    and put :: "'m \<Rightarrow> 'k \<Rightarrow> 'v \<Rightarrow> 'm"
    and del :: "'m \<Rightarrow> 'k \<Rightarrow> 'm"
    and pairs :: "'m \<Rightarrow> ('k \<times> 'v) list"
    and inv :: "'m \<Rightarrow> bool"
  assumes inv_emp: "inv emp"
    and inv_put: "inv m \<Longrightarrow> inv (put m k v)"
    and inv_del: "inv m \<Longrightarrow> inv (del m k)"
    and find_emp: "find emp k = None"
    and find_put: "inv m \<Longrightarrow> find (put m k v) j = (if j = k then Some v else find m j)"
    and find_del: "inv m \<Longrightarrow> find (del m k) j = (if j = k then None else find m j)"
    and find_pairs: "inv m \<Longrightarrow> find m k = map_of (pairs m) k"
    and distinct_pairs: "inv m \<Longrightarrow> distinct (map fst (pairs m))"
begin

lemma find_in_pairs: "inv m \<Longrightarrow> find m k = Some v \<longleftrightarrow> (k, v) \<in> set (pairs m)"
  by (simp add: find_pairs distinct_pairs)

lemma put_put: "inv m \<Longrightarrow> find (put (put m k v) k w) j = find (put m k w) j"
  by (simp add: find_put inv_put)

lemma put_commute:
  "inv m \<Longrightarrow> j \<noteq> k \<Longrightarrow> find (put (put m j v) k w) i = find (put (put m k w) j v) i"
  by (simp add: find_put inv_put)

lemma del_put: "inv m \<Longrightarrow> find (del (put m k v) k) j = find (del m k) j"
  by (simp add: find_put find_del inv_put)

lemma finite_find: "inv m \<Longrightarrow> finite {k. find m k \<noteq> None}"
proof -
  assume "inv m"
  then have "{k. find m k \<noteq> None} \<subseteq> fst ` set (pairs m)"
    by (force simp: find_pairs dest: map_of_SomeD)
  then show ?thesis by (rule finite_subset) simp
qed

end

section \<open>\<open>std::map\<close>\<close>

type_synonym ('k, 'v) smap = "('k \<times> 'v) list"

fun smap_find :: "('k::linorder, 'v) smap \<Rightarrow> 'k \<Rightarrow> 'v option" where
  "smap_find [] k = None"
| "smap_find ((a, v) # m) k = (if a = k then Some v else smap_find m k)"

fun smap_put :: "('k::linorder, 'v) smap \<Rightarrow> 'k \<Rightarrow> 'v \<Rightarrow> ('k, 'v) smap" where
  "smap_put [] k w = [(k, w)]"
| "smap_put ((a, v) # m) k w =
     (if k < a then (k, w) # (a, v) # m
      else if k = a then (k, w) # m
      else (a, v) # smap_put m k w)"

definition smap_del :: "('k::linorder, 'v) smap \<Rightarrow> 'k \<Rightarrow> ('k, 'v) smap" where
  "smap_del m k = filter (\<lambda>(a, v). a \<noteq> k) m"

definition smap_inv :: "('k::linorder, 'v) smap \<Rightarrow> bool" where
  "smap_inv m \<longleftrightarrow> sorted_wrt (<) (map fst m)"

lemma smap_find_map_of: "smap_find m k = map_of m k"
  by (induction m k rule: smap_find.induct) auto

lemma fst_smap_put: "fst ` set (smap_put m k w) = insert k (fst ` set m)"
  by (induction m k w rule: smap_put.induct) auto

lemma smap_inv_put: "smap_inv m \<Longrightarrow> smap_inv (smap_put m k w)"
  unfolding smap_inv_def
proof (induction m k w rule: smap_put.induct)
  case (2 a v m k w)
  then show ?case
    using fst_smap_put [of m k w] by (auto simp: strict_sorted_iff less_le_not_le)
qed simp

lemma smap_inv_filter: "smap_inv m \<Longrightarrow> smap_inv (filter P m)"
  unfolding smap_inv_def by (induction m) (auto simp: strict_sorted_iff)

lemma smap_find_put: "smap_inv m \<Longrightarrow> smap_find (smap_put m k w) j = (if j = k then Some w else smap_find m j)"
  by (induction m k w rule: smap_put.induct) (auto simp: smap_inv_def)

lemma smap_find_del: "smap_find (smap_del m k) j = (if j = k then None else smap_find m j)"
  unfolding smap_del_def by (induction m) auto

lemma smap_inv_del: "smap_inv m \<Longrightarrow> smap_inv (smap_del m k)"
  by (simp add: smap_del_def smap_inv_filter)

lemma smap_inv_distinct: "smap_inv m \<Longrightarrow> distinct (map fst m)"
  by (simp add: smap_inv_def strict_sorted_iff)

interpretation sm: ordered_map "[]" smap_find smap_put smap_del "\<lambda>m. m" smap_inv
  by unfold_locales
    (simp_all add: smap_inv_put smap_find_put smap_find_del smap_inv_distinct smap_inv_del
      smap_find_map_of [symmetric], simp add: smap_inv_def)

text \<open>In-place change of the value under a key that is present: \<open>it->second = f(it->second)\<close>.\<close>

definition smap_adjust :: "('k::linorder, 'v) smap \<Rightarrow> 'k \<Rightarrow> ('v \<Rightarrow> 'v) \<Rightarrow> ('k, 'v) smap" where
  "smap_adjust m k f = map (\<lambda>(a, v). (a, if a = k then f v else v)) m"

lemma smap_find_adjust:
  "smap_find (smap_adjust m k f) j = (if j = k then map_option f (smap_find m j) else smap_find m j)"
  unfolding smap_adjust_def by (induction m) auto

lemma smap_inv_adjust [simp]: "smap_inv (smap_adjust m k f) = smap_inv m"
proof -
  have "map fst (smap_adjust m k f) = map fst m" by (auto simp: smap_adjust_def)
  then show ?thesis by (simp add: smap_inv_def)
qed

section \<open>\<open>std::multimap\<close>\<close>

text \<open>Insertion goes after the elements with the same key (since C++11).\<close>

fun mmap_insert :: "('k::linorder \<times> 'v) list \<Rightarrow> 'k \<Rightarrow> 'v \<Rightarrow> ('k \<times> 'v) list" where
  "mmap_insert [] k v = [(k, v)]"
| "mmap_insert ((a, w) # m) k v =
     (if k < a then (k, v) # (a, w) # m else (a, w) # mmap_insert m k v)"

definition mmap_inv :: "('k::linorder \<times> 'v) list \<Rightarrow> bool" where
  "mmap_inv m \<longleftrightarrow> sorted (map fst m)"

lemma set_mmap_insert [simp]: "set (mmap_insert m k v) = insert (k, v) (set m)"
  by (induction m k v rule: mmap_insert.induct) auto

lemma length_mmap_insert [simp]: "length (mmap_insert m k v) = Suc (length m)"
  by (induction m k v rule: mmap_insert.induct) auto

lemma mmap_insert_nonempty [simp]: "mmap_insert m k v \<noteq> []"
  using length_mmap_insert [of m k v] by (metis length_0_conv nat.distinct(1))

lemma mmap_inv_insert: "mmap_inv m \<Longrightarrow> mmap_inv (mmap_insert m k v)"
  unfolding mmap_inv_def
  by (induction m k v rule: mmap_insert.induct) auto

lemma mmap_inv_filter: "mmap_inv m \<Longrightarrow> mmap_inv (filter P m)"
  unfolding mmap_inv_def by (induction m) auto

lemma filter_mmap_insert:
  "mmap_inv m \<Longrightarrow> filter (\<lambda>x. fst x = j) (mmap_insert m k v) =
     filter (\<lambda>x. fst x = j) m @ (if k = j then [(k, v)] else [])"
proof (induction m k v rule: mmap_insert.induct)
  case (2 a w m k v)
  show ?case
  proof (cases "k < a")
    case True
    with 2(2) have "filter (\<lambda>x. fst x = k) ((a, w) # m) = []"
      by (auto simp: mmap_inv_def filter_empty_conv)
    with True show ?thesis by (cases "k = j") auto
  next
    case False
    with 2 show ?thesis by (auto simp: mmap_inv_def)
  qed
qed simp

end
