(* ===== verification/EvqQueue.thy ===== *)
theory EvqQueue
  imports StdMap "HOL-Library.Multiset"
begin

text \<open>
  One task queue: the class \<open>Queue\<close> of src/Queue/Queue.cpp and include/Queue/Queue.h (its
  query handler is in QueueApi). A queue keeps its waiting tasks in a deque (fifo scheduler) or
  in a multimap keyed by the workflow instance (prio scheduler), the tasks cancelled while they
  waited in a third list, and counts the waiting and the running tasks in unsigned integers of
  32 bits. Pointers are numbers, 0 being the null pointer. The workflow instance of a task is its
  pointer with the instance number \<open>GetInstanceID()\<close> reads, which never changes.

  The theory gives every operation of the class, the representation invariant \<open>queue_inv\<close>, the
  order in which tasks leave a queue (\<open>pending\<close>), and the abstract queue the class implements.
\<close>

section \<open>Data\<close>

record winst =
  wi_ptr :: nat
  wi_id :: "32 word"

record qtask =
  workflow_instance :: winst
  task_node :: nat

abbreviation task_key :: "qtask \<Rightarrow> 32 word" where
  "task_key t \<equiv> wi_id (workflow_instance t)"

definition QUEUE_SCHEDULER_FIFO :: int where "QUEUE_SCHEDULER_FIFO = 1"
definition QUEUE_SCHEDULER_PRIO :: int where "QUEUE_SCHEDULER_PRIO = 2"
definition QUEUE_NAME_MAX_LEN :: nat where "QUEUE_NAME_MAX_LEN = 64"

lemma schedulers_differ [simp]:
  "QUEUE_SCHEDULER_FIFO \<noteq> QUEUE_SCHEDULER_PRIO" "QUEUE_SCHEDULER_PRIO \<noteq> QUEUE_SCHEDULER_FIFO"
  by (simp_all add: QUEUE_SCHEDULER_FIFO_def QUEUE_SCHEDULER_PRIO_def)

record queue =
  q_id :: "32 word"
  q_name :: string
  q_dynamic :: bool
  q_concurrency :: "32 word"
  q_size :: "32 word"
  q_running :: "32 word"
  q_prio :: "(32 word \<times> qtask) list"
  q_fifo :: "qtask list"
  q_cancelled :: "qtask list"
  q_wanted_scheduler :: string
  q_scheduler :: int
  q_removed :: bool

section \<open>Operations\<close>

definition queue_name_char :: "char \<Rightarrow> bool" where
  "queue_name_char c \<longleftrightarrow> isalnum c \<or> c = CHR ''_'' \<or> c = CHR ''-'' \<or> c = CHR ''@'' \<or> c = CHR ''.''"

definition CheckQueueName :: "string \<Rightarrow> bool" where
  "CheckQueueName queue_name =
     (if length queue_name = 0 \<or> length queue_name > QUEUE_NAME_MAX_LEN then False
      else list_all queue_name_char queue_name)"

definition Queue_new ::
  "32 word \<Rightarrow> string \<Rightarrow> int \<Rightarrow> int \<Rightarrow> string \<Rightarrow> bool \<Rightarrow> queue res" where
  "Queue_new qid name concurrency scheduler wanted dynamic =
     (if \<not> CheckQueueName name
      then Inl (Exn ''Queue'' (''Invalid queue name '' @ [CHR 0x27] @ name @ [CHR 0x27]) [])
      else Inr \<lparr>q_id = qid, q_name = name, q_dynamic = dynamic,
                q_concurrency = word_of_int concurrency, q_size = 0, q_running = 0,
                q_prio = [], q_fifo = [], q_cancelled = [], q_wanted_scheduler = wanted,
                q_scheduler = scheduler, q_removed = False\<rparr>)"

definition EnqueueTask :: "queue \<Rightarrow> qtask \<Rightarrow> queue" where
  "EnqueueTask q t =
     (let q' = (if q_scheduler q = QUEUE_SCHEDULER_FIFO then q\<lparr>q_fifo := q_fifo q @ [t]\<rparr>
                else if q_scheduler q = QUEUE_SCHEDULER_PRIO
                then q\<lparr>q_prio := mmap_insert (q_prio q) (task_key t) t\<rparr>
                else q)
      in q'\<lparr>q_size := q_size q' + 1\<rparr>)"

definition IsLocked :: "queue \<Rightarrow> bool" where
  "IsLocked q =
     (if q_cancelled q \<noteq> [] then False
      else if q_size q > 0 \<and> q_running q < q_concurrency q then False
      else True)"

text \<open>
  \<open>DequeueTask\<close> returns false (\<open>None\<close>) on a locked queue. \<open>front()\<close> and \<open>begin()\<close> of an empty
  container, and the uninitialised pointer left by an unknown scheduler, are undefined.
\<close>

definition DequeueTask :: "queue \<Rightarrow> (qtask option \<times> queue) res" where
  "DequeueTask q =
     (if IsLocked q then Inr (None, q)
      else case q_cancelled q of
        t # ts \<Rightarrow> Inr (Some t, q\<lparr>q_cancelled := ts\<rparr>)
      | [] \<Rightarrow>
          if q_scheduler q = QUEUE_SCHEDULER_FIFO then
            (case q_fifo q of
               [] \<Rightarrow> Inl (UB ''front of an empty deque'')
             | t # ts \<Rightarrow> Inr (Some t, q\<lparr>q_fifo := ts, q_size := q_size q - 1\<rparr>))
          else if q_scheduler q = QUEUE_SCHEDULER_PRIO then
            (case q_prio q of
               [] \<Rightarrow> Inl (UB ''begin of an empty multimap'')
             | (k, t) # ts \<Rightarrow> Inr (Some t, q\<lparr>q_prio := ts, q_size := q_size q - 1\<rparr>))
          else Inl (UB ''uninitialised task pointer''))"

definition ExecuteTask :: "queue \<Rightarrow> queue" where
  "ExecuteTask q = q\<lparr>q_running := q_running q + 1\<rparr>"

definition TerminateTask :: "queue \<Rightarrow> queue" where
  "TerminateTask q = q\<lparr>q_running := q_running q - 1\<rparr>"

text \<open>The loop of \<open>CancelTasks\<close>: one element after the other, moved or kept.\<close>

fun cancel_fifo :: "32 word \<Rightarrow> qtask list \<Rightarrow> qtask list \<times> qtask list \<times> nat" where
  "cancel_fifo wid [] = ([], [], 0)"
| "cancel_fifo wid (t # ts) =
     (let (keep, canc, n) = cancel_fifo wid ts
      in if task_key t = wid then (keep, t # canc, Suc n) else (t # keep, canc, n))"

fun cancel_prio ::
  "32 word \<Rightarrow> (32 word \<times> qtask) list \<Rightarrow> (32 word \<times> qtask) list \<times> qtask list \<times> nat" where
  "cancel_prio wid [] = ([], [], 0)"
| "cancel_prio wid ((k, t) # ts) =
     (let (keep, canc, n) = cancel_prio wid ts
      in if task_key t = wid then (keep, t # canc, Suc n) else ((k, t) # keep, canc, n))"

definition CancelTasks :: "queue \<Rightarrow> 32 word \<Rightarrow> queue" where
  "CancelTasks q wid =
     (if q_scheduler q = QUEUE_SCHEDULER_FIFO then
        (let (keep, canc, n) = cancel_fifo wid (q_fifo q)
         in q\<lparr>q_fifo := keep, q_cancelled := q_cancelled q @ canc, q_size := q_size q - of_nat n\<rparr>)
      else if q_scheduler q = QUEUE_SCHEDULER_PRIO then
        (let (keep, canc, n) = cancel_prio wid (q_prio q)
         in q\<lparr>q_prio := keep, q_cancelled := q_cancelled q @ canc, q_size := q_size q - of_nat n\<rparr>)
      else q)"

definition SetConcurrency :: "queue \<Rightarrow> 32 word \<Rightarrow> queue" where
  "SetConcurrency q c = q\<lparr>q_concurrency := c, q_removed := False\<rparr>"

definition SetDynamic :: "queue \<Rightarrow> bool \<Rightarrow> queue" where
  "SetDynamic q d = q\<lparr>q_dynamic := d, q_removed := False\<rparr>"

definition SetScheduler :: "queue \<Rightarrow> int \<Rightarrow> queue" where
  "SetScheduler q new_scheduler =
     (if new_scheduler = q_scheduler q then q
      else
        let q1 = (if new_scheduler = QUEUE_SCHEDULER_FIFO
                  then q\<lparr>q_fifo := q_fifo q @ map snd (q_prio q), q_prio := []\<rparr> else q);
            q2 = (if new_scheduler = QUEUE_SCHEDULER_PRIO
                  then q1\<lparr>q_prio := foldl (\<lambda>m t. mmap_insert m (task_key t) t) (q_prio q1) (q_fifo q1),
                          q_fifo := []\<rparr> else q1)
        in q2\<lparr>q_scheduler := new_scheduler\<rparr>)"

definition Remove :: "queue \<Rightarrow> queue" where
  "Remove q = q\<lparr>q_removed := True\<rparr>"

section \<open>Task containers\<close>

text \<open>
  What the queue needs of the container its scheduler selects: the tasks it holds, in the order
  they leave, is a list; pushing adds one occurrence, popping takes the head.
\<close>

locale task_container =
  fixes push :: "'c \<Rightarrow> qtask \<Rightarrow> 'c"
    and pop :: "'c \<Rightarrow> (qtask \<times> 'c) option"
    and items :: "'c \<Rightarrow> qtask list"
    and cinv :: "'c \<Rightarrow> bool"
  assumes cinv_push: "cinv c \<Longrightarrow> cinv (push c t)"
    and cinv_pop: "cinv c \<Longrightarrow> pop c = Some (t, c') \<Longrightarrow> cinv c'"
    and items_push: "mset (items (push c t)) = add_mset t (mset (items c))"
    and pop_items: "pop c = Some (t, c') \<Longrightarrow> items c = t # items c'"
    and pop_None: "pop c = None \<Longrightarrow> items c = []"
begin

lemma cinv_foldl: "cinv c \<Longrightarrow> cinv (foldl push c ts)"
  by (induction ts arbitrary: c) (auto simp: cinv_push)

lemma items_foldl: "mset (items (foldl push c ts)) = mset (items c) + mset ts"
  by (induction ts arbitrary: c) (auto simp: items_push)

lemma length_items_push: "length (items (push c t)) = Suc (length (items c))"
  using arg_cong [OF items_push, of size c t] by simp

lemma length_items_foldl: "length (items (foldl push c ts)) = length (items c) + length ts"
  using arg_cong [OF items_foldl, of size c ts] by simp

lemma pop_Some_iff: "(\<exists>t c'. pop c = Some (t, c')) \<longleftrightarrow> items c \<noteq> []"
  using pop_None pop_items by (cases "pop c") auto

end

abbreviation fifo_push :: "qtask list \<Rightarrow> qtask \<Rightarrow> qtask list" where
  "fifo_push c t \<equiv> c @ [t]"

abbreviation fifo_pop :: "qtask list \<Rightarrow> (qtask \<times> qtask list) option" where
  "fifo_pop c \<equiv> (case c of [] \<Rightarrow> None | t # ts \<Rightarrow> Some (t, ts))"

abbreviation prio_push :: "(32 word \<times> qtask) list \<Rightarrow> qtask \<Rightarrow> (32 word \<times> qtask) list" where
  "prio_push c t \<equiv> mmap_insert c (task_key t) t"

abbreviation prio_pop :: "(32 word \<times> qtask) list \<Rightarrow> (qtask \<times> (32 word \<times> qtask) list) option" where
  "prio_pop c \<equiv> (case c of [] \<Rightarrow> None | (k, t) # ts \<Rightarrow> Some (t, ts))"

text \<open>The multimap is sorted and every task is filed under its own instance.\<close>

definition prio_inv :: "(32 word \<times> qtask) list \<Rightarrow> bool" where
  "prio_inv m \<longleftrightarrow> mmap_inv m \<and> list_all (\<lambda>(k, t). k = task_key t) m"

lemma prio_inv_insert: "prio_inv m \<Longrightarrow> prio_inv (prio_push m t)"
  by (auto simp: prio_inv_def mmap_inv_insert list_all_iff)

lemma prio_inv_tl: "prio_inv (x # m) \<Longrightarrow> prio_inv m"
  by (auto simp: prio_inv_def mmap_inv_def)

lemma prio_inv_filter: "prio_inv m \<Longrightarrow> prio_inv (filter P m)"
  by (auto simp: prio_inv_def mmap_inv_filter list_all_iff)

lemma mset_mmap_insert:
  "image_mset snd (mset (mmap_insert m k t)) = add_mset t (image_mset snd (mset m))"
  by (induction m k t rule: mmap_insert.induct) auto

interpretation fifo: task_container fifo_push fifo_pop "\<lambda>c. c" "\<lambda>_. True"
  by unfold_locales (auto split: list.splits)

interpretation prio: task_container prio_push prio_pop "map snd" prio_inv
  by unfold_locales
    (auto simp: prio_inv_insert mset_mmap_insert prio_inv_tl split: list.splits)

section \<open>Representation invariant\<close>

definition pending :: "queue \<Rightarrow> qtask list" where
  "pending q = (if q_scheduler q = QUEUE_SCHEDULER_FIFO then q_fifo q else map snd (q_prio q))"

definition queue_inv :: "queue \<Rightarrow> bool" where
  "queue_inv q \<longleftrightarrow>
     (q_scheduler q = QUEUE_SCHEDULER_FIFO \<and> q_prio q = [] \<or>
      q_scheduler q = QUEUE_SCHEDULER_PRIO \<and> q_fifo q = [] \<and> prio_inv (q_prio q)) \<and>
     q_size q = of_nat (length (pending q)) \<and> length (pending q) < 2 ^ 32"

lemma queue_inv_size:
  "queue_inv q \<Longrightarrow> unat (q_size q) = length (pending q)"
  by (simp add: queue_inv_def unat_of_nat)

lemma queue_inv_cases:
  assumes "queue_inv q"
  obtains "q_scheduler q = QUEUE_SCHEDULER_FIFO" "q_prio q = []" "pending q = q_fifo q"
  | "q_scheduler q = QUEUE_SCHEDULER_PRIO" "q_fifo q = []" "pending q = map snd (q_prio q)"
    "prio_inv (q_prio q)"
proof (cases "q_scheduler q = QUEUE_SCHEDULER_FIFO")
  case True
  with assms that(1) show thesis by (simp add: queue_inv_def pending_def)
next
  case False
  with assms that(2) show thesis by (simp add: queue_inv_def pending_def)
qed

lemma Queue_new_inv:
  assumes "Queue_new qid name c s w d = Inr q" "s = QUEUE_SCHEDULER_FIFO \<or> s = QUEUE_SCHEDULER_PRIO"
  shows "queue_inv q \<and> pending q = [] \<and> q_cancelled q = [] \<and> q_running q = 0 \<and> q_name q = name"
  using assms by (auto simp: Queue_new_def queue_inv_def pending_def prio_inv_def mmap_inv_def
      split: if_splits)

lemma cancel_fifo_eq:
  "cancel_fifo wid ts = (filter (\<lambda>t. task_key t \<noteq> wid) ts, filter (\<lambda>t. task_key t = wid) ts,
     length (filter (\<lambda>t. task_key t = wid) ts))"
  by (induction ts) auto

lemma cancel_prio_eq:
  "cancel_prio wid ts = (filter (\<lambda>(k, t). task_key t \<noteq> wid) ts,
     filter (\<lambda>t. task_key t = wid) (map snd ts), length (filter (\<lambda>t. task_key t = wid) (map snd ts)))"
  by (induction wid ts rule: cancel_prio.induct) simp_all

lemma EnqueueTask_simps [simp]:
  "q_name (EnqueueTask q t) = q_name q" "q_running (EnqueueTask q t) = q_running q"
  "q_cancelled (EnqueueTask q t) = q_cancelled q" "q_scheduler (EnqueueTask q t) = q_scheduler q"
  "q_concurrency (EnqueueTask q t) = q_concurrency q" "q_removed (EnqueueTask q t) = q_removed q"
  "q_id (EnqueueTask q t) = q_id q" "q_size (EnqueueTask q t) = q_size q + 1"
  by (simp_all add: EnqueueTask_def Let_def)

lemma pending_Enqueue_fifo:
  "q_scheduler q = QUEUE_SCHEDULER_FIFO \<Longrightarrow> pending (EnqueueTask q t) = fifo_push (pending q) t"
  by (simp add: pending_def EnqueueTask_def Let_def)

lemma pending_Enqueue_prio:
  "q_scheduler q = QUEUE_SCHEDULER_PRIO \<Longrightarrow>
   pending (EnqueueTask q t) = map snd (prio_push (q_prio q) t)"
  by (simp add: pending_def EnqueueTask_def Let_def)

lemma EnqueueTask_mset:
  "queue_inv q \<Longrightarrow> mset (pending (EnqueueTask q t)) = add_mset t (mset (pending q))"
  by (erule queue_inv_cases)
    (simp_all add: pending_Enqueue_fifo pending_Enqueue_prio mset_mmap_insert)

lemma EnqueueTask_inv:
  assumes "queue_inv q" "Suc (length (pending q)) < 2 ^ 32"
  shows "queue_inv (EnqueueTask q t)"
proof -
  have len: "length (pending (EnqueueTask q t)) = Suc (length (pending q))"
    using arg_cong [OF EnqueueTask_mset [OF assms(1)], of size t] by simp
  have "q_size (EnqueueTask q t) = of_nat (length (pending (EnqueueTask q t)))"
    using assms(1) len by (simp add: queue_inv_def)
  then show ?thesis using assms len
    by (auto simp: queue_inv_def EnqueueTask_def Let_def prio_inv_insert)
qed

text \<open>A queue that is not locked has a task to give, so \<open>DequeueTask\<close> never goes wrong.\<close>

lemma unlocked_pending:
  "queue_inv q \<Longrightarrow> \<not> IsLocked q \<Longrightarrow> q_cancelled q = [] \<Longrightarrow>
   pending q \<noteq> [] \<and> q_running q < q_concurrency q"
  by (auto simp: IsLocked_def queue_inv_def split: if_splits)

lemma DequeueTask_locked: "IsLocked q \<Longrightarrow> DequeueTask q = Inr (None, q)"
  by (simp add: DequeueTask_def)

lemma DequeueTask_cancelled:
  "q_cancelled q = t # ts \<Longrightarrow> DequeueTask q = Inr (Some t, q\<lparr>q_cancelled := ts\<rparr>)"
  by (simp add: DequeueTask_def IsLocked_def)

lemma DequeueTask_waiting:
  assumes "queue_inv q" "\<not> IsLocked q" "q_cancelled q = []"
  obtains q' where "DequeueTask q = Inr (Some (hd (pending q)), q')"
    "pending q' = tl (pending q)" "queue_inv q'" "q_cancelled q' = []"
    "q_running q' = q_running q" "q_name q' = q_name q" "q_concurrency q' = q_concurrency q"
    "q_removed q' = q_removed q" "q_scheduler q' = q_scheduler q" "q_id q' = q_id q"
proof -
  have pend: "pending q \<noteq> []" using unlocked_pending [OF assms] by simp
  have len: "of_nat (length (tl (pending q))) = q_size q - 1"
    using assms(1) pend by (cases "pending q") (auto simp: queue_inv_def)
  have lt: "length (tl (pending q)) < 2 ^ 32"
    using assms(1) by (auto simp: queue_inv_def)
  from assms(1) show ?thesis
  proof (cases rule: queue_inv_cases)
    case 1
    let ?q = "q\<lparr>q_fifo := tl (q_fifo q), q_size := q_size q - 1\<rparr>"
    have "DequeueTask q = Inr (Some (hd (pending q)), ?q)"
      using 1 assms pend by (simp add: DequeueTask_def split: list.splits)
    moreover have "pending ?q = tl (pending q)" using 1 by (simp add: pending_def)
    ultimately show ?thesis using that [of ?q] 1 len lt assms(3) by (simp add: queue_inv_def)
  next
    case 2
    let ?q = "q\<lparr>q_prio := tl (q_prio q), q_size := q_size q - 1\<rparr>"
    have "DequeueTask q = Inr (Some (hd (pending q)), ?q)"
      using 2 assms pend by (auto simp: DequeueTask_def split: list.splits)
    moreover have "pending ?q = tl (pending q)" using 2 by (simp add: pending_def map_tl)
    moreover have "prio_inv (tl (q_prio q))"
      using 2 by (cases "q_prio q") (auto simp: prio_inv_def mmap_inv_def)
    ultimately show ?thesis using that [of ?q] 2 len lt assms(3) by (simp add: queue_inv_def)
  qed
qed

lemma DequeueTask_total:
  assumes "queue_inv q"
  obtains r q' where "DequeueTask q = Inr (r, q')" "queue_inv q'"
proof (cases "IsLocked q")
  case True
  then show ?thesis using that assms by (simp add: DequeueTask_locked)
next
  case False
  show ?thesis
  proof (cases "q_cancelled q")
    case Nil
    then show ?thesis using DequeueTask_waiting [OF assms False] that by metis
  next
    case (Cons t ts)
    have "pending (q\<lparr>q_cancelled := ts\<rparr>) = pending q" by (simp add: pending_def)
    then have "queue_inv (q\<lparr>q_cancelled := ts\<rparr>)" using assms by (simp add: queue_inv_def)
    then show ?thesis using that DequeueTask_cancelled [OF Cons] by blast
  qed
qed

lemma CancelTasks_simps [simp]:
  "q_name (CancelTasks q w) = q_name q" "q_running (CancelTasks q w) = q_running q"
  "q_scheduler (CancelTasks q w) = q_scheduler q" "q_concurrency (CancelTasks q w) = q_concurrency q"
  "q_removed (CancelTasks q w) = q_removed q" "q_id (CancelTasks q w) = q_id q"
  by (simp_all add: CancelTasks_def cancel_fifo_eq cancel_prio_eq)

lemma CancelTasks_pending:
  assumes "queue_inv q"
  shows "pending (CancelTasks q w) = filter (\<lambda>t. task_key t \<noteq> w) (pending q)"
    and "q_cancelled (CancelTasks q w) = q_cancelled q @ filter (\<lambda>t. task_key t = w) (pending q)"
proof -
  have split: "map snd (filter (\<lambda>(k, t). task_key t \<noteq> w) ps) = filter (\<lambda>t. task_key t \<noteq> w) (map snd ps)" for ps :: "(32 word \<times> qtask) list"
    by (induction ps) auto
  show "pending (CancelTasks q w) = filter (\<lambda>t. task_key t \<noteq> w) (pending q)"
    using assms by (cases rule: queue_inv_cases)
      (simp_all add: CancelTasks_def cancel_fifo_eq cancel_prio_eq pending_def split)
  show "q_cancelled (CancelTasks q w) = q_cancelled q @ filter (\<lambda>t. task_key t = w) (pending q)"
    using assms by (cases rule: queue_inv_cases)
      (simp_all add: CancelTasks_def cancel_fifo_eq cancel_prio_eq pending_def)
qed

lemma CancelTasks_inv:
  assumes "queue_inv q"
  shows "queue_inv (CancelTasks q w)"
proof -
  let ?n = "length (filter (\<lambda>t. task_key t = w) (pending q))"
  have len: "length (filter (\<lambda>t. task_key t \<noteq> w) (pending q)) + ?n = length (pending q)"
    using filter_length_split [of "\<lambda>t. task_key t = w" "pending q"] by simp
  have "q_size (CancelTasks q w) = q_size q - of_nat ?n"
    using assms by (cases rule: queue_inv_cases)
      (simp_all add: CancelTasks_def cancel_fifo_eq cancel_prio_eq pending_def)
  also have "q_size q = of_nat (length (filter (\<lambda>t. task_key t \<noteq> w) (pending q)) + ?n)"
    using assms by (simp only: len) (simp add: queue_inv_def)
  also have "\<dots> - of_nat ?n = of_nat (length (pending (CancelTasks q w)))"
    using assms by (simp add: CancelTasks_pending)
  finally have size: "q_size (CancelTasks q w) = of_nat (length (pending (CancelTasks q w)))" .
  have "length (pending (CancelTasks q w)) < 2 ^ 32"
    using assms len by (simp add: CancelTasks_pending queue_inv_def)
  with size assms show ?thesis
    by (simp add: queue_inv_def) (auto simp: CancelTasks_def cancel_fifo_eq cancel_prio_eq
      prio_inv_filter)
qed

lemma SetScheduler_inv:
  assumes "queue_inv q" "s = QUEUE_SCHEDULER_FIFO \<or> s = QUEUE_SCHEDULER_PRIO"
  shows "queue_inv (SetScheduler q s) \<and> mset (pending (SetScheduler q s)) = mset (pending q)"
proof (cases "s = q_scheduler q")
  case True
  then show ?thesis using assms by (simp add: SetScheduler_def)
next
  case False
  from assms(1) show ?thesis
  proof (cases rule: queue_inv_cases)
    case 1
    with False assms(2) have s: "s = QUEUE_SCHEDULER_PRIO" by auto
    let ?p = "foldl prio_push [] (q_fifo q)"
    have "prio_inv ?p" by (rule prio.cinv_foldl) (simp add: prio_inv_def mmap_inv_def)
    moreover have "mset (map snd ?p) = mset (q_fifo q)" using prio.items_foldl [of "[]"] by simp
    moreover have "length ?p = length (q_fifo q)" using prio.length_items_foldl [of "[]"] by simp
    ultimately show ?thesis using 1 s assms(1)
      by (auto simp: SetScheduler_def queue_inv_def pending_def)
  next
    case 2
    with False assms(2) have s: "s = QUEUE_SCHEDULER_FIFO" by auto
    then show ?thesis using 2 assms(1) by (auto simp: SetScheduler_def queue_inv_def pending_def)
  qed
qed

lemma pending_frame [simp]:
  "pending (ExecuteTask q) = pending q" "pending (TerminateTask q) = pending q"
  "pending (SetConcurrency q c) = pending q" "pending (SetDynamic q d) = pending q"
  "pending (Remove q) = pending q"
  by (simp_all add: pending_def ExecuteTask_def TerminateTask_def SetConcurrency_def
      SetDynamic_def Remove_def)

lemma queue_inv_frame [simp]:
  "queue_inv (ExecuteTask q) = queue_inv q" "queue_inv (TerminateTask q) = queue_inv q"
  "queue_inv (SetConcurrency q c) = queue_inv q" "queue_inv (SetDynamic q d) = queue_inv q"
  "queue_inv (Remove q) = queue_inv q"
  by (simp_all add: queue_inv_def) (simp_all add: ExecuteTask_def TerminateTask_def
      SetConcurrency_def SetDynamic_def Remove_def)

end
