(* ===== verification/QueueSpec.thy ===== *)
theory QueueSpec
  imports EvqQueue
begin

text \<open>
  The abstract queue and the proof that \<open>Queue\<close> implements it. Abstractly a queue is the list of
  its waiting tasks in the order they leave, the cancelled tasks, the number of running tasks and
  the concurrency. Under the fifo scheduler a task goes to the end; under the prio scheduler it
  goes after the tasks of its own and of older instances; changing to prio is a stable sort.
\<close>

section \<open>Abstract queue\<close>

record aqueue =
  a_prio :: bool
  a_wait :: "qtask list"
  a_cancelled :: "qtask list"
  a_running :: "32 word"
  a_concurrency :: "32 word"

datatype qop = OpEnqueue qtask | OpDequeue | OpExecute | OpTerminate | OpCancel "32 word"
  | OpConcurrency "32 word" | OpDynamic bool | OpScheduler int | OpRemove

fun stable_insert :: "qtask \<Rightarrow> qtask list \<Rightarrow> qtask list" where
  "stable_insert t [] = [t]"
| "stable_insert t (u # us) = (if task_key t < task_key u then t # u # us else u # stable_insert t us)"

fun spec_step :: "aqueue \<Rightarrow> qop \<Rightarrow> qtask option \<times> aqueue" where
  "spec_step a (OpEnqueue t) =
     (None, a\<lparr>a_wait := (if a_prio a then stable_insert t (a_wait a) else a_wait a @ [t])\<rparr>)"
| "spec_step a OpDequeue =
     (case a_cancelled a of
        t # ts \<Rightarrow> (Some t, a\<lparr>a_cancelled := ts\<rparr>)
      | [] \<Rightarrow>
         (case a_wait a of
            [] \<Rightarrow> (None, a)
          | t # ts \<Rightarrow> if a_running a < a_concurrency a then (Some t, a\<lparr>a_wait := ts\<rparr>) else (None, a)))"
| "spec_step a OpExecute = (None, a\<lparr>a_running := a_running a + 1\<rparr>)"
| "spec_step a OpTerminate = (None, a\<lparr>a_running := a_running a - 1\<rparr>)"
| "spec_step a (OpCancel w) =
     (None, a\<lparr>a_wait := filter (\<lambda>t. task_key t \<noteq> w) (a_wait a),
              a_cancelled := a_cancelled a @ filter (\<lambda>t. task_key t = w) (a_wait a)\<rparr>)"
| "spec_step a (OpConcurrency c) = (None, a\<lparr>a_concurrency := c\<rparr>)"
| "spec_step a (OpDynamic d) = (None, a)"
| "spec_step a (OpScheduler s) =
     (None, a\<lparr>a_prio := (s = QUEUE_SCHEDULER_PRIO),
              a_wait := (if s = QUEUE_SCHEDULER_PRIO \<and> \<not> a_prio a
                         then sort_key task_key (a_wait a) else a_wait a)\<rparr>)"
| "spec_step a OpRemove = (None, a)"

fun queue_step :: "queue \<Rightarrow> qop \<Rightarrow> (qtask option \<times> queue) res" where
  "queue_step q (OpEnqueue t) = Inr (None, EnqueueTask q t)"
| "queue_step q OpDequeue = DequeueTask q"
| "queue_step q OpExecute = Inr (None, ExecuteTask q)"
| "queue_step q OpTerminate = Inr (None, TerminateTask q)"
| "queue_step q (OpCancel w) = Inr (None, CancelTasks q w)"
| "queue_step q (OpConcurrency c) = Inr (None, SetConcurrency q c)"
| "queue_step q (OpDynamic d) = Inr (None, SetDynamic q d)"
| "queue_step q (OpScheduler s) = Inr (None, SetScheduler q s)"
| "queue_step q OpRemove = Inr (None, Remove q)"

text \<open>
  What the callers guarantee: the size of a queue stays below the range of its counter, and a
  scheduler number comes from \<open>get_scheduler_from_string\<close>.
\<close>

fun op_ok :: "queue \<Rightarrow> qop \<Rightarrow> bool" where
  "op_ok q (OpEnqueue t) \<longleftrightarrow> Suc (length (pending q)) < 2 ^ 32"
| "op_ok q (OpScheduler s) \<longleftrightarrow> s = QUEUE_SCHEDULER_FIFO \<or> s = QUEUE_SCHEDULER_PRIO"
| "op_ok q _ \<longleftrightarrow> True"

definition abs_queue :: "queue \<Rightarrow> aqueue" where
  "abs_queue q = \<lparr>a_prio = (q_scheduler q = QUEUE_SCHEDULER_PRIO), a_wait = pending q,
     a_cancelled = q_cancelled q, a_running = q_running q, a_concurrency = q_concurrency q\<rparr>"

section \<open>Containers against their specification\<close>

lemma prio_inv_keys: "prio_inv m \<Longrightarrow> map fst m = map task_key (map snd m)"
  by (induction m) (auto simp: prio_inv_def mmap_inv_def)

lemma prio_inv_Cons: "prio_inv ((k, u) # m) \<Longrightarrow> k = task_key u \<and> prio_inv m"
  by (auto simp: prio_inv_def mmap_inv_def)

lemma prio_push_stable: "prio_inv m \<Longrightarrow> map snd (prio_push m t) = stable_insert t (map snd m)"
proof (induction m)
  case (Cons x m)
  obtain k u where x: "x = (k, u)" by (cases x)
  with Cons.prems have "k = task_key u" "prio_inv m" using prio_inv_Cons by auto
  then show ?case using Cons.IH x by simp
qed simp

lemma sorted_pending: "prio_inv m \<Longrightarrow> sorted (map task_key (map snd m))"
  using prio_inv_keys [of m] by (simp add: prio_inv_def mmap_inv_def del: map_map)

lemma stable_insert_filter:
  "sorted (map task_key us) \<Longrightarrow>
   filter (\<lambda>x. k = task_key x) (stable_insert t us) =
     filter (\<lambda>x. k = task_key x) us @ (if k = task_key t then [t] else [])"
proof (induction us)
  case (Cons u us)
  show ?case
  proof (cases "task_key t < task_key u")
    case True
    have "k = task_key t \<Longrightarrow> filter (\<lambda>x. k = task_key x) (u # us) = []"
      using True Cons.prems by (auto simp: filter_empty_conv)
    then show ?thesis using True by auto
  next
    case False
    have IH: "filter (\<lambda>x. k = task_key x) (stable_insert t us) =
        filter (\<lambda>x. k = task_key x) us @ (if k = task_key t then [t] else [])"
      using Cons by simp
    show ?thesis using False by (simp only: stable_insert.simps if_False filter.simps IH) simp
  qed
qed simp

lemma foldl_prio_push:
  assumes "prio_inv m"
  shows "filter (\<lambda>x. k = task_key x) (map snd (foldl prio_push m ts)) =
           filter (\<lambda>x. k = task_key x) (map snd m) @ filter (\<lambda>x. k = task_key x) ts"
  using assms
proof (induction ts arbitrary: m)
  case (Cons t ts)
  have "prio_inv (prio_push m t)" by (rule prio.cinv_push) (rule Cons.prems)
  then show ?case
    using Cons.IH [of "prio_push m t"] stable_insert_filter [OF sorted_pending [OF Cons.prems], of k t]
    by (simp add: prio_push_stable [OF Cons.prems] del: map_map)
qed simp

lemma prio_inv_Nil [simp]: "prio_inv []"
  by (simp add: prio_inv_def mmap_inv_def)

text \<open>Migrating a fifo queue is a stable sort by instance number.\<close>

lemma migrate_sort: "map snd (foldl prio_push [] ts) = sort_key task_key ts"
proof (rule properties_for_sort_key [symmetric])
  show "mset (map snd (foldl prio_push [] ts)) = mset ts"
    using prio.items_foldl [of "[]" ts] by simp
  show "filter (\<lambda>x. task_key k = task_key x) (map snd (foldl prio_push [] ts)) =
      filter (\<lambda>x. task_key k = task_key x) ts" for k
    by (simp add: foldl_prio_push del: map_map)
  show "sorted (map task_key (map snd (foldl prio_push [] ts)))"
    by (rule sorted_pending) (rule prio.cinv_foldl, simp)
qed

section \<open>Refinement, operation by operation\<close>

named_theorems refine "one operation of the queue against the abstract queue"

lemma refine_Enqueue [refine]:
  assumes "queue_inv q"
  shows "spec_step (abs_queue q) (OpEnqueue t) = (None, abs_queue (EnqueueTask q t))"
  using assms by (cases rule: queue_inv_cases)
    (simp_all add: abs_queue_def pending_Enqueue_fifo pending_Enqueue_prio prio_push_stable)

lemma refine_Dequeue [refine]:
  assumes "queue_inv q"
  shows "\<exists>r q'. DequeueTask q = Inr (r, q') \<and> queue_inv q' \<and>
           spec_step (abs_queue q) OpDequeue = (r, abs_queue q')"
proof (cases "q_cancelled q")
  case (Cons t ts)
  let ?q = "q\<lparr>q_cancelled := ts\<rparr>"
  have "pending ?q = pending q" by (simp add: pending_def)
  then have "queue_inv ?q" "spec_step (abs_queue q) OpDequeue = (Some t, abs_queue ?q)"
    using assms Cons by (simp_all add: queue_inv_def abs_queue_def)
  then show ?thesis using DequeueTask_cancelled [OF Cons] by blast
next
  case Nil
  show ?thesis
  proof (cases "IsLocked q")
    case True
    then have "pending q = [] \<or> \<not> q_running q < q_concurrency q"
      using Nil assms queue_inv_size [OF assms]
      by (auto simp: IsLocked_def word_gt_0 simp flip: unat_eq_0 split: if_splits)
    then have "spec_step (abs_queue q) OpDequeue = (None, abs_queue q)"
      using Nil by (auto simp: abs_queue_def split: list.splits)
    then show ?thesis using DequeueTask_locked [OF True] assms by blast
  next
    case False
    note pend = unlocked_pending [OF assms False Nil]
    obtain q' where "DequeueTask q = Inr (Some (hd (pending q)), q')" "queue_inv q'"
      "abs_queue q' = (abs_queue q)\<lparr>a_wait := tl (pending q)\<rparr>"
      using DequeueTask_waiting [OF assms False Nil] Nil by (metis (no_types, lifting)
        abs_queue_def aqueue.update_convs(2))
    moreover have "spec_step (abs_queue q) OpDequeue =
        (Some (hd (pending q)), (abs_queue q)\<lparr>a_wait := tl (pending q)\<rparr>)"
      using pend Nil by (cases "pending q") (auto simp: abs_queue_def)
    ultimately show ?thesis by auto
  qed
qed

lemma refine_Cancel [refine]:
  "queue_inv q \<Longrightarrow> spec_step (abs_queue q) (OpCancel w) = (None, abs_queue (CancelTasks q w))"
  by (simp add: abs_queue_def CancelTasks_pending)

lemma SetScheduler_scheduler [simp]: "q_scheduler (SetScheduler q s) = s"
  by (simp add: SetScheduler_def Let_def)

lemma SetScheduler_frame [simp]:
  "q_cancelled (SetScheduler q s) = q_cancelled q" "q_running (SetScheduler q s) = q_running q"
  "q_concurrency (SetScheduler q s) = q_concurrency q" "q_name (SetScheduler q s) = q_name q"
  "q_removed (SetScheduler q s) = q_removed q" "q_id (SetScheduler q s) = q_id q"
  "q_size (SetScheduler q s) = q_size q"
  by (simp_all add: SetScheduler_def Let_def)

lemma SetScheduler_pending:
  assumes "queue_inv q" "s = QUEUE_SCHEDULER_FIFO \<or> s = QUEUE_SCHEDULER_PRIO"
  shows "pending (SetScheduler q s) =
    (if s = QUEUE_SCHEDULER_PRIO \<and> q_scheduler q \<noteq> QUEUE_SCHEDULER_PRIO
     then sort_key task_key (pending q) else pending q)"
proof (cases "s = q_scheduler q")
  case True
  then show ?thesis by (auto simp: SetScheduler_def)
next
  case False
  from assms(1) show ?thesis
  proof (cases rule: queue_inv_cases)
    case 1
    with False assms(2) show ?thesis
      using migrate_sort [of "q_fifo q"] by (auto simp: SetScheduler_def pending_def)
  next
    case 2
    with False assms(2) show ?thesis by (auto simp: SetScheduler_def pending_def)
  qed
qed

lemma refine_Scheduler [refine]:
  assumes "queue_inv q" "s = QUEUE_SCHEDULER_FIFO \<or> s = QUEUE_SCHEDULER_PRIO"
  shows "spec_step (abs_queue q) (OpScheduler s) = (None, abs_queue (SetScheduler q s))"
  using SetScheduler_pending [OF assms] by (simp add: abs_queue_def)

lemma refine_frame [refine]:
  "spec_step (abs_queue q) OpExecute = (None, abs_queue (ExecuteTask q))"
  "spec_step (abs_queue q) OpTerminate = (None, abs_queue (TerminateTask q))"
  "spec_step (abs_queue q) (OpConcurrency c) = (None, abs_queue (SetConcurrency q c))"
  "spec_step (abs_queue q) (OpDynamic d) = (None, abs_queue (SetDynamic q d))"
  "spec_step (abs_queue q) OpRemove = (None, abs_queue (Remove q))"
  by (simp_all add: abs_queue_def)
    (simp_all add: ExecuteTask_def TerminateTask_def SetConcurrency_def SetDynamic_def Remove_def)

section \<open>Properties\<close>

definition sample_task :: "nat \<Rightarrow> qtask" where
  "sample_task n = \<lparr>workflow_instance = \<lparr>wi_ptr = n, wi_id = of_nat n\<rparr>, task_node = n\<rparr>"

definition sample_queue :: queue where
  "sample_queue = \<lparr>q_id = 1, q_name = ''default'', q_dynamic = False, q_concurrency = 2,
     q_size = 0, q_running = 0, q_prio = [], q_fifo = [], q_cancelled = [],
     q_wanted_scheduler = ''fifo'', q_scheduler = QUEUE_SCHEDULER_FIFO, q_removed = False\<rparr>"

lemma sample_queue_inv: "queue_inv sample_queue" "pending sample_queue = []"
  by (simp_all add: sample_queue_def queue_inv_def pending_def)

text \<open>C1: Every operation of a queue returns (no undefined behaviour), keeps the representation
  invariant, and does to the waiting, cancelled and running tasks exactly what the abstract queue
  does: fifo order or oldest instance first, cancelled tasks before all others, a task given out
  only while fewer than \<open>concurrency\<close> tasks run, a change of scheduler a stable sort.\<close>

theorem queue_refines:
  assumes "queue_inv q" "op_ok q op"
  shows "\<exists>r q'. queue_step q op = Inr (r, q') \<and> queue_inv q' \<and>
           spec_step (abs_queue q) op = (r, abs_queue q')"
  using assms refine_Dequeue [OF assms(1)]
  by (cases op) (auto simp: refine EnqueueTask_inv CancelTasks_inv SetScheduler_inv
      simp del: spec_step.simps)

theorem queue_refines_witness:
  "\<exists>r q'. queue_step sample_queue (OpEnqueue (sample_task 7)) = Inr (r, q') \<and> queue_inv q' \<and>
     spec_step (abs_queue sample_queue) (OpEnqueue (sample_task 7)) = (r, abs_queue q')"
  by (rule queue_refines) (simp_all add: sample_queue_inv)

end
