(* ===== verification/QueuePool.thy ===== *)
theory QueuePool
  imports QueueSpec
begin

text \<open>
  The pool of all queues: class \<open>QueuePool\<close> of src/Queue/QueuePool.cpp.

  The pool owns the \<open>Queue\<close> objects through two indexes, by name and by id, and a table from task
  ids to the queue, task and workflow instance that run under it. Objects live at addresses of the
  heap; a freed address holds nothing, and using it is undefined behaviour, so that the lifetime
  of the queues is part of what is proved. Every operation runs under the lock of the pool and is
  one step, except \<open>DequeueTask\<close>, which gives the lock up while it waits: it is the two steps
  \<open>pool_Dequeue_enter\<close> and \<open>pool_Dequeue_resume\<close>. The result of an operation that may
  throw carries the state the exception leaves. \<open>fork_signal\<close> records that the thread waiting in
  \<open>DequeueTask\<close> has been notified; \<open>pool_events\<close> the events handed to the websockets.
\<close>

section \<open>State\<close>

record pool =
  default_scheduler :: int
  queues_name :: "(string, nat) smap"
  queues_id :: "(32 word, nat) smap"
  heap :: "nat \<Rightarrow> queue option"
  next_addr :: nat
  tid_queue :: "nat list"
  tid_task :: "nat list"
  tid_workflow_instance :: "winst option list"
  maxpid :: "32 word"
  lasttid :: "32 word"
  fork_locked :: bool
  fork_possible :: bool
  fork_signal :: bool
  is_shutting_down :: bool
  pool_events :: "string list"

text \<open>A row of \<open>t_queue\<close>.\<close>

record queue_row =
  row_id :: int
  row_name :: string
  row_concurrency :: int
  row_scheduler :: string
  row_dynamic :: int

definition deref :: "pool \<Rightarrow> nat \<Rightarrow> queue res" where
  "deref p a = (case heap p a of None \<Rightarrow> Inl (UB ''use after free'') | Some q \<Rightarrow> Inr q)"

definition set_queue :: "pool \<Rightarrow> nat \<Rightarrow> queue \<Rightarrow> pool" where
  "set_queue p a q = p\<lparr>heap := (heap p)(a \<mapsto> q)\<rparr>"

definition delete_queue :: "pool \<Rightarrow> nat \<Rightarrow> pool" where
  "delete_queue p a = p\<lparr>heap := (heap p)(a := None)\<rparr>"

definition alloc_queue :: "pool \<Rightarrow> queue \<Rightarrow> nat \<times> pool" where
  "alloc_queue p q = (next_addr p, p\<lparr>heap := (heap p)(next_addr p \<mapsto> q), next_addr := Suc (next_addr p)\<rparr>)"

section \<open>Operations\<close>

definition get_scheduler_from_string :: "int \<Rightarrow> string \<Rightarrow> int res" where
  "get_scheduler_from_string dflt s =
     (if s = ''default'' then Inr dflt
      else if s = ''fifo'' then Inr QUEUE_SCHEDULER_FIFO
      else if s = ''prio'' then Inr QUEUE_SCHEDULER_PRIO
      else Inl (Exn ''QueuePool''
        (''Invalid scheduler name, allowed values are '' @ [CHR 0x27] @ ''fifo'' @ [CHR 0x27] @
         '' or '' @ [CHR 0x27] @ ''prio'' @ [CHR 0x27]) []))"

definition get_scheduler_from_int :: "int \<Rightarrow> string" where
  "get_scheduler_from_int s =
     (if s = QUEUE_SCHEDULER_FIFO then ''fifo''
      else if s = QUEUE_SCHEDULER_PRIO then ''prio'' else [])"

fun all_locked :: "pool \<Rightarrow> (string \<times> nat) list \<Rightarrow> bool res" where
  "all_locked p [] = Inr True"
| "all_locked p ((n, a) # its) =
     bindr (deref p a) (\<lambda>q. if \<not> EvqQueue.IsLocked q then Inr False else all_locked p its)"

definition pool_IsLocked :: "pool \<Rightarrow> bool res" where
  "pool_IsLocked p = all_locked p (queues_name p)"

text \<open>
  The last lines of every operation: \<open>fork_possible\<close> is computed again, and a waiting
  dequeuer is notified when it can go on.
\<close>

definition update_fork :: "pool \<Rightarrow> pool res" where
  "update_fork p =
     bindr (pool_IsLocked p) (\<lambda>l.
       let p' = p\<lparr>fork_possible := \<not> l\<rparr>
       in Inr (if fork_locked p' \<and> fork_possible p' then p'\<lparr>fork_signal := True\<rparr> else p'))"

definition pool_event :: "string \<Rightarrow> pool \<Rightarrow> pool" where
  "pool_event e p = p\<lparr>pool_events := pool_events p @ [e]\<rparr>"

text \<open>The queue a task goes to: \<open>name@host\<close> of a dynamic queue, created when it is not there.\<close>

definition enqueue_target :: "pool \<Rightarrow> queue \<Rightarrow> nat \<Rightarrow> string \<Rightarrow> string \<Rightarrow> (nat \<times> pool) res" where
  "enqueue_target p q a queue_name queue_host =
     (if \<not> q_dynamic q \<or> queue_host = [] then Inr (a, p)
      else
        let dynamic_queue_name = queue_name @ ''@'' @ queue_host
        in case smap_find (queues_name p) dynamic_queue_name of
             Some d \<Rightarrow> Inr (d, p)
           | None \<Rightarrow>
               bindr (Queue_new (q_id q) dynamic_queue_name (sint (q_concurrency q)) (q_scheduler q)
                        (q_wanted_scheduler q) False)
                 (\<lambda>dq. let (d, p') = alloc_queue p (Remove dq)
                        in Inr (d, p'\<lparr>queues_name := smap_put (queues_name p') dynamic_queue_name d\<rparr>)))"

definition pool_EnqueueTask ::
  "pool \<Rightarrow> string \<Rightarrow> string \<Rightarrow> qtask \<Rightarrow> (bool \<times> pool) res" where
  "pool_EnqueueTask p queue_name queue_host t =
     (case smap_find (queues_name p) queue_name of
        None \<Rightarrow> Inr (False, p)
      | Some a \<Rightarrow>
          bindr (deref p a) (\<lambda>q.
          bindr (enqueue_target p q a queue_name queue_host) (\<lambda>(d, p1).
          bindr (deref p1 d) (\<lambda>dq.
          bindr (update_fork (set_queue p1 d (EvqQueue.EnqueueTask dq t))) (\<lambda>p2.
            Inr (True, pool_event ''QUEUE_ENQUEUE'' p2))))))"

text \<open>The first half of \<open>DequeueTask\<close>: leave, wait, or go on at once.\<close>

datatype deq_wait = DeqExit | DeqWait | DeqGo

definition pool_Dequeue_enter :: "pool \<Rightarrow> deq_wait \<times> pool" where
  "pool_Dequeue_enter p =
     (if is_shutting_down p then (DeqExit, p)
      else if \<not> fork_possible p then (DeqWait, p\<lparr>fork_locked := True, fork_signal := False\<rparr>)
      else (DeqGo, p))"

fun dequeue_scan :: "pool \<Rightarrow> (string \<times> nat) list \<Rightarrow> ((string \<times> qtask) option \<times> pool) res" where
  "dequeue_scan p [] = Inr (None, p)"
| "dequeue_scan p ((n, a) # its) =
     bindr (deref p a) (\<lambda>q.
     bindr (EvqQueue.DequeueTask q) (\<lambda>(r, q').
       case r of
         Some t \<Rightarrow>
           (let p1 = set_queue p a q'
            in bindr (pool_IsLocked p1) (\<lambda>l.
                 Inr (Some (n, t), pool_event ''QUEUE_DEQUEUE'' (p1\<lparr>fork_possible := \<not> l\<rparr>))))
       | None \<Rightarrow> dequeue_scan (set_queue p a q') its))"

text \<open>The second half, once the dequeuer holds the lock again; \<open>None\<close> is the result false.\<close>

definition pool_Dequeue_resume :: "pool \<Rightarrow> ((string \<times> qtask) option \<times> pool) res" where
  "pool_Dequeue_resume p =
     (if is_shutting_down p then Inr (None, p)
      else let p1 = p\<lparr>fork_locked := False\<rparr> in dequeue_scan p1 (queues_name p1))"

text \<open>The loop that looks for a free task id: the id tried last and whether it is free.\<close>

fun alloc_tid :: "pool \<Rightarrow> 32 word \<Rightarrow> nat list \<Rightarrow> 32 word \<times> bool" where
  "alloc_tid p t [] = (t, False)"
| "alloc_tid p t (i # is) =
     (let t' = (lasttid p + 1 + of_nat i) mod maxpid p
      in if tid_workflow_instance p ! unat t' = None then (t', True) else alloc_tid p t' is)"

text \<open>\<open>ExecuteTask\<close> from the point where it holds the lock and the pointer to the queue.\<close>

definition tid_valid :: "pool \<Rightarrow> int \<Rightarrow> bool" where
  "tid_valid p t \<longleftrightarrow> 0 \<le> t \<and> t \<le> uint (maxpid p)"

definition occupy_tid :: "pool \<Rightarrow> nat \<Rightarrow> qtask \<Rightarrow> nat \<Rightarrow> pool" where
  "occupy_tid p a t i =
     p\<lparr>tid_queue := (tid_queue p)[i := a], tid_task := (tid_task p)[i := task_node t],
       tid_workflow_instance := (tid_workflow_instance p)[i := Some (workflow_instance t)]\<rparr>"

definition free_tid :: "pool \<Rightarrow> nat \<Rightarrow> pool" where
  "free_tid p i =
     p\<lparr>tid_queue := (tid_queue p)[i := 0], tid_task := (tid_task p)[i := 0],
       tid_workflow_instance := (tid_workflow_instance p)[i := None]\<rparr>"

definition execute_at :: "pool \<Rightarrow> nat \<Rightarrow> qtask \<Rightarrow> int \<Rightarrow> (int \<times> pool) res" where
  "execute_at p a t task_id =
     (if \<not> tid_valid p task_id then Inl (UB ''task id out of range'')
      else bindr (deref p a) (\<lambda>q.
           bindr (update_fork (set_queue (occupy_tid p a t (nat task_id)) a (EvqQueue.ExecuteTask q)))
             (\<lambda>p2. Inr (task_id, pool_event ''QUEUE_EXECUTE'' p2))))"

definition execute_locked :: "pool \<Rightarrow> nat \<Rightarrow> qtask \<Rightarrow> int \<Rightarrow> (int \<times> pool) res" where
  "execute_locked p a t task_id =
     (if task_id = 0 then
        (let (tid, found) = alloc_tid p 0 [0..<unat (maxpid p)];
             p1 = p\<lparr>lasttid := tid\<rparr>
         in if found then execute_at p1 a t (uint tid) else Inr (0, p1))
      else execute_at p a t task_id)"

definition pool_ExecuteTask :: "pool \<Rightarrow> qtask \<Rightarrow> string \<Rightarrow> int \<Rightarrow> (int \<times> pool) res" where
  "pool_ExecuteTask p t queue_name task_id =
     (case smap_find (queues_name p) queue_name of
        None \<Rightarrow> Inr (0, p)
      | Some a \<Rightarrow> execute_locked p a t task_id)"

text \<open>A queue marked as removed goes away with its last task.\<close>

definition reap_queue :: "pool \<Rightarrow> nat \<Rightarrow> queue \<Rightarrow> pool" where
  "reap_queue p a q =
     (if q_removed q \<and> q_size q = 0 \<and> q_running q = 0
      then delete_queue (p\<lparr>queues_name := smap_del (queues_name p) (q_name q)\<rparr>) a else p)"

definition pool_TerminateTask :: "pool \<Rightarrow> int \<Rightarrow> (qtask option \<times> pool) res" where
  "pool_TerminateTask p task_id =
     (if \<not> tid_valid p task_id then Inl (UB ''task id out of range'')
      else let i = nat task_id in
        case tid_workflow_instance p ! i of
          None \<Rightarrow> Inr (None, p)
        | Some wi \<Rightarrow>
            let a = tid_queue p ! i in
            bindr (deref p a) (\<lambda>q0.
              let q = EvqQueue.TerminateTask q0;
                  t = \<lparr>workflow_instance = wi, task_node = tid_task p ! i\<rparr>;
                  p1 = free_tid (set_queue p a q) i
              in bindr (update_fork (reap_queue p1 a q)) (\<lambda>p2.
                   Inr (Some t, pool_event ''QUEUE_TERMINATE'' p2))))"

definition pool_GetTask :: "pool \<Rightarrow> int \<Rightarrow> qtask option res" where
  "pool_GetTask p task_id =
     (if \<not> tid_valid p task_id then Inl (UB ''task id out of range'')
      else case tid_workflow_instance p ! nat task_id of
             None \<Rightarrow> Inr None
           | Some wi \<Rightarrow> Inr (Some \<lparr>workflow_instance = wi, task_node = tid_task p ! nat task_id\<rparr>))"

fun cancel_all :: "pool \<Rightarrow> (string \<times> nat) list \<Rightarrow> 32 word \<Rightarrow> pool res" where
  "cancel_all p [] wid = Inr p"
| "cancel_all p ((n, a) # its) wid =
     bindr (deref p a) (\<lambda>q. cancel_all (set_queue p a (EvqQueue.CancelTasks q wid)) its wid)"

definition pool_CancelTasks :: "pool \<Rightarrow> 32 word \<Rightarrow> pool res" where
  "pool_CancelTasks p wid = bindr (cancel_all p (queues_name p) wid) update_fork"

text \<open>\<open>Reload\<close>: drop the idle queues and mark the others, then read the table.\<close>

fun reload_sweep :: "pool \<Rightarrow> (string \<times> nat) list \<Rightarrow> pool res" where
  "reload_sweep p [] = Inr p"
| "reload_sweep p ((n, a) # its) =
     bindr (deref p a) (\<lambda>q.
       if q_size q = 0 \<and> q_running q = 0
       then reload_sweep
              (delete_queue (p\<lparr>queues_id := smap_del (queues_id p) (q_id q),
                               queues_name := smap_del (queues_name p) n\<rparr>) a) its
       else reload_sweep (set_queue p a (Remove q)) its)"

definition reload_row :: "pool \<Rightarrow> queue_row \<Rightarrow> pool res" where
  "reload_row p r =
     (case smap_find (queues_name p) (row_name r) of
        None \<Rightarrow>
          bindr (get_scheduler_from_string (default_scheduler p) (row_scheduler r)) (\<lambda>s.
          bindr (Queue_new (word_of_int (row_id r)) (row_name r) (row_concurrency r) s
                   (row_scheduler r) (row_dynamic r \<noteq> 0)) (\<lambda>q.
            let (a, p1) = alloc_queue p q
            in Inr (p1\<lparr>queues_id := smap_put (queues_id p1) (word_of_int (row_id r)) a,
                       queues_name := smap_put (queues_name p1) (row_name r) a\<rparr>)))
      | Some a \<Rightarrow>
          bindr (deref p a) (\<lambda>q.
            let q1 = SetConcurrency q (word_of_int (row_concurrency r)); p1 = set_queue p a q1
            in bindr (get_scheduler_from_string (default_scheduler p) (row_scheduler r))
                 (\<lambda>s. Inr (set_queue p1 a (SetScheduler q1 s)))))"

text \<open>
  A row with a bad name or scheduler throws; the rows before it stay applied, and the lock
  state is not computed again. (The concurrency already set on that row's queue is the one change
  of the row itself that stays.)
\<close>

definition reload_row_fault :: "pool \<Rightarrow> queue_row \<Rightarrow> pool" where
  "reload_row_fault p r =
     (case smap_find (queues_name p) (row_name r) of
        None \<Rightarrow> p
      | Some a \<Rightarrow> (case heap p a of
            None \<Rightarrow> p
          | Some q \<Rightarrow> set_queue p a (SetConcurrency q (word_of_int (row_concurrency r)))))"

fun reload_rows :: "pool \<Rightarrow> queue_row list \<Rightarrow> unit res \<times> pool" where
  "reload_rows p [] = (Inr (), p)"
| "reload_rows p (r # rs) =
     (case reload_row p r of
        Inl e \<Rightarrow> (Inl e, reload_row_fault p r)
      | Inr p' \<Rightarrow> reload_rows p' rs)"

definition pool_Reload :: "pool \<Rightarrow> queue_row list \<Rightarrow> unit res \<times> pool" where
  "pool_Reload p rows =
     (case reload_sweep p (queues_name p) of
        Inl e \<Rightarrow> (Inl e, p)
      | Inr p1 \<Rightarrow>
          (case reload_rows p1 rows of
             (Inl e, p2) \<Rightarrow> (Inl e, p2)
           | (Inr _, p2) \<Rightarrow>
               (case update_fork p2 of Inl e \<Rightarrow> (Inl e, p2) | Inr p3 \<Rightarrow> (Inr (), p3))))"

definition pool_Shutdown :: "pool \<Rightarrow> pool" where
  "pool_Shutdown p =
     (let p1 = p\<lparr>is_shutting_down := True\<rparr>
      in if fork_locked p1 then p1\<lparr>fork_signal := True\<rparr> else p1)"

text \<open>The constructor, and the readers behind the queries.\<close>

definition pool_init :: "int \<Rightarrow> 32 word \<Rightarrow> pool" where
  "pool_init dflt maxp =
     \<lparr>default_scheduler = dflt, queues_name = [], queues_id = [], heap = (\<lambda>_. None), next_addr = 1,
      tid_queue = replicate (Suc (unat maxp)) 0, tid_task = replicate (Suc (unat maxp)) 0,
      tid_workflow_instance = replicate (Suc (unat maxp)) None, maxpid = maxp, lasttid = 0,
      fork_locked = False, fork_possible = False, fork_signal = False, is_shutting_down = False,
      pool_events = []\<rparr>"

definition QueuePool_new :: "int \<Rightarrow> 32 word \<Rightarrow> queue_row list \<Rightarrow> unit res \<times> pool" where
  "QueuePool_new dflt maxp rows = pool_Reload (pool_init dflt maxp) rows"

definition get_queue_id :: "pool \<Rightarrow> 32 word \<Rightarrow> queue option res" where
  "get_queue_id p i =
     (case smap_find (queues_id p) i of
        None \<Rightarrow> Inr None
      | Some a \<Rightarrow> bindr (deref p a) (\<lambda>q. Inr (Some q)))"

definition queue_attrs :: "queue \<Rightarrow> (string \<times> string) list" where
  "queue_attrs q =
     [(''id'', to_string (uint (q_id q))), (''name'', q_name q),
      (''concurrency'', to_string (uint (q_concurrency q))), (''scheduler'', q_wanted_scheduler q),
      (''dynamic'', if q_dynamic q then ''yes'' else ''no'')]"

definition pool_GetQueue :: "pool \<Rightarrow> 32 word \<Rightarrow> (string \<times> string) list res" where
  "pool_GetQueue p i =
     bindr (get_queue_id p i) (\<lambda>r. case r of
       None \<Rightarrow> Inl (Exn ''QueuePool'' ''Unable to find queue'' ''UNKNOWN_OBJECT'')
     | Some q \<Rightarrow> Inr (queue_attrs q))"

definition pool_GetQueueName :: "pool \<Rightarrow> 32 word \<Rightarrow> string res" where
  "pool_GetQueueName p i =
     bindr (get_queue_id p i) (\<lambda>r. case r of
       None \<Rightarrow> Inl (Exn ''QueuePool'' ''Unable to find queue'' [])
     | Some q \<Rightarrow> Inr (q_name q))"

definition pool_Exists :: "pool \<Rightarrow> 32 word \<Rightarrow> bool" where
  "pool_Exists p i = (smap_find (queues_id p) i \<noteq> None)"

definition pool_list :: "pool \<Rightarrow> (string \<times> string) list list res" where
  "pool_list p = mapr (\<lambda>(n, a). bindr (deref p a) (\<lambda>q. Inr (queue_attrs q))) (queues_name p)"

definition pool_SendStatistics :: "pool \<Rightarrow> (string \<times> string) list list res" where
  "pool_SendStatistics p =
     mapr (\<lambda>(n, a). bindr (deref p a) (\<lambda>q. Inr
       [(''name'', n), (''concurrency'', to_string (uint (q_concurrency q))),
        (''size'', to_string (uint (q_size q))), (''running_tasks'', to_string (uint (q_running q))),
        (''scheduler'', get_scheduler_from_int (q_scheduler q))])) (queues_name p)"
end
