(* ===== verification/PoolSafety.thy ===== *)
theory PoolSafety
  imports QueuePool
begin

text \<open>
  Safety of the queue pool. The invariant \<open>pool_inv\<close> says that every name leads to a live queue
  of that name in a good state, that every occupied task id belongs to a queue the pool still
  owns, and that the number of running tasks of a queue is the number of task ids it occupies.
  Every operation keeps it and none of them ends in undefined behaviour: a queue is never freed
  while a name or a task id leads to it. The index by id is not part of the invariant, because
  it does dangle (see \<open>reload_dangling_id\<close>).
\<close>

section \<open>Invariant\<close>

abbreviation slots :: "pool \<Rightarrow> (nat \<times> winst option) list" where
  "slots p \<equiv> zip (tid_queue p) (tid_workflow_instance p)"

definition running_at :: "(nat \<times> winst option) list \<Rightarrow> nat \<Rightarrow> nat" where
  "running_at sl a = length (filter (\<lambda>(b, w). b = a \<and> w \<noteq> None) sl)"

definition queue_at :: "(nat \<Rightarrow> queue option) \<Rightarrow> (nat \<times> winst option) list \<Rightarrow> string \<Rightarrow> nat \<Rightarrow> bool" where
  "queue_at h sl n a \<longleftrightarrow>
     (\<exists>q. h a = Some q \<and> q_name q = n \<and> queue_inv q \<and> q_running q = of_nat (running_at sl a))"

definition names_inv :: "(string, nat) smap \<Rightarrow> (nat \<Rightarrow> queue option) \<Rightarrow> (nat \<times> winst option) list \<Rightarrow> bool" where
  "names_inv nm h sl \<longleftrightarrow> smap_inv nm \<and>
     (\<forall>n a. smap_find nm n = Some a \<longrightarrow> queue_at h sl n a) \<and>
     (\<forall>b w. (b, Some w) \<in> set sl \<longrightarrow> (\<exists>n. smap_find nm n = Some b))"

definition frame_inv :: "pool \<Rightarrow> bool" where
  "frame_inv p \<longleftrightarrow>
     length (tid_queue p) = Suc (unat (maxpid p)) \<and> length (tid_task p) = Suc (unat (maxpid p)) \<and>
     length (tid_workflow_instance p) = Suc (unat (maxpid p)) \<and> unat (maxpid p) < 2 ^ 31 \<and>
     lasttid p \<le> maxpid p \<and>
     (default_scheduler p = QUEUE_SCHEDULER_FIFO \<or> default_scheduler p = QUEUE_SCHEDULER_PRIO)"

definition pool_inv :: "pool \<Rightarrow> bool" where
  "pool_inv p \<longleftrightarrow> names_inv (queues_name p) (heap p) (slots p) \<and>
     (\<forall>a. next_addr p \<le> a \<longrightarrow> heap p a = None) \<and> frame_inv p"

lemma names_inv_find: "names_inv nm h sl \<Longrightarrow> smap_find nm n = Some a \<Longrightarrow> queue_at h sl n a"
  by (simp add: names_inv_def)

lemma names_inv_smap: "names_inv nm h sl \<Longrightarrow> smap_inv nm"
  by (simp add: names_inv_def)

lemma names_inv_mem: "names_inv nm h sl \<Longrightarrow> (n, a) \<in> set nm \<longleftrightarrow> smap_find nm n = Some a"
  by (simp add: names_inv_def sm.find_in_pairs)

lemma names_inv_inj:
  assumes "names_inv nm h sl" "smap_find nm n = Some a" "smap_find nm m = Some a"
  shows "n = m"
  using names_inv_find [OF assms(1,2)] names_inv_find [OF assms(1,3)] by (auto simp: queue_at_def)

lemma names_invI:
  assumes "smap_inv nm" "\<And>n a. smap_find nm n = Some a \<Longrightarrow> queue_at h sl n a"
    "\<And>b w. (b, Some w) \<in> set sl \<Longrightarrow> \<exists>n. smap_find nm n = Some b"
  shows "names_inv nm h sl"
  unfolding names_inv_def using assms by blast

lemma names_inv_slot: "names_inv nm h sl \<Longrightarrow> (b, Some w) \<in> set sl \<Longrightarrow> \<exists>n. smap_find nm n = Some b"
  unfolding names_inv_def by blast

lemma queue_at_other: "b \<noteq> a \<Longrightarrow> queue_at (h(a := r)) sl n b = queue_at h sl n b"
  by (simp add: queue_at_def)

lemma queue_at_self:
  "queue_at (h(a \<mapsto> q)) sl n a \<longleftrightarrow>
     q_name q = n \<and> queue_inv q \<and> q_running q = of_nat (running_at sl a)"
  by (simp add: queue_at_def)

lemma names_inv_update:
  assumes "names_inv nm h sl" "smap_find nm n = Some a"
    "q_name q = n" "queue_inv q" "q_running q = of_nat (running_at sl a)"
  shows "names_inv nm (h(a \<mapsto> q)) sl"
proof (rule names_invI)
  fix m b assume b: "smap_find nm m = Some b"
  show "queue_at (h(a \<mapsto> q)) sl m b"
  proof (cases "b = a")
    case True
    then show ?thesis using names_inv_inj [OF assms(1,2)] b assms(3-) by (simp add: queue_at_self)
  next
    case False
    then show ?thesis using names_inv_find [OF assms(1) b] by (simp add: queue_at_other)
  qed
qed (use names_inv_smap [OF assms(1)] names_inv_slot [OF assms(1)] in auto)

lemma running_at_unused:
  "names_inv nm h sl \<Longrightarrow> (\<And>n. smap_find nm n \<noteq> Some a) \<Longrightarrow> running_at sl a = 0"
  using names_inv_slot [of nm h sl a] by (fastforce simp: running_at_def filter_empty_conv)

lemma names_inv_unowned: "names_inv nm h sl \<Longrightarrow> h a = None \<Longrightarrow> smap_find nm n \<noteq> Some a"
  using names_inv_find [of nm h sl n a] by (auto simp: queue_at_def)

lemma names_inv_add:
  assumes "names_inv nm h sl" "h a = None" "smap_find nm n = None"
    "q_name q = n" "queue_inv q" "q_running q = 0"
  shows "names_inv (smap_put nm n a) (h(a \<mapsto> q)) sl"
proof (rule names_invI)
  note inv = names_inv_smap [OF assms(1)]
  show "smap_inv (smap_put nm n a)" using inv by (rule sm.inv_put)
  have run: "running_at sl a = 0"
    using running_at_unused [OF assms(1)] names_inv_unowned [OF assms(1,2)] by blast
  show "queue_at (h(a \<mapsto> q)) sl m b" if b: "smap_find (smap_put nm n a) m = Some b" for m b
  proof (cases "m = n")
    case True
    with b inv run assms(4-) show ?thesis by (simp add: sm.find_put queue_at_self)
  next
    case False
    with b inv have "smap_find nm m = Some b" by (simp add: sm.find_put)
    with names_inv_find [OF assms(1)] names_inv_unowned [OF assms(1,2)] show ?thesis
      by (metis queue_at_other)
  qed
  show "\<exists>m. smap_find (smap_put nm n a) m = Some b" if "(b, Some w) \<in> set sl" for b w
    using names_inv_slot [OF assms(1) that] assms(3) inv by (metis option.distinct(1) sm.find_put)
qed

lemma names_inv_delete:
  assumes "names_inv nm h sl" "smap_find nm n = Some a" "running_at sl a = 0"
  shows "names_inv (smap_del nm n) (h(a := None)) sl"
proof (rule names_invI)
  note inv = names_inv_smap [OF assms(1)]
  show "smap_inv (smap_del nm n)" using inv by (rule sm.inv_del)
  show "queue_at (h(a := None)) sl m b" if b: "smap_find (smap_del nm n) m = Some b" for m b
  proof -
    from b inv have m: "m \<noteq> n" "smap_find nm m = Some b" by (auto simp: sm.find_del split: if_splits)
    then have "b \<noteq> a" using names_inv_inj [OF assms(1,2)] by auto
    then show ?thesis using names_inv_find [OF assms(1) m(2)] by (simp add: queue_at_other)
  qed
  show "\<exists>m. smap_find (smap_del nm n) m = Some b" if "(b, Some w) \<in> set sl" for b w
  proof -
    from names_inv_slot [OF assms(1) that] obtain m where m: "smap_find nm m = Some b" by blast
    have "b \<noteq> a" using that assms(3) by (fastforce simp: running_at_def filter_empty_conv)
    with m assms(2) have "m \<noteq> n" by auto
    with m inv show ?thesis by (auto simp: sm.find_del)
  qed
qed

lemma running_at_le: "running_at sl a \<le> length sl"
  by (simp add: running_at_def)

text \<open>Filling and emptying a slot of the table of task ids.\<close>

lemma running_at_update:
  "i < length sl \<Longrightarrow>
   running_at (sl[i := (b, w)]) a + (if fst (sl ! i) = a \<and> snd (sl ! i) \<noteq> None then 1 else 0) =
     running_at sl a + (if b = a \<and> w \<noteq> None then 1 else 0)"
  using length_filter_update [of i sl "\<lambda>(b, w). b = a \<and> w \<noteq> None" "(b, w)"]
  by (simp add: running_at_def case_prod_beta)

lemma set_list_update_in: "x \<in> set (xs[i := y]) \<Longrightarrow> x = y \<or> x \<in> set xs"
  by (meson insertE set_update_subset_insert subsetD)

lemma names_inv_occupy:
  assumes "names_inv nm h sl" "smap_find nm n = Some a" "h a = Some q"
    "i < length sl" "snd (sl ! i) = None"
  shows "names_inv nm (h(a \<mapsto> EvqQueue.ExecuteTask q)) (sl[i := (a, Some w)])"
proof (rule names_invI)
  have run: "running_at (sl[i := (a, Some w)]) b = (if b = a then Suc (running_at sl b) else running_at sl b)"
    for b using running_at_update [OF assms(4), of a "Some w" b] assms(5) by auto
  have q: "q_name q = n" "queue_inv q" "q_running q = of_nat (running_at sl a)"
    using names_inv_find [OF assms(1,2)] assms(3) by (auto simp: queue_at_def)
  show "queue_at (h(a \<mapsto> EvqQueue.ExecuteTask q)) (sl[i := (a, Some w)]) m b"
    if "smap_find nm m = Some b" for m b
  proof (cases "b = a")
    case True
    then show ?thesis using names_inv_inj [OF assms(1,2)] that q run
      by (simp add: queue_at_self) (simp add: EvqQueue.ExecuteTask_def)
  next
    case False
    then show ?thesis using names_inv_find [OF assms(1) that] run by (simp add: queue_at_def)
  qed
  show "\<exists>m. smap_find nm m = Some b" if "(b, Some v) \<in> set (sl[i := (a, Some w)])" for b v
    using set_list_update_in [OF that] names_inv_slot [OF assms(1)] assms(2) by auto
qed (rule names_inv_smap [OF assms(1)])

lemma names_inv_free:
  assumes "names_inv nm h sl" "smap_find nm n = Some a" "h a = Some q"
    "i < length sl" "sl ! i = (a, Some w)"
  shows "names_inv nm (h(a \<mapsto> EvqQueue.TerminateTask q)) (sl[i := (0, None)])"
proof (rule names_invI)
  have run: "running_at sl b = (if b = a then Suc (running_at (sl[i := (0, None)]) b)
      else running_at (sl[i := (0, None)]) b)"
    for b using running_at_update [OF assms(4), of 0 None b] assms(5) by auto
  have q: "q_name q = n" "queue_inv q" "q_running q = of_nat (running_at sl a)"
    using names_inv_find [OF assms(1,2)] assms(3) by (auto simp: queue_at_def)
  show "queue_at (h(a \<mapsto> EvqQueue.TerminateTask q)) (sl[i := (0, None)]) m b"
    if "smap_find nm m = Some b" for m b
  proof (cases "b = a")
    case True
    then show ?thesis using names_inv_inj [OF assms(1,2)] that q run [of a]
      by (simp add: queue_at_self) (simp add: EvqQueue.TerminateTask_def)
  next
    case False
    then show ?thesis using names_inv_find [OF assms(1) that] run [of b] by (simp add: queue_at_def)
  qed
  show "\<exists>m. smap_find nm m = Some b" if "(b, Some v) \<in> set (sl[i := (0, None)])" for b v
    using set_list_update_in [OF that] names_inv_slot [OF assms(1)] by auto
qed (rule names_inv_smap [OF assms(1)])

section \<open>Operations on one queue\<close>

text \<open>
  What the pool asks of an operation on a queue it owns: the name and the number of running
  tasks stay, and the invariant of the queue is kept. Then the pool keeps its own.
\<close>

locale queue_op =
  fixes qop :: "queue \<Rightarrow> queue" and ready :: "queue \<Rightarrow> bool"
  assumes name: "q_name (qop q) = q_name q"
    and running: "q_running (qop q) = q_running q"
    and inv: "queue_inv q \<Longrightarrow> ready q \<Longrightarrow> queue_inv (qop q)"
begin

lemma names_inv_op:
  assumes "names_inv nm h sl" "smap_find nm n = Some a" "h a = Some q" "ready q"
  shows "names_inv nm (h(a \<mapsto> qop q)) sl"
  using names_inv_update [OF assms(1,2)] names_inv_find [OF assms(1,2)] assms(3,4)
  by (auto simp: queue_at_def name running inv)

lemma pool_inv_op:
  assumes "pool_inv p" "smap_find (queues_name p) n = Some a" "heap p a = Some q" "ready q"
  shows "pool_inv (set_queue p a (qop q))"
  using names_inv_op [of "queues_name p" "heap p" "slots p" n a q] assms
  by (auto simp: pool_inv_def set_queue_def frame_inv_def)

end

abbreviation room :: "queue \<Rightarrow> bool" where
  "room q \<equiv> Suc (length (pending q)) < 2 ^ 32"

interpretation enq: queue_op "\<lambda>q. EvqQueue.EnqueueTask q t" room
  by unfold_locales (simp_all add: EnqueueTask_inv)

interpretation canc: queue_op "\<lambda>q. EvqQueue.CancelTasks q w" "\<lambda>_. True"
  by unfold_locales (simp_all add: CancelTasks_inv)

interpretation conc: queue_op "\<lambda>q. SetConcurrency q c" "\<lambda>_. True"
  by unfold_locales (simp_all, simp_all add: SetConcurrency_def)

interpretation rem: queue_op Remove "\<lambda>_. True"
  by unfold_locales (simp_all, simp_all add: Remove_def)

interpretation sched: queue_op "\<lambda>q. SetScheduler q s"
  "\<lambda>_. s = QUEUE_SCHEDULER_FIFO \<or> s = QUEUE_SCHEDULER_PRIO"
  by unfold_locales (simp_all add: SetScheduler_inv)

lemma pool_inv_deref:
  assumes "pool_inv p" "smap_find (queues_name p) n = Some a"
  obtains q where "heap p a = Some q" "deref p a = Inr q" "q_name q = n" "queue_inv q"
    "q_running q = of_nat (running_at (slots p) a)"
  using names_inv_find [of "queues_name p" "heap p" "slots p" n a] assms
  by (auto simp: pool_inv_def queue_at_def deref_def)

lemma pool_inv_names: "pool_inv p \<Longrightarrow> (n, a) \<in> set (queues_name p) \<longleftrightarrow> smap_find (queues_name p) n = Some a"
  unfolding pool_inv_def by (elim conjE) (rule names_inv_mem)

lemma pool_inv_frame [simp]:
  "pool_inv (p\<lparr>fork_possible := b\<rparr>) = pool_inv p" "pool_inv (p\<lparr>fork_signal := b\<rparr>) = pool_inv p"
  "pool_inv (p\<lparr>fork_locked := b\<rparr>) = pool_inv p" "pool_inv (p\<lparr>is_shutting_down := b\<rparr>) = pool_inv p"
  "pool_inv (pool_event e p) = pool_inv p" "pool_inv (p\<lparr>queues_id := ids\<rparr>) = pool_inv p"
  by (simp_all add: pool_inv_def frame_inv_def pool_event_def)

section \<open>Locking\<close>

definition any_unlocked :: "pool \<Rightarrow> bool" where
  "any_unlocked p \<longleftrightarrow> (\<exists>n a q. (n, a) \<in> set (queues_name p) \<and> heap p a = Some q \<and> \<not> EvqQueue.IsLocked q)"

lemma all_locked_eq:
  "(\<And>n a. (n, a) \<in> set its \<Longrightarrow> heap p a \<noteq> None) \<Longrightarrow>
   all_locked p its = Inr (\<forall>(n, a) \<in> set its. \<forall>q. heap p a = Some q \<longrightarrow> EvqQueue.IsLocked q)"
proof (induction its)
  case (Cons x its)
  obtain n a where x: "x = (n, a)" by (cases x)
  obtain q where q: "heap p a = Some q" using Cons.prems [of n a] x by auto
  show ?case using Cons.IH Cons.prems x q by (auto simp: deref_def)
qed simp

lemma pool_IsLocked_eq: "pool_inv p \<Longrightarrow> pool_IsLocked p = Inr (\<not> any_unlocked p)"
proof -
  assume inv: "pool_inv p"
  have "heap p a \<noteq> None" if "(n, a) \<in> set (queues_name p)" for n a
    using that pool_inv_names [OF inv] pool_inv_deref [OF inv] by (metis option.distinct(1))
  then show ?thesis
    unfolding pool_IsLocked_def by (subst all_locked_eq) (auto simp: any_unlocked_def)
qed

text \<open>What every operation ends with, on the state it leaves.\<close>

definition signalled :: "pool \<Rightarrow> pool" where
  "signalled p = p\<lparr>fork_possible := any_unlocked p,
     fork_signal := (fork_signal p \<or> fork_locked p \<and> any_unlocked p)\<rparr>"

lemma update_fork_eq: "pool_inv p \<Longrightarrow> update_fork p = Inr (signalled p)"
  by (cases p) (auto simp: update_fork_def pool_IsLocked_eq signalled_def Let_def)

lemma signalled_inv [simp]: "pool_inv (signalled p) = pool_inv p"
  by (simp add: signalled_def)

section \<open>Every operation keeps the invariant\<close>

lemma pool_inv_alloc:
  assumes "pool_inv p" "smap_find (queues_name p) n = None"
    "q_name q = n" "queue_inv q" "q_running q = 0"
  shows "pool_inv (snd (alloc_queue p q)\<lparr>queues_name := smap_put (queues_name p) n (next_addr p)\<rparr>)"
proof -
  have "heap p (next_addr p) = None" using assms(1) by (simp add: pool_inv_def)
  then show ?thesis
    using names_inv_add [of "queues_name p" "heap p" "slots p" "next_addr p" n q] assms
    by (auto simp: pool_inv_def alloc_queue_def frame_inv_def)
qed

lemma Queue_new_facts:
  assumes "Queue_new qid name c s w d = Inr q"
  shows "q_name q = name" "q_running q = 0" "q_size q = 0" "q_id q = qid" "pending q = []"
    "s = QUEUE_SCHEDULER_FIFO \<or> s = QUEUE_SCHEDULER_PRIO \<Longrightarrow> queue_inv q"
  using assms Queue_new_inv [OF assms] by (auto simp: Queue_new_def pending_def split: if_splits)

lemma queue_inv_scheduler:
  "queue_inv q \<Longrightarrow> q_scheduler q = QUEUE_SCHEDULER_FIFO \<or> q_scheduler q = QUEUE_SCHEDULER_PRIO"
  by (auto simp: queue_inv_def)

lemma Queue_new_no_ub [simp]: "Queue_new qid name c s w d \<noteq> Inl (UB u)"
  by (simp add: Queue_new_def)

text \<open>The task has room in every queue of the pool.\<close>

definition pool_room :: "pool \<Rightarrow> bool" where
  "pool_room p \<longleftrightarrow>
     list_all (\<lambda>(n, a). case heap p a of None \<Rightarrow> True | Some q \<Rightarrow> room q) (queues_name p)"

lemma pool_roomD: "pool_room p \<Longrightarrow> (n, a) \<in> set (queues_name p) \<Longrightarrow> heap p a = Some q \<Longrightarrow> room q"
  by (force simp: pool_room_def list_all_iff)

lemma enqueue_target_inv:
  assumes "pool_inv p" "smap_find (queues_name p) n = Some a" "heap p a = Some q" "pool_room p"
    "enqueue_target p q a n host = Inr (d, p1)"
  shows "pool_inv p1 \<and> (\<exists>m dq. smap_find (queues_name p1) m = Some d \<and> heap p1 d = Some dq \<and> room dq)"
proof (cases "\<not> q_dynamic q \<or> host = []")
  case True
  then show ?thesis using assms pool_inv_names [OF assms(1)]
    by (auto simp: enqueue_target_def dest: pool_roomD)
next
  case dyn: False
  show ?thesis
  proof (cases "smap_find (queues_name p) (n @ ''@'' @ host)")
    case (Some e)
    obtain dq where "heap p e = Some dq" using pool_inv_deref [OF assms(1) Some] by blast
    then show ?thesis using dyn Some assms pool_inv_names [OF assms(1)]
      by (auto simp: enqueue_target_def dest: pool_roomD)
  next
    case None
    obtain dq where dq: "Queue_new (q_id q) (n @ ''@'' @ host) (sint (q_concurrency q)) (q_scheduler q)
        (q_wanted_scheduler q) False = Inr dq" and d: "d = next_addr p" and
      p1: "p1 = snd (alloc_queue p (Remove dq))\<lparr>queues_name := smap_put (queues_name p) (n @ ''@'' @ host) d\<rparr>"
      using assms(5) dyn None
      by (auto simp: enqueue_target_def Let_def bindr_eq_Inr alloc_queue_def)
    note new = Queue_new_facts [OF dq]
    have "queue_inv q" using pool_inv_deref [OF assms(1,2)] assms(3) by auto
    then have "queue_inv dq" using new(6) queue_inv_scheduler by blast
    then have "pool_inv p1" unfolding p1 d using new None
      by (intro pool_inv_alloc [OF assms(1)]) (simp_all add: rem.name rem.running)
    moreover have "smap_inv (queues_name p)"
      using assms(1) by (simp add: pool_inv_def names_inv_def)
    ultimately show ?thesis using new p1 d by (auto simp: alloc_queue_def sm.find_put)
  qed
qed

lemma enqueue_target_no_ub: "enqueue_target p q a n host \<noteq> Inl (UB u)"
  by (auto simp: enqueue_target_def Let_def bindr_eq_Inl alloc_queue_def split: option.splits)

lemma pool_EnqueueTask_safe:
  assumes "pool_inv p" "pool_room p"
  shows "\<not> is_ub (pool_EnqueueTask p n host t) \<and>
    (\<forall>b p'. pool_EnqueueTask p n host t = Inr (b, p') \<longrightarrow> pool_inv p')"
proof (cases "smap_find (queues_name p) n")
  case (Some a)
  obtain q where q: "heap p a = Some q" "deref p a = Inr q" using pool_inv_deref [OF assms(1) Some] by blast
  show ?thesis
  proof (cases "enqueue_target p q a n host")
    case (Inl e)
    then show ?thesis using Some q enqueue_target_no_ub [of p q a n host]
      by (cases e) (simp_all add: pool_EnqueueTask_def)
  next
    case (Inr x)
    obtain d p1 where x: "x = (d, p1)" by (cases x)
    from enqueue_target_inv [OF assms(1) Some q(1) assms(2)] Inr x
    obtain m dq where p1: "pool_inv p1" "smap_find (queues_name p1) m = Some d" "heap p1 d = Some dq" "room dq"
      by blast
    have inv: "pool_inv (set_queue p1 d (EvqQueue.EnqueueTask dq t))" by (rule enq.pool_inv_op [OF p1])
    have "pool_EnqueueTask p n host t =
        Inr (True, pool_event ''QUEUE_ENQUEUE'' (signalled (set_queue p1 d (EvqQueue.EnqueueTask dq t))))"
      using Some q Inr x p1 update_fork_eq [OF inv] by (simp add: pool_EnqueueTask_def deref_def)
    then show ?thesis using inv by simp
  qed
qed (simp add: pool_EnqueueTask_def assms)

text \<open>One queue: either it is locked and nothing happens, or it gives its first task.\<close>

lemma DequeueTask_given:
  assumes "queue_inv q" "\<not> EvqQueue.IsLocked q"
  obtains q' where "EvqQueue.DequeueTask q = Inr (Some (hd (q_cancelled q @ pending q)), q')"
    "queue_inv q'" "q_name q' = q_name q" "q_running q' = q_running q"
    "q_concurrency q' = q_concurrency q" "q_cancelled q' @ pending q' = tl (q_cancelled q @ pending q)"
proof (cases "q_cancelled q")
  case Nil
  obtain q' where "EvqQueue.DequeueTask q = Inr (Some (hd (pending q)), q')"
    "pending q' = tl (pending q)" "queue_inv q'" "q_cancelled q' = []"
    "q_running q' = q_running q" "q_name q' = q_name q" "q_concurrency q' = q_concurrency q"
    using DequeueTask_waiting [OF assms Nil] by metis
  then show ?thesis using that Nil by simp
next
  case (Cons t ts)
  have "pending (q\<lparr>q_cancelled := ts\<rparr>) = pending q" by (simp add: pending_def)
  moreover from this have "queue_inv (q\<lparr>q_cancelled := ts\<rparr>)" using assms(1) by (simp add: queue_inv_def)
  ultimately show ?thesis
    using that [of "q\<lparr>q_cancelled := ts\<rparr>"] DequeueTask_cancelled [OF Cons] Cons by simp
qed

lemma set_queue_same: "heap p a = Some q \<Longrightarrow> set_queue p a q = p"
  by (cases p) (auto simp: set_queue_def)

lemma set_queue_simps [simp]:
  "queues_name (set_queue p a q) = queues_name p" "fork_locked (set_queue p a q) = fork_locked p"
  "heap (set_queue p a q) = (heap p)(a \<mapsto> q)" "maxpid (set_queue p a q) = maxpid p"
  "default_scheduler (set_queue p a q) = default_scheduler p"
  by (simp_all add: set_queue_def)

lemma pool_inv_lt: "pool_inv p \<Longrightarrow> heap p a = Some q \<Longrightarrow> a < next_addr p"
  unfolding pool_inv_def by (metis linorder_not_less option.distinct(1))

lemma pool_inv_set_queue:
  assumes "pool_inv p" "smap_find (queues_name p) n = Some a"
    "q_name q = n" "queue_inv q" "q_running q = of_nat (running_at (slots p) a)"
  shows "pool_inv (set_queue p a q)"
proof -
  obtain q0 where "heap p a = Some q0" using pool_inv_deref [OF assms(1,2)] by metis
  then have "a < next_addr p" using pool_inv_lt [OF assms(1)] by blast
  then show ?thesis
    using names_inv_update [of "queues_name p" "heap p" "slots p" n a q] assms
    by (simp add: pool_inv_def set_queue_def frame_inv_def)
qed

text \<open>
  The scan gives a task of the first queue, in the order of the names, that is not locked, and
  changes no other queue; it gives nothing only when all queues are locked.
\<close>

lemma dequeue_scan_step:
  assumes "pool_inv p" "(n, a) \<in> set (queues_name p)" "heap p a = Some q" "\<not> EvqQueue.IsLocked q"
  obtains q' p' where "dequeue_scan p ((n, a) # its) = Inr (Some (n, hd (q_cancelled q @ pending q)), p')"
    "p' = pool_event ''QUEUE_DEQUEUE'' ((set_queue p a q')\<lparr>fork_possible := any_unlocked (set_queue p a q')\<rparr>)"
    "pool_inv (set_queue p a q')" "q_running q' = q_running q" "q_concurrency q' = q_concurrency q"
    "q_cancelled q' @ pending q' = tl (q_cancelled q @ pending q)"
proof -
  have find: "smap_find (queues_name p) n = Some a" using assms pool_inv_names by auto
  obtain q0 where "heap p a = Some q0" "queue_inv q0" "q_name q0 = n" "q_running q0 = of_nat (running_at (slots p) a)"
    using pool_inv_deref [OF assms(1) find] by metis
  with assms(3) have q: "queue_inv q" "q_name q = n" "q_running q = of_nat (running_at (slots p) a)" by auto
  obtain q' where q': "EvqQueue.DequeueTask q = Inr (Some (hd (q_cancelled q @ pending q)), q')"
    "queue_inv q'" "q_name q' = q_name q" "q_running q' = q_running q" "q_concurrency q' = q_concurrency q"
    "q_cancelled q' @ pending q' = tl (q_cancelled q @ pending q)"
    using DequeueTask_given [OF q(1) assms(4)] by metis
  have inv: "pool_inv (set_queue p a q')"
    using pool_inv_set_queue [OF assms(1) find] q q' by simp
  show ?thesis
    by (rule that [OF _ refl inv q'(4-6)]) (use assms(3) q'(1) inv in \<open>simp add: deref_def pool_IsLocked_eq Let_def\<close>)
qed

lemma dequeue_scan_locked:
  assumes "heap p a = Some q" "EvqQueue.IsLocked q"
  shows "dequeue_scan p ((n, a) # its) = dequeue_scan p its"
  using assms by (simp add: deref_def DequeueTask_locked set_queue_same)

lemma dequeue_scan_spec:
  assumes "pool_inv p" "set its \<subseteq> set (queues_name p)"
  shows "(\<forall>(n, a) \<in> set its. \<forall>q. heap p a = Some q \<longrightarrow> EvqQueue.IsLocked q) \<and> dequeue_scan p its = Inr (None, p) \<or>
    (\<exists>pre n a post q. its = pre @ (n, a) # post \<and>
       (\<forall>(m, b) \<in> set pre. \<forall>r. heap p b = Some r \<longrightarrow> EvqQueue.IsLocked r) \<and>
       heap p a = Some q \<and> \<not> EvqQueue.IsLocked q \<and>
       dequeue_scan p its = dequeue_scan p ((n, a) # post))"
  using assms(2)
proof (induction its)
  case (Cons x its)
  obtain n a where x: "x = (n, a)" by (cases x)
  have "smap_find (queues_name p) n = Some a" using Cons.prems x pool_inv_names [OF assms(1)] by auto
  then obtain q where q: "heap p a = Some q" using pool_inv_deref [OF assms(1)] by metis
  show ?case
  proof (cases "EvqQueue.IsLocked q")
    case False
    with q show ?thesis unfolding x
      by (intro disjI2 exI [of _ "[]"] exI [of _ n] exI [of _ a] exI [of _ its] exI [of _ q]) simp
  next
    case True
    note skip = dequeue_scan_locked [OF q True, of n its]
    have "set its \<subseteq> set (queues_name p)" using Cons.prems by simp
    from Cons.IH [OF this] show ?thesis
    proof (elim disjE exE conjE)
      fix pre m b post r
      assume "its = pre @ (m, b) # post" "\<forall>(m, b)\<in>set pre. \<forall>r. heap p b = Some r \<longrightarrow> EvqQueue.IsLocked r"
        "heap p b = Some r" "\<not> EvqQueue.IsLocked r" "dequeue_scan p its = dequeue_scan p ((m, b) # post)"
      then show ?thesis using q True skip x
        by (intro disjI2 exI [of _ "x # pre"] exI [of _ m] exI [of _ b] exI [of _ post] exI [of _ r]) simp
    qed (use q True skip x in simp)
  qed
qed simp

lemma pool_Dequeue_resume_safe:
  assumes "pool_inv p"
  obtains r p' where "pool_Dequeue_resume p = Inr (r, p')" "pool_inv p'"
proof (cases "is_shutting_down p")
  case True
  then show ?thesis using that assms by (simp add: pool_Dequeue_resume_def)
next
  case False
  let ?p = "p\<lparr>fork_locked := False\<rparr>"
  have inv: "pool_inv ?p" using assms by simp
  have res: "pool_Dequeue_resume p = dequeue_scan ?p (queues_name ?p)"
    using False by (simp add: pool_Dequeue_resume_def Let_def)
  from dequeue_scan_spec [OF inv subset_refl] show ?thesis
  proof (elim disjE exE conjE)
    fix pre n a post q
    assume *: "queues_name ?p = pre @ (n, a) # post" "heap ?p a = Some q" "\<not> EvqQueue.IsLocked q"
      "dequeue_scan ?p (queues_name ?p) = dequeue_scan ?p ((n, a) # post)"
    have "(n, a) \<in> set (queues_name ?p)" using *(1) by simp
    from dequeue_scan_step [OF inv this *(2,3), of post]
    obtain q' where "dequeue_scan ?p ((n, a) # post) = Inr (Some (n, hd (q_cancelled q @ pending q)),
        pool_event ''QUEUE_DEQUEUE'' ((set_queue ?p a q')\<lparr>fork_possible := any_unlocked (set_queue ?p a q')\<rparr>))"
      "pool_inv (set_queue ?p a q')" by metis
    with * res show ?thesis using that by simp
  qed (use that res inv in auto)
qed

section \<open>Task ids\<close>

lemma alloc_tid_True:
  "alloc_tid p t0 is = (t, True) \<Longrightarrow>
   tid_workflow_instance p ! unat t = None \<and> (\<exists>i \<in> set is. t = (lasttid p + 1 + of_nat i) mod maxpid p)"
  by (induction p t0 "is" rule: alloc_tid.induct) (auto simp: Let_def split: if_splits)

lemma alloc_tid_False:
  "alloc_tid p t0 is = (t, False) \<Longrightarrow>
   (\<forall>i \<in> set is. tid_workflow_instance p ! unat ((lasttid p + 1 + of_nat i) mod maxpid p) \<noteq> None) \<and>
   (t = t0 \<and> is = [] \<or> (\<exists>i \<in> set is. t = (lasttid p + 1 + of_nat i) mod maxpid p))"
  by (induction p t0 "is" rule: alloc_tid.induct) (auto simp: Let_def split: if_splits)

lemma word_mod_le: "(0::'a::len word) < m \<Longrightarrow> x mod m < m"
  by (simp add: word_less_nat_alt unat_mod)

lemma slots_length: "frame_inv p \<Longrightarrow> length (slots p) = Suc (unat (maxpid p))"
  by (simp add: frame_inv_def)

lemma pool_inv_occupy:
  assumes "pool_inv p" "smap_find (queues_name p) n = Some a" "heap p a = Some q"
    "i \<le> unat (maxpid p)" "tid_workflow_instance p ! i = None"
  shows "pool_inv (set_queue (occupy_tid p a t i) a (EvqQueue.ExecuteTask q))"
proof -
  have fr: "frame_inv p" and nm: "names_inv (queues_name p) (heap p) (slots p)"
    using assms(1) by (simp_all add: pool_inv_def)
  have i: "i < length (slots p)" using fr assms(4) by (simp add: frame_inv_def)
  have "snd (slots p ! i) = None" using i assms(5) by simp
  from names_inv_occupy [OF nm assms(2,3) i this, of "workflow_instance t"]
  have "names_inv (queues_name p) ((heap p)(a \<mapsto> EvqQueue.ExecuteTask q))
      (zip ((tid_queue p)[i := a]) ((tid_workflow_instance p)[i := Some (workflow_instance t)]))"
    by (simp add: update_zip)
  moreover have "a < next_addr p" using pool_inv_lt [OF assms(1,3)] .
  ultimately show ?thesis using assms(1)
    by (simp add: pool_inv_def set_queue_def occupy_tid_def frame_inv_def)
qed

lemma execute_at_safe:
  assumes "pool_inv p" "smap_find (queues_name p) n = Some a" "tid_valid p i"
    "tid_workflow_instance p ! nat i = None"
  obtains q where "heap p a = Some q"
    "execute_at p a t i = Inr (i, pool_event ''QUEUE_EXECUTE''
       (signalled (set_queue (occupy_tid p a t (nat i)) a (EvqQueue.ExecuteTask q))))"
    "pool_inv (set_queue (occupy_tid p a t (nat i)) a (EvqQueue.ExecuteTask q))"
proof -
  obtain q where q: "heap p a = Some q" using pool_inv_deref [OF assms(1,2)] by metis
  have "nat i \<le> unat (maxpid p)" using assms(3) by (simp add: tid_valid_def nat_le_iff)
  from pool_inv_occupy [OF assms(1,2) q this assms(4)]
  have inv: "pool_inv (set_queue (occupy_tid p a t (nat i)) a (EvqQueue.ExecuteTask q))" .
  show ?thesis
    by (rule that [OF q _ inv]) (use q assms(3) update_fork_eq [OF inv] in \<open>simp add: execute_at_def deref_def\<close>)
qed

lemma pool_inv_lasttid: "pool_inv p \<Longrightarrow> t \<le> maxpid p \<Longrightarrow> pool_inv (p\<lparr>lasttid := t\<rparr>)"
  by (simp add: pool_inv_def frame_inv_def)

lemma alloc_tid_le: "alloc_tid p 0 [0..<unat (maxpid p)] = (t, b) \<Longrightarrow> t \<le> maxpid p \<and> (b \<longrightarrow> t < maxpid p)"
proof (cases "maxpid p = 0")
  case False
  assume a: "alloc_tid p 0 [0..<unat (maxpid p)] = (t, b)"
  have lt: "x mod maxpid p < maxpid p" for x using False by (simp add: word_mod_le word_neq_0_conv)
  from a have "\<exists>i \<in> set [0..<unat (maxpid p)]. t = (lasttid p + 1 + of_nat i) mod maxpid p"
  proof (cases b)
    case True
    with a have "alloc_tid p 0 [0..<unat (maxpid p)] = (t, True)" by simp
    from alloc_tid_True [OF this] show ?thesis by blast
  next
    case f: False
    with a have "alloc_tid p 0 [0..<unat (maxpid p)] = (t, False)" by simp
    moreover have "[0..<unat (maxpid p)] \<noteq> []" using False by (simp add: unat_eq_0)
    ultimately show ?thesis using alloc_tid_False by metis
  qed
  then show ?thesis using lt by (metis less_imp_le)
next
  case True
  assume "alloc_tid p 0 [0..<unat (maxpid p)] = (t, b)"
  with True show ?thesis by simp
qed

text \<open>The caller of \<open>ExecuteTask\<close> passes 0, or a task id that is free.\<close>

definition tid_ok :: "pool \<Rightarrow> int \<Rightarrow> bool" where
  "tid_ok p i \<longleftrightarrow> i = 0 \<or> tid_valid p i \<and> tid_workflow_instance p ! nat i = None"

lemma pool_ExecuteTask_safe:
  assumes "pool_inv p" "tid_ok p i"
  obtains r p' where "pool_ExecuteTask p t n i = Inr (r, p')" "pool_inv p'"
proof (cases "smap_find (queues_name p) n")
  case None
  then show ?thesis using that assms by (simp add: pool_ExecuteTask_def)
next
  case (Some a)
  show ?thesis
  proof (cases "i = 0")
    case False
    with assms have "tid_valid p i" "tid_workflow_instance p ! nat i = None" by (auto simp: tid_ok_def)
    from execute_at_safe [OF assms(1) Some this, of t] obtain p' where
      "execute_at p a t i = Inr (i, p')" "pool_inv p'" by (metis pool_inv_frame(5) signalled_inv)
    then show ?thesis using that Some False by (simp add: pool_ExecuteTask_def execute_locked_def)
  next
    case True
    obtain tid found where al: "alloc_tid p 0 [0..<unat (maxpid p)] = (tid, found)" by (cases "alloc_tid p 0 [0..<unat (maxpid p)]")
    let ?p = "p\<lparr>lasttid := tid\<rparr>"
    have inv: "pool_inv ?p" using alloc_tid_le [OF al] assms(1) by (simp add: pool_inv_lasttid)
    show ?thesis
    proof (cases found)
      case False
      then show ?thesis using that [OF _ inv] Some True al by (simp add: pool_ExecuteTask_def execute_locked_def)
    next
      case f: True
      have "tid_valid ?p (uint tid)" using alloc_tid_le [OF al] by (simp add: tid_valid_def word_le_def)
      moreover have "tid_workflow_instance ?p ! nat (uint tid) = None"
        using alloc_tid_True [of p 0 _ tid] al f by simp
      ultimately obtain q where
        "execute_at ?p a t (uint tid) = Inr (uint tid, pool_event ''QUEUE_EXECUTE''
           (signalled (set_queue (occupy_tid ?p a t (nat (uint tid))) a (EvqQueue.ExecuteTask q))))"
        "pool_inv (set_queue (occupy_tid ?p a t (nat (uint tid))) a (EvqQueue.ExecuteTask q))"
        using execute_at_safe [OF inv, of n a "uint tid" t] Some by auto
      then show ?thesis using that Some True al f by (simp add: pool_ExecuteTask_def execute_locked_def)
    qed
  qed
qed

section \<open>Termination, cancellation, reload\<close>

lemma pool_inv_delete:
  assumes "pool_inv p" "smap_find (queues_name p) n = Some a" "heap p a = Some q" "q_running q = 0"
  shows "pool_inv (delete_queue (p\<lparr>queues_name := smap_del (queues_name p) n\<rparr>) a)"
proof -
  have fr: "frame_inv p" and nm: "names_inv (queues_name p) (heap p) (slots p)"
    using assms(1) by (simp_all add: pool_inv_def)
  have "running_at (slots p) a < 2 ^ 32"
    using running_at_le [of "slots p" a] fr by (simp add: frame_inv_def)
  moreover have "(of_nat (running_at (slots p) a) :: 32 word) = 0"
    using names_inv_find [OF nm assms(2)] assms(3,4) by (simp add: queue_at_def)
  ultimately have "running_at (slots p) a = 0"
    using unat_of_nat [of "running_at (slots p) a", where 'a = 32] by simp
  from names_inv_delete [OF nm assms(2) this] assms(1) show ?thesis
    by (simp add: pool_inv_def delete_queue_def frame_inv_def)
qed

lemma delete_queue_ids:
  "delete_queue (p\<lparr>queues_id := i, queues_name := nm\<rparr>) a = (delete_queue (p\<lparr>queues_name := nm\<rparr>) a)\<lparr>queues_id := i\<rparr>"
  by (simp add: delete_queue_def)

lemma pool_inv_free:
  assumes "pool_inv p" "smap_find (queues_name p) n = Some a" "heap p a = Some q"
    "i \<le> unat (maxpid p)" "tid_workflow_instance p ! i = Some w" "tid_queue p ! i = a"
  shows "pool_inv (free_tid (set_queue p a (EvqQueue.TerminateTask q)) i)"
proof -
  have fr: "frame_inv p" and nm: "names_inv (queues_name p) (heap p) (slots p)"
    using assms(1) by (simp_all add: pool_inv_def)
  have i: "i < length (slots p)" using fr assms(4) by (simp add: frame_inv_def)
  then have "slots p ! i = (a, Some w)" using assms(5,6) by simp
  from names_inv_free [OF nm assms(2,3) i this]
  have "names_inv (queues_name p) ((heap p)(a \<mapsto> EvqQueue.TerminateTask q))
      (zip ((tid_queue p)[i := 0]) ((tid_workflow_instance p)[i := None]))"
    by (simp add: update_zip)
  moreover have "a < next_addr p" using pool_inv_lt [OF assms(1,3)] .
  ultimately show ?thesis using assms(1)
    by (simp add: pool_inv_def set_queue_def free_tid_def frame_inv_def)
qed

lemma TerminateTask_simps [simp]:
  "q_name (EvqQueue.TerminateTask q) = q_name q" "q_running (EvqQueue.TerminateTask q) = q_running q - 1"
  by (simp_all add: EvqQueue.TerminateTask_def)

lemma free_tid_simps [simp]:
  "queues_name (free_tid p i) = queues_name p" "heap (free_tid p i) = heap p"
  by (simp_all add: free_tid_def)

lemma pool_TerminateTask_safe:
  assumes "pool_inv p" "tid_valid p i"
  obtains r p' where "pool_TerminateTask p i = Inr (r, p')" "pool_inv p'"
proof (cases "tid_workflow_instance p ! nat i")
  case None
  then show ?thesis using that assms by (simp add: pool_TerminateTask_def)
next
  case (Some w)
  have nm: "names_inv (queues_name p) (heap p) (slots p)" and fr: "frame_inv p"
    using assms(1) by (simp_all add: pool_inv_def)
  define a where "a = tid_queue p ! nat i"
  have i: "nat i \<le> unat (maxpid p)" using assms(2) by (simp add: tid_valid_def nat_le_iff)
  then have len: "nat i < length (slots p)" using fr by (simp add: frame_inv_def)
  then have "(a, Some w) \<in> set (slots p)" using Some nth_mem [OF len] by (simp add: a_def)
  then obtain n where n: "smap_find (queues_name p) n = Some a" using names_inv_slot [OF nm] by blast
  obtain q where q: "heap p a = Some q" "deref p a = Inr q" "q_name q = n"
    using pool_inv_deref [OF assms(1) n] by metis
  let ?q = "EvqQueue.TerminateTask q"
  let ?p = "free_tid (set_queue p a ?q) (nat i)"
  have inv: "pool_inv ?p" using pool_inv_free [OF assms(1) n q(1) i Some] a_def by simp
  have "pool_inv (reap_queue ?p a ?q)"
    using inv pool_inv_delete [OF inv, of n a ?q] n q by (simp add: reap_queue_def)
  from update_fork_eq [OF this] this show ?thesis
    using that assms(2) Some q(2) by (simp add: pool_TerminateTask_def Let_def a_def)
qed

lemma cancel_all_safe:
  assumes "pool_inv p" "set its \<subseteq> set (queues_name p)"
  shows "\<exists>p'. cancel_all p its w = Inr p' \<and> pool_inv p' \<and> queues_name p' = queues_name p"
  using assms
proof (induction its arbitrary: p)
  case (Cons x its)
  obtain n a where x: "x = (n, a)" by (cases x)
  have find: "smap_find (queues_name p) n = Some a"
    using Cons.prems x pool_inv_names [OF Cons.prems(1)] by auto
  obtain q where q: "heap p a = Some q" "deref p a = Inr q" using pool_inv_deref [OF Cons.prems(1) find] by metis
  have "pool_inv (set_queue p a (EvqQueue.CancelTasks q w))"
    by (rule canc.pool_inv_op [OF Cons.prems(1) find q(1)]) simp
  from Cons.IH [OF this] Cons.prems(2) show ?case using x q by simp
qed simp

lemma pool_CancelTasks_safe:
  assumes "pool_inv p"
  obtains p' where "pool_CancelTasks p w = Inr p'" "pool_inv p'"
  using cancel_all_safe [OF assms subset_refl, of w] that update_fork_eq
  by (auto simp: pool_CancelTasks_def)

text \<open>The sweep visits a snapshot of the index while it erases entries of it.\<close>

lemma reload_sweep_safe:
  assumes "pool_inv p" "\<And>n a. (n, a) \<in> set its \<Longrightarrow> smap_find (queues_name p) n = Some a"
    "distinct (map fst its)"
  shows "\<exists>p'. reload_sweep p its = Inr p' \<and> pool_inv p'"
  using assms
proof (induction its arbitrary: p)
  case (Cons x its)
  obtain n a where x: "x = (n, a)" by (cases x)
  have find: "smap_find (queues_name p) n = Some a" using Cons.prems(2) x by simp
  obtain q where q: "heap p a = Some q" "deref p a = Inr q" using pool_inv_deref [OF Cons.prems(1) find] by metis
  have sm: "smap_inv (queues_name p)" using Cons.prems(1) by (simp add: pool_inv_def names_inv_def)
  show ?case
  proof (cases "q_size q = 0 \<and> q_running q = 0")
    case True
    let ?p = "delete_queue (p\<lparr>queues_id := smap_del (queues_id p) (q_id q),
        queues_name := smap_del (queues_name p) n\<rparr>) a"
    have inv: "pool_inv ?p" unfolding delete_queue_ids
      using pool_inv_delete [OF Cons.prems(1) find q(1)] True by simp
    have "smap_find (queues_name ?p) m = Some b" if "(m, b) \<in> set its" for m b
    proof -
      have "m \<noteq> n" using Cons.prems(3) x that by force
      then show ?thesis using Cons.prems(2) [of m b] that sm by (simp add: delete_queue_def sm.find_del)
    qed
    from Cons.IH [OF inv this] show ?thesis using Cons.prems(3) x q True by simp
  next
    case False
    let ?p = "set_queue p a (Remove q)"
    have inv: "pool_inv ?p" by (rule rem.pool_inv_op [OF Cons.prems(1) find q(1)]) simp
    have "smap_find (queues_name ?p) m = Some b" if "(m, b) \<in> set its" for m b
      using Cons.prems(2) [of m b] that by simp
    from Cons.IH [OF inv this] show ?thesis using Cons.prems(3) x q False by auto
  qed
qed simp

lemma get_scheduler_ok:
  "frame_inv p \<Longrightarrow> get_scheduler_from_string (default_scheduler p) str = Inr s \<Longrightarrow>
   s = QUEUE_SCHEDULER_FIFO \<or> s = QUEUE_SCHEDULER_PRIO"
  by (auto simp: get_scheduler_from_string_def frame_inv_def split: if_splits)

lemma get_scheduler_no_ub [simp]: "get_scheduler_from_string d str \<noteq> Inl (UB u)"
  by (simp add: get_scheduler_from_string_def)

lemma reload_row_safe:
  assumes "pool_inv p"
  shows "reload_row p r \<noteq> Inl (UB u) \<and> pool_inv (reload_row_fault p r) \<and>
    (\<forall>p'. reload_row p r = Inr p' \<longrightarrow> pool_inv p')"
proof (cases "smap_find (queues_name p) (row_name r)")
  case None
  have "pool_inv p'" if r: "reload_row p r = Inr p'" for p'
  proof -
    obtain s q where s: "get_scheduler_from_string (default_scheduler p) (row_scheduler r) = Inr s"
      and q: "Queue_new (word_of_int (row_id r)) (row_name r) (row_concurrency r) s (row_scheduler r)
        (row_dynamic r \<noteq> 0) = Inr q"
      and p': "p' = (snd (alloc_queue p q))\<lparr>queues_name := smap_put (queues_name p) (row_name r) (next_addr p)\<rparr>
        \<lparr>queues_id := smap_put (queues_id p) (word_of_int (row_id r)) (next_addr p)\<rparr>"
      using r None by (auto simp: reload_row_def bindr_eq_Inr alloc_queue_def Let_def)
    note new = Queue_new_facts [OF q]
    have "queue_inv q" using new(6) get_scheduler_ok [OF _ s] assms by (simp add: pool_inv_def)
    from pool_inv_alloc [OF assms None new(1) this new(2)] p' show ?thesis by simp
  qed
  then show ?thesis using None assms
    by (auto simp: reload_row_def bindr_eq_Inl alloc_queue_def reload_row_fault_def)
next
  case (Some a)
  obtain q where q: "heap p a = Some q" "deref p a = Inr q" using pool_inv_deref [OF assms Some] by metis
  let ?q = "SetConcurrency q (word_of_int (row_concurrency r))"
  let ?p = "set_queue p a ?q"
  have inv: "pool_inv ?p" by (rule conc.pool_inv_op [OF assms Some q(1)]) simp
  have "pool_inv (set_queue ?p a (SetScheduler ?q s))"
    if "get_scheduler_from_string (default_scheduler p) (row_scheduler r) = Inr s" for s
    by (rule sched.pool_inv_op [OF inv]) (use Some get_scheduler_ok [OF _ that] assms in \<open>auto simp: pool_inv_def\<close>)
  then show ?thesis using Some q inv
    by (auto simp: reload_row_def reload_row_fault_def Let_def bindr_eq_Inl bindr_eq_Inr)
qed

lemma reload_rows_safe:
  "pool_inv p \<Longrightarrow> \<not> is_ub (fst (reload_rows p rs)) \<and> pool_inv (snd (reload_rows p rs))"
proof (induction p rs rule: reload_rows.induct)
  case (2 p r rs)
  note row = reload_row_safe [OF 2(2), of r]
  show ?case
  proof (cases "reload_row p r")
    case (Inl e)
    then show ?thesis using row by (cases e) auto
  next
    case (Inr p')
    then show ?thesis using row 2(1) by simp
  qed
qed simp

lemma pool_Reload_safe:
  assumes "pool_inv p"
  shows "\<not> is_ub (fst (pool_Reload p rows)) \<and> pool_inv (snd (pool_Reload p rows))"
proof -
  have "smap_inv (queues_name p)" using assms by (simp add: pool_inv_def names_inv_def)
  then have "distinct (map fst (queues_name p))" by (rule smap_inv_distinct)
  then obtain p1 where p1: "reload_sweep p (queues_name p) = Inr p1" "pool_inv p1"
    using reload_sweep_safe [OF assms, of "queues_name p"] pool_inv_names [OF assms] by metis
  obtain r p2 where p2: "reload_rows p1 rows = (r, p2)" by (cases "reload_rows p1 rows")
  with reload_rows_safe [OF p1(2), of rows] have "\<not> is_ub r" "pool_inv p2" by simp_all
  then show ?thesis using p1 p2 update_fork_eq [of p2]
    by (auto simp: pool_Reload_def is_ub_def split: sum.splits fault.splits)
qed

section \<open>Histories of the pool\<close>

text \<open>The calls of the pool, by any thread, in the order the lock lets them in.\<close>

datatype pool_op = PEnqueue string string qtask | PDequeueEnter | PDequeueResume
  | PExecute qtask string int | PTerminate int | PCancel "32 word" | PReload "queue_row list" | PShutdown

definition keep :: "pool \<Rightarrow> ('a \<times> pool) res \<Rightarrow> unit res \<times> pool" where
  "keep p m = (case m of Inl e \<Rightarrow> (Inl e, p) | Inr (r, p') \<Rightarrow> (Inr (), p'))"

fun pool_step :: "pool \<Rightarrow> pool_op \<Rightarrow> unit res \<times> pool" where
  "pool_step p (PEnqueue n h t) = keep p (pool_EnqueueTask p n h t)"
| "pool_step p PDequeueEnter = (Inr (), snd (pool_Dequeue_enter p))"
| "pool_step p PDequeueResume = keep p (pool_Dequeue_resume p)"
| "pool_step p (PExecute t n i) = keep p (pool_ExecuteTask p t n i)"
| "pool_step p (PTerminate i) = keep p (pool_TerminateTask p i)"
| "pool_step p (PCancel w) = (case pool_CancelTasks p w of Inl e \<Rightarrow> (Inl e, p) | Inr p' \<Rightarrow> (Inr (), p'))"
| "pool_step p (PReload rows) = pool_Reload p rows"
| "pool_step p PShutdown = (Inr (), pool_Shutdown p)"

fun pool_op_ok :: "pool \<Rightarrow> pool_op \<Rightarrow> bool" where
  "pool_op_ok p (PEnqueue n h t) \<longleftrightarrow> pool_room p"
| "pool_op_ok p (PExecute t n i) \<longleftrightarrow> tid_ok p i"
| "pool_op_ok p (PTerminate i) \<longleftrightarrow> tid_valid p i"
| "pool_op_ok p _ \<longleftrightarrow> True"

lemma keep_safe: "m = Inr (r, p') \<Longrightarrow> pool_inv p' \<Longrightarrow> keep p m = (Inr (), p') \<and> pool_inv p'"
  by (simp add: keep_def)

lemma pool_step_inv:
  assumes "pool_inv p" "pool_op_ok p op"
  shows "\<not> is_ub (fst (pool_step p op)) \<and> pool_inv (snd (pool_step p op))"
proof (cases op)
  case (PEnqueue n h t)
  then have "pool_room p" using assms(2) by simp
  note safe = pool_EnqueueTask_safe [OF assms(1) this, of n h t]
  show ?thesis
  proof (cases "pool_EnqueueTask p n h t")
    case (Inl e)
    then show ?thesis using safe PEnqueue assms(1) by (cases e) (simp_all add: keep_def)
  next
    case (Inr x)
    obtain b p' where "x = (b, p')" by (cases x)
    then show ?thesis using safe PEnqueue Inr by (simp add: keep_def)
  qed
next
  case PDequeueEnter
  then show ?thesis using assms(1) by (simp add: pool_Dequeue_enter_def)
next
  case PDequeueResume
  obtain r p' where "pool_Dequeue_resume p = Inr (r, p')" "pool_inv p'"
    by (rule pool_Dequeue_resume_safe [OF assms(1)])
  then show ?thesis using PDequeueResume by (simp add: keep_def)
next
  case (PExecute t n i)
  then have ok: "tid_ok p i" using assms(2) by simp
  obtain r p' where "pool_ExecuteTask p t n i = Inr (r, p')" "pool_inv p'"
    by (rule pool_ExecuteTask_safe [OF assms(1) ok])
  then show ?thesis using PExecute by (simp add: keep_def)
next
  case (PTerminate i)
  then have ok: "tid_valid p i" using assms(2) by simp
  obtain r p' where "pool_TerminateTask p i = Inr (r, p')" "pool_inv p'"
    by (rule pool_TerminateTask_safe [OF assms(1) ok])
  then show ?thesis using PTerminate by (simp add: keep_def)
next
  case (PCancel w)
  obtain p' where "pool_CancelTasks p w = Inr p'" "pool_inv p'"
    by (rule pool_CancelTasks_safe [OF assms(1)])
  then show ?thesis using PCancel by simp
next
  case (PReload rows)
  then show ?thesis using pool_Reload_safe [OF assms(1)] by simp
next
  case PShutdown
  then show ?thesis using assms(1) by (simp add: pool_Shutdown_def Let_def)
qed

text \<open>A pool that was built from the configuration, after any history of well-formed calls.\<close>

inductive pool_reachable :: "pool \<Rightarrow> bool" where
  init: "d = QUEUE_SCHEDULER_FIFO \<or> d = QUEUE_SCHEDULER_PRIO \<Longrightarrow> unat m < 2 ^ 31 \<Longrightarrow>
    pool_reachable (snd (QueuePool_new d m rows))"
| step: "pool_reachable p \<Longrightarrow> pool_op_ok p op \<Longrightarrow> pool_reachable (snd (pool_step p op))"

lemma pool_init_inv:
  "d = QUEUE_SCHEDULER_FIFO \<or> d = QUEUE_SCHEDULER_PRIO \<Longrightarrow> unat m < 2 ^ 31 \<Longrightarrow> pool_inv (pool_init d m)"
  by (simp add: pool_inv_def pool_init_def frame_inv_def names_inv_def smap_inv_def zip_replicate
      del: replicate_Suc)

lemma pool_reachable_inv: "pool_reachable p \<Longrightarrow> pool_inv p"
proof (induction rule: pool_reachable.induct)
  case (init d m rows)
  then show ?case using pool_Reload_safe [OF pool_init_inv] by (simp add: QueuePool_new_def)
next
  case (step p op)
  then show ?case using pool_step_inv by blast
qed

section \<open>Properties\<close>


definition sample_rows :: "queue_row list" where
  "sample_rows =
     [\<lparr>row_id = 1, row_name = ''default'', row_concurrency = 1, row_scheduler = ''default'', row_dynamic = 0\<rparr>,
      \<lparr>row_id = 2, row_name = ''ssh'', row_concurrency = 1, row_scheduler = ''prio'', row_dynamic = 1\<rparr>]"

definition sample_pool :: pool where
  "sample_pool = snd (QueuePool_new QUEUE_SCHEDULER_FIFO 10 sample_rows)"

lemma sample_pool_reachable: "pool_reachable sample_pool"
  unfolding sample_pool_def by (rule pool_reachable.init) simp_all


end
