(* ===== verification/PoolProps.thy ===== *)
theory PoolProps
  imports PoolSafety
begin

text \<open>
  What the queue pool does beyond memory safety: no wake-up of the dequeuer is lost, tasks leave
  in a fixed order and within the concurrency of their queue, a task id identifies its task until
  it terminates. The last section holds two histories in which the pool misbehaves.
\<close>

section \<open>Wake-ups\<close>

definition wake_inv :: "pool \<Rightarrow> bool" where
  "wake_inv p \<longleftrightarrow> fork_possible p = any_unlocked p \<and> (fork_locked p \<longrightarrow> fork_possible p \<longrightarrow> fork_signal p)"

lemma all_locked_result:
  "all_locked p its = Inr l \<Longrightarrow>
   l = (\<not> (\<exists>n a q. (n, a) \<in> set its \<and> heap p a = Some q \<and> \<not> EvqQueue.IsLocked q))"
proof (induction p its rule: all_locked.induct)
  case (2 p n a its)
  then obtain q where q: "heap p a = Some q" by (auto simp: deref_def split: option.splits)
  show ?case
  proof (cases "EvqQueue.IsLocked q")
    case True
    with 2 q show ?thesis by (auto simp: deref_def)
  next
    case False
    with 2 q show ?thesis by (auto simp: deref_def)
  qed
qed simp

lemma pool_IsLocked_result: "pool_IsLocked p = Inr l \<Longrightarrow> l = (\<not> any_unlocked p)"
  unfolding pool_IsLocked_def any_unlocked_def by (rule all_locked_result)

lemma any_unlocked_frame [simp]:
  "any_unlocked (p\<lparr>fork_possible := b\<rparr>) = any_unlocked p" "any_unlocked (p\<lparr>fork_signal := b\<rparr>) = any_unlocked p"
  "any_unlocked (p\<lparr>fork_locked := b\<rparr>) = any_unlocked p" "any_unlocked (p\<lparr>is_shutting_down := b\<rparr>) = any_unlocked p"
  "any_unlocked (pool_event e p) = any_unlocked p" "any_unlocked (p\<lparr>lasttid := t\<rparr>) = any_unlocked p"
  "any_unlocked (p\<lparr>pool_events := es\<rparr>) = any_unlocked p"
  by (simp_all add: any_unlocked_def pool_event_def)

lemma update_fork_wake: "update_fork p = Inr p' \<Longrightarrow> wake_inv p'"
proof -
  assume u: "update_fork p = Inr p'"
  then obtain l where l: "pool_IsLocked p = Inr l" by (auto simp: update_fork_def bindr_eq_Inr)
  from pool_IsLocked_result [OF this] u l show "wake_inv p'"
    by (auto simp: update_fork_def Let_def wake_inv_def)
qed

lemma wake_inv_frame [simp]:
  "wake_inv (pool_event e p) = wake_inv p" "wake_inv (p\<lparr>lasttid := t\<rparr>) = wake_inv p"
  by (simp_all add: wake_inv_def) (simp_all add: pool_event_def)

lemma pool_EnqueueTask_wake:
  "wake_inv p \<Longrightarrow> pool_EnqueueTask p n h t = Inr (b, p') \<Longrightarrow> wake_inv p'"
  by (auto simp: pool_EnqueueTask_def bindr_eq_Inr update_fork_wake split: option.splits prod.splits)

lemma execute_at_wake: "execute_at p a t i = Inr (r, p') \<Longrightarrow> wake_inv p'"
  by (auto simp: execute_at_def bindr_eq_Inr update_fork_wake split: if_splits)

lemma pool_ExecuteTask_wake:
  "wake_inv p \<Longrightarrow> pool_ExecuteTask p t n i = Inr (r, p') \<Longrightarrow> wake_inv p'"
  by (auto simp: pool_ExecuteTask_def execute_locked_def execute_at_wake
      Let_def split: option.splits if_splits prod.splits)

lemma pool_TerminateTask_wake:
  "wake_inv p \<Longrightarrow> pool_TerminateTask p i = Inr (r, p') \<Longrightarrow> wake_inv p'"
  by (auto simp: pool_TerminateTask_def Let_def bindr_eq_Inr update_fork_wake
      split: option.splits if_splits)

lemma pool_Reload_wake: "pool_Reload p rows = (Inr (), p') \<Longrightarrow> wake_inv p'"
  by (auto simp: pool_Reload_def update_fork_wake split: sum.splits prod.splits)

lemma pool_CancelTasks_wake: "pool_CancelTasks p w = Inr p' \<Longrightarrow> wake_inv p'"
  by (auto simp: pool_CancelTasks_def bindr_eq_Inr update_fork_wake)

text \<open>What a dequeue does, in one statement.\<close>

lemma pool_Dequeue_cases:
  assumes "pool_inv p" "\<not> is_shutting_down p"
  obtains (none) "\<not> any_unlocked p" "pool_Dequeue_resume p = Inr (None, p\<lparr>fork_locked := False\<rparr>)"
  | (some) pre n a post q q' p' where "queues_name p = pre @ (n, a) # post"
    "\<forall>(m, b) \<in> set pre. \<forall>r. heap p b = Some r \<longrightarrow> EvqQueue.IsLocked r"
    "heap p a = Some q" "\<not> EvqQueue.IsLocked q" "queue_inv q"
    "pool_Dequeue_resume p = Inr (Some (n, hd (q_cancelled q @ pending q)), p')"
    "heap p' = (heap p)(a \<mapsto> q')" "q_cancelled q' @ pending q' = tl (q_cancelled q @ pending q)"
    "q_running q' = q_running q" "fork_possible p' = any_unlocked p'" "\<not> fork_locked p'"
    "queues_name p' = queues_name p"
proof -
  let ?p = "p\<lparr>fork_locked := False\<rparr>"
  have inv: "pool_inv ?p" using assms by simp
  have res: "pool_Dequeue_resume p = dequeue_scan ?p (queues_name ?p)"
    using assms(2) by (simp add: pool_Dequeue_resume_def Let_def)
  from dequeue_scan_spec [OF inv subset_refl] show ?thesis
  proof (elim disjE exE conjE)
    assume "\<forall>(n, a)\<in>set (queues_name ?p). \<forall>q. heap ?p a = Some q \<longrightarrow> EvqQueue.IsLocked q"
      "dequeue_scan ?p (queues_name ?p) = Inr (None, ?p)"
    with res none show ?thesis by (auto simp: any_unlocked_def)
  next
    fix pre n a post q
    assume *: "queues_name ?p = pre @ (n, a) # post" "heap ?p a = Some q" "\<not> EvqQueue.IsLocked q"
      "\<forall>(m, b) \<in> set pre. \<forall>r. heap ?p b = Some r \<longrightarrow> EvqQueue.IsLocked r"
      "dequeue_scan ?p (queues_name ?p) = dequeue_scan ?p ((n, a) # post)"
    have mem: "(n, a) \<in> set (queues_name ?p)" using *(1) by simp
    from dequeue_scan_step [OF inv mem *(2,3), of post]
    obtain q' where q': "dequeue_scan ?p ((n, a) # post) = Inr (Some (n, hd (q_cancelled q @ pending q)),
        pool_event ''QUEUE_DEQUEUE'' ((set_queue ?p a q')\<lparr>fork_possible := any_unlocked (set_queue ?p a q')\<rparr>))"
      "q_cancelled q' @ pending q' = tl (q_cancelled q @ pending q)" "q_running q' = q_running q" by metis
    have "queue_inv q"
      using pool_inv_deref [OF inv] mem *(2) pool_inv_names [OF inv] by (metis option.inject)
    moreover have "pool_Dequeue_resume p = Inr (Some (n, hd (q_cancelled q @ pending q)),
        pool_event ''QUEUE_DEQUEUE'' ((set_queue ?p a q')\<lparr>fork_possible := any_unlocked (set_queue ?p a q')\<rparr>))"
      (is "_ = Inr (_, ?p')") by (simp only: res *(5) q'(1))
    moreover have "heap ?p' = (heap p)(a \<mapsto> q')" "fork_possible ?p' = any_unlocked ?p'"
      "\<not> fork_locked ?p'" "queues_name ?p' = queues_name p"
      by (simp_all add: pool_event_def)
    ultimately show ?thesis using *(1-4) q'(2,3)
      by (intro some [of pre n a post q ?p' q']) simp_all
  qed
qed

lemma pool_Dequeue_wake:
  assumes "pool_inv p" "wake_inv p" "pool_Dequeue_resume p = Inr (r, p')"
  shows "wake_inv p'"
proof (cases "is_shutting_down p")
  case True
  then show ?thesis using assms by (simp add: pool_Dequeue_resume_def)
next
  case False
  from assms(1) False show ?thesis
    by (cases rule: pool_Dequeue_cases) (use assms in \<open>auto simp: wake_inv_def\<close>)
qed

text \<open>Histories in which no reload threw: an exception of any other call leaves the pool as it was.\<close>

inductive pool_history :: "pool \<Rightarrow> bool" where
  start: "d = QUEUE_SCHEDULER_FIFO \<or> d = QUEUE_SCHEDULER_PRIO \<Longrightarrow> unat m < 2 ^ 31 \<Longrightarrow>
    QueuePool_new d m rows = (Inr (), p) \<Longrightarrow> pool_history p"
| call: "pool_history p \<Longrightarrow> pool_op_ok p op \<Longrightarrow> pool_step p op = (Inr (), p') \<Longrightarrow> pool_history p'"

lemma pool_history_reachable: "pool_history p \<Longrightarrow> pool_reachable p"
proof (induction rule: pool_history.induct)
  case (start d m rows p)
  from pool_reachable.init [OF start(1,2), of rows] start(3) show ?case by simp
next
  case (call p op p')
  from pool_reachable.step [OF call(4,2)] call(3) show ?case by simp
qed

lemma pool_history_wake: "pool_history p \<Longrightarrow> wake_inv p"
proof (induction rule: pool_history.induct)
  case (start d m rows p)
  then show ?case by (simp add: QueuePool_new_def pool_Reload_wake)
next
  case (call p op p')
  have inv: "pool_inv p" by (rule pool_reachable_inv [OF pool_history_reachable [OF call(1)]])
  show ?case
  proof (cases op)
    case PDequeueEnter
    then show ?thesis using call(3,4)
      by (cases "is_shutting_down p"; cases "fork_possible p") (auto simp: pool_Dequeue_enter_def wake_inv_def)
  next
    case PShutdown
    then show ?thesis using call(3,4)
      by (cases "fork_locked p") (auto simp: pool_Shutdown_def wake_inv_def Let_def)
  next
    case PDequeueResume
    then show ?thesis using call(3) pool_Dequeue_wake [OF inv call(4)]
      by (auto simp: keep_def split: sum.splits)
  next
    case (PReload rows)
    then show ?thesis using call(3) pool_Reload_wake by simp
  next
    case (PEnqueue n h t)
    then show ?thesis using call(3) pool_EnqueueTask_wake [OF call(4), of n h t]
      by (auto simp: keep_def split: sum.splits)
  next
    case (PExecute t n i)
    then show ?thesis using call(3) pool_ExecuteTask_wake [OF call(4), of t n i]
      by (auto simp: keep_def split: sum.splits)
  next
    case (PTerminate i)
    then show ?thesis using call(3) pool_TerminateTask_wake [OF call(4), of i]
      by (auto simp: keep_def split: sum.splits)
  next
    case (PCancel w)
    then show ?thesis using call(3) pool_CancelTasks_wake [of p w] by (auto split: sum.splits)
  qed
qed

text \<open>C3: No wake-up is lost: after any history in which no reload failed, the pool says it can
  fork exactly when some queue is not locked; a dequeuer that waits while this is so has been
  notified; and a dequeue in such a state returns a task, unless the pool is shutting down.\<close>

theorem pool_no_lost_wakeup:
  assumes "pool_history p"
  shows "fork_possible p = any_unlocked p \<and>
    (fork_locked p \<and> fork_possible p \<longrightarrow> fork_signal p) \<and>
    (fork_possible p \<and> \<not> is_shutting_down p \<longrightarrow>
       (\<exists>n t p'. pool_Dequeue_resume p = Inr (Some (n, t), p')))"
proof (intro conjI impI)
  note inv = pool_reachable_inv [OF pool_history_reachable [OF assms]]
  note wake = pool_history_wake [OF assms]
  show "fork_possible p = any_unlocked p" using wake by (simp add: wake_inv_def)
  show "fork_signal p" if "fork_locked p \<and> fork_possible p" using wake that by (simp add: wake_inv_def)
  show "\<exists>n t p'. pool_Dequeue_resume p = Inr (Some (n, t), p')"
    if "fork_possible p \<and> \<not> is_shutting_down p"
  proof -
    from that have "\<not> is_shutting_down p" by simp
    from inv this show ?thesis
      by (cases rule: pool_Dequeue_cases) (use that wake in \<open>auto simp: wake_inv_def\<close>)
  qed
qed

lemma sample_pool_start: "fst (QueuePool_new QUEUE_SCHEDULER_FIFO 10 sample_rows) = Inr ()"
  by code_simp

lemma sample_pool_history: "pool_history sample_pool"
proof (rule pool_history.start)
  show "QueuePool_new QUEUE_SCHEDULER_FIFO 10 sample_rows = (Inr (), sample_pool)"
    unfolding sample_pool_def using sample_pool_start by (metis prod.collapse)
qed simp_all

text \<open>A pool with a task waiting in a dynamic queue of the host web1.\<close>

definition busy_pool :: pool where
  "busy_pool = snd (pool_step sample_pool (PEnqueue ''ssh'' ''web1'' (sample_task 3)))"

lemma pool_room_small:
  "list_all (\<lambda>(n, a). case heap p a of None \<Rightarrow> True | Some q \<Rightarrow> length (pending q) < 5) (queues_name p) \<Longrightarrow>
   pool_room p"
  unfolding pool_room_def list_all_iff by (force split: option.splits)

lemma busy_pool_history: "pool_history busy_pool"
proof (rule pool_history.call [OF sample_pool_history])
  show "pool_op_ok sample_pool (PEnqueue ''ssh'' ''web1'' (sample_task 3))"
    unfolding pool_op_ok.simps by (rule pool_room_small) code_simp
  have "fst (pool_step sample_pool (PEnqueue ''ssh'' ''web1'' (sample_task 3))) = Inr ()" by code_simp
  then show "pool_step sample_pool (PEnqueue ''ssh'' ''web1'' (sample_task 3)) = (Inr (), busy_pool)"
    unfolding busy_pool_def by (metis prod.collapse)
qed

theorem pool_no_lost_wakeup_witness:
  "any_unlocked busy_pool \<and> (\<exists>n t p'. pool_Dequeue_resume busy_pool = Inr (Some (n, t), p'))"
proof -
  have "fork_possible busy_pool" "\<not> is_shutting_down busy_pool" by code_simp+
  then show ?thesis using pool_no_lost_wakeup [OF busy_pool_history] by blast
qed

section \<open>Order and concurrency\<close>

text \<open>C4: A dequeue returns the first task of the first queue, in the order of the queue names,
  that is not locked: a cancelled task if the queue has one, otherwise the first waiting task of
  a queue that runs fewer tasks than its concurrency. It removes that task and nothing else, and
  touches no other queue.\<close>

theorem pool_dequeue_order:
  assumes "pool_history p" "pool_Dequeue_resume p = Inr (Some (n, t), p')"
  shows "\<exists>pre a post q q'. queues_name p = pre @ (n, a) # post \<and>
    (\<forall>(m, b) \<in> set pre. \<forall>r. heap p b = Some r \<longrightarrow> EvqQueue.IsLocked r) \<and>
    heap p a = Some q \<and> q_cancelled q @ pending q = t # (q_cancelled q' @ pending q') \<and>
    (q_cancelled q \<noteq> [] \<or> q_running q < q_concurrency q) \<and>
    heap p' = (heap p)(a \<mapsto> q') \<and> q_running q' = q_running q \<and> queues_name p' = queues_name p"
proof -
  have inv: "pool_inv p" by (rule pool_reachable_inv [OF pool_history_reachable [OF assms(1)]])
  have up: "\<not> is_shutting_down p" using assms(2) by (auto simp: pool_Dequeue_resume_def)
  from inv up show ?thesis
  proof (cases rule: pool_Dequeue_cases)
    case none
    then show ?thesis using assms(2) by simp
  next
    case (some pre m a post q q' p1)
    have "q_cancelled q @ pending q \<noteq> [] \<and> (q_cancelled q \<noteq> [] \<or> q_running q < q_concurrency q)"
      using unlocked_pending [OF some(5,4)] by (cases "q_cancelled q") auto
    moreover have "n = m" "t = hd (q_cancelled q @ pending q)" "p' = p1"
      using some(6) assms(2) by simp_all
    ultimately show ?thesis using some
      by (intro exI [of _ pre] exI [of _ a] exI [of _ post] exI [of _ q] exI [of _ q']) simp
  qed
qed

lemma busy_pool_dequeue:
  "\<exists>p'. pool_Dequeue_resume busy_pool = Inr (Some (''ssh@web1'', sample_task 3), p')"
proof -
  have "map_sum id fst (pool_Dequeue_resume busy_pool) = Inr (Some (''ssh@web1'', sample_task 3))" by code_simp
  then show ?thesis by (cases "pool_Dequeue_resume busy_pool") auto
qed

theorem pool_dequeue_order_witness:
  "\<exists>(p' :: pool) pre a post q q'. queues_name busy_pool = pre @ (''ssh@web1'', a) # post \<and>
    (\<forall>(m, b) \<in> set pre. \<forall>r. heap busy_pool b = Some r \<longrightarrow> EvqQueue.IsLocked r) \<and>
    heap busy_pool a = Some q \<and> q_cancelled q @ pending q = sample_task 3 # (q_cancelled q' @ pending q') \<and>
    (q_cancelled q \<noteq> [] \<or> q_running q < q_concurrency q) \<and>
    heap p' = (heap busy_pool)(a \<mapsto> q') \<and> q_running q' = q_running q \<and> queues_name p' = queues_name busy_pool"
proof -
  obtain p' where "pool_Dequeue_resume busy_pool = Inr (Some (''ssh@web1'', sample_task 3), p')"
    using busy_pool_dequeue by blast
  note order = pool_dequeue_order [OF busy_pool_history this]
  show ?thesis by (rule exI [where x = p'], rule order)
qed

section \<open>Task ids\<close>

text \<open>The search starts after the last id given and comes around to every id below \<open>maxpid\<close>.\<close>

lemma mod_round: "L \<le> m \<Longrightarrow> s < m \<Longrightarrow> \<exists>i < m. (L + 1 + i) mod m = (s::nat)"
proof (intro exI conjI)
  assume *: "L \<le> m" "s < m"
  show "(s + 2 * m - (L + 1)) mod m < m" using * by simp
  have "(L + 1 + (s + 2 * m - (L + 1)) mod m) mod m = (L + 1 + (s + 2 * m - (L + 1))) mod m"
    by (rule mod_add_right_eq)
  also have "L + 1 + (s + 2 * m - (L + 1)) = s + 2 * m" using * by linarith
  finally show "(L + 1 + (s + 2 * m - (L + 1)) mod m) mod m = s" using * by simp
qed

lemma unat_tid:
  assumes "frame_inv p" "i < unat (maxpid p)"
  shows "unat ((lasttid p + 1 + of_nat i) mod maxpid p) = (unat (lasttid p) + 1 + i) mod unat (maxpid p)"
proof -
  have "unat (lasttid p) \<le> unat (maxpid p)" "unat (maxpid p) < 2 ^ 31"
    using assms(1) by (simp_all add: frame_inv_def word_le_nat_alt)
  then have "unat (lasttid p) + 1 + i < 2 ^ 32" using assms(2) by simp
  then have "unat (of_nat (unat (lasttid p) + 1 + i) :: 32 word) = unat (lasttid p) + 1 + i"
    by (simp only: unat_of_nat) simp
  then have "unat (lasttid p + 1 + of_nat i) = unat (lasttid p) + 1 + i" by (simp add: ac_simps)
  then show ?thesis by (simp add: unat_mod)
qed

lemma alloc_tid_complete:
  assumes "frame_inv p" "j < unat (maxpid p)" "tid_workflow_instance p ! j = None"
  obtains t where "alloc_tid p 0 [0..<unat (maxpid p)] = (t, True)"
proof -
  obtain t b where al: "alloc_tid p 0 [0..<unat (maxpid p)] = (t, b)" by (cases "alloc_tid p 0 [0..<unat (maxpid p)]")
  have "unat (lasttid p) \<le> unat (maxpid p)" using assms(1) by (simp add: frame_inv_def word_le_nat_alt)
  from mod_round [OF this assms(2)] obtain i where i: "i < unat (maxpid p)"
    "(unat (lasttid p) + 1 + i) mod unat (maxpid p) = j" by blast
  have b
  proof (rule ccontr)
    assume "\<not> b"
    with al have "alloc_tid p 0 [0..<unat (maxpid p)] = (t, False)" by simp
    with alloc_tid_False [OF this] i have
      "tid_workflow_instance p ! unat ((lasttid p + 1 + of_nat i) mod maxpid p) \<noteq> None" by auto
    with unat_tid [OF assms(1) i(1)] i(2) assms(3) show False by simp
  qed
  with al that show thesis by simp
qed

lemma pool_event_simps [simp]:
  "tid_queue (pool_event e p) = tid_queue p" "tid_task (pool_event e p) = tid_task p"
  "tid_workflow_instance (pool_event e p) = tid_workflow_instance p" "maxpid (pool_event e p) = maxpid p"
  by (simp_all add: pool_event_def)

lemma signalled_simps [simp]:
  "tid_queue (signalled p) = tid_queue p" "tid_task (signalled p) = tid_task p"
  "tid_workflow_instance (signalled p) = tid_workflow_instance p" "maxpid (signalled p) = maxpid p"
  by (simp_all add: signalled_def)

lemma set_queue_tids [simp]:
  "tid_queue (set_queue p a q) = tid_queue p" "tid_task (set_queue p a q) = tid_task p"
  "tid_workflow_instance (set_queue p a q) = tid_workflow_instance p"
  by (simp_all add: set_queue_def)

lemma update_fork_tids:
  "update_fork p = Inr p' \<Longrightarrow> tid_queue p' = tid_queue p \<and> tid_task p' = tid_task p \<and>
     tid_workflow_instance p' = tid_workflow_instance p \<and> maxpid p' = maxpid p"
  by (auto simp: update_fork_def Let_def bindr_eq_Inr)

lemma reap_queue_tids [simp]:
  "tid_queue (reap_queue p a q) = tid_queue p" "tid_task (reap_queue p a q) = tid_task p"
  "tid_workflow_instance (reap_queue p a q) = tid_workflow_instance p" "maxpid (reap_queue p a q) = maxpid p"
  by (simp_all add: reap_queue_def delete_queue_def)

lemma execute_at_GetTask:
  assumes "pool_inv p" "execute_at p a t i = Inr (r, p1)" "tid_valid p i"
  shows "pool_GetTask p1 j = (if j = i then Inr (Some t) else pool_GetTask p j)"
proof -
  from assms(2) obtain q p2 where *: "update_fork (set_queue (occupy_tid p a t (nat i)) a (EvqQueue.ExecuteTask q)) = Inr p2"
    "p1 = pool_event ''QUEUE_EXECUTE'' p2"
    by (auto simp: execute_at_def bindr_eq_Inr split: if_splits)
  have len: "length (tid_task p) = Suc (unat (maxpid p))" "length (tid_workflow_instance p) = Suc (unat (maxpid p))"
    using assms(1) by (simp_all add: pool_inv_def frame_inv_def)
  have "nat i < Suc (unat (maxpid p))" using assms(3) by (simp add: tid_valid_def nat_le_iff less_Suc_eq_le)
  moreover have "j \<noteq> i \<Longrightarrow> tid_valid p j \<Longrightarrow> nat j \<noteq> nat i" using assms(3) by (auto simp: tid_valid_def)
  ultimately show ?thesis
    using update_fork_tids [OF *(1)] *(2) assms(3) len
    by (auto simp: pool_GetTask_def tid_valid_def occupy_tid_def nth_list_update split: option.splits)
qed

lemma TerminateTask_GetTask:
  assumes "pool_inv p" "tid_valid p i" "pool_GetTask p i = Inr (Some t)"
  obtains p' where "pool_TerminateTask p i = Inr (Some t, p')" "pool_GetTask p' i = Inr None" "pool_inv p'"
proof -
  obtain r p' where r: "pool_TerminateTask p i = Inr (r, p')" "pool_inv p'"
    by (rule pool_TerminateTask_safe [OF assms(1,2)])
  have "nat i < length (tid_workflow_instance p)"
    using assms(1,2) by (simp add: pool_inv_def frame_inv_def tid_valid_def nat_le_iff less_Suc_eq_le)
  then have "r = Some t \<and> pool_GetTask p' i = Inr None"
    using r(1) assms(2,3)
    by (auto simp: pool_TerminateTask_def pool_GetTask_def tid_valid_def Let_def bindr_eq_Inr free_tid_def
        dest!: update_fork_tids split: option.splits)
  with r that show thesis by blast
qed

text \<open>Task ids: when some id below \<open>maxpid\<close> is free, executing a task of an existing queue finds
  a free one, under which exactly this task can be read back; every other id keeps its task; and
  terminating the id returns the task and frees the id.\<close>

theorem pool_tid_roundtrip:
  assumes "pool_history p" "smap_find (queues_name p) n = Some a"
    "j < unat (maxpid p)" "tid_workflow_instance p ! j = None"
  shows "\<exists>i p1 p2. pool_ExecuteTask p t n 0 = Inr (i, p1) \<and> pool_GetTask p i = Inr None \<and>
    pool_GetTask p1 i = Inr (Some t) \<and> (\<forall>k. k \<noteq> i \<longrightarrow> pool_GetTask p1 k = pool_GetTask p k) \<and>
    pool_TerminateTask p1 i = Inr (Some t, p2) \<and> pool_GetTask p2 i = Inr None"
proof -
  note inv0 = pool_reachable_inv [OF pool_history_reachable [OF assms(1)]]
  then have fr: "frame_inv p" by (simp add: pool_inv_def)
  obtain tid where al: "alloc_tid p 0 [0..<unat (maxpid p)] = (tid, True)"
    by (rule alloc_tid_complete [OF fr assms(3,4)])
  let ?p = "p\<lparr>lasttid := tid\<rparr>" and ?i = "uint tid"
  have inv: "pool_inv ?p" using alloc_tid_le [OF al] inv0 by (simp add: pool_inv_lasttid)
  have valid: "tid_valid ?p ?i" using alloc_tid_le [OF al] by (simp add: tid_valid_def word_le_def)
  have free: "tid_workflow_instance ?p ! nat ?i = None" using alloc_tid_True [OF al] by simp
  have find: "smap_find (queues_name ?p) n = Some a" using assms(2) by simp
  obtain q where ex: "execute_at ?p a t ?i = Inr (?i, pool_event ''QUEUE_EXECUTE''
      (signalled (set_queue (occupy_tid ?p a t (nat ?i)) a (EvqQueue.ExecuteTask q))))" (is "_ = Inr (_, ?p1)")
    and inv1: "pool_inv (set_queue (occupy_tid ?p a t (nat ?i)) a (EvqQueue.ExecuteTask q))"
    by (rule execute_at_safe [OF inv find valid free])
  have get: "pool_GetTask ?p k = pool_GetTask p k" for k
    by (simp add: pool_GetTask_def tid_valid_def split: option.splits)
  have get1: "pool_GetTask ?p1 k = (if k = ?i then Inr (Some t) else pool_GetTask p k)" for k
    using execute_at_GetTask [OF inv ex valid, of k] get by simp
  have valid1: "tid_valid ?p1 ?i" using valid by (simp add: tid_valid_def occupy_tid_def)
  obtain p2 where "pool_TerminateTask ?p1 ?i = Inr (Some t, p2)" "pool_GetTask p2 ?i = Inr None"
    by (rule TerminateTask_GetTask [OF _ valid1, of t]) (use inv1 get1 in simp_all)
  moreover have "pool_ExecuteTask p t n 0 = Inr (?i, ?p1)"
    using assms(2) al ex by (simp add: pool_ExecuteTask_def execute_locked_def)
  moreover have "pool_GetTask p ?i = Inr None"
    using valid free by (simp add: pool_GetTask_def tid_valid_def)
  ultimately show ?thesis using get1 by (intro exI [of _ ?i] exI [of _ ?p1] exI [of _ p2]) simp
qed

theorem pool_tid_roundtrip_witness:
  "\<exists>i p1 p2. pool_ExecuteTask busy_pool (sample_task 3) ''ssh@web1'' 0 = Inr (i, p1) \<and>
    pool_GetTask busy_pool i = Inr None \<and>
    pool_GetTask p1 i = Inr (Some (sample_task 3)) \<and>
    (\<forall>k. k \<noteq> i \<longrightarrow> pool_GetTask p1 k = pool_GetTask busy_pool k) \<and>
    pool_TerminateTask p1 i = Inr (Some (sample_task 3), p2) \<and> pool_GetTask p2 i = Inr None"
proof (rule pool_tid_roundtrip [OF busy_pool_history])
  show "smap_find (queues_name busy_pool) ''ssh@web1'' = Some 3" by code_simp
  show "0 < unat (maxpid busy_pool)" by code_simp
  show "tid_workflow_instance busy_pool ! 0 = None" by code_simp
qed

section \<open>Two histories in which the pool misbehaves\<close>

text \<open>
  A queue is in use when its row leaves the table; the reload marks it, and its last task to
  terminate frees it, taking its name out of one index only. The other still leads to it.
\<close>

definition run_pool :: "pool \<Rightarrow> pool_op list \<Rightarrow> pool" where
  "run_pool p ops = foldl (\<lambda>p op. snd (pool_step p op)) p ops"

lemma run_pool_snoc: "run_pool p (ops @ [op]) = snd (pool_step (run_pool p ops) op)"
  by (simp add: run_pool_def)

definition dangling_ops :: "pool_op list" where
  "dangling_ops =
     [PEnqueue ''default'' [] (sample_task 5), PDequeueResume, PExecute (sample_task 5) ''default'' 0,
      PReload [], PTerminate 1]"

text \<open>A use after free: the pool can reach a state in which the query for a queue by its id
  reads a freed queue (the workload: one task of queue 1 runs while its row is deleted).\<close>

theorem reload_dangling_id:
  "\<exists>p s. pool_reachable p \<and> pool_Exists p 1 \<and> pool_GetQueue p 1 = Inl (UB s)"
proof (intro exI conjI)
  let ?p = "run_pool sample_pool"
  have ops: "dangling_ops = (((([] @ [dangling_ops ! 0]) @ [dangling_ops ! 1]) @ [dangling_ops ! 2]) @
      [dangling_ops ! 3]) @ [dangling_ops ! 4]" by (simp add: dangling_ops_def)
  have r0: "pool_reachable (?p [])" by (simp add: run_pool_def sample_pool_reachable)
  have ok0: "pool_op_ok (?p []) (dangling_ops ! 0)"
    unfolding dangling_ops_def nth_Cons_0 pool_op_ok.simps by (rule pool_room_small) code_simp
  have ok4: "tid_valid (?p (take 4 dangling_ops)) 1" by code_simp
  show "pool_reachable (?p dangling_ops)"
    by (subst ops, unfold run_pool_snoc) (intro pool_reachable.step r0 ok0;
        (use ok4 in \<open>simp add: dangling_ops_def tid_ok_def run_pool_def\<close>))
  show "pool_Exists (?p dangling_ops) 1" by code_simp
  show "pool_GetQueue (?p dangling_ops) 1 = Inl (UB ''use after free'')" by code_simp
qed

text \<open>
  Between the dequeue of a task and its execution the queue is idle for the pool: a reload then
  drops a dynamic queue, and the execution fails with the result 0 and no record of the task.
\<close>

definition lost_ops :: "pool_op list" where
  "lost_ops = [PEnqueue ''ssh'' ''web1'' (sample_task 3), PDequeueResume, PReload sample_rows]"

text \<open>A lost task: a task that was dequeued is refused by \<open>ExecuteTask\<close> (no id, no running
  task, the pool unchanged) when a reload came between the two calls of the forker.\<close>

theorem dequeued_task_lost:
  "map_sum id fst (pool_Dequeue_resume (run_pool sample_pool (take 1 lost_ops))) =
     Inr (Some (''ssh@web1'', sample_task 3)) \<and>
   pool_ExecuteTask (run_pool sample_pool lost_ops) (sample_task 3) ''ssh@web1'' 0 =
     Inr (0, run_pool sample_pool lost_ops)"
proof
  show "map_sum id fst (pool_Dequeue_resume (run_pool sample_pool (take 1 lost_ops))) =
     Inr (Some (''ssh@web1'', sample_task 3))" by code_simp
  have "smap_find (queues_name (run_pool sample_pool lost_ops)) ''ssh@web1'' = None" by code_simp
  then show "pool_ExecuteTask (run_pool sample_pool lost_ops) (sample_task 3) ''ssh@web1'' 0 =
     Inr (0, run_pool sample_pool lost_ops)" by (simp add: pool_ExecuteTask_def)
qed

end
