(* ===== verification/XPathTokens.thy ===== *)
theory XPathTokens
  imports EvqBase
begin

text \<open>
  The tokens of the XPath engine: src/XPath/XPathTokens.cpp and include/XPath/XPathTokens.h.

  Every class derived from \<open>Token\<close> is a constructor; \<open>tpos\<close> is the field \<open>initial_position\<close> the
  base class holds (-1 when it was never set). An expression owns its tokens, so expressions are
  lists; the arguments of a function and the expression of a filter are \<open>TokenExpr\<close> objects that
  never get a position and are lists too. Floating point numbers and DOM nodes are type variables:
  arithmetic on \<open>double\<close> is the record \<open>fops\<close>, the document tree (Xerces) the record \<open>dom\<close>.
\<close>

section \<open>Types\<close>

datatype token_type = LIT_STR | LIT_INT | LIT_FLOAT | LIT_BOOL | NODENAME | ATTRNAME | AXIS | FUNC
  | FILTER | OP | LPAR | RPAR | LSQ | RSQ | COMMA | SLASH | DSLASH | EXPR | NODE | SEQ | ENDLINE

datatype operator = MULT | DIV | MOD | PLUS | MINUS | LT | LEQ | GT | GEQ | EQ | NEQ | AND | OR | PIPE

text \<open>Values of the enumeration compare by their position in it.\<close>

fun type_rank :: "token_type \<Rightarrow> nat" where
  "type_rank LIT_STR = 0" | "type_rank LIT_INT = 1" | "type_rank LIT_FLOAT = 2"
| "type_rank LIT_BOOL = 3" | "type_rank NODENAME = 4" | "type_rank ATTRNAME = 5"
| "type_rank AXIS = 6" | "type_rank FUNC = 7" | "type_rank FILTER = 8" | "type_rank OP = 9"
| "type_rank LPAR = 10" | "type_rank RPAR = 11" | "type_rank LSQ = 12" | "type_rank RSQ = 13"
| "type_rank COMMA = 14" | "type_rank SLASH = 15" | "type_rank DSLASH = 16" | "type_rank EXPR = 17"
| "type_rank NODE = 18" | "type_rank SEQ = 19" | "type_rank ENDLINE = 20"

lemma type_rank_inj: "type_rank a = type_rank b \<Longrightarrow> a = b"
  by (cases a; cases b) simp_all

instantiation token_type :: linorder
begin

definition less_eq_token_type :: "token_type \<Rightarrow> token_type \<Rightarrow> bool" where
  "less_eq_token_type a b \<longleftrightarrow> type_rank a \<le> type_rank b"

definition less_token_type :: "token_type \<Rightarrow> token_type \<Rightarrow> bool" where
  "less_token_type a b \<longleftrightarrow> type_rank a < type_rank b"

instance
  by standard (auto simp: less_eq_token_type_def less_token_type_def dest: type_rank_inj)

end

datatype ('d, 'n) token =
    TSyntax (tpos: int) token_type
  | TOP (tpos: int) operator
  | TStr (tpos: int) string
  | TFloat (tpos: int) 'd
  | TInt (tpos: int) int
  | TBool (tpos: int) bool
  | TExpr (tpos: int) "('d, 'n) token list"
  | TNodeName (tpos: int) string
  | TAttrName (tpos: int) string
  | TAxis (tpos: int) string string
  | TFilter (tpos: int) "('d, 'n) token list option"
  | TFunc (tpos: int) string "('d, 'n) token list list"
  | TNode (tpos: int) 'n
  | TSeq (tpos: int) "('d, 'n) token list"

fun GetType :: "('d, 'n) token \<Rightarrow> token_type" where
  "GetType (TSyntax p t) = t"
| "GetType (TOP p opr) = OP"
| "GetType (TStr p s) = LIT_STR"
| "GetType (TFloat p d) = LIT_FLOAT"
| "GetType (TInt p i) = LIT_INT"
| "GetType (TBool p b) = LIT_BOOL"
| "GetType (TExpr p ts) = EXPR"
| "GetType (TNodeName p s) = NODENAME"
| "GetType (TAttrName p s) = ATTRNAME"
| "GetType (TAxis p a s) = AXIS"
| "GetType (TFilter p ts) = FILTER"
| "GetType (TFunc p s args) = FUNC"
| "GetType (TNode p n) = NODE"
| "GetType (TSeq p ts) = SEQ"

text \<open>\<open>SetInitialPosition\<close>.\<close>

fun set_pos :: "int \<Rightarrow> ('d, 'n) token \<Rightarrow> ('d, 'n) token" where
  "set_pos q (TSyntax p t) = TSyntax q t"
| "set_pos q (TOP p opr) = TOP q opr"
| "set_pos q (TStr p s) = TStr q s"
| "set_pos q (TFloat p d) = TFloat q d"
| "set_pos q (TInt p i) = TInt q i"
| "set_pos q (TBool p b) = TBool q b"
| "set_pos q (TExpr p ts) = TExpr q ts"
| "set_pos q (TNodeName p s) = TNodeName q s"
| "set_pos q (TAttrName p s) = TAttrName q s"
| "set_pos q (TAxis p a s) = TAxis q a s"
| "set_pos q (TFilter p ts) = TFilter q ts"
| "set_pos q (TFunc p s args) = TFunc q s args"
| "set_pos q (TNode p n) = TNode q n"
| "set_pos q (TSeq p ts) = TSeq q ts"

lemma GetType_set_pos [simp]: "GetType (set_pos q t) = GetType t"
  by (cases t) simp_all

definition LogInitialPosition :: "int \<Rightarrow> string" where
  "LogInitialPosition p = (if p = -1 then [] else '' at character '' @ to_string p)"

fun op_ToString :: "operator \<Rightarrow> string" where
  "op_ToString MULT = ''*''" | "op_ToString DIV = ''div''" | "op_ToString MOD = ''mod''"
| "op_ToString PLUS = ''+''" | "op_ToString MINUS = ''-''" | "op_ToString LT = ''<''"
| "op_ToString LEQ = ''<=''" | "op_ToString GT = ''>''" | "op_ToString GEQ = ''>=''"
| "op_ToString EQ = ''=''" | "op_ToString NEQ = ''!=''" | "op_ToString AND = ''and''"
| "op_ToString OR = ''or''" | "op_ToString PIPE = ''UNKNOWN''"

text \<open>
  The copy constructors. That of \<open>TokenFilter\<close> tests its own, still null, pointer instead of the
  one of the filter it copies: the copy of a filter has no expression.
\<close>

fun clone :: "('d, 'n) token \<Rightarrow> ('d, 'n) token" where
  "clone (TFilter p ts) = TFilter p None"
| "clone (TExpr p ts) = TExpr p (map clone ts)"
| "clone (TFunc p s args) = TFunc p s (map (map clone) args)"
| "clone (TSeq p ts) = TSeq p (map clone ts)"
| "clone t = t"

fun no_filter :: "('d, 'n) token \<Rightarrow> bool" where
  "no_filter (TFilter p ts) = False"
| "no_filter (TExpr p ts) = list_all no_filter ts"
| "no_filter (TFunc p s args) = list_all (list_all no_filter) args"
| "no_filter (TSeq p ts) = list_all no_filter ts"
| "no_filter _ = True"

lemma clone_no_filter: "no_filter t \<Longrightarrow> clone t = t"
  by (induction t rule: clone.induct) (auto simp: list_all_iff intro!: map_idI)

lemma GetType_clone [simp]: "GetType (clone t) = GetType t"
  by (cases t) simp_all

lemma tpos_clone [simp]: "tpos (clone t) = tpos t"
  by (cases t) simp_all

section \<open>Numbers and nodes\<close>

record 'd fops =
  f_of_int :: "int \<Rightarrow> 'd"
  f_to_int :: "'d \<Rightarrow> int option"
  f_add :: "'d \<Rightarrow> 'd \<Rightarrow> 'd"
  f_sub :: "'d \<Rightarrow> 'd \<Rightarrow> 'd"
  f_mul :: "'d \<Rightarrow> 'd \<Rightarrow> 'd"
  f_div :: "'d \<Rightarrow> 'd \<Rightarrow> 'd"
  f_lt :: "'d \<Rightarrow> 'd \<Rightarrow> bool"
  f_le :: "'d \<Rightarrow> 'd \<Rightarrow> bool"
  f_eq :: "'d \<Rightarrow> 'd \<Rightarrow> bool"
  f_str :: "'d \<Rightarrow> string"
  f_stod :: "string \<Rightarrow> ('d \<times> nat) option"

text \<open>An instance, on which examples are evaluated: numbers without a fraction.\<close>

definition int_fops :: "int fops" where
  "int_fops = \<lparr>f_of_int = (\<lambda>i. i), f_to_int = (\<lambda>i. if int_range i then Some i else None),
     f_add = (+), f_sub = (-), f_mul = (*), f_div = (div), f_lt = (<), f_le = (\<le>), f_eq = (=),
     f_str = to_string, f_stod = strtol10\<rparr>"

datatype node_kind = ELEMENT_NODE | DOCUMENT_NODE | OTHER_NODE

text \<open>
  The document: \<open>d_children\<close> is the chain of \<open>getFirstChild\<close> and \<open>getNextSibling\<close>, \<open>d_next\<close> and
  \<open>d_prev\<close> the chains of \<open>getNextSibling\<close> and \<open>getPreviousSibling\<close> from a node on.
\<close>

record 'n dom =
  d_parent :: "'n \<Rightarrow> 'n option"
  d_children :: "'n \<Rightarrow> 'n list"
  d_prev :: "'n \<Rightarrow> 'n list"
  d_next :: "'n \<Rightarrow> 'n list"
  d_attrs :: "'n \<Rightarrow> 'n list"
  d_name :: "'n \<Rightarrow> string"
  d_value :: "'n \<Rightarrow> string"
  d_kind :: "'n \<Rightarrow> node_kind"
  d_document :: 'n

section \<open>Conversions\<close>

definition cast_error :: "string \<Rightarrow> int \<Rightarrow> 'a res" where
  "cast_error what p = Inl (Exn ''Type Cast'' (what @ LogInitialPosition p) [])"

definition cast_string_to_int :: "int \<Rightarrow> string \<Rightarrow> int res" where
  "cast_string_to_int p s =
     (let err = cast_error ''Could not cast string to int'' p
      in catch_all (bindr (stoi s) (\<lambda>(n, pos). if pos \<noteq> length s then err else Inr n)) err)"

text \<open>The float is stored in an \<open>int\<close> on its way (\<open>int d = stod(s,&pos)\<close>).\<close>

definition cast_string_to_double :: "'d fops \<Rightarrow> int \<Rightarrow> string \<Rightarrow> 'd res" where
  "cast_string_to_double F p s =
     (let err = cast_error ''Could not cast string to float'' p
      in case f_stod F s of
           None \<Rightarrow> err
         | Some (d, pos) \<Rightarrow>
             (case f_to_int F d of
                None \<Rightarrow> Inl (UB ''double out of the range of int'')
              | Some i \<Rightarrow> if pos \<noteq> length s then err else Inr (f_of_int F i)))"

definition add_position :: "int \<Rightarrow> 'a res \<Rightarrow> 'a res" where
  "add_position p m = catch_exn m (\<lambda>c e k. Inl (Exn c (e @ LogInitialPosition p) k))"

abbreviation incompatible :: "int \<Rightarrow> 'a res" where
  "incompatible p \<equiv> cast_error ''Incompatible type for operand'' p"

text \<open>\<open>Token::operator int\<close>, \<open>operator double\<close>, \<open>operator string\<close>, \<open>operator DOMNode\<close>, \<open>operator bool\<close>.\<close>

fun to_int :: "'d fops \<Rightarrow> 'n dom \<Rightarrow> ('d, 'n) token \<Rightarrow> int res" where
  "to_int F D (TFloat p d) =
     (case f_to_int F d of None \<Rightarrow> Inl (UB ''double out of the range of int'') | Some i \<Rightarrow> Inr i)"
| "to_int F D (TInt p i) = Inr i"
| "to_int F D (TBool p b) = Inr (if b then 1 else 0)"
| "to_int F D (TStr p s) = cast_string_to_int p s"
| "to_int F D (TNode p n) = cast_string_to_int p (d_value D n)"
| "to_int F D (TSeq p [t]) = add_position p (to_int F D t)"
| "to_int F D t = incompatible (tpos t)"

text \<open>The value of the one item of a sequence is computed and dropped: the return is missing.\<close>

fun to_double :: "'d fops \<Rightarrow> 'n dom \<Rightarrow> ('d, 'n) token \<Rightarrow> 'd res" where
  "to_double F D (TFloat p d) = Inr d"
| "to_double F D (TInt p i) = Inr (f_of_int F i)"
| "to_double F D (TBool p b) = Inr (f_of_int F (if b then 1 else 0))"
| "to_double F D (TStr p s) = cast_string_to_double F p s"
| "to_double F D (TNode p n) = cast_string_to_double F p (d_value D n)"
| "to_double F D (TSeq p [t]) = bindr (add_position p (to_double F D t)) (\<lambda>_. incompatible p)"
| "to_double F D t = incompatible (tpos t)"

fun to_str :: "'d fops \<Rightarrow> 'n dom \<Rightarrow> ('d, 'n) token \<Rightarrow> string res" where
  "to_str F D (TStr p s) = Inr s"
| "to_str F D (TInt p i) = Inr (to_string i)"
| "to_str F D (TFloat p d) = Inr (f_str F d)"
| "to_str F D (TBool p b) = Inr (if b then ''1'' else ''0'')"
| "to_str F D (TNode p n) = Inr (d_value D n)"
| "to_str F D (TSeq p []) = Inr []"
| "to_str F D (TSeq p [t]) = add_position p (to_str F D t)"
| "to_str F D t = incompatible (tpos t)"

fun to_node :: "('d, 'n) token \<Rightarrow> 'n res" where
  "to_node (TNode p n) = Inr n"
| "to_node (TSeq p [t]) = to_node t"
| "to_node t = incompatible (tpos t)"

fun to_bool :: "'d fops \<Rightarrow> ('d, 'n) token \<Rightarrow> bool" where
  "to_bool F (TStr p s) = (s \<noteq> [])"
| "to_bool F (TFloat p d) = (\<not> f_eq F d (f_of_int F 0))"
| "to_bool F (TInt p i) = (i \<noteq> 0)"
| "to_bool F (TBool p b) = b"
| "to_bool F (TNode p n) = True"
| "to_bool F (TSeq p ts) = (ts \<noteq> [])"
| "to_bool F _ = False"

lemma cast_string_to_int_to_string [simp]: "int_range i \<Longrightarrow> cast_string_to_int p (to_string i) = Inr i"
  by (simp add: cast_string_to_int_def stoi_to_string)

lemma cast_string_to_int_no_ub: "\<not> is_ub (cast_string_to_int p s)"
  by (auto simp: cast_string_to_int_def Let_def stoi_def cast_error_def is_ub_def
      split: option.splits if_splits prod.splits)

text \<open>A sequence never converts to a float, whatever it holds.\<close>

lemma to_double_seq: "to_double F D (TSeq p ts) \<noteq> Inr d"
proof (cases ts)
  case (Cons t us)
  then show ?thesis by (cases us) (auto simp: cast_error_def bindr_eq_Inr)
qed (simp add: cast_error_def)

end
