(* ===== verification/XPathLexer.thy ===== *)
theory XPathLexer
  imports XPathTokens
begin

text \<open>
  The lexer of the XPath engine: \<open>parse_token\<close> and \<open>parse_expr\<close> of src/XPath/XPathParser.cpp.
  The source scans a string with an index; the model passes the part of the string from the index
  on, with the index itself for the positions that error messages and tokens carry. Reading one
  past the end gives NUL, as \<open>std::string\<close> does.
\<close>

section \<open>Scanning\<close>

abbreviation cur :: "string \<Rightarrow> char" where
  "cur r \<equiv> at r 0"

definition is_space :: "char \<Rightarrow> bool" where
  "is_space c \<longleftrightarrow> c = CHR '' ''"

definition skip_spaces :: "string \<Rightarrow> string" where
  "skip_spaces r = dropWhile is_space r"

text \<open>Digits and at most one dot; \<open>None\<close> for a second dot.\<close>

fun scan_number :: "string \<Rightarrow> bool \<Rightarrow> (string \<times> bool \<times> string) option" where
  "scan_number [] fl = Some ([], fl, [])"
| "scan_number (c # r) fl =
     (if isdigit c then
        (case scan_number r fl of None \<Rightarrow> None | Some (b, f, r') \<Rightarrow> Some (c # b, f, r'))
      else if c = CHR ''.'' then
        (if fl then None
         else case scan_number r True of None \<Rightarrow> None | Some (b, f, r') \<Rightarrow> Some (c # b, f, r'))
      else Some ([], fl, c # r))"

definition name_char :: "char \<Rightarrow> bool" where
  "name_char c \<longleftrightarrow> isalnum c \<or> c = CHR ''_'' \<or> c = CHR ''-''"

text \<open>
  A name, or an axis and a name: the two buffers, whether a colon was seen, and the rest. \<open>None\<close>
  for a second colon.
\<close>

fun scan_name :: "string \<Rightarrow> bool \<Rightarrow> string \<Rightarrow> string \<Rightarrow> (string \<times> string \<times> bool \<times> string) option" where
  "scan_name [] ax buf buf2 = Some (buf, buf2, ax, [])"
| "scan_name (c # r) ax buf buf2 =
     (if c = CHR '':'' then
        (if ax then None
         else if take 2 r = '':*'' then Some (buf, ''*'', True, drop 2 r)
         else if take 1 r = '':'' then scan_name (drop 1 r) True buf buf2
         else scan_name r True buf (buf2 @ [c]))
      else if name_char c then
        (if \<not> ax then scan_name r ax (buf @ [c]) buf2 else scan_name r ax buf (buf2 @ [c]))
      else Some (buf, buf2, ax, c # r))"

definition lex_error :: "string \<Rightarrow> int \<Rightarrow> 'a res" where
  "lex_error what base_pos = Inl (Exn ''XPath Parser'' (what @ to_string base_pos) [])"

type_synonym ('d, 'n) lexed = "(('d, 'n) token option \<times> string) res"

abbreviation lexed :: "('d, 'n) token \<Rightarrow> string \<Rightarrow> ('d, 'n) lexed" where
  "lexed t r \<equiv> Inr (Some t, r)"

definition lex_string :: "int \<Rightarrow> string \<Rightarrow> ('d, 'n) lexed" where
  "lex_string base r =
     (let q = cur r; buf = takeWhile (\<lambda>c. c \<noteq> q) (tl r); rest = dropWhile (\<lambda>c. c \<noteq> q) (tl r)
      in if rest = []
         then lex_error ''Invalid string : end delimiter expected for token at character '' base
         else lexed (TStr base buf) (tl rest))"

text \<open>
  A number. For a negative literal the statement \<open>*pos++\<close> moves the pointer instead of the index
  it points to: what is read next lies outside the object.
\<close>

definition lex_number :: "'d fops \<Rightarrow> int \<Rightarrow> string \<Rightarrow> ('d, 'n) lexed" where
  "lex_number F base r =
     (if cur r = CHR ''-'' then Inl (UB ''read beyond the object pos points to'')
      else case scan_number r False of
             None \<Rightarrow> lex_error ''Invalid float : only one dot is allowed for token at character '' base
           | Some (buf, is_float, rest) \<Rightarrow>
               if is_float then
                 (case f_stod F buf of
                    None \<Rightarrow> lex_error ''Invalid int or float at character '' base
                  | Some (d, _) \<Rightarrow> lexed (TFloat base d) rest)
               else catch_all (bindr (stoi buf) (\<lambda>(i, _). lexed (TInt base i) rest))
                      (lex_error ''Invalid int or float at character '' base))"

definition lex_name :: "int \<Rightarrow> string \<Rightarrow> ('d, 'n) lexed" where
  "lex_name base r =
     (if take 2 r = ''..'' then lexed (TNodeName base ''..'') (drop 2 r)
      else if cur r = CHR ''.'' then lexed (TNodeName base ''.'') (drop 1 r)
      else if take 2 r = ''@*'' then lexed (TAttrName base ''*'') (drop 2 r)
      else
        let is_attribute = (cur r = CHR ''@''); r1 = (if is_attribute then drop 1 r else r)
        in case scan_name r1 False [] [] of
             None \<Rightarrow> lex_error (''Unexpected '' @ [CHR 0x27] @ '':'' @ [CHR 0x27] @ '' in axis name at character '') base
           | Some (buf, buf2, is_axis, r2) \<Rightarrow>
               if buf = [] then lex_error ''Invalid node or function name at character '' base
               else if is_axis \<and> buf2 = [] then lex_error ''Invalid axis filter node at character '' base
               else
                 let r3 = skip_spaces r2
                 in if is_attribute then lexed (TAttrName base buf) r3
                    else if is_axis then lexed (TAxis base buf buf2) r3
                    else if cur r3 = CHR ''('' then lexed (TFunc base buf []) r3
                    else lexed (TNodeName base buf) r3)"

text \<open>
  One token. \<open><\<close> and \<open>>\<close> are tried before \<open><=\<close> and \<open>>=\<close>, in the order of the source.
\<close>

definition parse_token :: "'d fops \<Rightarrow> nat \<Rightarrow> string \<Rightarrow> ('d, 'n) lexed" where
  "parse_token F pos r0 =
     (let r = skip_spaces r0; base = int (pos + (length r0 - length r)) + 1; c = cur r
      in if r = [] then Inr (None, [])
         else if c = CHR ''('' then lexed (TSyntax base LPAR) (drop 1 r)
         else if c = CHR '')'' then lexed (TSyntax base RPAR) (drop 1 r)
         else if c = CHR ''['' then lexed (TSyntax base LSQ) (drop 1 r)
         else if c = CHR '']'' then lexed (TSyntax base RSQ) (drop 1 r)
         else if c = CHR '','' then lexed (TSyntax base COMMA) (drop 1 r)
         else if take 2 r = ''//'' then lexed (TSyntax base DSLASH) (drop 2 r)
         else if c = CHR ''/'' then lexed (TSyntax base SLASH) (drop 1 r)
         else if c = CHR ''+'' then lexed (TOP base PLUS) (drop 1 r)
         else if c = CHR ''-'' \<and> (length r \<le> 1 \<or> \<not> isdigit (at r 1)) then lexed (TOP base MINUS) (drop 1 r)
         else if c = CHR ''*'' then lexed (TOP base MULT) (drop 1 r)
         else if c = CHR ''='' then lexed (TOP base EQ) (drop 1 r)
         else if take 2 r = ''!='' then lexed (TOP base NEQ) (drop 2 r)
         else if c = CHR ''<'' then lexed (TOP base LT) (drop 1 r)
         else if take 2 r = ''<='' then lexed (TOP base LEQ) (drop 2 r)
         else if c = CHR ''>'' then lexed (TOP base GT) (drop 1 r)
         else if take 2 r = ''>='' then lexed (TOP base GEQ) (drop 2 r)
         else if take 1 r = ''|'' then lexed (TOP base PIPE) (drop 1 r)
         else if c = CHR 0x27 \<or> c = CHR 0x22 then lex_string base r
         else if isdigit c \<or> c = CHR ''-'' then lex_number F base r
         else lex_name base r)"

section \<open>Progress\<close>

lemma length_skip_spaces: "length (skip_spaces r) \<le> length r"
  by (simp add: skip_spaces_def length_dropWhile_le)

lemma cur_nonempty: "r \<noteq> [] \<Longrightarrow> cur r = hd r"
  by (cases r) (simp_all add: at_def)

lemma scan_number_length: "scan_number r fl = Some (b, f, r') \<Longrightarrow> r = b @ r'"
  by (induction r fl arbitrary: b f r' rule: scan_number.induct) (auto split: if_splits option.splits)

lemma scan_name_length:
  "scan_name r ax buf buf2 = Some (b, b2, a, r') \<Longrightarrow>
   length r' + length b \<le> length r + length buf \<and> length r' \<le> length r"
  by (induction r ax buf buf2 arbitrary: b b2 a r' rule: scan_name.induct) (fastforce split: if_splits)+

lemma lex_name_progress: "r \<noteq> [] \<Longrightarrow> lex_name base r = Inr (t, r') \<Longrightarrow> length r' < length r"
proof -
  assume r: "r \<noteq> []" and l: "lex_name base r = Inr (t, r')"
  show ?thesis
  proof (cases "take 2 r = ''..'' \<or> cur r = CHR ''.'' \<or> take 2 r = ''@*''")
    case True
    with l r show ?thesis by (auto simp: lex_name_def Let_def split: if_splits)
  next
    case False
    let ?r1 = "if cur r = CHR ''@'' then drop 1 r else r"
    obtain buf buf2 ax r2 where sc: "scan_name ?r1 False [] [] = Some (buf, buf2, ax, r2)"
      and b: "buf \<noteq> []" and r': "r' = skip_spaces r2"
      using l False by (auto simp: lex_name_def Let_def lex_error_def split: option.splits if_splits)
    have "length r2 + length buf \<le> length ?r1" using scan_name_length [OF sc] by simp
    moreover have "length buf > 0" using b by simp
    moreover have "length ?r1 \<le> length r" by simp
    ultimately have "length r2 < length r" by linarith
    then show ?thesis using length_skip_spaces [of r2] r' by simp
  qed
qed

lemma lex_string_progress: "r \<noteq> [] \<Longrightarrow> lex_string base r = Inr (t, r') \<Longrightarrow> length r' < length r"
  using length_dropWhile_le [of "\<lambda>c. c \<noteq> cur r" "tl r"]
  by (cases r) (auto simp: lex_string_def Let_def lex_error_def split: if_splits)

lemma lex_number_progress:
  "r \<noteq> [] \<Longrightarrow> isdigit (cur r) \<or> cur r = CHR ''-'' \<Longrightarrow> lex_number F base r = Inr (t, r') \<Longrightarrow> length r' < length r"
proof -
  assume r: "r \<noteq> []" "isdigit (cur r) \<or> cur r = CHR ''-''" and l: "lex_number F base r = Inr (t, r')"
  then obtain buf fl where sc: "scan_number r False = Some (buf, fl, r')"
    by (auto simp: lex_number_def lex_error_def stoi_def split: if_splits option.splits prod.splits)
  obtain c cs where "r = c # cs" using r by (cases r) auto
  moreover have "isdigit (cur r)" using r l by (auto simp: lex_number_def)
  ultimately have "buf \<noteq> []" using sc by (auto split: option.splits if_splits)
  then show ?thesis using scan_number_length [OF sc] by simp
qed

lemma parse_token_progress:
  assumes "parse_token F pos r = Inr (Some t, r')"
  shows "length r' < length r"
proof -
  let ?r = "skip_spaces r"
  obtain c cs where r: "?r = c # cs" using assms by (cases ?r) (auto simp: parse_token_def Let_def)
  then have ne: "?r \<noteq> []" by simp
  let ?b = "int (pos + (length r - length ?r)) + 1"
  note progress = lex_string_progress [OF ne, of ?b "Some t" r'] lex_name_progress [OF ne, of ?b "Some t" r']
    lex_number_progress [OF ne, of F ?b "Some t" r']
  have "length r' < length ?r"
    using assms progress unfolding parse_token_def Let_def r by (auto split: if_splits)
  then show ?thesis using length_skip_spaces [of r] by simp
qed

lemma parse_token_None: "parse_token F pos r = Inr (None, r') \<Longrightarrow> skip_spaces r = [] \<and> r' = []"
  by (auto simp: parse_token_def Let_def lex_string_def lex_number_def lex_name_def lex_error_def
      stoi_def split: if_splits option.splits prod.splits)

section \<open>The token list\<close>

function parse_from :: "'d fops \<Rightarrow> nat \<Rightarrow> string \<Rightarrow> ('d, 'n) token list res" where
  "parse_from F pos r =
     (if r = [] then Inr []
      else case parse_token F pos r of
             Inl e \<Rightarrow> Inl e
           | Inr (None, r') \<Rightarrow> Inr []
           | Inr (Some t, r') \<Rightarrow>
               bindr (parse_from F (pos + (length r - length r')) r') (\<lambda>ts. Inr (t # ts)))"
  by pat_completeness auto

termination
  by (relation "measure (\<lambda>(F, pos, r). length r)") (auto dest: parse_token_progress)

declare parse_from.simps [simp del]

definition parse_expr :: "'d fops \<Rightarrow> string \<Rightarrow> ('d, 'n) token list res" where
  "parse_expr F s = parse_from F 0 s"

section \<open>Printing\<close>

text \<open>The text of a token, and the token lists that the lexer reads back from their text.\<close>

definition valid_name :: "string \<Rightarrow> bool" where
  "valid_name n \<longleftrightarrow> n \<noteq> [] \<and> list_all name_char n \<and> \<not> isdigit (hd n) \<and> hd n \<noteq> CHR ''-''"

fun tok_text :: "('d, 'n) token \<Rightarrow> string" where
  "tok_text (TSyntax p LPAR) = ''(''"
| "tok_text (TSyntax p RPAR) = '')''"
| "tok_text (TSyntax p LSQ) = ''[''"
| "tok_text (TSyntax p RSQ) = '']''"
| "tok_text (TSyntax p COMMA) = '',''"
| "tok_text (TSyntax p SLASH) = ''/''"
| "tok_text (TSyntax p DSLASH) = ''//''"
| "tok_text (TOP p PIPE) = ''|''"
| "tok_text (TOP p opr) = op_ToString opr"
| "tok_text (TStr p s) = CHR 0x22 # s @ [CHR 0x22]"
| "tok_text (TInt p i) = to_string i"
| "tok_text (TNodeName p n) = n"
| "tok_text (TAttrName p n) = CHR ''@'' # n"
| "tok_text (TAxis p a n) = a @ ''::'' @ n"
| "tok_text (TFunc p n args) = n"
| "tok_text _ = []"

fun printable :: "('d, 'n) token \<Rightarrow> bool" where
  "printable (TSyntax p t) \<longleftrightarrow> t \<in> {LPAR, RPAR, LSQ, RSQ, COMMA, SLASH, DSLASH}"
| "printable (TOP p opr) \<longleftrightarrow> opr \<in> {PLUS, MINUS, MULT, EQ, NEQ, LT, GT, PIPE}"
| "printable (TStr p s) \<longleftrightarrow> CHR 0x22 \<notin> set s"
| "printable (TInt p i) \<longleftrightarrow> 0 \<le> i \<and> int_range i"
| "printable (TNodeName p n) \<longleftrightarrow> valid_name n \<or> n = ''.'' \<or> n = ''..''"
| "printable (TAttrName p n) \<longleftrightarrow> valid_name n \<or> n = ''*''"
| "printable (TAxis p a n) \<longleftrightarrow> valid_name a \<and> (valid_name n \<or> n = ''*'')"
| "printable (TFunc p n args) \<longleftrightarrow> valid_name n \<and> args = []"
| "printable _ \<longleftrightarrow> False"

fun is_lpar :: "('d, 'n) token list \<Rightarrow> bool" where
  "is_lpar (TSyntax p LPAR # ts) = True"
| "is_lpar _ = False"

fun follows_ok :: "('d, 'n) token \<Rightarrow> ('d, 'n) token list \<Rightarrow> bool" where
  "follows_ok (TFunc p n args) ts \<longleftrightarrow> is_lpar ts"
| "follows_ok (TNodeName p n) ts \<longleftrightarrow> \<not> is_lpar ts"
| "follows_ok _ ts \<longleftrightarrow> True"

fun printable_seq :: "('d, 'n) token list \<Rightarrow> bool" where
  "printable_seq [] \<longleftrightarrow> True"
| "printable_seq (t # ts) \<longleftrightarrow> printable t \<and> follows_ok t ts \<and> printable_seq ts"

fun print_toks :: "('d, 'n) token list \<Rightarrow> string" where
  "print_toks [] = []"
| "print_toks (t # ts) = tok_text t @ CHR '' '' # print_toks ts"

text \<open>The positions the tokens get: where their text begins, counted from 1.\<close>

fun placed :: "nat \<Rightarrow> ('d, 'n) token list \<Rightarrow> ('d, 'n) token list" where
  "placed p [] = []"
| "placed p (t # ts) = set_pos (int p + 1) t # placed (p + length (tok_text t) + 1) ts"

section \<open>Reading back\<close>

definition word_start :: "char \<Rightarrow> bool" where
  "word_start c \<longleftrightarrow> c \<notin> set ''()[],/+-*=!<>| '' \<and> c \<noteq> CHR 0x27 \<and> c \<noteq> CHR 0x22"

lemma parse_token_word:
  "word_start c \<Longrightarrow> parse_token F pos (c # cs) =
     (if isdigit c then lex_number F (int pos + 1) (c # cs) else lex_name (int pos + 1) (c # cs))"
  by (simp add: word_start_def parse_token_def Let_def skip_spaces_def is_space_def)

lemma isdigit_word_start: "isdigit c \<Longrightarrow> word_start c"
  by (auto simp: word_start_def isdigit_def byte_def)

lemma name_char_word_start: "name_char c \<Longrightarrow> c \<noteq> CHR ''-'' \<Longrightarrow> word_start c"
  by (auto simp: word_start_def name_char_def isalnum_def isalpha_def isdigit_def byte_def)

lemma name_char_not [simp]:
  "\<not> name_char (CHR '' '')" "\<not> name_char (CHR '':'')" "\<not> name_char (CHR ''('')" "\<not> name_char (CHR ''.'')"
  "\<not> name_char (CHR ''@'')" "\<not> name_char (CHR ''*'')"
  by (simp_all add: name_char_def isalnum_def isalpha_def isdigit_def byte_def)

lemma isdigit_name_char: "isdigit c \<Longrightarrow> name_char c"
  by (simp add: name_char_def isalnum_def)

lemma scan_number_digits:
  "list_all isdigit ds \<Longrightarrow> \<not> isdigit c \<Longrightarrow> c \<noteq> CHR ''.'' \<Longrightarrow>
   scan_number (ds @ c # r) fl = Some (ds, fl, c # r)"
  by (induction ds) auto

lemma scan_name_word:
  "list_all name_char n \<Longrightarrow>
   scan_name (n @ r) ax buf buf2 =
     (if ax then scan_name r ax buf (buf2 @ n) else scan_name r ax (buf @ n) buf2)"
  by (induction n arbitrary: buf buf2) auto

lemma scan_name_stop [simp]: "scan_name (CHR '' '' # r) ax buf buf2 = Some (buf, buf2, ax, CHR '' '' # r)"
  by simp

lemma skip_spaces_one: "r = [] \<or> hd r \<noteq> CHR '' '' \<Longrightarrow> skip_spaces (CHR '' '' # r) = r"
  by (cases r) (auto simp: skip_spaces_def is_space_def)

lemma valid_name_Cons:
  "valid_name n \<Longrightarrow> \<exists>c cs. n = c # cs \<and> name_char c \<and> \<not> isdigit c \<and> c \<noteq> CHR ''-'' \<and> c \<noteq> CHR ''.'' \<and> c \<noteq> CHR ''@'' \<and> word_start c"
  by (cases n) (auto simp: valid_name_def intro: name_char_word_start)

text \<open>A name is read up to the blank after it, and is a function exactly before a parenthesis.\<close>

lemma parse_token_name:
  assumes "valid_name n" "r = [] \<or> hd r \<noteq> CHR '' ''"
  shows "parse_token F p (n @ CHR '' '' # r) =
    lexed (if cur r = CHR ''('' then TFunc (int p + 1) n [] else TNodeName (int p + 1) n) r"
proof -
  obtain c cs where n: "n = c # cs" "name_char c" "\<not> isdigit c" "c \<noteq> CHR ''-''" "c \<noteq> CHR ''.''" "c \<noteq> CHR ''@''" "word_start c"
    using valid_name_Cons [OF assms(1)] by blast
  have "scan_name (n @ CHR '' '' # r) False [] [] = Some (n, [], False, CHR '' '' # r)"
    using assms(1) by (simp add: scan_name_word valid_name_def)
  then show ?thesis
    using n assms(2) by (simp add: parse_token_word lex_name_def Let_def skip_spaces_one del: scan_name.simps)
qed

lemma parse_token_attr:
  assumes "valid_name n" "r = [] \<or> hd r \<noteq> CHR '' ''"
  shows "parse_token F p (CHR ''@'' # n @ CHR '' '' # r) = lexed (TAttrName (int p + 1) n) r"
proof -
  obtain c cs where n: "n = c # cs" "name_char c" using valid_name_Cons [OF assms(1)] by blast
  have "c \<noteq> CHR ''*''" using n(2) by auto
  moreover have "scan_name (n @ CHR '' '' # r) False [] [] = Some (n, [], False, CHR '' '' # r)"
    using assms(1) by (simp add: scan_name_word valid_name_def)
  moreover have "word_start (CHR ''@'')" "\<not> isdigit (CHR ''@'')" by (simp_all add: word_start_def isdigit_def byte_def)
  ultimately show ?thesis
    using n assms(2) by (simp add: parse_token_word lex_name_def Let_def skip_spaces_one del: scan_name.simps)
qed

lemma parse_token_axis:
  assumes "valid_name a" "valid_name n \<or> n = ''*''" "r = [] \<or> hd r \<noteq> CHR '' ''"
  shows "parse_token F p (a @ ''::'' @ n @ CHR '' '' # r) = lexed (TAxis (int p + 1) a n) r"
proof -
  obtain c cs where a: "a = c # cs" "\<not> isdigit c" "c \<noteq> CHR ''.''" "c \<noteq> CHR ''@''" "word_start c"
    using valid_name_Cons [OF assms(1)] by blast
  have n: "n \<noteq> []" using assms(2) by (auto simp: valid_name_def)
  have "\<exists>r2. scan_name (a @ ''::'' @ n @ CHR '' '' # r) False [] [] = Some (a, n, True, r2) \<and> skip_spaces r2 = r"
  proof (cases "n = ''*''")
    case True
    then show ?thesis using assms(1,3) by (simp add: scan_name_word valid_name_def skip_spaces_one)
  next
    case False
    with assms(2) have v: "valid_name n" by simp
    obtain d ds where d: "n = d # ds" "name_char d" using valid_name_Cons [OF v] by blast
    have "d \<noteq> CHR ''*''" using d(2) by auto
    then have "scan_name (''::'' @ n @ CHR '' '' # r) False a [] = scan_name (n @ CHR '' '' # r) True a []"
      by (simp add: d(1))
    then show ?thesis using assms(1,3) v
      by (simp add: scan_name_word valid_name_def skip_spaces_one del: scan_name.simps)
  qed
  then show ?thesis using a n assms(1)
    by (auto simp: parse_token_word lex_name_def Let_def valid_name_def simp del: scan_name.simps)
qed

lemma parse_token_int:
  assumes "0 \<le> i" "int_range i"
  shows "parse_token F p (to_string i @ CHR '' '' # r) = lexed (TInt (int p + 1) i) (CHR '' '' # r)"
proof -
  have ds: "list_all isdigit (to_string i)" "to_string i \<noteq> []"
    using assms(1) by (simp_all add: to_string_def show_nat_digits)
  then obtain c cs where c: "to_string i = c # cs" "isdigit c" by (cases "to_string i") auto
  have "scan_number (to_string i @ CHR '' '' # r) False = Some (to_string i, False, CHR '' '' # r)"
    by (rule scan_number_digits [OF ds(1)]) (simp_all add: isdigit_def byte_def)
  then show ?thesis using c isdigit_word_start [OF c(2)] stoi_to_string [OF assms(2)]
    by (auto simp: parse_token_word lex_number_def simp del: scan_number.simps)
qed

lemma parse_token_string:
  assumes "CHR 0x22 \<notin> set s"
  shows "parse_token F p (CHR 0x22 # s @ [CHR 0x22] @ r) = lexed (TStr (int p + 1) s) r"
proof -
  have "takeWhile (\<lambda>c. c \<noteq> CHR 0x22) (s @ CHR 0x22 # r) = s"
    "dropWhile (\<lambda>c. c \<noteq> CHR 0x22) (s @ CHR 0x22 # r) = CHR 0x22 # r"
    using assms by (subst takeWhile_append2 dropWhile_append2; auto)+
  then show ?thesis
    by (simp add: parse_token_def Let_def skip_spaces_def is_space_def lex_string_def)
qed

text \<open>What is left of the input after a token: names also eat the blank.\<close>

fun eats_blank :: "('d, 'n) token \<Rightarrow> bool" where
  "eats_blank (TNodeName p n) \<longleftrightarrow> n \<noteq> ''.'' \<and> n \<noteq> ''..''"
| "eats_blank (TAttrName p n) \<longleftrightarrow> n \<noteq> ''*''"
| "eats_blank (TAxis p a n) \<longleftrightarrow> True"
| "eats_blank (TFunc p n args) \<longleftrightarrow> True"
| "eats_blank _ \<longleftrightarrow> False"

lemma parse_token_syntax:
  "printable (TSyntax q t) \<Longrightarrow>
   parse_token F p (tok_text (TSyntax q t) @ CHR '' '' # r) = lexed (TSyntax (int p + 1) t) (CHR '' '' # r)"
  by (cases t) (simp_all add: parse_token_def Let_def skip_spaces_def is_space_def)

lemma parse_token_op:
  "printable (TOP q t) \<Longrightarrow>
   parse_token F p (tok_text (TOP q t) @ CHR '' '' # r) = lexed (TOP (int p + 1) t) (CHR '' '' # r)"
  by (cases t) (simp_all add: parse_token_def Let_def skip_spaces_def is_space_def isdigit_def byte_def)

lemma valid_name_special: "valid_name n \<Longrightarrow> n \<noteq> ''.'' \<and> n \<noteq> ''..'' \<and> n \<noteq> ''*''"
  by (auto simp: valid_name_def)

lemma parse_token_text:
  assumes "printable t" "r = [] \<or> hd r \<noteq> CHR '' ''" "case t of TFunc _ _ _ \<Rightarrow> cur r = CHR ''('' | TNodeName _ _ \<Rightarrow> cur r \<noteq> CHR ''('' | _ \<Rightarrow> True"
  shows "parse_token F p (tok_text t @ CHR '' '' # r) =
    lexed (set_pos (int p + 1) t) (if eats_blank t then r else CHR '' '' # r)"
proof (cases t)
  case (TNodeName q n)
  then show ?thesis
  proof (cases "valid_name n")
    case True
    with TNodeName assms show ?thesis
      using parse_token_name [OF True assms(2), of F p] valid_name_special [OF True] by simp
  next
    case False
    with TNodeName assms have "n = ''.'' \<or> n = ''..''" by simp
    moreover have "word_start (CHR ''.'')" "\<not> isdigit (CHR ''.'')" by (simp_all add: word_start_def isdigit_def byte_def)
    ultimately show ?thesis using TNodeName by (auto simp: parse_token_word lex_name_def)
  qed
next
  case (TAttrName q n)
  show ?thesis
  proof (cases "n = ''*''")
    case True
    moreover have "word_start (CHR ''@'')" "\<not> isdigit (CHR ''@'')" by (simp_all add: word_start_def isdigit_def byte_def)
    ultimately show ?thesis using TAttrName by (simp add: parse_token_word lex_name_def)
  next
    case False
    with TAttrName assms(1) have "valid_name n" by simp
    from parse_token_attr [OF this assms(2)] TAttrName False show ?thesis by simp
  qed
next
  case (TAxis q a n)
  then show ?thesis using parse_token_axis [of a n r F p] assms(1,2) by auto
next
  case (TFunc q n args)
  then show ?thesis using parse_token_name [of n r F p] assms by simp
next
  case (TSyntax q k)
  then show ?thesis using parse_token_syntax [of q k F p r] assms(1) by simp
next
  case (TOP q opr)
  then show ?thesis using parse_token_op [of q opr F p r] assms(1) by simp
next
  case (TStr q s)
  then show ?thesis using parse_token_string [of s F p "CHR '' '' # r"] assms(1) by simp
next
  case (TInt q i)
  then show ?thesis using parse_token_int [of i F p r] assms(1) by simp
qed (use assms(1) in simp_all)

lemma tok_text_start: "printable t \<Longrightarrow> tok_text t \<noteq> [] \<and> hd (tok_text t) \<noteq> CHR '' ''"
proof (cases t)
  case (TInt p i)
  assume "printable t"
  with TInt show ?thesis using show_nat_digits [of "nat i"]
    by (cases "show_nat (nat i)") (auto simp: to_string_def isdigit_def byte_def)
next
  case (TSyntax p k)
  assume "printable t"
  with TSyntax show ?thesis by (cases k) simp_all
next
  case (TOP p k)
  assume "printable t"
  with TOP show ?thesis by (cases k) simp_all
qed (auto dest!: valid_name_Cons)

lemma print_toks_start: "printable_seq ts \<Longrightarrow> print_toks ts = [] \<or> hd (print_toks ts) \<noteq> CHR '' ''"
  by (cases ts) (auto dest: tok_text_start)

lemma tok_text_lpar: "printable t \<Longrightarrow> hd (tok_text t) = CHR ''('' \<longleftrightarrow> is_lpar (t # ts)"
proof (cases t)
  case (TInt p i)
  assume "printable t"
  with TInt show ?thesis using show_nat_digits [of "nat i"]
    by (cases "show_nat (nat i)") (auto simp: to_string_def isdigit_def byte_def)
next
  case (TSyntax p k)
  assume "printable t"
  with TSyntax show ?thesis by (cases k) simp_all
next
  case (TOP p k)
  assume "printable t"
  with TOP show ?thesis by (cases k) simp_all
qed (auto dest!: valid_name_Cons)

lemma print_toks_lpar: "printable_seq ts \<Longrightarrow> cur (print_toks ts) = CHR ''('' \<longleftrightarrow> is_lpar ts"
proof (cases ts)
  case (Cons t us)
  assume "printable_seq ts"
  with Cons have p: "printable t" by simp
  then have "cur (print_toks ts) = hd (tok_text t)"
    using Cons tok_text_start [OF p] by (cases "tok_text t") (auto simp: at_def)
  then show ?thesis using tok_text_lpar [OF p] Cons by simp
qed (simp add: at_def)

lemma parse_token_blank:
  assumes "r \<noteq> []" "hd r \<noteq> CHR '' ''"
  shows "parse_token F p (CHR '' '' # r) = parse_token F (Suc p) r"
proof -
  have skip: "skip_spaces (CHR '' '' # r) = r" "skip_spaces r = r"
    using assms by (cases r; simp add: skip_spaces_def is_space_def)+
  have base: "int (p + (length (CHR '' '' # r) - length r)) + 1 = int (Suc p + (length r - length r)) + 1" by simp
  show ?thesis unfolding parse_token_def Let_def skip base ..
qed

lemma parse_from_blank:
  assumes "r \<noteq> []" "hd r \<noteq> CHR '' ''"
  shows "(parse_from F p (CHR '' '' # r) :: ('d, 'n) token list res) = parse_from F (Suc p) r"
proof (cases "parse_token F (Suc p) r :: ('d, 'n) lexed")
  case (Inl e)
  then show ?thesis using assms
    by (simp add: parse_from.simps [of F p] parse_from.simps [of F "Suc p"] parse_token_blank)
next
  case (Inr x)
  obtain t r' where x: "x = (t, r')" by (cases x)
  show ?thesis
  proof (cases t)
    case None
    then show ?thesis using assms Inr x
      by (simp add: parse_from.simps [of F p] parse_from.simps [of F "Suc p"] parse_token_blank)
  next
    case (Some u)
    have "length r' < length r" using parse_token_progress [of F "Suc p" r u r'] Inr x Some by simp
    then have "p + (length (CHR '' '' # r) - length r') = Suc p + (length r - length r')" by simp
    then show ?thesis using assms Inr x Some
      by (simp add: parse_from.simps [of F p] parse_from.simps [of F "Suc p"] parse_token_blank)
  qed
qed

lemma parse_from_end: "parse_from F p [] = Inr []" "parse_from F p '' '' = Inr []"
  by (simp_all add: parse_from.simps [of F p] parse_token_def skip_spaces_def is_space_def)

text \<open>C5: The lexer reads back what was printed: a list of tokens, each followed by a blank, is
  lexed into exactly these tokens, each at the position of its first character (a name before a
  parenthesis is a function; negative numbers, \<open><=\<close> and \<open>>=\<close> are not printable).\<close>

theorem lex_print:
  assumes "printable_seq ts"
  shows "parse_from F p (print_toks ts) = Inr (placed p ts)"
  using assms
proof (induction ts arbitrary: p)
  case (Cons t ts)
  let ?r = "print_toks ts"
  have t: "printable t" "printable_seq ts" "follows_ok t ts" using Cons.prems by simp_all
  have "case t of TFunc _ _ _ \<Rightarrow> cur ?r = CHR ''('' | TNodeName _ _ \<Rightarrow> cur ?r \<noteq> CHR ''('' | _ \<Rightarrow> True"
    using print_toks_lpar [OF t(2)] t(3) by (cases t) auto
  from parse_token_text [OF t(1) print_toks_start [OF t(2)] this, of F p]
  have lex: "parse_token F p (print_toks (t # ts)) =
      lexed (set_pos (int p + 1) t) (if eats_blank t then ?r else CHR '' '' # ?r)" by simp
  have blank: "(parse_from F q (CHR '' '' # ?r) :: ('a, 'b) token list res) = parse_from F (Suc q) ?r" for q
    using print_toks_start [OF t(2)] parse_from_blank [of ?r F q]
    by (cases "?r = []") (auto simp: parse_from_end)
  show ?case
    using lex blank [of "p + length (tok_text t)"] Cons.IH [OF t(2), of "p + length (tok_text t) + 1"]
    by (subst parse_from.simps) simp
qed (simp add: parse_from_end)

definition sample_tokens :: "(int, nat) token list" where
  "sample_tokens = [TSyntax 0 DSLASH, TNodeName 0 ''task'', TSyntax 0 LSQ, TFunc 0 ''count'' [],
     TSyntax 0 LPAR, TAttrName 0 ''name'', TSyntax 0 RPAR, TOP 0 EQ, TInt 0 12, TSyntax 0 RSQ]"

theorem lex_print_witness:
  "parse_from int_fops 0 (print_toks sample_tokens) = Inr (placed 0 sample_tokens) \<and>
   print_toks sample_tokens = ''// task [ count ( @name ) = 12 ] ''"
proof
  show "parse_from int_fops 0 (print_toks sample_tokens) = Inr (placed 0 sample_tokens)"
    by (rule lex_print) (simp add: sample_tokens_def valid_name_def name_char_def isalnum_def
        isalpha_def isdigit_def byte_def int_range_def)
  show "print_toks sample_tokens = ''// task [ count ( @name ) = 12 ] ''" by code_simp
qed

text \<open>The operators the lexer can produce.\<close>

definition lexer_op :: "operator \<Rightarrow> bool" where
  "lexer_op opr \<longleftrightarrow> opr \<in> {PLUS, MINUS, MULT, EQ, NEQ, LT, GT, PIPE}"

lemma parse_token_op_kind:
  assumes "parse_token F p r = Inr (Some (TOP q opr), r')"
  shows "lexer_op opr"
proof (cases "skip_spaces r")
  case (Cons c cs)
  then show ?thesis using assms unfolding parse_token_def Let_def
    by (auto simp: lexer_op_def lex_string_def lex_number_def lex_name_def lex_error_def stoi_def Let_def
        split: if_splits option.splits prod.splits)
qed (use assms in \<open>simp add: parse_token_def\<close>)

lemma parse_from_op_kind: "parse_from F p r = Inr (ts :: ('d, 'n) token list) \<Longrightarrow> TOP q opr \<in> set ts \<Longrightarrow> lexer_op opr"
proof (induction "length r" arbitrary: p r ts rule: less_induct)
  case (less r p)
  note unfolded = less(2) [unfolded parse_from.simps [of F p r]]
  show ?case
  proof (cases "r = []")
    case False
    then obtain t :: "('d, 'n) token option" and r' where t: "parse_token F p r = Inr (t, r')"
      using unfolded by (auto split: sum.splits)
    show ?thesis
    proof (cases t)
      case None
      then show ?thesis using unfolded t False less(3) by simp
    next
      case (Some u)
      then obtain us where us: "parse_from F (p + (length r - length r')) r' = Inr us" "ts = u # us"
        using unfolded t False by (auto simp: bindr_eq_Inr)
      have "length r' < length r" using parse_token_progress t Some by metis
      from less(1) [OF this us(1)] us(2) less(3) t Some parse_token_op_kind [of F p r q opr r']
      show ?thesis by auto
    qed
  qed (use unfolded less(3) in simp)
qed

end
