(* ===== verification/XPathParser.thy ===== *)
theory XPathParser
  imports XPathLexer
begin

text \<open>
  The parser of the XPath engine, src/XPath/XPathParser.cpp: after the lexer, parentheses become
  nested expressions, \<open>*\<close> and the textual operators are told from names, the arguments of functions
  and the filters are attached, and runs of path tokens are wrapped into expressions of their own.
  The source works in place on vectors; each pass is a function on token lists. Deletions of tokens
  are not modelled.
\<close>

section \<open>Parentheses\<close>

text \<open>
  The tokens of the expression that begins here, and the input from its end on: the end of the
  list or a right parenthesis. The recursion is on the rest the inner call leaves, hence the
  termination proof needs that it does not grow.
\<close>

definition parser_error :: "string \<Rightarrow> int \<Rightarrow> 'a res" where
  "parser_error what p = Inl (Exn ''XPath Parser'' (what @ LogInitialPosition p) [])"

function resolve_parenthesis :: "('d, 'n) token list \<Rightarrow> (('d, 'n) token list \<times> ('d, 'n) token list) res" where
  "resolve_parenthesis v =
     (case v of
        [] \<Rightarrow> Inr ([], [])
      | t # v' \<Rightarrow>
          if GetType t = RPAR then Inr ([], v)
          else if GetType t = LPAR then
            (case resolve_parenthesis v' of
               Inl e \<Rightarrow> Inl e
             | Inr (es, []) \<Rightarrow> parser_error ''Missing closing parenthesis'' (-1)
             | Inr (es, r # rest) \<Rightarrow>
                 bindr (resolve_parenthesis rest) (\<lambda>(us, rest'). Inr (TExpr (-1) es # us, rest')))
          else bindr (resolve_parenthesis v') (\<lambda>(us, rest'). Inr (t # us, rest')))"
  by pat_completeness auto

lemma resolve_parenthesis_length:
  "resolve_parenthesis_dom v \<Longrightarrow> resolve_parenthesis v = Inr (es, rest) \<Longrightarrow> length rest \<le> length v"
proof (induction arbitrary: es rest rule: resolve_parenthesis.pinduct)
  case (1 v)
  show ?case
  proof (cases v)
    case Nil
    then show ?thesis using 1(1,5) by (simp add: resolve_parenthesis.psimps)
  next
    case (Cons t v')
    consider "GetType t = RPAR" | "GetType t = LPAR" | "GetType t \<noteq> RPAR" "GetType t \<noteq> LPAR" by blast
    then show ?thesis
    proof cases
      case 1
      with \<open>resolve_parenthesis_dom v\<close> \<open>resolve_parenthesis v = _\<close> Cons show ?thesis
        by (simp add: resolve_parenthesis.psimps)
    next
      case 2
      then obtain es1 r rest1 where in1: "resolve_parenthesis v' = Inr (es1, r # rest1)"
        and in2: "\<exists>us. resolve_parenthesis rest1 = Inr (us, rest)"
        using 1(1,5) Cons
        by (auto simp: resolve_parenthesis.psimps parser_error_def bindr_eq_Inr split: sum.splits list.splits)
      have "length (r # rest1) \<le> length v'" using 1(2) [OF Cons _ _ in1] 2 by simp
      moreover have "length rest \<le> length rest1" using 1(3) [OF Cons _ _ in1] in2 2 by auto
      ultimately show ?thesis using Cons by simp
    next
      case 3
      then obtain us where "resolve_parenthesis v' = Inr (us, rest)"
        using 1(1,5) Cons by (auto simp: resolve_parenthesis.psimps bindr_eq_Inr)
      then show ?thesis using 1(4) [OF Cons] 3 Cons by fastforce
    qed
  qed
qed

termination resolve_parenthesis
  by (relation "measure length") (auto dest!: resolve_parenthesis_length)

declare resolve_parenthesis.simps [simp del]

section \<open>Names that are operators, operators that are names\<close>

text \<open>\<open>prev\<close> is the type of the token before, as the pass left it; \<open>None\<close> at the beginning.\<close>

definition mult_is_name :: "token_type option \<Rightarrow> bool" where
  "mult_is_name prev \<longleftrightarrow> prev = None \<or> prev = Some SLASH \<or> prev = Some DSLASH \<or> prev = Some OP"

fun disambiguish_mult :: "token_type option \<Rightarrow> ('d, 'n) token list \<Rightarrow> ('d, 'n) token list" where
  "disambiguish_mult prev [] = []"
| "disambiguish_mult prev (TOP p MULT # ts) =
     (if mult_is_name prev then TNodeName p ''*'' # disambiguish_mult (Some NODENAME) ts
      else TOP p MULT # disambiguish_mult (Some OP) ts)"
| "disambiguish_mult prev (TExpr p es # ts) =
     TExpr p (disambiguish_mult None es) # disambiguish_mult (Some EXPR) ts"
| "disambiguish_mult prev (t # ts) = t # disambiguish_mult (Some (GetType t)) ts"

definition text_operator :: "string \<Rightarrow> operator option" where
  "text_operator n =
     (if n = ''and'' then Some AND else if n = ''or'' then Some OR
      else if n = ''div'' then Some DIV else if n = ''mod'' then Some MOD else None)"

definition ends_operand :: "token_type option \<Rightarrow> bool" where
  "ends_operand prev \<longleftrightarrow> prev \<in> Some ` {LIT_STR, LIT_INT, LIT_FLOAT, LIT_BOOL, NODENAME, ATTRNAME, FUNC, RPAR, RSQ, EXPR}"

definition operator_or :: "token_type option \<Rightarrow> string \<Rightarrow> ('d, 'n) token \<Rightarrow> ('d, 'n) token" where
  "operator_or prev n t =
     (case text_operator n of
        Some opr \<Rightarrow> if ends_operand prev then TOP (tpos t) opr else t
      | None \<Rightarrow> t)"

fun disambiguish_operators :: "token_type option \<Rightarrow> ('d, 'n) token list \<Rightarrow> ('d, 'n) token list" where
  "disambiguish_operators prev [] = []"
| "disambiguish_operators prev (TNodeName p n # ts) =
     (let t = operator_or prev n (TNodeName p n) in t # disambiguish_operators (Some (GetType t)) ts)"
| "disambiguish_operators prev (TFunc p n args # ts) =
     (let t = operator_or prev n (TFunc p n args) in t # disambiguish_operators (Some (GetType t)) ts)"
| "disambiguish_operators prev (TExpr p es # ts) =
     TExpr p (disambiguish_operators None es) # disambiguish_operators (Some EXPR) ts"
| "disambiguish_operators prev (t # ts) = t # disambiguish_operators (Some (GetType t)) ts"

section \<open>Functions\<close>

text \<open>
  \<open>prepare_params\<close> is the loop over the parameters of one function: \<open>cur\<close> is the parameter under
  construction; each one is prepared when its comma, or the end, is reached.
\<close>

function prepare_functions :: "('d, 'n) token list \<Rightarrow> ('d, 'n) token list res"
  and prepare_params :: "int \<Rightarrow> ('d, 'n) token list \<Rightarrow> ('d, 'n) token list \<Rightarrow> ('d, 'n) token list list res" where
  "prepare_functions v =
     (case v of
        [] \<Rightarrow> Inr []
      | t # ts \<Rightarrow>
          (case t of
             TFunc p n args \<Rightarrow>
               (case ts of
                  [] \<Rightarrow> parser_error ''Missing function parameters'' p
                | t2 # ts' \<Rightarrow>
                    (case t2 of
                       TExpr q ps \<Rightarrow>
                         bindr (if ps = [] then Inr [] else prepare_params p ps []) (\<lambda>as.
                         bindr (prepare_functions ts') (\<lambda>us. Inr (TFunc p n (args @ as) # us)))
                     | _ \<Rightarrow> parser_error ''Missing function parameters'' p))
           | TExpr p es \<Rightarrow>
               bindr (prepare_functions es) (\<lambda>es'.
               bindr (prepare_functions ts) (\<lambda>us. Inr (TExpr p es' # us)))
           | _ \<Rightarrow> bindr (prepare_functions ts) (\<lambda>us. Inr (t # us))))"
| "prepare_params p ps cr =
     (case ps of
        [] \<Rightarrow>
          if cr = [] then parser_error ''Empty function parameter'' p
          else bindr (prepare_functions cr) (\<lambda>a. Inr [a])
      | t # ps' \<Rightarrow>
          if GetType t = COMMA then
            (if cr = [] then parser_error ''Empty function parameter'' p
             else bindr (prepare_functions cr) (\<lambda>a.
                  bindr (prepare_params p ps' []) (\<lambda>as. Inr (a # as))))
          else prepare_params p ps' (cr @ [t]))"
  by pat_completeness auto

lemma size_list_append: "size_list f (xs @ ys) = size_list f xs + size_list f ys"
  by (induction xs) auto

termination prepare_functions
  by (relation "measures [\<lambda>x. case x of Inl ts \<Rightarrow> 2 * size_list size ts
        | Inr (p, ps, cr) \<Rightarrow> 2 * size_list size ps + 2 * size_list size cr + 1,
      \<lambda>x. case x of Inl ts \<Rightarrow> 0 | Inr (p, ps, cr) \<Rightarrow> length ps]")
    (auto simp: size_list_append)

declare prepare_functions.simps [simp del] prepare_params.simps [simp del]

section \<open>Filters\<close>

text \<open>
  A filter ends at the first right bracket: filters do not nest, and what a filter holds is not
  looked into. The position of the new token is never set.
\<close>

abbreviation not_rsq :: "('d, 'n) token \<Rightarrow> bool" where
  "not_rsq t \<equiv> GetType t \<noteq> RSQ"

function prepare_filters :: "('d, 'n) token list \<Rightarrow> ('d, 'n) token list res" where
  "prepare_filters v =
     (case v of
        [] \<Rightarrow> Inr []
      | t # ts \<Rightarrow>
          if GetType t = LSQ then
            (let filter = takeWhile not_rsq ts; rest = dropWhile not_rsq ts
             in if rest = [] then parser_error ''Missing closing square on filter'' (tpos t)
                else if filter = [] then parser_error ''Empty filter'' (tpos t)
                else bindr (prepare_filters (tl rest)) (\<lambda>us. Inr (TFilter (-1) (Some filter) # us)))
          else
            bindr (case t of
                     TFunc p n args \<Rightarrow> bindr (mapr prepare_filters args) (\<lambda>as. Inr (TFunc p n as))
                   | TExpr p es \<Rightarrow> bindr (prepare_filters es) (\<lambda>es'. Inr (TExpr p es'))
                   | _ \<Rightarrow> Inr t)
              (\<lambda>t'. bindr (prepare_filters ts) (\<lambda>us. Inr (t' # us))))"
  by pat_completeness auto

lemma size_list_dropWhile: "size_list f (dropWhile P xs) \<le> size_list f xs"
  by (induction xs) auto

lemma size_list_tl: "size_list f (tl xs) \<le> size_list f xs"
  by (cases xs) auto

lemma size_list_mem: "x \<in> set xs \<Longrightarrow> f x \<le> size_list f xs"
  by (induction xs) auto

termination prepare_filters
proof (relation "measure (size_list size)", goal_cases)
  case (2 v t ts)
  have "size_list size (tl (dropWhile not_rsq ts)) \<le> size_list size ts"
    using size_list_tl size_list_dropWhile by (rule order_trans)
  then show ?case using 2 by simp
qed (auto dest!: size_list_mem [where f = "size_list size"])

declare prepare_filters.simps [simp del]

section \<open>Paths\<close>

definition is_path :: "('d, 'n) token \<Rightarrow> bool" where
  "is_path t \<longleftrightarrow> GetType t \<in> {SLASH, DSLASH, NODENAME, ATTRNAME, AXIS, FUNC, FILTER}"

text \<open>
  \<open>run\<close> is the run of path tokens collected so far. When the token that ends a run is an
  expression, the source replaces the run and steps back, so that this expression is prepared a
  second time.

  The recursion ends because a prepared list has no expression right after a path token any more:
  \<open>second_passes\<close> counts the places where a second pass will happen.
\<close>

fun starts_expr :: "('d, 'n) token list \<Rightarrow> bool" where
  "starts_expr (TExpr p es # ts) = True"
| "starts_expr _ = False"

fun second_passes :: "('d, 'n) token list \<Rightarrow> nat" and second_passes_in :: "('d, 'n) token \<Rightarrow> nat" where
  "second_passes [] = 0"
| "second_passes (t # ts) =
     second_passes_in t + (if is_path t \<and> starts_expr ts then 1 else 0) + second_passes ts"
| "second_passes_in (TExpr p es) = second_passes es"
| "second_passes_in (TFunc p n args) = sum_list (map second_passes args)"
| "second_passes_in (TFilter p (Some es)) = second_passes es"
| "second_passes_in _ = 0"

function prepare_paths :: "('d, 'n) token list \<Rightarrow> ('d, 'n) token list \<Rightarrow> ('d, 'n) token list" where
  "prepare_paths run v =
     (case v of
        [] \<Rightarrow> if run = [] then [] else [TExpr (-1) run]
      | t # ts \<Rightarrow>
          if is_path t then
            prepare_paths
              (run @ [case t of
                        TFunc p n args \<Rightarrow> TFunc p n (map (prepare_paths []) args)
                      | TFilter p (Some es) \<Rightarrow> TFilter p (Some (prepare_paths [] es))
                      | _ \<Rightarrow> t]) ts
          else if run = [] then
            (case t of TExpr p es \<Rightarrow> TExpr p (prepare_paths [] es) | _ \<Rightarrow> t) # prepare_paths [] ts
          else
            TExpr (-1) run #
            (case t of TExpr p es \<Rightarrow> TExpr p (prepare_paths [] (prepare_paths [] es)) | _ \<Rightarrow> t) #
            prepare_paths [] ts)"
  by pat_completeness auto

definition flat_run :: "('d, 'n) token list \<Rightarrow> bool" where
  "flat_run run \<longleftrightarrow> (\<forall>t \<in> set run. is_path t \<and> second_passes_in t = 0)"

lemma is_path_TExpr [simp]: "\<not> is_path (TExpr p es)"
  by (simp add: is_path_def)

lemma flat_run_passes: "flat_run run \<Longrightarrow> second_passes run = 0"
proof (induction run)
  case (Cons t ts)
  then have "\<not> starts_expr ts" by (cases ts rule: starts_expr.cases) (auto simp: flat_run_def)
  then show ?case using Cons by (simp add: flat_run_def)
qed simp

lemma passes_no_path: "(\<And>t. t \<in> set ts \<Longrightarrow> \<not> is_path t \<and> second_passes_in t = 0) \<Longrightarrow> second_passes ts = 0"
  by (induction ts) auto

definition path_inner :: "('d, 'n) token \<Rightarrow> ('d, 'n) token" where
  "path_inner t =
     (case t of
        TFunc p n args \<Rightarrow> TFunc p n (map (prepare_paths []) args)
      | TFilter p (Some es) \<Rightarrow> TFilter p (Some (prepare_paths [] es))
      | _ \<Rightarrow> t)"

lemma is_path_inner [simp]: "is_path (path_inner t) = is_path t"
  by (auto simp: path_inner_def is_path_def split: token.splits option.splits)

lemma prepare_paths_flat:
  "prepare_paths_dom (run, v) \<Longrightarrow> flat_run run \<Longrightarrow>
   (\<forall>t \<in> set (prepare_paths run v). \<not> is_path t \<and> second_passes_in t = 0)"
proof (induction rule: prepare_paths.pinduct)
  case (1 run v)
  note simps = prepare_paths.psimps [OF 1(1), folded path_inner_def]
  show ?case
  proof (cases v)
    case Nil
    then show ?thesis unfolding simps using 1(10) by (simp add: flat_run_passes)
  next
    case (Cons t ts)
    have nil: "flat_run []" by (simp add: flat_run_def)
    have other: "\<not> is_path t \<Longrightarrow> \<forall>p es. t \<noteq> TExpr p es \<Longrightarrow> second_passes_in t = 0"
      by (cases t) (auto simp: is_path_def)
    consider "is_path t" | "\<not> is_path t" "run = []" | "\<not> is_path t" "run \<noteq> []" by blast
    then show ?thesis
    proof cases
      case p: 1
      have "second_passes_in (path_inner t) = 0"
      proof (cases t)
        case (TFunc q n args)
        have "second_passes (prepare_paths [] a) = 0" if "a \<in> set args" for a
          using 1(3) [OF Cons p TFunc that nil] by (intro passes_no_path) auto
        then show ?thesis by (simp add: path_inner_def TFunc)
      next
        case (TFilter q r)
        show ?thesis
        proof (cases r)
          case (Some es)
          have "second_passes (prepare_paths [] es) = 0"
            using 1(2) [OF Cons p TFilter Some nil] by (intro passes_no_path) auto
          then show ?thesis by (simp add: path_inner_def TFilter Some)
        qed (simp add: path_inner_def TFilter)
      qed (use p in \<open>simp_all add: path_inner_def is_path_def\<close>)
      then have "flat_run (run @ [path_inner t])" using 1(10) p by (simp add: flat_run_def)
      from 1(4) [OF Cons p, folded path_inner_def, OF this] show ?thesis
        unfolding simps using Cons p by simp
    next
      case 2
      have "second_passes (prepare_paths [] es) = 0" if "t = TExpr q es" for q es
        using 1(5) [OF Cons 2 that nil] by (intro passes_no_path) auto
      then show ?thesis unfolding simps using 1(6) [OF Cons 2 nil] other 2 Cons
        by (auto simp: is_path_def split: token.splits)
    next
      case 3
      have "second_passes (prepare_paths [] (prepare_paths [] es)) = 0" if "t = TExpr q es" for q es
        using 1(8) [OF Cons 3 that nil] by (intro passes_no_path) auto
      then show ?thesis unfolding simps using 1(9) [OF Cons 3 nil] other 3 Cons flat_run_passes [OF 1(10)]
        by (auto simp: is_path_def split: token.splits)
    qed
  qed
qed

lemma prepare_paths_passes: "prepare_paths_dom ([], v) \<Longrightarrow> second_passes (prepare_paths [] v) = 0"
  using prepare_paths_flat [of "[]" v] by (intro passes_no_path) (auto simp: flat_run_def)

lemma second_passes_arg:
  "a \<in> set args \<Longrightarrow> second_passes a \<le> sum_list (map second_passes args) \<and>
     size_list size a \<le> size_list (size_list size) args"
  by (induction args) auto

termination prepare_paths
proof (relation "measures [\<lambda>(run, v). second_passes v + (if run \<noteq> [] \<and> starts_expr v then 1 else 0),
    \<lambda>(run, v). size_list size v]", goal_cases)
  case (3 run v t ts p n args a)
  then show ?case using second_passes_arg [of a args] by auto
next
  case (8 run v t ts q es)
  then show ?case using prepare_paths_passes [of es] by simp
qed (auto dest!: second_passes_arg split: if_splits)

declare prepare_paths.simps [simp del]

section \<open>The parser\<close>

definition Parse :: "'d fops \<Rightarrow> string \<Rightarrow> ('d, 'n) token res" where
  "Parse F s =
     bindr (parse_expr F s) (\<lambda>v.
     bindr (resolve_parenthesis v) (\<lambda>(es, rest).
       if rest \<noteq> [] then parser_error ''Unexpected closing parenthesis'' (-1)
       else
         bindr (prepare_functions (disambiguish_operators None (disambiguish_mult None es))) (\<lambda>e1.
         bindr (prepare_filters e1) (\<lambda>e2.
           Inr (TExpr (-1) (prepare_paths [] e2))))))"

end
