(* ===== verification/XPathOps.thy ===== *)
theory XPathOps
  imports XPathTokens
begin

text \<open>
  Operators and functions of the XPath engine: src/XPath/XPathOperators.cpp and
  src/XPath/XPathFunctions.cpp. Arithmetic on \<open>int\<close> overflows into undefined behaviour; results
  are new tokens, which have no position.
\<close>

section \<open>Operators\<close>

definition operator_error :: "operator \<Rightarrow> string \<Rightarrow> 'a res" where
  "operator_error opr what = Inl (Exn (''Operator '' @ op_ToString opr) what [])"

text \<open>The remainder of C++ truncates towards zero.\<close>

definition c_mod :: "int \<Rightarrow> int \<Rightarrow> int res" where
  "c_mod i j =
     (if j = 0 then Inl (UB ''division by zero'')
      else if i = -2147483648 \<and> j = -1 then Inl (UB ''signed overflow'')
      else Inr (if i < 0 then - ((- i) mod \<bar>j\<bar>) else i mod \<bar>j\<bar>))"

definition calc_int :: "'d fops \<Rightarrow> operator \<Rightarrow> int \<Rightarrow> int \<Rightarrow> ('d, 'n) token res" where
  "calc_int F opr i j =
     (if opr = PLUS then bindr (int_ck (i + j)) (\<lambda>r. Inr (TInt (-1) r))
      else if opr = MINUS then bindr (int_ck (i - j)) (\<lambda>r. Inr (TInt (-1) r))
      else if opr = MULT then bindr (int_ck (i * j)) (\<lambda>r. Inr (TInt (-1) r))
      else if opr = DIV then Inr (TFloat (-1) (f_div F (f_of_int F i) (f_of_int F j)))
      else if opr = MOD then bindr (c_mod i j) (\<lambda>r. Inr (TInt (-1) r))
      else operator_error opr ''Error evaluating operator'')"

definition calc_double :: "'d fops \<Rightarrow> operator \<Rightarrow> 'd \<Rightarrow> 'd \<Rightarrow> ('d, 'n) token res" where
  "calc_double F opr a b =
     (if opr = PLUS then Inr (TFloat (-1) (f_add F a b))
      else if opr = MINUS then Inr (TFloat (-1) (f_sub F a b))
      else if opr = MULT then Inr (TFloat (-1) (f_mul F a b))
      else if opr = DIV then Inr (TFloat (-1) (f_div F a b))
      else operator_error opr ''Error evaluating operator'')"

text \<open>Both operands as integers; when that throws, as floats. \<open>None\<close> is the exception.\<close>

definition try_all :: "'a res \<Rightarrow> 'a option res" where
  "try_all m = catch_all (bindr m (\<lambda>x. Inr (Some x))) (Inr None)"

definition operator_calc :: "'d fops \<Rightarrow> 'n dom \<Rightarrow> operator \<Rightarrow> ('d, 'n) token \<Rightarrow> ('d, 'n) token \<Rightarrow> ('d, 'n) token res" where
  "operator_calc F D opr l r =
     bindr (try_all (bindr (to_int F D l) (\<lambda>i. bindr (to_int F D r) (\<lambda>j. Inr (i, j))))) (\<lambda>ints.
       case ints of
         Some (i, j) \<Rightarrow> calc_int F opr i j
       | None \<Rightarrow>
           if opr = MOD then Inl (Exn ''Operator MOD'' ''Modulus operator can only operate on integers'' [])
           else bindr (to_double F D l) (\<lambda>a. bindr (to_double F D r) (\<lambda>b. calc_double F opr a b)))"

text \<open>Some item of a sequence satisfies a test; a test that throws fails.\<close>

fun any_item :: "(('d, 'n) token \<Rightarrow> bool res) \<Rightarrow> ('d, 'n) token list \<Rightarrow> bool res" where
  "any_item f [] = Inr False"
| "any_item f (t # ts) =
     bindr (try_all (f t)) (\<lambda>b. if b = Some True then Inr True else any_item f ts)"

text \<open>Some pair of items has the same string value; here an exception of a conversion is thrown.\<close>

fun any_same :: "'d fops \<Rightarrow> 'n dom \<Rightarrow> ('d, 'n) token \<Rightarrow> ('d, 'n) token list \<Rightarrow> bool res" where
  "any_same F D x [] = Inr False"
| "any_same F D x (y # ys) =
     bindr (to_str F D x) (\<lambda>a. bindr (to_str F D y) (\<lambda>b.
       if a = b then Inr True else any_same F D x ys))"

fun any_pair :: "'d fops \<Rightarrow> 'n dom \<Rightarrow> ('d, 'n) token list \<Rightarrow> ('d, 'n) token list \<Rightarrow> bool res" where
  "any_pair F D [] ys = Inr False"
| "any_pair F D (x # xs) ys =
     bindr (any_same F D x ys) (\<lambda>b. if b then Inr True else any_pair F D xs ys)"

definition or_false :: "bool res \<Rightarrow> bool res" where
  "or_false m = catch_all m (Inr False)"

text \<open>Two literals of the same type.\<close>

definition eq_same :: "'d fops \<Rightarrow> ('d, 'n) token \<Rightarrow> ('d, 'n) token \<Rightarrow> bool option" where
  "eq_same F t1 t2 =
     (case (t1, t2) of
        (TStr p a, TStr q b) \<Rightarrow> Some (a = b)
      | (TBool p a, TBool q b) \<Rightarrow> Some (a = b)
      | (TInt p a, TInt q b) \<Rightarrow> Some (a = b)
      | (TFloat p a, TFloat q b) \<Rightarrow> Some (f_eq F a b)
      | _ \<Rightarrow> None)"

text \<open>
  A literal and a sequence, or two sequences. A number does not come here: it is compared, with
  whatever else, by a conversion.
\<close>

definition eq_items :: "'d fops \<Rightarrow> 'n dom \<Rightarrow> ('d, 'n) token \<Rightarrow> ('d, 'n) token \<Rightarrow> bool res" where
  "eq_items F D t1 t2 =
     (case (t1, t2) of
        (TStr p s, TSeq q items) \<Rightarrow> any_item (\<lambda>t. bindr (to_str F D t) (\<lambda>x. Inr (x = s))) items
      | (TInt p i, TSeq q items) \<Rightarrow> any_item (\<lambda>t. bindr (to_int F D t) (\<lambda>x. Inr (x = i))) items
      | (TFloat p d, TSeq q items) \<Rightarrow> any_item (\<lambda>t. bindr (to_double F D t) (\<lambda>x. Inr (f_eq F x d))) items
      | (TSeq p xs, TSeq q ys) \<Rightarrow> any_pair F D xs ys
      | _ \<Rightarrow> Inl (Exn ''Operator EQ'' (''Unable to evaluate operator '' @ [CHR 0x27] @ ''='' @ [CHR 0x27]) []))"

definition eq_value :: "'d fops \<Rightarrow> 'n dom \<Rightarrow> ('d, 'n) token \<Rightarrow> ('d, 'n) token \<Rightarrow> bool res" where
  "eq_value F D l r =
     (let t1 = (if GetType l < GetType r then l else r); t2 = (if GetType l < GetType r then r else l)
      in case eq_same F t1 t2 of
           Some b \<Rightarrow> Inr b
         | None \<Rightarrow>
             if GetType l = LIT_INT \<or> GetType r = LIT_INT then
               or_false (bindr (to_int F D l) (\<lambda>i. bindr (to_int F D r) (\<lambda>j. Inr (i = j))))
             else if GetType l = LIT_FLOAT \<or> GetType r = LIT_FLOAT then
               or_false (bindr (to_double F D l) (\<lambda>a. bindr (to_double F D r) (\<lambda>b. Inr (f_eq F a b))))
             else eq_items F D t1 t2)"

definition compare_double ::
  "'d fops \<Rightarrow> 'n dom \<Rightarrow> ('d \<Rightarrow> 'd \<Rightarrow> bool) \<Rightarrow> ('d, 'n) token \<Rightarrow> ('d, 'n) token \<Rightarrow> ('d, 'n) token res" where
  "compare_double F D rel l r =
     bindr (to_double F D l) (\<lambda>a. bindr (to_double F D r) (\<lambda>b. Inr (TBool (-1) (rel a b))))"

fun seq_items :: "('d, 'n) token \<Rightarrow> ('d, 'n) token list" where
  "seq_items (TSeq p ts) = map clone ts"
| "seq_items t = [clone t]"

text \<open>The table \<open>ops_desc\<close>: the implementation and the priority of every operator.\<close>

definition bool_operator :: "operator \<Rightarrow> string \<Rightarrow> (bool \<Rightarrow> bool \<Rightarrow> bool) \<Rightarrow> ('d, 'n) token \<Rightarrow> ('d, 'n) token \<Rightarrow> ('d, 'n) token res" where
  "bool_operator opr nm f l r =
     (case (l, r) of
        (TBool p a, TBool q b) \<Rightarrow> Inr (TBool (-1) (f a b))
      | _ \<Rightarrow> Inl (Exn (''Operator '' @ nm) (''Logical operator '' @ [CHR 0x27] @ op_ToString opr @ [CHR 0x27] @
               '' can only operate on boolean values'') []))"

fun op_impl :: "'d fops \<Rightarrow> 'n dom \<Rightarrow> operator \<Rightarrow> ('d, 'n) token \<Rightarrow> ('d, 'n) token \<Rightarrow> ('d, 'n) token res" where
  "op_impl F D EQ l r = bindr (eq_value F D l r) (\<lambda>b. Inr (TBool (-1) b))"
| "op_impl F D NEQ l r = bindr (eq_value F D l r) (\<lambda>b. Inr (TBool (-1) (\<not> b)))"
| "op_impl F D LT l r = compare_double F D (f_lt F) l r"
| "op_impl F D LEQ l r = compare_double F D (f_le F) l r"
| "op_impl F D GT l r = compare_double F D (\<lambda>a b. f_lt F b a) l r"
| "op_impl F D GEQ l r = compare_double F D (\<lambda>a b. f_le F b a) l r"
| "op_impl F D AND l r = bool_operator AND ''AND'' (\<and>) l r"
| "op_impl F D OR l r = bool_operator OR ''OR'' (\<or>) l r"
| "op_impl F D PIPE l r = Inr (TSeq (-1) (seq_items l @ seq_items r))"
| "op_impl F D opr l r = operator_calc F D opr l r"

fun op_prio :: "operator \<Rightarrow> nat" where
  "op_prio MULT = 0" | "op_prio DIV = 0" | "op_prio MOD = 0" | "op_prio PLUS = 1" | "op_prio MINUS = 1"
| "op_prio LT = 2" | "op_prio LEQ = 2" | "op_prio GT = 2" | "op_prio GEQ = 2" | "op_prio EQ = 3"
| "op_prio NEQ = 3" | "op_prio AND = 4" | "op_prio OR = 5" | "op_prio PIPE = 5"

section \<open>Functions\<close>

text \<open>What a function sees: the current context, the sequence to its left, its custom context.\<close>

record ('d, 'n) func_context =
  current_items :: "('d, 'n) token list"
  current_index :: int
  current_size :: int
  left_items :: "('d, 'n) token list"
  custom_items :: "('d, 'n) token list"

type_synonym ('d, 'n) xfunc =
  "('d, 'n) func_context \<Rightarrow> ('d, 'n) token list \<Rightarrow> ('d, 'n) token res"

definition func_error :: "string \<Rightarrow> string \<Rightarrow> 'a res" where
  "func_error f what = Inl (Exn f what [])"

definition fntrue :: "('d, 'n) xfunc" where "fntrue c args = Inr (TBool (-1) True)"
definition fnfalse :: "('d, 'n) xfunc" where "fnfalse c args = Inr (TBool (-1) False)"

definition fnnot :: "'d fops \<Rightarrow> ('d, 'n) xfunc" where
  "fnnot F c args =
     (case args of
        [t] \<Rightarrow> Inr (TBool (-1) (\<not> to_bool F t))
      | _ \<Rightarrow> func_error ''not()'' ''Expecting 1 parameter'')"

definition names_of :: "'n dom \<Rightarrow> ('d, 'n) token list \<Rightarrow> ('d, 'n) token res" where
  "names_of D items =
     bindr (mapr (\<lambda>t. bindr (to_node t) (\<lambda>n. Inr (TStr (-1) (d_name D n)))) items) (\<lambda>ns. Inr (TSeq (-1) ns))"

definition fnname :: "'n dom \<Rightarrow> ('d, 'n) xfunc" where
  "fnname D c args =
     (if length args > 1 then func_error ''name()'' ''Expecting 0 or 1 parameters''
      else case args of
             t # _ \<Rightarrow> (case t of TSeq p items \<Rightarrow> names_of D items
                        | _ \<Rightarrow> func_error ''name()'' ''Expecting sequence as parameter'')
           | [] \<Rightarrow> names_of D (if left_items c \<noteq> [] then left_items c else current_items c))"

definition fncount :: "('d, 'n) xfunc" where
  "fncount c args =
     (case args of
        [t] \<Rightarrow> (case t of TSeq p items \<Rightarrow> Inr (TInt (-1) (int (length items)))
                 | _ \<Rightarrow> func_error ''count()'' ''Expecting sequence as parameter'')
      | _ \<Rightarrow> func_error ''count()'' ''Expecting 1 parameter'')"

text \<open>The running extremum is an \<open>int\<close>: every value that becomes the extremum is truncated.\<close>

definition trunc_int :: "'d fops \<Rightarrow> 'd \<Rightarrow> int res" where
  "trunc_int F d = (case f_to_int F d of None \<Rightarrow> Inl (UB ''double out of the range of int'') | Some i \<Rightarrow> Inr i)"

fun extremum_loop ::
  "'d fops \<Rightarrow> 'n dom \<Rightarrow> ('d \<Rightarrow> 'd \<Rightarrow> bool) \<Rightarrow> int \<Rightarrow> ('d, 'n) token list \<Rightarrow> int res" where
  "extremum_loop F D better m [] = Inr m"
| "extremum_loop F D better m (t # ts) =
     bindr (to_double F D t) (\<lambda>d.
       if better d (f_of_int F m) then bindr (trunc_int F d) (\<lambda>i. extremum_loop F D better i ts)
       else extremum_loop F D better m ts)"

definition extremum :: "string \<Rightarrow> 'd fops \<Rightarrow> 'n dom \<Rightarrow> ('d \<Rightarrow> 'd \<Rightarrow> bool) \<Rightarrow> ('d, 'n) xfunc" where
  "extremum nm F D better c args =
     (case args of
        [t] \<Rightarrow>
          (case t of
             TSeq p items \<Rightarrow>
               (case items of
                  [] \<Rightarrow> Inr (TSeq (-1) [])
                | x # xs \<Rightarrow>
                    bindr (to_double F D x) (\<lambda>d. bindr (trunc_int F d) (\<lambda>i.
                    bindr (extremum_loop F D better i xs) (\<lambda>m. Inr (TFloat (-1) (f_of_int F m))))))
           | _ \<Rightarrow> func_error nm ''Expecting sequence as parameter'')
      | _ \<Rightarrow> func_error nm ''Expecting 1 parameter'')"

definition fnmin :: "'d fops \<Rightarrow> 'n dom \<Rightarrow> ('d, 'n) xfunc" where
  "fnmin F D = extremum ''min()'' F D (f_lt F)"

definition fnmax :: "'d fops \<Rightarrow> 'n dom \<Rightarrow> ('d, 'n) xfunc" where
  "fnmax F D = extremum ''max()'' F D (\<lambda>a b. f_lt F b a)"

definition fnposition :: "('d, 'n) xfunc" where
  "fnposition c args =
     (if left_items c \<noteq> []
      then Inr (TSeq (-1) (map (\<lambda>i. TInt (-1) (int i + 1)) [0..<length (left_items c)]))
      else Inr (TInt (-1) (current_index c)))"

definition fnlast :: "('d, 'n) xfunc" where
  "fnlast c args =
     (if left_items c \<noteq> []
      then Inr (TSeq (-1) (map (\<lambda>i. TInt (-1) (int (length (left_items c)))) [0..<length (left_items c)]))
      else Inr (TInt (-1) (current_size c)))"

definition fnstring_length :: "'d fops \<Rightarrow> 'n dom \<Rightarrow> ('d, 'n) xfunc" where
  "fnstring_length F D c args =
     (case args of
        [t] \<Rightarrow> bindr (to_str F D t) (\<lambda>s. Inr (TInt (-1) (int (length s))))
      | _ \<Rightarrow> func_error ''string-length()'' ''Expecting 1 parameter'')"

text \<open>
  Offsets are 0-based and go to \<open>substr\<close> as they are: a negative one becomes a huge unsigned
  number, which is out of range as a position and the rest of the string as a length.
\<close>

definition substr_int :: "string \<Rightarrow> int \<Rightarrow> int option \<Rightarrow> string res" where
  "substr_int s i n =
     (if i < 0 \<or> i > int (length s) then Inl (StdExn ''out_of_range'')
      else Inr (case n of
                  None \<Rightarrow> drop (nat i) s
                | Some k \<Rightarrow> if k < 0 then drop (nat i) s else take (nat k) (drop (nat i) s)))"

definition fnsubstring :: "'d fops \<Rightarrow> 'n dom \<Rightarrow> ('d, 'n) xfunc" where
  "fnsubstring F D c args =
     (case args of
        [t, u] \<Rightarrow> bindr (to_str F D t) (\<lambda>s. bindr (to_int F D u) (\<lambda>i.
          bindr (substr_int s i None) (\<lambda>r. Inr (TStr (-1) r))))
      | [t, u, v] \<Rightarrow> bindr (to_str F D t) (\<lambda>s. bindr (to_int F D u) (\<lambda>i. bindr (to_int F D v) (\<lambda>n.
          bindr (substr_int s i (Some n)) (\<lambda>r. Inr (TStr (-1) r)))))
      | _ \<Rightarrow> func_error ''substring()'' ''Expecting 2 or 3 parameters'')"

fun find_sub :: "string \<Rightarrow> string \<Rightarrow> bool" where
  "find_sub [] t = (t = [])"
| "find_sub (c # s) t = (take (length t) (c # s) = t \<or> find_sub s t)"

definition fncontains :: "'d fops \<Rightarrow> 'n dom \<Rightarrow> ('d, 'n) xfunc" where
  "fncontains F D c args =
     (case args of
        [t, u] \<Rightarrow> bindr (to_str F D t) (\<lambda>s1. bindr (to_str F D u) (\<lambda>s2. Inr (TBool (-1) (find_sub s1 s2))))
      | _ \<Rightarrow> func_error ''contains()'' ''Expecting 2 parameters'')"

fun join :: "string \<Rightarrow> string list \<Rightarrow> string" where
  "join sep [] = []"
| "join sep [s] = s"
| "join sep (s # ss) = s @ sep @ join sep ss"

definition fnstring_join :: "'d fops \<Rightarrow> 'n dom \<Rightarrow> ('d, 'n) xfunc" where
  "fnstring_join F D c args =
     (case args of
        [t, u] \<Rightarrow>
          (case t of
             TSeq p items \<Rightarrow> bindr (to_str F D u) (\<lambda>sep.
               bindr (mapr (to_str F D) items) (\<lambda>ss. Inr (TStr (-1) (join sep ss))))
           | _ \<Rightarrow> func_error ''string-join()'' ''Expecting sequence as first parameter'')
      | _ \<Rightarrow> func_error ''string-join()'' ''Expecting 2 parameters'')"

definition fncurrent :: "('d, 'n) xfunc" where
  "fncurrent c args =
     (if args \<noteq> [] then func_error ''current()'' ''Expecting no parameters''
      else Inr (TSeq (-1) (map clone (custom_items c))))"

text \<open>The table \<open>funcs_desc\<close> of the constructor.\<close>

definition builtin_func :: "'d fops \<Rightarrow> 'n dom \<Rightarrow> string \<Rightarrow> ('d, 'n) xfunc option" where
  "builtin_func F D = map_of
     [(''true'', fntrue), (''false'', fnfalse), (''not'', fnnot F), (''name'', fnname D),
      (''count'', fncount), (''min'', fnmin F D), (''max'', fnmax F D), (''position'', fnposition),
      (''last'', fnlast), (''string-length'', fnstring_length F D), (''substring'', fnsubstring F D),
      (''contains'', fncontains F D), (''string-join'', fnstring_join F D)]"

section \<open>Facts\<close>

text \<open>A comparison never succeeds on a sequence, so never on the result of a path.\<close>

lemma compare_double_seq:
  "compare_double F D rel (TSeq p ts) r \<noteq> Inr v" "compare_double F D rel l (TSeq p ts) \<noteq> Inr v"
  using to_double_seq [of F D p ts] by (auto simp: compare_double_def bindr_eq_Inr)

lemma op_impl_value:
  "op_impl F D opr l r = Inr v \<Longrightarrow> GetType v \<in> {LIT_INT, LIT_FLOAT, LIT_BOOL, SEQ}"
  by (cases opr) (auto simp: compare_double_def bool_operator_def operator_calc_def calc_int_def calc_double_def
      operator_error_def bindr_eq_Inr split: if_splits option.splits token.splits)

end
