(* ===== verification/XPathEval.thy ===== *)
theory XPathEval
  imports XPathParser XPathOps
begin

text \<open>
  The evaluator of the XPath engine, src/XPath/XPathEval.cpp. Expressions are consumed as they are
  evaluated, so the in-place rewriting of the source is a function on token lists. Two bounds make
  the definitions total: \<open>x_depth\<close>, the depth of the document below which the walks of \<open>//\<close> do not
  go, and the nesting depth of the expression, the number of calls of \<open>evaluate_expr\<close> inside each
  other; a bound that is too small gives \<open>NoFuel\<close> (XPathEvalProps shows which bounds are enough).
\<close>

section \<open>Contexts\<close>

record ('d, 'n) xenv =
  x_fops :: "'d fops"
  x_dom :: "'n dom"
  x_depth :: nat
  x_custom :: "('d, 'n) token list"
  x_registered :: "string \<Rightarrow> ('d, 'n) xfunc option"

record ('d, 'n) eval_context =
  seq :: "('d, 'n) token list"
  ctx_index :: int
  ctx_size :: int

definition context_of :: "('d, 'n) token list \<Rightarrow> ('d, 'n) eval_context" where
  "context_of items = \<lparr>seq = items, ctx_index = 0, ctx_size = 0\<rparr>"

section \<open>Nodes\<close>

abbreviation concat_res :: "'a list list res \<Rightarrow> 'a list res" where
  "concat_res m \<equiv> bindr m (\<lambda>xs. Inr (concat xs))"

text \<open>The element children that match, each after its own matching descendants when \<open>depth\<close>.\<close>

fun child_nodes_of :: "nat \<Rightarrow> 'n dom \<Rightarrow> string \<Rightarrow> bool \<Rightarrow> 'n \<Rightarrow> 'n list res" where
  "child_nodes_of 0 D name depth n = Inl NoFuel"
| "child_nodes_of (Suc k) D name depth n =
     concat_res (mapr (\<lambda>c.
       if d_kind D c = ELEMENT_NODE then
         bindr (if depth then child_nodes_of k D name depth c else Inr []) (\<lambda>sub.
           Inr (sub @ (if d_name D c = name \<or> name = ''*'' then [c] else [])))
       else Inr []) (d_children D n))"

definition get_child_nodes ::
  "nat \<Rightarrow> 'n dom \<Rightarrow> string \<Rightarrow> bool \<Rightarrow> ('d, 'n) token list \<Rightarrow> ('d, 'n) token list res" where
  "get_child_nodes k D name depth items =
     concat_res (mapr (\<lambda>t. bindr (to_node t) (\<lambda>n.
       if name = ''.'' then Inr [TNode (-1) n]
       else if name = ''..'' then Inr (case d_parent D n of None \<Rightarrow> [] | Some p \<Rightarrow> [TNode (-1) p])
       else bindr (child_nodes_of k D name depth n) (\<lambda>ns. Inr (map (TNode (-1)) ns)))) items)"

definition inner_node :: "'n dom \<Rightarrow> 'n \<Rightarrow> bool" where
  "inner_node D n \<longleftrightarrow> d_kind D n = ELEMENT_NODE \<or> d_kind D n = DOCUMENT_NODE"

fun attributes_of :: "nat \<Rightarrow> 'n dom \<Rightarrow> string \<Rightarrow> bool \<Rightarrow> 'n \<Rightarrow> 'n list res" where
  "attributes_of 0 D name depth n = Inl NoFuel"
| "attributes_of (Suc k) D name depth n =
     bindr (if inner_node D n \<and> depth
            then concat_res (mapr (attributes_of k D name depth) (d_children D n)) else Inr []) (\<lambda>sub.
     Inr (sub @ (if d_kind D n = ELEMENT_NODE
                 then filter (\<lambda>a. name = ''*'' \<or> d_name D a = name) (d_attrs D n) else [])))"

definition get_child_attributes ::
  "nat \<Rightarrow> 'n dom \<Rightarrow> string \<Rightarrow> bool \<Rightarrow> ('d, 'n) token list \<Rightarrow> ('d, 'n) token list res" where
  "get_child_attributes k D name depth items =
     concat_res (mapr (\<lambda>t. bindr (to_node t) (\<lambda>n.
       bindr (attributes_of k D name depth n) (\<lambda>ns. Inr (map (TNode (-1)) ns)))) items)"

definition xpath_error :: "string \<Rightarrow> int \<Rightarrow> 'a res" where
  "xpath_error what p = Inl (Exn ''XPath Eval'' (what @ LogInitialPosition p) [])"

fun axis_of :: "nat \<Rightarrow> 'n dom \<Rightarrow> string \<Rightarrow> string \<Rightarrow> bool \<Rightarrow> 'n \<Rightarrow> 'n list res" where
  "axis_of 0 D axis name depth n = Inl NoFuel"
| "axis_of (Suc k) D axis name depth n =
     bindr (if inner_node D n \<and> depth
            then concat_res (mapr (axis_of k D axis name depth) (d_children D n)) else Inr []) (\<lambda>sub.
     if axis = ''preceding-sibling''
     then Inr (sub @ filter (\<lambda>a. name = ''*'' \<or> d_name D a = name) (d_prev D n))
     else if axis = ''following-sibling''
     then Inr (sub @ filter (\<lambda>a. name = ''*'' \<or> d_name D a = name) (d_next D n))
     else xpath_error (''Unknown axis : '' @ axis) (-1))"

definition get_axis ::
  "nat \<Rightarrow> 'n dom \<Rightarrow> string \<Rightarrow> string \<Rightarrow> bool \<Rightarrow> ('d, 'n) token list \<Rightarrow> ('d, 'n) token list res" where
  "get_axis k D axis name depth items =
     concat_res (mapr (\<lambda>t. bindr (to_node t) (\<lambda>n.
       bindr (axis_of k D axis name depth n) (\<lambda>ns. Inr (map (TNode (-1)) ns)))) items)"

text \<open>The exception of a step is thrown again with the step in its text.\<close>

definition in_step :: "string \<Rightarrow> int \<Rightarrow> 'a res \<Rightarrow> 'a res" where
  "in_step what p m = catch_exn m (\<lambda>c e k. xpath_error (c @ '' : '' @ e @ what) p)"

definition evaluate_node ::
  "('d, 'n) xenv \<Rightarrow> int \<Rightarrow> string \<Rightarrow> ('d, 'n) token list \<Rightarrow> bool \<Rightarrow> ('d, 'n) token res" where
  "evaluate_node E p name items depth =
     in_step ('' in node name '' @ name) p
       (bindr (get_child_nodes (x_depth E) (x_dom E) name depth items) (\<lambda>ts. Inr (TSeq (-1) ts)))"

definition evaluate_axis ::
  "('d, 'n) xenv \<Rightarrow> int \<Rightarrow> string \<Rightarrow> string \<Rightarrow> ('d, 'n) token list \<Rightarrow> bool \<Rightarrow> ('d, 'n) token res" where
  "evaluate_axis E p axis name items depth =
     in_step ('' in axis '' @ axis) p
       (bindr (get_axis (x_depth E) (x_dom E) axis name depth items) (\<lambda>ts. Inr (TSeq (-1) ts)))"

definition evaluate_attribute ::
  "('d, 'n) xenv \<Rightarrow> int \<Rightarrow> string \<Rightarrow> ('d, 'n) token list \<Rightarrow> bool \<Rightarrow> ('d, 'n) token res" where
  "evaluate_attribute E p name items depth =
     in_step ('' in attribute '' @ name) p
       (bindr (get_child_attributes (x_depth E) (x_dom E) name depth items) (\<lambda>ts. Inr (TSeq (-1) ts)))"

section \<open>Filters\<close>

type_synonym ('d, 'n) evaluator = "('d, 'n) eval_context \<Rightarrow> ('d, 'n) token \<Rightarrow> ('d, 'n) token res"

text \<open>Each item is tested with its index among, and the number of, the original items.\<close>

fun filter_items ::
  "('d, 'n) evaluator \<Rightarrow> 'd fops \<Rightarrow> ('d, 'n) token list \<Rightarrow> int \<Rightarrow> int \<Rightarrow> ('d, 'n) token list \<Rightarrow>
   ('d, 'n) token list res" where
  "filter_items ev F flt idx sz [] = Inr []"
| "filter_items ev F flt idx sz (t # ts) =
     bindr (ev \<lparr>seq = [clone t], ctx_index = idx, ctx_size = sz\<rparr> (TExpr (-1) (map clone flt))) (\<lambda>v.
     bindr (filter_items ev F flt (idx + 1) sz ts) (\<lambda>us.
       Inr (if to_bool F v then t # us else us)))"

definition filter_token_node_list ::
  "('d, 'n) evaluator \<Rightarrow> 'd fops \<Rightarrow> ('d, 'n) token list \<Rightarrow> ('d, 'n) token list \<Rightarrow> ('d, 'n) token list res" where
  "filter_token_node_list ev F items flt = filter_items ev F flt 1 (int (length items)) items"

definition get_nth_token_node_list :: "'a list \<Rightarrow> int \<Rightarrow> 'a list" where
  "get_nth_token_node_list items n =
     (if n \<le> 0 \<or> n > int (length items) then [] else [items ! nat (n - 1)])"

definition apply_filter ::
  "('d, 'n) evaluator \<Rightarrow> 'd fops \<Rightarrow> ('d, 'n) token list \<Rightarrow> ('d, 'n) token list \<Rightarrow> ('d, 'n) token list res" where
  "apply_filter ev F items flt =
     (case flt of
        [TInt p n] \<Rightarrow> Inr (get_nth_token_node_list items n)
      | _ \<Rightarrow> filter_token_node_list ev F items flt)"

section \<open>Function calls\<close>

definition lookup_func :: "('d, 'n) xenv \<Rightarrow> string \<Rightarrow> ('d, 'n) xfunc option" where
  "lookup_func E name =
     (if name = ''current'' then Some fncurrent
      else case x_registered E name of Some f \<Rightarrow> Some f | None \<Rightarrow> builtin_func (x_fops E) (x_dom E) name)"

definition evaluate_func ::
  "('d, 'n) evaluator \<Rightarrow> ('d, 'n) xenv \<Rightarrow> ('d, 'n) eval_context \<Rightarrow> int \<Rightarrow> string \<Rightarrow>
   ('d, 'n) token list list \<Rightarrow> ('d, 'n) token list \<Rightarrow> ('d, 'n) token res" where
  "evaluate_func ev E C p name args left =
     (case lookup_func E name of
        None \<Rightarrow> xpath_error (''Unknown function : '' @ name) p
      | Some f \<Rightarrow>
          (case bindr (mapr (\<lambda>a. ev C (TExpr (-1) a)) args)
                  (f \<lparr>current_items = seq C, current_index = ctx_index C, current_size = ctx_size C,
                      left_items = left, custom_items = x_custom E\<rparr>) of
             Inl (Exn c e k) \<Rightarrow> xpath_error (c @ '' : '' @ e @ '' in function '' @ name @ ''()'') p
           | Inl (StdExn s) \<Rightarrow> Inl (Exn name ''Unexpected exception'' [])
           | r \<Rightarrow> r))"

section \<open>Operators\<close>

text \<open>The index of the leftmost operator of the lowest priority number.\<close>

fun min_op :: "nat \<Rightarrow> (nat \<times> nat) option \<Rightarrow> ('d, 'n) token list \<Rightarrow> (nat \<times> nat) option" where
  "min_op i best [] = best"
| "min_op i best (TOP p opr # ts) =
     min_op (Suc i)
       (case best of
          None \<Rightarrow> Some (i, op_prio opr)
        | Some (j, m) \<Rightarrow> if op_prio opr < m then Some (i, op_prio opr) else best) ts"
| "min_op i best (t # ts) = min_op (Suc i) best ts"

text \<open>
  One operator: the left operand is evaluated first; for \<open>and\<close> and \<open>or\<close> the right one only when the
  left one does not decide.
\<close>

definition apply_op ::
  "('d, 'n) evaluator \<Rightarrow> ('d, 'n) xenv \<Rightarrow> ('d, 'n) eval_context \<Rightarrow> operator \<Rightarrow>
   ('d, 'n) token \<Rightarrow> ('d, 'n) token \<Rightarrow> ('d, 'n) token res" where
  "apply_op ev E C opr l r =
     bindr (ev C l) (\<lambda>a.
     bindr (if opr = OR then
              bindr (op_impl (x_fops E) (x_dom E) OR a (TBool (-1) False)) (\<lambda>t.
                Inr (if to_bool (x_fops E) t then Some t else None))
            else if opr = AND then
              bindr (op_impl (x_fops E) (x_dom E) AND a (TBool (-1) True)) (\<lambda>t.
                Inr (if to_bool (x_fops E) t then None else Some t))
            else Inr None) (\<lambda>lazy.
     case lazy of
       Some t \<Rightarrow> Inr t
     | None \<Rightarrow> bindr (ev C r) (\<lambda>b. op_impl (x_fops E) (x_dom E) opr a b)))"

definition in_operator :: "int \<Rightarrow> 'a res \<Rightarrow> 'a res" where
  "in_operator p m =
     catch_exn m (\<lambda>c e k. Inl (Exn c (e @ '' while evaluating operator'' @ LogInitialPosition p) k))"

text \<open>The loop over the operators; every round replaces three tokens by one.\<close>

function reduce_ops ::
  "('d, 'n) evaluator \<Rightarrow> ('d, 'n) xenv \<Rightarrow> ('d, 'n) eval_context \<Rightarrow> ('d, 'n) token list \<Rightarrow>
   ('d, 'n) token list res" where
  "reduce_ops ev E C ts =
     (case min_op 0 None ts of
        None \<Rightarrow> Inr ts
      | Some (k, m) \<Rightarrow>
          (case ts ! k of
             TOP p opr \<Rightarrow>
               if k = 0 then
                 in_operator p (xpath_error (''Missing left operand of operator '' @ op_ToString opr) p)
               else if k + 1 \<ge> length ts then
                 in_operator p (xpath_error (''Missing right operand of operator '' @ op_ToString opr) p)
               else
                 bindr (in_operator p (apply_op ev E C opr (ts ! (k - 1)) (ts ! (k + 1)))) (\<lambda>v.
                   reduce_ops ev E C (take (k - 1) ts @ [v] @ drop (k + 2) ts))
           | _ \<Rightarrow> Inl (UB ''no operator'')))"
  by pat_completeness auto

termination
  by (relation "measure (\<lambda>(ev, E, C, ts). length ts)") auto

declare reduce_ops.simps [simp del]

section \<open>Steps\<close>

text \<open>
  The second loop: \<open>dn\<close> are the tokens already resolved, the last one first; a step after a slash
  and a filter work on the sequence before them.
\<close>

definition step_context ::
  "('d, 'n) xenv \<Rightarrow> ('d, 'n) token list \<Rightarrow> ('d, 'n) token list \<times> ('d, 'n) token list" where
  "step_context E dn =
     (case dn of
        TSeq p items # dn' \<Rightarrow> (items, dn')
      | _ \<Rightarrow> ([TNode (-1) (d_document (x_dom E))], dn))"

definition single_step ::
  "('d, 'n) evaluator \<Rightarrow> ('d, 'n) xenv \<Rightarrow> ('d, 'n) eval_context \<Rightarrow> ('d, 'n) token list \<Rightarrow>
   ('d, 'n) token list \<Rightarrow> bool \<Rightarrow> ('d, 'n) token \<Rightarrow> ('d, 'n) token res option" where
  "single_step ev E C items left depth t =
     (case t of
        TNodeName p n \<Rightarrow> Some (evaluate_node E p n items depth)
      | TAxis p a n \<Rightarrow> Some (evaluate_axis E p a n items depth)
      | TAttrName p n \<Rightarrow> Some (evaluate_attribute E p n items depth)
      | TFunc p n args \<Rightarrow> Some (evaluate_func ev E C p n args left)
      | _ \<Rightarrow> None)"

fun resolve_tokens ::
  "('d, 'n) evaluator \<Rightarrow> ('d, 'n) xenv \<Rightarrow> ('d, 'n) eval_context \<Rightarrow> ('d, 'n) token list \<Rightarrow>
   ('d, 'n) token list \<Rightarrow> ('d, 'n) token list res" where
  "resolve_tokens ev E C dn [] = Inr (rev dn)"
| "resolve_tokens ev E C dn (t # ts) =
     (case t of
        TExpr p es \<Rightarrow> bindr (ev C t) (\<lambda>v. resolve_tokens ev E C (v # dn) ts)
      | TFilter p flt \<Rightarrow>
          (case dn of
             TSeq q items # dn' \<Rightarrow>
               (case flt of
                  None \<Rightarrow> Inl (UB ''null filter'')
                | Some es \<Rightarrow>
                    bindr (apply_filter ev (x_fops E) items es) (\<lambda>us.
                      resolve_tokens ev E C (TSeq q us # dn') ts))
           | _ \<Rightarrow> xpath_error ''Filters can only be applied on sequences'' (-1))
      | TSyntax p k \<Rightarrow>
          if k = SLASH \<or> k = DSLASH then
            (case ts of
               [] \<Rightarrow> xpath_error ''Missing node, attribute or function name after slash'' p
             | u # ts' \<Rightarrow>
                 let (items, dn') = step_context E dn
                 in case single_step ev E C items items (k = DSLASH) u of
                      None \<Rightarrow> xpath_error ''Missing node, attribute or function name after slash'' p
                    | Some r \<Rightarrow>
                        bindr r (\<lambda>v. resolve_tokens ev E C (set_pos (tpos u) v # dn') ts'))
          else resolve_tokens ev E C (t # dn) ts
      | _ \<Rightarrow>
          (case single_step ev E C (seq C) [] False t of
             Some r \<Rightarrow> bindr r (\<lambda>v. resolve_tokens ev E C (set_pos (tpos t) v # dn) ts)
           | None \<Rightarrow> resolve_tokens ev E C (t # dn) ts))"

section \<open>Expressions\<close>

primrec evaluate_expr :: "nat \<Rightarrow> ('d, 'n) xenv \<Rightarrow> ('d, 'n) evaluator" where
  "evaluate_expr 0 E C t = (case t of TExpr p es \<Rightarrow> Inl NoFuel | _ \<Rightarrow> Inr t)"
| "evaluate_expr (Suc k) E C t =
     (case t of
        TExpr p es \<Rightarrow>
          bindr (reduce_ops (evaluate_expr k E) E C es) (\<lambda>ts.
          bindr (resolve_tokens (evaluate_expr k E) E C [] ts) (\<lambda>vs.
            case vs of [v] \<Rightarrow> Inr (clone v) | _ \<Rightarrow> xpath_error ''Error evaluating expression'' (-1)))
      | _ \<Rightarrow> Inr t)"

text \<open>\<open>Evaluate\<close>: the context node is also what \<open>current()\<close> returns.\<close>

definition Evaluate ::
  "nat \<Rightarrow> ('d, 'n) xenv \<Rightarrow> string \<Rightarrow> 'n \<Rightarrow> ('d, 'n) token res" where
  "Evaluate k E xpath n =
     bindr (Parse (x_fops E) xpath) (\<lambda>t.
       evaluate_expr k (E\<lparr>x_custom := [TNode (-1) n]\<rparr>) (context_of [TNode (-1) n]) t)"

definition EvalParse :: "'d fops \<Rightarrow> string \<Rightarrow> ('d, 'n) token res" where
  "EvalParse F xpath = Parse F xpath"

end
