(* ===== verification/XPathParserProps.thy ===== *)
theory XPathParserProps
  imports XPathParser "HOL-Library.Sublist"
begin

text \<open>
  What the XPath parser guarantees: parentheses are matched and nothing else is lost, the only
  faults are its own exceptions (and the negative literals of the lexer), and the filters it
  attaches hold no filter, so that the engine may copy them.
\<close>

section \<open>Parentheses\<close>

fun flatten :: "('d, 'n) token list \<Rightarrow> ('d, 'n) token list" where
  "flatten [] = []"
| "flatten (TExpr p es # ts) = TSyntax 0 LPAR # flatten es @ TSyntax 0 RPAR # flatten ts"
| "flatten (t # ts) = t # flatten ts"

fun is_paren :: "('d, 'n) token \<Rightarrow> bool" where
  "is_paren (TSyntax p t) \<longleftrightarrow> t = LPAR \<or> t = RPAR"
| "is_paren _ \<longleftrightarrow> False"

text \<open>Expressions of the parser before functions, filters and paths are attached.\<close>

fun paren_expr :: "('d, 'n) token list \<Rightarrow> bool" where
  "paren_expr [] \<longleftrightarrow> True"
| "paren_expr (TExpr p es # ts) \<longleftrightarrow> p = -1 \<and> paren_expr es \<and> paren_expr ts"
| "paren_expr (t # ts) \<longleftrightarrow> \<not> is_paren t \<and> paren_expr ts"

definition erase :: "('d, 'n) token \<Rightarrow> ('d, 'n) token" where
  "erase t = (if is_paren t then set_pos 0 t else t)"

definition is_expr :: "('d, 'n) token \<Rightarrow> bool" where
  "is_expr t \<longleftrightarrow> GetType t = EXPR"

text \<open>The syntax tokens the lexer makes are the ones it has characters for.\<close>

fun lexer_syntax :: "('d, 'n) token \<Rightarrow> bool" where
  "lexer_syntax (TSyntax p t) \<longleftrightarrow> t \<in> {LPAR, RPAR, LSQ, RSQ, COMMA, SLASH, DSLASH}"
| "lexer_syntax (TExpr p es) \<longleftrightarrow> False"
| "lexer_syntax _ \<longleftrightarrow> True"

lemma lexer_syntax_not_expr: "lexer_syntax t \<Longrightarrow> \<not> is_expr t"
  by (cases t) (auto simp: is_expr_def)

lemma lpar_iff: "lexer_syntax t \<Longrightarrow> GetType t = LPAR \<longleftrightarrow> (\<exists>p. t = TSyntax p LPAR)"
  by (cases t) auto

lemma rpar_iff: "lexer_syntax t \<Longrightarrow> GetType t = RPAR \<longleftrightarrow> (\<exists>p. t = TSyntax p RPAR)"
  by (cases t) auto

lemma paren_expr_Cons:
  "lexer_syntax t \<Longrightarrow> GetType t \<noteq> LPAR \<Longrightarrow> GetType t \<noteq> RPAR \<Longrightarrow>
   paren_expr (t # ts) = paren_expr ts \<and> flatten (t # ts) = t # flatten ts \<and> erase t = t"
  by (cases t) (auto simp: erase_def)

lemma resolve_Nil [simp]: "resolve_parenthesis [] = Inr ([], [])"
  by (simp add: resolve_parenthesis.simps)

lemma resolve_rpar [simp]: "resolve_parenthesis (TSyntax p RPAR # v) = Inr ([], TSyntax p RPAR # v)"
  by (simp add: resolve_parenthesis.simps)

lemma resolve_lpar:
  "resolve_parenthesis (TSyntax p LPAR # v) =
     (case resolve_parenthesis v of
        Inl e \<Rightarrow> Inl e
      | Inr (es, []) \<Rightarrow> parser_error ''Missing closing parenthesis'' (-1)
      | Inr (es, r # rest) \<Rightarrow>
          bindr (resolve_parenthesis rest) (\<lambda>(us, rest'). Inr (TExpr (-1) es # us, rest')))"
  by (simp add: resolve_parenthesis.simps [of "TSyntax p LPAR # v"])

lemma resolve_other:
  "GetType t \<noteq> LPAR \<Longrightarrow> GetType t \<noteq> RPAR \<Longrightarrow>
   resolve_parenthesis (t # v) = bindr (resolve_parenthesis v) (\<lambda>(us, rest'). Inr (t # us, rest'))"
  by (simp add: resolve_parenthesis.simps [of "t # v"])

text \<open>Writing the parentheses and resolving them gives the expression back, whatever follows.\<close>

lemma resolve_flatten:
  assumes "paren_expr es" "rest = [] \<or> GetType (hd rest) = RPAR" "list_all lexer_syntax (flatten es)"
  shows "resolve_parenthesis (flatten es @ rest) = Inr (es, rest)"
  using assms
proof (induction es arbitrary: rest rule: flatten.induct)
  case 1
  then show ?case by (cases rest) (simp_all add: resolve_parenthesis.simps)
next
  case (2 p es ts)
  have "resolve_parenthesis (flatten es @ TSyntax 0 RPAR # flatten ts @ rest) =
      Inr (es, TSyntax 0 RPAR # flatten ts @ rest)"
    using 2(1) [of "TSyntax 0 RPAR # flatten ts @ rest"] 2(3,5) by simp
  moreover have "resolve_parenthesis (flatten ts @ rest) = Inr (ts, rest)"
    using 2(2) [of rest] 2(3-5) by simp
  ultimately show ?case using 2(3) by (simp add: resolve_lpar)
qed (use resolve_other in \<open>auto simp: resolve_other\<close>)

lemma resolve_sound:
  "resolve_parenthesis v = Inr (es, rest) \<Longrightarrow> list_all lexer_syntax v \<Longrightarrow>
   map erase v = flatten es @ map erase rest \<and> paren_expr es \<and>
   (rest = [] \<or> (\<exists>p r. rest = TSyntax p RPAR # r)) \<and> list_all lexer_syntax rest"
proof (induction "length v" arbitrary: v es rest rule: less_induct)
  case less
  show ?case
  proof (cases v)
    case (Cons t w)
    then have t: "lexer_syntax t" "list_all lexer_syntax w" using less(3) by simp_all
    consider (r) p where "t = TSyntax p RPAR" | (l) p where "t = TSyntax p LPAR"
      | (o) "GetType t \<noteq> LPAR" "GetType t \<noteq> RPAR" using lpar_iff rpar_iff t(1) by metis
    then show ?thesis
    proof cases
      case r
      then show ?thesis using less(2,3) Cons by auto
    next
      case l
      from less(2) Cons l obtain es1 q rest1 us where
        1: "resolve_parenthesis w = Inr (es1, q # rest1)"
        and 2: "resolve_parenthesis rest1 = Inr (us, rest)" and es: "es = TExpr (-1) es1 # us"
        by (auto simp: resolve_lpar parser_error_def bindr_eq_Inr split: sum.splits list.splits)
      have w: "length w < length v" using Cons by simp
      note first = less(1) [OF w 1 t(2)]
      then obtain q' where q: "q = TSyntax q' RPAR" by auto
      have rl: "length rest1 < length v"
        using arg_cong [OF conjunct1 [OF first], of length] Cons by simp
      have "list_all lexer_syntax rest1" using first by simp
      from less(1) [OF rl 2 this] first show ?thesis
        using Cons l es q by (simp add: erase_def)
    next
      case o
      from less(2) Cons o obtain us where 1: "resolve_parenthesis w = Inr (us, rest)" and es: "es = t # us"
        by (auto simp: resolve_other bindr_eq_Inr)
      have w: "length w < length v" using Cons by simp
      from less(1) [OF w 1 t(2)] paren_expr_Cons [OF t(1) o] Cons es show ?thesis by simp
    qed
  qed (use less(2) in simp)
qed

lemma resolve_erase:
  "list_all lexer_syntax v \<Longrightarrow>
   resolve_parenthesis (map erase v) =
     (case resolve_parenthesis v of Inl e \<Rightarrow> Inl e | Inr (es, rest) \<Rightarrow> Inr (es, map erase rest))"
proof (induction "length v" arbitrary: v rule: less_induct)
  case less
  show ?case
  proof (cases v)
    case (Cons t w)
    then have t: "lexer_syntax t" "list_all lexer_syntax w" using less(2) by simp_all
    have IH: "resolve_parenthesis (map erase w) =
        (case resolve_parenthesis w of Inl e \<Rightarrow> Inl e | Inr (es, rest) \<Rightarrow> Inr (es, map erase rest))"
      by (rule less(1)) (use Cons t in simp_all)
    consider (r) p where "t = TSyntax p RPAR" | (l) p where "t = TSyntax p LPAR"
      | (o) "GetType t \<noteq> LPAR" "GetType t \<noteq> RPAR" using lpar_iff rpar_iff t(1) by metis
    then show ?thesis
    proof cases
      case r
      then show ?thesis using Cons by (simp add: erase_def)
    next
      case l
      show ?thesis
      proof (cases "resolve_parenthesis w")
        case (Inl e)
        then show ?thesis using IH Cons l by (simp add: erase_def resolve_lpar)
      next
        case (Inr x)
        obtain es rest where x: "x = (es, rest)" by (cases x)
        show ?thesis
        proof (cases rest)
          case Nil
          then show ?thesis using IH Cons l Inr x by (simp add: erase_def resolve_lpar parser_error_def)
        next
          case c: (Cons q rest1)
          note first = resolve_sound [OF Inr [unfolded x c] t(2)]
          have "resolve_parenthesis (map erase rest1) = (case resolve_parenthesis rest1 of
              Inl e \<Rightarrow> Inl e | Inr (es, rest) \<Rightarrow> Inr (es, map erase rest))"
          proof (rule less(1))
            show "length rest1 < length v"
              using arg_cong [OF conjunct1 [OF first], of length] Cons by simp
            show "list_all lexer_syntax rest1" using first by simp
          qed
          then show ?thesis using IH Cons l Inr x c
            by (cases "resolve_parenthesis rest1") (auto simp: erase_def resolve_lpar)
        qed
      qed
    next
      case o
      then have "erase t = t" using paren_expr_Cons [OF t(1)] by blast
      then show ?thesis using IH Cons o
        by (cases "resolve_parenthesis w") (auto simp: resolve_other)
    qed
  qed simp
qed

text \<open>Parentheses: for a token list of the lexer, the parser builds the expression \<open>es\<close> and
  consumes all of the list exactly when the list is \<open>es\<close> written out with its parentheses; so it
  succeeds on the well-parenthesised lists only, and loses, adds and moves no other token.\<close>

theorem resolve_parenthesis_iff:
  assumes "list_all lexer_syntax v"
  shows "resolve_parenthesis v = Inr (es, []) \<longleftrightarrow> paren_expr es \<and> map erase v = flatten es"
proof
  assume "resolve_parenthesis v = Inr (es, [])"
  from resolve_sound [OF this assms] show "paren_expr es \<and> map erase v = flatten es" by simp
next
  assume *: "paren_expr es \<and> map erase v = flatten es"
  have syn: "lexer_syntax t \<Longrightarrow> lexer_syntax (erase t)" for t :: "('a, 'b) token"
    by (cases t) (auto simp: erase_def)
  have "list_all lexer_syntax (map erase v)" using assms syn by (simp add: list_all_iff)
  then have "list_all lexer_syntax (flatten es)" using * by simp
  with * resolve_flatten [of es "[]"] have "resolve_parenthesis (map erase v) = Inr (es, [])" by simp
  then show "resolve_parenthesis v = Inr (es, [])"
    unfolding resolve_erase [OF assms] by (auto split: sum.splits prod.splits)
qed

theorem resolve_parenthesis_iff_witness:
  "resolve_parenthesis [TNodeName 1 ''a'', TSyntax 3 LPAR, TSyntax 4 RPAR :: (int, nat) token] =
     Inr ([TNodeName 1 ''a'', TExpr (-1) []], [])"
  by (subst resolve_parenthesis_iff) (simp_all add: erase_def)

section \<open>What the lexer can produce\<close>

lemma parse_token_kind:
  assumes "parse_token F p r = Inr (Some t, r')"
  shows "lexer_syntax t \<and> no_filter t \<and> (\<forall>q n args. t = TFunc q n args \<longrightarrow> args = [])"
  using assms unfolding parse_token_def Let_def
  by (auto simp: lex_string_def lex_number_def lex_name_def lex_error_def stoi_def Let_def
      split: if_splits option.splits prod.splits)

definition lexer_token :: "('d, 'n) token \<Rightarrow> bool" where
  "lexer_token t \<longleftrightarrow> lexer_syntax t \<and> no_filter t"

lemma parse_from_induct:
  assumes "parse_from F p r = Inr (ts :: ('d, 'n) token list)"
    and "\<And>p r t r'. parse_token F p r = Inr (Some t, r') \<Longrightarrow> P (t :: ('d, 'n) token)"
  shows "list_all P ts"
  using assms(1)
proof (induction "length r" arbitrary: p r ts rule: less_induct)
  case (less r p)
  note unfolded = less(2) [unfolded parse_from.simps [of F p r]]
  show ?case
  proof (cases "r = []")
    case False
    then obtain t :: "('d, 'n) token option" and r' where t: "parse_token F p r = Inr (t, r')"
      using unfolded by (auto split: sum.splits)
    show ?thesis
    proof (cases t)
      case None
      then show ?thesis using unfolded t False by simp
    next
      case (Some u)
      then obtain us where us: "parse_from F (p + (length r - length r')) r' = Inr us" "ts = u # us"
        using unfolded t False by (auto simp: bindr_eq_Inr)
      have "length r' < length r" using parse_token_progress t Some by metis
      from less(1) [OF this us(1)] us(2) assms(2) [OF t [unfolded Some]] show ?thesis by simp
    qed
  qed (use unfolded in simp)
qed

lemma parse_expr_tokens: "parse_expr F s = Inr ts \<Longrightarrow> list_all lexer_token ts"
  unfolding parse_expr_def lexer_token_def
  by (erule parse_from_induct) (use parse_token_kind in blast)

section \<open>Faults\<close>

definition parser_fault :: "fault \<Rightarrow> bool" where
  "parser_fault e \<longleftrightarrow> (\<exists>m. e = Exn ''XPath Parser'' m [])"

text \<open>A minus sign directly before a digit.\<close>

fun negative_literal :: "string \<Rightarrow> bool" where
  "negative_literal (a # b # r) \<longleftrightarrow> a = CHR ''-'' \<and> isdigit b \<or> negative_literal (b # r)"
| "negative_literal _ \<longleftrightarrow> False"

lemma negative_literal_suffix: "negative_literal r' \<Longrightarrow> suffix r' r \<Longrightarrow> negative_literal r"
proof -
  have "negative_literal r' \<Longrightarrow> negative_literal (xs @ r')" for xs
  proof (induction xs)
    case (Cons x xs)
    then have "negative_literal (xs @ r')" by simp
    then show ?case by (cases "xs @ r'") auto
  qed simp
  then show "negative_literal r' \<Longrightarrow> suffix r' r \<Longrightarrow> negative_literal r" by (auto simp: suffix_def)
qed

lemma suffix_skip_spaces: "suffix (skip_spaces r) r"
  by (simp add: skip_spaces_def suffix_dropWhile)

lemma suffix_tl_trans: "suffix r' (tl r) \<Longrightarrow> suffix r' r"
  by (rule suffix_order.trans [OF _ suffix_tl])

lemma scan_name_suffix: "scan_name r ax buf buf2 = Some (b, b2, a, r') \<Longrightarrow> suffix r' r"
proof (induction r ax buf buf2 arbitrary: b b2 a r' rule: scan_name.induct)
  case (2 c r ax buf buf2)
  have "suffix r' r \<Longrightarrow> suffix r' (c # r)" by (rule suffix_ConsI)
  moreover have "suffix r' (drop 1 r) \<Longrightarrow> suffix r' (c # r)"
    by (meson suffix_ConsI suffix_drop suffix_order.trans)
  moreover have "suffix (drop 2 r) (c # r)" by (meson suffix_ConsI suffix_drop)
  ultimately show ?case using 2 by (auto split: if_splits)
qed simp

lemma scan_number_suffix: "scan_number r fl = Some (b, f, r') \<Longrightarrow> suffix r' r"
  by (auto dest!: scan_number_length simp: suffix_def)

lemma lex_name_suffix: "lex_name base r = Inr (t, r') \<Longrightarrow> suffix r' r"
proof -
  assume l: "lex_name base r = Inr (t, r')"
  show ?thesis
  proof (cases "take 2 r = ''..'' \<or> cur r = CHR ''.'' \<or> take 2 r = ''@*''")
    case True
    with l show ?thesis by (auto simp: lex_name_def Let_def suffix_drop split: if_splits)
  next
    case False
    let ?r1 = "if cur r = CHR ''@'' then drop 1 r else r"
    obtain buf buf2 ax r2 where sc: "scan_name ?r1 False [] [] = Some (buf, buf2, ax, r2)"
      and r': "r' = skip_spaces r2"
      using l False by (auto simp: lex_name_def Let_def lex_error_def split: option.splits if_splits)
    have "suffix ?r1 r" by (simp add: suffix_drop suffix_tl)
    with scan_name_suffix [OF sc] suffix_skip_spaces [of r2] r' show ?thesis
      by (meson suffix_order.trans)
  qed
qed

lemma lex_string_suffix: "lex_string base r = Inr (t, r') \<Longrightarrow> suffix r' r"
  by (auto simp: lex_string_def lex_error_def Let_def split: if_splits)
    (meson suffix_dropWhile suffix_order.trans suffix_tl)

lemma lex_number_suffix: "lex_number F base r = Inr (t, r') \<Longrightarrow> suffix r' r"
  by (auto simp: lex_number_def lex_error_def stoi_def dest: scan_number_suffix
      split: if_splits option.splits prod.splits)

definition leaves :: "string \<Rightarrow> ('d, 'n) lexed \<Rightarrow> bool" where
  "leaves r x \<longleftrightarrow> (\<forall>t r'. x = Inr (t, r') \<longrightarrow> suffix r' r)"

lemma leaves_if: "leaves r x \<Longrightarrow> leaves r y \<Longrightarrow> leaves r (if b then x else y)"
  by simp

lemma leaves_leaf:
  "leaves r (lexed t (drop n r))" "leaves r (Inr (None, []))" "leaves r (lex_name base r)"
  "leaves r (lex_string base r)" "leaves r (lex_number F base r)"
  by (simp_all add: leaves_def suffix_drop lex_name_suffix lex_string_suffix lex_number_suffix)

lemma parse_token_suffix:
  assumes "parse_token F p r = Inr (t :: ('d, 'n) token option, r')"
  shows "suffix r' r"
proof -
  have "leaves (skip_spaces r) (parse_token F p r :: ('d, 'n) lexed)"
    unfolding parse_token_def Let_def by (intro leaves_if leaves_leaf)
  with assms have "suffix r' (skip_spaces r)" by (simp add: leaves_def)
  then show ?thesis using suffix_skip_spaces suffix_order.trans by blast
qed

definition parser_faults :: "'a res \<Rightarrow> bool" where
  "parser_faults x \<longleftrightarrow> (\<forall>e. x = Inl e \<longrightarrow> parser_fault e)"

lemma parser_faults_if: "parser_faults x \<Longrightarrow> parser_faults y \<Longrightarrow> parser_faults (if b then x else y)"
  by simp

lemma parser_faults_error [simp]: "parser_faults (lex_error what base)" "parser_faults (parser_error what p)"
  by (simp_all add: parser_faults_def lex_error_def parser_error_def parser_fault_def)

lemma parser_faults_Inr [simp]: "parser_faults (Inr x)"
  by (simp add: parser_faults_def)

lemma parser_faults_Inl [simp]: "parser_faults (Inl e) = parser_fault e"
  by (simp add: parser_faults_def)

lemma parser_faults_bindr:
  "parser_faults m \<Longrightarrow> (\<And>x. m = Inr x \<Longrightarrow> parser_faults (f x)) \<Longrightarrow> parser_faults (bindr m f)"
  by (cases m) (auto simp: parser_faults_def)

lemma parser_faults_lex:
  "parser_faults (lex_string base r)" "parser_faults (lex_name base r)"
  "cur r \<noteq> CHR ''-'' \<Longrightarrow> parser_faults (lex_number F base r)"
  by (auto simp: lex_string_def lex_name_def lex_number_def stoi_def Let_def
      split: option.splits prod.splits)

lemma parse_token_fault:
  assumes "(parse_token F p r :: ('d, 'n) lexed) = Inl e"
  shows "parser_fault e \<or> (\<exists>u. e = UB u) \<and> negative_literal r"
proof (cases "skip_spaces r")
  case (Cons c cs)
  consider "c = CHR ''-''" "cs \<noteq> []" "isdigit (hd cs)" | "c = CHR ''-''" "cs = [] \<or> \<not> isdigit (hd cs)" | "c \<noteq> CHR ''-''"
    by blast
  then show ?thesis
  proof cases
    case 1
    then have "negative_literal (skip_spaces r)" using Cons by (cases cs) auto
    then have neg: "negative_literal r" using negative_literal_suffix suffix_skip_spaces by blast
    have "e = UB ''read beyond the object pos points to''"
      using assms 1 Cons by (cases cs) (auto simp: parse_token_def Let_def lex_number_def at_def isdigit_def byte_def)
    with neg show ?thesis by blast
  next
    case 2
    then show ?thesis using assms Cons by (cases cs) (auto simp: parse_token_def Let_def at_def)
  next
    case 3
    then have "cur (skip_spaces r) \<noteq> CHR ''-''" using Cons by (simp add: at_def)
    then have "parser_faults (parse_token F p r :: ('d, 'n) lexed)" unfolding parse_token_def Let_def
      by (intro parser_faults_if parser_faults_lex parser_faults_Inr)
    then show ?thesis using assms by (simp add: parser_faults_def)
  qed
qed (use assms in \<open>simp add: parse_token_def\<close>)

lemma parse_from_fault:
  "(parse_from F p r :: ('d, 'n) token list res) = Inl e \<Longrightarrow>
   parser_fault e \<or> (\<exists>u. e = UB u) \<and> negative_literal r"
proof (induction "length r" arbitrary: p r rule: less_induct)
  case (less r p)
  note unfolded = less(2) [unfolded parse_from.simps [of F p r]]
  show ?case
  proof (cases "parse_token F p r :: ('d, 'n) lexed")
    case (Inl e')
    then show ?thesis using parse_token_fault [OF Inl] unfolded by (auto split: if_splits)
  next
    case (Inr x)
    obtain t r' where x: "x = (t, r')" by (cases x)
    obtain u where u: "t = Some u" using unfolded Inr x by (cases t) (auto split: if_splits)
    have "(parse_from F (p + (length r - length r')) r' :: ('d, 'n) token list res) = Inl e"
      using unfolded Inr x u by (auto simp: bindr_eq_Inl split: if_splits)
    moreover have "length r' < length r" using parse_token_progress Inr x u by metis
    ultimately show ?thesis
      using less(1) [of r'] negative_literal_suffix [OF _ parse_token_suffix [OF Inr [unfolded x]]] by blast
  qed
qed

lemma resolve_faults: "parser_faults (resolve_parenthesis v)"
proof (induction v rule: resolve_parenthesis.induct)
  case (1 v)
  then show ?case
    by (subst resolve_parenthesis.simps)
      (auto intro!: parser_faults_bindr split: list.splits sum.splits, blast)
qed

lemma prepare_functions_faults:
  "parser_faults (prepare_functions (v :: ('d, 'n) token list))"
  "parser_faults (prepare_params p (ps :: ('d, 'n) token list) cr)"
proof (induction v and p ps cr rule: prepare_functions_prepare_params.induct)
  case (1 v)
  then show ?case
    by (subst prepare_functions.simps) (auto intro!: parser_faults_bindr split: list.splits token.splits)
next
  case (2 p ps cr)
  then show ?case
    by (subst prepare_params.simps) (auto intro!: parser_faults_bindr split: list.splits)
qed

lemma parser_faults_mapr: "(\<And>x. x \<in> set xs \<Longrightarrow> parser_faults (f x)) \<Longrightarrow> parser_faults (mapr f xs)"
  by (induction xs) (auto intro!: parser_faults_bindr)

lemma prepare_filters_Nil [simp]: "prepare_filters [] = Inr []"
  by (simp add: prepare_filters.simps)

lemma prepare_filters_lsq:
  "GetType t = LSQ \<Longrightarrow> prepare_filters (t # ts) =
     (if dropWhile not_rsq ts = [] then parser_error ''Missing closing square on filter'' (tpos t)
      else if takeWhile not_rsq ts = [] then parser_error ''Empty filter'' (tpos t)
      else bindr (prepare_filters (tl (dropWhile not_rsq ts)))
             (\<lambda>us. Inr (TFilter (-1) (Some (takeWhile not_rsq ts)) # us)))"
  by (subst prepare_filters.simps) (simp only: list.case Let_def if_True simp_thms)

definition filter_inner :: "('d, 'n) token \<Rightarrow> ('d, 'n) token res" where
  "filter_inner t =
     (case t of
        TFunc p n args \<Rightarrow> bindr (mapr prepare_filters args) (\<lambda>as. Inr (TFunc p n as))
      | TExpr p es \<Rightarrow> bindr (prepare_filters es) (\<lambda>es'. Inr (TExpr p es'))
      | _ \<Rightarrow> Inr t)"

lemma prepare_filters_other:
  "GetType t \<noteq> LSQ \<Longrightarrow> prepare_filters (t # ts) =
     bindr (filter_inner t) (\<lambda>t'. bindr (prepare_filters ts) (\<lambda>us. Inr (t' # us)))"
  by (subst prepare_filters.simps) (simp only: list.case if_False filter_inner_def)

lemma prepare_filters_induct [case_names Nil Lsq Other]:
  assumes "P []"
    and "\<And>t ts. GetType t = LSQ \<Longrightarrow> P (tl (dropWhile not_rsq ts)) \<Longrightarrow> P (t # ts)"
    and "\<And>t ts. GetType t \<noteq> LSQ \<Longrightarrow> (\<And>p n args a. t = TFunc p n args \<Longrightarrow> a \<in> set args \<Longrightarrow> P a) \<Longrightarrow>
           (\<And>p es. t = TExpr p es \<Longrightarrow> P es) \<Longrightarrow> P ts \<Longrightarrow> P (t # ts)"
  shows "P v"
proof (induction "size_list size v" arbitrary: v rule: less_induct)
  case less
  show ?case
  proof (cases v)
    case (Cons t ts)
    have "size_list size (tl (dropWhile not_rsq ts)) \<le> size_list size ts"
      using size_list_tl size_list_dropWhile by (rule order_trans)
    then have tail: "P (tl (dropWhile not_rsq ts))" "P ts" using less Cons by simp_all
    have "P a" if "t = TFunc p n args" "a \<in> set args" for p n args a
      using less [of a] Cons that size_list_mem [of a args "size_list size"] by simp
    moreover have "P es" if "t = TExpr p es" for p es
      using less [of es] Cons that by simp
    ultimately show ?thesis using assms(2,3) tail Cons by (cases "GetType t = LSQ") auto
  qed (use assms(1) in simp)
qed

lemma prepare_filters_faults: "parser_faults (prepare_filters v)"
proof (induction v rule: prepare_filters_induct)
  case (Lsq t ts)
  then show ?case by (simp add: prepare_filters_lsq parser_faults_bindr)
next
  case (Other t ts)
  have "parser_faults (filter_inner t)" unfolding filter_inner_def
    using Other(2,3) by (auto intro!: parser_faults_bindr parser_faults_mapr split: token.splits)
  with Other(1,4) show ?case by (auto simp: prepare_filters_other intro!: parser_faults_bindr)
qed simp



section \<open>Filters do not nest\<close>

fun filters_flat :: "('d, 'n) token \<Rightarrow> bool" where
  "filters_flat (TFilter p (Some es)) \<longleftrightarrow> list_all no_filter es"
| "filters_flat (TFilter p None) \<longleftrightarrow> False"
| "filters_flat (TExpr p es) \<longleftrightarrow> list_all filters_flat es"
| "filters_flat (TFunc p n args) \<longleftrightarrow> list_all (list_all filters_flat) args"
| "filters_flat (TSeq p es) \<longleftrightarrow> list_all filters_flat es"
| "filters_flat _ \<longleftrightarrow> True"

lemma no_filter_flat: "no_filter t \<Longrightarrow> filters_flat t"
  by (induction t rule: no_filter.induct) (auto simp: list_all_iff)

lemma resolve_no_filter:
  "resolve_parenthesis v = Inr (es, rest) \<Longrightarrow> list_all no_filter v \<Longrightarrow>
   list_all no_filter es \<and> list_all no_filter rest"
proof (induction v arbitrary: es rest rule: resolve_parenthesis.induct)
  case (1 v)
  note unfolded = 1(4) [unfolded resolve_parenthesis.simps [of v]]
  show ?case
  proof (cases v)
    case (Cons t w)
    consider "GetType t = RPAR" | "GetType t = LPAR" | "GetType t \<noteq> RPAR" "GetType t \<noteq> LPAR" by blast
    then show ?thesis
    proof cases
      case 1
      then show ?thesis using unfolded Cons \<open>list_all no_filter v\<close> by auto
    next
      case l: 2
      then obtain es1 q rest1 us where r: "resolve_parenthesis w = Inr (es1, q # rest1)"
        "resolve_parenthesis rest1 = Inr (us, rest)" "es = TExpr (-1) es1 # us"
        using unfolded Cons by (auto simp: parser_error_def bindr_eq_Inr split: sum.splits list.splits)
      then show ?thesis using 1(1) [OF Cons _ l r(1)] 1(2) [OF Cons _ l r(1) _ _ r(2)] Cons l 1(5) by auto
    next
      case 3
      then obtain us where "resolve_parenthesis w = Inr (us, rest)" "es = t # us"
        using unfolded Cons by (auto simp: bindr_eq_Inr)
      then show ?thesis using 1(3) [OF Cons 3] Cons 1(5) by auto
    qed
  qed (use unfolded in simp)
qed

lemma disambiguish_mult_no_filter:
  "list_all no_filter ts \<Longrightarrow> list_all no_filter (disambiguish_mult prev ts)"
  by (induction prev ts rule: disambiguish_mult.induct) simp_all

lemma operator_or_no_filter: "no_filter t \<Longrightarrow> no_filter (operator_or prev n t)"
  by (simp add: operator_or_def split: option.splits)

lemma disambiguish_operators_no_filter:
  "list_all no_filter ts \<Longrightarrow> list_all no_filter (disambiguish_operators prev ts)"
  by (induction prev ts rule: disambiguish_operators.induct)
    (simp_all add: Let_def operator_or_no_filter)

lemma prepare_functions_no_filter:
  "prepare_functions v = Inr w \<Longrightarrow> list_all no_filter (v :: ('d, 'n) token list) \<Longrightarrow> list_all no_filter w"
  "prepare_params p ps cr = Inr as \<Longrightarrow> list_all no_filter (ps :: ('d, 'n) token list) \<Longrightarrow>
   list_all no_filter cr \<Longrightarrow> list_all (list_all no_filter) as"
proof (induction v and p ps cr arbitrary: w and as rule: prepare_functions_prepare_params.induct)
  case (1 v)
  from 1(17) show ?case
    using 1(1-16,18)
    by (subst (asm) prepare_functions.simps)
      (auto simp: bindr_eq_Inr parser_error_def split: list.splits token.splits if_splits)
next
  case (2 p ps cr)
  from 2(5) show ?case
    using 2(1-4,6,7)
    by (subst (asm) prepare_params.simps)
      (auto simp: bindr_eq_Inr parser_error_def split: list.splits if_splits)
qed

lemma mapr_all:
  "mapr f xs = Inr ys \<Longrightarrow> \<forall>x \<in> set xs. \<forall>y. f x = Inr y \<longrightarrow> P y \<Longrightarrow> list_all P ys"
  by (induction xs arbitrary: ys) (auto simp: bindr_eq_Inr)

lemma takeWhile_list_all_of: "list_all P ts \<Longrightarrow> list_all P (takeWhile Q ts)"
  by (induction ts) auto

lemma dropWhile_list_all_of: "list_all P ts \<Longrightarrow> list_all P (tl (dropWhile Q ts))"
  by (induction ts) auto

lemma prepare_filters_flat:
  "prepare_filters v = Inr w \<Longrightarrow> list_all no_filter v \<Longrightarrow> list_all filters_flat w"
proof (induction v arbitrary: w rule: prepare_filters_induct)
  case (Lsq t ts)
  then show ?case
    by (auto simp: prepare_filters_lsq bindr_eq_Inr parser_error_def takeWhile_list_all_of
        dropWhile_list_all_of split: if_splits)
next
  case (Other t ts)
  from Other(5) obtain t' us where *: "filter_inner t = Inr t'" "prepare_filters ts = Inr us" "w = t' # us"
    using Other(1) by (auto simp: prepare_filters_other bindr_eq_Inr)
  have "filters_flat t'"
  proof (cases t)
    case (TFunc p n args)
    then obtain as where as: "mapr prepare_filters args = Inr as" "t' = TFunc p n as"
      using *(1) by (auto simp: filter_inner_def bindr_eq_Inr)
    have "list_all (list_all filters_flat) as"
      by (rule mapr_all [OF as(1)]) (use Other(2) [OF TFunc] Other(6) TFunc in \<open>auto simp: list_all_iff\<close>)
    then show ?thesis using as by simp
  next
    case (TExpr p es)
    then show ?thesis using *(1) Other(3) [OF TExpr] Other(6) by (auto simp: filter_inner_def bindr_eq_Inr)
  qed (use *(1) Other(6) in \<open>auto simp: filter_inner_def dest: no_filter_flat\<close>)
  then show ?case using * Other(4,6) by simp
qed simp

lemma path_inner_no_filter:
  "(\<And>p n args a. t = TFunc p n args \<Longrightarrow> a \<in> set args \<Longrightarrow> list_all no_filter a \<Longrightarrow>
      list_all no_filter (prepare_paths [] a)) \<Longrightarrow> no_filter t \<Longrightarrow> no_filter (path_inner t)"
  by (cases t) (auto simp: path_inner_def list_all_iff)

lemma prepare_paths_no_filter:
  "list_all no_filter run \<Longrightarrow> list_all no_filter v \<Longrightarrow> list_all no_filter (prepare_paths run v)"
proof (induction run v rule: prepare_paths.induct)
  case (1 run v)
  note simps = prepare_paths.simps [of run v, folded path_inner_def]
  show ?case
  proof (cases v)
    case Nil
    then show ?thesis unfolding simps using 1(9) by simp
  next
    case (Cons t ts)
    then have t: "no_filter t" "list_all no_filter ts" using 1(10) by simp_all
    consider "is_path t" | "\<not> is_path t" "run = []" | "\<not> is_path t" "run \<noteq> []" by blast
    then show ?thesis
    proof cases
      case p: 1
      have "no_filter (path_inner t)"
        by (rule path_inner_no_filter [OF _ t(1)]) (use 1(2) [OF Cons p] in auto)
      then have "list_all no_filter (run @ [path_inner t])" using 1(9) by simp
      from 1(3) [OF Cons p, folded path_inner_def, OF this t(2)] show ?thesis
        unfolding simps using Cons p by simp
    next
      case 2
      then show ?thesis unfolding simps using 1(4,5) [OF Cons 2] t Cons by (auto split: token.splits)
    next
      case 3
      then show ?thesis unfolding simps using 1(6,7,8) [OF Cons 3] 1(9) t Cons by (auto split: token.splits)
    qed
  qed
qed

lemma prepare_paths_filters_flat:
  "list_all filters_flat run \<Longrightarrow> list_all filters_flat v \<Longrightarrow> list_all filters_flat (prepare_paths run v)"
proof (induction run v rule: prepare_paths.induct)
  case (1 run v)
  note simps = prepare_paths.simps [of run v, folded path_inner_def]
  show ?case
  proof (cases v)
    case Nil
    then show ?thesis unfolding simps using 1(9) by simp
  next
    case (Cons t ts)
    then have t: "filters_flat t" "list_all filters_flat ts" using 1(10) by simp_all
    consider "is_path t" | "\<not> is_path t" "run = []" | "\<not> is_path t" "run \<noteq> []" by blast
    then show ?thesis
    proof cases
      case p: 1
      have "filters_flat (path_inner t)"
      proof (cases t)
        case (TFunc q n args)
        then show ?thesis using 1(2) [OF Cons p TFunc] t(1) by (auto simp: path_inner_def list_all_iff)
      next
        case (TFilter q r)
        then obtain es where "r = Some es" using t(1) by (cases r) auto
        then show ?thesis using t(1) TFilter prepare_paths_no_filter [of "[]" es] by (simp add: path_inner_def)
      qed (use t(1) in \<open>simp_all add: path_inner_def\<close>)
      then have "list_all filters_flat (run @ [path_inner t])" using 1(9) by simp
      from 1(3) [OF Cons p, folded path_inner_def, OF this t(2)] show ?thesis
        unfolding simps using Cons p by simp
    next
      case 2
      then show ?thesis unfolding simps using 1(4,5) [OF Cons 2] t Cons by (auto split: token.splits)
    next
      case 3
      then show ?thesis unfolding simps using 1(6,7,8) [OF Cons 3] 1(9) t Cons by (auto split: token.splits)
    qed
  qed
qed

text \<open>In a parsed expression no filter holds another filter, at any depth. So the copies the
  evaluator makes of a filter for each node, with the copy constructor that loses the expression of
  a filter, are exact.\<close>

theorem Parse_filters_flat:
  assumes "Parse F s = Inr t"
  shows "filters_flat t"
proof -
  from assms obtain v es e1 e2 where *: "parse_expr F s = Inr v" "resolve_parenthesis v = Inr (es, [])"
    "prepare_functions (disambiguish_operators None (disambiguish_mult None es)) = Inr e1"
    "prepare_filters e1 = Inr e2" "t = TExpr (-1) (prepare_paths [] e2)"
    by (auto simp: Parse_def bindr_eq_Inr parser_error_def split: if_splits)
  have "list_all no_filter v" using parse_expr_tokens [OF *(1)] by (simp add: lexer_token_def list_all_iff)
  then have "list_all no_filter es" using resolve_no_filter [OF *(2)] by simp
  then have "list_all no_filter e1"
    using prepare_functions_no_filter(1) [OF *(3)] disambiguish_operators_no_filter
      disambiguish_mult_no_filter by blast
  from prepare_filters_flat [OF *(4) this] prepare_paths_filters_flat [of "[]" e2] *(5)
  show ?thesis by simp
qed

lemma sample_parse: "case (Parse int_fops ''//a[@n=1]/b'' :: (int, nat) token res) of Inl _ \<Rightarrow> False | Inr t \<Rightarrow> True"
  by code_simp

theorem Parse_filters_flat_witness:
  "\<exists>t :: (int, nat) token. Parse int_fops ''//a[@n=1]/b'' = Inr t \<and> filters_flat t"
  using sample_parse Parse_filters_flat [of int_fops "''//a[@n=1]/b''" "t :: (int, nat) token" for t]
  by (auto split: sum.splits)

lemma filters_flat_clone:
  "filters_flat (TFilter p r) \<Longrightarrow> \<exists>es. r = Some es \<and> map clone es = es"
  by (cases r) (auto simp: list_all_iff clone_no_filter intro!: map_idI)

end
