(* ===== verification/XPathEvalProps.thy ===== *)
theory XPathEvalProps
  imports XPathEval XPathParserProps
begin

text \<open>
  What the evaluator guarantees: the depth of the expression and of the document bound its
  recursion, the operators are applied as their priorities say, filters select positions. The last
  section shows two things that do not work: \<open><=\<close> and \<open>>=\<close>, and comparing the result of a path.
\<close>

section \<open>Enough fuel\<close>

definition fueled :: "'a res \<Rightarrow> bool" where
  "fueled m \<longleftrightarrow> m \<noteq> Inl NoFuel"

lemma fueled_simps [simp]:
  "fueled (Inr x)" "fueled (Inl (Exn c e k))" "fueled (Inl (UB u))" "fueled (Inl (StdExn s))"
  "\<not> fueled (Inl NoFuel)"
  by (simp_all add: fueled_def)

lemma fueled_bindr: "fueled m \<Longrightarrow> (\<And>x. m = Inr x \<Longrightarrow> fueled (f x)) \<Longrightarrow> fueled (bindr m f)"
  by (cases m) (auto simp: fueled_def)

lemma fueled_catch_exn: "fueled m \<Longrightarrow> (\<And>c e k. fueled (h c e k)) \<Longrightarrow> fueled (catch_exn m h)"
  by (cases "(m, h)" rule: catch_exn.cases) auto

lemma fueled_catch_all: "fueled m \<Longrightarrow> fueled h \<Longrightarrow> fueled (catch_all m h)"
  by (cases "(m, h)" rule: catch_all.cases) auto

lemma fueled_mapr: "(\<And>x. x \<in> set xs \<Longrightarrow> fueled (f x)) \<Longrightarrow> fueled (mapr f xs)"
  by (induction xs) (auto intro!: fueled_bindr)

lemma fueled_if: "fueled a \<Longrightarrow> fueled b \<Longrightarrow> fueled (if c then a else b)"
  by simp

lemma fueled_option: "fueled a \<Longrightarrow> (\<And>x. fueled (f x)) \<Longrightarrow> fueled (case m of None \<Rightarrow> a | Some x \<Rightarrow> f x)"
  by (cases m) simp_all

lemma fueled_errors [simp]:
  "fueled (cast_error w p)" "fueled (xpath_error w p)" "fueled (func_error w w2)" "fueled (operator_error opr w)"
  by (simp_all add: cast_error_def xpath_error_def func_error_def operator_error_def)

lemmas fueled_intros = fueled_bindr fueled_catch_exn fueled_catch_all fueled_mapr

lemma fueled_stoi [simp]: "fueled (stoi s)"
  by (simp add: stoi_def split: option.splits)

lemma fueled_casts [simp]: "fueled (cast_string_to_int p s)" "fueled (cast_string_to_double F p s)"
  by (auto simp: cast_string_to_int_def cast_string_to_double_def Let_def intro!: fueled_intros
      split: option.splits)

lemma fueled_add_position: "fueled m \<Longrightarrow> fueled (add_position p m)"
  by (auto simp: add_position_def intro!: fueled_intros)

lemma fueled_to_int [simp]: "fueled (to_int F D t)"
  by (induction F D t rule: to_int.induct) (auto intro!: fueled_add_position split: option.splits)

lemma fueled_to_double [simp]: "fueled (to_double F D t)"
  by (induction F D t rule: to_double.induct) (auto intro!: fueled_add_position fueled_bindr)

lemma fueled_to_str [simp]: "fueled (to_str F D t)"
  by (induction F D t rule: to_str.induct) (auto intro!: fueled_add_position)

lemma fueled_to_node [simp]: "fueled (to_node t)"
  by (induction t rule: to_node.induct) auto

lemma fueled_int_ck [simp]: "fueled (int_ck i)" "fueled (c_mod i j)"
  by (simp_all add: int_ck_def c_mod_def)

lemma fueled_calc [simp]: "fueled (operator_calc F D opr l r)"
  by (auto simp: operator_calc_def try_all_def calc_int_def calc_double_def intro!: fueled_intros
      split: option.splits)

lemma fueled_any [simp]: "(\<And>t. fueled (f t)) \<Longrightarrow> fueled (any_item f ts)"
  by (induction ts) (auto simp: try_all_def intro!: fueled_intros)

lemma fueled_any_same [simp]: "fueled (any_same F D x ys)"
  by (induction ys) (auto intro!: fueled_intros)

lemma fueled_any_pair [simp]: "fueled (any_pair F D xs ys)"
  by (induction xs) (auto intro!: fueled_intros)

lemma fueled_eq_items [simp]: "fueled (eq_items F D l r)"
proof -
  have str: "fueled (bindr (to_str F D t) (\<lambda>x. Inr (P x)))" for t P by (rule fueled_bindr) simp_all
  have int: "fueled (bindr (to_int F D t) (\<lambda>x. Inr (P x)))" for t P by (rule fueled_bindr) simp_all
  have dbl: "fueled (bindr (to_double F D t) (\<lambda>x. Inr (P x)))" for t P by (rule fueled_bindr) simp_all
  show ?thesis by (cases l; cases r) (simp_all add: eq_items_def str int dbl)
qed

lemma fueled_eq_value [simp]: "fueled (eq_value F D l r)"
  unfolding eq_value_def Let_def or_false_def
  by (intro fueled_option fueled_if fueled_catch_all fueled_bindr fueled_simps fueled_to_int
      fueled_to_double fueled_eq_items)

lemma fueled_op_impl [simp]: "fueled (op_impl F D opr l r)"
proof -
  have "fueled (bool_operator opr' nm f l r)" for opr' nm f
    by (cases l; cases r) (simp_all add: bool_operator_def)
  then show ?thesis by (cases opr) (auto simp: compare_double_def intro!: fueled_intros)
qed

text \<open>The functions of the engine; a registered function is assumed to behave as well.\<close>

lemma fueled_extremum: "fueled (extremum nm F D better c args)"
proof -
  have "fueled (extremum_loop F D better m ts)" for m ts
    by (induction F D better m ts rule: extremum_loop.induct)
      (auto simp: trunc_int_def intro!: fueled_intros split: option.splits)
  then show ?thesis
    by (auto simp: extremum_def trunc_int_def intro!: fueled_intros split: list.splits token.splits option.splits)
qed

lemma fueled_builtin: "builtin_func F D name = Some f \<Longrightarrow> fueled (f c args)"
  by (auto simp: builtin_func_def fntrue_def fnfalse_def fnnot_def fnname_def names_of_def fncount_def
      fnmin_def fnmax_def fueled_extremum fnposition_def fnlast_def fnstring_length_def
      fnsubstring_def substr_int_def fncontains_def fnstring_join_def
      intro!: fueled_intros split: if_splits list.splits token.splits)

text \<open>How deep calls of \<open>evaluate_expr\<close> nest for a token.\<close>

fun nest :: "('d, 'n) token \<Rightarrow> nat" where
  "nest (TExpr p es) = Suc (foldr (\<lambda>t. max (nest t)) es 0)"
| "nest (TFunc p n args) = foldr (\<lambda>a. max (Suc (foldr (\<lambda>t. max (nest t)) a 0))) args 0"
| "nest (TFilter p (Some es)) = Suc (foldr (\<lambda>t. max (nest t)) es 0)"
| "nest _ = 0"

lemma foldr_max_le: "foldr (\<lambda>t. max (f t)) es 0 \<le> k \<longleftrightarrow> (\<forall>t \<in> set es. f t \<le> (k::nat))"
  by (induction es) auto

lemma nest_expr_le: "nest (TExpr p es) \<le> Suc k \<longleftrightarrow> (\<forall>t \<in> set es. nest t \<le> k)"
  by (simp add: foldr_max_le)

lemma nest_func_le: "nest (TFunc p n args) \<le> k \<longleftrightarrow> (\<forall>a \<in> set args. nest (TExpr (-1) a) \<le> k)"
  by (simp add: foldr_max_le)

lemma nest_clone: "nest (clone t) \<le> nest t"
proof (induction t rule: clone.induct)
  case (2 p ts)
  have "t \<in> set ts \<Longrightarrow> nest t \<le> foldr (\<lambda>t. max (nest t)) ts 0" for t
    using foldr_max_le [of nest ts "foldr (\<lambda>t. max (nest t)) ts 0"] by blast
  then show ?case using 2 by (fastforce simp: foldr_max_le intro: order_trans)
next
  case (3 p n args)
  have "nest (TFunc p n (map (map clone) args)) \<le> nest (TFunc p n args)"
    unfolding nest_func_le
  proof
    fix b assume "b \<in> set (map (map clone) args)"
    then obtain a where a: "a \<in> set args" "b = map clone a" by auto
    have "nest (TExpr (-1) a) \<le> nest (TFunc p n args)"
      using nest_func_le [of p n args "nest (TFunc p n args)"] a(1) by blast
    moreover have "nest (TExpr (-1) b) \<le> nest (TExpr (-1) a)"
    proof -
      have "t \<in> set a \<Longrightarrow> nest t \<le> foldr (\<lambda>t. max (nest t)) a 0" for t
        using foldr_max_le [of nest a "foldr (\<lambda>t. max (nest t)) a 0"] by blast
      then show ?thesis using 3 [OF a(1)] a(2) by (fastforce simp: foldr_max_le intro: order_trans)
    qed
    ultimately show "nest (TExpr (-1) b) \<le> nest (TFunc p n args)" by (rule order_trans [rotated])
  qed
  then show ?case by simp
qed simp_all

lemma nest_filter_le:
  "nest (TFilter p (Some es)) \<le> k \<Longrightarrow> nest (TExpr q (map clone es)) \<le> k"
proof -
  assume a: "nest (TFilter p (Some es)) \<le> k"
  then obtain j where k: "k = Suc j" by (cases k) auto
  have "\<forall>t \<in> set es. nest t \<le> j" using a k by (simp add: foldr_max_le)
  then have "\<forall>t \<in> set (map clone es). nest t \<le> j" using nest_clone order_trans by fastforce
  then show ?thesis using k by (simp only: nest_expr_le)
qed

text \<open>The walk below a node ends within the bound.\<close>

primrec within :: "nat \<Rightarrow> 'n dom \<Rightarrow> 'n \<Rightarrow> bool" where
  "within 0 D n = False"
| "within (Suc k) D n = list_all (within k D) (d_children D n)"

lemma fueled_walks:
  "within k D n \<Longrightarrow> fueled (child_nodes_of k D name depth n)"
  "within k D n \<Longrightarrow> fueled (attributes_of k D name depth n)"
  "within k D n \<Longrightarrow> fueled (axis_of k D axis name depth n)"
proof (induction k arbitrary: n)
  case (Suc k)
  { case 1 then show ?case using Suc.IH(1)
      by (auto simp: list_all_iff intro!: fueled_bindr fueled_mapr) }
  { case 2 then show ?case using Suc.IH(2)
      by (auto simp: list_all_iff intro!: fueled_bindr fueled_mapr) }
  { case 3 then show ?case using Suc.IH(3)
      by (auto simp: list_all_iff intro!: fueled_bindr fueled_mapr) }
qed simp_all

definition env_ok :: "('d, 'n) xenv \<Rightarrow> bool" where
  "env_ok E \<longleftrightarrow> (\<forall>n. within (x_depth E) (x_dom E) n) \<and>
     (\<forall>name f c args. x_registered E name = Some f \<longrightarrow> fueled (f c args))"

lemma fueled_steps:
  assumes "env_ok E"
  shows "fueled (evaluate_node E p name items depth)" "fueled (evaluate_axis E p axis name items depth)"
    "fueled (evaluate_attribute E p name items depth)"
  using assms
  by (auto simp: evaluate_node_def evaluate_axis_def evaluate_attribute_def in_step_def env_ok_def
      get_child_nodes_def get_axis_def get_child_attributes_def intro!: fueled_intros fueled_walks)

section \<open>The evaluator on tokens of bounded nesting\<close>

text \<open>Two evaluators that agree, without running out of fuel, on all tokens nested up to \<open>k\<close>.\<close>

definition agree :: "nat \<Rightarrow> ('d, 'n) evaluator \<Rightarrow> ('d, 'n) evaluator \<Rightarrow> bool" where
  "agree k ev ev' \<longleftrightarrow> (\<forall>C t. nest t \<le> k \<longrightarrow> ev C t = ev' C t \<and> fueled (ev C t))"

lemma agreeD: "agree k ev ev' \<Longrightarrow> nest t \<le> k \<Longrightarrow> ev C t = ev' C t" "agree k ev ev' \<Longrightarrow> nest t \<le> k \<Longrightarrow> fueled (ev C t)"
  unfolding agree_def by blast+

lemma agree_apply_op:
  assumes "agree k ev ev'" "nest l \<le> k" "nest r \<le> k"
  shows "apply_op ev E C opr l r = apply_op ev' E C opr l r" "fueled (apply_op ev E C opr l r)"
proof -
  have e: "ev C l = ev' C l" "ev C r = ev' C r" "fueled (ev C l)" "fueled (ev C r)"
    using agreeD assms by blast+
  show "apply_op ev E C opr l r = apply_op ev' E C opr l r" unfolding apply_op_def e ..
  show "fueled (apply_op ev E C opr l r)" unfolding apply_op_def using e
    by (intro fueled_bindr fueled_option fueled_if fueled_simps fueled_op_impl)
qed

lemma apply_op_value: "apply_op ev E C opr l r = Inr v \<Longrightarrow> nest v = 0 \<and> GetType v \<noteq> EXPR \<and> GetType v \<noteq> OP"
proof -
  assume "apply_op ev E C opr l r = Inr v"
  then have "\<exists>o' a b. op_impl (x_fops E) (x_dom E) o' a b = Inr v"
    unfolding apply_op_def bindr_eq_Inr by (auto split: if_splits option.splits simp: bindr_eq_Inr simp del: op_impl.simps)
  then have "GetType v \<in> {LIT_INT, LIT_FLOAT, LIT_BOOL, SEQ}" using op_impl_value by blast
  then show ?thesis by (cases v) auto
qed

lemma catch_exn_Inr: "(\<And>c e k. h c e k \<noteq> Inr v) \<Longrightarrow> catch_exn m h = Inr v \<longleftrightarrow> m = Inr v"
  by (cases "(m, h)" rule: catch_exn.cases) auto

lemma in_operator_Inr [simp]: "in_operator p m = Inr v \<longleftrightarrow> m = Inr v"
  unfolding in_operator_def by (rule catch_exn_Inr) simp

lemma agree_reduce_ops:
  assumes "agree k ev ev'" "\<forall>t \<in> set ts. nest t \<le> k"
  shows "reduce_ops ev E C ts = reduce_ops ev' E C ts \<and> fueled (reduce_ops ev E C ts) \<and>
    (\<forall>us. reduce_ops ev E C ts = Inr us \<longrightarrow> (\<forall>t \<in> set us. nest t \<le> k))"
  using assms(2)
proof (induction "length ts" arbitrary: ts rule: less_induct)
  case less
  show ?case
  proof (cases "min_op 0 None ts")
    case None
    then show ?thesis using less(2) by (simp add: reduce_ops.simps)
  next
    case (Some x)
    obtain j m where x: "x = (j, m)" by (cases x)
    show ?thesis
    proof (cases "\<exists>p opr. ts ! j = TOP p opr")
      case False
      then show ?thesis using Some x by (simp add: reduce_ops.simps split: token.splits)
    next
      case True
      then obtain p opr where op: "ts ! j = TOP p opr" by blast
      show ?thesis
      proof (cases "j = 0 \<or> j + 1 \<ge> length ts")
        case True
        then show ?thesis using Some x op
          by (auto simp: reduce_ops.simps [of _ E C ts] in_operator_def xpath_error_def)
      next
        case False
        then have in1: "ts ! (j - 1) \<in> set ts" "ts ! (j + 1) \<in> set ts" by auto
        let ?r = "apply_op ev E C opr (ts ! (j - 1)) (ts ! (j + 1))"
        have r: "?r = apply_op ev' E C opr (ts ! (j - 1)) (ts ! (j + 1))" "fueled ?r"
          using agree_apply_op [OF assms(1)] less(2) in1 by blast+
        have f: "fueled (in_operator p ?r)" using r(2) by (auto simp: in_operator_def intro!: fueled_catch_exn)
        have IH: "reduce_ops ev E C us = reduce_ops ev' E C us \<and> fueled (reduce_ops ev E C us) \<and>
            (\<forall>vs. reduce_ops ev E C us = Inr vs \<longrightarrow> (\<forall>t \<in> set vs. nest t \<le> k))"
          if "in_operator p ?r = Inr v" "us = take (j - 1) ts @ [v] @ drop (j + 2) ts" for v us
        proof (rule less(1))
          show "length us < length ts" using False that(2) by (auto simp: min_def)
          have "?r = Inr v" using that(1) by (simp add: in_operator_Inr)
          then have "nest v = 0" using apply_op_value by blast
          then show "\<forall>t \<in> set us. nest t \<le> k"
            using less(2) that(2) by (auto dest: in_set_takeD in_set_dropD)
        qed
        have unfold: "reduce_ops e E C ts = bindr (in_operator p (apply_op e E C opr (ts ! (j - 1)) (ts ! (j + 1))))
            (\<lambda>v. reduce_ops e E C (take (j - 1) ts @ [v] @ drop (j + 2) ts))" for e :: "('a, 'b) evaluator"
          using Some x op False by (simp add: reduce_ops.simps [of e E C ts])
        show ?thesis
        proof (cases "in_operator p ?r")
          case (Inl e)
          then show ?thesis using f unfolding unfold [of ev] unfold [of ev'] r(1) [symmetric]
            by (simp add: fueled_def)
        next
          case (Inr v)
          show ?thesis unfolding unfold [of ev] unfold [of ev'] r(1) [symmetric] Inr bindr.simps
            by (rule IH [OF Inr refl])
        qed
      qed
    qed
  qed
qed

lemma mapr_agree:
  "(\<And>x. x \<in> set xs \<Longrightarrow> f x = g x \<and> fueled (f x)) \<Longrightarrow> mapr f xs = mapr g xs \<and> fueled (mapr f xs)"
  by (intro conjI mapr_cong fueled_mapr) blast+

lemma agree_evaluate_func:
  assumes "agree k ev ev'" "env_ok E" "nest (TFunc p name args) \<le> k"
  shows "evaluate_func ev E C q name args left = evaluate_func ev' E C q name args left"
    "fueled (evaluate_func ev E C q name args left)"
proof -
  have m: "mapr (\<lambda>a. ev C (TExpr (-1) a)) args = mapr (\<lambda>a. ev' C (TExpr (-1) a)) args \<and>
      fueled (mapr (\<lambda>a. ev C (TExpr (-1) a)) args)"
  proof (rule mapr_agree)
    fix a assume "a \<in> set args"
    then have "nest (TExpr (-1) a) \<le> k" using assms(3) nest_func_le by blast
    then show "ev C (TExpr (-1) a) = ev' C (TExpr (-1) a) \<and> fueled (ev C (TExpr (-1) a))"
      using agreeD [OF assms(1)] by blast
  qed
  show "evaluate_func ev E C q name args left = evaluate_func ev' E C q name args left"
    unfolding evaluate_func_def conjunct1 [OF m] ..
  show "fueled (evaluate_func ev E C q name args left)"
  proof (cases "lookup_func E name")
    case (Some f)
    have f: "fueled (f c as)" for c as
      using Some assms(2) fueled_builtin
      by (auto simp: lookup_func_def env_ok_def fncurrent_def split: if_splits option.splits)
    have "fueled (bindr (mapr (\<lambda>a. ev C (TExpr (-1) a)) args) (f c))" for c
      by (intro fueled_bindr conjunct2 [OF m] f)
    then show ?thesis using Some
      by (auto simp: evaluate_func_def xpath_error_def fueled_def split: sum.splits fault.splits)
  qed (simp add: evaluate_func_def)
qed

lemma agree_filter_items:
  assumes "agree k ev ev'" "nest (TExpr (-1) (map clone flt)) \<le> k"
  shows "filter_items ev F flt i n ts = filter_items ev' F flt i n ts \<and> fueled (filter_items ev F flt i n ts)"
proof (induction ts arbitrary: i)
  case (Cons t ts)
  let ?C = "\<lparr>seq = [clone t], ctx_index = i, ctx_size = n\<rparr>"
  have e: "ev ?C (TExpr (-1) (map clone flt)) = ev' ?C (TExpr (-1) (map clone flt))"
    "fueled (ev ?C (TExpr (-1) (map clone flt)))"
    using agreeD [OF assms] by blast+
  have f: "filter_items ev F flt (i + 1) n ts = filter_items ev' F flt (i + 1) n ts"
    "fueled (filter_items ev' F flt (i + 1) n ts)"
    using Cons.IH [of "i + 1"] by (metis, metis)
  show ?case unfolding filter_items.simps f(1) using e(1,2) f(2) by (auto intro!: fueled_bindr)
qed simp

lemma agree_apply_filter:
  assumes "agree k ev ev'" "nest (TFilter p (Some flt)) \<le> k"
  shows "apply_filter ev F items flt = apply_filter ev' F items flt" "fueled (apply_filter ev F items flt)"
proof -
  note a = agree_filter_items [OF assms(1) nest_filter_le [OF assms(2)]]
  have "filter_token_node_list ev F items flt = filter_token_node_list ev' F items flt"
    unfolding filter_token_node_list_def using a by blast
  then show "apply_filter ev F items flt = apply_filter ev' F items flt"
    unfolding apply_filter_def by (simp only:)
  have "fueled (filter_token_node_list ev F items flt)"
    unfolding filter_token_node_list_def using a by blast
  then show "fueled (apply_filter ev F items flt)"
    unfolding apply_filter_def by (auto split: list.splits token.splits)
qed

lemma agree_single_step:
  assumes "agree k ev ev'" "env_ok E" "nest t \<le> k"
  shows "single_step ev E C items left depth t = single_step ev' E C items left depth t"
    "single_step ev E C items left depth t = Some r \<Longrightarrow> fueled r"
  using assms agree_evaluate_func [OF assms(1,2)] fueled_steps [OF assms(2)]
  by (cases t; auto simp: single_step_def)+

lemma resolve_tokens_step:
  assumes "\<And>p es. t \<noteq> TExpr p es" "\<And>p r. t \<noteq> TFilter p r" "\<And>p k. t \<noteq> TSyntax p k"
  shows "resolve_tokens ev E C dn (t # ts) =
    (case single_step ev E C (seq C) [] False t of
       Some r \<Rightarrow> bindr r (\<lambda>v. resolve_tokens ev E C (set_pos (tpos t) v # dn) ts)
     | None \<Rightarrow> resolve_tokens ev E C (t # dn) ts)"
  using assms by (cases t; clarify; simp)

lemma agree_resolve_tokens:
  assumes "agree k ev ev'" "env_ok E" "\<forall>t \<in> set ts. nest t \<le> k"
  shows "resolve_tokens ev E C dn ts = resolve_tokens ev' E C dn ts \<and> fueled (resolve_tokens ev E C dn ts)"
  using assms(3)
proof (induction "length ts" arbitrary: ts dn rule: less_induct)
  case less
  show ?case
  proof (cases ts)
    case (Cons t us)
    have t: "nest t \<le> k" "\<forall>t \<in> set us. nest t \<le> k" using less(2) Cons by simp_all
    have IH0: "resolve_tokens ev E C d us = resolve_tokens ev' E C d us \<and> fueled (resolve_tokens ev E C d us)" for d
      by (rule less(1)) (use t Cons in simp_all)
    have IH: "resolve_tokens ev E C d us = resolve_tokens ev' E C d us" "fueled (resolve_tokens ev' E C d us)" for d
      using IH0 [of d] by (metis, metis)
    note step = agree_single_step [OF assms(1,2) t(1)]
    have stepped: "(case single_step ev E C items left b t of
          Some r \<Rightarrow> bindr r (\<lambda>v. resolve_tokens ev E C (set_pos (tpos t) v # dn) us)
        | None \<Rightarrow> resolve_tokens ev E C (t # dn) us) =
        (case single_step ev' E C items left b t of
          Some r \<Rightarrow> bindr r (\<lambda>v. resolve_tokens ev' E C (set_pos (tpos t) v # dn) us)
        | None \<Rightarrow> resolve_tokens ev' E C (t # dn) us) \<and>
        fueled (case single_step ev E C items left b t of
          Some r \<Rightarrow> bindr r (\<lambda>v. resolve_tokens ev E C (set_pos (tpos t) v # dn) us)
        | None \<Rightarrow> resolve_tokens ev E C (t # dn) us)" for items left b
      using step IH by (auto intro!: fueled_bindr split: option.splits)
    have dflt: ?thesis if "\<And>p es. t \<noteq> TExpr p es" "\<And>p r. t \<noteq> TFilter p r" "\<And>p k. t \<noteq> TSyntax p k"
      unfolding Cons resolve_tokens_step [OF that] by (rule stepped)
    show ?thesis
    proof (cases t)
      case (TExpr p es)
      then show ?thesis using agreeD [OF assms(1) t(1)] IH Cons by (auto intro!: fueled_bindr)
    next
      case (TFilter p r)
      show ?thesis
      proof (cases "\<exists>q items dn'. dn = TSeq q items # dn'")
        case True
        then obtain q items dn' where dn: "dn = TSeq q items # dn'" by blast
        show ?thesis
        proof (cases r)
          case (Some es)
          then show ?thesis using agree_apply_filter [OF assms(1), of p es] t(1) TFilter dn IH Cons
            by (auto intro!: fueled_bindr)
        qed (use TFilter dn Cons in simp)
      next
        case False
        then show ?thesis using TFilter Cons by (auto split: list.splits token.splits)
      qed
    next
      case (TSyntax p kd)
      show ?thesis
      proof (cases "kd = SLASH \<or> kd = DSLASH")
        case True
        show ?thesis
        proof (cases us)
          case c: (Cons u vs)
          obtain items dn' where sc: "step_context E dn = (items, dn')" by (cases "step_context E dn")
          have IH20: "resolve_tokens ev E C d vs = resolve_tokens ev' E C d vs \<and> fueled (resolve_tokens ev E C d vs)" for d
            by (rule less(1)) (use t Cons c in simp_all)
          have IH2: "resolve_tokens ev E C d vs = resolve_tokens ev' E C d vs" "fueled (resolve_tokens ev' E C d vs)" for d
            using IH20 [of d] by (metis, metis)
          have u: "nest u \<le> k" using t c by simp
          note su = agree_single_step [OF assms(1,2) u]
          show ?thesis using True TSyntax Cons c sc su IH2
            by (auto intro!: fueled_bindr split: option.splits)
        qed (use True TSyntax Cons in auto)
      next
        case False
        then show ?thesis using TSyntax Cons IH by auto
      qed
    qed (rule dflt; simp)+
  qed simp
qed

lemma evaluate_expr_agree:
  assumes "env_ok E" "nest t \<le> k" "k \<le> k'"
  shows "evaluate_expr k E C t = evaluate_expr k' E C t \<and> fueled (evaluate_expr k E C t)"
  using assms(2,3)
proof (induction k arbitrary: k' C t)
  case 0
  then have "\<forall>p es. t \<noteq> TExpr p es" by auto
  then show ?case by (cases k') (auto split: token.splits)
next
  case (Suc k)
  then obtain j where k': "k' = Suc j" "k \<le> j" by (cases k') auto
  show ?case
  proof (cases t)
    case (TExpr p es)
    have ag: "agree k (evaluate_expr k E) (evaluate_expr j E)"
      unfolding agree_def using Suc.IH k'(2) by blast
    have es: "\<forall>t \<in> set es. nest t \<le> k" using Suc.prems(1) TExpr nest_expr_le by blast
    note red = agree_reduce_ops [OF ag es]
    note res = agree_resolve_tokens [OF ag assms(1)]
    have "evaluate_expr k' E C t = evaluate_expr (Suc k) E C t"
    proof (cases "reduce_ops (evaluate_expr k E) E C es")
      case (Inr ts)
      then show ?thesis using red [of E C] res [of ts C "[]"] TExpr k' by simp
    qed (use red [of E C] TExpr k' in simp)
    moreover have "fueled (evaluate_expr (Suc k) E C t)"
      unfolding evaluate_expr.simps TExpr token.case
    proof (intro fueled_bindr)
      show "fueled (reduce_ops (evaluate_expr k E) E C es)" using red [of E C] by blast
      show "fueled (resolve_tokens (evaluate_expr k E) E C [] ts)"
        if "reduce_ops (evaluate_expr k E) E C es = Inr ts" for ts
        using red [of E C] that res [of ts C "[]"] by blast
      show "fueled (case vs of [v] \<Rightarrow> Inr (clone v) | _ \<Rightarrow> xpath_error ''Error evaluating expression'' (-1))"
        for vs :: "('a, 'b) token list" by (auto split: list.splits)
    qed
    ultimately show ?thesis by simp
  qed (simp_all add: k')
qed

end
