(* ===== verification/XPathPrecedence.thy ===== *)
theory XPathPrecedence
  imports XPathEvalProps
begin

text \<open>
  Operator precedence. The evaluator has no expression tree: it contracts, again and again, the
  leftmost operator of the strongest binding in the flat list of tokens. The reference is the tree
  an operator precedence parser builds (\<open>climb\<close>); both have the same values.
\<close>

section \<open>The reference: trees\<close>

datatype ('d, 'n) optree =
    Leaf "('d, 'n) token"
  | Node "('d, 'n) optree" int operator "('d, 'n) optree"

fun infix_of :: "('d, 'n) optree \<Rightarrow> ('d, 'n) token list" where
  "infix_of (Leaf a) = [a]"
| "infix_of (Node l p opr r) = infix_of l @ TOP p opr # infix_of r"

fun tree_prios :: "('d, 'n) optree \<Rightarrow> nat set" where
  "tree_prios (Leaf a) = {}"
| "tree_prios (Node l p opr r) = insert (op_prio opr) (tree_prios l \<union> tree_prios r)"

fun is_operand :: "('d, 'n) token \<Rightarrow> bool" where
  "is_operand (TOP p opr) = False"
| "is_operand _ = True"

lemma is_operand_type: "GetType t \<noteq> OP \<Longrightarrow> is_operand t"
  by (cases t) auto

text \<open>Operators of the same priority group to the left.\<close>

fun canonical :: "('d, 'n) optree \<Rightarrow> bool" where
  "canonical (Leaf a) \<longleftrightarrow> is_operand a"
| "canonical (Node l p opr r) \<longleftrightarrow> canonical l \<and> canonical r \<and>
     (\<forall>q \<in> tree_prios l. q \<le> op_prio opr) \<and> (\<forall>q \<in> tree_prios r. q < op_prio opr)"

text \<open>One more operator and operand to the right of a tree.\<close>

fun climb1 :: "('d, 'n) optree \<Rightarrow> int \<Rightarrow> operator \<Rightarrow> ('d, 'n) token \<Rightarrow> ('d, 'n) optree" where
  "climb1 (Leaf a) p opr b = Node (Leaf a) p opr (Leaf b)"
| "climb1 (Node l q o2 r) p opr b =
     (if op_prio o2 \<le> op_prio opr then Node (Node l q o2 r) p opr (Leaf b)
      else Node l q o2 (climb1 r p opr b))"

fun climb :: "('d, 'n) optree \<Rightarrow> (int \<times> operator \<times> ('d, 'n) token) list \<Rightarrow> ('d, 'n) optree" where
  "climb t [] = t"
| "climb t ((p, opr, b) # rest) = climb (climb1 t p opr b) rest"

fun tree_value ::
  "('d, 'n) evaluator \<Rightarrow> ('d, 'n) xenv \<Rightarrow> ('d, 'n) eval_context \<Rightarrow> ('d, 'n) optree \<Rightarrow> ('d, 'n) token res" where
  "tree_value ev E C (Leaf a) = Inr a"
| "tree_value ev E C (Node l p opr r) =
     bindr (tree_value ev E C l) (\<lambda>a. bindr (tree_value ev E C r) (\<lambda>b.
       in_operator p (apply_op ev E C opr a b)))"

fun flat_infix :: "('d, 'n) token \<Rightarrow> (int \<times> operator \<times> ('d, 'n) token) list \<Rightarrow> ('d, 'n) token list" where
  "flat_infix a [] = [a]"
| "flat_infix a ((p, opr, b) # rest) = a # TOP p opr # flat_infix b rest"

lemma tree_prios_climb1: "tree_prios (climb1 t p opr b) = insert (op_prio opr) (tree_prios t)"
  by (induction t) auto

lemma canonical_climb1: "canonical t \<Longrightarrow> is_operand b \<Longrightarrow> canonical (climb1 t p opr b)"
  by (induction t) (auto simp: tree_prios_climb1)

lemma infix_of_climb1: "infix_of (climb1 t p opr b) = infix_of t @ [TOP p opr, b]"
  by (induction t) auto

lemma canonical_climb:
  "canonical t \<Longrightarrow> list_all (\<lambda>(p, opr, b). is_operand b) rest \<Longrightarrow> canonical (climb t rest)"
  by (induction t rest rule: climb.induct) (auto simp: canonical_climb1)

lemma infix_of_climb:
  "infix_of t = us @ [a] \<Longrightarrow> infix_of (climb t rest) = us @ flat_infix a rest"
proof (induction t rest arbitrary: us a rule: climb.induct)
  case (2 t p opr b rest)
  then show ?case using "2.IH" [of "us @ [a, TOP p opr]" b] by (simp add: infix_of_climb1)
qed simp

section \<open>The contracted operator\<close>

definition list_prios :: "('d, 'n) token list \<Rightarrow> nat set" where
  "list_prios ts = {op_prio opr | p opr. TOP p opr \<in> set ts}"

lemma list_prios_append [simp]: "list_prios (xs @ ys) = list_prios xs \<union> list_prios ys"
  by (auto simp: list_prios_def)

lemma list_prios_op [simp]: "list_prios (TOP p opr # ts) = insert (op_prio opr) (list_prios ts)"
  by (auto simp: list_prios_def)

lemma list_prios_operand [simp]: "is_operand a \<Longrightarrow> list_prios (a # ts) = list_prios ts"
  by (auto simp: list_prios_def)

lemma list_prios_Nil [simp]: "list_prios [] = {}"
  by (simp add: list_prios_def)

lemma list_prios_infix: "canonical t \<Longrightarrow> list_prios (infix_of t) = tree_prios t"
  by (induction t) auto

lemma min_op_operand: "is_operand a \<Longrightarrow> min_op i best (a # ts) = min_op (Suc i) best ts"
  by (cases a) simp_all

lemma min_op_keeps: "(\<forall>q \<in> list_prios ts. m \<le> q) \<Longrightarrow> min_op i (Some (j, m)) ts = Some (j, m)"
proof (induction ts arbitrary: i)
  case (Cons t ts)
  show ?case
  proof (cases "is_operand t")
    case True
    then show ?thesis using Cons by (simp add: min_op_operand)
  next
    case False
    then obtain p opr where "t = TOP p opr" by (cases t) auto
    then show ?thesis using Cons by simp
  qed
qed simp

lemma min_op_finds:
  assumes "\<forall>q \<in> list_prios pre. op_prio opr < q" "\<forall>q \<in> list_prios post. op_prio opr \<le> q"
    "\<forall>j m. best = Some (j, m) \<longrightarrow> op_prio opr < m"
  shows "min_op i best (pre @ TOP p opr # post) = Some (i + length pre, op_prio opr)"
  using assms(1,3)
proof (induction pre arbitrary: i best)
  case Nil
  then show ?case using min_op_keeps [OF assms(2)] by (cases best) auto
next
  case (Cons t ts)
  show ?case
  proof (cases "is_operand t")
    case True
    then show ?thesis using Cons by (simp add: min_op_operand)
  next
    case False
    then obtain q o2 where t: "t = TOP q o2" by (cases t) auto
    show ?thesis using Cons t
      by (cases best) (simp_all split: prod.splits)
  qed
qed

lemma reduce_ops_contract:
  assumes "ts = pre @ a # TOP p opr # b # post" "is_operand a" "is_operand b"
    "\<forall>q \<in> list_prios pre. op_prio opr < q" "\<forall>q \<in> list_prios post. op_prio opr \<le> q"
  shows "reduce_ops ev E C ts =
    bindr (in_operator p (apply_op ev E C opr a b)) (\<lambda>v. reduce_ops ev E C (pre @ v # post))"
proof -
  have m: "min_op 0 None ts = Some (Suc (length pre), op_prio opr)"
    using min_op_finds [of "pre @ [a]" opr "b # post" None 0 p] assms by simp
  have nths: "ts ! Suc (length pre) = TOP p opr" "ts ! length pre = a" "ts ! Suc (Suc (length pre)) = b"
    using assms(1) by (simp_all add: nth_append)
  have td: "take (length pre) ts = pre" "drop (Suc (Suc (Suc (length pre)))) ts = post"
    using assms(1) by simp_all
  have len: "\<not> length ts \<le> Suc (Suc (length pre))" using assms(1) by simp
  show ?thesis using m nths td len by (subst reduce_ops.simps) simp
qed

lemma reduce_ops_done: "is_operand a \<Longrightarrow> reduce_ops ev E C [a] = Inr [a]"
  by (subst reduce_ops.simps) (simp add: min_op_operand)

text \<open>
  A canonical tree that is no leaf has an innermost node that is the leftmost strongest operator;
  \<open>f v\<close> is the tree with the value \<open>v\<close> in its place.
\<close>

definition redex_at ::
  "('d, 'n) evaluator \<Rightarrow> ('d, 'n) xenv \<Rightarrow> ('d, 'n) eval_context \<Rightarrow> ('d, 'n) optree \<Rightarrow> ('d, 'n) token list \<Rightarrow>
   ('d, 'n) token \<Rightarrow> int \<Rightarrow> operator \<Rightarrow> ('d, 'n) token \<Rightarrow> ('d, 'n) token list \<Rightarrow>
   (('d, 'n) token \<Rightarrow> ('d, 'n) optree) \<Rightarrow> bool" where
  "redex_at ev E C t pre a p opr b post f \<longleftrightarrow>
     infix_of t = pre @ a # TOP p opr # b # post \<and> is_operand a \<and> is_operand b \<and>
     (\<forall>q \<in> list_prios pre. op_prio opr < q) \<and> (\<forall>q \<in> list_prios post. op_prio opr \<le> q) \<and>
     (\<forall>v. is_operand v \<longrightarrow> infix_of (f v) = pre @ v # post \<and> canonical (f v) \<and> tree_prios (f v) \<subseteq> tree_prios t) \<and>
     (\<forall>w. tree_value ev E C t = Inr w \<longleftrightarrow>
        (\<exists>v. apply_op ev E C opr a b = Inr v \<and> tree_value ev E C (f v) = Inr w))"

lemma redex_min:
  assumes "redex_at ev E C t pre a p opr b post f" "canonical t"
  shows "op_prio opr \<in> tree_prios t" "\<forall>q \<in> tree_prios t. op_prio opr \<le> q"
proof -
  have "tree_prios t = list_prios (infix_of t)" using list_prios_infix [OF assms(2)] ..
  then have *: "tree_prios t = list_prios pre \<union> insert (op_prio opr) (list_prios post)"
    using assms(1) by (simp add: redex_at_def)
  then show "op_prio opr \<in> tree_prios t" by simp
  show "\<forall>q \<in> tree_prios t. op_prio opr \<le> q" using * assms(1) by (auto simp: redex_at_def)
qed

lemma redex_left:
  assumes "redex_at ev E C l pre a p opr b post f" "canonical (Node l q o2 r)"
    "\<forall>m \<in> tree_prios r. op_prio opr \<le> m"
  shows "redex_at ev E C (Node l q o2 r) pre a p opr b (post @ TOP q o2 # infix_of r) (\<lambda>v. Node (f v) q o2 r)"
proof -
  have r: "list_prios (infix_of r) = tree_prios r" using list_prios_infix [of r] assms(2) by simp
  have "op_prio opr \<le> op_prio o2" using redex_min(1) [OF assms(1)] assms(2) by simp
  then show ?thesis using assms r unfolding redex_at_def
    by (auto simp: bindr_eq_Inr subset_iff)
qed

lemma redex_right:
  assumes "redex_at ev E C r pre a p opr b post f" "canonical (Node l q o2 r)"
    "\<forall>m \<in> tree_prios l. op_prio opr < m"
  shows "redex_at ev E C (Node l q o2 r) (infix_of l @ TOP q o2 # pre) a p opr b post (\<lambda>v. Node l q o2 (f v))"
proof -
  have l: "list_prios (infix_of l) = tree_prios l" using list_prios_infix [of l] assms(2) by simp
  have "op_prio opr < op_prio o2" using redex_min(1) [OF assms(1)] assms(2) by simp
  then show ?thesis using assms l unfolding redex_at_def
    by (auto simp: bindr_eq_Inr subset_iff)
qed

lemma redex_exists:
  "canonical t \<Longrightarrow> tree_prios t \<noteq> {} \<Longrightarrow> \<exists>pre a p opr b post f. redex_at ev E C t pre a p opr b post f"
proof (induction t)
  case (Node l q o2 r)
  have c: "canonical l" "canonical r" using Node.prems by simp_all
  show ?case
  proof (cases "tree_prios l = {}")
    case l: True
    then obtain a where a: "l = Leaf a" by (cases l) auto
    show ?thesis
    proof (cases "tree_prios r = {}")
      case True
      then obtain b where b: "r = Leaf b" by (cases r) auto
      have "redex_at ev E C (Node l q o2 r) [] a q o2 b [] Leaf"
        using Node.prems by (simp add: redex_at_def a b)
      then show ?thesis by blast
    next
      case False
      from Node.IH(2) [OF c(2) this] obtain pre a p opr b post f where
        "redex_at ev E C r pre a p opr b post f" by blast
      from redex_right [OF this Node.prems(1)] l show ?thesis by blast
    qed
  next
    case l: False
    from Node.IH(1) [OF c(1) this] obtain pre a p opr b post f where
      left: "redex_at ev E C l pre a p opr b post f" by blast
    show ?thesis
    proof (cases "\<forall>m \<in> tree_prios r. op_prio opr \<le> m")
      case True
      from redex_left [OF left Node.prems(1) this] show ?thesis by blast
    next
      case False
      then obtain m where m: "m \<in> tree_prios r" "m < op_prio opr" by auto
      from m(1) have "tree_prios r \<noteq> {}" by blast
      from Node.IH(2) [OF c(2) this] obtain pre' a' p' opr' b' post' f' where
        right: "redex_at ev E C r pre' a' p' opr' b' post' f'" by blast
      have "op_prio opr' \<le> m" using redex_min(2) [OF right c(2)] m(1) by blast
      moreover have "\<forall>m \<in> tree_prios l. op_prio opr \<le> m" by (rule redex_min(2) [OF left c(1)])
      ultimately have "\<forall>m \<in> tree_prios l. op_prio opr' < m" using m(2) by fastforce
      from redex_right [OF right Node.prems(1) this] show ?thesis by blast
    qed
  qed
qed simp

lemma reduce_ops_tree:
  "canonical t \<Longrightarrow>
   reduce_ops ev E C (infix_of t) = Inr us \<longleftrightarrow> (\<exists>v. tree_value ev E C t = Inr v \<and> us = [v])"
proof (induction "length (infix_of t)" arbitrary: t rule: less_induct)
  case less
  show ?case
  proof (cases "tree_prios t = {}")
    case True
    then obtain a where "t = Leaf a" by (cases t) auto
    then show ?thesis using less.prems by (auto simp: reduce_ops_done)
  next
    case False
    from redex_exists [OF less.prems this] obtain pre a p opr b post f where
      r: "redex_at ev E C t pre a p opr b post f" by blast
    have step: "reduce_ops ev E C (infix_of t) =
        bindr (in_operator p (apply_op ev E C opr a b)) (\<lambda>v. reduce_ops ev E C (pre @ v # post))"
      by (rule reduce_ops_contract) (use r in \<open>auto simp: redex_at_def\<close>)
    have IH: "reduce_ops ev E C (pre @ v # post) = Inr us \<longleftrightarrow> (\<exists>w. tree_value ev E C (f v) = Inr w \<and> us = [w])"
      if "apply_op ev E C opr a b = Inr v" for v
    proof -
      have "is_operand v" using apply_op_value [OF that] by (simp add: is_operand_type)
      then have fv: "infix_of (f v) = pre @ v # post" "canonical (f v)"
        using r by (auto simp: redex_at_def)
      then show ?thesis using less.hyps [of "f v"] r by (simp add: redex_at_def)
    qed
    have val: "tree_value ev E C t = Inr w \<longleftrightarrow>
        (\<exists>v. apply_op ev E C opr a b = Inr v \<and> tree_value ev E C (f v) = Inr w)" for w
      using r by (simp add: redex_at_def)
    show ?thesis unfolding step bindr_eq_Inr in_operator_Inr val using IH by blast
  qed
qed

text \<open>C7: On a flat list operand, operator, operand, ... \<open>reduce_ops\<close> returns exactly the value of the
  tree of an operator precedence parser (left associative, priorities of \<open>ops_desc\<close>), and it
  returns when the tree has a value.\<close>
theorem reduce_ops_precedence:
  assumes "is_operand a" "list_all (\<lambda>(p, opr, b). is_operand b) rest"
  shows "reduce_ops ev E C (flat_infix a rest) = Inr us \<longleftrightarrow>
    (\<exists>v. tree_value ev E C (climb (Leaf a) rest) = Inr v \<and> us = [v])"
proof -
  have "canonical (climb (Leaf a) rest)" using canonical_climb [OF _ assms(2)] assms(1) by simp
  moreover have "infix_of (climb (Leaf a) rest) = flat_infix a rest"
    using infix_of_climb [of "Leaf a" "[]" a rest] by simp
  ultimately show ?thesis using reduce_ops_tree by metis
qed

text \<open>A sample document: a root with three element children, of which two are called \<open>a\<close>.\<close>

definition sample_dom :: "nat dom" where
  "sample_dom = \<lparr>d_parent = (\<lambda>n. if n = 0 then None else Some 0),
     d_children = (\<lambda>n. if n = 0 then [1, 2, 3] else []),
     d_prev = (\<lambda>n. []), d_next = (\<lambda>n. []), d_attrs = (\<lambda>n. []),
     d_name = (\<lambda>n. if n = 2 then ''b'' else ''a''), d_value = (\<lambda>n. ''4''),
     d_kind = (\<lambda>n. if n = 0 then DOCUMENT_NODE else ELEMENT_NODE), d_document = 0\<rparr>"

definition sample_env :: "(int, nat) xenv" where
  "sample_env = \<lparr>x_fops = int_fops, x_dom = sample_dom, x_depth = 3, x_custom = [], x_registered = (\<lambda>n. None)\<rparr>"

theorem reduce_ops_precedence_witness:
  "reduce_ops (evaluate_expr 0 sample_env) sample_env (context_of [])
     (flat_infix (TInt 0 7) [(1, MINUS, TInt 2 2), (3, MULT, TInt 4 3), (5, MINUS, TInt 6 1)]) = Inr [TInt (-1) 0]"
  by (subst reduce_ops_precedence) (simp_all add: sample_env_def apply_op_def operator_calc_def try_all_def
      calc_int_def int_ck_def int_range_def in_operator_def)

end
