(* ===== verification/XPathClaims.thy ===== *)
theory XPathClaims
  imports XPathPrecedence
begin

text \<open>
  The evaluator as a whole: it terminates within the nesting of the expression, filters select by
  position, and two constructs of the language that cannot be used.
\<close>

section \<open>Termination\<close>

lemma env_ok_custom [simp]: "env_ok (E\<lparr>x_custom := c\<rparr>) = env_ok E"
  by (simp add: env_ok_def)

text \<open>C8: Evaluation of an expression over a document of bounded depth always ends: as many nested calls
  as the parsed expression nests are enough, and more do not change the result.\<close>
theorem Evaluate_terminates:
  fixes E :: "('d, 'n) xenv" and t :: "('d, 'n) token"
  assumes "env_ok E" "Parse (x_fops E) s = Inr t" "nest t \<le> k"
  shows "Evaluate k E s n \<noteq> Inl NoFuel \<and> Evaluate k E s n = Evaluate (nest t) E s n"
  using evaluate_expr_agree [of "E\<lparr>x_custom := [TNode (-1) n]\<rparr>" t "nest t" k "context_of [TNode (-1) n]"]
    assms by (auto simp: Evaluate_def fueled_def)

lemma sample_env_ok: "env_ok sample_env"
  by (simp add: env_ok_def sample_env_def sample_dom_def numeral_3_eq_3)

lemma sample_nest:
  "case (Parse int_fops ''count(//a[@n=1]/b) + 1'' :: (int, nat) token res) of
     Inl _ \<Rightarrow> False | Inr t \<Rightarrow> nest t \<le> 6"
  by code_simp

theorem Evaluate_terminates_witness:
  "Evaluate 6 sample_env ''count(//a[@n=1]/b) + 1'' 0 \<noteq> Inl NoFuel"
proof -
  obtain t where t: "(Parse int_fops ''count(//a[@n=1]/b) + 1'' :: (int, nat) token res) = Inr t" "nest t \<le> 6"
    using sample_nest by (auto split: sum.splits)
  have "Parse (x_fops sample_env) ''count(//a[@n=1]/b) + 1'' = Inr t" using t(1) by (simp add: sample_env_def)
  from Evaluate_terminates [OF sample_env_ok this t(2), of 0] show ?thesis by blast
qed

section \<open>Filters\<close>

text \<open>What filtering should give: the items at the positions where the expression is true.\<close>

definition select :: "('i \<Rightarrow> bool) \<Rightarrow> (nat \<Rightarrow> 'i) \<Rightarrow> 'a list \<Rightarrow> 'a list" where
  "select P val items = map (\<lambda>i. items ! i) (filter (\<lambda>i. P (val i)) [0..<length items])"

definition position_value ::
  "('d, 'n) evaluator \<Rightarrow> ('d, 'n) token list \<Rightarrow> ('d, 'n) token list \<Rightarrow> nat \<Rightarrow> ('d, 'n) token res" where
  "position_value ev items flt i =
     ev \<lparr>seq = [clone (items ! i)], ctx_index = int i + 1, ctx_size = int (length items)\<rparr>
        (TExpr (-1) (map clone flt))"

lemma filter_items_select:
  assumes "\<forall>i < length us. ev \<lparr>seq = [clone (us ! i)], ctx_index = j + int i, ctx_size = n\<rparr>
      (TExpr (-1) (map clone flt)) = Inr (val i)"
  shows "filter_items ev F flt j n us = Inr (select (to_bool F) val us)"
  using assms
proof (induction us arbitrary: j val)
  case (Cons u us)
  have hd: "ev \<lparr>seq = [clone u], ctx_index = j, ctx_size = n\<rparr> (TExpr (-1) (map clone flt)) = Inr (val 0)"
    using Cons.prems by (elim allE [of _ 0]) simp
  have "\<forall>i < length us. ev \<lparr>seq = [clone (us ! i)], ctx_index = (j + 1) + int i, ctx_size = n\<rparr>
      (TExpr (-1) (map clone flt)) = Inr (val (Suc i))"
  proof (intro allI impI)
    fix i assume "i < length us"
    then show "ev \<lparr>seq = [clone (us ! i)], ctx_index = (j + 1) + int i, ctx_size = n\<rparr>
      (TExpr (-1) (map clone flt)) = Inr (val (Suc i))"
      using Cons.prems [rule_format, of "Suc i"] by (simp add: algebra_simps)
  qed
  from Cons.IH [OF this] hd show ?case
    by (simp add: select_def upt_conv_Cons filter_map map_Suc_upt [symmetric] comp_def del: upt_Suc)
qed (simp add: select_def)

text \<open>C9: A filter that is an integer literal selects the item at that position (counting from 1, nothing when
  there is none); any other filter selects, in order, the items for which its expression, evaluated with
  that item as context, its position and the number of items, is true.\<close>
theorem apply_filter_positions:
  assumes "\<forall>i < length items. (\<forall>p k. flt \<noteq> [TInt p k]) \<longrightarrow> position_value ev items flt i = Inr (val i)"
  shows "apply_filter ev F items flt =
    Inr (case flt of
      [TInt p k] \<Rightarrow> if 1 \<le> k \<and> k \<le> int (length items) then [items ! nat (k - 1)] else []
    | _ \<Rightarrow> select (to_bool F) val items)"
proof (cases "\<exists>p k. flt = [TInt p k]")
  case True
  then show ?thesis by (auto simp: apply_filter_def get_nth_token_node_list_def)
next
  case False
  then have "filter_items ev F flt 1 (int (length items)) items = Inr (select (to_bool F) val items)"
    using assms by (intro filter_items_select) (auto simp: position_value_def add.commute)
  then show ?thesis using False
    by (auto simp: apply_filter_def filter_token_node_list_def split: list.splits token.splits)
qed

definition sample_items :: "(int, nat) token list" where
  "sample_items = [TNode 0 1, TNode 0 2, TNode 0 3]"

definition sample_filter :: "(int, nat) token list" where
  "sample_filter = [TExpr (-1) [TFunc 1 ''position'' []], TOP 2 EQ, TInt 3 2]"

lemma sample_filter_values:
  "map (position_value (evaluate_expr 2 sample_env) sample_items sample_filter) [0, 1, 2] =
     [Inr (TBool (-1) False), Inr (TBool (-1) True), Inr (TBool (-1) False)]"
  by code_simp

theorem apply_filter_positions_witness:
  "apply_filter (evaluate_expr 2 sample_env) int_fops sample_items sample_filter = Inr [TNode 0 2]"
proof -
  have "\<forall>i < length sample_items. (\<forall>p k. sample_filter \<noteq> [TInt p k]) \<longrightarrow>
      position_value (evaluate_expr 2 sample_env) sample_items sample_filter i = Inr (TBool (-1) (i = 1))"
    using sample_filter_values by (auto simp: sample_items_def less_Suc_eq numeral_2_eq_2)
  from apply_filter_positions [OF this, of int_fops] show ?thesis
    by (simp add: sample_items_def sample_filter_def select_def upt_rec)
qed

section \<open>What does not work\<close>

text \<open>The lexer reads \<open><=\<close> and \<open>>=\<close> as two operators each: it never produces the tokens of the two
  comparisons that \<open>ops_desc\<close> implements, so an expression with one of them does not evaluate.\<close>
theorem no_leq_token:
  assumes "parse_expr F s = Inr ts"
  shows "TOP q LEQ \<notin> set ts \<and> TOP q GEQ \<notin> set ts"
  using parse_from_op_kind [of F 0 s ts q] assms by (auto simp: parse_expr_def lexer_op_def)

theorem no_leq_token_witness:
  "\<exists>ts :: (int, nat) token list. parse_expr int_fops ''1 <= 2'' = Inr ts \<and> TOP 2 LEQ \<notin> set ts"
proof -
  have "case (parse_expr int_fops ''1 <= 2'' :: (int, nat) token list res) of Inl _ \<Rightarrow> False | Inr _ \<Rightarrow> True"
    by code_simp
  then obtain ts where "parse_expr int_fops ''1 <= 2'' = Inr (ts :: (int, nat) token list)"
    by (auto split: sum.splits)
  with no_leq_token [OF this, of 2] show ?thesis by blast
qed

text \<open>Comparing the result of a path with \<open><\<close> or \<open>>\<close> throws whatever the path selects, although
  \<open>=\<close> on the same operands works: the conversion of a sequence to a float drops its result.\<close>
theorem compare_path_fails:
  "opr = LT \<or> opr = GT \<Longrightarrow> op_impl F D opr (TSeq p us) r \<noteq> Inr v \<and> op_impl F D opr r (TSeq p us) \<noteq> Inr v"
  using compare_double_seq (1) [of F D _ p us r v] compare_double_seq (2) [of F D _ r p us v] by auto

theorem compare_path_fails_witness:
  "op_impl int_fops sample_dom LT (TSeq 0 [TInt 1 1]) (TInt 5 2) \<noteq> Inr (TBool (-1) True) \<and>
   op_impl int_fops sample_dom EQ (TSeq 0 [TInt 1 2]) (TInt 5 2) = Inr (TBool (-1) True)"
  using compare_path_fails [of LT int_fops sample_dom 0 "[TInt 1 1]" "TInt 5 2" "TBool (-1) True"]
  by (simp add: eq_value_def eq_same_def or_false_def add_position_def)

end
