(* ===== verification/EventScheduler.thy ===== *)
theory EventScheduler
  imports EvqBase "HOL-Library.Multiset"
begin

text \<open>
  The timed event list that the retrier and the workflow scheduler share: src/Schedule/Scheduler.cpp
  and include/Schedule/Scheduler.h.

  The linked list of events is a list of time and payload. The state is protected by one mutex, so
  every critical section is one function on it; between critical sections the thread of the
  scheduler is in one of the places \<open>thread_place\<close> names. \<open>sched_step\<close> interleaves the thread with
  insertions, flushes and the shutdown. Times are unbounded integers.
\<close>

section \<open>State\<close>

text \<open>
  \<open>NoThread\<close>: not started, or exited because there was no event. \<open>LoopTop\<close>: about to read the
  clock. \<open>Shifting c\<close>: taking the events due at \<open>c\<close>. \<open>Pausing c\<close>: found none left, about to take the
  lock. \<open>Sleeping w n\<close>: waits until \<open>w\<close> or, when \<open>n\<close>, was notified. \<open>Stopped\<close>: exited for a shutdown.
\<close>

datatype thread_place = NoThread | LoopTop | Shifting int | Pausing int | Sleeping int bool | Stopped

type_synonym 'e event = "int \<times> 'e"

abbreviation scheduled_at :: "'e event \<Rightarrow> int" where
  "scheduled_at \<equiv> fst"

record 'e sched =
  sc_events :: "'e event list"
  number_of_events :: nat
  sc_shutdown :: bool
  thread_is_running :: bool
  place :: thread_place

definition Scheduler_new :: "'e sched" where
  "Scheduler_new = \<lparr>sc_events = [], number_of_events = 0, sc_shutdown = False, thread_is_running = False,
     place = NoThread\<rparr>"

definition notify_one :: "'e sched \<Rightarrow> 'e sched" where
  "notify_one s = s\<lparr>place := (case place s of Sleeping w n \<Rightarrow> Sleeping w True | p \<Rightarrow> p)\<rparr>"

section \<open>Operations\<close>

text \<open>The walk to the last event that is not later than the new one.\<close>

fun insert_after :: "'e event \<Rightarrow> 'e event list \<Rightarrow> 'e event list" where
  "insert_after e [] = [e]"
| "insert_after e (x # xs) = (if scheduled_at e \<ge> scheduled_at x then x # insert_after e xs else e # x # xs)"

definition InsertEvent :: "'e event \<Rightarrow> 'e sched \<Rightarrow> 'e sched" where
  "InsertEvent e s =
     (case sc_events s of
        [] \<Rightarrow>
          (let s1 = s\<lparr>sc_events := [e], number_of_events := 1\<rparr>
           in if thread_is_running s then s1
              else s1\<lparr>thread_is_running := True, place := LoopTop\<rparr>)
      | x # xs \<Rightarrow>
          if scheduled_at e < scheduled_at x then
            notify_one (s\<lparr>sc_events := e # x # xs, number_of_events := number_of_events s + 1\<rparr>)
          else s\<lparr>sc_events := x # insert_after e xs, number_of_events := number_of_events s + 1\<rparr>)"

text \<open>
  \<open>Flush\<close> with a filter: the events that match are taken out and handed, in order, to
  \<open>event_removed\<close>; the thread is notified when the first event went.
\<close>

definition Flush :: "('e \<Rightarrow> bool) \<Rightarrow> 'e sched \<Rightarrow> 'e event list \<times> 'e sched" where
  "Flush matching s =
     (if number_of_events s = 0 then ([], s)
      else
        let gone = filter (\<lambda>e. matching (snd e)) (sc_events s);
            kept = filter (\<lambda>e. \<not> matching (snd e)) (sc_events s);
            s1 = s\<lparr>sc_events := kept, number_of_events := number_of_events s - length gone\<rparr>;
            first = (case sc_events s of [] \<Rightarrow> False | e # es \<Rightarrow> matching (snd e))
        in (gone, if first then notify_one s1 else s1))"

definition Shutdown :: "'e sched \<Rightarrow> 'e sched" where
  "Shutdown s =
     (let s1 = s\<lparr>sc_shutdown := True\<rparr>
      in if number_of_events s > 0 then notify_one s1 else s1)"

definition shift_event :: "int \<Rightarrow> 'e sched \<Rightarrow> 'e event option \<times> 'e sched" where
  "shift_event now s =
     (case sc_events s of
        [] \<Rightarrow> (None, s)
      | e # es \<Rightarrow>
          if scheduled_at e \<le> now
          then (Some e, s\<lparr>sc_events := es, number_of_events := number_of_events s - 1\<rparr>)
          else (None, s))"

text \<open>\<open>get_sleep_time\<close> reads the first event; it is called only when there is one.\<close>

definition get_sleep_time :: "int \<Rightarrow> 'e sched \<Rightarrow> int res" where
  "get_sleep_time now s =
     (case sc_events s of [] \<Rightarrow> Inl (UB ''null first_event'') | e # es \<Rightarrow> Inr (scheduled_at e - now))"

text \<open>
  The critical section at the end of a round: \<open>c\<close> is the time the round began, \<open>now\<close> the time of the
  computation of the alarm.
\<close>

definition pause :: "int \<Rightarrow> int \<Rightarrow> 'e sched \<Rightarrow> 'e sched res" where
  "pause c now s =
     (if number_of_events s = 0 then Inr (s\<lparr>thread_is_running := False, place := NoThread\<rparr>)
      else bindr (get_sleep_time c s) (\<lambda>d.
        if d > 0 then
          if sc_shutdown s then Inr (s\<lparr>place := Stopped\<rparr>)
          else Inr (s\<lparr>place := Sleeping (now + d) False\<rparr>)
        else Inr (s\<lparr>place := LoopTop\<rparr>)))"

text \<open>After the wait.\<close>

definition wake :: "'e sched \<Rightarrow> 'e sched" where
  "wake s = s\<lparr>place := (if sc_shutdown s then Stopped else LoopTop)\<rparr>"

section \<open>Steps\<close>

text \<open>
  The label of a step says what happened to the list. \<open>t\<close> is the clock, which never goes back. A
  wait may end at any time (a notification, the alarm, a spurious wake-up). \<open>d\<close> bounds the time a
  round of the thread takes, from reading the clock to the computation of the alarm.
\<close>

datatype 'e sched_label = Added "'e event" | Flushed "'e event list" | Fired int "'e event" | Internal

inductive sched_step :: "int \<Rightarrow> int \<Rightarrow> 'e sched \<Rightarrow> 'e sched_label \<Rightarrow> int \<Rightarrow> 'e sched \<Rightarrow> bool" for d where
  insert: "t \<le> t' \<Longrightarrow> sched_step d t s (Added e) t' (InsertEvent e s)"
| flush: "t \<le> t' \<Longrightarrow> Flush f s = (gone, s') \<Longrightarrow> sched_step d t s (Flushed gone) t' s'"
| shutdown: "t \<le> t' \<Longrightarrow> sched_step d t s Internal t' (Shutdown s)"
| clock: "t \<le> t' \<Longrightarrow> place s = LoopTop \<Longrightarrow> sched_step d t s Internal t' (s\<lparr>place := Shifting t'\<rparr>)"
| fire: "t \<le> t' \<Longrightarrow> place s = Shifting c \<Longrightarrow> shift_event c s = (Some e, s') \<Longrightarrow> sched_step d t s (Fired c e) t' s'"
| none: "t \<le> t' \<Longrightarrow> place s = Shifting c \<Longrightarrow> shift_event c s = (None, s') \<Longrightarrow>
    sched_step d t s Internal t' (s'\<lparr>place := Pausing c\<rparr>)"
| pause: "t \<le> t' \<Longrightarrow> place s = Pausing c \<Longrightarrow> t' - c \<le> d \<Longrightarrow> pause c t' s = Inr s' \<Longrightarrow> sched_step d t s Internal t' s'"
| wake: "t \<le> t' \<Longrightarrow> place s = Sleeping w n \<Longrightarrow> sched_step d t s Internal t' (wake s)"

text \<open>A history from the constructor on: the labels of its steps, the last one first.\<close>

inductive sched_run :: "int \<Rightarrow> int \<Rightarrow> 'e sched \<Rightarrow> 'e sched_label list \<Rightarrow> bool" for d where
  start: "sched_run d t Scheduler_new []"
| step: "sched_run d t s h \<Longrightarrow> sched_step d t s l t' s' \<Longrightarrow> sched_run d t' s' (l # h)"

fun added :: "'e sched_label list \<Rightarrow> 'e event list" where
  "added [] = []" | "added (Added e # h) = e # added h" | "added (l # h) = added h"

fun fired :: "'e sched_label list \<Rightarrow> 'e event list" where
  "fired [] = []" | "fired (Fired c e # h) = e # fired h" | "fired (l # h) = fired h"

fun flushed :: "'e sched_label list \<Rightarrow> 'e event list" where
  "flushed [] = []" | "flushed (Flushed es # h) = es @ flushed h" | "flushed (l # h) = flushed h"

fun early :: "'e sched_label \<Rightarrow> bool" where
  "early (Fired c e) \<longleftrightarrow> c < scheduled_at e" | "early l \<longleftrightarrow> False"

section \<open>Invariant\<close>

definition times :: "'e sched \<Rightarrow> int list" where
  "times s = map scheduled_at (sc_events s)"

fun place_ok :: "int \<Rightarrow> int \<Rightarrow> 'e sched \<Rightarrow> thread_place \<Rightarrow> bool" where
  "place_ok d t s NoThread \<longleftrightarrow> \<not> thread_is_running s \<and> sc_events s = []"
| "place_ok d t s (Sleeping w False) \<longleftrightarrow> thread_is_running s \<and> \<not> sc_shutdown s \<and>
     (\<exists>e es. sc_events s = e # es \<and> w \<le> scheduled_at e + d)"
| "place_ok d t s (Shifting c) \<longleftrightarrow> thread_is_running s \<and> c \<le> t"
| "place_ok d t s (Pausing c) \<longleftrightarrow> thread_is_running s \<and> c \<le> t"
| "place_ok d t s _ \<longleftrightarrow> thread_is_running s"

definition sched_inv :: "int \<Rightarrow> int \<Rightarrow> 'e sched \<Rightarrow> bool" where
  "sched_inv d t s \<longleftrightarrow> sorted (times s) \<and> number_of_events s = length (sc_events s) \<and> place_ok d t s (place s)"

definition conserved :: "'e sched \<Rightarrow> 'e sched_label list \<Rightarrow> bool" where
  "conserved s h \<longleftrightarrow> mset (added h) = mset (fired h) + mset (flushed h) + mset (sc_events s) \<and> \<not> list_ex early h"

lemma notify_simps [simp]:
  "sc_events (notify_one s) = sc_events s" "number_of_events (notify_one s) = number_of_events s"
  "sc_shutdown (notify_one s) = sc_shutdown s" "thread_is_running (notify_one s) = thread_is_running s"
  "times (notify_one s) = times s"
  by (simp_all add: notify_one_def times_def)

lemma place_ok_notify:
  assumes "place_ok d t s (place s)" "sc_events s \<noteq> []" "thread_is_running s' = thread_is_running s" "place s' = place s" "t \<le> t'"
  shows "place_ok d t' (notify_one s') (place (notify_one s'))"
  using assms by (cases "(d, t, s, place s)" rule: place_ok.cases) (auto simp: notify_one_def)

lemma place_ok_later: "place_ok d t s p \<Longrightarrow> t \<le> t' \<Longrightarrow> place_ok d t' s p"
  by (cases "(d, t, s, p)" rule: place_ok.cases) auto

lemma place_ok_cong:
  "place_ok d t s p \<Longrightarrow> thread_is_running s' = thread_is_running s \<Longrightarrow> sc_shutdown s' = sc_shutdown s \<Longrightarrow>
   sc_events s = e # es \<Longrightarrow> sc_events s' = e # es' \<Longrightarrow> place_ok d t s' p"
  by (cases "(d, t, s, p)" rule: place_ok.cases) auto

lemma mset_insert_after [simp]: "mset (insert_after e xs) = add_mset e (mset xs)"
  by (induction xs) auto

lemma sorted_insert_after: "sorted (map scheduled_at xs) \<Longrightarrow> sorted (map scheduled_at (insert_after e xs))"
proof (induction xs)
  case (Cons x xs)
  have "set (insert_after e xs) = insert e (set xs)"
    using mset_insert_after [of e xs] by (metis set_mset_add_mset_insert set_mset_mset)
  then show ?case using Cons by auto
qed simp

lemma length_insert_after [simp]: "length (insert_after e xs) = Suc (length xs)"
  by (induction xs) auto

lemma InsertEvent_inv:
  assumes "sched_inv d t s" "t \<le> t'"
  shows "sched_inv d t' (InsertEvent e s) \<and>
    mset (sc_events (InsertEvent e s)) = add_mset e (mset (sc_events s))"
proof (cases "sc_events s")
  case Nil
  have p: "place_ok d t s (place s)" using assms(1) by (simp add: sched_inv_def)
  show ?thesis
  proof (cases "thread_is_running s")
    case True
    have "place_ok d t' (s\<lparr>sc_events := [e], number_of_events := 1\<rparr>) (place s)"
      using p assms(2) True Nil by (cases "(d, t, s, place s)" rule: place_ok.cases) auto
    then show ?thesis using True Nil by (simp add: InsertEvent_def sched_inv_def times_def)
  qed (use Nil in \<open>simp add: InsertEvent_def sched_inv_def times_def\<close>)
next
  case (Cons x xs)
  have p: "place_ok d t' s (place s)" using assms by (auto simp: sched_inv_def intro: place_ok_later)
  have srt: "sorted (map scheduled_at (x # xs))" "number_of_events s = Suc (length xs)"
    using assms(1) Cons by (simp_all add: sched_inv_def times_def)
  show ?thesis
  proof (cases "scheduled_at e < scheduled_at x")
    case True
    let ?s = "s\<lparr>sc_events := e # x # xs, number_of_events := number_of_events s + 1\<rparr>"
    have "place_ok d t' (notify_one ?s) (place (notify_one ?s))"
      by (rule place_ok_notify [OF p]) (simp_all add: Cons)
    then show ?thesis using True Cons srt by (auto simp: InsertEvent_def sched_inv_def times_def)
  next
    case False
    let ?s = "s\<lparr>sc_events := x # insert_after e xs, number_of_events := number_of_events s + 1\<rparr>"
    have "place_ok d t' ?s (place s)" by (rule place_ok_cong [OF p _ _ Cons]) simp_all
    moreover have "sorted (map scheduled_at (insert_after e (x # xs)))" using sorted_insert_after srt(1) by blast
    ultimately show ?thesis using False Cons srt by (simp add: InsertEvent_def sched_inv_def times_def)
  qed
qed

lemma mset_filter_parts: "mset (filter P xs) + mset (filter (\<lambda>x. \<not> P x) xs) = mset xs"
  by (induction xs) auto

lemma Flush_inv:
  assumes "sched_inv d t s" "Flush f s = (gone, s')" "t \<le> t'"
  shows "sched_inv d t' s' \<and> mset (sc_events s) = mset gone + mset (sc_events s')"
proof (cases "sc_events s")
  case Nil
  then show ?thesis using assms place_ok_later by (auto simp: Flush_def sched_inv_def)
next
  case (Cons x xs)
  have p: "place_ok d t' s (place s)" using assms by (auto simp: sched_inv_def intro: place_ok_later)
  let ?k = "filter (\<lambda>e. \<not> f (snd e)) (sc_events s)"
  let ?s = "s\<lparr>sc_events := ?k, number_of_events := number_of_events s - length (filter (\<lambda>e. f (snd e)) (sc_events s))\<rparr>"
  have nz: "number_of_events s = length (sc_events s)" "number_of_events s \<noteq> 0"
    using assms(1) Cons by (simp_all add: sched_inv_def)
  have srt: "sorted (map scheduled_at ?k)"
    using assms(1) by (simp add: sched_inv_def times_def sorted_filter)
  have len: "number_of_events ?s = length ?k"
    using nz filter_length_split [of "\<lambda>e. f (snd e)" "sc_events s"] by simp
  have gone: "gone = filter (\<lambda>e. f (snd e)) (sc_events s)" "s' = (if f (snd x) then notify_one ?s else ?s)"
    using assms(2) nz Cons by (auto simp: Flush_def Let_def)
  have ms: "mset (sc_events s) = mset gone + mset ?k"
    unfolding gone(1) using mset_filter_parts [of "\<lambda>e. f (snd e)" "sc_events s"] by simp
  show ?thesis
  proof (cases "f (snd x)")
    case True
    have "place_ok d t' (notify_one ?s) (place (notify_one ?s))"
      by (rule place_ok_notify [OF p]) (simp_all add: Cons)
    then show ?thesis using gone True srt len ms by (simp add: sched_inv_def times_def)
  next
    case False
    have "place_ok d t' ?s (place s)" by (rule place_ok_cong [OF p _ _ Cons]) (simp_all add: Cons False)
    then show ?thesis using gone False srt len ms by (simp add: sched_inv_def times_def)
  qed
qed

lemma Shutdown_inv: "sched_inv d t s \<Longrightarrow> t \<le> t' \<Longrightarrow> sched_inv d t' (Shutdown s)"
proof -
  assume a: "sched_inv d t s" "t \<le> t'"
  then have p: "place_ok d t' s (place s)" by (auto simp: sched_inv_def intro: place_ok_later)
  let ?s = "s\<lparr>sc_shutdown := True\<rparr>"
  show ?thesis
  proof (cases "sc_events s")
    case Nil
    have "place_ok d t' ?s (place s)"
      using p Nil by (cases "(d, t', s, place s)" rule: place_ok.cases) auto
    then show ?thesis using a Nil by (simp add: Shutdown_def sched_inv_def times_def)
  next
    case (Cons x xs)
    have "place_ok d t' (notify_one ?s) (place (notify_one ?s))"
      by (rule place_ok_notify [OF p]) (simp_all add: Cons)
    then show ?thesis using a Cons by (simp add: Shutdown_def sched_inv_def times_def)
  qed
qed

lemma shift_event_inv:
  assumes "sched_inv d t s" "shift_event c s = (r, s')" "place s = Shifting c" "t \<le> t'"
  shows "sched_inv d t' s' \<and> place s' = Shifting c \<and>
    mset (sc_events s) = mset (case r of None \<Rightarrow> [] | Some e \<Rightarrow> [e]) + mset (sc_events s') \<and>
    (\<forall>e. r = Some e \<longrightarrow> scheduled_at e \<le> c)"
  using assms by (auto simp: shift_event_def sched_inv_def times_def split: list.splits if_splits)

lemma pause_inv:
  assumes "sched_inv d t s" "place s = Pausing c" "pause c t' s = Inr s'" "t \<le> t'" "t' - c \<le> d"
  shows "sched_inv d t' s' \<and> sc_events s' = sc_events s"
  using assms by (auto simp: pause_def get_sleep_time_def sched_inv_def times_def split: list.splits if_splits)

lemma sched_step_inv:
  assumes "sched_step d t s l t' s'" "sched_inv d t s" "conserved s h"
  shows "sched_inv d t' s' \<and> conserved s' (l # h)"
  using assms(1)
proof (cases rule: sched_step.cases)
  case (insert e)
  then show ?thesis using InsertEvent_inv [OF assms(2), of t' e] assms(3) by (simp add: conserved_def)
next
  case (flush f gone)
  then show ?thesis using Flush_inv [OF assms(2), of f gone s' t'] assms(3) by (simp add: conserved_def)
next
  case shutdown
  then show ?thesis using Shutdown_inv [OF assms(2)] assms(3) by (simp add: conserved_def Shutdown_def Let_def)
next
  case clock
  then show ?thesis using assms(2,3) by (simp add: sched_inv_def times_def conserved_def)
next
  case (fire c e)
  then show ?thesis using shift_event_inv [OF assms(2), of c "Some e" s' t'] assms(3)
    by (auto simp: conserved_def)
next
  case (none c s2)
  then show ?thesis using shift_event_inv [OF assms(2), of c None s2 t'] assms(3)
    by (auto simp: conserved_def sched_inv_def times_def)
next
  case (pause c)
  then show ?thesis using pause_inv [OF assms(2)] assms(3) by (auto simp: conserved_def)
next
  case (wake w n)
  have "thread_is_running s" using assms(2) wake by (cases n) (auto simp: sched_inv_def)
  then show ?thesis using wake assms(2,3) by (simp add: conserved_def sched_inv_def times_def wake_def)
qed

lemma sched_run_inv: "sched_run d t s h \<Longrightarrow> sched_inv d t s \<and> conserved s h"
proof (induction rule: sched_run.induct)
  case (start t)
  show ?case by (simp add: Scheduler_new_def sched_inv_def times_def conserved_def)
next
  case (step t s h l t' s')
  then show ?case using sched_step_inv by blast
qed

section \<open>Properties\<close>

text \<open>C10: No event is lost, invented, fired twice or fired early, whatever the interleaving of the thread with
  insertions, flushes and the shutdown: the events inserted are those fired, those flushed and those
  still in the list, which is sorted and counted, and an event is fired only at or after its time.\<close>
theorem events_conserved:
  assumes "sched_run d t s h"
  shows "mset (added h) = mset (fired h) + mset (flushed h) + mset (sc_events s) \<and> \<not> list_ex early h \<and>
    sorted (map scheduled_at (sc_events s)) \<and> number_of_events s = length (sc_events s)"
  using sched_run_inv [OF assms] by (simp add: sched_inv_def conserved_def times_def)


definition sample_sched :: "string sched" where
  "sample_sched = \<lparr>sc_events = [(5, ''b''), (7, ''a'')], number_of_events = 2, sc_shutdown = False,
     thread_is_running = True, place = Sleeping 8 True\<rparr>"

lemma sample_sched_run:
  "sched_run 1 3 sample_sched [Added (5, ''b''), Internal, Internal, Internal, Added (7, ''a'')]"
proof -
  let ?s1 = "InsertEvent (7, ''a'') Scheduler_new :: string sched"
  let ?s2 = "?s1\<lparr>place := Shifting 1\<rparr>" and ?s3 = "?s1\<lparr>place := Pausing 1\<rparr>" and ?s4 = "?s1\<lparr>place := Sleeping 8 False\<rparr>"
  have p1: "place ?s1 = LoopTop" by (simp add: InsertEvent_def Scheduler_new_def)
  have n: "shift_event 1 ?s2 = (None, ?s2)" by (simp add: shift_event_def InsertEvent_def Scheduler_new_def)
  have p: "pause 1 2 ?s3 = Inr ?s4" by (simp add: pause_def get_sleep_time_def InsertEvent_def Scheduler_new_def)
  have r1: "sched_run 1 0 ?s1 [Added (7, ''a'')]"
    by (rule sched_run.step [OF sched_run.start [of 1 0] sched_step.insert]) simp
  have r2: "sched_run 1 1 ?s2 [Internal, Added (7, ''a'')]"
    by (rule sched_run.step [OF r1 sched_step.clock]) (simp_all add: p1)
  have r3: "sched_run 1 2 ?s3 [Internal, Internal, Added (7, ''a'')]"
    using sched_run.step [OF r2 sched_step.none [OF _ _ n]] by simp
  have r4: "sched_run 1 2 ?s4 [Internal, Internal, Internal, Added (7, ''a'')]"
    by (rule sched_run.step [OF r3 sched_step.pause [OF _ _ _ p]]) simp_all
  have "InsertEvent (5, ''b'') ?s4 = sample_sched"
    by (simp add: InsertEvent_def Scheduler_new_def notify_one_def sample_sched_def)
  with sched_run.step [OF r4 sched_step.insert [of 2 3 1 ?s4 "(5, ''b'')"]] show ?thesis by simp
qed

theorem events_conserved_witness:
  "mset [(5::int, ''b''), (7, ''a'')] = {#} + {#} + mset (sc_events sample_sched) \<and> number_of_events sample_sched = 2"
  using events_conserved [OF sample_sched_run] by (simp add: sample_sched_def)


end
