(* ===== verification/ScheduleTable.thy ===== *)
theory ScheduleTable
  imports EvqBase
begin

text \<open>
  Schedules of workflows: src/Schedule/Schedule.cpp and include/Schedule/Schedule.h.

  A schedule is a table of 194 booleans, six levels (second, minute, hour, day, month, day of the
  week) one after the other. The constructor parses the text "s;m;h;d;m;w"; \<open>get_next_time\<close>
  searches the next time the table allows. The calendar of the C library (\<open>localtime_r\<close>,
  \<open>mktime\<close>), which depends on the time zone, is an argument; \<open>utc\<close> is the one of UTC.
\<close>

section \<open>Levels\<close>

abbreviation LEVEL_DAY :: nat where "LEVEL_DAY \<equiv> 3"
abbreviation LEVEL_MONTH :: nat where "LEVEL_MONTH \<equiv> 4"
abbreviation LEVEL_WDAY :: nat where "LEVEL_WDAY \<equiv> 5"

definition GetScheduleLength :: "nat \<Rightarrow> int" where
  "GetScheduleLength level =
     (if level = 0 then 60 else if level = 1 then 60 else if level = 2 then 24 else if level = 3 then 31
      else if level = 4 then 12 else if level = 5 then 7 else -1)"

definition GetScheduleOffset :: "nat \<Rightarrow> int" where
  "GetScheduleOffset level =
     (if level = 0 then 0 else if level = 1 then 60 else if level = 2 then 120 else if level = 3 then 144
      else if level = 4 then 175 else if level = 5 then 187 else -1)"

section \<open>Parsing\<close>

definition invalid_schedule :: "string \<Rightarrow> 'a res" where
  "invalid_schedule what = Inl (Exn ''Schedule'' what ''INVALID_SCHEDULE'')"

abbreviation cur :: "string \<Rightarrow> char" where
  "cur r \<equiv> at r 0"

lemma strtol10_progress: "strtol10 r = Some (v, n) \<Longrightarrow> 0 < n \<and> n \<le> length r"
proof -
  assume a: "strtol10 r = Some (v, n)"
  let ?b = "takeWhile isspace r" and ?r = "dropWhile isspace r"
  let ?s = "?r \<noteq> [] \<and> (hd ?r = CHR ''-'' \<or> hd ?r = CHR ''+'')"
  let ?d = "takeWhile isdigit (if ?s then tl ?r else ?r)"
  have n: "n = length ?b + (if ?s then 1 else 0) + length ?d" "?d \<noteq> []"
    using a by (auto simp: strtol10_def Let_def split: if_splits)
  have "length ?d \<le> length (if ?s then tl ?r else ?r)" by (rule length_takeWhile_le)
  moreover have "length ?b + length ?r = length r"
    by (metis length_append takeWhile_dropWhile_id)
  moreover have "?s \<Longrightarrow> length ?r > 0" by simp
  ultimately show ?thesis using n by (cases ?r; cases ?s) auto
qed

text \<open>
  The values of one level, up to a semicolon or the end: the table, the smallest day seen so far and
  whether no value was given.
\<close>

function scan_level ::
  "nat \<Rightarrow> int \<Rightarrow> bool list \<Rightarrow> int \<Rightarrow> bool \<Rightarrow> string \<Rightarrow> (bool list \<times> int \<times> bool \<times> string) res" where
  "scan_level level off tab min_day empty_level r =
     (if cur r = CHR '';'' \<or> cur r = CHR 0x00 then Inr (tab, min_day, empty_level, r)
      else
        case strtol10 r of
          None \<Rightarrow> invalid_schedule ''Non numeric data in schedule offset''
        | Some (v, n) \<Rightarrow>
            if v < 0 \<or> v \<ge> GetScheduleLength level then invalid_schedule ''Out of range schedule offset''
            else
              let r1 = drop n r
              in scan_level level off (tab[nat (off + v) := True])
                   (if level = LEVEL_DAY \<and> v < min_day then v else min_day) False
                   (if cur r1 = CHR '','' then drop 1 r1 else r1))"
  by pat_completeness auto

termination scan_level
  by (relation "measure (\<lambda>(level, off, tab, min_day, empty_level, r). length r)")
    (auto dest!: strtol10_progress)

declare scan_level.simps [simp del]

definition fill :: "bool list \<Rightarrow> int \<Rightarrow> int \<Rightarrow> bool list" where
  "fill tab off len = foldl (\<lambda>t i. t[i := True]) tab [nat off..<nat (off + len)]"

fun parse_levels ::
  "nat list \<Rightarrow> int \<Rightarrow> bool list \<Rightarrow> int \<Rightarrow> string \<Rightarrow> (bool list \<times> int \<times> string) res" where
  "parse_levels [] off tab min_day r = Inr (tab, min_day, r)"
| "parse_levels (level # levels) off tab min_day r =
     bindr (scan_level level off tab min_day True r) (\<lambda>(tab1, min_day1, empty_level, r1).
       parse_levels levels (off + GetScheduleLength level)
         (if empty_level then fill tab1 off (GetScheduleLength level) else tab1) min_day1
         (if cur r1 = CHR '';'' then drop 1 r1 else r1))"

definition allows :: "bool list \<Rightarrow> nat \<Rightarrow> bool" where
  "allows tab i \<longleftrightarrow> tab ! i"

definition parse_all_levels :: "string \<Rightarrow> (bool list \<times> int \<times> string) res" where
  "parse_all_levels s = parse_levels [0, 1, 2, 3, 4, 5] 0 (replicate 194 False) 32 s"

text \<open>A month of at least 30 days, a month of 31 days.\<close>

definition has_month_30 :: "bool list \<Rightarrow> bool" where
  "has_month_30 tab \<longleftrightarrow> list_ex (allows tab) [175, 177, 178, 179, 180, 181, 182, 183, 184, 185, 186]"

definition has_month_31 :: "bool list \<Rightarrow> bool" where
  "has_month_31 tab \<longleftrightarrow> list_ex (allows tab) [175, 177, 179, 181, 182, 184, 186]"

definition Schedule_new :: "string \<Rightarrow> bool list res" where
  "Schedule_new s =
     (if s = [] then invalid_schedule ''Empty schedule''
      else bindr (parse_all_levels s) (\<lambda>(tab, min_day, r).
        if cur r \<noteq> CHR 0x00 then invalid_schedule ''Garbage at end of schedule''
        else if min_day = 29 \<and> \<not> has_month_30 tab
        then invalid_schedule ''Schedule constraints are impossible to satisfy''
        else if min_day = 30 \<and> \<not> has_month_31 tab
        then invalid_schedule ''Schedule constraints are impossible to satisfy''
        else Inr tab))"

section \<open>The next time\<close>

record tm =
  tm_sec :: nat
  tm_min :: nat
  tm_hour :: nat
  tm_mday :: nat
  tm_mon :: nat
  tm_year :: int
  tm_wday :: nat

record calendar =
  localtime_r :: "int \<Rightarrow> tm"
  mktime :: "tm \<Rightarrow> int \<times> tm"

definition off :: "nat \<Rightarrow> nat" where
  "off level = nat (GetScheduleOffset level)"

text \<open>
  One level of the search: the first allowed value, from now on when the levels above are all
  allowed now (with a carry from the level below), from the start of the level otherwise; and the
  carry into the next level. Without any allowed value the array element stays uninitialised.
\<close>

definition find_level :: "bool list \<Rightarrow> nat list \<Rightarrow> nat \<Rightarrow> nat \<Rightarrow> (nat \<times> nat) res" where
  "find_level tab now level carry =
     (let len = nat (GetScheduleLength level);
          next_levels_valid = list_all (\<lambda>k. tab ! (off k + now ! k)) [Suc level..<Suc LEVEL_MONTH];
          pos = (\<lambda>i. if next_levels_valid then (now ! level + i + carry) mod len else i)
      in case find (\<lambda>i. tab ! (off level + pos i)) [0..<len] of
           None \<Rightarrow> Inl (UB ''uninitialised time_level_first'')
         | Some i \<Rightarrow> Inr (pos i, if next_levels_valid \<and> pos i < now ! level + carry then 1 else 0))"

fun find_levels :: "bool list \<Rightarrow> nat list \<Rightarrow> nat list \<Rightarrow> nat \<Rightarrow> (nat list \<times> nat) res" where
  "find_levels tab now [] carry = Inr ([], carry)"
| "find_levels tab now (level # levels) carry =
     bindr (find_level tab now level carry) (\<lambda>(v, carry1).
     bindr (find_levels tab now levels carry1) (\<lambda>(vs, carry2). Inr (v # vs, carry2)))"

primrec get_next_time :: "nat \<Rightarrow> calendar \<Rightarrow> bool list \<Rightarrow> int \<Rightarrow> int res" where
  "get_next_time 0 cal tab now = Inl NoFuel"
| "get_next_time (Suc k) cal tab now =
     (let now_t = localtime_r cal now;
          lv = [tm_sec now_t, tm_min now_t, tm_hour now_t, tm_mday now_t - 1, tm_mon now_t]
      in bindr (find_levels tab lv [0, 1, 2, 3, 4] 0) (\<lambda>(vs, carry).
         let first_t = \<lparr>tm_sec = vs ! 0, tm_min = vs ! 1, tm_hour = vs ! 2, tm_mday = vs ! 3 + 1, tm_mon = vs ! 4,
                        tm_year = tm_year now_t + int carry, tm_wday = 0\<rparr>;
             (first, first_t1) = mktime cal first_t
         in if tm_mday first_t1 \<noteq> vs ! 3 + 1 \<or> tm_mon first_t1 \<noteq> vs ! 4 then get_next_time k cal tab first
            else if \<not> tab ! (off LEVEL_WDAY + tm_wday first_t1) then
              get_next_time k cal tab
                (fst (mktime cal (first_t1\<lparr>tm_min := 0, tm_hour := 0, tm_mday := tm_mday first_t1 + 1\<rparr>)))
            else Inr first))"

definition GetNextTime :: "nat \<Rightarrow> calendar \<Rightarrow> bool list \<Rightarrow> int \<Rightarrow> int res" where
  "GetNextTime k cal tab now =
     bindr (get_next_time k cal tab (now + 1)) (\<lambda>next_time.
       Inr (if next_time \<le> now then now + 86400 * 365 else next_time))"

section \<open>UTC\<close>

text \<open>Days since the epoch, by years and months.\<close>

definition leap :: "int \<Rightarrow> bool" where
  "leap y \<longleftrightarrow> (4 dvd y \<and> \<not> 100 dvd y) \<or> 400 dvd y"

definition month_lengths :: "int \<Rightarrow> nat list" where
  "month_lengths y = [31, if leap y then 29 else 28, 31, 30, 31, 30, 31, 31, 30, 31, 30, 31]"

definition days_before_year :: "int \<Rightarrow> int" where
  "days_before_year y = 365 * (y - 1970) + ((y - 1) div 4 - (y - 1) div 100 + (y - 1) div 400) - 477"

fun split_month :: "nat list \<Rightarrow> nat \<Rightarrow> nat \<times> nat" where
  "split_month [] d = (0, d)"
| "split_month (m # ms) d = (if d < m then (0, d) else (case split_month ms (d - m) of (k, r) \<Rightarrow> (Suc k, r)))"

definition year_of :: "int \<Rightarrow> int" where
  "year_of days =
     (let y = 1970 + days div 366
      in if days < days_before_year (y + 1) then y
         else if days < days_before_year (y + 2) then y + 1 else y + 2)"

definition utc_localtime :: "int \<Rightarrow> tm" where
  "utc_localtime t =
     (let days = t div 86400; s = t mod 86400; y = year_of days;
          (mon, d) = split_month (month_lengths y) (nat (days - days_before_year y))
      in \<lparr>tm_sec = nat (s mod 60), tm_min = nat ((s div 60) mod 60), tm_hour = nat (s div 3600), tm_mday = d + 1, tm_mon = mon,
          tm_year = y - 1900, tm_wday = nat ((days + 4) mod 7)\<rparr>)"

definition utc_mktime :: "tm \<Rightarrow> int \<times> tm" where
  "utc_mktime b =
     (let y = tm_year b + 1900;
          days = days_before_year y + int (sum_list (take (tm_mon b) (month_lengths y))) + int (tm_mday b) - 1;
          t = days * 86400 + int (tm_hour b) * 3600 + int (tm_min b) * 60 + int (tm_sec b)
      in (t, utc_localtime t))"

definition utc :: calendar where
  "utc = \<lparr>localtime_r = utc_localtime, mktime = utc_mktime\<rparr>"

section \<open>Tables of accepted schedules\<close>

text \<open>The longest the month can be, so that a day of it can come.\<close>

definition max_days :: "nat list" where
  "max_days = [31, 29, 31, 30, 31, 30, 31, 31, 30, 31, 30, 31]"

text \<open>Some day of the table exists in some month of the table.\<close>

definition has_date :: "bool list \<Rightarrow> bool" where
  "has_date tab \<longleftrightarrow> (\<exists>m < 12. \<exists>d < 31. tab ! (175 + m) \<and> tab ! (144 + d) \<and> d < max_days ! m)"

definition days_ok :: "bool list \<Rightarrow> int \<Rightarrow> bool" where
  "days_ok tab min_day \<longleftrightarrow>
     (if min_day = 32 then \<forall>d < 31. tab ! (144 + d)
      else 0 \<le> min_day \<and> min_day < 31 \<and> tab ! (144 + nat min_day) \<and> (\<forall>d < 31. tab ! (144 + d) \<longrightarrow> min_day \<le> int d))"

definition level_full :: "bool list \<Rightarrow> nat \<Rightarrow> bool" where
  "level_full tab level \<longleftrightarrow> (\<exists>v < nat (GetScheduleLength level). tab ! (off level + v))"

lemma less_12: "(\<exists>m < (12::nat). P m) \<longleftrightarrow> P 0 \<or> P 1 \<or> P 2 \<or> P 3 \<or> P 4 \<or> P 5 \<or> P 6 \<or> P 7 \<or> P 8 \<or> P 9 \<or> P 10 \<or> P 11"
proof -
  have *: "m < 12 \<longleftrightarrow> m = 0 \<or> m = 1 \<or> m = 2 \<or> m = 3 \<or> m = 4 \<or> m = 5 \<or> m = 6 \<or> m = 7 \<or> m = 8 \<or> m = 9 \<or> m = 10 \<or> m = 11"
    for m :: nat by presburger
  show ?thesis unfolding * conj_disj_distribR ex_disj_distrib by simp
qed

lemma has_date_first:
  assumes "days_ok tab min_day"
  shows "has_date tab \<longleftrightarrow> (\<exists>m < 12. tab ! (175 + m) \<and> nat (if min_day = 32 then 0 else min_day) < max_days ! m)"
proof
  assume "has_date tab"
  then obtain m d where "m < 12" "d < 31" "tab ! (175 + m)" "tab ! (144 + d)" "d < max_days ! m"
    by (auto simp: has_date_def)
  moreover have "nat (if min_day = 32 then 0 else min_day) \<le> d"
    using assms \<open>tab ! (144 + d)\<close> \<open>d < 31\<close> by (auto simp: days_ok_def split: if_splits)
  ultimately show "\<exists>m < 12. tab ! (175 + m) \<and> nat (if min_day = 32 then 0 else min_day) < max_days ! m"
    by (meson le_less_trans)
next
  assume "\<exists>m < 12. tab ! (175 + m) \<and> nat (if min_day = 32 then 0 else min_day) < max_days ! m"
  moreover have "tab ! (144 + nat (if min_day = 32 then 0 else min_day))"
    "nat (if min_day = 32 then 0 else min_day) < 31"
    using assms by (auto simp: days_ok_def dest: spec [of _ 0] split: if_splits)
  ultimately show "has_date tab" unfolding has_date_def by blast
qed

lemma has_date_min:
  assumes "days_ok tab min_day" "\<exists>m < 12. tab ! (175 + m)"
  shows "has_date tab \<longleftrightarrow>
    \<not> (min_day = 29 \<and> \<not> has_month_30 tab) \<and>
    \<not> (min_day = 30 \<and> \<not> has_month_31 tab)"
proof -
  consider "min_day = 29" | "min_day = 30" | "nat (if min_day = 32 then 0 else min_day) < 29" "min_day \<noteq> 29" "min_day \<noteq> 30"
    using assms(1) by (fastforce simp: days_ok_def split: if_splits)
  then show ?thesis
  proof cases
    case 1
    then show ?thesis unfolding has_date_first [OF assms(1)] less_12 by (simp add: max_days_def allows_def has_month_30_def has_month_31_def)
  next
    case 2
    then show ?thesis unfolding has_date_first [OF assms(1)] less_12 by (simp add: max_days_def allows_def has_month_30_def has_month_31_def)
  next
    case 3
    have "\<forall>x \<in> set max_days. 29 \<le> x" "length max_days = 12" by (simp_all add: max_days_def)
    then have "m < 12 \<Longrightarrow> 29 \<le> max_days ! m" for m by (metis nth_mem)
    then have "\<exists>m < 12. tab ! (175 + m) \<and> nat (if min_day = 32 then 0 else min_day) < max_days ! m"
      using assms(2) 3(1) by (meson less_le_trans)
    then show ?thesis using has_date_first [OF assms(1)] 3 by blast
  qed
qed

abbreviation lev_len :: "nat \<Rightarrow> nat" where
  "lev_len level \<equiv> nat (GetScheduleLength level)"

lemma scan_level_frame:
  "scan_level level o1 tab md e r = Inr (tab', md', e', r') \<Longrightarrow> 0 \<le> o1 \<Longrightarrow>
   length tab' = length tab \<and> (\<forall>i. i < nat o1 \<or> nat o1 + lev_len level \<le> i \<longrightarrow> tab' ! i = tab ! i) \<and>
   (\<forall>i. tab ! i \<longrightarrow> i < length tab \<longrightarrow> tab' ! i) \<and> (level \<noteq> LEVEL_DAY \<longrightarrow> md' = md) \<and> (e' \<longrightarrow> e \<and> tab' = tab \<and> md' = md)"
proof (induction level o1 tab md e r rule: scan_level.induct)
  case (1 level o1 tab md e r)
  show ?case
  proof (cases "cur r = CHR '';'' \<or> cur r = CHR 0x00")
    case True
    then show ?thesis using "1.prems" by (simp add: scan_level.simps [of level o1 tab md e r])
  next
    case False
    then obtain v n where v: "strtol10 r = Some (v, n)" "0 \<le> v" "v < GetScheduleLength level"
      using "1.prems"(1) by (auto simp: scan_level.simps [of level o1 tab md e r] invalid_schedule_def split: option.splits if_splits)
    let ?r = "drop n r"
    let ?rest = "if cur ?r = CHR '','' then drop 1 ?r else ?r"
    have s: "scan_level level o1 (tab[nat (o1 + v) := True]) (if level = LEVEL_DAY \<and> v < md then v else md) False ?rest =
        Inr (tab', md', e', r')"
      using "1.prems"(1) False v by (simp add: scan_level.simps [of level o1 tab md e r] Let_def)
    have "\<not> (v < 0 \<or> GetScheduleLength level \<le> v)" using v by simp
    from "1.IH" [OF False v(1) refl this refl s "1.prems"(2)] have
      ih: "length tab' = length tab" "\<forall>i. i < nat o1 \<or> nat o1 + lev_len level \<le> i \<longrightarrow> tab' ! i = tab[nat (o1 + v) := True] ! i"
        "\<forall>i. tab[nat (o1 + v) := True] ! i \<longrightarrow> i < length tab \<longrightarrow> tab' ! i"
        "level \<noteq> LEVEL_DAY \<longrightarrow> md' = md" "\<not> e'" by auto
    have k: "nat (o1 + v) = nat o1 + nat v" "nat v < lev_len level" using v "1.prems"(2) by auto
    have "\<forall>i. i < nat o1 \<or> nat o1 + lev_len level \<le> i \<longrightarrow> tab' ! i = tab ! i"
      using ih(2) k by (auto simp: nth_list_update)
    moreover have "\<forall>i. tab ! i \<longrightarrow> i < length tab \<longrightarrow> tab' ! i" using ih(3) by (metis nth_list_update_eq nth_list_update_neq)
    ultimately show ?thesis using ih(1,4,5) by simp
  qed
qed

lemma scan_level_found:
  "scan_level level o1 tab md e r = Inr (tab', md', e', r') \<Longrightarrow> 0 \<le> o1 \<Longrightarrow> nat o1 + lev_len level \<le> length tab \<Longrightarrow>
   \<not> e' \<Longrightarrow> (e \<or> (\<exists>v < lev_len level. tab ! (nat o1 + v))) \<Longrightarrow> (\<exists>v < lev_len level. tab' ! (nat o1 + v))"
proof (induction level o1 tab md e r rule: scan_level.induct)
  case (1 level o1 tab md e r)
  show ?case
  proof (cases "cur r = CHR '';'' \<or> cur r = CHR 0x00")
    case True
    then show ?thesis using "1.prems" by (simp add: scan_level.simps [of level o1 tab md e r])
  next
    case False
    then obtain v n where v: "strtol10 r = Some (v, n)" "0 \<le> v" "v < GetScheduleLength level"
      using "1.prems"(1) by (auto simp: scan_level.simps [of level o1 tab md e r] invalid_schedule_def split: option.splits if_splits)
    let ?r = "drop n r"
    let ?rest = "if cur ?r = CHR '','' then drop 1 ?r else ?r"
    have s: "scan_level level o1 (tab[nat (o1 + v) := True]) (if level = LEVEL_DAY \<and> v < md then v else md) False ?rest =
        Inr (tab', md', e', r')"
      using "1.prems"(1) False v by (simp add: scan_level.simps [of level o1 tab md e r] Let_def)
    have nv: "\<not> (v < 0 \<or> GetScheduleLength level \<le> v)" using v by simp
    have k: "nat (o1 + v) = nat o1 + nat v" "nat v < lev_len level" using v "1.prems"(2) by auto
    have "nat o1 + nat v < length tab" using k(2) "1.prems"(3) by linarith
    then have "tab[nat (o1 + v) := True] ! (nat o1 + nat v)" using k(1) by simp
    then have "False \<or> (\<exists>u < lev_len level. tab[nat (o1 + v) := True] ! (nat o1 + u))" using k(2) by blast
    from "1.IH" [OF False v(1) refl nv refl s "1.prems"(2) _ "1.prems"(4) this] "1.prems"(3) show ?thesis by simp
  qed
qed

lemma scan_level_days:
  "scan_level LEVEL_DAY 144 tab md e r = Inr (tab', md', e', r') \<Longrightarrow> length tab = 194 \<Longrightarrow>
   (if e then md = 32 \<and> (\<forall>d < 31. \<not> tab ! (144 + d)) else days_ok tab md \<and> md \<noteq> 32) \<Longrightarrow>
   (if e' then md' = 32 else days_ok tab' md' \<and> md' \<noteq> 32)"
proof (induction LEVEL_DAY "144 :: int" tab md e r rule: scan_level.induct)
  case (1 tab md e r)
  show ?case
  proof (cases "cur r = CHR '';'' \<or> cur r = CHR 0x00")
    case True
    then show ?thesis using "1.prems" by (auto simp: scan_level.simps [of LEVEL_DAY 144 tab md e r] split: if_splits)
  next
    case False
    then obtain v n where v: "strtol10 r = Some (v, n)" "0 \<le> v" "v < 31"
      using "1.prems"(1) by (auto simp: scan_level.simps [of LEVEL_DAY 144 tab md e r] invalid_schedule_def
          GetScheduleLength_def split: option.splits if_splits)
    let ?r = "drop n r"
    let ?rest = "if cur ?r = CHR '','' then drop 1 ?r else ?r"
    let ?tab = "tab[nat (144 + v) := True]" and ?md = "if LEVEL_DAY = LEVEL_DAY \<and> v < md then v else md"
    have s: "scan_level LEVEL_DAY 144 ?tab ?md False ?rest = Inr (tab', md', e', r')"
      using "1.prems"(1) False v by (simp add: scan_level.simps [of LEVEL_DAY 144 tab md e r] Let_def GetScheduleLength_def)
    have nv: "\<not> (v < 0 \<or> GetScheduleLength LEVEL_DAY \<le> v)" using v by (simp add: GetScheduleLength_def)
    have tab: "?tab ! (144 + d) \<longleftrightarrow> d = nat v \<or> tab ! (144 + d)" if "d < 31" for d
      using that v "1.prems"(2) by (auto simp: nth_list_update nat_add_distrib)
    have "days_ok ?tab ?md \<and> ?md \<noteq> 32"
    proof (cases e)
      case True
      then show ?thesis using "1.prems"(3) v tab by (auto simp: days_ok_def)
    next
      case False
      then have d: "0 \<le> md" "md < 31" "tab ! (144 + nat md)" "\<forall>d < 31. tab ! (144 + d) \<longrightarrow> md \<le> int d" "md \<noteq> 32"
        using "1.prems"(3) by (auto simp: days_ok_def)
      show ?thesis using d v tab by (auto simp: days_ok_def)
    qed
    then show ?thesis using "1.hyps" [OF False v(1) refl nv refl s] "1.prems"(2) by simp
  qed
qed

lemma length_fill [simp]: "length (fill tab o1 n) = length tab"
proof -
  have "length (foldl (\<lambda>t i. t[i := True]) tab ks) = length tab" for tab ks by (induction ks arbitrary: tab) auto
  then show ?thesis by (simp add: fill_def)
qed

lemma nth_fill: "0 \<le> o1 \<Longrightarrow> 0 \<le> n \<Longrightarrow> nat (o1 + n) \<le> length tab \<Longrightarrow> i < length tab \<Longrightarrow>
  fill tab o1 n ! i \<longleftrightarrow> tab ! i \<or> (nat o1 \<le> i \<and> i < nat o1 + nat n)"
proof -
  have "(\<forall>j \<in> set ks. j < length tab) \<Longrightarrow> i < length tab \<Longrightarrow> foldl (\<lambda>t i. t[i := True]) tab ks ! i \<longleftrightarrow> tab ! i \<or> i \<in> set ks" for tab ks
    by (induction ks arbitrary: tab) (auto simp: nth_list_update)
  then show "0 \<le> o1 \<Longrightarrow> 0 \<le> n \<Longrightarrow> nat (o1 + n) \<le> length tab \<Longrightarrow> i < length tab \<Longrightarrow>
    fill tab o1 n ! i \<longleftrightarrow> tab ! i \<or> (nat o1 \<le> i \<and> i < nat o1 + nat n)"
    by (auto simp: fill_def nat_add_distrib)
qed

section \<open>The parser\<close>

definition lvl_start :: "nat \<Rightarrow> nat" where
  "lvl_start level = (if level < 6 then off level else 194)"

lemma level_cases: "level < 6 \<Longrightarrow> level = 0 \<or> level = 1 \<or> level = 2 \<or> level = 3 \<or> level = 4 \<or> level = (5::nat)"
  by presburger

lemma lvl_facts:
  assumes "level < 6"
  shows "lvl_start level = off level" "off level + lev_len level = lvl_start (Suc level)" "lvl_start (Suc level) \<le> 194"
    "0 \<le> GetScheduleOffset level" "0 < GetScheduleLength level"
    "level < 5 \<Longrightarrow> GetScheduleOffset level + GetScheduleLength level = GetScheduleOffset (Suc level)"
  using level_cases [OF assms]
  by (auto simp: lvl_start_def off_def GetScheduleOffset_def GetScheduleLength_def)

lemma lvl_start_mono: "k \<le> 6 \<Longrightarrow> l < k \<Longrightarrow> lvl_start (Suc l) \<le> lvl_start k"
proof (induction k)
  case (Suc k)
  then have "lvl_start k \<le> lvl_start (Suc k)" using lvl_facts(1,2) [of k] by simp
  then show ?case using Suc by (cases "l = k") auto
qed simp

text \<open>After the levels below \<open>k\<close>: they are not empty, nothing is set above, and the smallest day is known.\<close>

definition parsed :: "nat \<Rightarrow> bool list \<Rightarrow> int \<Rightarrow> bool" where
  "parsed k tab md \<longleftrightarrow> length tab = 194 \<and> (\<forall>l < k. level_full tab l) \<and>
     (\<forall>i. lvl_start k \<le> i \<longrightarrow> i < 194 \<longrightarrow> \<not> tab ! i) \<and> (if k \<le> LEVEL_DAY then md = 32 else days_ok tab md)"

lemma parsed_step:
  assumes "parsed k tab md" "k < 6" "scan_level k (GetScheduleOffset k) tab md True r = Inr (tab1, md1, e, r1)"
  shows "parsed (Suc k) (if e then fill tab1 (GetScheduleOffset k) (GetScheduleLength k) else tab1) md1"
proof -
  let ?o = "GetScheduleOffset k" and ?t = "if e then fill tab1 (GetScheduleOffset k) (GetScheduleLength k) else tab1"
  note f = lvl_facts [OF assms(2)]
  have len: "length tab = 194" using assms(1) by (simp add: parsed_def)
  note fr = scan_level_frame [OF assms(3) f(4)]
  have l1: "length tab1 = 194" using fr len by simp
  have no: "nat ?o = off k" by (simp add: off_def)
  have ends: "nat (?o + GetScheduleLength k) \<le> 194" using f no by (simp add: nat_add_distrib)
  have t: "?t ! i \<longleftrightarrow> tab1 ! i \<or> (e \<and> off k \<le> i \<and> i < lvl_start (Suc k))" if "i < 194" for i
    using nth_fill [of ?o "GetScheduleLength k" tab1 i] f ends l1 that no by simp
  have below: "?t ! i = tab ! i" if "i < off k" for i
  proof -
    have "i < 194" using that f(1-3) by linarith
    then show ?thesis using t [of i] fr that no by auto
  qed
  have above: "\<not> ?t ! i" if "lvl_start (Suc k) \<le> i" "i < 194" for i
  proof -
    have "tab1 ! i = tab ! i" using fr that f(2) no by simp
    moreover have "lvl_start k \<le> i" using that f(1,2) by simp
    ultimately show ?thesis using t [of i] that assms(1) by (simp add: parsed_def)
  qed
  have full_k: "level_full ?t k"
  proof (cases e)
    case True
    have n: "0 < lev_len k" using f(5) by simp
    moreover have "off k < lvl_start (Suc k)" "off k < 194" using n f(2,3) by linarith+
    then have "?t ! (off k + 0)" using t [of "off k"] True by simp
    ultimately show ?thesis unfolding level_full_def by blast
  next
    case False
    have "nat ?o + lev_len k \<le> length tab" using f no len by simp
    from scan_level_found [OF assms(3) f(4) this False] False show ?thesis by (simp add: level_full_def no)
  qed
  have full: "level_full ?t l" if "l < Suc k" for l
  proof (cases "l = k")
    case False
    then have "level_full tab l" "lvl_start (Suc l) \<le> off k"
      using that assms(1) lvl_start_mono [of k l] assms(2) f(1) by (auto simp: parsed_def)
    moreover have "off l + lev_len l = lvl_start (Suc l)" using lvl_facts(2) [of l] that assms(2) by simp
    ultimately show ?thesis using below unfolding level_full_def by (metis add_less_cancel_left less_le_trans)
  qed (use full_k in simp)
  have days: "if Suc k \<le> LEVEL_DAY then md1 = 32 else days_ok ?t md1"
  proof -
    consider "k < 3" | "k = 3" | "k > 3" by linarith
    then show ?thesis
    proof cases
      case 1
      then show ?thesis using fr assms(1) by (simp add: parsed_def)
    next
      case 2
      have start: "lvl_start 3 = 144" "lvl_start (Suc 3) = 175" "off 3 = 144" "?o = 144"
        using 2 by (simp_all add: lvl_start_def off_def GetScheduleOffset_def)
      have clean: "\<forall>d < 31. \<not> tab ! (144 + d)" "md = 32" using assms(1) 2 start by (auto simp: parsed_def)
      have s: "scan_level LEVEL_DAY 144 tab md True r = Inr (tab1, md1, e, r1)" using assms(3) 2 start by simp
      have "if e then md1 = 32 else days_ok tab1 md1 \<and> md1 \<noteq> 32"
        by (rule scan_level_days [OF s len]) (use clean in simp)
      moreover have "e \<Longrightarrow> \<forall>d < 31. ?t ! (144 + d)"
      proof (intro allI impI)
        fix d :: nat assume "e" "d < 31"
        then show "?t ! (144 + d)" using t [of "144 + d"] 2 start by simp
      qed
      ultimately show ?thesis using 2 by (auto simp: days_ok_def)
    next
      case 3
      then have "175 \<le> off k" using level_cases [OF assms(2)] by (auto simp: off_def GetScheduleOffset_def)
      then have "d < 31 \<Longrightarrow> ?t ! (144 + d) = tab ! (144 + d)" for d using below [of "144 + d"] by simp
      moreover have "md1 = md" "days_ok tab md" using fr 3 assms(1) by (auto simp: parsed_def)
      ultimately show ?thesis using 3 by (auto simp: days_ok_def)
    qed
  qed
  show ?thesis using l1 full above days by (simp add: parsed_def)
qed

lemma parse_levels_parsed:
  "k \<le> 6 \<Longrightarrow> parsed k tab md \<Longrightarrow> parse_levels [k..<6] (GetScheduleOffset k) tab md r = Inr (tab', md', r') \<Longrightarrow>
   parsed 6 tab' md'"
proof (induction "6 - k" arbitrary: k tab md r)
  case (Suc n)
  then have k: "k < 6" by simp
  have up: "[k..<6] = k # [Suc k..<6]" using k by (rule upt_conv_Cons)
  obtain tab1 md1 e r1 where s: "scan_level k (GetScheduleOffset k) tab md True r = Inr (tab1, md1, e, r1)"
    using Suc.prems(3) up by (auto simp: bindr_eq_Inr)
  let ?t = "if e then fill tab1 (GetScheduleOffset k) (GetScheduleLength k) else tab1"
  let ?r = "if cur r1 = CHR '';'' then drop 1 r1 else r1"
  have rest: "parse_levels [Suc k..<6] (GetScheduleOffset k + GetScheduleLength k) ?t md1 ?r = Inr (tab', md', r')"
    using Suc.prems(3) up s by simp
  note p = parsed_step [OF Suc.prems(2) k s]
  show ?case
  proof (cases "k = 5")
    case True
    then show ?thesis using rest p by simp
  next
    case False
    then have "parse_levels [Suc k..<6] (GetScheduleOffset (Suc k)) ?t md1 ?r = Inr (tab', md', r')"
      using rest lvl_facts(6) [OF k] k by simp
    with Suc.hyps(1) [of "Suc k"] Suc.hyps(2) p k show ?thesis by simp
  qed
qed simp

lemma parsed_start: "parsed 0 (replicate 194 False) 32"
  by (simp add: parsed_def)

lemma levels_upt: "[0, 1, 2, 3, 4, 5] = [0..<6::nat]"
  by (simp add: upt_rec)

lemma parse_all:
  assumes "parse_all_levels s = Inr (tab, md, r)"
  shows "length tab = 194 \<and> (\<forall>l < 6. level_full tab l) \<and> days_ok tab md \<and> (\<exists>m < 12. tab ! (175 + m))"
proof -
  have o0: "GetScheduleOffset 0 = 0" by (simp add: GetScheduleOffset_def)
  have "parsed 6 tab md"
    by (rule parse_levels_parsed [of 0, OF _ parsed_start]) (use assms in \<open>simp_all add: levels_upt [symmetric] o0 parse_all_levels_def\<close>)
  moreover from this have "level_full tab LEVEL_MONTH" by (simp add: parsed_def)
  ultimately show ?thesis
    by (auto simp: parsed_def level_full_def off_def GetScheduleOffset_def GetScheduleLength_def)
qed

lemma Schedule_new_parsed:
  assumes "s \<noteq> []" "parse_all_levels s = Inr (tab, md, r)" "cur r = CHR 0x00"
  shows "Schedule_new s = (if has_date tab then Inr tab
    else invalid_schedule ''Schedule constraints are impossible to satisfy'')"
proof -
  have "days_ok tab md" "\<exists>m < 12. tab ! (175 + m)" using parse_all [OF assms(2)] by blast+
  note d = has_date_min [OF this]
  show ?thesis unfolding Schedule_new_def if_not_P [OF assms(1)] assms(2) bindr.simps prod.case
    using assms(3) by (simp add: d)
qed

section \<open>Properties\<close>

text \<open>C12: An accepted schedule can come true: the table has its 194 entries, every level allows some value,
  and some allowed day exists in some allowed month (February counted with 29 days).\<close>
theorem Schedule_new_satisfiable:
  assumes "Schedule_new s = Inr tab"
  shows "length tab = 194 \<and> (\<forall>l < 6. level_full tab l) \<and> has_date tab"
proof -
  from assms obtain md r where p: "s \<noteq> []" "parse_all_levels s = Inr (tab, md, r)"
    "cur r = CHR 0x00"
    by (auto simp: Schedule_new_def invalid_schedule_def bindr_eq_Inr split: if_splits)
  from Schedule_new_parsed [OF p] have "has_date tab" using assms
    by (simp add: invalid_schedule_def split: if_splits)
  then show ?thesis using parse_all [OF p(2)] by simp
qed

theorem Schedule_new_satisfiable_witness:
  "\<exists>tab. Schedule_new ''0,30;0;0;28;1;1'' = Inr tab \<and> length tab = 194 \<and> has_date tab"
proof -
  have "case Schedule_new ''0,30;0;0;28;1;1'' of Inl _ \<Rightarrow> False | Inr _ \<Rightarrow> True" by code_simp
  then obtain tab where "Schedule_new ''0,30;0;0;28;1;1'' = Inr tab" by (auto split: sum.splits)
  with Schedule_new_satisfiable [OF this] show ?thesis by blast
qed

subsection \<open>Reading back a written schedule\<close>

fun join_nats :: "nat list \<Rightarrow> string" where
  "join_nats [] = []"
| "join_nats [v] = show_nat v"
| "join_nats (v # vs) = show_nat v @ CHR '','' # join_nats vs"

fun print_levels :: "nat list list \<Rightarrow> string" where
  "print_levels [] = []"
| "print_levels [vs] = join_nats vs"
| "print_levels (vs # ls) = join_nats vs @ CHR '';'' # print_levels ls"

text \<open>The table the levels describe: those given without values are full.\<close>

definition describes :: "nat list list \<Rightarrow> nat \<Rightarrow> bool list \<Rightarrow> bool" where
  "describes levels k tab \<longleftrightarrow>
     (\<forall>l < k. \<forall>v < lev_len l. tab ! (off l + v) \<longleftrightarrow> levels ! l = [] \<or> v \<in> set (levels ! l))"

lemma show_nat_first: "\<exists>c cs. show_nat v = c # cs \<and> isdigit c"
  using show_nat_digits [of v] show_nat_nonempty [of v] by (cases "show_nat v") auto

lemma not_digit_marks: "\<not> isdigit (CHR '','')" "\<not> isdigit (CHR '';'')" "\<not> isdigit (CHR 0x00)"
  by (simp_all add: isdigit_def byte_def)

lemma scan_level_one:
  assumes "v < lev_len level" "rest = [] \<or> hd rest = CHR '';'' \<or> hd rest = CHR '',''"
  shows "scan_level level o1 tab md e (show_nat v @ rest) =
    scan_level level o1 (tab[nat (o1 + int v) := True]) (if level = LEVEL_DAY \<and> int v < md then int v else md) False
      (if cur rest = CHR '','' then drop 1 rest else rest)"
proof -
  have nd: "rest = [] \<or> \<not> isdigit (hd rest)" using assms(2) not_digit_marks by auto
  have st: "strtol10 (show_nat v @ rest) = Some (int v, length (show_nat v))"
    using strtol10_digits [OF show_nat_digits show_nat_nonempty nd] by simp
  obtain c cs where c: "show_nat v = c # cs" "isdigit c" using show_nat_first by blast
  then have "cur (show_nat v @ rest) = c" by (simp add: at_def)
  then have nc: "\<not> (cur (show_nat v @ rest) = CHR '';'' \<or> cur (show_nat v @ rest) = CHR 0x00)"
    using c(2) not_digit_marks by metis
  have rg: "\<not> (int v < 0 \<or> GetScheduleLength level \<le> int v)" using assms(1) by auto
  show ?thesis
    unfolding scan_level.simps [of level o1 tab md e "show_nat v @ rest"] if_not_P [OF nc] st option.case prod.case
      if_not_P [OF rg] Let_def by simp
qed

lemma scan_level_values:
  "\<forall>v \<in> set vs. v < lev_len level \<Longrightarrow> rest = [] \<or> hd rest = CHR '';'' \<Longrightarrow>
   \<exists>md'. scan_level level o1 tab md e (join_nats vs @ rest) =
     Inr (foldl (\<lambda>t v. t[nat (o1 + int v) := True]) tab vs, md', e \<and> vs = [], rest)"
proof (induction vs arbitrary: tab md e rule: join_nats.induct)
  case 1
  then have "cur rest = CHR '';'' \<or> cur rest = CHR 0x00" by (cases rest) (auto simp: at_def)
  then show ?case by (simp add: scan_level.simps [of level o1 tab md e rest])
next
  case (2 v)
  have c: "cur rest \<noteq> CHR '',''" "cur rest = CHR '';'' \<or> cur rest = CHR 0x00"
    using 2 by (cases rest; auto simp: at_def)+
  have "v < lev_len level" "rest = [] \<or> hd rest = CHR '';'' \<or> hd rest = CHR '',''" using 2 by auto
  from scan_level_one [OF this, of o1 tab md e] c show ?case
    by (simp add: scan_level.simps [of level o1 "tab[nat (o1 + int v) := True]"])
next
  case (3 v w vs)
  have "cur (CHR '','' # join_nats (w # vs) @ rest) = CHR '',''" by (simp add: at_def)
  then show ?case
    using scan_level_one [of v level "CHR '','' # join_nats (w # vs) @ rest" o1 tab md e] 3 by simp
qed

lemma nth_foldl_set:
  "i < length tab \<Longrightarrow> 0 \<le> o1 \<Longrightarrow>
   foldl (\<lambda>t v. t[nat (o1 + int v) := True]) tab vs ! i \<longleftrightarrow> tab ! i \<or> (\<exists>v \<in> set vs. i = nat o1 + v)"
proof (induction vs arbitrary: tab)
  case (Cons v vs)
  have "nat (o1 + int v) = nat o1 + v" using Cons.prems(2) by simp
  moreover have "tab[nat o1 + v := True] ! i \<longleftrightarrow> i = nat o1 + v \<or> tab ! i"
    using Cons.prems(1) by (cases "i = nat o1 + v") simp_all
  ultimately show ?case using Cons.IH [of "tab[nat (o1 + int v) := True]"] Cons.prems by auto
qed simp

lemma describes_step:
  assumes "parsed k tab md" "describes levels k tab" "k < 6" "\<forall>v \<in> set (levels ! k). v < lev_len k"
  shows "describes levels (Suc k)
    (if levels ! k = [] then fill (foldl (\<lambda>t v. t[nat (GetScheduleOffset k + int v) := True]) tab (levels ! k))
        (GetScheduleOffset k) (GetScheduleLength k)
     else foldl (\<lambda>t v. t[nat (GetScheduleOffset k + int v) := True]) tab (levels ! k))" (is "describes _ _ ?t")
proof -
  note f = lvl_facts [OF assms(3)]
  have len: "length tab = 194" "\<forall>i. off k \<le> i \<longrightarrow> i < 194 \<longrightarrow> \<not> tab ! i"
    using assms(1) f(1) by (auto simp: parsed_def)
  have no: "nat (GetScheduleOffset k) = off k" by (simp add: off_def)
  have ends: "nat (GetScheduleOffset k + GetScheduleLength k) \<le> 194" using f no by (simp add: nat_add_distrib)
  have t: "?t ! i \<longleftrightarrow> tab ! i \<or> (\<exists>v \<in> set (levels ! k). i = off k + v) \<or> (levels ! k = [] \<and> off k \<le> i \<and> i < off k + lev_len k)"
    if "i < 194" for i
    using nth_foldl_set [of i tab "GetScheduleOffset k" "levels ! k"] nth_fill [of "GetScheduleOffset k" "GetScheduleLength k" tab i]
      f(4,5) ends len(1) that no by auto
  have "?t ! (off l + v) \<longleftrightarrow> levels ! l = [] \<or> v \<in> set (levels ! l)" if l: "l < Suc k" "v < lev_len l" for l v
  proof (cases "l = k")
    case True
    have "v < lev_len k" using l(2) True by simp
    then have i: "off k + v < 194" using f(2,3) by linarith
    then show ?thesis using t [OF i] len(2) l True by auto
  next
    case False
    then have "l < k" using l(1) by simp
    have "off l + v < lvl_start (Suc l)" using lvl_facts(2) [of l] l \<open>l < k\<close> assms(3) by simp
    also have "\<dots> \<le> off k" using lvl_start_mono [OF _ \<open>l < k\<close>] assms(3) f(1) by simp
    finally have i: "off l + v < off k" .
    then have "off l + v < 194" using f(2,3,5) by linarith
    then show ?thesis using t [of "off l + v"] i assms(2,4) \<open>l < k\<close> l(2) unfolding describes_def by auto
  qed
  then show ?thesis by (simp add: describes_def)
qed

lemma parse_levels_print:
  "k \<le> 6 \<Longrightarrow> length levels = 6 \<Longrightarrow> \<forall>l < 6. \<forall>v \<in> set (levels ! l). v < lev_len l \<Longrightarrow> parsed k tab md \<Longrightarrow> describes levels k tab \<Longrightarrow>
   \<exists>tab' md'. parse_levels [k..<6] (GetScheduleOffset k) tab md (print_levels (drop k levels)) = Inr (tab', md', []) \<and>
     parsed 6 tab' md' \<and> describes levels 6 tab'"
proof (induction "6 - k" arbitrary: k tab md)
  case (Suc n)
  then have k: "k < 6" by simp
  have up: "[k..<6] = k # [Suc k..<6]" using k by (rule upt_conv_Cons)
  have dr: "drop k levels = levels ! k # drop (Suc k) levels" using k Suc.prems(2) by (simp add: Cons_nth_drop_Suc)
  obtain rest where pr: "print_levels (drop k levels) = join_nats (levels ! k) @ rest"
    "rest = (if k = 5 then [] else CHR '';'' # print_levels (drop (Suc k) levels))"
  proof (cases "k = 5")
    case True
    then show ?thesis using that dr Suc.prems(2) by simp
  next
    case False
    then obtain x xs where "drop (Suc k) levels = x # xs" using k Suc.prems(2) by (cases "drop (Suc k) levels") auto
    then show ?thesis using that dr False by simp
  qed
  have vk: "\<forall>v \<in> set (levels ! k). v < lev_len k" using Suc.prems(3) k by blast
  let ?t = "foldl (\<lambda>t v. t[nat (GetScheduleOffset k + int v) := True]) tab (levels ! k)"
  obtain md1 where s: "scan_level k (GetScheduleOffset k) tab md True (join_nats (levels ! k) @ rest) =
      Inr (?t, md1, levels ! k = [], rest)"
    using scan_level_values [OF vk, of rest "GetScheduleOffset k" tab md True] pr(2) by (auto split: if_splits)
  let ?t1 = "if levels ! k = [] then fill ?t (GetScheduleOffset k) (GetScheduleLength k) else ?t"
  have p1: "parsed (Suc k) ?t1 md1" by (rule parsed_step [OF Suc.prems(4) k s])
  have d1: "describes levels (Suc k) ?t1" by (rule describes_step [OF Suc.prems(4,5) k vk])
  have step: "parse_levels [k..<6] (GetScheduleOffset k) tab md (print_levels (drop k levels)) =
      parse_levels [Suc k..<6] (GetScheduleOffset k + GetScheduleLength k) ?t1 md1
        (if cur rest = CHR '';'' then drop 1 rest else rest)"
    unfolding up pr(1) parse_levels.simps s bindr.simps prod.case ..
  show ?case
  proof (cases "k = 5")
    case True
    then show ?thesis using step pr(2) p1 d1 by (simp add: at_def)
  next
    case False
    have "cur rest = CHR '';''" "drop 1 rest = print_levels (drop (Suc k) levels)"
      using pr(2) False by (simp_all add: at_def)
    moreover have "GetScheduleOffset k + GetScheduleLength k = GetScheduleOffset (Suc k)"
      using lvl_facts(6) [OF k] k False by simp
    ultimately show ?thesis using Suc.hyps(1) [of "Suc k" ?t1 md1] Suc.hyps(2) Suc.prems(2,3) p1 d1 k step by simp
  qed
qed simp

lemma print_levels_nonempty: "length levels = 6 \<Longrightarrow> print_levels levels \<noteq> []"
  by (cases levels rule: print_levels.cases) auto

text \<open>C13: Writing the values of the six levels down and parsing the text gives the table with exactly these values
  (a level without values is full); it is refused only when no allowed day exists in an allowed month.\<close>
theorem Schedule_new_print:
  assumes "length levels = 6" "\<forall>l < 6. \<forall>v \<in> set (levels ! l). v < lev_len l"
  shows "\<exists>tab. length tab = 194 \<and> describes levels 6 tab \<and>
    Schedule_new (print_levels levels) = (if has_date tab then Inr tab
      else invalid_schedule ''Schedule constraints are impossible to satisfy'')"
proof -
  have "describes levels 0 (replicate 194 False)" by (simp add: describes_def)
  moreover have o0: "GetScheduleOffset 0 = 0" by (simp add: GetScheduleOffset_def)
  ultimately obtain tab md where
    t: "parse_all_levels (print_levels levels) = Inr (tab, md, [])" "parsed 6 tab md" "describes levels 6 tab"
    using parse_levels_print [OF _ assms parsed_start] unfolding parse_all_levels_def levels_upt by fastforce
  moreover have "cur [] = CHR 0x00" by (simp add: at_def)
  ultimately show ?thesis
    using Schedule_new_parsed [OF print_levels_nonempty [OF assms(1)] t(1)] by (auto simp: parsed_def)
qed

theorem Schedule_new_print_witness:
  "\<exists>tab. describes [[0, 30], [0], [], [28, 29], [1], []] 6 tab \<and> length tab = 194 \<and>
     Schedule_new (print_levels [[0, 30], [0], [], [28, 29], [1], []]) =
       (if has_date tab then Inr tab else invalid_schedule ''Schedule constraints are impossible to satisfy'')"
proof -
  have "\<forall>l < 6. \<forall>v \<in> set ([[0, 30], [0], [], [28, 29], [1], []] ! l). v < lev_len l"
    by (auto dest!: level_cases simp: GetScheduleLength_def)
  moreover have "length [[0, 30], [0], [], [28, 29], [1], [] :: nat list] = 6" by simp
  ultimately show ?thesis using Schedule_new_print by blast
qed

text \<open>Whether the table allows a time.\<close>

definition allows_time :: "calendar \<Rightarrow> bool list \<Rightarrow> int \<Rightarrow> bool" where
  "allows_time cal tab t =
     (let l = localtime_r cal t
      in tab ! (off 0 + tm_sec l) \<and> tab ! (off 1 + tm_min l) \<and> tab ! (off 2 + tm_hour l) \<and>
         tab ! (off 3 + (tm_mday l - 1)) \<and> tab ! (off 4 + tm_mon l) \<and> tab ! (off 5 + tm_wday l))"

text \<open>The search can miss a time: for "second 0 and 30 of Monday midnight" in UTC, asked on a Sunday at
  00:00:10, it returns Monday 00:00:30 although Monday 00:00:00 is allowed and in the future (moving on to
  the next day keeps the second that was found).\<close>
theorem next_time_missed:
  "bindr (Schedule_new ''0,30;0;0;;;1'') (\<lambda>tab. bindr (GetNextTime 3 utc tab 1699747209) (\<lambda>t.
     Inr (t, allows_time utc tab 1699833600))) = Inr (1699833630, True)"
  by code_simp

end
