(* ===== verification/RetryPolicy.thy ===== *)
theory RetryPolicy
  imports EvqBase
begin

text \<open>
  Retries of a failed task: src/WorkflowInstance/retry.cpp, with the attribute readers of
  src/XML/XMLUtils.cpp.

  The attributes of a DOM element are a map, a retry schedule of the workflow document is a name
  with the attributes of its levels; looking a schedule up stands for the query by name of the
  source, for names without a quote (those RetrySchedule accepts). The clock and the text of a date
  are arguments. The statistics of the job are not modelled.
\<close>

section \<open>Attributes\<close>

type_synonym attrs = "string \<Rightarrow> string option"

definition getAttribute :: "attrs \<Rightarrow> string \<Rightarrow> string" where
  "getAttribute a name = (case a name of None \<Rightarrow> [] | Some v \<Rightarrow> v)"

abbreviation hasAttribute :: "attrs \<Rightarrow> string \<Rightarrow> bool" where
  "hasAttribute a name \<equiv> a name \<noteq> None"

definition GetAttribute :: "attrs \<Rightarrow> string \<Rightarrow> bool \<Rightarrow> (string \<times> attrs) res" where
  "GetAttribute a name remove_attribute =
     (case a name of
        None \<Rightarrow> Inl (Exn ''XMLUtils'' (''Attribute '' @ [CHR 0x27] @ name @ [CHR 0x27] @ '' does not exist'') [])
      | Some v \<Rightarrow> Inr (v, if remove_attribute then a(name := None) else a))"

definition GetAttributeBool :: "attrs \<Rightarrow> string \<Rightarrow> bool \<Rightarrow> (bool \<times> attrs) res" where
  "GetAttributeBool a name remove_attribute =
     bindr (GetAttribute a name remove_attribute) (\<lambda>(val, a').
       if val = ''yes'' then Inr (True, a')
       else if val = ''no'' then Inr (False, a')
       else catch_all (bindr (stoi val) (\<lambda>(i, n). Inr (i \<noteq> 0, a')))
              (Inl (Exn ''XML Parser'' (''Attribute '' @ [CHR 0x27] @ name @ [CHR 0x27] @
                 '' has invalid boolean value'') ''INVALID_BOOLEAN'')))"

definition GetAttributeInt :: "attrs \<Rightarrow> string \<Rightarrow> bool \<Rightarrow> (int \<times> attrs) res" where
  "GetAttributeInt a name remove_attribute =
     bindr (GetAttribute a name remove_attribute) (\<lambda>(val, a').
       catch_all (bindr (stoi val) (\<lambda>(i, n). Inr (i, a')))
         (Inl (Exn ''XML Parser'' (''Attribute '' @ [CHR 0x27] @ name @ [CHR 0x27] @
            '' has invalid integer value'') ''INVALID_INTEGER'')))"

definition attr_int :: "attrs \<Rightarrow> string \<Rightarrow> int res" where
  "attr_int a name = bindr (GetAttributeInt a name False) (\<lambda>(i, a'). Inr i)"

section \<open>State\<close>

text \<open>\<open>timers\<close> are the times handed to the retrier with the task, the last one at the end.\<close>

record retry_wf =
  root_attrs :: attrs
  error_tasks :: nat
  retrying_tasks :: nat
  running_tasks :: nat
  timers :: "int list"

type_synonym schedules = "(string \<times> attrs list) list"

section \<open>Operations\<close>

text \<open>
  The delay and the number of retries are local variables of the caller that start uninitialised
  (\<open>None\<close>) and that \<open>schedule_update\<close> leaves alone when the schedule is unknown.
\<close>

definition schedule_update ::
  "schedules \<Rightarrow> attrs \<Rightarrow> string \<Rightarrow> int option \<Rightarrow> int option \<Rightarrow> (attrs \<times> int option \<times> int option) res" where
  "schedule_update docs task schedule_name delay0 times0 =
     (case map_of docs schedule_name of
        None \<Rightarrow> Inr (task, delay0, times0)
      | Some levels \<Rightarrow>
          bindr (if hasAttribute task ''retry_schedule_level'' then attr_int task ''retry_schedule_level'' else Inr 0) (\<lambda>lv0.
          bindr (int_ck (lv0 + 1)) (\<lambda>lv.
          let task1 = task(''retry_schedule_level'' \<mapsto> to_string lv)
          in if lv > int (length levels) then Inr (task1, Some 0, Some 0)
             else if lv \<le> 0 then Inl (Exn ''DOMXPathResult'' ''Invalid index'' [])
             else
               let level = levels ! nat (lv - 1);
                   delay_str = getAttribute level ''retry_delay'';
                   times_str = getAttribute level ''retry_times'';
                   task2 = task1(''retry_delay'' \<mapsto> delay_str, ''retry_times'' \<mapsto> times_str)
               in bindr (stoi delay_str) (\<lambda>(d, _). bindr (stoi times_str) (\<lambda>(n, _).
                    Inr (task2, Some d, Some n))))))"

definition give_up :: "retry_wf \<Rightarrow> retry_wf" where
  "give_up w = w\<lparr>error_tasks := error_tasks w + 1\<rparr>"

text \<open>The end of \<open>retry_task\<close>, once the delay and the number of retries are known.\<close>

definition retry_insert ::
  "(int \<Rightarrow> string) \<Rightarrow> int \<Rightarrow> int \<Rightarrow> retry_wf \<Rightarrow> attrs \<Rightarrow> int \<Rightarrow> int \<Rightarrow> (retry_wf \<times> attrs) res" where
  "retry_insert fmt now now2 w task delay tries =
     (if delay = 0 \<or> tries = 0 then Inr (give_up w, task)
      else if hasAttribute task ''retry_retval'' \<and> getAttribute task ''retry_retval'' \<noteq> getAttribute task ''retval''
      then Inr (give_up w, task)
      else bindr (int_ck (tries - 1)) (\<lambda>left.
        Inr (w\<lparr>timers := timers w @ [now2 + delay], retrying_tasks := retrying_tasks w + 1\<rparr>,
             task(''retry_at'' \<mapsto> fmt (now + delay), ''retry_times'' \<mapsto> to_string left))))"

definition retry_task ::
  "(int \<Rightarrow> string) \<Rightarrow> schedules \<Rightarrow> int \<Rightarrow> int \<Rightarrow> retry_wf \<Rightarrow> attrs \<Rightarrow> (retry_wf \<times> attrs) res" where
  "retry_task fmt docs now now2 w task =
     (let retry_schedule = getAttribute task ''retry_schedule'';
          known = (\<lambda>(task1, delay, tries).
            bindr (if retry_schedule \<noteq> [] \<and> tries = Some 0
                   then schedule_update docs task1 retry_schedule delay tries
                   else Inr (task1, delay, tries)) (\<lambda>(task2, delay2, tries2).
            case (delay2, tries2) of
              (Some d, Some n) \<Rightarrow> retry_insert fmt now now2 w task2 d n
            | _ \<Rightarrow> Inl (UB ''uninitialised retry_delay'')))
      in bindr (if hasAttribute task ''retry_schedule_level'' then attr_int task ''retry_schedule_level'' else Inr 0) (\<lambda>lv.
         if retry_schedule \<noteq> [] \<and> lv = 0 then
           bindr (schedule_update docs task retry_schedule None None) (\<lambda>(t1, d1, n1).
             if n1 = None then Inl (UB ''uninitialised retry_times'') else known (t1, d1, n1))
         else if \<not> hasAttribute task ''retry_delay'' then Inr (give_up w, task)
         else bindr (attr_int task ''retry_delay'') (\<lambda>d.
           if \<not> hasAttribute task ''retry_times'' then Inr (give_up w, task)
           else bindr (attr_int task ''retry_times'') (\<lambda>n. known (task, Some d, Some n)))))"

text \<open>Whether the workflow has ended, and the document it then leaves.\<close>

definition workflow_ended :: "retry_wf \<Rightarrow> bool \<times> retry_wf" where
  "workflow_ended w =
     (if running_tasks w = 0 \<and> retrying_tasks w = 0 then
        let r1 = (root_attrs w)(''status'' \<mapsto> ''TERMINATED'')
        in (True, w\<lparr>root_attrs := if error_tasks w > 0 then r1(''errors'' \<mapsto> to_string (int (error_tasks w))) else r1\<rparr>)
      else (False, w))"

section \<open>A task that fails again and again\<close>

text \<open>
  The n-th failure happens at \<open>clock n\<close>; the run ends when the task is not retried any more. The
  state returned holds every timer that was set.
\<close>

primrec failing_run ::
  "nat \<Rightarrow> (int \<Rightarrow> string) \<Rightarrow> schedules \<Rightarrow> (nat \<Rightarrow> int) \<Rightarrow> nat \<Rightarrow> retry_wf \<Rightarrow> attrs \<Rightarrow> retry_wf res" where
  "failing_run 0 fmt docs clock n w task = Inl NoFuel"
| "failing_run (Suc k) fmt docs clock n w task =
     bindr (retry_task fmt docs (clock n) (clock n) w task) (\<lambda>(w', task').
       if retrying_tasks w' = retrying_tasks w then Inr w'
       else failing_run k fmt docs clock (Suc n) w' task')"

text \<open>A schedule whose levels have the given positive delays and numbers of retries.\<close>

definition level_attrs :: "int \<times> nat \<Rightarrow> attrs" where
  "level_attrs l = [''retry_delay'' \<mapsto> to_string (fst l), ''retry_times'' \<mapsto> to_string (int (snd l))]"

definition good_level :: "int \<times> nat \<Rightarrow> bool" where
  "good_level l \<longleftrightarrow> fst l > 0 \<and> int_range (fst l) \<and> snd l > 0 \<and> int_range (int (snd l))"

definition all_delays :: "(int \<times> nat) list \<Rightarrow> int list" where
  "all_delays ls = concat (map (\<lambda>(d, n). replicate n d) ls)"

text \<open>The task when it is in a level: \<open>i\<close> levels are begun, \<open>left\<close> retries of the last one remain.\<close>

definition in_level :: "string \<Rightarrow> (int \<times> nat) list \<Rightarrow> nat \<Rightarrow> nat \<Rightarrow> attrs \<Rightarrow> bool" where
  "in_level name ls i left task \<longleftrightarrow>
     task ''retry_schedule'' = Some name \<and>
     (task ''retry_retval'' = None \<or> task ''retry_retval'' = Some (getAttribute task ''retval'')) \<and>
     (if i = 0 then task ''retry_schedule_level'' = None
      else task ''retry_schedule_level'' = Some (to_string (int i)) \<and>
        task ''retry_delay'' = Some (to_string (fst (ls ! (i - 1)))) \<and>
        task ''retry_times'' = Some (to_string (int left)))"

definition to_come :: "(int \<times> nat) list \<Rightarrow> nat \<Rightarrow> nat \<Rightarrow> int list" where
  "to_come ls i left = (if i = 0 then [] else replicate left (fst (ls ! (i - 1)))) @ all_delays (drop i ls)"

lemma attr_int_to_string: "int_range i \<Longrightarrow> a name = Some (to_string i) \<Longrightarrow> attr_int a name = Inr i"
  by (simp add: attr_int_def GetAttributeInt_def GetAttribute_def stoi_to_string)

lemma update_next:
  assumes "map_of docs name = Some (map level_attrs ls)" "i < length ls" "good_level (ls ! i)"
    "int_range (int (length ls))"
    "task ''retry_schedule_level'' = (if i = 0 then None else Some (to_string (int i)))"
  shows "schedule_update docs task name d0 n0 =
    Inr (task(''retry_schedule_level'' \<mapsto> to_string (int i + 1), ''retry_delay'' \<mapsto> to_string (fst (ls ! i)),
              ''retry_times'' \<mapsto> to_string (int (snd (ls ! i)))),
         Some (fst (ls ! i)), Some (int (snd (ls ! i))))"
proof -
  have r: "int_range (int i)" "int_range (int i + 1)" using assms(2,4) by (auto simp: int_range_def)
  have lv: "(if hasAttribute task ''retry_schedule_level'' then attr_int task ''retry_schedule_level'' else Inr 0) = Inr (int i)"
    using assms(5) attr_int_to_string [OF r(1), of task "''retry_schedule_level''"] by auto
  have n: "\<not> int i + 1 > int (length ls)" "\<not> int i + 1 \<le> 0" "nat (int i + 1 - 1) = i" using assms(2) by auto
  show ?thesis
    using assms(1-3) r n lv
    by (simp add: schedule_update_def int_ck_def Let_def level_attrs_def getAttribute_def good_level_def stoi_to_string)
qed

lemma update_last:
  assumes "map_of docs name = Some (map level_attrs ls)" "length ls \<le> i" "int_range (int i + 1)"
    "task ''retry_schedule_level'' = (if i = 0 then None else Some (to_string (int i)))"
  shows "schedule_update docs task name d0 n0 =
    Inr (task(''retry_schedule_level'' \<mapsto> to_string (int i + 1)), Some 0, Some 0)"
proof -
  have r: "int_range (int i)" using assms(3) by (auto simp: int_range_def)
  have lv: "(if hasAttribute task ''retry_schedule_level'' then attr_int task ''retry_schedule_level'' else Inr 0) =
      Inr (int i)"
    using assms(4) attr_int_to_string [OF r, of task "''retry_schedule_level''"] by auto
  show ?thesis using assms(1-3) lv by (simp add: schedule_update_def int_ck_def Let_def)
qed

lemma insert_ok:
  assumes "d > 0" "n > 0" "int_range (int n)"
    "task ''retry_retval'' = None \<or> task ''retry_retval'' = Some (getAttribute task ''retval'')"
  shows "retry_insert fmt now now2 w task d (int n) =
    Inr (w\<lparr>timers := timers w @ [now2 + d], retrying_tasks := retrying_tasks w + 1\<rparr>,
         task(''retry_at'' \<mapsto> fmt (now + d), ''retry_times'' \<mapsto> to_string (int (n - 1))))"
proof -
  have c: "\<not> (hasAttribute task ''retry_retval'' \<and> getAttribute task ''retry_retval'' \<noteq> getAttribute task ''retval'')"
    using assms(4) by (auto simp: getAttribute_def)
  have r: "int_range (int n - 1)" using assms(2,3) by (auto simp: int_range_def)
  have n: "int (n - 1) = int n - 1" using assms(2) by simp
  have nz: "\<not> (d = 0 \<or> int n = 0)" using assms(1,2) by simp
  show ?thesis unfolding retry_insert_def if_not_P [OF nz] if_not_P [OF c] n int_ck_def if_P [OF r] by simp
qed

text \<open>What \<open>retry_task\<close> does at a failure, given the values the schedule then has.\<close>

lemma retry_first:
  assumes "task ''retry_schedule'' = Some name" "name \<noteq> []" "task ''retry_schedule_level'' = None"
    "schedule_update docs task name None None = Inr (task1, Some d, Some n)" "n \<noteq> 0"
  shows "retry_task fmt docs now now2 w task = retry_insert fmt now now2 w task1 d n"
  using assms by (simp add: retry_task_def getAttribute_def)

lemma retry_none:
  assumes "task ''retry_schedule'' = Some name" "name \<noteq> []" "task ''retry_schedule_level'' = None"
    "schedule_update docs task name None None = Inr (task1, Some 0, Some 0)"
    "schedule_update docs task1 name (Some 0) (Some 0) = Inr (task2, Some 0, Some 0)"
  shows "retry_task fmt docs now now2 w task = Inr (give_up w, task2)"
  using assms by (simp add: retry_task_def getAttribute_def retry_insert_def)

lemma retry_again:
  assumes "task ''retry_schedule'' = Some name" "name \<noteq> []" "int_range (int i)" "i > 0"
    "task ''retry_schedule_level'' = Some (to_string (int i))"
    "task ''retry_delay'' = Some (to_string d)" "int_range d"
    "task ''retry_times'' = Some (to_string (int left))" "int_range (int left)"
  shows "retry_task fmt docs now now2 w task =
    (if left = 0 then
       bindr (schedule_update docs task name (Some d) (Some 0)) (\<lambda>(t2, d2, n2).
         case (d2, n2) of (Some d, Some n) \<Rightarrow> retry_insert fmt now now2 w t2 d n
         | _ \<Rightarrow> Inl (UB ''uninitialised retry_delay''))
     else retry_insert fmt now now2 w task d (int left))"
  using assms attr_int_to_string [of "int i" task "''retry_schedule_level''"]
    attr_int_to_string [of d task "''retry_delay''"] attr_int_to_string [of "int left" task "''retry_times''"]
  by (simp add: retry_task_def getAttribute_def)

lemma drop_Cons_delays: "i < length ls \<Longrightarrow> all_delays (drop i ls) = replicate (snd (ls ! i)) (fst (ls ! i)) @ all_delays (drop (Suc i) ls)"
  by (simp add: Cons_nth_drop_Suc [symmetric] all_delays_def case_prod_beta)

text \<open>One failure: the first retry to come is set up, or the task is in error.\<close>

definition step_done ::
  "string \<Rightarrow> (int \<times> nat) list \<Rightarrow> int \<Rightarrow> retry_wf \<Rightarrow> int list \<Rightarrow> (retry_wf \<times> attrs) res \<Rightarrow> bool" where
  "step_done name ls now2 w ds r =
     (case ds of
        [] \<Rightarrow> (\<exists>task'. r = Inr (give_up w, task'))
      | d # ds' \<Rightarrow> (\<exists>i left task'. r = Inr (w\<lparr>timers := timers w @ [now2 + d], retrying_tasks := retrying_tasks w + 1\<rparr>, task') \<and>
          i \<le> length ls \<and> in_level name ls i left task' \<and> i > 0 \<and> left \<le> snd (ls ! (i - 1)) \<and> to_come ls i left = ds'))"

lemma step_doneI:
  "r = Inr (w\<lparr>timers := timers w @ [now2 + d], retrying_tasks := retrying_tasks w + 1\<rparr>, task') \<Longrightarrow>
   in_level name ls i left task' \<Longrightarrow> ds = d # to_come ls i left \<Longrightarrow> i \<le> length ls \<Longrightarrow> i > 0 \<Longrightarrow> left \<le> snd (ls ! (i - 1)) \<Longrightarrow>
   step_done name ls now2 w ds r"
  unfolding step_done_def by force

lemma step_done_next:
  assumes "i < length ls" "good_level (ls ! i)"
    "task ''retry_schedule'' = Some name"
    "task ''retry_retval'' = None \<or> task ''retry_retval'' = Some (getAttribute task ''retval'')"
  shows "step_done name ls now2 w (all_delays (drop i ls))
    (retry_insert fmt now now2 w
       (task(''retry_schedule_level'' \<mapsto> to_string (int i + 1), ''retry_delay'' \<mapsto> to_string (fst (ls ! i)),
             ''retry_times'' \<mapsto> to_string (int (snd (ls ! i)))))
       (fst (ls ! i)) (int (snd (ls ! i))))"
proof -
  let ?task = "task(''retry_schedule_level'' \<mapsto> to_string (int i + 1), ''retry_delay'' \<mapsto> to_string (fst (ls ! i)),
      ''retry_times'' \<mapsto> to_string (int (snd (ls ! i))))"
  have g: "fst (ls ! i) > 0" "snd (ls ! i) > 0" "int_range (int (snd (ls ! i)))"
    using assms(2) by (simp_all add: good_level_def)
  have v: "?task ''retry_retval'' = None \<or> ?task ''retry_retval'' = Some (getAttribute ?task ''retval'')"
    using assms(4) by (simp add: getAttribute_def)
  show ?thesis
  proof (rule step_doneI [OF insert_ok [OF g v], of _ _ "Suc i" "snd (ls ! i) - 1"])
    show "in_level name ls (Suc i) (snd (ls ! i) - 1)
        (?task(''retry_at'' \<mapsto> fmt (now + fst (ls ! i)), ''retry_times'' \<mapsto> to_string (int (snd (ls ! i) - 1))))"
      using assms(3) v by (simp add: in_level_def getAttribute_def add.commute)
    show "all_delays (drop i ls) = fst (ls ! i) # to_come ls (Suc i) (snd (ls ! i) - 1)"
      using drop_Cons_delays [OF assms(1)] g(2) by (cases "snd (ls ! i)") (simp_all add: to_come_def)
  qed (use assms(1) in simp_all)
qed

lemma retry_step:
  assumes "map_of docs name = Some (map level_attrs ls)" "name \<noteq> []" "list_all good_level ls"
    "int_range (int (length ls) + 2)" "i \<le> length ls" "in_level name ls i left task"
    "i > 0 \<longrightarrow> left \<le> snd (ls ! (i - 1))"
  shows "step_done name ls now2 w (to_come ls i left) (retry_task fmt docs now now2 w task)"
proof -
  have sched: "task ''retry_schedule'' = Some name"
    and rv: "task ''retry_retval'' = None \<or> task ''retry_retval'' = Some (getAttribute task ''retval'')"
    using assms(6) by (simp_all add: in_level_def)
  have rl: "int_range (int (length ls))" "int_range (int (length ls) + 1)"
    using assms(4) by (auto simp: int_range_def)
  have good: "j < length ls \<Longrightarrow> good_level (ls ! j)" for j using assms(3) by (simp add: list_all_length)
  have done0: "retry_insert fmt now now2 w t 0 0 = Inr (give_up w, t)" for t by (simp add: retry_insert_def)
  show ?thesis
  proof (cases "i = 0")
    case True
    then have lvl: "task ''retry_schedule_level'' = None" using assms(6) by (simp add: in_level_def)
    show ?thesis
    proof (cases "ls = []")
      case True
      have u1: "schedule_update docs task name None None =
          Inr (task(''retry_schedule_level'' \<mapsto> to_string (int 0 + 1)), Some 0, Some 0)"
        by (rule update_last [OF assms(1)]) (simp_all add: True lvl int_range_def)
      let ?t = "task(''retry_schedule_level'' \<mapsto> to_string (int 0 + 1))"
      have u2: "schedule_update docs ?t name (Some 0) (Some 0) =
          Inr (?t(''retry_schedule_level'' \<mapsto> to_string (int 1 + 1)), Some 0, Some 0)"
        by (rule update_last [OF assms(1)]) (simp_all add: True int_range_def)
      show ?thesis unfolding retry_none [OF sched assms(2) lvl u1 u2]
        using \<open>i = 0\<close> True by (simp add: step_done_def to_come_def all_delays_def)
    next
      case False
      have u: "schedule_update docs task name None None =
          Inr (task(''retry_schedule_level'' \<mapsto> to_string (int 0 + 1), ''retry_delay'' \<mapsto> to_string (fst (ls ! 0)),
              ''retry_times'' \<mapsto> to_string (int (snd (ls ! 0)))), Some (fst (ls ! 0)), Some (int (snd (ls ! 0))))"
        by (rule update_next [OF assms(1) _ _ rl(1)]) (use False good lvl in simp_all)
      have "int (snd (ls ! 0)) \<noteq> 0" using good [of 0] False by (simp add: good_level_def)
      from retry_first [OF sched assms(2) lvl u this]
      show ?thesis using step_done_next [of 0 ls task name now2 w fmt now] False good [of 0] sched rv \<open>i = 0\<close>
        by (simp add: to_come_def)
    qed
  next
    case False
    have lv: "task ''retry_schedule_level'' = Some (to_string (int i))"
      "task ''retry_delay'' = Some (to_string (fst (ls ! (i - 1))))" "task ''retry_times'' = Some (to_string (int left))"
      using assms(6) False by (simp_all add: in_level_def)
    have g: "good_level (ls ! (i - 1))" using good [of "i - 1"] False assms(5) by simp
    have ri: "int_range (int i)" using rl(1) assms(5) by (auto simp: int_range_def)
    have rleft: "int_range (int left)"
      using g assms(7) False by (auto simp: good_level_def int_range_def)
    have rd: "int_range (fst (ls ! (i - 1)))" using g by (simp add: good_level_def)
    note again = retry_again [OF sched assms(2) ri _ lv(1,2) rd lv(3) rleft, of fmt docs now now2 w]
    show ?thesis
    proof (cases left)
      case 0
      show ?thesis
      proof (cases "i < length ls")
        case True
        have u: "schedule_update docs task name (Some (fst (ls ! (i - 1)))) (Some 0) =
            Inr (task(''retry_schedule_level'' \<mapsto> to_string (int i + 1), ''retry_delay'' \<mapsto> to_string (fst (ls ! i)),
              ''retry_times'' \<mapsto> to_string (int (snd (ls ! i)))), Some (fst (ls ! i)), Some (int (snd (ls ! i))))"
          by (rule update_next [OF assms(1) True good [OF True] rl(1)]) (use False lv in simp)
        show ?thesis using again u 0 False step_done_next [OF True good [OF True] sched rv, of now2 w fmt now]
          by (simp add: to_come_def)
      next
        case last: False
        have u: "schedule_update docs task name (Some (fst (ls ! (i - 1)))) (Some 0) =
            Inr (task(''retry_schedule_level'' \<mapsto> to_string (int i + 1)), Some 0, Some 0)"
          by (rule update_last [OF assms(1)]) (use False last lv assms(5) rl in simp_all)
        show ?thesis using again u 0 False done0 last by (simp add: to_come_def all_delays_def step_done_def)
      qed
    next
      case (Suc m)
      have ins: "retry_task fmt docs now now2 w task =
          Inr (w\<lparr>timers := timers w @ [now2 + fst (ls ! (i - 1))], retrying_tasks := retrying_tasks w + 1\<rparr>,
            task(''retry_at'' \<mapsto> fmt (now + fst (ls ! (i - 1))), ''retry_times'' \<mapsto> to_string (int (left - 1))))"
        using again insert_ok [of "fst (ls ! (i - 1))" left task fmt now now2 w] g rleft rv Suc False
        by (simp add: good_level_def)
      have "in_level name ls i m (task(''retry_at'' \<mapsto> fmt (now + fst (ls ! (i - 1))), ''retry_times'' \<mapsto> to_string (int (left - 1))))"
        using assms(6) False Suc by (simp add: in_level_def getAttribute_def)
      from step_doneI [OF ins this] show ?thesis using Suc assms(5,7) False by (simp add: to_come_def)
    qed
  qed
qed

lemma failing_run_delays:
  assumes "map_of docs name = Some (map level_attrs ls)" "name \<noteq> []" "list_all good_level ls"
    "int_range (int (length ls) + 2)"
  shows "i \<le> length ls \<Longrightarrow> in_level name ls i left task \<Longrightarrow> (i > 0 \<longrightarrow> left \<le> snd (ls ! (i - 1))) \<Longrightarrow>
    ds = to_come ls i left \<Longrightarrow> length ds < k \<Longrightarrow>
    failing_run k fmt docs clock n w task =
      Inr (w\<lparr>error_tasks := error_tasks w + 1, retrying_tasks := retrying_tasks w + length ds,
             timers := timers w @ map (\<lambda>j. clock (n + j) + ds ! j) [0..<length ds]\<rparr>)"
proof (induction ds arbitrary: k i left task n w)
  case Nil
  from retry_step [OF assms Nil.prems(1-3), of "clock n" w fmt "clock n"] Nil.prems(4,5) show ?case
    by (cases k) (auto simp: step_done_def give_up_def)
next
  case (Cons d ds)
  let ?w = "w\<lparr>timers := timers w @ [clock n + d], retrying_tasks := retrying_tasks w + 1\<rparr>"
  from retry_step [OF assms Cons.prems(1-3), of "clock n" w fmt "clock n"] Cons.prems(4) [symmetric]
  obtain i' left' task' where r: "retry_task fmt docs (clock n) (clock n) w task = Inr (?w, task')"
    "i' \<le> length ls" "in_level name ls i' left' task'" "i' > 0" "left' \<le> snd (ls ! (i' - 1))" "to_come ls i' left' = ds"
    by (auto simp: step_done_def)
  obtain k' where k: "k = Suc k'" "length ds < k'" using Cons.prems(5) by (cases k) auto
  have ih: "failing_run k' fmt docs clock (Suc n) ?w task' =
      Inr (?w\<lparr>error_tasks := error_tasks ?w + 1, retrying_tasks := retrying_tasks ?w + length ds,
             timers := timers ?w @ map (\<lambda>j. clock (Suc n + j) + ds ! j) [0..<length ds]\<rparr>)"
    by (rule Cons.IH) (use r k in auto)
  have "map (\<lambda>j. clock (n + j) + (d # ds) ! j) [0..<Suc (length ds)] =
      (clock n + d) # map (\<lambda>j. clock (Suc n + j) + ds ! j) [0..<length ds]"
    by (simp add: upt_conv_Cons map_Suc_upt [symmetric] comp_def del: upt_Suc)
  then show ?case using ih r(1) k(1) by simp
qed

section \<open>Properties\<close>

text \<open>C14: A task that keeps failing is retried exactly as its retry schedule says: every level, in order, as many
  times as it says and after its delay; then the task counts as one error and is not retried again.\<close>
theorem retries_follow_schedule:
  assumes "map_of docs name = Some (map level_attrs ls)" "name \<noteq> []" "list_all good_level ls"
    "int_range (int (length ls) + 2)"
    "task ''retry_schedule'' = Some name" "task ''retry_schedule_level'' = None" "task ''retry_retval'' = None"
    "length (all_delays ls) < k"
  shows "failing_run k fmt docs clock 0 w task =
    Inr (w\<lparr>error_tasks := error_tasks w + 1, retrying_tasks := retrying_tasks w + length (all_delays ls),
           timers := timers w @ map (\<lambda>j. clock j + all_delays ls ! j) [0..<length (all_delays ls)]\<rparr>)"
  using failing_run_delays [OF assms(1-4), of 0 0 task "all_delays ls" k fmt clock 0 w] assms(5-8)
  by (simp add: in_level_def to_come_def)

definition sample_wf :: retry_wf where
  "sample_wf = \<lparr>root_attrs = (\<lambda>n. None), error_tasks = 0, retrying_tasks = 0, running_tasks = 1, timers = []\<rparr>"

theorem retries_follow_schedule_witness:
  "failing_run 4 (\<lambda>t. []) [(''night'', map level_attrs [(30, 2), (600, 1)])] (\<lambda>n. 1000 * int n) 0 sample_wf
     [''retry_schedule'' \<mapsto> ''night''] =
   Inr (sample_wf\<lparr>error_tasks := 1, retrying_tasks := 3, timers := [30, 1030, 2600]\<rparr>)"
  using retries_follow_schedule [of "[(''night'', map level_attrs [(30, 2), (600, 1)])]" "''night''" "[(30, 2), (600, 1)]"
      "[''retry_schedule'' \<mapsto> ''night'']" 4 "\<lambda>t. []" "\<lambda>n. 1000 * int n" sample_wf]
  by (simp add: good_level_def int_range_def all_delays_def sample_wf_def upt_rec numeral_2_eq_2)

text \<open>The first failure of a task whose retry schedule is unknown uses its delay and number of retries
  uninitialised: the function only logs that the schedule does not exist.\<close>
theorem unknown_schedule_undefined:
  assumes "map_of docs name = None" "name \<noteq> []" "task ''retry_schedule'' = Some name" "task ''retry_schedule_level'' = None"
  shows "is_ub (retry_task fmt docs now now2 w task)"
  using assms by (simp add: retry_task_def schedule_update_def getAttribute_def)

theorem unknown_schedule_undefined_witness:
  "is_ub (retry_task (\<lambda>t. []) [] 0 0 sample_wf [''retry_schedule'' \<mapsto> ''night''])"
  by (rule unknown_schedule_undefined [of _ "''night''"]) simp_all

end
