(* ===== verification/WorkflowScheduler.thy ===== *)
theory WorkflowScheduler
  imports EventScheduler ScheduleTable
begin

text \<open>
  The scheduler of workflows: src/Schedule/WorkflowScheduler.cpp, with the objects it schedules
  (src/Schedule/WorkflowSchedule.cpp) and the list of the active ones (src/Schedule/WorkflowSchedules.cpp).

  A schedule waits as an event of the timed list or, while its instance runs, sits in a slot of the
  array \<open>wfs_executing_instances\<close>; the arrays run parallel to \<open>wfs_ids\<close>. A pointer to a schedule is an
  option, a schedule a value: the code never changes one after its construction. The rows of the
  database are part of the state. The names of the workflows and the calendar are in \<open>wfs_env\<close>; what
  the cluster answers (election, running elsewhere) and what becomes of the new instance are
  arguments. A result \<open>Inl\<close> leaves a thread function or a destructor: the process ends.
\<close>

section \<open>State\<close>

datatype onfailure_behavior = CONTINUE | SUSPEND

record schedule_row =
  row_id :: "32 word"
  row_workflow :: "32 word"
  row_schedule :: string
  row_onfailure :: onfailure_behavior
  row_active :: bool
  row_node :: string

record workflow_schedule =
  workflow_schedule_id :: "32 word"
  workflow_id :: "32 word"
  onfailure :: onfailure_behavior
  ws_active :: bool
  ws_node :: string
  ws_schedule :: "bool list"

record wfs_env =
  env_node :: string
  env_workflows :: "32 word \<Rightarrow> string option"
  env_calendar :: calendar
  env_fuel :: nat

record wfs_state =
  db_rows :: "schedule_row list"
  active_schedules :: "workflow_schedule list"
  wfs_ids :: "32 word list"
  wfs_wi_ids :: "32 word list"
  wfs_executing_instances :: "workflow_schedule option list"
  timed :: "workflow_schedule sched"

section \<open>Schedules\<close>

definition WorkflowSchedule_new :: "schedule_row \<Rightarrow> workflow_schedule res" where
  "WorkflowSchedule_new row =
     bindr (Schedule_new (row_schedule row)) (\<lambda>tab.
       Inr \<lparr>workflow_schedule_id = row_id row, workflow_id = row_workflow row, onfailure = row_onfailure row,
         ws_active = row_active row, ws_node = row_node row, ws_schedule = tab\<rparr>)"

definition GetWorkflowName :: "wfs_env \<Rightarrow> workflow_schedule \<Rightarrow> string res" where
  "GetWorkflowName env ws =
     (case env_workflows env (workflow_id ws) of
        None \<Rightarrow> Inl (Exn ''API'' (''Unknown Workflow ID : '' @ to_string (uint (workflow_id ws))) ''UNKNOWN_OBJECT'')
      | Some name \<Rightarrow> Inr name)"

definition SetStatus :: "32 word \<Rightarrow> bool \<Rightarrow> wfs_state \<Rightarrow> wfs_state" where
  "SetStatus i active s =
     s\<lparr>db_rows := map (\<lambda>r. if row_id r = i then r\<lparr>row_active := active\<rparr> else r) (db_rows s)\<rparr>"

text \<open>
  The active schedules of this node, in the order of the rows. The first row whose schedule does not
  parse ends the loop with an exception, which is caught: the rows after it are lost.
\<close>

fun load_active :: "string \<Rightarrow> schedule_row list \<Rightarrow> workflow_schedule list" where
  "load_active self [] = []"
| "load_active self (r # rs) =
     (case WorkflowSchedule_new r of
        Inl e \<Rightarrow> []
      | Inr ws \<Rightarrow>
          if ws_active ws \<and> (row_node r = self \<or> row_node r = ''any'' \<or> row_node r = ''all'')
          then ws # load_active self rs else load_active self rs)"

definition WorkflowSchedules_Reload :: "wfs_env \<Rightarrow> wfs_state \<Rightarrow> wfs_state" where
  "WorkflowSchedules_Reload env s = s\<lparr>active_schedules := load_active (env_node env) (db_rows s)\<rparr>"

section \<open>The slots\<close>

function lookup_loop :: "32 word list \<Rightarrow> 32 word \<Rightarrow> int \<Rightarrow> int \<Rightarrow> int res" where
  "lookup_loop ids i b e =
     (if b \<le> e then
        bindr (int_ck (e + b)) (\<lambda>s.
          let m = s div 2
          in if m < 0 \<or> m \<ge> int (length ids) then Inl (UB ''ids out of range'')
             else if ids ! nat m = i then Inr m
             else if ids ! nat m < i then lookup_loop ids i (m + 1) e
             else lookup_loop ids i b (m - 1))
      else Inr (-1))"
  by pat_completeness auto

termination lookup_loop
  by (relation "measure (\<lambda>(ids, i, b, e). nat (e - b + 1))") (auto simp: int_ck_def split: if_splits)

declare lookup_loop.simps [simp del]

definition lookup :: "32 word list \<Rightarrow> 32 word \<Rightarrow> int res" where
  "lookup ids i = lookup_loop ids i 0 (int (length ids) - 1)"

definition lookup_wfs :: "wfs_state \<Rightarrow> 32 word \<Rightarrow> int res" where
  "lookup_wfs s i = lookup (wfs_ids s) i"

definition init :: "wfs_state \<Rightarrow> wfs_state" where
  "init s = s\<lparr>wfs_ids := map workflow_schedule_id (active_schedules s),
     wfs_wi_ids := replicate (length (active_schedules s)) 0,
     wfs_executing_instances := replicate (length (active_schedules s)) None\<rparr>"

text \<open>The two writes into the arrays, at an index found earlier.\<close>

definition put_executing :: "int \<Rightarrow> workflow_schedule option \<Rightarrow> wfs_state \<Rightarrow> wfs_state res" where
  "put_executing i p s =
     (if 0 \<le> i \<and> i < int (length (wfs_executing_instances s))
      then Inr (s\<lparr>wfs_executing_instances := (wfs_executing_instances s)[nat i := p]\<rparr>)
      else Inl (UB ''wfs_executing_instances out of range''))"

definition put_wi_id :: "int \<Rightarrow> 32 word \<Rightarrow> wfs_state \<Rightarrow> wfs_state res" where
  "put_wi_id i wid s =
     (if 0 \<le> i \<and> i < int (length (wfs_wi_ids s))
      then Inr (s\<lparr>wfs_wi_ids := (wfs_wi_ids s)[nat i := wid]\<rparr>)
      else Inl (UB ''wfs_wi_ids out of range''))"

section \<open>Operations\<close>

definition ScheduleWorkflow ::
  "wfs_env \<Rightarrow> int \<Rightarrow> workflow_schedule option \<Rightarrow> 32 word \<Rightarrow> wfs_state \<Rightarrow> wfs_state res" where
  "ScheduleWorkflow env now p workflow_instance_id s =
     (case p of
        None \<Rightarrow> Inl (UB ''null workflow_schedule'')
      | Some ws \<Rightarrow>
          if workflow_instance_id = 0 then
            bindr (GetNextTime (env_fuel env) (env_calendar env) (ws_schedule ws) now) (\<lambda>t.
            bindr (GetWorkflowName env ws) (\<lambda>name.
              Inr (s\<lparr>timed := InsertEvent (t, ws) (timed s)\<rparr>)))
          else
            bindr (lookup_wfs s (workflow_schedule_id ws)) (\<lambda>i.
              if i \<noteq> -1 then
                bindr (put_wi_id i workflow_instance_id s) (put_executing i (Some ws))
              else Inr s))"

definition ScheduledWorkflowInstanceStop ::
  "wfs_env \<Rightarrow> int \<Rightarrow> 32 word \<Rightarrow> bool \<Rightarrow> wfs_state \<Rightarrow> wfs_state res" where
  "ScheduledWorkflowInstanceStop env now ws_id success s =
     bindr (lookup_wfs s ws_id) (\<lambda>i.
       if i = -1 then Inr s
       else
         let p = wfs_executing_instances s ! nat i
         in bindr (put_wi_id i 0 s) (\<lambda>s1.
            bindr (put_executing i None s1) (\<lambda>s2.
              if success then ScheduleWorkflow env now p 0 s2
              else case p of
                     None \<Rightarrow> Inl (UB ''null workflow_schedule'')
                   | Some ws \<Rightarrow>
                       if onfailure ws = CONTINUE then ScheduleWorkflow env now p 0 s2
                       else Inr (SetStatus (workflow_schedule_id ws) False s2))))"

text \<open>
  What becomes of the workflow instance the alarm creates. \<open>NotBuilt\<close>: the constructor threw before
  the workflow was parsed, so the destructor tells nobody. \<open>BuildFailed\<close>: it threw later, and the
  destructor reports the end of an instance without failed task. \<open>Built\<close>: it was started under an id,
  and either goes on or ended at once (also by an exception), with or without failed tasks.
\<close>

datatype instance_end = StillRunning | Ended bool

datatype instance_outcome = NotBuilt | BuildFailed | Built "32 word" instance_end

text \<open>The handler of an alarm is not under the lock throughout; its two critical parts come apart.\<close>

definition alarm_claim :: "int \<Rightarrow> workflow_schedule \<Rightarrow> wfs_state \<Rightarrow> wfs_state res" where
  "alarm_claim i ws s = (if i \<noteq> -1 then put_executing i (Some ws) s else Inr s)"

definition alarm_register :: "int \<Rightarrow> 32 word \<Rightarrow> wfs_state \<Rightarrow> wfs_state res" where
  "alarm_register i wid s = (if i \<noteq> -1 then put_wi_id i wid s else Inr s)"

definition event_removed ::
  "wfs_env \<Rightarrow> int \<Rightarrow> workflow_schedule \<Rightarrow> bool \<Rightarrow> int \<Rightarrow> instance_outcome \<Rightarrow> wfs_state \<Rightarrow> wfs_state res" where
  "event_removed env now ws elected nrunning outcome s =
     bindr (GetWorkflowName env ws) (\<lambda>name.
     bindr (lookup_wfs s (workflow_schedule_id ws)) (\<lambda>i.
       if ws_node ws = ''any'' \<and> (\<not> elected \<or> nrunning > 0) then
         catch_exn (ScheduleWorkflow env now (Some ws) 0 s) (\<lambda>_ _ _. Inr s)
       else
         bindr (alarm_claim i ws s) (\<lambda>s1.
           case outcome of
             NotBuilt \<Rightarrow> Inr s1
           | BuildFailed \<Rightarrow> ScheduledWorkflowInstanceStop env now (workflow_schedule_id ws) True s1
           | Built wid e \<Rightarrow>
               bindr (alarm_register i wid s1) (\<lambda>s2.
                 case e of
                   StillRunning \<Rightarrow> Inr s2
                 | Ended ok \<Rightarrow> ScheduledWorkflowInstanceStop env now (workflow_schedule_id ws) ok s2))))"

text \<open>\<open>s0\<close> is the state before the reload, whose arrays are the backup.\<close>

fun reschedule_all ::
  "wfs_env \<Rightarrow> int \<Rightarrow> wfs_state \<Rightarrow> workflow_schedule list \<Rightarrow> wfs_state \<Rightarrow> wfs_state res" where
  "reschedule_all env now s0 [] s = Inr s"
| "reschedule_all env now s0 (ws # wss) s =
     bindr (catch_exn
         (bindr (lookup (wfs_ids s0) (workflow_schedule_id ws)) (\<lambda>i.
            if i = -1 \<or> wfs_executing_instances s0 ! nat i = None
            then ScheduleWorkflow env now (Some ws) 0 s
            else ScheduleWorkflow env now (Some ws) (wfs_wi_ids s0 ! nat i) s))
         (\<lambda>_ _ _. Inr s))
       (reschedule_all env now s0 wss)"

definition Reload :: "wfs_env \<Rightarrow> int \<Rightarrow> wfs_state \<Rightarrow> wfs_state res" where
  "Reload env now s =
     (let s1 = WorkflowSchedules_Reload env s;
          s2 = init (s1\<lparr>timed := snd (Flush (\<lambda>_. True) (timed s1))\<rparr>)
      in reschedule_all env now s (active_schedules s2) s2)"

text \<open>The constructor, and the start: every active schedule, with each of its executing instances.\<close>

definition WorkflowScheduler_new :: "wfs_env \<Rightarrow> schedule_row list \<Rightarrow> wfs_state" where
  "WorkflowScheduler_new env rows =
     init (WorkflowSchedules_Reload env \<lparr>db_rows = rows, active_schedules = [], wfs_ids = [], wfs_wi_ids = [],
       wfs_executing_instances = [], timed = Scheduler_new\<rparr>)"

fun load_joined :: "wfs_env \<Rightarrow> int \<Rightarrow> (schedule_row \<times> 32 word) list \<Rightarrow> wfs_state \<Rightarrow> wfs_state res" where
  "load_joined env now [] s = Inr s"
| "load_joined env now ((r, wid) # rs) s =
     bindr (catch_exn (bindr (WorkflowSchedule_new r) (\<lambda>ws. ScheduleWorkflow env now (Some ws) wid s))
         (\<lambda>_ _ _. Inr s))
       (load_joined env now rs)"

definition joined_rows :: "wfs_env \<Rightarrow> (32 word \<Rightarrow> 32 word list) \<Rightarrow> schedule_row list \<Rightarrow> (schedule_row \<times> 32 word) list" where
  "joined_rows env executing rows =
     concat (map (\<lambda>r. map (Pair r) (case executing (row_id r) of [] \<Rightarrow> [0] | ws \<Rightarrow> ws))
       (filter (\<lambda>r. row_active r \<and> row_node r \<in> {env_node env, ''all'', ''any''} \<and>
                    env_workflows env (row_workflow r) \<noteq> None) rows))"

definition LoadDBState :: "wfs_env \<Rightarrow> int \<Rightarrow> (32 word \<Rightarrow> 32 word list) \<Rightarrow> wfs_state \<Rightarrow> wfs_state res" where
  "LoadDBState env now executing s = load_joined env now (joined_rows env executing (db_rows s)) s"

text \<open>\<open>SendStatus\<close>: the schedules that wait, by time, then those that run (with their instance).\<close>

datatype status_entry = Waiting "32 word" int | Running "32 word" "32 word"

definition SendStatus :: "wfs_state \<Rightarrow> status_entry list" where
  "SendStatus s =
     map (\<lambda>(t, ws). Waiting (workflow_schedule_id ws) t) (sc_events (timed s)) @
     concat (map (\<lambda>(p, wid). case p of None \<Rightarrow> [] | Some ws \<Rightarrow> [Running (workflow_schedule_id ws) wid])
       (zip (wfs_executing_instances s) (wfs_wi_ids s)))"

end
