(* ===== verification/WfsProps.thy ===== *)
theory WfsProps
  imports WorkflowScheduler
begin

text \<open>
  Properties of the scheduler of workflows: its binary search agrees with a linear one, a schedule is
  in one place only, and none is lost but by a suspension.
\<close>

section \<open>The binary search\<close>

definition linear_search :: "32 word list \<Rightarrow> 32 word \<Rightarrow> int" where
  "linear_search ids i = (if i \<in> set ids then int (length (takeWhile (\<lambda>x. x \<noteq> i) ids)) else -1)"

lemma sorted_nth_less:
  "sorted_wrt (<) (ids :: 32 word list) \<Longrightarrow> j < length ids \<Longrightarrow> k < length ids \<Longrightarrow> ids ! j < ids ! k \<longleftrightarrow> j < k"
  by (metis linorder_neqE_nat order_less_asym order_less_irrefl sorted_wrt_nth_less)

lemma linear_search_nth:
  assumes "distinct ids" "k < length ids" shows "linear_search ids (ids ! k) = int k"
proof -
  have "takeWhile (\<lambda>x. x \<noteq> ids ! k) ids = take k ids"
  proof (rule takeWhile_eq_take_P_nth)
    show "k < length ids \<Longrightarrow> \<not> ids ! k \<noteq> ids ! k" by simp
    show "ids ! j \<noteq> ids ! k" if "j < k" "j < length ids" for j
      using that assms by (simp add: nth_eq_iff_index_eq)
  qed
  then show ?thesis using assms by (simp add: linear_search_def)
qed

lemma lookup_loop_linear:
  assumes "sorted_wrt (<) ids" "length ids \<le> 2 ^ 30" "0 \<le> b" "e < int (length ids)"
    "\<forall>k < length ids. ids ! k = i \<longrightarrow> b \<le> int k \<and> int k \<le> e"
  shows "lookup_loop ids i b e = Inr (linear_search ids i)"
  using assms
proof (induction ids i b e rule: lookup_loop.induct)
  case (1 ids i b e)
  show ?case
  proof (cases "b \<le> e")
    case False
    then have "i \<notin> set ids" using "1.prems"(5) by (auto simp: in_set_conv_nth)
    then show ?thesis using False by (simp add: lookup_loop.simps [of ids i b e] linear_search_def)
  next
    case True
    let ?m = "(e + b) div 2"
    have m: "b \<le> ?m" "?m \<le> e" "nat ?m < length ids" "0 \<le> ?m" "int (nat ?m) = ?m" "?m < int (length ids)" using True "1.prems"(3,4) by auto
    have ck: "int_ck (e + b) = Inr (e + b)"
      using "1.prems"(2-4) True by (simp add: int_ck_def int_range_def)
    have dist: "distinct ids" using "1.prems"(1) by (simp add: strict_sorted_iff)
    consider (eq) "ids ! nat ?m = i" | (lt) "ids ! nat ?m < i" | (gt) "ids ! nat ?m > i" by force
    then show ?thesis
    proof cases
      case eq
      then show ?thesis using True m linear_search_nth [OF dist m(3)]
        by (simp add: lookup_loop.simps [of ids i b e] ck res_simps Let_def)
    next
      case lt
      have "lookup_loop ids i (?m + 1) e = Inr (linear_search ids i)"
      proof (rule "1.IH"(1) [OF True ck refl])
        show "\<forall>k<length ids. ids ! k = i \<longrightarrow> ?m + 1 \<le> int k \<and> int k \<le> e"
          using "1.prems"(5) lt sorted_nth_less [OF "1.prems"(1) m(3)] m(5) by fastforce
      qed (use "1.prems" m lt in auto)
      then show ?thesis using True m lt order_less_imp_not_eq [OF lt] by (simp add: lookup_loop.simps [of ids i b e] ck res_simps Let_def)
    next
      case gt
      have "lookup_loop ids i b (?m - 1) = Inr (linear_search ids i)"
      proof (rule "1.IH"(2) [OF True ck refl])
        show "\<forall>k<length ids. ids ! k = i \<longrightarrow> b \<le> int k \<and> int k \<le> ?m - 1"
          using "1.prems"(5) gt sorted_nth_less [OF "1.prems"(1) _ m(3)] m(5) by fastforce
      qed (use "1.prems" m gt in auto)
      then show ?thesis using True m order_less_imp_not_eq2 [OF gt] order_less_not_sym [OF gt] by (simp add: lookup_loop.simps [of ids i b e] ck res_simps Let_def)
    qed
  qed
qed

lemma lookup_linear:
  "sorted_wrt (<) ids \<Longrightarrow> length ids \<le> 2 ^ 30 \<Longrightarrow> lookup ids i = Inr (linear_search ids i)"
  unfolding lookup_def by (rule lookup_loop_linear) auto

text \<open>The binary search over the ids of the schedules never overflows, reads inside the array and
  returns what a linear search returns, for sorted ids and up to \<open>2 ^ 30\<close> of them.\<close>
theorem lookup_is_linear_search:
  assumes "sorted_wrt (<) ids" "length ids \<le> 2 ^ 30"
  shows "lookup ids i = Inr (linear_search ids i) \<and>
    (\<forall>k < length ids. lookup ids (ids ! k) = Inr (int k))"
  using lookup_linear [OF assms] linear_search_nth [of ids] assms(1)
  by (simp add: strict_sorted_iff)

theorem lookup_is_linear_search_witness:
  "lookup [2, 3, 5, 9] 5 = Inr 2 \<and> lookup [2, 3, 5, 9] 4 = Inr (-1)"
  using lookup_is_linear_search [of "[2, 3, 5, 9]" 5] lookup_is_linear_search [of "[2, 3, 5, 9]" 4]
  by (simp add: linear_search_def)

section \<open>The place of a schedule\<close>

definition pending :: "wfs_state \<Rightarrow> 32 word \<Rightarrow> nat" where
  "pending s i = length (filter (\<lambda>e. workflow_schedule_id (snd e) = i) (sc_events (timed s)))"

definition running :: "wfs_state \<Rightarrow> 32 word \<Rightarrow> bool" where
  "running s i \<longleftrightarrow> (\<exists>k < length (wfs_ids s). wfs_ids s ! k = i \<and> wfs_executing_instances s ! k \<noteq> None)"

definition places :: "wfs_state \<Rightarrow> 32 word \<Rightarrow> nat" where
  "places s i = pending s i + of_bool (running s i)"

definition slot_ok :: "32 word \<Rightarrow> workflow_schedule option \<Rightarrow> bool" where
  "slot_ok i p \<longleftrightarrow> (\<forall>ws. p = Some ws \<longrightarrow> workflow_schedule_id ws = i)"

definition wfs_shape :: "wfs_state \<Rightarrow> bool" where
  "wfs_shape s \<longleftrightarrow> sorted_wrt (<) (wfs_ids s) \<and> length (wfs_ids s) \<le> 2 ^ 30 \<and>
     length (wfs_wi_ids s) = length (wfs_ids s) \<and>
     list_all2 slot_ok (wfs_ids s) (wfs_executing_instances s) \<and>
     (\<forall>e \<in> set (sc_events (timed s)). workflow_schedule_id (snd e) \<in> set (wfs_ids s)) \<and>
     number_of_events (timed s) = length (sc_events (timed s))"

lemma shape_distinct: "wfs_shape s \<Longrightarrow> distinct (wfs_ids s)"
  by (simp add: wfs_shape_def strict_sorted_iff)

lemma shape_lengths:
  "wfs_shape s \<Longrightarrow> length (wfs_wi_ids s) = length (wfs_ids s) \<and> length (wfs_executing_instances s) = length (wfs_ids s)"
  by (auto simp: wfs_shape_def list_all2_lengthD)

lemma lookup_wfs_cases:
  assumes "wfs_shape s"
  obtains (absent) "i \<notin> set (wfs_ids s)" "lookup_wfs s i = Inr (-1)"
  | (slot) k where "k < length (wfs_ids s)" "wfs_ids s ! k = i" "lookup_wfs s i = Inr (int k)"
proof (cases "i \<in> set (wfs_ids s)")
  case True
  then obtain k where "k < length (wfs_ids s)" "wfs_ids s ! k = i" by (auto simp: in_set_conv_nth)
  then show ?thesis using assms slot [of k] linear_search_nth [OF shape_distinct [OF assms], of k]
    by (simp add: lookup_wfs_def lookup_linear wfs_shape_def)
next
  case False
  then show ?thesis using assms absent by (simp add: lookup_wfs_def lookup_linear wfs_shape_def linear_search_def)
qed

lemma InsertEvent_events:
  "mset (sc_events (InsertEvent e s)) = add_mset e (mset (sc_events s)) \<and>
   (number_of_events s = length (sc_events s) \<longrightarrow>
      number_of_events (InsertEvent e s) = length (sc_events (InsertEvent e s)))"
  by (auto simp: InsertEvent_def Let_def split: list.splits)

lemma pending_mset:
  "pending s i = size (filter_mset (\<lambda>e. workflow_schedule_id (snd e) = i) (mset (sc_events (timed s))))"
  by (simp add: pending_def flip: mset_filter)

lemma insert_places:
  assumes "wfs_shape s" "workflow_schedule_id ws \<in> set (wfs_ids s)"
    "s' = s\<lparr>timed := InsertEvent (t, ws) (timed s)\<rparr>"
  shows "wfs_shape s' \<and> wfs_ids s' = wfs_ids s \<and>
    (\<forall>i. places s' i = places s i + of_bool (i = workflow_schedule_id ws))"
proof -
  have m: "mset (sc_events (timed s')) = add_mset (t, ws) (mset (sc_events (timed s)))"
    and n: "number_of_events (timed s') = length (sc_events (timed s'))"
    using InsertEvent_events [of "(t, ws)" "timed s"] assms by (simp_all add: wfs_shape_def)
  have "set (sc_events (timed s')) = insert (t, ws) (set (sc_events (timed s)))"
    using m by (metis set_mset_add_mset_insert set_mset_mset)
  moreover have "pending s' i = pending s i + of_bool (i = workflow_schedule_id ws)" for i
    by (simp add: pending_mset m)
  moreover have "running s' i = running s i" for i
    using assms(3) by (simp add: running_def)
  ultimately show ?thesis using assms n by (simp add: wfs_shape_def places_def)
qed

lemma slot_places:
  assumes "wfs_shape s" "k < length (wfs_ids s)" "slot_ok (wfs_ids s ! k) p"
    "s' = s\<lparr>wfs_wi_ids := (wfs_wi_ids s)[k := w], wfs_executing_instances := (wfs_executing_instances s)[k := p]\<rparr>"
  shows "wfs_shape s' \<and> wfs_ids s' = wfs_ids s \<and>
    (\<forall>i. places s' i + of_bool (i = wfs_ids s ! k \<and> wfs_executing_instances s ! k \<noteq> None) =
         places s i + of_bool (i = wfs_ids s ! k \<and> p \<noteq> None))"
proof -
  note len = shape_lengths [OF assms(1)] and dist = shape_distinct [OF assms(1)]
  have "list_all2 slot_ok (wfs_ids s) ((wfs_executing_instances s)[k := p])"
    using list_all2_update_cong [of slot_ok "wfs_ids s" "wfs_executing_instances s" "wfs_ids s ! k" p k] assms
    by (simp add: wfs_shape_def)
  then have shape: "wfs_shape s'" using assms by (simp add: wfs_shape_def)
  have r': "running s' i \<longleftrightarrow> (if i = wfs_ids s ! k then p \<noteq> None else running s i)" for i
    using assms(2,4) len dist
    by (auto simp: running_def nth_list_update nth_eq_iff_index_eq split: if_splits)
  have r: "running s (wfs_ids s ! k) \<longleftrightarrow> wfs_executing_instances s ! k \<noteq> None"
    using assms(2) dist by (auto simp: running_def nth_eq_iff_index_eq)
  have "pending s' i = pending s i" for i using assms(4) by (simp add: pending_def)
  then show ?thesis using shape assms(4) r r' by (auto simp: places_def)
qed

section \<open>Effects of the operations\<close>

lemma find_levels_not_exn: "find_levels tab now ls c \<noteq> Inl (Exn a b d)"
  by (induction ls arbitrary: c)
    (auto simp: bindr_eq_Inl find_level_def Let_def split: option.splits if_splits)

lemma get_next_time_not_exn: "get_next_time k cal tab now \<noteq> Inl (Exn a b d)"
  by (induction k arbitrary: now)
    (auto simp: bindr_eq_Inl find_levels_not_exn Let_def simp del: find_levels.simps split: prod.splits if_splits)

lemma GetNextTime_not_exn: "GetNextTime k cal tab now \<noteq> Inl (Exn a b d)"
  by (auto simp: GetNextTime_def bindr_eq_Inl get_next_time_not_exn)

lemma catch_returned:
  "catch_exn r h = Inr y \<Longrightarrow> r = Inr y \<or> (\<exists>c e k. r = Inl (Exn c e k) \<and> h c e k = Inr y)"
  by (cases "(r, h)" rule: catch_exn.cases) auto

definition known :: "wfs_env \<Rightarrow> workflow_schedule \<Rightarrow> bool" where
  "known env ws \<longleftrightarrow> (\<exists>name. GetWorkflowName env ws = Inr name)"

lemma ScheduleWorkflow_catch:
  assumes "known env ws" "wfs_shape s"
    "catch_exn (ScheduleWorkflow env now (Some ws) wid s) (\<lambda>_ _ _. Inr s) = Inr s'"
  shows "ScheduleWorkflow env now (Some ws) wid s = Inr s'"
proof -
  have "ScheduleWorkflow env now (Some ws) wid s \<noteq> Inl (Exn a b d)" for a b d
    by (cases rule: lookup_wfs_cases [OF assms(2), of "workflow_schedule_id ws"])
      (use assms(1) in \<open>auto simp: ScheduleWorkflow_def known_def bindr_eq_Inl GetNextTime_not_exn put_wi_id_def put_executing_def split: if_splits\<close>)
  then show ?thesis using catch_returned [OF assms(3)] by blast
qed

lemma put_executing_eq:
  "k < length (wfs_executing_instances s) \<Longrightarrow>
   put_executing (int k) p s = Inr (s\<lparr>wfs_executing_instances := (wfs_executing_instances s)[k := p]\<rparr>)"
  by (simp add: put_executing_def)

lemma put_wi_id_eq:
  "k < length (wfs_wi_ids s) \<Longrightarrow> put_wi_id (int k) w s = Inr (s\<lparr>wfs_wi_ids := (wfs_wi_ids s)[k := w]\<rparr>)"
  by (simp add: put_wi_id_def)

lemma schedule_pending:
  assumes "wfs_shape s" "workflow_schedule_id ws \<in> set (wfs_ids s)"
    "ScheduleWorkflow env now (Some ws) 0 s = Inr s'"
  shows "wfs_shape s' \<and> wfs_ids s' = wfs_ids s \<and> db_rows s' = db_rows s \<and>
    (\<forall>i. places s' i = places s i + of_bool (i = workflow_schedule_id ws))"
proof -
  obtain t where "s' = s\<lparr>timed := InsertEvent (t, ws) (timed s)\<rparr>"
    using assms(3) by (auto simp: ScheduleWorkflow_def bindr_eq_Inr)
  then show ?thesis using insert_places [OF assms(1,2)] by simp
qed

lemma schedule_running:
  assumes "wfs_shape s" "workflow_schedule_id ws \<in> set (wfs_ids s)" "wid \<noteq> 0"
    "ScheduleWorkflow env now (Some ws) wid s = Inr s'" "places s (workflow_schedule_id ws) = 0"
  shows "wfs_shape s' \<and> wfs_ids s' = wfs_ids s \<and> db_rows s' = db_rows s \<and>
    (\<forall>i. places s' i = places s i + of_bool (i = workflow_schedule_id ws))"
proof (cases rule: lookup_wfs_cases [OF assms(1), of "workflow_schedule_id ws", case_names absent slot])
  case (slot k)
  note len = shape_lengths [OF assms(1)]
  have s': "s' = s\<lparr>wfs_wi_ids := (wfs_wi_ids s)[k := wid], wfs_executing_instances := (wfs_executing_instances s)[k := Some ws]\<rparr>"
    using assms(3,4) slot len by (simp add: ScheduleWorkflow_def res_simps put_executing_eq put_wi_id_eq)
  have "wfs_executing_instances s ! k = None"
    using assms(5) slot by (auto simp: places_def running_def)
  then show ?thesis using slot_places [OF assms(1) slot(1) _ s'] slot s' by (simp add: slot_ok_def)
qed (use assms(2) in simp)

text \<open>The end of an instance: what was in the slot is scheduled again or suspended.\<close>

lemma stop_effect:
  assumes "wfs_shape s" "i \<in> set (wfs_ids s)" "ScheduledWorkflowInstanceStop env now i ok s = Inr s'"
  obtains ws where "workflow_schedule_id ws = i" "wfs_shape s'" "wfs_ids s' = wfs_ids s"
    "\<And>j. places s' j + of_bool (j = i) = places s j + of_bool (j = i \<and> (ok \<or> onfailure ws = CONTINUE))"
    "\<exists>k < length (wfs_ids s). wfs_ids s ! k = i \<and> wfs_executing_instances s ! k = Some ws"
proof (cases rule: lookup_wfs_cases [OF assms(1), of i, case_names absent slot])
  case (slot k)
  note len = shape_lengths [OF assms(1)]
  let ?s2 = "s\<lparr>wfs_wi_ids := (wfs_wi_ids s)[k := 0], wfs_executing_instances := (wfs_executing_instances s)[k := None]\<rparr>"
  have run: "(if ok then ScheduleWorkflow env now (wfs_executing_instances s ! k) 0 ?s2
      else case wfs_executing_instances s ! k of
             None \<Rightarrow> Inl (UB ''null workflow_schedule'')
           | Some ws \<Rightarrow> if onfailure ws = CONTINUE then ScheduleWorkflow env now (wfs_executing_instances s ! k) 0 ?s2
                        else Inr (SetStatus (workflow_schedule_id ws) False ?s2)) = Inr s'"
    using assms(3) slot len
    by (simp add: ScheduledWorkflowInstanceStop_def res_simps put_executing_eq put_wi_id_eq Let_def)
  then obtain ws where ws: "wfs_executing_instances s ! k = Some ws"
    by (cases "wfs_executing_instances s ! k") (auto simp: ScheduleWorkflow_def split: if_splits)
  have wi: "workflow_schedule_id ws = i"
    using assms(1) slot ws by (auto simp: wfs_shape_def slot_ok_def list_all2_conv_all_nth)
  have s2: "wfs_shape ?s2" "wfs_ids ?s2 = wfs_ids s"
    "places ?s2 j + of_bool (j = i) = places s j" for j
    using slot_places [OF assms(1) slot(1), of None ?s2 0] slot ws by (auto simp: slot_ok_def)
  have ex: "\<exists>k < length (wfs_ids s). wfs_ids s ! k = i \<and> wfs_executing_instances s ! k = Some ws"
    using slot ws by blast
  show ?thesis
  proof (cases "ok \<or> onfailure ws = CONTINUE")
    case True
    then have "ScheduleWorkflow env now (Some ws) 0 ?s2 = Inr s'"
      using run ws by (auto split: if_splits)
    from schedule_pending [OF s2(1) _ this] that [OF wi] s2 assms(2) wi True ws slot ex
    show ?thesis by simp
  next
    case False
    then have s': "s' = SetStatus i False ?s2" using run ws wi by auto
    then have "wfs_shape s'" "wfs_ids s' = wfs_ids s" "places s' j = places ?s2 j" for j
      using s2(1) by (auto simp: SetStatus_def wfs_shape_def places_def pending_def running_def)
    then show ?thesis using that [OF wi] s2(3) False ws slot ex by simp
  qed
qed (use assms(2) in simp)

section \<open>Loading and reloading\<close>

text \<open>Reloading and the start are both one call of \<open>ScheduleWorkflow\<close> per schedule, exceptions caught.\<close>

fun schedule_all :: "wfs_env \<Rightarrow> int \<Rightarrow> (workflow_schedule \<times> 32 word) list \<Rightarrow> wfs_state \<Rightarrow> wfs_state res" where
  "schedule_all env now [] s = Inr s"
| "schedule_all env now ((ws, wid) # ps) s =
     bindr (catch_exn (ScheduleWorkflow env now (Some ws) wid s) (\<lambda>_ _ _. Inr s)) (schedule_all env now ps)"

definition backup_id :: "wfs_state \<Rightarrow> workflow_schedule \<Rightarrow> 32 word" where
  "backup_id s0 ws =
     (let k = linear_search (wfs_ids s0) (workflow_schedule_id ws)
      in if k = -1 \<or> wfs_executing_instances s0 ! nat k = None then 0 else wfs_wi_ids s0 ! nat k)"

lemma reschedule_all_eq:
  "wfs_shape s0 \<Longrightarrow> reschedule_all env now s0 wss s = schedule_all env now (map (\<lambda>ws. (ws, backup_id s0 ws)) wss) s"
proof (induction wss arbitrary: s)
  case (Cons ws wss)
  have "lookup (wfs_ids s0) (workflow_schedule_id ws) = Inr (linear_search (wfs_ids s0) (workflow_schedule_id ws))"
    using Cons.prems by (simp add: wfs_shape_def lookup_linear)
  then show ?case using Cons.IH [OF Cons.prems]
    by (auto simp: res_simps backup_id_def Let_def intro!: bindr_cong)
qed simp

definition object :: "schedule_row \<Rightarrow> workflow_schedule" where
  "object r = projr (WorkflowSchedule_new r)"

definition rows_ok :: "wfs_env \<Rightarrow> schedule_row list \<Rightarrow> bool" where
  "rows_ok env rows \<longleftrightarrow> sorted_wrt (<) (map row_id rows) \<and> length rows \<le> 2 ^ 30 \<and>
     list_all (\<lambda>r. \<not> isl (Schedule_new (row_schedule r)) \<and> env_workflows env (row_workflow r) \<noteq> None) rows"

definition here :: "wfs_env \<Rightarrow> schedule_row \<Rightarrow> bool" where
  "here env r \<longleftrightarrow> row_active r \<and> (row_node r = env_node env \<or> row_node r = ''any'' \<or> row_node r = ''all'')"

lemma object_ok:
  assumes "rows_ok env rows" "r \<in> set rows"
  shows "WorkflowSchedule_new r = Inr (object r) \<and> workflow_schedule_id (object r) = row_id r \<and>
    ws_active (object r) = row_active r \<and> known env (object r)"
proof -
  have r: "\<not> isl (Schedule_new (row_schedule r))" "env_workflows env (row_workflow r) \<noteq> None"
    using assms by (auto simp: rows_ok_def list_all_iff)
  then obtain tab name where "Schedule_new (row_schedule r) = Inr tab" "env_workflows env (row_workflow r) = Some name"
    by (cases "Schedule_new (row_schedule r)") auto
  then show ?thesis
    by (simp add: object_def WorkflowSchedule_new_def res_simps known_def GetWorkflowName_def)
qed

lemma load_active_eq:
  "rows_ok env rows \<Longrightarrow> load_active (env_node env) rows = map object (filter (here env) rows)"
proof (induction rows)
  case (Cons r rs)
  have "rows_ok env rs" using Cons.prems by (auto simp: rows_ok_def)
  then show ?case using Cons.IH object_ok [OF Cons.prems, of r] by (simp add: here_def)
qed simp

lemma active_ids:
  assumes "rows_ok env rows"
  shows "map workflow_schedule_id (load_active (env_node env) rows) = map row_id (filter (here env) rows) \<and>
    sorted_wrt (<) (map row_id (filter (here env) rows)) \<and> length (filter (here env) rows) \<le> 2 ^ 30"
proof -
  have "map workflow_schedule_id (map object (filter (here env) rows)) = map row_id (filter (here env) rows)"
    using object_ok [OF assms] by simp
  moreover have "sorted_wrt (<) (map row_id (filter (here env) rows))"
    using assms by (simp add: rows_ok_def sorted_wrt_map sorted_wrt_filter)
  moreover have "length (filter (here env) rows) \<le> 2 ^ 30"
    by (rule le_trans [OF length_filter_le]) (use assms in \<open>simp add: rows_ok_def\<close>)
  ultimately show ?thesis by (simp only: load_active_eq [OF assms])
qed

lemma init_places:
  assumes "sorted_wrt (<) (map workflow_schedule_id (active_schedules s))" "length (active_schedules s) \<le> 2 ^ 30"
    "sc_events (timed s) = []" "number_of_events (timed s) = 0"
  shows "wfs_shape (init s) \<and> places (init s) i = 0"
  using assms
  by (auto simp: init_def wfs_shape_def places_def pending_def running_def slot_ok_def list_all2_conv_all_nth)

lemma schedule_all_places:
  assumes "wfs_shape s" "distinct (map (\<lambda>p. workflow_schedule_id (fst p)) ps)"
    "\<forall>p \<in> set ps. known env (fst p) \<and> workflow_schedule_id (fst p) \<in> set (wfs_ids s) \<and>
       places s (workflow_schedule_id (fst p)) = 0"
    "schedule_all env now ps s = Inr s'"
  shows "wfs_shape s' \<and> wfs_ids s' = wfs_ids s \<and>
    (\<forall>i. places s' i = places s i + of_bool (i \<in> (\<lambda>p. workflow_schedule_id (fst p)) ` set ps))"
  using assms
proof (induction ps arbitrary: s)
  case (Cons p ps)
  obtain ws wid where p: "p = (ws, wid)" by (cases p)
  let ?i = "workflow_schedule_id ws"
  have k: "known env ws" "?i \<in> set (wfs_ids s)" "places s ?i = 0" using Cons.prems(3) p by auto
  obtain s1 where "catch_exn (ScheduleWorkflow env now (Some ws) wid s) (\<lambda>_ _ _. Inr s) = Inr s1"
    and run: "schedule_all env now ps s1 = Inr s'"
    using Cons.prems(4) p by (auto simp: bindr_eq_Inr)
  then have "ScheduleWorkflow env now (Some ws) wid s = Inr s1"
    using ScheduleWorkflow_catch k(1) Cons.prems(1) by blast
  then have s1: "wfs_shape s1" "wfs_ids s1 = wfs_ids s" "\<And>i. places s1 i = places s i + of_bool (i = ?i)"
    using schedule_pending [OF Cons.prems(1) k(2)] schedule_running [OF Cons.prems(1) k(2) _ _ k(3)]
    by (cases "wid = 0"; simp)+
  have ne: "\<forall>q \<in> set ps. workflow_schedule_id (fst q) \<noteq> ?i"
    using Cons.prems(2) p by (force simp: image_iff)
  have "wfs_shape s' \<and> wfs_ids s' = wfs_ids s1 \<and>
    (\<forall>i. places s' i = places s1 i + of_bool (i \<in> (\<lambda>p. workflow_schedule_id (fst p)) ` set ps))"
    using Cons.prems(2,3) s1 ne by (intro Cons.IH [OF s1(1) _ _ run]) auto
  then show ?case using s1 p ne by auto
qed simp

lemma all_active_places:
  assumes "rows_ok env (db_rows s)" "sc_events (timed s) = []" "number_of_events (timed s) = 0"
    "active_schedules s = load_active (env_node env) (db_rows s)"
    "map fst ps = active_schedules s" "schedule_all env now ps (init s) = Inr s'"
  shows "wfs_shape s' \<and> (\<forall>i. places s' i = of_bool (i \<in> set (wfs_ids s')))"
proof -
  have "map workflow_schedule_id (active_schedules s) = map row_id (filter (here env) (db_rows s))"
    and "sorted_wrt (<) (map row_id (filter (here env) (db_rows s)))" "length (active_schedules s) \<le> 2 ^ 30"
    using active_ids [OF assms(1)] load_active_eq [OF assms(1)] assms(4) by simp_all
  then have ids: "sorted_wrt (<) (map workflow_schedule_id (active_schedules s))" "length (active_schedules s) \<le> 2 ^ 30"
    by simp_all
  have ps: "map (\<lambda>p. workflow_schedule_id (fst p)) ps = map workflow_schedule_id (active_schedules s)"
    using assms(5) by (metis (no_types, lifting) comp_def list.map_comp map_eq_conv)
  note i = init_places [OF ids assms(2,3)]
  have wi: "wfs_ids (init s) = map workflow_schedule_id (active_schedules s)" by (simp add: init_def)
  have "wfs_shape s' \<and> wfs_ids s' = wfs_ids (init s) \<and>
    (\<forall>i. places s' i = places (init s) i + of_bool (i \<in> (\<lambda>p. workflow_schedule_id (fst p)) ` set ps))"
  proof (rule schedule_all_places [OF _ _ _ assms(6)])
    show "distinct (map (\<lambda>p. workflow_schedule_id (fst p)) ps)"
      using ids(1) ps by (simp add: strict_sorted_iff)
    show "\<forall>p\<in>set ps. known env (fst p) \<and> workflow_schedule_id (fst p) \<in> set (wfs_ids (init s)) \<and>
        places (init s) (workflow_schedule_id (fst p)) = 0"
    proof
      fix p assume "p \<in> set ps"
      then have "fst p \<in> set (active_schedules s)" using assms(5) by (metis image_eqI set_map)
      then show "known env (fst p) \<and> workflow_schedule_id (fst p) \<in> set (wfs_ids (init s)) \<and>
        places (init s) (workflow_schedule_id (fst p)) = 0"
        using i wi assms(4) load_active_eq [OF assms(1)] object_ok [OF assms(1)] by auto
    qed
  qed (use i in simp)
  moreover have "(\<lambda>p. workflow_schedule_id (fst p)) ` set ps = set (wfs_ids (init s))"
    using ps wi by (metis set_map)
  ultimately show ?thesis using i by simp
qed

lemma Reload_places:
  assumes "wfs_shape s" "rows_ok env (db_rows s)" "Reload env now s = Inr s'"
  shows "wfs_shape s' \<and> (\<forall>i. places s' i = of_bool (i \<in> set (wfs_ids s')))"
proof -
  let ?s1 = "WorkflowSchedules_Reload env s"
  let ?s2 = "?s1\<lparr>timed := snd (Flush (\<lambda>_. True) (timed ?s1))\<rparr>"
  have "number_of_events (timed s) = length (sc_events (timed s))" using assms(1) by (simp add: wfs_shape_def)
  then have "sc_events (timed ?s2) = [] \<and> number_of_events (timed ?s2) = 0"
    by (auto simp: Flush_def WorkflowSchedules_Reload_def Let_def split: list.splits)
  moreover have "schedule_all env now (map (\<lambda>ws. (ws, backup_id s ws)) (active_schedules ?s2)) (init ?s2) = Inr s'"
    using assms(3) reschedule_all_eq [OF assms(1)] by (simp add: Reload_def Let_def init_def)
  ultimately show ?thesis
    using assms(2) all_active_places [of env ?s2 "map (\<lambda>ws. (ws, backup_id s ws)) (active_schedules ?s2)" now s']
    by (simp add: WorkflowSchedules_Reload_def comp_def)
qed

definition wfs_start ::
  "wfs_env \<Rightarrow> int \<Rightarrow> (32 word \<Rightarrow> 32 word list) \<Rightarrow> schedule_row list \<Rightarrow> wfs_state res" where
  "wfs_start env now executing rows = LoadDBState env now executing (WorkflowScheduler_new env rows)"

definition first_id :: "32 word list \<Rightarrow> 32 word" where
  "first_id ws = (case ws of [] \<Rightarrow> 0 | w # _ \<Rightarrow> w)"

lemma load_joined_eq:
  "rows_ok env rows \<Longrightarrow> set (map fst rws) \<subseteq> set rows \<Longrightarrow>
   load_joined env now rws s = schedule_all env now (map (\<lambda>(r, w). (object r, w)) rws) s"
proof (induction rws arbitrary: s)
  case (Cons x rws)
  obtain r w where x: "x = (r, w)" by (cases x)
  have "WorkflowSchedule_new r = Inr (object r)" using object_ok [OF Cons.prems(1)] Cons.prems(2) x by simp
  then show ?case using Cons.IH [OF Cons.prems(1)] Cons.prems(2) x by (auto simp: res_simps intro!: bindr_cong)
qed simp

lemma joined_rows_eq:
  assumes "rows_ok env rows" "\<forall>i. length (executing i) \<le> 1"
  shows "joined_rows env executing rows = map (\<lambda>r. (r, first_id (executing (row_id r)))) (filter (here env) rows)"
proof -
  have one: "(case executing i of [] \<Rightarrow> [0] | w # ws \<Rightarrow> w # ws) = [first_id (executing i)]" for i
    using assms(2) [rule_format, of i] by (cases "executing i") (auto simp: first_id_def)
  have "filter (\<lambda>r. row_active r \<and> row_node r \<in> {env_node env, ''all'', ''any''} \<and>
      env_workflows env (row_workflow r) \<noteq> None) rows = filter (here env) rows"
    using assms(1) by (intro filter_cong) (auto simp: here_def rows_ok_def list_all_iff)
  then show ?thesis by (simp add: joined_rows_def one comp_def)
qed

lemma start_places:
  assumes "rows_ok env rows" "\<forall>i. length (executing i) \<le> 1" "wfs_start env now executing rows = Inr s'"
  shows "wfs_shape s' \<and> (\<forall>i. places s' i = of_bool (i \<in> set (wfs_ids s')))"
proof -
  let ?s = "WorkflowSchedules_Reload env \<lparr>db_rows = rows, active_schedules = [], wfs_ids = [], wfs_wi_ids = [],
       wfs_executing_instances = [], timed = Scheduler_new\<rparr>"
  let ?ps = "map (\<lambda>r. (object r, first_id (executing (row_id r)))) (filter (here env) rows)"
  have "schedule_all env now ?ps (init ?s) = Inr s'"
    using assms(3) load_joined_eq [OF assms(1)]
    by (simp add: wfs_start_def LoadDBState_def WorkflowScheduler_new_def joined_rows_eq [OF assms(1,2)] comp_def
        WorkflowSchedules_Reload_def init_def image_subset_iff)
  then show ?thesis using assms(1) load_active_eq [OF assms(1)]
    by (intro all_active_places [of env ?s ?ps])
      (simp_all add: WorkflowSchedules_Reload_def Scheduler_new_def comp_def)
qed

section \<open>Alarms and histories\<close>

definition skipped :: "workflow_schedule \<Rightarrow> bool \<Rightarrow> int \<Rightarrow> bool" where
  "skipped ws elected nrunning \<longleftrightarrow> ws_node ws = ''any'' \<and> (\<not> elected \<or> nrunning > 0)"

definition suspends :: "workflow_schedule \<Rightarrow> instance_outcome \<Rightarrow> bool" where
  "suspends ws outcome \<longleftrightarrow> onfailure ws = SUSPEND \<and> (\<exists>wid. outcome = Built wid (Ended False))"

lemma alarm_effect:
  assumes "wfs_shape s" "workflow_schedule_id ws \<in> set (wfs_ids s)" "places s (workflow_schedule_id ws) = 0"
    "event_removed env now ws elected nrunning outcome s = Inr s'"
  shows "wfs_shape s' \<and> wfs_ids s' = wfs_ids s \<and>
    (\<forall>i. places s' i = places s i +
       of_bool (i = workflow_schedule_id ws \<and> (suspends ws outcome \<longrightarrow> skipped ws elected nrunning)))"
proof (cases rule: lookup_wfs_cases [OF assms(1), of "workflow_schedule_id ws", case_names absent slot])
  case (slot k)
  note len = shape_lengths [OF assms(1)]
  let ?i = "workflow_schedule_id ws"
  have known: "known env ws"
    using assms(4) by (auto simp: event_removed_def bindr_eq_Inr known_def)
  show ?thesis
  proof (cases "skipped ws elected nrunning")
    case True
    then have "catch_exn (ScheduleWorkflow env now (Some ws) 0 s) (\<lambda>_ _ _. Inr s) = Inr s'"
      using assms(4) slot by (auto simp: event_removed_def bindr_eq_Inr skipped_def)
    from ScheduleWorkflow_catch [OF known assms(1) this] schedule_pending [OF assms(1,2)] True
    show ?thesis by simp
  next
    case False
    let ?put = "\<lambda>w. s\<lparr>wfs_wi_ids := (wfs_wi_ids s)[k := w], wfs_executing_instances := (wfs_executing_instances s)[k := Some ws]\<rparr>"
    let ?w0 = "wfs_wi_ids s ! k"
    have claim: "alarm_claim (int k) ws s = Inr (?put ?w0)"
      using slot len by (simp add: alarm_claim_def put_executing_eq)
    have reg: "alarm_register (int k) w (?put ?w0) = Inr (?put w)" for w
      using slot len by (simp add: alarm_register_def put_wi_id_eq)
    have "wfs_executing_instances s ! k = None"
      using assms(3) slot by (auto simp: places_def running_def)
    then have put: "wfs_shape (?put w) \<and> wfs_ids (?put w) = wfs_ids s \<and>
        (\<forall>i. places (?put w) i = places s i + of_bool (i = ?i))" for w
      using slot_places [OF assms(1) slot(1), of "Some ws" "?put w" w] slot by (simp add: slot_ok_def)
    have stop: "wfs_shape s1 \<and> wfs_ids s1 = wfs_ids s \<and>
        (\<forall>i. places s1 i = places s i + of_bool (i = ?i \<and> (ok \<or> onfailure ws = CONTINUE)))"
      if st: "ScheduledWorkflowInstanceStop env now ?i ok (?put w) = Inr s1" for ok w s1
    proof -
      from put [of w] assms(2) have "wfs_shape (?put w)" "?i \<in> set (wfs_ids (?put w))" by simp_all
      from stop_effect [OF this st] obtain v where v: "wfs_shape s1" "wfs_ids s1 = wfs_ids (?put w)"
        "\<And>j. places s1 j + of_bool (j = ?i) = places (?put w) j + of_bool (j = ?i \<and> (ok \<or> onfailure v = CONTINUE))"
        "\<exists>j < length (wfs_ids (?put w)). wfs_ids (?put w) ! j = ?i \<and> wfs_executing_instances (?put w) ! j = Some v"
        by metis
      from v(4) obtain j where j: "j < length (wfs_ids s)" "wfs_ids s ! j = wfs_ids s ! k"
        "(wfs_executing_instances s)[k := Some ws] ! j = Some v" using slot by auto
      then have "j = k" using slot(1) nth_eq_iff_index_eq [OF shape_distinct [OF assms(1)], of j k] by simp
      then have "v = ws" using j slot len by simp
      then show ?thesis using v(1-3) put [of w] by simp
    qed
    have "wfs_shape s' \<and> wfs_ids s' = wfs_ids s \<and>
      (\<forall>i. places s' i = places s i + of_bool (i = ?i \<and> \<not> suspends ws outcome))"
    proof (cases outcome)
      case NotBuilt
      then have "s' = ?put ?w0"
        using assms(4) False slot claim by (auto simp: event_removed_def bindr_eq_Inr skipped_def)
      then show ?thesis using put [of ?w0] NotBuilt by (simp add: suspends_def)
    next
      case BuildFailed
      then have "ScheduledWorkflowInstanceStop env now ?i True (?put ?w0) = Inr s'"
        using assms(4) False slot claim by (auto simp: event_removed_def bindr_eq_Inr skipped_def)
      from stop [OF this] BuildFailed show ?thesis by (simp add: suspends_def)
    next
      case (Built wid e)
      show ?thesis
      proof (cases e)
        case StillRunning
        then have "s' = ?put wid"
          using assms(4) False slot claim reg Built by (auto simp: event_removed_def bindr_eq_Inr skipped_def)
        then show ?thesis using put [of wid] StillRunning Built by (simp add: suspends_def)
      next
        case (Ended ok)
        then have "ScheduledWorkflowInstanceStop env now ?i ok (?put wid) = Inr s'"
          using assms(4) False slot claim reg Built by (auto simp: event_removed_def bindr_eq_Inr skipped_def)
        from stop [OF this] Ended Built show ?thesis
          by (cases ok; cases "onfailure ws") (simp_all add: suspends_def)
      qed
    qed
    then show ?thesis using False by simp
  qed
qed (use assms(2) in simp)

text \<open>
  Histories: the start, a change of the rows followed by a reload, an alarm that fires, the end of an
  instance. The set holds the schedules suspended since the last reload.
\<close>

inductive wfs_run :: "wfs_env \<Rightarrow> wfs_state \<Rightarrow> 32 word set \<Rightarrow> bool" for env where
  start: "rows_ok env rows \<Longrightarrow> \<forall>i. length (executing i) \<le> 1 \<Longrightarrow> wfs_start env now executing rows = Inr s \<Longrightarrow>
    wfs_run env s {}"
| reload: "wfs_run env s S \<Longrightarrow> rows_ok env rows \<Longrightarrow> Reload env now (s\<lparr>db_rows := rows\<rparr>) = Inr s' \<Longrightarrow> wfs_run env s' {}"
| alarm: "wfs_run env s S \<Longrightarrow> shift_event c (timed s) = (Some (t, ws), sc) \<Longrightarrow>
    event_removed env now ws elected nrunning outcome (s\<lparr>timed := sc\<rparr>) = Inr s' \<Longrightarrow>
    wfs_run env s' (if suspends ws outcome \<and> \<not> skipped ws elected nrunning then insert (workflow_schedule_id ws) S else S)"
| stop: "wfs_run env s S \<Longrightarrow> ScheduledWorkflowInstanceStop env now i ok s = Inr s' \<Longrightarrow>
    wfs_run env s' (if ok then S else insert i S)"

definition wfs_inv :: "wfs_state \<Rightarrow> 32 word set \<Rightarrow> bool" where
  "wfs_inv s S \<longleftrightarrow> wfs_shape s \<and> (\<forall>i. places s i \<le> 1) \<and> (\<forall>i \<in> set (wfs_ids s). i \<notin> S \<longrightarrow> places s i = 1)"

lemma shape_db_rows [simp]:
  "wfs_shape (s\<lparr>db_rows := rows\<rparr>) = wfs_shape s"
  by (simp add: wfs_shape_def)

lemma shift_places:
  assumes "wfs_shape s" "shift_event c (timed s) = (Some (t, ws), sc)"
  shows "wfs_shape (s\<lparr>timed := sc\<rparr>) \<and> workflow_schedule_id ws \<in> set (wfs_ids s) \<and>
    (\<forall>i. places s i = places (s\<lparr>timed := sc\<rparr>) i + of_bool (i = workflow_schedule_id ws))"
proof -
  obtain es where "sc_events (timed s) = (t, ws) # es"
    "sc = timed s\<lparr>sc_events := es, number_of_events := number_of_events (timed s) - 1\<rparr>"
    using assms(2) by (auto simp: shift_event_def split: list.splits if_splits)
  then show ?thesis using assms(1) by (auto simp: wfs_shape_def places_def pending_def running_def)
qed

lemma inv_step:
  assumes "wfs_inv s S" "wfs_shape s'" "wfs_ids s' = wfs_ids s" "S \<subseteq> S'"
    "\<And>i. places s' i \<le> places s i \<and> (i \<notin> S' \<longrightarrow> places s' i = places s i)"
  shows "wfs_inv s' S'"
  unfolding wfs_inv_def
proof (intro conjI allI ballI impI)
  show "places s' i \<le> 1" for i
    using assms(1,5) le_trans [of "places s' i" "places s i" 1] by (simp add: wfs_inv_def)
  show "places s' i = 1" if "i \<in> set (wfs_ids s')" "i \<notin> S'" for i
    using that assms(1,3,4) assms(5) [of i] by (auto simp: wfs_inv_def)
qed (rule assms(2))

lemma wfs_run_inv: "wfs_run env s S \<Longrightarrow> wfs_inv s S"
proof (induction rule: wfs_run.induct)
  case (start rows executing now s)
  then show ?case using start_places [OF start(1-3)] by (simp add: wfs_inv_def)
next
  case (reload s S rows now s')
  then show ?case using Reload_places [of "s\<lparr>db_rows := rows\<rparr>" env now s'] by (simp add: wfs_inv_def)
next
  case (alarm s S c t ws sc now elected nrunning outcome s')
  let ?s = "s\<lparr>timed := sc\<rparr>" and ?i = "workflow_schedule_id ws"
  have shape: "wfs_shape s" and one: "places s ?i \<le> 1" using alarm(4) by (simp_all add: wfs_inv_def)
  have sh: "wfs_shape ?s" "?i \<in> set (wfs_ids ?s)" "\<And>i. places s i = places ?s i + of_bool (i = ?i)"
    using shift_places [OF shape alarm(2)] by simp_all
  have "places ?s ?i = 0" using sh(3) [of ?i] one by simp
  then have e: "wfs_shape s'" "wfs_ids s' = wfs_ids s"
    "\<And>i. places s' i = places ?s i + of_bool (i = ?i \<and> (suspends ws outcome \<longrightarrow> skipped ws elected nrunning))"
    using alarm_effect [OF sh(1,2) _ alarm(3)] by simp_all
  show ?case
  proof (rule inv_step [OF alarm(4) e(1,2)])
    show "places s' i \<le> places s i \<and> (i \<notin> (if suspends ws outcome \<and> \<not> skipped ws elected nrunning
        then insert ?i S else S) \<longrightarrow> places s' i = places s i)" for i
      using e(3) [of i] sh(3) [of i]
      by (cases "i = ?i"; cases "suspends ws outcome"; cases "skipped ws elected nrunning") simp_all
  qed auto
next
  case (stop s S now i ok s')
  have shape: "wfs_shape s" using stop(3) by (simp add: wfs_inv_def)
  show ?case
  proof (cases "i \<in> set (wfs_ids s)")
    case False
    then have "lookup_wfs s i = Inr (-1)"
      by (cases rule: lookup_wfs_cases [OF shape, of i, case_names absent slot]) auto
    then have "s' = s" using stop(2) by (simp add: ScheduledWorkflowInstanceStop_def res_simps)
    then show ?thesis using shape by (intro inv_step [OF stop(3)]) auto
  next
    case True
    obtain ws where "workflow_schedule_id ws = i" and e: "wfs_shape s'" "wfs_ids s' = wfs_ids s"
      "\<And>j. places s' j + of_bool (j = i) = places s j + of_bool (j = i \<and> (ok \<or> onfailure ws = CONTINUE))"
      and "\<exists>k < length (wfs_ids s). wfs_ids s ! k = i \<and> wfs_executing_instances s ! k = Some ws"
      by (rule stop_effect [OF shape True stop(2)]) (rule that)
    show ?thesis
    proof (rule inv_step [OF stop(3) e(1,2)])
      show "places s' j \<le> places s j \<and> (j \<notin> (if ok then S else insert i S) \<longrightarrow> places s' j = places s j)" for j
        using e(3) [of j] by (cases "j = i") (auto simp: of_bool_def split: if_splits)
    qed auto
  qed
qed


text \<open>An instance that ends while no instance of its schedule is known makes the scheduler dereference a
  null pointer, whether it failed or not.\<close>
theorem stop_of_idle_schedule:
  assumes "wfs_run env s S" "i \<in> set (wfs_ids s)" "\<not> running s i"
  shows "ScheduledWorkflowInstanceStop env now i ok s = Inl (UB ''null workflow_schedule'')"
proof -
  have shape: "wfs_shape s" using wfs_run_inv [OF assms(1)] by (simp add: wfs_inv_def)
  note len = shape_lengths [OF shape]
  show ?thesis
  proof (cases rule: lookup_wfs_cases [OF shape, of i, case_names absent slot])
    case (slot k)
    then have "wfs_executing_instances s ! k = None" using assms(3) by (auto simp: running_def)
    then show ?thesis using slot len
      by (simp add: ScheduledWorkflowInstanceStop_def res_simps put_executing_eq put_wi_id_eq Let_def ScheduleWorkflow_def)
  qed (use assms(2) in simp)
qed

section \<open>An example\<close>

definition sample_env :: wfs_env where
  "sample_env = \<lparr>env_node = ''n1'', env_workflows = (\<lambda>_. Some ''w''),
     env_calendar = \<lparr>localtime_r = (\<lambda>_. \<lparr>tm_sec = 0, tm_min = 0, tm_hour = 0, tm_mday = 1, tm_mon = 0,
       tm_year = 100, tm_wday = 0\<rparr>), mktime = Pair 1000\<rparr>, env_fuel = 1\<rparr>"

definition sample_rows :: "bool \<Rightarrow> schedule_row list" where
  "sample_rows active =
     [\<lparr>row_id = 4, row_workflow = 1, row_schedule = ''0'', row_onfailure = SUSPEND, row_active = True, row_node = ''n1''\<rparr>,
      \<lparr>row_id = 7, row_workflow = 1, row_schedule = ''0'', row_onfailure = SUSPEND, row_active = active, row_node = ''all''\<rparr>]"

text \<open>Schedule 7 runs as instance 20 at the start; it is locked, then unlocked.\<close>

definition sample_start :: "wfs_state res" where
  "sample_start = wfs_start sample_env 0 (\<lambda>i. if i = 7 then [20] else []) (sample_rows True)"

definition sample_relock :: "wfs_state \<Rightarrow> wfs_state res" where
  "sample_relock s =
     bindr (Reload sample_env 0 (s\<lparr>db_rows := sample_rows False\<rparr>)) (\<lambda>s1.
       Reload sample_env 0 (s1\<lparr>db_rows := sample_rows True\<rparr>))"

definition sample_tab :: "bool list" where
  "sample_tab = projr (Schedule_new ''0'')"

lemma sample_tab: "Schedule_new ''0'' = Inr sample_tab"
proof -
  have "\<not> isl (Schedule_new ''0'')" by code_simp
  then show ?thesis by (simp add: sample_tab_def)
qed

lemma sample_new:
  "row_schedule r = ''0'' \<Longrightarrow> WorkflowSchedule_new r =
     Inr \<lparr>workflow_schedule_id = row_id r, workflow_id = row_workflow r, onfailure = row_onfailure r,
       ws_active = row_active r, ws_node = row_node r, ws_schedule = sample_tab\<rparr>"
  by (simp add: WorkflowSchedule_new_def sample_tab res_simps)

lemma sample_next:
  "GetNextTime (env_fuel sample_env) (env_calendar sample_env) sample_tab now =
     Inr (if now \<ge> 1000 then now + 31536000 else 1000)"
proof -
  have "get_next_time (Suc 0) (env_calendar sample_env) sample_tab 0 = Inr 1000" by code_simp
  then have "get_next_time (Suc 0) (env_calendar sample_env) sample_tab (now + 1) = Inr 1000"
    by (simp add: sample_env_def del: find_levels.simps)
  then show ?thesis by (simp add: GetNextTime_def sample_env_def res_simps)
qed

lemma sample_name: "GetWorkflowName sample_env ws = Inr ''w''"
  by (simp add: GetWorkflowName_def sample_env_def)

lemma sample_node: "env_node sample_env = ''n1''" "env_workflows sample_env w = Some ''w''"
  by (simp_all add: sample_env_def)

lemmas sample_simps = res_simps sample_new sample_next sample_name sample_node lookup_wfs_def lookup_linear
  linear_search_def ScheduleWorkflow_def InsertEvent_def Scheduler_new_def put_executing_def put_wi_id_def
  WorkflowSchedules_Reload_def init_def Reload_def Flush_def notify_one_def Let_def

lemma rows_ok_sample: "rows_ok sample_env (sample_rows active)"
  by (cases active) (simp_all add: rows_ok_def sample_rows_def sample_tab sample_node)

lemma sample_start_eq:
  "sample_start = Inr \<lparr>db_rows = sample_rows True, active_schedules = load_active ''n1'' (sample_rows True),
     wfs_ids = [4, 7], wfs_wi_ids = [0, 20],
     wfs_executing_instances = [None, Some (load_active ''n1'' (sample_rows True) ! 1)],
     timed = \<lparr>sc_events = [(1000, load_active ''n1'' (sample_rows True) ! 0)], number_of_events = 1,
       sc_shutdown = False, thread_is_running = True, place = LoopTop\<rparr>\<rparr>"
  by (simp add: sample_start_def wfs_start_def LoadDBState_def WorkflowScheduler_new_def joined_rows_def
      sample_rows_def sample_simps)

lemma sample_relock_facts:
  "bindr (bindr sample_start sample_relock) (\<lambda>s. Inr (SendStatus s, wfs_ids s, wfs_executing_instances s)) =
     Inr ([Waiting 4 1000, Waiting 7 1000], [4, 7], [None, None])"
  by (simp add: sample_start_eq sample_relock_def sample_rows_def SendStatus_def sample_simps)

lemma sample_start_run: "sample_start = Inr s \<Longrightarrow> wfs_run sample_env s {}"
  unfolding sample_start_def by (rule wfs_run.start [OF rows_ok_sample]) auto

lemma sample_relock_run:
  assumes "wfs_run sample_env s {}" "sample_relock s = Inr s'" shows "wfs_run sample_env s' {}"
proof -
  obtain s1 where "Reload sample_env 0 (s\<lparr>db_rows := sample_rows False\<rparr>) = Inr s1"
    "Reload sample_env 0 (s1\<lparr>db_rows := sample_rows True\<rparr>) = Inr s'"
    using assms(2) by (auto simp: sample_relock_def bindr_eq_Inr)
  then show ?thesis using assms(1) rows_ok_sample by (blast intro: wfs_run.reload)
qed


theorem stop_of_idle_schedule_witness:
  "\<exists>s s'. sample_start = Inr s \<and> sample_relock s = Inr s' \<and>
     ScheduledWorkflowInstanceStop sample_env 0 7 True s' = Inl (UB ''null workflow_schedule'')"
proof -
  obtain s s' where s: "sample_start = Inr s" "sample_relock s = Inr s'" "wfs_ids s' = [4, 7]"
    "wfs_executing_instances s' = [None, None]"
    using sample_relock_facts by (auto simp: bindr_eq_Inr)
  then have "\<not> running s' 7" by (auto simp: running_def numeral_2_eq_2 nth_Cons split: nat.splits)
  then have "ScheduledWorkflowInstanceStop sample_env 0 7 True s' = Inl (UB ''null workflow_schedule'')"
    using s(3) by (intro stop_of_idle_schedule [OF sample_relock_run [OF sample_start_run [OF s(1)] s(2)]]) simp_all
  then show ?thesis using s(1,2) by blast
qed

text \<open>The same at the start of the engine: an instance resumed before \<open>LoadDBState\<close> that ends at once.\<close>

lemma stop_before_load:
  "ScheduledWorkflowInstanceStop sample_env 0 7 True (WorkflowScheduler_new sample_env (sample_rows True)) =
     Inl (UB ''null workflow_schedule'')"
  by (simp add: sample_start_eq sample_rows_def SendStatus_def sample_simps event_removed_def alarm_claim_def
      alarm_register_def shift_event_def ScheduledWorkflowInstanceStop_def WorkflowScheduler_new_def)

text \<open>The index an alarm looked up is stale after a reload that removes a schedule.\<close>

lemma reload_during_alarm:
  "bindr sample_start (\<lambda>s. bindr (lookup_wfs s 7) (\<lambda>i.
     bindr (Reload sample_env 0 (s\<lparr>db_rows := sample_rows False\<rparr>)) (alarm_register i 21))) =
   Inl (UB ''wfs_wi_ids out of range'')"
  by (simp add: sample_start_eq sample_rows_def SendStatus_def sample_simps event_removed_def alarm_claim_def
      alarm_register_def shift_event_def ScheduledWorkflowInstanceStop_def WorkflowScheduler_new_def)

text \<open>
  An instance whose construction fails early leaves its slot occupied: the schedule is shown as running,
  without instance, and waits for no alarm.
\<close>

lemma unbuilt_instance_blocks:
  "bindr sample_start (\<lambda>s. bindr (Reload sample_env 0 s) (\<lambda>s1. case shift_event 1000 (timed s1) of
     (Some (t, ws), sc) \<Rightarrow> bindr (event_removed sample_env 1000 ws True 0 NotBuilt (s1\<lparr>timed := sc\<rparr>)) (\<lambda>s2. Inr (SendStatus s2)))) =
   Inr [Running 4 0, Running 7 20]"
  by (simp add: sample_start_eq sample_rows_def SendStatus_def sample_simps event_removed_def alarm_claim_def
      alarm_register_def shift_event_def ScheduledWorkflowInstanceStop_def WorkflowScheduler_new_def)

text \<open>A failed construction counts as a success: the schedule goes on although it says SUSPEND.\<close>

lemma failed_construction_continues:
  "bindr sample_start (\<lambda>s. case shift_event 1000 (timed s) of
     (Some (t, ws), sc) \<Rightarrow> bindr (event_removed sample_env 1000 ws True 0 BuildFailed (s\<lparr>timed := sc\<rparr>)) (\<lambda>s2.
       Inr (onfailure ws, SendStatus s2))) =
   Inr (SUSPEND, [Waiting 4 31537000, Running 7 20])"
  by (simp add: sample_start_eq sample_rows_def SendStatus_def sample_simps event_removed_def alarm_claim_def
      alarm_register_def shift_event_def ScheduledWorkflowInstanceStop_def WorkflowScheduler_new_def)

end
