(* ===== verification/InstanceDom.thy ===== *)
theory InstanceDom
  imports RetryPolicy
begin

text \<open>
  The document of a running workflow instance, as src/WorkflowInstance uses it through the wrappers of
  src/DOM: a store of nodes addressed by their index, since the engine keeps references to nodes (in
  the queues, in the list of waiting nodes, in the map of ids). Nodes are never reused; a node taken
  out of the tree stays in the store. Node 0 is the element of the document; its attributes are the
  field \<open>root_attrs\<close> that the retries share.

  An operation may throw with the state changed so far: it is a function from the state to a result
  and the new state.
\<close>

section \<open>State\<close>

record dnode =
  n_name :: string
  n_attrs :: attrs
  n_parent :: "nat option"
  n_children :: "nat list"
  n_text :: string

text \<open>A node an expression may return: an element (or text), or an attribute of one.\<close>

datatype dref = Elt nat | Att nat string

text \<open>
  \<open>enqueued\<close> holds the tasks given to the queues (queue, host, task), \<open>retried\<close> those given to the
  retrier and \<open>adopted\<close> those registered with the pool as executing (on resume), the last ones at the
  end. \<open>exn_logged\<close> is the flag of ExceptionManager.
\<close>

record winst = retry_wf +
  doc :: "dnode list"
  queued_tasks :: nat
  waiting_conditions :: nat
  waiting_nodes :: "nat list"
  is_cancelling :: bool
  context_job :: nat
  context_parent_job :: nat
  current_id :: int
  id_node :: "int \<Rightarrow> nat option"
  exn_logged :: bool
  enqueued :: "(string \<times> string \<times> nat) list"
  retried :: "nat list"
  adopted :: "nat list"

section \<open>Operations that may throw\<close>

type_synonym 'a act = "winst \<Rightarrow> 'a res \<times> winst"

definition ret :: "'a \<Rightarrow> 'a act" where
  "ret x w = (Inr x, w)"

definition fail :: "fault \<Rightarrow> 'a act" where
  "fail e w = (Inl e, w)"

definition bind_act :: "'a act \<Rightarrow> ('a \<Rightarrow> 'b act) \<Rightarrow> 'b act" where
  "bind_act m f w = (case m w of (Inl e, w') \<Rightarrow> (Inl e, w') | (Inr x, w') \<Rightarrow> f x w')"

definition then_act :: "unit act \<Rightarrow> 'b act \<Rightarrow> 'b act" where
  "then_act m n = bind_act m (\<lambda>_. n)"

definition update :: "(winst \<Rightarrow> winst) \<Rightarrow> unit act" where
  "update f w = (Inr (), f w)"

definition get :: "(winst \<Rightarrow> 'a act) \<Rightarrow> 'a act" where
  "get f w = f w w"

text \<open>\<open>throw Exception(...)\<close>, \<open>catch(Exception &e)\<close>, and the calls that return a result.\<close>

definition throw :: "string \<Rightarrow> string \<Rightarrow> string \<Rightarrow> 'a act" where
  "throw c e k w = (Inl (Exn c e k), w\<lparr>exn_logged := False\<rparr>)"

definition try_act :: "'a act \<Rightarrow> (string \<Rightarrow> 'a act) \<Rightarrow> 'a act" where
  "try_act m h w = (case m w of (Inl (Exn c e k), w') \<Rightarrow> h e w' | r \<Rightarrow> r)"

definition lift_res :: "'a res \<Rightarrow> 'a act" where
  "lift_res r = (case r of Inl (Exn c e k) \<Rightarrow> throw c e k | Inl f \<Rightarrow> fail f | Inr x \<Rightarrow> ret x)"

fun for_each :: "('a \<Rightarrow> unit act) \<Rightarrow> 'a list \<Rightarrow> unit act" where
  "for_each f [] = ret ()"
| "for_each f (x # xs) = then_act (f x) (for_each f xs)"

fun map_act :: "('a \<Rightarrow> 'b act) \<Rightarrow> 'a list \<Rightarrow> 'b list act" where
  "map_act f [] = ret []"
| "map_act f (x # xs) = bind_act (f x) (\<lambda>y. bind_act (map_act f xs) (\<lambda>ys. ret (y # ys)))"

section \<open>Nodes\<close>

definition attrs_of :: "winst \<Rightarrow> nat \<Rightarrow> attrs" where
  "attrs_of w n = (if n = 0 then root_attrs w else n_attrs (doc w ! n))"

definition has :: "winst \<Rightarrow> nat \<Rightarrow> string \<Rightarrow> bool" where
  "has w n k \<longleftrightarrow> hasAttribute (attrs_of w n) k"

definition attr :: "winst \<Rightarrow> nat \<Rightarrow> string \<Rightarrow> string" where
  "attr w n k = getAttribute (attrs_of w n) k"

definition put_attrs :: "nat \<Rightarrow> attrs \<Rightarrow> winst \<Rightarrow> winst" where
  "put_attrs n a w = (if n = 0 then w\<lparr>root_attrs := a\<rparr> else w\<lparr>doc := (doc w)[n := (doc w ! n)\<lparr>n_attrs := a\<rparr>]\<rparr>)"

definition setAttribute :: "nat \<Rightarrow> string \<Rightarrow> string \<Rightarrow> unit act" where
  "setAttribute n k v = update (\<lambda>w. put_attrs n ((attrs_of w n)(k \<mapsto> v)) w)"

definition removeAttribute :: "nat \<Rightarrow> string \<Rightarrow> unit act" where
  "removeAttribute n k = update (\<lambda>w. put_attrs n ((attrs_of w n)(k := None)) w)"

definition name_of :: "winst \<Rightarrow> nat \<Rightarrow> string" where
  "name_of w n = n_name (doc w ! n)"

definition children :: "winst \<Rightarrow> nat \<Rightarrow> nat list" where
  "children w n = n_children (doc w ! n)"

definition parent :: "winst \<Rightarrow> nat \<Rightarrow> nat option" where
  "parent w n = n_parent (doc w ! n)"

definition named :: "winst \<Rightarrow> string \<Rightarrow> nat \<Rightarrow> nat list" where
  "named w k n = filter (\<lambda>c. name_of w c = k) (children w n)"

text \<open>\<open>getParentNode()\<close> of a node that has none is a null pointer, which the callers dereference.\<close>

definition getParentNode :: "nat \<Rightarrow> nat act" where
  "getParentNode n = get (\<lambda>w. case parent w n of None \<Rightarrow> fail (UB ''null parent'') | Some p \<Rightarrow> ret p)"

definition set_children :: "nat \<Rightarrow> nat list \<Rightarrow> winst \<Rightarrow> winst" where
  "set_children p cs w = w\<lparr>doc := (doc w)[p := (doc w ! p)\<lparr>n_children := cs\<rparr>]\<rparr>"

definition set_parent :: "nat \<Rightarrow> nat option \<Rightarrow> winst \<Rightarrow> winst" where
  "set_parent n p w = w\<lparr>doc := (doc w)[n := (doc w ! n)\<lparr>n_parent := p\<rparr>]\<rparr>"

definition appendChild :: "nat \<Rightarrow> nat \<Rightarrow> unit act" where
  "appendChild p n = update (\<lambda>w. set_parent n (Some p) (set_children p (children w p @ [n]) w))"

definition removeChild :: "nat \<Rightarrow> nat \<Rightarrow> unit act" where
  "removeChild p n = update (\<lambda>w. set_parent n None (set_children p (remove1 n (children w p)) w))"

text \<open>In front of a node; in place of a node.\<close>

definition insertBefore :: "nat \<Rightarrow> nat \<Rightarrow> nat \<Rightarrow> unit act" where
  "insertBefore p n c = update (\<lambda>w. set_parent n (Some p)
     (set_children p (concat (map (\<lambda>x. if x = c then [n, x] else [x]) (children w p))) w))"

definition replaceChild :: "nat \<Rightarrow> nat \<Rightarrow> nat \<Rightarrow> unit act" where
  "replaceChild p n c = update (\<lambda>w. set_parent c None (set_parent n (Some p)
     (set_children p (map (\<lambda>x. if x = c then n else x) (children w p)) w)))"

definition new_node :: "string \<Rightarrow> attrs \<Rightarrow> string \<Rightarrow> nat act" where
  "new_node k a t w = (Inr (length (doc w)),
     w\<lparr>doc := doc w @ [\<lparr>n_name = k, n_attrs = a, n_parent = None, n_children = [], n_text = t\<rparr>]\<rparr>)"

definition createElement :: "string \<Rightarrow> nat act" where
  "createElement k = new_node k Map.empty []"

definition createTextNode :: "string \<Rightarrow> nat act" where
  "createTextNode t = new_node ''#text'' Map.empty t"

text \<open>
  A deep copy. The whole store is copied with its indices shifted, and the copy of the node is cut from
  its parent: it has a copy of every node below it, and the copies of the other nodes are not below
  anything that is used.
\<close>

definition shift_node :: "nat \<Rightarrow> dnode \<Rightarrow> dnode" where
  "shift_node k d = d\<lparr>n_parent := map_option (\<lambda>p. p + k) (n_parent d), n_children := map (\<lambda>c. c + k) (n_children d)\<rparr>"

definition graft :: "dnode list \<Rightarrow> nat \<Rightarrow> nat act" where
  "graft ds n w =
     (let k = length (doc w)
      in (Inr (n + k), set_parent (n + k) None (w\<lparr>doc := doc w @ map (shift_node k) ds\<rparr>)))"

definition cloneNode :: "nat \<Rightarrow> nat act" where
  "cloneNode n = get (\<lambda>w. graft ((doc w)[0 := (doc w ! 0)\<lparr>n_attrs := root_attrs w\<rparr>]) n)"

text \<open>The nodes below a node, in document order; the depth is at most the size of the store.\<close>

primrec below :: "nat \<Rightarrow> winst \<Rightarrow> nat \<Rightarrow> nat list" where
  "below 0 w n = []"
| "below (Suc k) w n = concat (map (\<lambda>c. c # below k w c) (children w n))"

definition descendants :: "winst \<Rightarrow> nat \<Rightarrow> nat list" where
  "descendants w n = below (length (doc w)) w n"

section \<open>Ids\<close>

text \<open>
  \<open>getNodeEvqID\<close> gives an element a number on first use and records the element under it; an
  attribute is its element's number and its name. \<open>initialize_evqid\<close> runs when an instance is resumed:
  it reads the numbers of the document.
\<close>

fun register_ids :: "nat list \<Rightarrow> unit act" where
  "register_ids [] = ret ()"
| "register_ids (n # ns) = get (\<lambda>w. case stoi (attr w n ''evqid'') of
     Inl e \<Rightarrow> throw ''DOMDocument'' ''Invalid evqid found'' []
   | Inr (v, _) \<Rightarrow> then_act (update (\<lambda>w. w\<lparr>id_node := (id_node w)(v \<mapsto> n),
         current_id := (if v > current_id w then v else current_id w)\<rparr>)) (register_ids ns))"

definition initialize_evqid :: "unit act" where
  "initialize_evqid =
     then_act (update (\<lambda>w. w\<lparr>current_id := 0\<rparr>))
       (get (\<lambda>w. register_ids (filter (\<lambda>n. has w n ''evqid'') (0 # descendants w 0))))"

definition init_ids :: "unit act" where
  "init_ids = get (\<lambda>w. if current_id w = -1 then initialize_evqid else ret ())"

definition element_id :: "nat \<Rightarrow> string act" where
  "element_id n = get (\<lambda>w.
     if has w n ''evqid'' then ret (attr w n ''evqid'')
     else bind_act (lift_res (int_ck (current_id w + 1))) (\<lambda>i.
       then_act (update (\<lambda>w. w\<lparr>current_id := i\<rparr>))
       (then_act (setAttribute n ''evqid'' (to_string i))
       (then_act (update (\<lambda>w. w\<lparr>id_node := (id_node w)(i \<mapsto> n)\<rparr>)) (ret (to_string i))))))"

definition getNodeEvqID :: "dref \<Rightarrow> string act" where
  "getNodeEvqID r = then_act init_ids
     (case r of Elt n \<Rightarrow> element_id n
              | Att n k \<Rightarrow> bind_act (element_id n) (\<lambda>i. ret (if k = [] then i else i @ ''/@'' @ k)))"

text \<open>\<open>None\<close> is the null element: an unknown number, or an attribute the element does not have.\<close>

definition split_id :: "string \<Rightarrow> (string \<times> string option)" where
  "split_id s = (case find (\<lambda>i. take 2 (drop i s) = ''/@'') [0..<length s] of
     None \<Rightarrow> (s, None) | Some i \<Rightarrow> (take i s, Some (drop (i + 2) s)))"

definition getNodeFromEvqID :: "string \<Rightarrow> dref option act" where
  "getNodeFromEvqID s = then_act init_ids (get (\<lambda>w.
     case split_id s of (i, k) \<Rightarrow>
       case stoi i of
         Inl e \<Rightarrow> throw ''DOMDocument'' ''Invalid context ID'' []
       | Inr (v, _) \<Rightarrow>
           if k = Some [] then throw ''DOMDocument'' ''Invalid context ID'' []
           else case id_node w v of
                  None \<Rightarrow> ret None
                | Some n \<Rightarrow> (case k of None \<Rightarrow> ret (Some (Elt n))
                             | Some a \<Rightarrow> ret (if has w n a then Some (Att n a) else None))))"

section \<open>Exceptions with a context, statistics\<close>

text \<open>
  \<open>ExceptionWorkflowContext\<close>: its destructor, when an exception passes, marks the node as aborted,
  unless an inner context has done so.
\<close>

definition in_context :: "nat \<Rightarrow> string \<Rightarrow> 'a act \<Rightarrow> 'a act" where
  "in_context n msg m w =
     (case m w of
        (Inl (Exn c e k), w') \<Rightarrow>
          (Inl (Exn c e k),
           if exn_logged w' then w'
           else (put_attrs n ((attrs_of w' n)(''status'' \<mapsto> ''ABORTED'', ''error'' \<mapsto> msg @ '' : '' @ e)) w')\<lparr>exn_logged := True\<rparr>)
      | r \<Rightarrow> r)"

text \<open>\<open>update_job_statistics\<close> walks up from a task or job to the workflow; the fuel is the depth.\<close>

primrec job_statistics :: "nat \<Rightarrow> string \<Rightarrow> int \<Rightarrow> nat \<Rightarrow> unit act" where
  "job_statistics 0 k delta n = fail NoFuel"
| "job_statistics (Suc fuel) k delta n = get (\<lambda>w.
     if name_of w n \<in> {''task'', ''job'', ''workflow''} then
       bind_act (if name_of w n = ''task'' then bind_act (getParentNode n) getParentNode else ret n) (\<lambda>job.
       bind_act (get (\<lambda>w. if has w job k then bind_act (lift_res (stoi (attr w job k))) (\<lambda>(v, _). ret v) else ret 0)) (\<lambda>old.
       bind_act (lift_res (int_ck (old + delta))) (\<lambda>new.
       then_act (setAttribute job k (to_string new))
       (get (\<lambda>w. case parent w job of
           None \<Rightarrow> ret ()
         | Some p \<Rightarrow> (case parent w p of None \<Rightarrow> ret () | Some g \<Rightarrow> job_statistics fuel k delta g))))))
     else ret ())"

definition update_job_statistics :: "string \<Rightarrow> int \<Rightarrow> nat \<Rightarrow> unit act" where
  "update_job_statistics k delta n = get (\<lambda>w. job_statistics (Suc (length (doc w))) k delta n)"

definition clear_statistics :: "unit act" where
  "clear_statistics = get (\<lambda>w. for_each (\<lambda>n.
       then_act (removeAttribute n ''running_tasks'') (then_act (removeAttribute n ''queued_tasks'')
       (then_act (removeAttribute n ''retrying_tasks'') (then_act (removeAttribute n ''error_tasks'')
       (removeAttribute n ''waiting_conditions'')))))
     (filter (\<lambda>n. name_of w n \<in> {''job'', ''task'', ''workflow''}) (0 # descendants w 0)))"

text \<open>A counter of the instance, an \<open>unsigned int\<close>: below zero it wraps.\<close>

definition dec :: "nat \<Rightarrow> nat" where
  "dec n = (if n = 0 then 4294967295 else n - 1)"

end
