(* ===== verification/InstanceRun.thy ===== *)
theory InstanceRun
  imports InstanceDom
begin

text \<open>
  Running jobs and tasks: src/WorkflowInstance/job_task.cpp, condition_loop.cpp and value.cpp.

  The expressions of the workflow (conditions, loops, values) are the user's; what they evaluate to in a
  state is given by the environment, so that every statement holds for any of them. The queries of the
  engine itself (\<open>subjobs/job\<close>, \<open>tasks/task\<close>, ...) are functions on the store.
\<close>

section \<open>Environment\<close>

text \<open>
  A condition is true, false, needs to wait (\<open>evqWait\<close> threw) or throws. A query for nodes or for the
  text of the first node returns or throws. \<open>known_queue\<close> says whether the pool accepts a task for a
  queue. The clock is read for texts only, and by the retries.
\<close>

datatype cond_answer = CondTrue | CondFalse | CondWait string | CondError string

record wenv =
  eval_cond :: "winst \<Rightarrow> string \<Rightarrow> dref \<Rightarrow> cond_answer"
  eval_nodes :: "winst \<Rightarrow> string \<Rightarrow> dref \<Rightarrow> dref list res"
  eval_text :: "winst \<Rightarrow> string \<Rightarrow> dref \<Rightarrow> string option res"
  expand_attr :: "winst \<Rightarrow> string \<Rightarrow> dref \<Rightarrow> string res"
  known_queue :: "string \<Rightarrow> bool"
  format_datetime :: string
  fmt_time :: "int \<Rightarrow> string"
  clock :: int
  dom_maxsize :: nat
  datastore :: "string \<Rightarrow> string res"
  parse_output :: "string \<Rightarrow> dnode list option"
  task_output_xml :: "winst \<Rightarrow> nat \<Rightarrow> bool res"
  execute_task :: "winst \<Rightarrow> nat \<Rightarrow> int \<Rightarrow> int res"

section \<open>Queries of the engine\<close>

definition subjobs :: "winst \<Rightarrow> nat \<Rightarrow> nat list" where
  "subjobs w j = concat (map (named w ''job'') (named w ''subjobs'' j))"

definition tasks :: "winst \<Rightarrow> nat \<Rightarrow> nat list" where
  "tasks w j = concat (map (named w ''task'') (named w ''tasks'' j))"

definition status :: "winst \<Rightarrow> nat \<Rightarrow> string" where
  "status w n = attr w n ''status''"

text \<open>\<open>(@status='TERMINATED' and @retval = 0) or (@status='SKIPPED')\<close>; the engine writes \<open>retval\<close>.\<close>

definition successful :: "winst \<Rightarrow> nat \<Rightarrow> bool" where
  "successful w t \<longleftrightarrow> (status w t = ''TERMINATED'' \<and> attr w t ''retval'' = ''0'') \<or> status w t = ''SKIPPED''"

section \<open>Conditions and loops\<close>

definition wait_for :: "nat \<Rightarrow> unit act" where
  "wait_for n =
     then_act (update (\<lambda>w. w\<lparr>waiting_nodes := waiting_nodes w @ [n]\<rparr>))
     (then_act (setAttribute n ''status'' ''WAITING'')
     (then_act (setAttribute n ''details'' ''Waiting for condition to become true'')
     (then_act (update (\<lambda>w. w\<lparr>waiting_conditions := waiting_conditions w + 1\<rparr>))
     (update_job_statistics ''waiting_conditions'' 1 n))))"

definition handle_condition :: "wenv \<Rightarrow> nat \<Rightarrow> dref \<Rightarrow> bool \<Rightarrow> bool act" where
  "handle_condition env n ctx can_wait = get (\<lambda>w.
     if \<not> has w n ''condition'' then ret True
     else in_context n ''Error evaluating condition''
       (case eval_cond env w (attr w n ''condition'') ctx of
          CondFalse \<Rightarrow>
            then_act (setAttribute n ''status'' ''SKIPPED'')
            (then_act (setAttribute n ''details'' ''Condition evaluates to false'') (ret False))
        | CondTrue \<Rightarrow>
            then_act (removeAttribute n ''condition'')
            (then_act (setAttribute n ''details'' ''Condition evaluates to true'') (ret True))
        | CondWait e \<Rightarrow>
            if \<not> can_wait then throw ''DOMDocument'' e [] else then_act (wait_for n) (ret False)
        | CondError e \<Rightarrow> throw ''DOMDocument'' e []))"

text \<open>One iteration: a copy of the node at the end of its parent.\<close>

definition loop_copy :: "nat \<Rightarrow> string \<Rightarrow> dref \<Rightarrow> (nat \<times> dref) act" where
  "loop_copy n iteration_condition matching =
     bind_act (cloneNode n) (\<lambda>c.
     then_act (if iteration_condition \<noteq> [] then setAttribute c ''condition'' iteration_condition else ret ())
     (bind_act (getParentNode n) (\<lambda>p. then_act (appendChild p c) (ret (c, matching)))))"

definition handle_loop :: "wenv \<Rightarrow> nat \<Rightarrow> dref \<Rightarrow> (nat \<times> dref) list act" where
  "handle_loop env n ctx = get (\<lambda>w.
     if \<not> has w n ''loop'' then ret [(n, ctx)]
     else in_context n ''Error evaluating loop''
       (let loop_xpath = attr w n ''loop''; iteration_condition = attr w n ''iteration-condition''
        in then_act (removeAttribute n ''loop'')
          (then_act (removeAttribute n ''iteration-condition'')
          (bind_act (get (\<lambda>w. lift_res (eval_nodes env w loop_xpath ctx))) (\<lambda>ms.
           bind_act (map_act (loop_copy n iteration_condition) ms) (\<lambda>r.
           bind_act (getParentNode n) (\<lambda>p. then_act (removeChild p n) (ret r))))))))"

section \<open>Values\<close>

definition expand_attribute :: "wenv \<Rightarrow> nat \<Rightarrow> dref \<Rightarrow> string \<Rightarrow> string \<Rightarrow> unit act" where
  "expand_attribute env t ctx k msg = get (\<lambda>w.
     if has w t k then in_context t msg
       (bind_act (lift_res (expand_attr env w (attr w t k) ctx)) (setAttribute t k))
     else ret ())"

text \<open>\<open>replaceChild\<close> frees the replaced node: one inside it must not be looked at again.\<close>

definition replace_value_node :: "wenv \<Rightarrow> nat \<Rightarrow> dref \<Rightarrow> nat \<Rightarrow> unit act" where
  "replace_value_node env input ctx v = get (\<lambda>w.
     if v \<notin> set (descendants w input) then fail (UB ''released node'')
     else bind_act (lift_res (eval_text env w (attr w v ''select'') ctx)) (\<lambda>r.
       case r of None \<Rightarrow> ret ()
       | Some s \<Rightarrow> bind_act (getParentNode v) (\<lambda>p. bind_act (createTextNode s) (\<lambda>t. replaceChild p t v))))"

definition copy_one :: "nat \<Rightarrow> dref \<Rightarrow> unit act" where
  "copy_one v r =
     (case r of Elt m \<Rightarrow> bind_act (cloneNode m) (\<lambda>c. bind_act (getParentNode v) (\<lambda>p. insertBefore p c v))
      | Att m k \<Rightarrow> fail (StdExn ''DOMException''))"

definition replace_copy_node :: "wenv \<Rightarrow> nat \<Rightarrow> dref \<Rightarrow> nat \<Rightarrow> unit act" where
  "replace_copy_node env input ctx v =
     then_act (setAttribute input ''mode'' ''xml'')
     (bind_act (get (\<lambda>w. lift_res (eval_nodes env w (attr w v ''select'') ctx))) (\<lambda>rs.
      then_act (for_each (copy_one v) rs)
        (bind_act (getParentNode v) (\<lambda>p. removeChild p v))))"

definition replace_input :: "wenv \<Rightarrow> nat \<times> dref \<Rightarrow> unit act" where
  "replace_input env = (\<lambda>(input, ctx).
     then_act (setAttribute input ''mode'' ''text'')
     (then_act (in_context input ''Error computing input value''
        (get (\<lambda>w. for_each (replace_value_node env input ctx)
           (filter (\<lambda>m. name_of w m = ''value'') (descendants w input)))))
     (in_context input ''Error computing input values from copy node''
        (get (\<lambda>w. for_each (replace_copy_node env input ctx)
           (filter (\<lambda>m. name_of w m = ''copy'') (descendants w input)))))))"

definition replace_value :: "wenv \<Rightarrow> dref \<Rightarrow> nat \<Rightarrow> unit act" where
  "replace_value env ctx input =
     bind_act (in_context input ''Error computing condition'' (handle_condition env input ctx False)) (\<lambda>ok.
       if \<not> ok then ret ()
       else bind_act (handle_loop env input ctx) (for_each (replace_input env)))"

definition first_named :: "winst \<Rightarrow> string \<Rightarrow> nat \<Rightarrow> nat list" where
  "first_named w k n = take 1 (named w k n)"

definition replace_values :: "wenv \<Rightarrow> nat \<Rightarrow> dref \<Rightarrow> unit act" where
  "replace_values env t ctx =
     then_act (expand_attribute env t ctx ''host'' ''Error computing dynamic host'')
     (then_act (expand_attribute env t ctx ''queue_host'' ''Error computing dynamic queue host'')
     (then_act (expand_attribute env t ctx ''user'' ''Error computing dynamic user'')
     (then_act (get (\<lambda>w. for_each (replace_value env ctx) (named w ''input'' t)))
     (then_act (get (\<lambda>w. for_each (replace_value env ctx) (first_named w ''stdin'' t)))
     (get (\<lambda>w. for_each (replace_value env ctx) (first_named w ''script'' t)))))))"

section \<open>Tasks\<close>

definition abort_task :: "string \<Rightarrow> nat \<Rightarrow> unit act" where
  "abort_task msg t =
     then_act (setAttribute t ''status'' ''ABORTED'')
     (then_act (setAttribute t ''error'' msg)
     (then_act (update (\<lambda>w. w\<lparr>error_tasks := error_tasks w + 1\<rparr>))
     (update_job_statistics ''error_tasks'' 1 t)))"

definition enqueue_task :: "wenv \<Rightarrow> nat \<Rightarrow> unit act" where
  "enqueue_task env t = get (\<lambda>w.
     if is_cancelling w then abort_task ''Aborted on user request'' t
     else
       let queue_name = attr w t ''queue'';
           queue_host = (if has w t ''queue_host'' then attr w t ''queue_host''
                         else if has w t ''host'' then attr w t ''host'' else [])
       in then_act (setAttribute t ''status'' ''QUEUED'')
         (if \<not> known_queue env queue_name then abort_task ''Unknown queue name'' t
          else
            then_act (update (\<lambda>w. w\<lparr>enqueued := enqueued w @ [(queue_name, queue_host, t)]\<rparr>))
            (then_act (update (\<lambda>w. w\<lparr>running_tasks := running_tasks w + 1\<rparr>))
            (then_act (update_job_statistics ''running_tasks'' 1 t)
            (then_act (update (\<lambda>w. w\<lparr>queued_tasks := queued_tasks w + 1\<rparr>))
            (update_job_statistics ''queued_tasks'' 1 t))))))"

text \<open>The contexts and ids of the nodes a loop made; the first one keeps the id of the template.\<close>

definition context_of :: "nat \<times> (nat \<times> dref) \<Rightarrow> unit act" where
  "context_of = (\<lambda>(i, (n, ctx)).
     then_act (bind_act (getNodeEvqID ctx) (setAttribute n ''context-id''))
     (if i \<ge> 1 then then_act (removeAttribute n ''evqid'') (bind_act (getNodeEvqID (Elt n)) (\<lambda>_. ret ()))
      else ret ()))"

definition enumerated :: "'a list \<Rightarrow> (nat \<times> 'a) list" where
  "enumerated xs = zip [0..<length xs] xs"

definition run_task_copy :: "wenv \<Rightarrow> nat \<times> (nat \<times> dref) \<Rightarrow> unit act" where
  "run_task_copy env = (\<lambda>(i, (n, ctx)).
     then_act (context_of (i, (n, ctx)))
     (bind_act (handle_condition env n ctx True) (\<lambda>ok.
        if \<not> ok then ret () else then_act (replace_values env n ctx) (enqueue_task env n))))"

definition run_task :: "wenv \<Rightarrow> dref \<Rightarrow> nat \<Rightarrow> unit act" where
  "run_task env ctx t = get (\<lambda>w.
     if status w t = ''TERMINATED'' then ret ()
     else
       then_act (bind_act (getNodeEvqID ctx) (setAttribute t ''context-id''))
       (bind_act (getNodeEvqID (Elt t)) (\<lambda>_.
        bind_act (handle_condition env t ctx True) (\<lambda>ok.
          if \<not> ok then ret ()
          else bind_act (handle_loop env t ctx) (\<lambda>ns. for_each (run_task_copy env) (enumerated ns))))))"

section \<open>Jobs\<close>

definition register_job_functions :: "nat \<Rightarrow> unit act" where
  "register_job_functions n = get (\<lambda>w.
     bind_act (if name_of w n = ''task'' then bind_act (getParentNode n) getParentNode else ret n) (\<lambda>j.
     then_act (update (\<lambda>w. w\<lparr>context_job := j\<rparr>))
     (bind_act (bind_act (getParentNode j) getParentNode) (\<lambda>pj.
      update (\<lambda>w. w\<lparr>context_parent_job := pj\<rparr>)))))"

text \<open>\<open>rec\<close> is \<open>run_subjobs\<close>.\<close>

definition run_tasks :: "wenv \<Rightarrow> (nat \<Rightarrow> unit act) \<Rightarrow> nat \<Rightarrow> dref \<Rightarrow> unit act" where
  "run_tasks env rec job ctx =
     in_context job ''Corrupted workflow''
       (then_act (get (\<lambda>w. for_each (run_task env ctx) (tasks w job)))
       (get (\<lambda>w. if length (filter (successful w) (tasks w job)) = length (tasks w job) then rec job else ret ())))"

definition run_job_copy :: "wenv \<Rightarrow> (nat \<Rightarrow> unit act) \<Rightarrow> nat \<times> (nat \<times> dref) \<Rightarrow> unit act" where
  "run_job_copy env rec = (\<lambda>(i, (n, ctx)).
     then_act (context_of (i, (n, ctx)))
     (then_act (update (\<lambda>w. w\<lparr>context_job := n\<rparr>))
     (bind_act (handle_condition env n ctx True) (\<lambda>ok. if \<not> ok then ret () else run_tasks env rec n ctx))))"

definition run_subjob :: "wenv \<Rightarrow> (nat \<Rightarrow> unit act) \<Rightarrow> dref \<Rightarrow> nat \<Rightarrow> unit act" where
  "run_subjob env rec ctx j =
     then_act (register_job_functions j)
     (then_act (bind_act (getNodeEvqID ctx) (setAttribute j ''context-id''))
     (bind_act (getNodeEvqID (Elt j)) (\<lambda>_.
      bind_act (handle_condition env j ctx True) (\<lambda>ok.
        if \<not> ok then ret ()
        else bind_act (handle_loop env j ctx) (\<lambda>ns. for_each (run_job_copy env rec) (enumerated ns))))))"

text \<open>The loop of \<open>run_subjobs\<close>: an exception counts as an error and aborts the subjob it came from.\<close>

definition subjob_error :: "nat \<Rightarrow> string \<Rightarrow> string \<Rightarrow> string \<Rightarrow> unit act" where
  "subjob_error j c e k =
     then_act (update (\<lambda>w. w\<lparr>error_tasks := error_tasks w + 1\<rparr>))
     (then_act (setAttribute j ''status'' ''ABORTED'')
     (then_act (update_job_statistics ''error_tasks'' 1 j) (fail (Exn c e k))))"

definition with_error :: "nat \<Rightarrow> unit act \<Rightarrow> unit act" where
  "with_error j m w = (case m w of (Inl (Exn c e k), w') \<Rightarrow> subjob_error j c e k w' | r \<Rightarrow> r)"

primrec run_subjobs :: "nat \<Rightarrow> wenv \<Rightarrow> nat \<Rightarrow> unit act" where
  "run_subjobs 0 env job = fail NoFuel"
| "run_subjobs (Suc fuel) env job =
     in_context job ''Corrupted workflow'' (get (\<lambda>w.
       for_each (\<lambda>j. with_error j (run_subjob env (run_subjobs fuel env) (Elt job) j)) (subjobs w job)))"

end
