(* ===== verification/InstanceTasks.thy ===== *)
theory InstanceTasks
  imports InstanceRun
begin

text \<open>
  The entry points of a workflow instance: start, resume, migration and cancellation
  (src/WorkflowInstance/start_stop.cpp), the events of its tasks (job_task.cpp) and the end.

  Each runs under the lock of the instance. \<open>workflow_terminated\<close>, which the callers use to delete the
  instance, is the result. The events and savepoints they send are output only.
\<close>

section \<open>The end and the retries\<close>

text \<open>The functions of the retries work on the part of the state they share with this one.\<close>

definition set_retry :: "retry_wf \<Rightarrow> winst \<Rightarrow> winst" where
  "set_retry r w = w\<lparr>root_attrs := root_attrs r, error_tasks := error_tasks r, retrying_tasks := retrying_tasks r,
     running_tasks := running_tasks r, timers := timers r\<rparr>"

definition workflow_ended_act :: "bool act" where
  "workflow_ended_act w = (case workflow_ended (retry_wf.truncate w) of (b, r) \<Rightarrow> (Inr b, set_retry r w))"

text \<open>The retry schedules of the document, by name, with the attributes of their levels.\<close>

definition retry_schedules :: "winst \<Rightarrow> schedules" where
  "retry_schedules w = map (\<lambda>s. (attr w s ''name'', map (attrs_of w) (named w ''level'' s)))
     (concat (map (named w ''schedule'') (named w ''schedules'' 0)))"

definition retry_task_act :: "wenv \<Rightarrow> nat \<Rightarrow> unit act" where
  "retry_task_act env t w =
     (case retry_task (fmt_time env) (retry_schedules w) (clock env) (clock env) (retry_wf.truncate w) (attrs_of w t) of
        Inl e \<Rightarrow> lift_res (Inl e) w
      | Inr (r, a) \<Rightarrow>
          (let w1 = put_attrs t a (set_retry r w)
           in if retrying_tasks r = retrying_tasks w
              then update_job_statistics ''error_tasks'' 1 t w1
              else update_job_statistics ''retrying_tasks'' 1 t (w1\<lparr>retried := retried w @ [t]\<rparr>)))"

section \<open>The end of a task\<close>

definition record_log :: "wenv \<Rightarrow> nat \<Rightarrow> string \<Rightarrow> unit act" where
  "record_log env n log =
     (if length log < dom_maxsize env then
        bind_act (createTextNode log) (\<lambda>t. appendChild n t)
      else case datastore env log of
             Inr i \<Rightarrow> setAttribute n ''datastore-id'' i
           | Inl (Exn c e k) \<Rightarrow> setAttribute n ''datastore-error'' e
           | Inl f \<Rightarrow> fail f)"

definition TaskUpdateProgression :: "nat \<Rightarrow> int \<Rightarrow> unit act" where
  "TaskUpdateProgression t prct = setAttribute t ''progression'' (to_string prct)"

definition text_output :: "wenv \<Rightarrow> nat \<Rightarrow> nat \<Rightarrow> string \<Rightarrow> unit act" where
  "text_output env t out log =
     then_act (setAttribute out ''method'' ''text'') (then_act (appendChild t out) (record_log env out log))"

text \<open>A task that returned 0: its output as text, or as XML that must parse.\<close>

definition success_output :: "wenv \<Rightarrow> nat \<Rightarrow> nat \<Rightarrow> string \<Rightarrow> unit act" where
  "success_output env t out log = get (\<lambda>w. bind_act (lift_res (task_output_xml env w t)) (\<lambda>xml.
     if \<not> xml then text_output env t out log
     else case parse_output env log of
            Some ds \<Rightarrow>
              then_act (setAttribute out ''method'' ''xml'')
              (bind_act (graft ds 0) (\<lambda>n. then_act (appendChild out n) (appendChild t out)))
          | None \<Rightarrow>
              then_act (setAttribute t ''status'' ''ABORTED'')
              (then_act (setAttribute t ''error'' ''Invalid XML returned'')
              (then_act (text_output env t out log)
              (then_act (update (\<lambda>w. w\<lparr>error_tasks := error_tasks w + 1\<rparr>))
              (update_job_statistics ''error_tasks'' 1 t))))))"

definition failure_output :: "wenv \<Rightarrow> nat \<Rightarrow> nat \<Rightarrow> string \<Rightarrow> unit act" where
  "failure_output env t out log =
     then_act (text_output env t out log)
       (get (\<lambda>w. if is_cancelling w then
          then_act (setAttribute t ''error'' ([CHR ''W''] @ ''on'' @ [CHR 0x27] @ ''t retry because workflow is cancelling''))
          (then_act (update (\<lambda>w. w\<lparr>error_tasks := error_tasks w + 1\<rparr>))
          (update_job_statistics ''error_tasks'' 1 t))
        else retry_task_act env t))"

definition extra_log :: "wenv \<Rightarrow> string \<Rightarrow> nat \<Rightarrow> string option \<Rightarrow> unit act" where
  "extra_log env k t log =
     (case log of None \<Rightarrow> ret ()
      | Some s \<Rightarrow> bind_act (createElement k) (\<lambda>n. then_act (appendChild t n) (record_log env n s)))"

text \<open>\<open>catch(Exception &e)\<close> around \<open>run_subjobs\<close>: the error is in the document already.\<close>

definition ignore :: "unit act \<Rightarrow> unit act" where
  "ignore m = try_act m (\<lambda>_. ret ())"

text \<open>The nodes that waited are evaluated again; those that still wait are inserted again.\<close>

definition reevaluate :: "nat \<Rightarrow> wenv \<Rightarrow> nat \<Rightarrow> unit act" where
  "reevaluate fuel env n =
     then_act (removeAttribute n ''status'')
     (then_act (removeAttribute n ''details'')
     (then_act (update_job_statistics ''waiting_conditions'' (-1) n)
     (get (\<lambda>w. if has w n ''context-id'' then
        bind_act (getNodeFromEvqID (attr w n ''context-id'')) (\<lambda>r.
          case r of
            None \<Rightarrow> if name_of w n \<in> {''task'', ''job''} then fail (UB ''null context node'') else ret ()
          | Some ctx \<Rightarrow>
              if name_of w n = ''task'' then then_act (register_job_functions n) (run_task env ctx n)
              else if name_of w n = ''job'' then run_subjob env (run_subjobs fuel env) ctx n
              else ret ())
      else ret ()))))"

definition reevaluate_waiting :: "nat \<Rightarrow> wenv \<Rightarrow> unit act" where
  "reevaluate_waiting fuel env = get (\<lambda>w.
     then_act (update (\<lambda>w. w\<lparr>waiting_nodes := [], waiting_conditions := 0\<rparr>))
       (for_each (reevaluate fuel env) (waiting_nodes w)))"

definition all_successful :: "winst \<Rightarrow> nat \<Rightarrow> bool" where
  "all_successful w t =
     (case parent w t of None \<Rightarrow> False
      | Some p \<Rightarrow> length (filter (successful w) (named w ''task'' p)) = length (named w ''task'' p))"

definition finish_attributes :: "nat \<Rightarrow> int \<Rightarrow> unit act" where
  "finish_attributes t retval =
     then_act (setAttribute t ''status'' ''TERMINATED'')
     (then_act (setAttribute t ''retval'' (to_string retval))
     (then_act (removeAttribute t ''tid'')
     (then_act (removeAttribute t ''pid'')
     (then_act (removeAttribute t ''retry_at'') (TaskUpdateProgression t 100)))))"

definition output_element :: "wenv \<Rightarrow> nat \<Rightarrow> int \<Rightarrow> nat act" where
  "output_element env t retval = bind_act (createElement ''output'') (\<lambda>out.
     then_act (setAttribute out ''retval'' (to_string retval))
     (then_act (get (\<lambda>w. setAttribute out ''execution_time'' (attr w t ''execution_time'')))
     (then_act (setAttribute out ''exit_time'' (format_datetime env)) (ret out))))"

text \<open>
  The first half records the end of the task and decides whether the tasks of its job are all
  successful; the second counts it out and goes on with the workflow.
\<close>

definition stop_record ::
  "wenv \<Rightarrow> nat \<Rightarrow> int \<Rightarrow> string \<Rightarrow> string option \<Rightarrow> string option \<Rightarrow> bool act" where
  "stop_record env t retval stdout_output stderr_output log_output =
     then_act (finish_attributes t retval)
     (bind_act (output_element env t retval) (\<lambda>out.
      then_act (if retval = 0 then success_output env t out stdout_output else failure_output env t out stdout_output)
      (then_act (extra_log env ''stderr'' t stderr_output)
      (then_act (extra_log env ''log'' t log_output) (get (\<lambda>w. ret (all_successful w t)))))))"

definition stop_continue :: "nat \<Rightarrow> wenv \<Rightarrow> nat \<Rightarrow> bool \<Rightarrow> bool act" where
  "stop_continue fuel env t all =
     then_act (update (\<lambda>w. w\<lparr>running_tasks := dec (running_tasks w)\<rparr>))
     (then_act (update_job_statistics ''running_tasks'' (-1) t)
     (then_act (if all then bind_act (bind_act (getParentNode t) getParentNode) (\<lambda>job. ignore (run_subjobs fuel env job))
                else ret ())
     (then_act (reevaluate_waiting fuel env) workflow_ended_act)))"

definition TaskStop ::
  "nat \<Rightarrow> wenv \<Rightarrow> nat \<Rightarrow> int \<Rightarrow> string \<Rightarrow> string option \<Rightarrow> string option \<Rightarrow> bool act" where
  "TaskStop fuel env t retval stdout_output stderr_output log_output =
     bind_act (stop_record env t retval stdout_output stderr_output log_output) (stop_continue fuel env t)"

section \<open>Execution, retries\<close>

text \<open>\<open>-1\<close> when the task could not be executed. The result is the process and whether the workflow ended.\<close>

definition execute_body :: "wenv \<Rightarrow> nat \<Rightarrow> int \<Rightarrow> int act" where
  "execute_body env t tid = in_context t ''Task execution'' (get (\<lambda>w.
     if is_cancelling w then throw ''WorkflowInstance'' ''Aborted on user request'' []
     else bind_act (lift_res (execute_task env w t tid)) (\<lambda>pid.
       then_act (setAttribute t ''status'' ''EXECUTING'')
       (then_act (setAttribute t ''pid'' (to_string pid))
       (then_act (setAttribute t ''tid'' (to_string tid))
       (then_act (setAttribute t ''execution_time'' (format_datetime env)) (ret pid)))))))"

definition execute_failed :: "nat \<Rightarrow> int act" where
  "execute_failed t =
     then_act (update (\<lambda>w. w\<lparr>error_tasks := error_tasks w + 1\<rparr>))
     (then_act (update_job_statistics ''error_tasks'' 1 t)
     (then_act (update (\<lambda>w. w\<lparr>running_tasks := dec (running_tasks w)\<rparr>))
     (then_act (update_job_statistics ''running_tasks'' (-1) t) (ret (-1)))))"

definition TaskExecute :: "wenv \<Rightarrow> nat \<Rightarrow> int \<Rightarrow> (int \<times> bool) act" where
  "TaskExecute env t tid =
     then_act (update (\<lambda>w. w\<lparr>queued_tasks := dec (queued_tasks w)\<rparr>))
     (then_act (update_job_statistics ''queued_tasks'' (-1) t)
     (bind_act (try_act (execute_body env t tid) (\<lambda>e. execute_failed t)) (\<lambda>pid.
      bind_act workflow_ended_act (\<lambda>b. ret (pid, b)))))"

definition TaskRestart :: "wenv \<Rightarrow> nat \<Rightarrow> bool act" where
  "TaskRestart env t =
     then_act (enqueue_task env t)
     (then_act (update (\<lambda>w. w\<lparr>retrying_tasks := dec (retrying_tasks w)\<rparr>))
     (then_act (update_job_statistics ''retrying_tasks'' (-1) t) workflow_ended_act))"

section \<open>Start, resume, migration\<close>

definition Start :: "nat \<Rightarrow> wenv \<Rightarrow> bool act" where
  "Start fuel env =
     then_act (setAttribute 0 ''status'' ''EXECUTING'')
     (then_act (setAttribute 0 ''start_time'' (format_datetime env))
     (then_act (ignore (run_subjobs fuel env 0)) workflow_ended_act))"

definition Cancel :: "unit act" where
  "Cancel = update (\<lambda>w. w\<lparr>is_cancelling := True\<rparr>)"

definition all_named :: "winst \<Rightarrow> string list \<Rightarrow> nat list" where
  "all_named w ks = filter (\<lambda>n. name_of w n \<in> set ks) (0 # descendants w 0)"

definition resume_waiting :: "nat \<Rightarrow> unit act" where
  "resume_waiting n =
     then_act (update (\<lambda>w. w\<lparr>waiting_nodes := waiting_nodes w @ [n], waiting_conditions := waiting_conditions w + 1\<rparr>))
       (update_job_statistics ''waiting_conditions'' 1 n)"

definition resume_all_waiting :: "unit act" where
  "resume_all_waiting = get (\<lambda>w. for_each resume_waiting
     (filter (\<lambda>n. status w n = ''WAITING'') (all_named w [''job'', ''task''])))"

definition tasks_with_status :: "winst \<Rightarrow> string list \<Rightarrow> nat list" where
  "tasks_with_status w sts = filter (\<lambda>n. has w n ''status'' \<and> status w n \<in> set sts) (all_named w [''task''])"

definition resume_task :: "wenv \<Rightarrow> nat \<Rightarrow> unit act" where
  "resume_task env t = get (\<lambda>w.
     if status w t = ''QUEUED'' then enqueue_task env t
     else if status w t = ''EXECUTING'' then
       then_act (bind_act (lift_res (attr_int (attrs_of w t) ''tid'')) (\<lambda>tid. update (\<lambda>w. w\<lparr>adopted := adopted w @ [t]\<rparr>)))
       (then_act (update (\<lambda>w. w\<lparr>running_tasks := running_tasks w + 1\<rparr>))
       (update_job_statistics ''running_tasks'' 1 t))
     else if status w t = ''TERMINATED'' then
       (if attr w t ''retval'' \<noteq> ''0'' then retry_task_act env t else ret ())
     else ret ())"

definition Resume :: "wenv \<Rightarrow> bool act" where
  "Resume env =
     then_act clear_statistics
     (then_act resume_all_waiting
     (then_act (get (\<lambda>w. for_each (resume_task env) (tasks_with_status w [''QUEUED'', ''EXECUTING'', ''TERMINATED''])))
     workflow_ended_act))"

definition reset_task :: "nat \<Rightarrow> unit act" where
  "reset_task t = for_each (removeAttribute t)
     [''retry_schedule_level'', ''retry_times'', ''retry_at'', ''progression'', ''error'', ''retval'', ''execution_time'']"

text \<open>\<open>@retval!=0\<close>: the number is compared.\<close>

definition failed_or_queued :: "winst \<Rightarrow> nat \<Rightarrow> bool" where
  "failed_or_queued w t \<longleftrightarrow> (status w t = ''TERMINATED'' \<and> has w t ''retval'' \<and> attr w t ''retval'' \<noteq> ''0'') \<or> status w t = ''QUEUED''"

definition debug_resume_task :: "wenv \<Rightarrow> nat \<Rightarrow> unit act" where
  "debug_resume_task env t = get (\<lambda>w.
     then_act (if status w t = ''TERMINATED'' then reset_task t else ret ()) (enqueue_task env t))"

definition DebugResume :: "wenv \<Rightarrow> bool act" where
  "DebugResume env =
     then_act (setAttribute 0 ''status'' ''EXECUTING'')
     (then_act clear_statistics
     (then_act resume_all_waiting
     (then_act (get (\<lambda>w. for_each (debug_resume_task env) (filter (failed_or_queued w) (all_named w [''task'']))))
     workflow_ended_act)))"

text \<open>A task that was executing on the other node never ends: a failure is pretended.\<close>

definition migrate_task :: "nat \<Rightarrow> wenv \<Rightarrow> nat \<Rightarrow> unit act" where
  "migrate_task fuel env t = get (\<lambda>w.
     if status w t = ''QUEUED'' then enqueue_task env t
     else if status w t = ''EXECUTING'' then
       then_act (update (\<lambda>w. w\<lparr>running_tasks := running_tasks w + 1\<rparr>))
       (then_act (update_job_statistics ''running_tasks'' 1 t)
       (bind_act (TaskStop fuel env t (-1) ''Task migrated'' None None) (\<lambda>_. ret ())))
     else if status w t = ''TERMINATED'' then
       (if attr w t ''retval'' \<noteq> ''0'' then retry_task_act env t else ret ())
     else ret ())"

definition Migrate :: "nat \<Rightarrow> wenv \<Rightarrow> bool act" where
  "Migrate fuel env =
     then_act (get (\<lambda>w. for_each (migrate_task fuel env) (tasks_with_status w [''QUEUED'', ''EXECUTING'', ''TERMINATED''])))
       workflow_ended_act"

text \<open>The processes a \<open>KillTask\<close> signals: one per executing task with that process id.\<close>

definition KillTask :: "winst \<Rightarrow> int \<Rightarrow> int list \<times> bool" where
  "KillTask w pid =
     (let ts = filter (\<lambda>t. status w t = ''EXECUTING'' \<and> attr w t ''pid'' = to_string pid) (all_named w [''task''])
      in (map (\<lambda>_. pid) ts, ts \<noteq> []))"

end
