(* ===== verification/InstanceCalculus.thy ===== *)
theory InstanceCalculus
  imports InstanceTasks
begin

text \<open>
  A calculus for the operations of an instance. \<open>keeps R m\<close> says that the action \<open>m\<close> moves the state
  along the relation \<open>R\<close> whenever the engine goes on after it: it returned, or it threw an exception
  that a handler may catch. The locale \<open>kept_flow\<close> has the rules of composition,
  \<open>kept\<close> those for a preorder that ignores attributes, ids and the error count; \<open>kept_doc\<close> those for one
  that ignores the whole document.
\<close>

fun soft_fault :: "fault \<Rightarrow> bool" where
  "soft_fault (Exn c e k) \<longleftrightarrow> True"
| "soft_fault _ \<longleftrightarrow> False"

definition soft :: "'a res \<Rightarrow> bool" where
  "soft r \<longleftrightarrow> (case r of Inr x \<Rightarrow> True | Inl e \<Rightarrow> soft_fault e)"

lemma soft_simps [simp]: "soft (Inr x)" "soft (Inl e) = soft_fault e"
  by (simp_all add: soft_def)

definition keeps :: "(winst \<Rightarrow> winst \<Rightarrow> bool) \<Rightarrow> 'a act \<Rightarrow> bool" where
  "keeps R m \<longleftrightarrow> (\<forall>w. soft (fst (m w)) \<longrightarrow> R w (snd (m w)))"

lemma keepsI: "(\<And>w r w'. m w = (r, w') \<Longrightarrow> soft r \<Longrightarrow> R w w') \<Longrightarrow> keeps R m"
  by (simp add: keeps_def prod_eq_iff)

lemma keepsD: "keeps R m \<Longrightarrow> m w = (r, w') \<Longrightarrow> soft r \<Longrightarrow> R w w'"
  by (metis fst_conv keeps_def snd_conv)

named_theorems keeps_rules "actions that keep a relation between states"

text \<open>Rules that hold for every relation.\<close>

lemma keeps_get [keeps_rules]: "(\<And>w. keeps R (f w)) \<Longrightarrow> keeps R (get f)"
  by (simp add: keeps_def get_def)

lemma keeps_if [keeps_rules]: "(b \<Longrightarrow> keeps R m) \<Longrightarrow> (\<not> b \<Longrightarrow> keeps R n) \<Longrightarrow> keeps R (if b then m else n)"
  by simp

lemma keeps_option [keeps_rules]:
  "keeps R m \<Longrightarrow> (\<And>x. keeps R (f x)) \<Longrightarrow> keeps R (case r of None \<Rightarrow> m | Some x \<Rightarrow> f x)"
  by (cases r) simp_all

lemma keeps_prod [keeps_rules]: "(\<And>a b. keeps R (f a b)) \<Longrightarrow> keeps R (case p of (a, b) \<Rightarrow> f a b)"
  by (cases p) simp

lemma keeps_sum [keeps_rules]:
  "(\<And>e. keeps R (f e)) \<Longrightarrow> (\<And>x. keeps R (g x)) \<Longrightarrow> keeps R (case r of Inl e \<Rightarrow> f e | Inr x \<Rightarrow> g x)"
  by (cases r) simp_all

lemma keeps_fault [keeps_rules]:
  "(\<And>c e k. keeps R (f c e k)) \<Longrightarrow> (\<And>s. keeps R (g s)) \<Longrightarrow> (\<And>s. keeps R (h s)) \<Longrightarrow> keeps R i \<Longrightarrow>
   keeps R (case r of Exn c e k \<Rightarrow> f c e k | StdExn s \<Rightarrow> g s | UB s \<Rightarrow> h s | NoFuel \<Rightarrow> i)"
  by (cases r) simp_all

lemma keeps_cond_answer [keeps_rules]:
  "keeps R a \<Longrightarrow> keeps R b \<Longrightarrow> (\<And>e. keeps R (f e)) \<Longrightarrow> (\<And>e. keeps R (g e)) \<Longrightarrow>
   keeps R (case r of CondTrue \<Rightarrow> a | CondFalse \<Rightarrow> b | CondWait e \<Rightarrow> f e | CondError e \<Rightarrow> g e)"
  by (cases r) simp_all

lemma keeps_dref [keeps_rules]:
  "(\<And>n. keeps R (f n)) \<Longrightarrow> (\<And>n k. keeps R (g n k)) \<Longrightarrow> keeps R (case r of Elt n \<Rightarrow> f n | Att n k \<Rightarrow> g n k)"
  by (cases r) simp_all

section \<open>Composition\<close>

locale kept_flow =
  fixes R :: "winst \<Rightarrow> winst \<Rightarrow> bool"
  assumes R_refl: "R w w"
    and R_trans: "R w w1 \<Longrightarrow> R w1 w2 \<Longrightarrow> R w w2"
    and R_logged: "R w (w\<lparr>exn_logged := b\<rparr>)"
begin

lemma keeps_bind [keeps_rules]: "keeps R m \<Longrightarrow> (\<And>x. keeps R (f x)) \<Longrightarrow> keeps R (bind_act m f)"
proof (rule keepsI)
  fix w r w'
  assume m: "keeps R m" and f: "\<And>x. keeps R (f x)" and b: "bind_act m f w = (r, w')" "soft r"
  obtain r1 w1 where mw: "m w = (r1, w1)" by (cases "m w")
  show "R w w'"
  proof (cases r1)
    case (Inl e)
    then have "r = Inl e" "w' = w1" using b mw by (auto simp: bind_act_def)
    then show ?thesis using keepsD [OF m mw] b(2) Inl by simp
  next
    case (Inr x)
    then have "f x w1 = (r, w')" using b mw by (simp add: bind_act_def)
    have "R w w1" using keepsD [OF m mw] Inr by simp
    moreover have "R w1 w'" by (rule keepsD [OF f \<open>f x w1 = (r, w')\<close> b(2)])
    ultimately show ?thesis by (rule R_trans)
  qed
qed

lemma keeps_then [keeps_rules]: "keeps R m \<Longrightarrow> keeps R n \<Longrightarrow> keeps R (then_act m n)"
  by (simp add: then_act_def keeps_bind)

lemma keeps_ret [keeps_rules]: "keeps R (ret x)" and keeps_fail [keeps_rules]: "keeps R (fail e)"
  by (simp_all add: keeps_def ret_def fail_def R_refl)

lemma keeps_throw [keeps_rules]: "keeps R (throw c e k)"
  by (simp add: keeps_def throw_def R_logged)

lemma keeps_lift [keeps_rules]: "keeps R (lift_res r)"
  unfolding lift_res_def by (rule keeps_rules)+

lemma keeps_for_each [keeps_rules]: "(\<And>x. keeps R (f x)) \<Longrightarrow> keeps R (for_each f xs)"
  by (induction xs) (simp_all add: keeps_ret keeps_then)

lemma keeps_map_act [keeps_rules]: "(\<And>x. keeps R (f x)) \<Longrightarrow> keeps R (map_act f xs)"
  by (induction xs) (simp_all add: keeps_ret keeps_bind)

lemma keeps_update: "(\<And>w. R w (f w)) \<Longrightarrow> keeps R (update f)"
  by (simp add: keeps_def update_def)

lemma keeps_try [keeps_rules]:
  assumes m: "keeps R m" and h: "\<And>e. keeps R (h e)" shows "keeps R (try_act m h)"
proof (rule keepsI)
  fix w r w' assume c: "try_act m h w = (r, w')" "soft r"
  obtain r1 w1 where mw: "m w = (r1, w1)" by (cases "m w")
  show "R w w'"
  proof (cases "\<exists>c e k. r1 = Inl (Exn c e k)")
    case True
    then obtain e where "soft r1" "h e w1 = (r, w')" using c mw by (auto simp: try_act_def)
    then show ?thesis using keepsD [OF m mw] keepsD [OF h] c(2) R_trans by blast
  next
    case False
    then have "r1 = r \<and> w1 = w'" using c(1) mw by (auto simp: try_act_def split: sum.splits fault.splits)
    then show ?thesis using keepsD [OF m mw] c(2) by simp
  qed
qed

lemma keeps_getParentNode [keeps_rules]: "keeps R (getParentNode n)"
  unfolding getParentNode_def by (rule keeps_rules)+

lemma keeps_ignore [keeps_rules]: "keeps R m \<Longrightarrow> keeps R (ignore m)"
  unfolding ignore_def by (rule keeps_rules | assumption)+

end

section \<open>Relations that ignore attributes\<close>

locale kept = kept_flow +
  assumes R_put: "R w (put_attrs n a w)"
    and R_id: "R w (w\<lparr>current_id := i\<rparr>)"
    and R_node: "R w (w\<lparr>id_node := f\<rparr>)"
    and R_job: "R w (w\<lparr>context_job := j\<rparr>)"
    and R_parent_job: "R w (w\<lparr>context_parent_job := j\<rparr>)"
    and R_error: "R w (w\<lparr>error_tasks := e\<rparr>)"
begin

lemma keeps_context [keeps_rules]:
  assumes m: "keeps R m" shows "keeps R (in_context n msg m)"
proof (rule keepsI)
  fix w r w' assume c: "in_context n msg m w = (r, w')" "soft r"
  obtain r1 w1 where mw: "m w = (r1, w1)" by (cases "m w")
  have "R w1 w'" using c(1) mw R_trans [OF R_put R_logged] R_refl
    by (auto simp: in_context_def split: sum.splits fault.splits if_splits)
  moreover have "r = r1" using c(1) mw by (auto simp: in_context_def split: sum.splits fault.splits)
  ultimately show "R w w'" using keepsD [OF m mw] c(2) R_trans by blast
qed

lemma keeps_updates [keeps_rules]:
  "keeps R (update (\<lambda>w. w\<lparr>current_id := f w\<rparr>))" "keeps R (update (\<lambda>w. w\<lparr>id_node := g w\<rparr>))"
  "keeps R (update (\<lambda>w. w\<lparr>context_job := h w\<rparr>))" "keeps R (update (\<lambda>w. w\<lparr>context_parent_job := h w\<rparr>))"
  "keeps R (update (\<lambda>w. w\<lparr>error_tasks := h w\<rparr>))"
  "keeps R (update (\<lambda>w. w\<lparr>id_node := g w, current_id := f w\<rparr>))"
  by (rule keeps_update, rule R_id R_node R_job R_parent_job R_error R_trans [OF R_node R_id])+

lemma keeps_attribute [keeps_rules]: "keeps R (setAttribute n k v)" "keeps R (removeAttribute n k)"
  unfolding setAttribute_def removeAttribute_def by (rule keeps_update R_put)+

lemma keeps_register_ids [keeps_rules]: "keeps R (register_ids ns)"
  by (induction ns) (simp_all, (rule keeps_rules | assumption)+)

lemma keeps_ids [keeps_rules]: "keeps R (getNodeEvqID r)" "keeps R (getNodeFromEvqID s)"
  unfolding getNodeEvqID_def getNodeFromEvqID_def init_ids_def initialize_evqid_def element_id_def
  by (rule keeps_rules)+

lemma keeps_job_statistics: "keeps R (job_statistics fuel k delta n)"
  by (induction fuel arbitrary: n) (simp_all, (rule keeps_rules | assumption)+)

lemma keeps_statistics [keeps_rules]: "keeps R (update_job_statistics k delta n)"
  unfolding update_job_statistics_def by (rule keeps_rules keeps_job_statistics)+

lemma keeps_clear [keeps_rules]: "keeps R clear_statistics"
  unfolding clear_statistics_def by (rule keeps_rules)+

lemma keeps_register_job [keeps_rules]: "keeps R (register_job_functions n)"
  unfolding register_job_functions_def by (rule keeps_rules)+

lemma keeps_expand [keeps_rules]: "keeps R (expand_attribute env t ctx k msg)"
  unfolding expand_attribute_def by (rule keeps_rules)+

lemma keeps_abort [keeps_rules]: "keeps R (abort_task msg t)"
  unfolding abort_task_def by (rule keeps_rules)+

lemma keeps_context_of [keeps_rules]: "keeps R (context_of x)"
  unfolding context_of_def by (rule keeps_rules)+

lemma keeps_subjob_error [keeps_rules]: "keeps R (subjob_error j c e k)"
  unfolding subjob_error_def by (rule keeps_rules)+

lemma keeps_with_error [keeps_rules]:
  assumes m: "keeps R m" shows "keeps R (with_error j m)"
proof (rule keepsI)
  fix w r w' assume c: "with_error j m w = (r, w')" "soft r"
  obtain r1 w1 where mw: "m w = (r1, w1)" by (cases "m w")
  show "R w w'"
  proof (cases "\<exists>c e k. r1 = Inl (Exn c e k)")
    case True
    then obtain x e k where "soft r1" "subjob_error j x e k w1 = (r, w')" using c mw by (auto simp: with_error_def)
    then show ?thesis using keepsD [OF m mw] keepsD [OF keeps_subjob_error] c(2) R_trans by blast
  next
    case False
    then have "r1 = r \<and> w1 = w'" using c(1) mw by (auto simp: with_error_def split: sum.splits fault.splits)
    then show ?thesis using keepsD [OF m mw] c(2) by simp
  qed
qed

end

section \<open>Relations that ignore the document\<close>

locale kept_doc = kept +
  assumes R_doc: "R w (w\<lparr>doc := d\<rparr>)"
begin

lemma R_children: "R w (set_children p cs w)" and R_set_parent: "R w (set_parent n q w)"
  by (simp_all add: set_children_def set_parent_def R_doc)

lemma keeps_tree [keeps_rules]:
  "keeps R (appendChild p n)" "keeps R (removeChild p n)" "keeps R (insertBefore p n c)" "keeps R (replaceChild p n c)"
  unfolding appendChild_def removeChild_def insertBefore_def replaceChild_def
  by (rule keeps_update, blast intro: R_trans R_children R_set_parent)+

lemma keeps_create [keeps_rules]: "keeps R (createElement k)" "keeps R (createTextNode t)"
  by (simp_all add: createElement_def createTextNode_def keeps_def new_node_def R_doc)

lemma keeps_graft [keeps_rules]: "keeps R (graft ds n)"
  by (simp add: keeps_def graft_def Let_def R_trans [OF R_doc R_set_parent])

lemma keeps_cloneNode [keeps_rules]: "keeps R (cloneNode n)"
  unfolding cloneNode_def by (rule keeps_rules)+

lemma keeps_loop_copy [keeps_rules]: "keeps R (loop_copy n c m)"
  unfolding loop_copy_def by (rule keeps_rules)+

lemma keeps_handle_loop [keeps_rules]: "keeps R (handle_loop env n ctx)"
  unfolding handle_loop_def Let_def by (rule keeps_rules)+

text \<open>Without waiting, a condition changes attributes only.\<close>

lemma keeps_plain_condition [keeps_rules]: "keeps R (handle_condition env n ctx False)"
  unfolding handle_condition_def not_False_eq_True if_True by (rule keeps_rules)+

lemma keeps_replace_values [keeps_rules]: "keeps R (replace_values env t ctx)"
  unfolding replace_values_def replace_value_def replace_input_def replace_value_node_def replace_copy_node_def
    copy_one_def
  by (rule keeps_rules)+

lemma keeps_record_log [keeps_rules]: "keeps R (record_log env n log)"
  unfolding record_log_def by (rule keeps_rules)+

lemma keeps_outputs [keeps_rules]:
  "keeps R (text_output env t out log)" "keeps R (success_output env t out log)" "keeps R (extra_log env k t l)"
  "keeps R (output_element env t retval)" "keeps R (finish_attributes t retval)"
  unfolding text_output_def success_output_def extra_log_def output_element_def finish_attributes_def
    TaskUpdateProgression_def
  by (rule keeps_rules)+

end

end
