(* ===== verification/InstanceCounters.thy ===== *)
theory InstanceCounters
  imports InstanceCalculus "HOL-Library.Multiset"
begin

text \<open>
  How the operations of an instance move its counters: every task given to a queue is counted as
  running and queued, every task given to the retrier as retrying, every waiting node as a waiting
  condition, whatever the expressions of the workflow do and wherever they throw.
\<close>

section \<open>The relations\<close>

definition grows :: "winst \<Rightarrow> winst \<Rightarrow> bool" where
  "grows w w' \<longleftrightarrow> (\<exists>qs rs as. enqueued w' = enqueued w @ qs \<and> retried w' = retried w @ rs \<and> adopted w' = adopted w @ as \<and>
     running_tasks w' = running_tasks w + length qs + length as \<and>
     queued_tasks w' = queued_tasks w + length qs \<and> retrying_tasks w' = retrying_tasks w + length rs) \<and>
     (waiting_conditions w = length (waiting_nodes w) \<longrightarrow> waiting_conditions w' = length (waiting_nodes w')) \<and>
     is_cancelling w' = is_cancelling w"

definition same_counters :: "winst \<Rightarrow> winst \<Rightarrow> bool" where
  "same_counters w w' \<longleftrightarrow> enqueued w' = enqueued w \<and> retried w' = retried w \<and> adopted w' = adopted w \<and>
     running_tasks w' = running_tasks w \<and> queued_tasks w' = queued_tasks w \<and> retrying_tasks w' = retrying_tasks w \<and>
     waiting_conditions w' = waiting_conditions w \<and> waiting_nodes w' = waiting_nodes w \<and> is_cancelling w' = is_cancelling w"

lemma grows_trans: "grows w w1 \<Longrightarrow> grows w1 w2 \<Longrightarrow> grows w w2"
  unfolding grows_def by fastforce

lemma put_attrs_counters [simp]:
  "enqueued (put_attrs n a w) = enqueued w" "retried (put_attrs n a w) = retried w" "adopted (put_attrs n a w) = adopted w"
  "running_tasks (put_attrs n a w) = running_tasks w" "queued_tasks (put_attrs n a w) = queued_tasks w"
  "retrying_tasks (put_attrs n a w) = retrying_tasks w" "waiting_conditions (put_attrs n a w) = waiting_conditions w"
  "waiting_nodes (put_attrs n a w) = waiting_nodes w" "is_cancelling (put_attrs n a w) = is_cancelling w"
  by (simp_all add: put_attrs_def)

interpretation same: kept_doc same_counters
  by unfold_locales (simp_all add: same_counters_def)

interpretation grow: kept_doc grows
  by unfold_locales (auto simp: grows_def intro: grows_trans [unfolded grows_def])

lemma same_grows: "same_counters w w' \<Longrightarrow> grows w w'"
  by (auto simp: grows_def same_counters_def)

section \<open>Actions that do not throw\<close>

definition calm :: "'a act \<Rightarrow> bool" where
  "calm m \<longleftrightarrow> (\<forall>w. soft (fst (m w)) \<longrightarrow> \<not> isl (fst (m w)))"

named_theorems calm_rules "actions that throw no exception a handler catches"

lemma calm_bind [calm_rules]: "calm m \<Longrightarrow> (\<And>x. calm (f x)) \<Longrightarrow> calm (bind_act m f)"
proof -
  assume m: "calm m" and f: "\<And>x. calm (f x)"
  have "\<not> isl (fst (bind_act m f w))" if s: "soft (fst (bind_act m f w))" for w
  proof -
    obtain r1 w1 where mw: "m w = (r1, w1)" by (cases "m w")
    show ?thesis
    proof (cases r1)
      case (Inl e)
      then have "soft (fst (m w))" using s mw by (simp add: bind_act_def)
      then have "\<not> isl (fst (m w))" using m by (simp add: calm_def)
      then show ?thesis using mw Inl by simp
    next
      case (Inr x)
      then show ?thesis using s mw f [of x] by (simp add: bind_act_def calm_def)
    qed
  qed
  then show ?thesis by (simp add: calm_def)
qed

lemma calm_then [calm_rules]: "calm m \<Longrightarrow> calm n \<Longrightarrow> calm (then_act m n)"
  by (simp add: then_act_def calm_bind)

lemma calm_get [calm_rules]: "(\<And>w. calm (f w)) \<Longrightarrow> calm (get f)"
  by (simp add: calm_def get_def)

lemma calm_cases [calm_rules]:
  "calm m \<Longrightarrow> calm n \<Longrightarrow> calm (if b then m else n)"
  "calm m \<Longrightarrow> (\<And>x. calm (g x)) \<Longrightarrow> calm (case r of None \<Rightarrow> m | Some x \<Rightarrow> g x)"
  "(\<And>a b. calm (h a b)) \<Longrightarrow> calm (case p of (a, b) \<Rightarrow> h a b)"
  by (auto split: option.split prod.split)

lemma calm_basic [calm_rules]:
  "calm (ret x)" "calm (update f)" "calm (fail (UB s))" "calm (fail NoFuel)" "calm (setAttribute n k v)"
  "calm (removeAttribute n k)"
  by (simp_all add: calm_def ret_def update_def fail_def setAttribute_def removeAttribute_def)

lemma calm_lift: "(\<And>c e k. r \<noteq> Inl (Exn c e k)) \<Longrightarrow> calm (lift_res r)"
  by (auto simp: calm_def lift_res_def ret_def fail_def split: sum.split fault.split)

lemma calm_numbers [calm_rules]: "calm (lift_res (stoi s))" "calm (lift_res (int_ck i))"
  by (auto intro!: calm_lift simp: stoi_def int_ck_def split: option.splits if_splits)

lemma calm_getParentNode [calm_rules]: "calm (getParentNode n)"
  unfolding getParentNode_def by (rule calm_rules)+

lemma calm_job_statistics: "calm (job_statistics fuel k delta n)"
  by (induction fuel arbitrary: n) (simp_all, (rule calm_rules | assumption)+)

lemma calm_statistics [calm_rules]: "calm (update_job_statistics k delta n)"
  unfolding update_job_statistics_def by (rule calm_rules calm_job_statistics)+

lemma then_softE:
  assumes "then_act m n w = (r, w')" "soft r"
  obtains (go) w1 where "m w = (Inr (), w1)" "n w1 = (r, w')"
  | (stop) e where "m w = (Inl e, w')" "r = Inl e"
  using assms by (auto simp: then_act_def bind_act_def split: prod.splits sum.splits)

lemma then_calmE:
  assumes "then_act m n w = (r, w')" "soft r" "calm m"
  obtains w1 where "m w = (Inr (), w1)" "n w1 = (r, w')"
proof (cases rule: then_softE [OF assms(1,2), case_names go stop])
  case (stop e)
  then have "soft (fst (m w))" using assms(2) by simp
  then have "\<not> isl (fst (m w))" using assms(3) by (simp add: calm_def)
  then show ?thesis using stop by simp
qed (use that in blast)

lemma statisticsE:
  assumes "then_act (update_job_statistics k d n) m w = (r, w')" "soft r"
  obtains w1 where "same_counters w w1" "m w1 = (r, w')"
proof (rule then_calmE [OF assms calm_statistics])
  fix w1 assume s: "update_job_statistics k d n w = (Inr (), w1)" "m w1 = (r, w')"
  have "same_counters w w1" by (rule keepsD [OF same.keeps_statistics s(1)]) simp
  then show ?thesis using s(2) that by blast
qed

lemma updateE:
  assumes "then_act (update f) m w = (r, w')"
  shows "m (f w) = (r, w')"
  using assms by (simp add: then_act_def bind_act_def update_def)

lemma attributeE:
  assumes "then_act (setAttribute n k v) m w = (r, w')"
  obtains w1 where "same_counters w w1" "m w1 = (r, w')"
proof
  show "m (put_attrs n ((attrs_of w n)(k \<mapsto> v)) w) = (r, w')"
    using assms unfolding setAttribute_def by (rule updateE)
qed (rule same.R_put)

section \<open>Enqueuing, waiting, retrying\<close>

lemma enqueue_grows [keeps_rules]: "keeps grows (enqueue_task env t)"
proof (rule keepsI)
  fix w r w' assume e: "enqueue_task env t w = (r, w')" and s: "soft r"
  show "grows w w'"
  proof (cases "is_cancelling w")
    case True
    then have "abort_task ''Aborted on user request'' t w = (r, w')" using e by (simp add: enqueue_task_def get_def)
    then show ?thesis using s by (rule keepsD [OF grow.keeps_abort])
  next
    case False
    let ?q = "(attr w t ''queue'', if has w t ''queue_host'' then attr w t ''queue_host''
      else if has w t ''host'' then attr w t ''host'' else [], t)"
    note e' = e [unfolded enqueue_task_def get_def if_not_P [OF False] Let_def]
    obtain w1 where w1: "same_counters w w1"
      and rest: "(if \<not> known_queue env (attr w t ''queue'') then abort_task ''Unknown queue name'' t
          else then_act (update (\<lambda>w. w\<lparr>enqueued := enqueued w @ [?q]\<rparr>))
            (then_act (update (\<lambda>w. w\<lparr>running_tasks := running_tasks w + 1\<rparr>))
            (then_act (update_job_statistics ''running_tasks'' 1 t)
            (then_act (update (\<lambda>w. w\<lparr>queued_tasks := queued_tasks w + 1\<rparr>))
            (update_job_statistics ''queued_tasks'' 1 t))))) w1 = (r, w')"
      by (rule attributeE [OF e'])
    show ?thesis
    proof (cases "known_queue env (attr w t ''queue'')")
      case True
      let ?w2 = "w1\<lparr>enqueued := enqueued w1 @ [?q]\<rparr>"
      let ?w3 = "?w2\<lparr>running_tasks := running_tasks ?w2 + 1\<rparr>"
      from rest True have "then_act (update_job_statistics ''running_tasks'' 1 t)
            (then_act (update (\<lambda>w. w\<lparr>queued_tasks := queued_tasks w + 1\<rparr>))
            (update_job_statistics ''queued_tasks'' 1 t)) ?w3 = (r, w')"
        by (auto dest!: updateE)
      from statisticsE [OF this s] obtain w4 where w4: "same_counters ?w3 w4"
        "then_act (update (\<lambda>w. w\<lparr>queued_tasks := queued_tasks w + 1\<rparr>)) (update_job_statistics ''queued_tasks'' 1 t) w4 = (r, w')"
        by blast
      from updateE [OF w4(2)] have "same_counters (w4\<lparr>queued_tasks := queued_tasks w4 + 1\<rparr>) w'"
        using s by (rule keepsD [OF same.keeps_statistics])
      then show ?thesis using w1 w4(1) by (auto simp: grows_def same_counters_def)
    next
      case False
      then have "abort_task ''Unknown queue name'' t w1 = (r, w')" using rest by simp
      then have "grows w1 w'" using s by (rule keepsD [OF grow.keeps_abort])
      then show ?thesis using same_grows [OF w1] grows_trans by blast
    qed
  qed
qed

lemma wait_for_grows [keeps_rules]: "keeps grows (wait_for n)"
proof (rule keepsI)
  fix w r w' assume e: "wait_for n w = (r, w')" and s: "soft r"
  let ?w1 = "w\<lparr>waiting_nodes := waiting_nodes w @ [n]\<rparr>"
  obtain w2 where w2: "same_counters ?w1 w2" and e2: "then_act (setAttribute n ''details'' ''Waiting for condition to become true'')
     (then_act (update (\<lambda>w. w\<lparr>waiting_conditions := waiting_conditions w + 1\<rparr>))
     (update_job_statistics ''waiting_conditions'' 1 n)) w2 = (r, w')"
    by (rule attributeE [OF updateE [OF e [unfolded wait_for_def]]])
  obtain w3 where w3: "same_counters w2 w3" and e3: "then_act (update (\<lambda>w. w\<lparr>waiting_conditions := waiting_conditions w + 1\<rparr>))
     (update_job_statistics ''waiting_conditions'' 1 n) w3 = (r, w')"
    by (rule attributeE [OF e2])
  have "same_counters (w3\<lparr>waiting_conditions := waiting_conditions w3 + 1\<rparr>) w'"
    using updateE [OF e3] s by (rule keepsD [OF same.keeps_statistics])
  then show "grows w w'" using w2 w3 by (auto simp: grows_def same_counters_def)
qed

lemma condition_grows [keeps_rules]: "keeps grows (handle_condition env n ctx can_wait)"
  unfolding handle_condition_def by (rule keeps_rules)+

lemma retry_task_counts:
  assumes "retry_task fmt docs now now2 w task = Inr (r, a)"
  shows "running_tasks r = running_tasks w \<and> root_attrs r = root_attrs w \<and>
    (retrying_tasks r = retrying_tasks w \<or> retrying_tasks r = Suc (retrying_tasks w))"
proof -
  have ins: "running_tasks r = running_tasks w \<and> root_attrs r = root_attrs w \<and>
      (retrying_tasks r = retrying_tasks w \<or> retrying_tasks r = Suc (retrying_tasks w))"
    if "retry_insert fmt now now2 w task2 d n = Inr (r, a)" for task2 d n
    using that by (auto simp: retry_insert_def bindr_eq_Inr give_up_def split: if_splits)
  show ?thesis using assms
    by (auto simp: retry_task_def Let_def bindr_eq_Inr give_up_def split: if_splits option.splits dest!: ins)
qed

lemma retry_grows [keeps_rules]: "keeps grows (retry_task_act env t)"
proof (rule keepsI)
  fix w r w' assume e: "retry_task_act env t w = (r, w')" and s: "soft r"
  show "grows w w'"
  proof (cases "retry_task (fmt_time env) (retry_schedules w) (clock env) (clock env) (retry_wf.truncate w) (attrs_of w t)")
    case (Inl f)
    then have "lift_res (Inl f) w = (r, w')" using e by (simp add: retry_task_act_def)
    then show ?thesis using s by (rule keepsD [OF grow.keeps_lift])
  next
    case (Inr p)
    obtain q a where p: "p = (q, a)" by (cases p)
    let ?w1 = "put_attrs t a (set_retry q w)"
    have c: "running_tasks q = running_tasks w"
      "retrying_tasks q = retrying_tasks w \<or> retrying_tasks q = Suc (retrying_tasks w)"
      using retry_task_counts [OF Inr [unfolded p]] by (simp_all add: retry_wf.truncate_def)
    have e1: "(if retrying_tasks q = retrying_tasks w then update_job_statistics ''error_tasks'' 1 t ?w1
        else update_job_statistics ''retrying_tasks'' 1 t (?w1\<lparr>retried := retried w @ [t]\<rparr>)) = (r, w')"
      using e Inr p by (simp add: retry_task_act_def Let_def)
    show ?thesis
    proof (cases "retrying_tasks q = retrying_tasks w")
      case True
      then have "same_counters ?w1 w'" using e1 s by (auto intro: keepsD [OF same.keeps_statistics])
      moreover have "same_counters w ?w1" using c True by (simp add: same_counters_def set_retry_def)
      ultimately show ?thesis using same_grows grows_trans by blast
    next
      case False
      then have "same_counters (?w1\<lparr>retried := retried w @ [t]\<rparr>) w'"
        using e1 s by (auto intro: keepsD [OF same.keeps_statistics])
      then show ?thesis using c False by (auto simp: grows_def same_counters_def set_retry_def)
    qed
  qed
qed

section \<open>Jobs and tasks\<close>

lemma run_task_grows [keeps_rules]: "keeps grows (run_task env ctx t)"
  unfolding run_task_def run_task_copy_def by (rule keeps_rules)+

lemma run_subjob_grows [keeps_rules]:
  "(\<And>j. keeps grows (rec j)) \<Longrightarrow> keeps grows (run_subjob env rec ctx j)"
  unfolding run_subjob_def run_job_copy_def run_tasks_def by (rule keeps_rules | assumption)+

lemma run_subjobs_grows [keeps_rules]: "keeps grows (run_subjobs fuel env job)"
  by (induction fuel arbitrary: job) (simp_all, (rule keeps_rules | assumption)+)

lemma reevaluate_grows [keeps_rules]: "keeps grows (reevaluate fuel env n)"
  unfolding reevaluate_def by (rule keeps_rules)+

lemma reevaluate_waiting_grows [keeps_rules]: "keeps grows (reevaluate_waiting fuel env)"
proof -
  have "keeps grows (update (\<lambda>w. w\<lparr>waiting_nodes := [], waiting_conditions := 0\<rparr>))"
    by (rule grow.keeps_update) (simp add: grows_def)
  then show ?thesis unfolding reevaluate_waiting_def by (intro keeps_rules)
qed

section \<open>The entry points\<close>

lemma ended_effect:
  assumes "workflow_ended_act w = (r, w')"
  shows "r = Inr (running_tasks w' = 0 \<and> retrying_tasks w' = 0) \<and> same_counters w w'"
proof -
  obtain b q where bq: "workflow_ended (retry_wf.truncate w) = (b, q)" by (cases "workflow_ended (retry_wf.truncate w)")
  have "b \<longleftrightarrow> running_tasks w = 0 \<and> retrying_tasks w = 0"
    "running_tasks q = running_tasks w \<and> retrying_tasks q = retrying_tasks w"
    using bq by (auto simp: workflow_ended_def retry_wf.truncate_def Let_def split: if_splits)
  then show ?thesis using assms bq by (auto simp: workflow_ended_act_def same_counters_def set_retry_def)
qed

lemma ended_grows [keeps_rules]: "keeps grows workflow_ended_act"
  by (rule keepsI) (use ended_effect same_grows in blast)

lemma failure_output_grows [keeps_rules]: "keeps grows (failure_output env t out log)"
  unfolding failure_output_def by (rule keeps_rules)+

lemma stop_record_grows [keeps_rules]: "keeps grows (stop_record env t retval out err log)"
  unfolding stop_record_def by (rule keeps_rules)+

lemma bind_InrE:
  assumes "bind_act m f w = (Inr y, w')"
  obtains x w1 where "m w = (Inr x, w1)" "f x w1 = (Inr y, w')"
  using assms by (auto simp: bind_act_def split: prod.splits sum.splits)

lemma then_InrE:
  assumes "then_act m n w = (Inr y, w')"
  obtains w1 where "m w = (Inr (), w1)" "n w1 = (Inr y, w')"
  using assms by (auto simp: then_act_def elim: bind_InrE)

text \<open>One running task fewer.\<close>

definition less_running :: "winst \<Rightarrow> winst" where
  "less_running w = w\<lparr>running_tasks := running_tasks w - 1\<rparr>"

lemma grows_less: "grows w w' \<Longrightarrow> running_tasks w > 0 \<Longrightarrow> grows (less_running w) (less_running w') \<and> running_tasks w' > 0"
  by (fastforce simp: grows_def less_running_def)

lemma stop_continue_effect:
  assumes "stop_continue fuel env t all w = (Inr b, w')" "running_tasks w > 0"
  shows "grows (less_running w) w' \<and> b = (running_tasks w' = 0 \<and> retrying_tasks w' = 0)"
proof -
  have dec: "dec (running_tasks w) = running_tasks w - 1" using assms(2) by (simp add: dec_def)
  have s: "soft (Inr b)" by simp
  obtain w1 where w1: "same_counters (less_running w) w1"
    and e1: "then_act (if all then bind_act (bind_act (getParentNode t) getParentNode) (\<lambda>job. ignore (run_subjobs fuel env job))
                else ret ()) (then_act (reevaluate_waiting fuel env) workflow_ended_act) w1 = (Inr b, w')"
    using updateE [OF assms(1) [unfolded stop_continue_def]] s unfolding less_running_def dec by (rule statisticsE)
  obtain w2 where "(if all then bind_act (bind_act (getParentNode t) getParentNode) (\<lambda>job. ignore (run_subjobs fuel env job))
      else ret ()) w1 = (Inr (), w2)" and e2: "then_act (reevaluate_waiting fuel env) workflow_ended_act w2 = (Inr b, w')"
    using e1 by (rule then_InrE)
  moreover have "keeps grows (if all then bind_act (bind_act (getParentNode t) getParentNode)
      (\<lambda>job. ignore (run_subjobs fuel env job)) else ret ())"
    by (rule keeps_rules)+
  ultimately have g2: "grows w1 w2" by (auto intro: keepsD)
  obtain w3 where e3: "reevaluate_waiting fuel env w2 = (Inr (), w3)" "workflow_ended_act w3 = (Inr b, w')"
    using e2 by (rule then_InrE)
  have "grows w2 w3" by (rule keepsD [OF reevaluate_waiting_grows e3(1)]) simp
  then show ?thesis using ended_effect [OF e3(2)] g2 same_grows [OF w1] same_grows grows_trans by blast
qed

lemma TaskStop_effect:
  assumes "TaskStop fuel env t retval out err log w = (Inr b, w')" "running_tasks w > 0"
  shows "grows (less_running w) w' \<and> b = (running_tasks w' = 0 \<and> retrying_tasks w' = 0)"
proof -
  obtain all w1 where e: "stop_record env t retval out err log w = (Inr all, w1)"
    "stop_continue fuel env t all w1 = (Inr b, w')"
    using assms(1) unfolding TaskStop_def by (rule bind_InrE)
  have "grows w w1" by (rule keepsD [OF stop_record_grows e(1)]) simp
  then show ?thesis using grows_less [of w w1] assms(2) stop_continue_effect [OF e(2)] grows_trans by blast
qed

lemma execute_body_same: "keeps same_counters (execute_body env t tid)"
  unfolding execute_body_def by (rule keeps_rules)+

lemma execute_failed_effect:
  assumes "execute_failed t w = (Inr pid, w')" "running_tasks w > 0"
  shows "same_counters (less_running w) w' \<and> pid = -1"
proof -
  let ?w1 = "w\<lparr>error_tasks := error_tasks w + 1\<rparr>"
  have s: "soft (Inr pid)" by simp
  obtain w2 where w2: "same_counters ?w1 w2"
    and e2: "then_act (update (\<lambda>w. w\<lparr>running_tasks := dec (running_tasks w)\<rparr>))
      (then_act (update_job_statistics ''running_tasks'' (-1) t) (ret (-1))) w2 = (Inr pid, w')"
    using updateE [OF assms(1) [unfolded execute_failed_def]] s by (rule statisticsE)
  obtain w3 where w3: "same_counters (w2\<lparr>running_tasks := dec (running_tasks w2)\<rparr>) w3" "ret (-1) w3 = (Inr pid, w')"
    using updateE [OF e2] s by (rule statisticsE)
  show ?thesis using w2 w3 assms(2) by (auto simp: same_counters_def less_running_def dec_def ret_def)
qed

text \<open>A process id is not negative.\<close>

definition pids_ok :: "wenv \<Rightarrow> bool" where
  "pids_ok env \<longleftrightarrow> (\<forall>w t tid pid. execute_task env w t tid = Inr pid \<longrightarrow> pid \<ge> 0)"

lemma execute_body_pid:
  assumes "execute_body env t tid w = (Inr pid, w')" "pids_ok env" shows "pid \<ge> 0"
proof -
  have "(if is_cancelling w then throw ''WorkflowInstance'' ''Aborted on user request'' []
     else bind_act (lift_res (execute_task env w t tid)) (\<lambda>pid.
       then_act (setAttribute t ''status'' ''EXECUTING'')
       (then_act (setAttribute t ''pid'' (to_string pid))
       (then_act (setAttribute t ''tid'' (to_string tid))
       (then_act (setAttribute t ''execution_time'' (format_datetime env)) (ret pid)))))) w = (Inr pid, w')"
    using assms(1) by (auto simp: execute_body_def in_context_def get_def split: prod.splits sum.splits fault.splits)
  then obtain p w1 where "lift_res (execute_task env w t tid) w = (Inr p, w1)" "p = pid"
    by (auto simp: throw_def ret_def split: if_splits elim!: bind_InrE then_InrE)
  then have "execute_task env w t tid = Inr pid"
    by (auto simp: lift_res_def throw_def fail_def ret_def split: sum.splits fault.splits)
  then show ?thesis using assms(2) by (simp add: pids_ok_def)
qed

lemma TaskExecute_effect:
  assumes "TaskExecute env t tid w = (Inr (pid, b), w')" "running_tasks w > 0" "queued_tasks w > 0" "pids_ok env"
  shows "same_counters ((if pid = -1 then less_running w else w)\<lparr>queued_tasks := queued_tasks w - 1\<rparr>) w' \<and>
    b = (running_tasks w' = 0 \<and> retrying_tasks w' = 0)"
proof -
  let ?w1 = "w\<lparr>queued_tasks := dec (queued_tasks w)\<rparr>"
  have s: "soft (Inr (pid, b))" by simp
  obtain w2 where w2: "same_counters ?w1 w2"
    and e2: "bind_act (try_act (execute_body env t tid) (\<lambda>e. execute_failed t)) (\<lambda>pid.
      bind_act workflow_ended_act (\<lambda>b. ret (pid, b))) w2 = (Inr (pid, b), w')"
    using updateE [OF assms(1) [unfolded TaskExecute_def]] s by (rule statisticsE)
  obtain p w3 where e3: "try_act (execute_body env t tid) (\<lambda>e. execute_failed t) w2 = (Inr p, w3)"
    and e4: "bind_act workflow_ended_act (\<lambda>b. ret (p, b)) w3 = (Inr (pid, b), w')"
    using e2 by (rule bind_InrE)
  obtain c w4 where "workflow_ended_act w3 = (Inr c, w4)" "ret (p, c) w4 = (Inr (pid, b), w')"
    using e4 by (rule bind_InrE)
  then have e5: "workflow_ended_act w3 = (Inr b, w')" "p = pid" by (simp_all add: ret_def)
  obtain r w5 where body: "execute_body env t tid w2 = (r, w5)" by (cases "execute_body env t tid w2")
  have "same_counters (if pid = -1 then less_running w2 else w2) w3"
  proof (cases r)
    case (Inl e)
    then obtain x y z where r: "r = Inl (Exn x y z)" using e3 body by (cases e) (auto simp: try_act_def)
    then have "same_counters w2 w5" using keepsD [OF execute_body_same body] by simp
    moreover have f: "execute_failed t w5 = (Inr p, w3)" using e3 body r by (simp add: try_act_def)
    moreover have "running_tasks w5 > 0" using assms(2) w2 \<open>same_counters w2 w5\<close> by (simp add: same_counters_def)
    ultimately have "same_counters (less_running w5) w3 \<and> pid = -1" using execute_failed_effect [OF f] e5(2) by simp
    then show ?thesis using \<open>same_counters w2 w5\<close> by (auto simp: same_counters_def less_running_def)
  next
    case (Inr q)
    then have "q = pid" "w5 = w3" using e3 body e5(2) by (auto simp: try_act_def)
    then show ?thesis using execute_body_pid [of env t tid w2 pid w3] body Inr assms(4) keepsD [OF execute_body_same body]
      by simp
  qed
  then show ?thesis using ended_effect [OF e5(1)] w2 assms(3) by (auto simp: same_counters_def less_running_def dec_def)
qed

lemma TaskRestart_effect:
  assumes "TaskRestart env t w = (Inr b, w')" "retrying_tasks w > 0"
  shows "grows (w\<lparr>retrying_tasks := retrying_tasks w - 1\<rparr>) w' \<and> b = (running_tasks w' = 0 \<and> retrying_tasks w' = 0)"
proof -
  obtain w1 where e1: "enqueue_task env t w = (Inr (), w1)"
    and e2: "then_act (update (\<lambda>w. w\<lparr>retrying_tasks := dec (retrying_tasks w)\<rparr>))
      (then_act (update_job_statistics ''retrying_tasks'' (-1) t) workflow_ended_act) w1 = (Inr b, w')"
    using assms(1) unfolding TaskRestart_def by (rule then_InrE)
  obtain w2 where w2: "same_counters (w1\<lparr>retrying_tasks := dec (retrying_tasks w1)\<rparr>) w2"
    and e3: "workflow_ended_act w2 = (Inr b, w')"
    using updateE [OF e2] soft_simps(1) by (rule statisticsE)
  have "grows w w1" by (rule keepsD [OF enqueue_grows e1]) simp
  then have "grows (w\<lparr>retrying_tasks := retrying_tasks w - 1\<rparr>) (w1\<lparr>retrying_tasks := dec (retrying_tasks w1)\<rparr>)"
    using assms(2) by (fastforce simp: grows_def dec_def)
  then show ?thesis using ended_effect [OF e3] same_grows [OF w2] same_grows grows_trans by blast
qed

lemma resume_waiting_grows [keeps_rules]: "keeps grows (resume_waiting n)"
proof (rule keepsI)
  fix w r w' assume e: "resume_waiting n w = (r, w')" and s: "soft r"
  have "same_counters (w\<lparr>waiting_nodes := waiting_nodes w @ [n], waiting_conditions := waiting_conditions w + 1\<rparr>) w'"
    using updateE [OF e [unfolded resume_waiting_def]] s by (rule keepsD [OF same.keeps_statistics])
  then show "grows w w'" by (auto simp: grows_def same_counters_def)
qed

lemma adopt_grows:
  "keeps grows (then_act (bind_act (lift_res r) (\<lambda>tid :: int. update (\<lambda>w. w\<lparr>adopted := adopted w @ [t]\<rparr>)))
     (then_act (update (\<lambda>w. w\<lparr>running_tasks := running_tasks w + 1\<rparr>)) (update_job_statistics ''running_tasks'' 1 t)))"
proof (cases r)
  case (Inl e)
  have "then_act (bind_act (lift_res (Inl e)) f) m = lift_res (Inl e)" for f :: "int \<Rightarrow> unit act" and m :: "unit act"
    by (rule ext) (simp add: then_act_def bind_act_def lift_res_def throw_def fail_def split: fault.split)
  then show ?thesis using Inl grow.keeps_lift by simp
next
  case (Inr i)
  have "grows w w'" if e: "then_act (bind_act (lift_res (Inr i)) (\<lambda>tid :: int. update (\<lambda>w. w\<lparr>adopted := adopted w @ [t]\<rparr>)))
     (then_act (update (\<lambda>w. w\<lparr>running_tasks := running_tasks w + 1\<rparr>)) (update_job_statistics ''running_tasks'' 1 t)) w = (q, w')"
    and s: "soft q" for w q w'
  proof -
    let ?w1 = "w\<lparr>adopted := adopted w @ [t]\<rparr>"
    have "then_act (update (\<lambda>w. w\<lparr>running_tasks := running_tasks w + 1\<rparr>)) (update_job_statistics ''running_tasks'' 1 t) ?w1 = (q, w')"
      using e by (simp add: then_act_def bind_act_def lift_res_def ret_def update_def)
    from updateE [OF this] have "same_counters (?w1\<lparr>running_tasks := running_tasks ?w1 + 1\<rparr>) w'"
      using s by (rule keepsD [OF same.keeps_statistics])
    then show ?thesis by (auto simp: grows_def same_counters_def)
  qed
  then show ?thesis using Inr by (blast intro: keepsI)
qed

lemma resume_task_grows [keeps_rules]: "keeps grows (resume_task env t)"
  unfolding resume_task_def by (rule keeps_rules adopt_grows)+

lemma Resume_grows: "keeps grows (Resume env)"
  unfolding Resume_def resume_all_waiting_def by (rule keeps_rules)+

lemma DebugResume_grows: "keeps grows (DebugResume env)"
  unfolding DebugResume_def resume_all_waiting_def debug_resume_task_def reset_task_def by (rule keeps_rules)+

lemma Start_grows: "keeps grows (Start fuel env)"
  unfolding Start_def by (rule keeps_rules)+

lemma migrate_task_grows:
  assumes "migrate_task fuel env t w = (Inr (), w')" shows "grows w w'"
proof (cases "status w t \<noteq> ''QUEUED'' \<and> status w t = ''EXECUTING''")
  case True
  let ?w1 = "w\<lparr>running_tasks := running_tasks w + 1\<rparr>"
  have "then_act (update (\<lambda>w. w\<lparr>running_tasks := running_tasks w + 1\<rparr>)) (then_act (update_job_statistics ''running_tasks'' 1 t)
      (bind_act (TaskStop fuel env t (-1) ''Task migrated'' None None) (\<lambda>_. ret ()))) w = (Inr (), w')"
    using assms True by (simp add: migrate_task_def get_def)
  from updateE [OF this] soft_simps(1) obtain w2 where w2: "same_counters ?w1 w2"
    and "bind_act (TaskStop fuel env t (-1) ''Task migrated'' None None) (\<lambda>_. ret ()) w2 = (Inr (), w')"
    by (rule statisticsE)
  then obtain b where "TaskStop fuel env t (-1) ''Task migrated'' None None w2 = (Inr b, w')"
    by (auto simp: ret_def elim: bind_InrE)
  from TaskStop_effect [OF this] have "grows (less_running w2) w'" using w2 by (simp add: same_counters_def)
  moreover have "same_counters w (less_running w2)" using w2 by (simp add: same_counters_def less_running_def)
  ultimately show ?thesis using same_grows grows_trans by blast
next
  case False
  then have "migrate_task fuel env t w = (if status w t = ''QUEUED'' then enqueue_task env t
      else if status w t = ''TERMINATED'' \<and> attr w t ''retval'' \<noteq> ''0'' then retry_task_act env t else ret ()) w"
    by (auto simp: migrate_task_def get_def)
  moreover have "keeps grows (if status w t = ''QUEUED'' then enqueue_task env t
      else if status w t = ''TERMINATED'' \<and> attr w t ''retval'' \<noteq> ''0'' then retry_task_act env t else ret ())"
    by (rule keeps_rules)+
  ultimately show ?thesis using assms keepsD by (metis soft_simps(1))
qed

lemma Migrate_grows:
  assumes "Migrate fuel env w = (Inr b, w')" shows "grows w w'"
proof -
  have *: "for_each (migrate_task fuel env) ts v = (Inr (), v') \<Longrightarrow> grows v v'" for ts v v'
  proof (induction ts arbitrary: v)
    case (Cons t ts)
    from Cons.prems obtain v1 where "migrate_task fuel env t v = (Inr (), v1)" "for_each (migrate_task fuel env) ts v1 = (Inr (), v')"
      by (auto elim: then_InrE)
    then show ?case using migrate_task_grows Cons.IH grows_trans by blast
  qed (simp add: ret_def grow.R_refl)
  obtain w1 where e: "get (\<lambda>w. for_each (migrate_task fuel env) (tasks_with_status w [''QUEUED'', ''EXECUTING'', ''TERMINATED''])) w = (Inr (), w1)"
    "workflow_ended_act w1 = (Inr b, w')"
    using assms unfolding Migrate_def by (rule then_InrE)
  have "grows w w1" using * e(1) by (simp add: get_def)
  moreover have "grows w1 w'" using ended_effect [OF e(2)] same_grows by blast
  ultimately show ?thesis by (rule grows_trans)
qed

section \<open>Histories\<close>

text \<open>Actions whose result is whether the workflow has ended.\<close>

definition ends :: "bool act \<Rightarrow> bool" where
  "ends m \<longleftrightarrow> (\<forall>w b w'. m w = (Inr b, w') \<longrightarrow> b = (running_tasks w' = 0 \<and> retrying_tasks w' = 0))"

lemma ends_ended: "ends workflow_ended_act"
  unfolding ends_def using ended_effect by blast

lemma ends_then: "ends n \<Longrightarrow> ends (then_act m n)"
  unfolding ends_def by (blast elim: then_InrE)

lemma ends_entries: "ends (Start fuel env)" "ends (Resume env)" "ends (DebugResume env)" "ends (Migrate fuel env)"
  unfolding Start_def Resume_def DebugResume_def Migrate_def by (intro ends_then ends_ended)+

text \<open>The ways an instance begins to run on this node.\<close>

definition begins :: "wenv \<Rightarrow> bool act \<Rightarrow> bool" where
  "begins env m \<longleftrightarrow> (\<exists>fuel. m = Start fuel env \<or> m = Migrate fuel env) \<or> m = Resume env \<or> m = DebugResume env"

lemma begins_effect:
  assumes "begins env m" "m w = (Inr b, w')"
  shows "grows w w' \<and> b = (running_tasks w' = 0 \<and> retrying_tasks w' = 0)"
proof -
  have "ends m" using assms(1) ends_entries by (auto simp: begins_def)
  moreover have "grows w w'" using assms keepsD [OF Start_grows] keepsD [OF Resume_grows] keepsD [OF DebugResume_grows]
    Migrate_grows soft_simps(1) by (auto simp: begins_def)
  ultimately show ?thesis using assms(2) by (auto simp: ends_def)
qed

definition new_queued :: "winst \<Rightarrow> winst \<Rightarrow> nat multiset" where
  "new_queued w w' = mset (map (\<lambda>(q, h, t). t) (drop (length (enqueued w)) (enqueued w')))"

definition new_retried :: "winst \<Rightarrow> winst \<Rightarrow> nat multiset" where
  "new_retried w w' = mset (drop (length (retried w)) (retried w'))"

definition new_adopted :: "winst \<Rightarrow> winst \<Rightarrow> nat multiset" where
  "new_adopted w w' = mset (drop (length (adopted w)) (adopted w'))"

definition idle :: "winst \<Rightarrow> bool" where
  "idle w \<longleftrightarrow> running_tasks w = 0 \<and> queued_tasks w = 0 \<and> retrying_tasks w = 0 \<and> waiting_conditions w = 0 \<and> waiting_nodes w = []"

text \<open>
  The multisets hold the tasks that are in the queues, executing and with the retrier; the flag is the
  last \<open>workflow_terminated\<close>, after which the instance is deleted. The pool executes a task of the
  queues, the process manager ends one that executes, the retrier restarts one of its own.
\<close>

inductive inst_run :: "wenv \<Rightarrow> winst \<Rightarrow> nat multiset \<Rightarrow> nat multiset \<Rightarrow> nat multiset \<Rightarrow> bool \<Rightarrow> bool" for env where
  begins: "idle w \<Longrightarrow> begins env m \<Longrightarrow> m w = (Inr b, w') \<Longrightarrow>
    inst_run env w' (new_queued w w') (new_adopted w w') (new_retried w w') b"
| execute: "inst_run env w Q E R False \<Longrightarrow> t \<in># Q \<Longrightarrow> TaskExecute env t tid w = (Inr (pid, b), w') \<Longrightarrow>
    inst_run env w' (Q - {#t#}) (if pid = -1 then E else add_mset t E) R b"
| stop: "inst_run env w Q E R False \<Longrightarrow> t \<in># E \<Longrightarrow> TaskStop fuel env t retval out err log w = (Inr b, w') \<Longrightarrow>
    inst_run env w' (Q + new_queued w w') (E - {#t#} + new_adopted w w') (R + new_retried w w') b"
| restart: "inst_run env w Q E R False \<Longrightarrow> t \<in># R \<Longrightarrow> TaskRestart env t w = (Inr b, w') \<Longrightarrow>
    inst_run env w' (Q + new_queued w w') (E + new_adopted w w') (R - {#t#} + new_retried w w') b"
| cancel: "inst_run env w Q E R False \<Longrightarrow> Cancel w = (Inr (), w') \<Longrightarrow> inst_run env w' Q E R False"
| progress: "inst_run env w Q E R False \<Longrightarrow> TaskUpdateProgression t prct w = (Inr (), w') \<Longrightarrow> inst_run env w' Q E R False"

definition counted :: "winst \<Rightarrow> nat multiset \<Rightarrow> nat multiset \<Rightarrow> nat multiset \<Rightarrow> bool" where
  "counted w Q E R \<longleftrightarrow> running_tasks w = size Q + size E \<and> queued_tasks w = size Q \<and> retrying_tasks w = size R \<and>
     waiting_conditions w = length (waiting_nodes w)"

lemma grows_new:
  "grows w w' \<Longrightarrow> running_tasks w' = running_tasks w + size (new_queued w w') + size (new_adopted w w') \<and>
     queued_tasks w' = queued_tasks w + size (new_queued w w') \<and> retrying_tasks w' = retrying_tasks w + size (new_retried w w')"
  by (auto simp: grows_def new_queued_def new_retried_def new_adopted_def)

lemma new_of_same [simp]:
  "new_queued (less_running w) w' = new_queued w w'" "new_retried (less_running w) w' = new_retried w w'"
  "new_adopted (less_running w) w' = new_adopted w w'"
  "new_queued (w\<lparr>retrying_tasks := n\<rparr>) w' = new_queued w w'" "new_adopted (w\<lparr>retrying_tasks := n\<rparr>) w' = new_adopted w w'"
  "new_retried (w\<lparr>retrying_tasks := n\<rparr>) w' = new_retried w w'"
  by (simp_all add: less_running_def new_queued_def new_retried_def new_adopted_def)

lemma grows_waiting: "grows w w' \<Longrightarrow> waiting_conditions w = length (waiting_nodes w) \<Longrightarrow> waiting_conditions w' = length (waiting_nodes w')"
  by (simp add: grows_def)

lemma inst_run_counted:
  assumes "pids_ok env" "inst_run env w Q E R b"
  shows "counted w Q E R \<and> b = (Q = {#} \<and> E = {#} \<and> R = {#})"
proof -
  have "counted w Q E R \<and> b = (running_tasks w = 0 \<and> retrying_tasks w = 0)"
    using assms(2)
  proof (induction rule: inst_run.induct)
    case (begins w m b w')
    note e = begins_effect [OF begins(2,3)]
    then show ?case using grows_new [of w w'] grows_waiting [of w w'] begins(1)
      by (simp add: idle_def counted_def)
  next
    case (execute w Q E R t tid pid b w')
    then have c: "running_tasks w = size Q + size E" "queued_tasks w = size Q" by (simp_all add: counted_def)
    have "size Q > 0" using execute(2) by (cases Q) auto
    then show ?case using c TaskExecute_effect [OF execute(3)] assms(1) execute(2,4)
      by (auto simp: counted_def same_counters_def less_running_def size_Diff_singleton)
  next
    case (stop w Q E R t fuel retval out err log b w')
    have "size E > 0" using stop(2) by (cases E) auto
    then have c: "running_tasks w = size Q + size E" "size E > 0" using stop(4) by (simp_all add: counted_def)
    then have e: "grows (less_running w) w'" "b = (running_tasks w' = 0 \<and> retrying_tasks w' = 0)"
      using TaskStop_effect [OF stop(3)] by simp_all
    have "running_tasks (less_running w) = size Q + size (E - {#t#})" "queued_tasks (less_running w) = size Q"
      "retrying_tasks (less_running w) = size R" "waiting_conditions (less_running w) = length (waiting_nodes (less_running w))"
      using c stop(2,4) by (auto simp: counted_def less_running_def size_Diff_singleton)
    then show ?case using grows_new [OF e(1)] grows_waiting [OF e(1)] e(2) by (simp add: counted_def)
  next
    case (restart w Q E R t b w')
    have "size R > 0" using restart(2) by (cases R) auto
    then have c: "retrying_tasks w = size R" "size R > 0" using restart(4) by (simp_all add: counted_def)
    then have e: "grows (w\<lparr>retrying_tasks := retrying_tasks w - 1\<rparr>) w'" "b = (running_tasks w' = 0 \<and> retrying_tasks w' = 0)"
      using TaskRestart_effect [OF restart(3)] by simp_all
    then show ?case using grows_new [OF e(1)] grows_waiting [OF e(1)] c restart(2,4)
      by (simp add: counted_def size_Diff_singleton)
  next
    case (cancel w Q E R w')
    then show ?case by (auto simp: Cancel_def update_def counted_def)
  next
    case (progress w Q E R t prct w')
    have "same_counters w w'" by (rule keepsD [OF same.keeps_attribute(1) progress(2) [unfolded TaskUpdateProgression_def]]) simp
    then show ?case using progress(3) by (auto simp: counted_def same_counters_def)
  qed
  then show ?thesis by (auto simp: counted_def)
qed

text \<open>C16: Over any history of an instance (started, resumed, debugged or migrated, then any order of executions,
  ends and retries of its tasks, progress and cancellation), whatever its expressions do and whatever they
  throw: the counters are the numbers of tasks queued, executing and to be retried, and the engine is told to
  delete the instance exactly when no task of it is in a queue, executing or with the retrier.\<close>
theorem instance_ends_exactly:
  assumes "pids_ok env" "inst_run env w Q E R ended"
  shows "running_tasks w = size Q + size E \<and> queued_tasks w = size Q \<and> retrying_tasks w = size R \<and>
    waiting_conditions w = length (waiting_nodes w) \<and> ended = (Q = {#} \<and> E = {#} \<and> R = {#})"
  using inst_run_counted [OF assms] by (simp add: counted_def)

end
