(* ===== verification/InstanceStops.thy ===== *)
theory InstanceStops
  imports InstanceCounters
begin

text \<open>
  What the end of a task does to the rest of the workflow: while the engine records the end of a failed
  task the task stays failed, so its job is not complete and nothing below it runs.
\<close>

section \<open>A task that has ended stays ended\<close>

definition ended_task :: "nat \<Rightarrow> nat \<Rightarrow> string \<Rightarrow> winst \<Rightarrow> bool" where
  "ended_task t p s w \<longleftrightarrow> t \<noteq> 0 \<and> t < length (doc w) \<and> p < length (doc w) \<and> parent w t = Some p \<and>
     t \<in> set (named w ''task'' p) \<and> status w t = ''TERMINATED'' \<and> attr w t ''retval'' = s"

definition held :: "nat \<Rightarrow> nat \<Rightarrow> string \<Rightarrow> winst \<Rightarrow> winst \<Rightarrow> bool" where
  "held t p s w w' \<longleftrightarrow> (ended_task t p s w \<longrightarrow> ended_task t p s w' \<and> enqueued w' = enqueued w \<and> adopted w' = adopted w \<and>
     waiting_nodes w' = waiting_nodes w)"

lemma nth_update: "xs[i := x] ! j = (if i = j \<and> j < length xs then x else xs ! j)"
  by (cases "i < length xs") (auto simp: nth_list_update list_update_beyond)

interpretation held: kept_flow "held t p s" for t p s
  by unfold_locales (auto simp: held_def ended_task_def parent_def named_def children_def name_of_def status_def attr_def attrs_of_def)

lemma nodes_put_attrs [simp]:
  "length (doc (put_attrs n a w)) = length (doc w)" "parent (put_attrs n a w) m = parent w m"
  "named (put_attrs n a w) k m = named w k m"
  by (auto simp: put_attrs_def parent_def named_def children_def name_of_def nth_update intro!: filter_cong)

lemma attrs_of_put_attrs: "m < length (doc w) \<Longrightarrow> attrs_of (put_attrs n a w) m = (if m = n then a else attrs_of w m)"
  by (auto simp: put_attrs_def attrs_of_def nth_list_update)

lemma held_put_attrs:
  "t \<noteq> n \<or> getAttribute a ''status'' = status w t \<and> getAttribute a ''retval'' = attr w t ''retval'' \<Longrightarrow> held t p s w (put_attrs n a w)"
  by (auto simp: held_def ended_task_def status_def attr_def attrs_of_put_attrs)

lemma held_attribute:
  assumes "k \<noteq> ''status''" "k \<noteq> ''retval''"
  shows "keeps (held t p s) (setAttribute n k v)" "keeps (held t p s) (removeAttribute n k)"
proof -
  have "t \<noteq> n \<or> getAttribute ((attrs_of w n)(k := x)) ''status'' = status w t \<and>
      getAttribute ((attrs_of w n)(k := x)) ''retval'' = attr w t ''retval''" for w x
    using assms by (auto simp: getAttribute_def status_def attr_def)
  from held_put_attrs [OF this] show "keeps (held t p s) (setAttribute n k v)" "keeps (held t p s) (removeAttribute n k)"
    unfolding setAttribute_def removeAttribute_def by (rule held.keeps_update)+
qed

lemma held_append: "n \<noteq> t \<Longrightarrow> keeps (held t p s) (appendChild q n)"
  unfolding appendChild_def
  by (rule held.keeps_update)
    (auto simp: held_def ended_task_def parent_def named_def children_def name_of_def set_children_def set_parent_def
      nth_update status_def attr_def attrs_of_def split: if_splits)

section \<open>New nodes\<close>

text \<open>Actions that keep the task and return a node other than the task.\<close>

definition fresh :: "nat \<Rightarrow> nat \<Rightarrow> string \<Rightarrow> nat act \<Rightarrow> bool" where
  "fresh t p s m \<longleftrightarrow> keeps (held t p s) m \<and> (\<forall>w x. ended_task t p s w \<longrightarrow> fst (m w) = Inr x \<longrightarrow> x \<noteq> t)"

named_theorems fresh_rules "actions that return a new node"

lemma fresh_new_node: "fresh t p s (new_node k Map.empty x)"
proof -
  have "ended_task t p s w \<Longrightarrow> ended_task t p s (w\<lparr>doc := doc w @ [d]\<rparr>)" for w d
    by (auto simp: ended_task_def parent_def named_def children_def name_of_def nth_append status_def attr_def attrs_of_def)
  then show ?thesis by (auto simp: fresh_def keeps_def held_def new_node_def) (simp add: ended_task_def)
qed

lemma fresh_create [fresh_rules]: "fresh t p s (createElement k)" "fresh t p s (createTextNode x)"
  by (simp_all add: createElement_def createTextNode_def fresh_new_node)

lemma fresh_bind: "fresh t p s m \<Longrightarrow> (\<And>x. x \<noteq> t \<Longrightarrow> keeps (held t p s) (f x)) \<Longrightarrow> keeps (held t p s) (bind_act m f)"
proof (rule keepsI)
  fix w r w'
  assume m: "fresh t p s m" and f: "\<And>x. x \<noteq> t \<Longrightarrow> keeps (held t p s) (f x)" and e: "bind_act m f w = (r, w')" "soft r"
  obtain r1 w1 where mw: "m w = (r1, w1)" by (cases "m w")
  show "held t p s w w'"
  proof (cases r1)
    case (Inl x)
    then have "r = Inl x" "w' = w1" using e mw by (auto simp: bind_act_def)
    moreover have "keeps (held t p s) m" using m by (simp add: fresh_def)
    ultimately show ?thesis using keepsD [of _ m w r1 w1] mw e(2) Inl by simp
  next
    case (Inr x)
    then have fw: "f x w1 = (r, w')" using e mw by (simp add: bind_act_def)
    have h: "held t p s w w1" using m mw Inr by (auto simp: fresh_def intro: keepsD)
    have "ended_task t p s w \<Longrightarrow> x \<noteq> t" using m mw Inr by (auto simp: fresh_def)
    then have "ended_task t p s w \<Longrightarrow> held t p s w1 w'" using keepsD [OF f fw e(2)] by blast
    then show ?thesis using h by (auto simp: held_def)
  qed
qed

lemma held_record_log: "n \<noteq> t \<Longrightarrow> keeps (held t p s) (record_log env n log)"
  unfolding record_log_def
  by (intro keeps_rules fresh_bind fresh_rules held_append held_attribute) simp_all

section \<open>Recording a failure\<close>

lemma held_statistics:
  assumes "k \<noteq> ''status''" "k \<noteq> ''retval''" shows "keeps (held t p s) (update_job_statistics k delta n)"
proof -
  have "keeps (held t p s) (job_statistics fuel k delta n)" for fuel n
    by (induction fuel arbitrary: n) (simp_all, (rule keeps_rules held_attribute assms | assumption)+)
  then show ?thesis unfolding update_job_statistics_def by (intro keeps_rules)
qed

text \<open>What every result of a computation satisfies.\<close>

definition yields :: "('a \<Rightarrow> bool) \<Rightarrow> 'a res \<Rightarrow> bool" where
  "yields P r \<longleftrightarrow> (\<forall>x. r = Inr x \<longrightarrow> P x)"

lemma yields_simps [simp]: "yields P (Inr x) = P x" "yields P (Inl e)" "yields P (bindr r f) = yields (\<lambda>x. yields P (f x)) r"
  by (auto simp: yields_def bindr_eq_Inr)

lemma yields_mono: "yields Q r \<Longrightarrow> (\<And>x. Q x \<Longrightarrow> P x) \<Longrightarrow> yields P r"
  by (simp add: yields_def)

lemma yields_True [simp]: "yields (\<lambda>x. True) r"
  by (simp add: yields_def)

lemma yields_numbers:
  "(\<And>x. P x) \<Longrightarrow> yields P (attr_int a k)" "(\<And>x. P x) \<Longrightarrow> yields P (int_ck i)" "(\<And>x. Q x) \<Longrightarrow> yields Q (stoi s)"
  by (simp_all add: yields_def)

definition same_end :: "attrs \<Rightarrow> attrs \<Rightarrow> bool" where
  "same_end a b \<longleftrightarrow> b ''status'' = a ''status'' \<and> b ''retval'' = a ''retval''"

lemma schedule_update_kept: "yields (\<lambda>(t, d, n). same_end task t) (schedule_update docs task k d0 n0)"
  by (auto simp: schedule_update_def Let_def same_end_def split: option.splits intro!: yields_numbers)

lemma retry_insert_kept: "same_end task task2 \<Longrightarrow> yields (\<lambda>(r, a). same_end task a) (retry_insert fmt now now2 w task2 d n)"
  by (auto simp: retry_insert_def same_end_def intro!: yields_numbers)

lemma retry_task_kept: "yields (\<lambda>(r, a). same_end task a) (retry_task fmt docs now now2 w task)"
proof -
  have upd: "same_end task t \<Longrightarrow> yields (\<lambda>(t, d, n). same_end task t) (schedule_update docs t k d0 n0)" for t k d0 n0
    using schedule_update_kept by (rule yields_mono) (auto simp: same_end_def)
  have refl: "same_end task task" by (simp add: same_end_def)
  show ?thesis
    by (auto simp: retry_task_def Let_def refl split: option.splits intro!: yields_numbers yields_mono [OF upd] retry_insert_kept)
qed

lemma held_set_retry:
  assumes "root_attrs r = root_attrs w" shows "held t p s w (set_retry r w)"
  using assms by (auto simp: held_def ended_task_def set_retry_def parent_def named_def children_def name_of_def
    status_def attr_def attrs_of_def)

lemma held_retry: "keeps (held t p s) (retry_task_act env n)"
proof (rule keepsI)
  fix w r w' assume e: "retry_task_act env n w = (r, w')" and f: "soft r"
  show "held t p s w w'"
  proof (cases "retry_task (fmt_time env) (retry_schedules w) (clock env) (clock env) (retry_wf.truncate w) (attrs_of w n)")
    case (Inl x)
    then have "lift_res (Inl x) w = (r, w')" using e by (simp add: retry_task_act_def)
    then show ?thesis using f by (rule keepsD [OF held.keeps_lift])
  next
    case (Inr pr)
    obtain q a where p: "pr = (q, a)" by (cases pr)
    let ?w1 = "put_attrs n a (set_retry q w)"
    note rt = Inr [unfolded p]
    have kept: "same_end (attrs_of w n) a"
      using retry_task_kept [of "attrs_of w n" "fmt_time env" "retry_schedules w" "clock env" "clock env" "retry_wf.truncate w"] rt
      by simp
    have "root_attrs q = root_attrs w" using retry_task_counts [OF rt] by (simp add: retry_wf.truncate_def)
    then have "held t p s w (set_retry q w)" by (rule held_set_retry)
    moreover have "held t p s (set_retry q w) ?w1"
      using kept \<open>root_attrs q = root_attrs w\<close>
      by (intro held_put_attrs) (auto simp: getAttribute_def status_def attr_def attrs_of_def set_retry_def same_end_def)
    ultimately have h: "held t p s w ?w1" by (rule held.R_trans)
    have "held t p s ?w1 (?w1\<lparr>retried := retried w @ [n]\<rparr>)"
      by (auto simp: held_def ended_task_def parent_def named_def children_def name_of_def status_def attr_def attrs_of_def)
    moreover have "held t p s v w'" if "update_job_statistics k 1 n v = (r, w')" "k \<noteq> ''status''" "k \<noteq> ''retval''" for k v
      using held_statistics [OF that(2,3)] that(1) f by (rule keepsD)
    ultimately show ?thesis using e rt h held.R_trans
      by (auto simp: retry_task_act_def Let_def split: if_splits)
  qed
qed

lemma held_counter [keeps_rules]:
  "keeps (held t p s) (update (\<lambda>w. w\<lparr>error_tasks := f w\<rparr>))"
  "keeps (held t p s) (update (\<lambda>w. w\<lparr>running_tasks := f w\<rparr>))"
  by (rule held.keeps_update, auto simp: held_def ended_task_def parent_def named_def children_def name_of_def status_def
    attr_def attrs_of_def)+

lemma held_failure_output:
  "out \<noteq> t \<Longrightarrow> keeps (held t p s) (failure_output env t out log)"
  unfolding failure_output_def text_output_def
  by (intro keeps_rules held_append held_attribute held_record_log held_statistics held_retry) simp_all

lemma held_extra_log: "keeps (held t p s) (extra_log env k t log)"
  unfolding extra_log_def
  by (intro keeps_rules fresh_bind fresh_rules held_append held_record_log) simp_all

lemma fresh_ret: "x \<noteq> t \<Longrightarrow> fresh t p s (ret x)"
  by (simp add: fresh_def held.keeps_ret) (simp add: ret_def)

lemma fresh_after:
  assumes "keeps (held t p s) (bind_act m f)" "\<And>w x w1. ended_task t p s w \<Longrightarrow> m w = (Inr x, w1) \<Longrightarrow> held t p s w w1 \<and> fresh t p s (f x)"
  shows "fresh t p s (bind_act m f)"
proof -
  have "y \<noteq> t" if a: "ended_task t p s w" "fst (bind_act m f w) = Inr y" for w y
  proof -
    obtain x w1 w2 where e: "m w = (Inr x, w1)" "f x w1 = (Inr y, w2)"
      using a(2) by (metis bind_InrE prod.collapse)
    then have "ended_task t p s w1" "fresh t p s (f x)" using assms(2) [OF a(1) e(1)] a(1) by (simp_all add: held_def)
    then show ?thesis using e(2) by (auto simp: fresh_def)
  qed
  then show ?thesis using assms(1) by (simp add: fresh_def)
qed

lemma fresh_then: "keeps (held t p s) m \<Longrightarrow> fresh t p s n \<Longrightarrow> fresh t p s (then_act m n)"
  unfolding then_act_def
  by (rule fresh_after, rule held.keeps_bind) (auto simp: fresh_def intro: keepsD)

lemma fresh_output: "fresh t p s (output_element env t retval)"
proof -
  let ?tail = "\<lambda>out. then_act (setAttribute out ''retval'' (to_string retval))
      (then_act (get (\<lambda>w. setAttribute out ''execution_time'' (attr w t ''execution_time'')))
      (then_act (setAttribute out ''exit_time'' (format_datetime env)) (ret out)))"
  have f: "fresh t p s (?tail out)" if "out \<noteq> t" for out
  proof -
    have "keeps (held t p s) (setAttribute out k v)" for k v
      unfolding setAttribute_def by (rule held.keeps_update, rule held_put_attrs) (simp add: that [symmetric])
    then show ?thesis using that by (intro fresh_then keeps_get fresh_ret)
  qed
  note c = fresh_create(1) [of t p s "''output''"]
  have "held t p s w w1 \<and> fresh t p s (?tail x)" if e: "ended_task t p s w" "createElement ''output'' w = (Inr x, w1)" for w x w1
  proof -
    have "x \<noteq> t" using c e by (simp add: fresh_def)
    moreover have "held t p s w w1" using c keepsD [where R = "held t p s" and m = "createElement ''output''", OF _ e(2)] by (simp add: fresh_def)
    ultimately show ?thesis using f by blast
  qed
  moreover have "keeps (held t p s) (bind_act (createElement ''output'') ?tail)"
    using f by (intro fresh_bind fresh_rules) (simp add: fresh_def)
  ultimately show ?thesis unfolding output_element_def by (intro fresh_after)
qed

section \<open>The end of a failed task\<close>

lemma finish_attributes_ends:
  assumes "t \<noteq> 0" "t < length (doc w)" "p < length (doc w)" "parent w t = Some p" "t \<in> set (named w ''task'' p)"
    "finish_attributes t retval w = (Inr (), w')"
  shows "ended_task t p (to_string retval) w' \<and> same_counters w w'"
  using assms by (auto simp: finish_attributes_def TaskUpdateProgression_def then_act_def bind_act_def setAttribute_def
    removeAttribute_def update_def ended_task_def status_def attr_def attrs_of_put_attrs getAttribute_def same_counters_def)

lemma to_string_zero: "to_string i = ''0'' \<Longrightarrow> i = 0"
proof -
  assume z: "to_string i = ''0''"
  have "strtol10 ''0'' = Some (0, 1)" by code_simp
  then show ?thesis using strtol10_to_string [of i] z by simp
qed

lemma not_all_successful: "ended_task t p s w \<Longrightarrow> s \<noteq> ''0'' \<Longrightarrow> \<not> all_successful w t"
proof -
  assume e: "ended_task t p s w" and s: "s \<noteq> ''0''"
  then have "\<not> successful w t" "t \<in> set (named w ''task'' p)" by (auto simp: ended_task_def successful_def)
  then have "length (filter (successful w) (named w ''task'' p)) < length (named w ''task'' p)"
    by (rule_tac length_filter_less)
  then show ?thesis using e by (simp add: all_successful_def ended_task_def)
qed

lemma stop_record_failed:
  assumes "t \<noteq> 0" "t < length (doc w)" "p < length (doc w)" "parent w t = Some p" "t \<in> set (named w ''task'' p)"
    "retval \<noteq> 0" "stop_record env t retval out err log w = (Inr all, w')"
  shows "\<not> all \<and> ended_task t p (to_string retval) w' \<and> enqueued w' = enqueued w \<and> adopted w' = adopted w \<and>
    waiting_nodes w' = waiting_nodes w"
proof -
  obtain w1 where e1: "finish_attributes t retval w = (Inr (), w1)" and e2: "bind_act (output_element env t retval) (\<lambda>n.
      then_act (failure_output env t n out) (then_act (extra_log env ''stderr'' t err)
      (then_act (extra_log env ''log'' t log) (get (\<lambda>w. ret (all_successful w t)))))) w1 = (Inr all, w')"
    using assms(6,7) unfolding stop_record_def by (auto elim: then_InrE)
  have w1: "ended_task t p (to_string retval) w1" "same_counters w w1"
    using finish_attributes_ends [OF assms(1-5) e1] by simp_all
  have "keeps (held t p (to_string retval)) (bind_act (output_element env t retval) (\<lambda>n.
      then_act (failure_output env t n out) (then_act (extra_log env ''stderr'' t err)
      (then_act (extra_log env ''log'' t log) (get (\<lambda>w. ret (all_successful w t)))))))"
    by (intro keeps_rules fresh_bind fresh_output held_failure_output held_extra_log)
  from keepsD [OF this e2] have h: "ended_task t p (to_string retval) w'" "enqueued w' = enqueued w1 \<and> adopted w' = adopted w1 \<and>
    waiting_nodes w' = waiting_nodes w1" using w1(1) by (simp_all add: held_def)
  obtain w3 where "get (\<lambda>w. ret (all_successful w t)) w3 = (Inr all, w')"
    using e2 by (elim bind_InrE then_InrE)
  then have "all = all_successful w' t" by (auto simp: get_def ret_def)
  then show ?thesis using h w1(2) not_all_successful [OF h(1)] to_string_zero assms(6) by (auto simp: same_counters_def)
qed

lemma then_assoc: "then_act (then_act m n) k = then_act m (then_act n k)"
proof (rule ext)
  fix w show "then_act (then_act m n) k w = then_act m (then_act n k) w"
    by (cases "m w"; cases "fst (m w)") (simp_all add: then_act_def bind_act_def)
qed

lemma held_ended: "keeps (held t p s) workflow_ended_act"
proof (rule keepsI)
  fix w r w' assume "workflow_ended_act w = (r, w')"
  then obtain q where "w' = set_retry q w" by (auto simp: workflow_ended_act_def split: prod.splits)
  then show "held t p s w w'"
    by (auto simp: held_def ended_task_def set_retry_def parent_def named_def children_def name_of_def status_def attr_def attrs_of_def)
qed

text \<open>A task that ends with a return value other than 0 starts nothing: when no node waits for a condition,
  no task is queued or adopted, whatever else its job holds; the task is recorded as terminated with its value.\<close>
theorem failed_task_blocks:
  assumes "t \<noteq> 0" "t < length (doc w)" "p < length (doc w)" "parent w t = Some p" "t \<in> set (named w ''task'' p)"
    "retval \<noteq> 0" "waiting_nodes w = []" "TaskStop fuel env t retval out err log w = (Inr b, w')"
  shows "enqueued w' = enqueued w \<and> adopted w' = adopted w \<and> status w' t = ''TERMINATED'' \<and> attr w' t ''retval'' = to_string retval"
proof -
  obtain all w1 where e1: "stop_record env t retval out err log w = (Inr all, w1)"
    and e2: "stop_continue fuel env t all w1 = (Inr b, w')"
    using assms(8) unfolding TaskStop_def by (rule bind_InrE)
  note r = stop_record_failed [OF assms(1-6) e1]
  obtain w2 where h2: "held t p (to_string retval) w1 w2"
    and e3: "then_act (reevaluate_waiting fuel env) workflow_ended_act w2 = (Inr b, w')"
  proof -
    let ?m = "then_act (update (\<lambda>w. w\<lparr>running_tasks := dec (running_tasks w)\<rparr>))
        (then_act (update_job_statistics ''running_tasks'' (-1) t) (ret ()))"
    let ?n = "then_act (reevaluate_waiting fuel env) workflow_ended_act"
    have "keeps (held t p (to_string retval)) ?m" by (intro keeps_rules held_statistics) simp_all
    moreover have "stop_continue fuel env t all = then_act ?m ?n" using r by (simp add: stop_continue_def then_assoc)
    ultimately have k: "keeps (held t p (to_string retval)) ?m" and "then_act ?m ?n w1 = (Inr b, w')"
      using e2 by simp_all
    from this(2) obtain w2 where e: "?m w1 = (Inr (), w2)" "?n w2 = (Inr b, w')" by (rule then_InrE)
    show ?thesis by (rule that [OF keepsD [OF k e(1) soft_simps(1)] e(2)])
  qed
  have "waiting_nodes w2 = []" using h2 r assms(7) by (simp add: held_def)
  then have "workflow_ended_act (w2\<lparr>waiting_nodes := [], waiting_conditions := 0\<rparr>) = (Inr b, w')"
    using e3 by (simp add: reevaluate_waiting_def get_def then_act_def bind_act_def update_def ret_def)
  from keepsD [OF held_ended this]
  have h3: "held t p (to_string retval) (w2\<lparr>waiting_nodes := [], waiting_conditions := 0\<rparr>) w'" by simp
  have "ended_task t p (to_string retval) w2" "enqueued w2 = enqueued w" "adopted w2 = adopted w"
    using h2 r by (simp_all add: held_def)
  moreover from this(1) have "ended_task t p (to_string retval) (w2\<lparr>waiting_nodes := [], waiting_conditions := 0\<rparr>)"
    by (auto simp: ended_task_def parent_def named_def children_def name_of_def status_def attr_def attrs_of_def)
  ultimately show ?thesis using h3 by (simp add: held_def ended_task_def status_def attr_def)
qed

end
