(* ===== verification/InstanceClaims.thy ===== *)
theory InstanceClaims
  imports InstanceStops
begin

text \<open>
  A small workflow on which the properties of an instance are shown to apply, and its evaluation: the
  workflow has one job with one task, for the queue \<open>q\<close>; the job of the second one has a task and nothing else.
\<close>

section \<open>A small workflow\<close>

definition mk :: "string \<Rightarrow> (string \<times> string) list \<Rightarrow> nat option \<Rightarrow> nat list \<Rightarrow> dnode" where
  "mk k a p cs = \<lparr>n_name = k, n_attrs = map_of a, n_parent = p, n_children = cs, n_text = []\<rparr>"

definition mk_winst :: "dnode list \<Rightarrow> winst" where
  "mk_winst ds = \<lparr>root_attrs = Map.empty, error_tasks = 0, retrying_tasks = 0, running_tasks = 0, timers = [],
     doc = ds, queued_tasks = 0, waiting_conditions = 0, waiting_nodes = [], is_cancelling = False,
     context_job = 0, context_parent_job = 0, current_id = -1, id_node = Map.empty, exn_logged = False,
     enqueued = [], retried = [], adopted = []\<rparr>"

definition sample_env :: wenv where
  "sample_env = \<lparr>eval_cond = (\<lambda>w s r. CondTrue), eval_nodes = (\<lambda>w s r. Inr [Elt 0, Elt 0]),
     eval_text = (\<lambda>w s r. Inr (Some ''text'')), expand_attr = (\<lambda>w s r. Inr s), known_queue = (\<lambda>q. q = ''q''),
     format_datetime = ''now'', fmt_time = (\<lambda>t. ''at''), clock = 0, dom_maxsize = 100, datastore = (\<lambda>s. Inr ''1''),
     parse_output = (\<lambda>s. None), task_output_xml = (\<lambda>w t. Inr False), execute_task = (\<lambda>w t tid. Inr 77)\<rparr>"

definition small :: winst where
  "small = mk_winst [mk ''workflow'' [] None [1], mk ''subjobs'' [] (Some 0) [2], mk ''job'' [] (Some 1) [3],
     mk ''tasks'' [] (Some 2) [4], mk ''task'' [(''queue'', ''q'')] (Some 3) []]"

definition seen :: "bool \<Rightarrow> (bool \<times> nat list \<times> nat list \<times> nat list) act" where
  "seen b = get (\<lambda>w. ret (b, map (\<lambda>(q, h, t). t) (enqueued w), retried w, adopted w))"

definition tiny :: winst where
  "tiny = mk_winst [mk ''workflow'' [] None [1], mk ''tasks'' [] (Some 0) [2], mk ''task'' [] (Some 1) []]"

lemma pids_sample: "pids_ok sample_env"
  by (simp add: pids_ok_def sample_env_def)

section \<open>Evaluation\<close>

text \<open>Evaluating a run by rewriting: the state first, the continuation once the state is known.\<close>

lemma act_congs:
  "w = w' \<Longrightarrow> get f w = get f w'" "w = w' \<Longrightarrow> bind_act m g w = bind_act m g w'"
  "w = w' \<Longrightarrow> then_act n m w = then_act n m w'" "w = w' \<Longrightarrow> update u w = update u w'"
  "w = w' \<Longrightarrow> try_act m h w = try_act m h w'" "w = w' \<Longrightarrow> in_context k s m w = in_context k s m w'"
  "w = w' \<Longrightarrow> with_error k n w = with_error k n w'" "w = w' \<Longrightarrow> ignore n w = ignore n w'"
  "xs = ys \<Longrightarrow> w = w' \<Longrightarrow> for_each h' xs w = for_each h' ys w'"
  "xs = ys \<Longrightarrow> w = w' \<Longrightarrow> map_act h'' xs w = map_act h'' ys w'"
  by simp_all

text \<open>The composition as a function of the first result, so that the second part is not looked at before.\<close>

definition continue :: "'a res \<times> winst \<Rightarrow> ('a \<Rightarrow> 'b act) \<Rightarrow> 'b res \<times> winst" where
  "continue p f = bind_act (\<lambda>_. p) f (snd p)"

lemma bind_continue: "bind_act m f w = continue (m w) f"
  by (simp add: continue_def bind_act_def)

lemma continue_simps [simp]: "continue (Inl e, w) f = (Inl e, w)" "continue (Inr x, w) f = f x w"
  by (simp_all add: continue_def bind_act_def)

lemma continue_cong: "p = p' \<Longrightarrow> continue p f = continue p' f"
  by simp

lemma list_update_numeral: "(x # xs)[numeral k := y] = x # xs[pred_numeral k := y]"
  by (simp add: numeral_eq_Suc)

lemmas pure_defs =
  ret_def fail_def update_def get_def throw_def try_act_def attrs_of_def has_def attr_def
  put_attrs_def name_of_def children_def parent_def named_def set_children_def set_parent_def new_node_def
  shift_node_def graft_def descendants_def split_id_def in_context_def dec_def subjobs_def tasks_def
  status_def successful_def first_named_def enumerated_def with_error_def set_retry_def workflow_ended_act_def
  retry_schedules_def retry_task_act_def all_successful_def all_named_def tasks_with_status_def
  failed_or_queued_def KillTask_def

lemmas act_defs =
  then_act_def [THEN fun_cong] lift_res_def [THEN fun_cong] setAttribute_def [THEN fun_cong]
  removeAttribute_def [THEN fun_cong] getParentNode_def [THEN fun_cong] appendChild_def [THEN fun_cong]
  removeChild_def [THEN fun_cong] insertBefore_def [THEN fun_cong] replaceChild_def [THEN fun_cong]
  createElement_def [THEN fun_cong] createTextNode_def [THEN fun_cong] cloneNode_def [THEN fun_cong]
  initialize_evqid_def [THEN fun_cong] init_ids_def [THEN fun_cong] element_id_def [THEN fun_cong]
  getNodeEvqID_def [THEN fun_cong] getNodeFromEvqID_def [THEN fun_cong]
  update_job_statistics_def [THEN fun_cong] clear_statistics_def [THEN fun_cong] wait_for_def [THEN fun_cong]
  handle_condition_def [THEN fun_cong] loop_copy_def [THEN fun_cong] handle_loop_def [THEN fun_cong]
  expand_attribute_def [THEN fun_cong] replace_value_node_def [THEN fun_cong] copy_one_def [THEN fun_cong]
  replace_copy_node_def [THEN fun_cong] replace_value_def [THEN fun_cong] replace_values_def [THEN fun_cong]
  abort_task_def [THEN fun_cong] enqueue_task_def [THEN fun_cong] run_task_def [THEN fun_cong]
  register_job_functions_def [THEN fun_cong] run_tasks_def [THEN fun_cong] run_subjob_def [THEN fun_cong]
  subjob_error_def [THEN fun_cong] record_log_def [THEN fun_cong] TaskUpdateProgression_def [THEN fun_cong]
  text_output_def [THEN fun_cong] success_output_def [THEN fun_cong] failure_output_def [THEN fun_cong]
  extra_log_def [THEN fun_cong] ignore_def [THEN fun_cong] reevaluate_def [THEN fun_cong]
  reevaluate_waiting_def [THEN fun_cong] finish_attributes_def [THEN fun_cong]
  output_element_def [THEN fun_cong] stop_record_def [THEN fun_cong] stop_continue_def [THEN fun_cong]
  TaskStop_def [THEN fun_cong] execute_body_def [THEN fun_cong] execute_failed_def [THEN fun_cong]
  TaskExecute_def [THEN fun_cong] TaskRestart_def [THEN fun_cong] Start_def [THEN fun_cong]
  Cancel_def [THEN fun_cong] resume_waiting_def [THEN fun_cong] resume_all_waiting_def [THEN fun_cong]
  resume_task_def [THEN fun_cong] Resume_def [THEN fun_cong] reset_task_def [THEN fun_cong]
  debug_resume_task_def [THEN fun_cong] DebugResume_def [THEN fun_cong] migrate_task_def [THEN fun_cong]
  Migrate_def [THEN fun_cong]
  replace_input_def [THEN fun_cong, THEN fun_cong] context_of_def [THEN fun_cong, THEN fun_cong]
  run_task_copy_def [THEN fun_cong, THEN fun_cong] run_job_copy_def [THEN fun_cong, THEN fun_cong]

lemmas rec_defs =
  for_each.simps [THEN fun_cong] map_act.simps [THEN fun_cong] register_ids.simps [THEN fun_cong]
  run_subjobs.simps [THEN fun_cong] job_statistics.simps [THEN fun_cong] below.simps
  run_subjobs.simps(2) [of "pred_numeral k" for k, folded numeral_eq_Suc, THEN fun_cong]
  job_statistics.simps(2) [of "pred_numeral k" for k, folded numeral_eq_Suc, THEN fun_cong]
  below.simps(2) [of "pred_numeral k" for k, folded numeral_eq_Suc]


lemma texts:
  "to_string 0 = ''0''" "to_string 1 = ''1''" "to_string 2 = ''2''" "to_string 3 = ''3''" "to_string 4 = ''4''"
  "to_string 5 = ''5''" "to_string 6 = ''6''" "to_string 7 = ''7''" "to_string 8 = ''8''" "to_string 100 = ''100''"
  "to_string 77 = ''77''" "to_string (-1) = ''-1''"
  "stoi ''0'' = Inr (0, 1)" "stoi ''1'' = Inr (1, 1)" "stoi ''2'' = Inr (2, 1)" "stoi ''3'' = Inr (3, 1)" "stoi ''4'' = Inr (4, 1)"
  "stoi ''5'' = Inr (5, 1)" "stoi ''6'' = Inr (6, 1)"
  by code_simp+

lemmas eval_simps = rec_defs pure_defs act_defs texts getAttribute_def retry_task_def retry_insert_def schedule_update_def give_up_def
  workflow_ended_def retry_wf.truncate_def attr_int_def GetAttributeInt_def GetAttribute_def res_simps list_update_numeral Let_def sample_env_def bind_continue seen_def
  small_def tiny_def mk_winst_def mk_def int_ck_def int_range_def

lemmas eval_congs = act_congs continue_cong prod.case_cong_weak sum.case_cong_weak option.case_cong_weak

declare job_statistics.simps [simp del] run_subjobs.simps [simp del] below.simps [simp del] register_ids.simps [simp del] for_each.simps [simp del] map_act.simps [simp del]

section \<open>Histories\<close>

text \<open>The workflow is started, its task executed and ended, and the instance has ended.\<close>

type_synonym sight = "bool \<times> nat list \<times> nat list \<times> nat list"

definition history :: "(int \<times> sight \<times> sight \<times> sight) act" where
  "history = bind_act (Start 3 sample_env) (\<lambda>b1. bind_act (seen b1) (\<lambda>s1.
     bind_act (TaskExecute sample_env 4 1) (\<lambda>r. bind_act (seen (snd r)) (\<lambda>s2.
     bind_act (TaskStop 3 sample_env 4 0 ''x'' None None) (\<lambda>b3. bind_act (seen b3) (\<lambda>s3. ret (fst r, s1, s2, s3)))))))"

lemma history_result:
  "fst (history small) = Inr (77, (False, [4], [], []), (False, [4], [], []), (True, [4], [], []))"
  by (simp add: eval_simps history_def cong: eval_congs)

lemma tiny_result: "fst (TaskStop 1 sample_env 2 1 [] None None tiny) = Inr False"
  by (simp add: eval_simps cong: eval_congs)

lemma seen_eq:
  "seen b w = (Inr s, w') \<longleftrightarrow> w' = w \<and> s = (b, map (\<lambda>(q, h, t). t) (enqueued w), retried w, adopted w)"
  by (auto simp: seen_def get_def ret_def)

lemma tiny_fields:
  "length (doc tiny) = 3" "parent tiny 2 = Some 1" "named tiny ''task'' 1 = [2]" "waiting_nodes tiny = []"
  by (simp_all add: tiny_def mk_winst_def mk_def parent_def named_def children_def name_of_def)

lemma failed_task_blocks_witness:
  "\<exists>b w'. TaskStop 1 sample_env 2 1 [] None None tiny = (Inr b, w') \<and> enqueued w' = [] \<and> status w' 2 = ''TERMINATED''"
proof -
  obtain w' where e: "TaskStop 1 sample_env 2 1 [] None None tiny = (Inr False, w')"
    using tiny_result by (metis prod.collapse)
  have "enqueued tiny = []" by (simp add: tiny_def mk_winst_def)
  then show ?thesis
    using failed_task_blocks [of 2 tiny 1 1 1 sample_env "[]" None None False w'] e tiny_fields by auto
qed

lemma small_history:
  obtains w1 w2 w3 where "inst_run sample_env w1 {#4#} {#} {#} False" "inst_run sample_env w2 {#} {#4#} {#} False"
    "inst_run sample_env w3 {#} {#} {#} True"
proof -
  obtain w3 where h: "history small = (Inr (77, (False, [4], [], []), (False, [4], [], []), (True, [4], [], [])), w3)"
    using history_result by (metis prod.collapse)
  obtain w1 w2 where e1: "Start 3 sample_env small = (Inr False, w1)" and e2: "TaskExecute sample_env 4 1 w1 = (Inr (77, False), w2)"
    and e3: "TaskStop 3 sample_env 4 0 ''x'' None None w2 = (Inr True, w3)"
    and s: "map (\<lambda>(q, h, t). t) (enqueued w1) = [4]" "map (\<lambda>(q, h, t). t) (enqueued w2) = [4]" "map (\<lambda>(q, h, t). t) (enqueued w3) = [4]"
      "retried w1 = []" "adopted w1 = []" "retried w3 = []" "adopted w3 = []"
    using h unfolding history_def by (auto simp: ret_def seen_eq elim!: bind_InrE)
  have small: "idle small" "enqueued small = []" "retried small = []" "adopted small = []"
    by (simp_all add: idle_def small_def mk_winst_def)
  have len: "length (enqueued w2) = 1" "length (enqueued w3) = 1" using s by (metis length_map length_Cons list.size(3) One_nat_def)+
  have "begins sample_env (Start 3 sample_env)" by (auto simp: begins_def)
  from inst_run.begins [OF small(1) this e1]
  have r1: "inst_run sample_env w1 {#4#} {#} {#} False"
    using s small by (simp add: new_queued_def new_retried_def new_adopted_def)
  from inst_run.execute [OF this _ e2] have r2: "inst_run sample_env w2 {#} {#4#} {#} False" by simp
  from inst_run.stop [OF this _ e3] have "inst_run sample_env w3 {#} {#} {#} True"
    using s len by (simp add: new_queued_def new_retried_def new_adopted_def)
  with r1 r2 show ?thesis by (rule that)
qed

lemma instance_ends_exactly_witness: "\<exists>w. inst_run sample_env w {#} {#4#} {#} False \<and> running_tasks w = 1 \<and> queued_tasks w = 0"
proof -
  obtain w where "inst_run sample_env w {#} {#4#} {#} False" using small_history by metis
  then show ?thesis using instance_ends_exactly [OF pids_sample, of w "{#}" "{#4#}" "{#}" False] by auto
qed

end
