(* ===== verification/Base64.thy ===== *)
theory Base64
  imports EvqBase
begin

text \<open>
  Base64: src/Crypto/base64.cpp. The bytes a \<open>char block_str[3]\<close> holds before the first read, and
  those of the reverse table the decoder does not set, are arguments: nothing is assumed of them.
\<close>

unbundle bit_operations_syntax

section \<open>Encoding\<close>

definition b64_table :: string where
  "b64_table = ''ABCDEFGHIJKLMNOPQRSTUVWXYZabcdefghijklmnopqrstuvwxyz0123456789+/''"

text \<open>A \<open>char\<close> is signed; it is promoted to \<open>int\<close> and then converted to \<open>unsigned int\<close>.\<close>

definition promoted :: "char \<Rightarrow> 32 word" where
  "promoted c = signed_take_bit 7 (of_nat (byte c))"

definition digit6 :: "32 word \<Rightarrow> char" where
  "digit6 i = b64_table ! unat i"

definition block_of :: "char \<times> char \<times> char \<Rightarrow> nat \<Rightarrow> 32 word" where
  "block_of = (\<lambda>(b0, b1, b2) block_size.
     let block0 = push_bit 16 (promoted b0);
         block1 = (if block_size \<ge> 1 then block0 OR push_bit 8 (promoted b1 AND 0xFF) else block0)
     in if block_size \<ge> 2 then block1 OR (promoted b2 AND 0xFF) else block1)"

definition encode_block :: "char \<times> char \<times> char \<Rightarrow> nat \<Rightarrow> string" where
  "encode_block st block_size =
     (let block = block_of st block_size
      in [digit6 (drop_bit 18 (block AND 0xFC0000)), digit6 (drop_bit 12 (block AND 0x03F000))] @
        (if block_size = 1 then [CHR ''='', CHR ''='']
         else if block_size = 2 then [digit6 (drop_bit 6 (block AND 0x000FC0)), CHR ''='']
         else [digit6 (drop_bit 6 (block AND 0x000FC0)), digit6 (block AND 0x00003F)]))"

text \<open>The first argument is what \<open>block_str\<close> holds before the read.\<close>

fun encode_loop :: "char \<times> char \<times> char \<Rightarrow> string \<Rightarrow> string" where
  "encode_loop st [] = []"
| "encode_loop (s0, s1, s2) [a] = encode_block (a, s1, s2) 1"
| "encode_loop (s0, s1, s2) [a, b] = encode_block (a, b, s2) 2"
| "encode_loop st (a # b # c # r) = encode_block (a, b, c) 3 @ encode_loop (a, b, c) r"

definition base64_encode_string :: "char \<times> char \<times> char \<Rightarrow> string \<Rightarrow> string \<Rightarrow> string" where
  "base64_encode_string junk str base64_str = base64_str @ encode_loop junk str"

text \<open>The file gives the bytes from its position to its end.\<close>

definition base64_encode_file :: "char \<times> char \<times> char \<Rightarrow> string \<Rightarrow> string \<Rightarrow> string" where
  "base64_encode_file junk f base64_str = base64_str @ encode_loop junk f"

section \<open>Decoding\<close>

text \<open>\<open>memset\<close> sets the first 64 of the 128 entries only.\<close>

definition b64_rev_table :: "(nat \<Rightarrow> 8 word) \<Rightarrow> nat \<Rightarrow> 8 word" where
  "b64_rev_table junk n =
     (case find (\<lambda>i. byte (b64_table ! i) = n) [0..<64] of
        Some i \<Rightarrow> of_nat i
      | None \<Rightarrow> if n < 64 then 0xFF else junk n)"

definition is_blank :: "char \<Rightarrow> bool" where
  "is_blank c \<longleftrightarrow> c \<in> {CHR '' '', CHR 0x0D, CHR 0x0A, CHR 0x09}"

definition char_of_word :: "32 word \<Rightarrow> char" where
  "char_of_word w = char_of (unat w)"

text \<open>\<open>append(block_str, 3 - block_padding)\<close>, where the count is unsigned.\<close>

definition put_block :: "32 word \<Rightarrow> nat \<Rightarrow> string res" where
  "put_block block block_padding =
     (if block_padding > 3 then Inl (UB ''read past block_str'')
      else Inr (take (3 - block_padding)
        [char_of_word (drop_bit 16 (block AND 0x00FF0000)), char_of_word (drop_bit 8 (block AND 0x0000FF00)),
         char_of_word (block AND 0x000000FF)]))"

text \<open>
  A \<open>char\<close> is never \<open>\<ge> 0x80\<close>: a byte from 128 on is a negative index into the table. The result is what
  the function returns and the output so far.
\<close>

fun decode_loop :: "(nat \<Rightarrow> 8 word) \<Rightarrow> string \<Rightarrow> 32 word \<Rightarrow> nat \<Rightarrow> nat \<Rightarrow> string \<Rightarrow> (bool \<times> string) res" where
  "decode_loop junk [] block block_size block_padding out = Inr (True, out)"
| "decode_loop junk (c # s) block block_size block_padding out =
     (let go = (\<lambda>block pad.
        if block_size + 1 = 4
        then bindr (put_block block pad) (\<lambda>bs. decode_loop junk s 0 0 0 (out @ bs))
        else decode_loop junk s block (block_size + 1) pad out)
      in if c = CHR ''='' then go (push_bit 6 block) (block_padding + 1)
         else if is_blank c then decode_loop junk s block block_size block_padding out
         else if byte c \<ge> 128 then Inl (UB ''negative index'')
         else if b64_rev_table junk (byte c) = 0xFF then Inr (False, out)
         else go (push_bit 6 block OR ucast (b64_rev_table junk (byte c))) block_padding)"

definition base64_decode_string :: "(nat \<Rightarrow> 8 word) \<Rightarrow> string \<Rightarrow> string \<Rightarrow> (bool \<times> string) res" where
  "base64_decode_string junk str base64_str = decode_loop junk base64_str 0 0 0 str"

definition base64_decode_file :: "(nat \<Rightarrow> 8 word) \<Rightarrow> string \<Rightarrow> string \<Rightarrow> (bool \<times> string) res" where
  "base64_decode_file junk f base64_str = decode_loop junk base64_str 0 0 0 f"

section \<open>Digits\<close>

lemma table_length: "length b64_table = 64"
  by (simp add: b64_table_def)

lemma table_distinct: "distinct b64_table"
  by (simp add: b64_table_def)

lemma byte_inj: "byte c = byte d \<longleftrightarrow> c = d"
  by (metis char_of_byte)

lemma digit_facts:
  assumes "i < 64"
  shows "find (\<lambda>j. byte (b64_table ! j) = byte (b64_table ! i)) [0..<64] = Some i"
    and "byte (b64_table ! i) < 128" "b64_table ! i \<noteq> CHR ''=''" "\<not> is_blank (b64_table ! i)"
proof -
  have "b64_table ! j = b64_table ! i \<longleftrightarrow> j = i" if "j < 64" for j
    using table_distinct that assms by (simp add: nth_eq_iff_index_eq table_length)
  then show "find (\<lambda>j. byte (b64_table ! j) = byte (b64_table ! i)) [0..<64] = Some i"
    using assms by (auto simp: find_Some_iff byte_inj intro!: exI [of _ i])
  have "list_all (\<lambda>c. byte c < 128 \<and> c \<noteq> CHR ''='' \<and> \<not> is_blank c) b64_table"
    by (simp add: b64_table_def byte_def is_blank_def)
  then show "byte (b64_table ! i) < 128" "b64_table ! i \<noteq> CHR ''=''" "\<not> is_blank (b64_table ! i)"
    using assms by (simp_all add: list_all_length table_length)
qed

lemma unat_take_bit_id: "unat x < 64 \<Longrightarrow> unat (take_bit 8 x) = unat x" for x :: "32 word"
  by (simp add: unsigned_take_bit_eq take_bit_nat_eq_self)

declare decode_loop.simps(2) [simp del]

lemma decode_digit:
  assumes "unat x < 64"
  shows "decode_loop junk (digit6 x # s) block n p out =
    (if n + 1 = 4 then bindr (put_block (push_bit 6 block OR x) p) (\<lambda>bs. decode_loop junk s 0 0 0 (out @ bs))
     else decode_loop junk s (push_bit 6 block OR x) (n + 1) p out)"
proof -
  note f = digit_facts [OF assms]
  have r: "b64_rev_table junk (byte (digit6 x)) = of_nat (unat x)"
    using f(1) by (simp add: b64_rev_table_def digit6_def)
  have "ucast (of_nat (unat x) :: 8 word) = x"
    using assms by (simp add: word_unat_eq_iff unsigned_ucast_eq unsigned_of_nat take_bit_nat_eq_self unat_take_bit_id)
  moreover have "(of_nat (unat x) :: 8 word) \<noteq> 0xFF"
  proof
    assume "(of_nat (unat x) :: 8 word) = 0xFF"
    then have "unat (of_nat (unat x) :: 8 word) = 255" by simp
    then show False using assms by (subst (asm) unsigned_of_nat) (simp add: take_bit_nat_eq_self)
  qed
  ultimately show ?thesis using f r by (simp add: Let_def digit6_def decode_loop.simps(2))
qed


section \<open>Blocks\<close>

lemma masks:
  "(0xFC0000 :: 32 word) = push_bit 18 (mask 6)" "(0x03F000 :: 32 word) = push_bit 12 (mask 6)"
  "(0x000FC0 :: 32 word) = push_bit 6 (mask 6)" "(0x00003F :: 32 word) = push_bit 0 (mask 6)"
  "(0x00FF0000 :: 32 word) = push_bit 16 (mask 8)" "(0x0000FF00 :: 32 word) = push_bit 8 (mask 8)"
  "(0x000000FF :: 32 word) = push_bit 0 (mask 8)"
  by (simp_all add: mask_eq_exp_minus_1)

lemma field: "drop_bit k (b AND push_bit k (mask n)) = take_bit n (drop_bit k b)" for b :: "32 word"
  by (rule bit_word_eqI) (auto simp: bit_simps dest: bit_imp_le_length)

lemma low_field: "b AND push_bit 0 (mask n) = take_bit n b" for b :: "32 word"
  by (simp add: take_bit_eq_mask)

definition sextets :: "32 word \<Rightarrow> 32 word list" where
  "sextets b = map (\<lambda>k. take_bit 6 (drop_bit k b)) [18, 12, 6, 0]"

definition join6 :: "32 word list \<Rightarrow> 32 word" where
  "join6 ds = foldl (\<lambda>b d. push_bit 6 b OR d) 0 ds"

lemma six_bits: "unat (take_bit 6 b) < 64" for b :: "32 word"
  by (simp add: unsigned_take_bit_eq take_bit_nat_less_exp [of 6 "unat b", simplified])

lemma join_sextets: "join6 (sextets b) = take_bit 24 b"
proof (rule bit_word_eqI)
  fix n assume "n < LENGTH(32)"
  consider "n < 6" | "6 \<le> n \<and> n < 12" | "12 \<le> n \<and> n < 18" | "18 \<le> n \<and> n < 24" | "24 \<le> n" by linarith
  then show "bit (join6 (sextets b)) n \<longleftrightarrow> bit (take_bit 24 b) n"
    by cases (auto simp: join6_def sextets_def bit_simps)
qed

lemma join_high: "take_bit 6 x = x \<Longrightarrow>
  take_bit 8 (drop_bit 16 (join6 [take_bit 6 (drop_bit 18 b), take_bit 6 (drop_bit 12 b), x, 0])) = take_bit 8 (drop_bit 16 b)"
proof (rule bit_word_eqI)
  fix n :: nat assume x: "take_bit 6 x = x"
  have "bit x m \<Longrightarrow> m < 6" for m using x by (metis bit_take_bit_iff)
  moreover consider "n < (2 :: nat)" | "2 \<le> n \<and> n < 8" | "8 \<le> n" by linarith
  ultimately show "bit (take_bit 8 (drop_bit 16 (join6 [take_bit 6 (drop_bit 18 b), take_bit 6 (drop_bit 12 b), x, 0]))) n \<longleftrightarrow>
      bit (take_bit 8 (drop_bit 16 b)) n"
    by cases (fastforce simp: join6_def bit_simps)+
qed

lemma join_middle: "take_bit 8 (drop_bit 8 (join6 [take_bit 6 (drop_bit 18 b), take_bit 6 (drop_bit 12 b), take_bit 6 (drop_bit 6 b), 0])) =
  take_bit 8 (drop_bit 8 b)"
proof (rule bit_word_eqI)
  fix n
  consider "n < (4 :: nat)" | "4 \<le> n \<and> n < 8" | "8 \<le> n" by linarith
  then show "bit (take_bit 8 (drop_bit 8 (join6 [take_bit 6 (drop_bit 18 b), take_bit 6 (drop_bit 12 b), take_bit 6 (drop_bit 6 b), 0]))) n \<longleftrightarrow>
      bit (take_bit 8 (drop_bit 8 b)) n"
    by cases (auto simp: join6_def bit_simps)
qed

text \<open>The bytes of a block.\<close>

definition octets :: "32 word \<Rightarrow> string" where
  "octets b = map (\<lambda>k. char_of_word (take_bit 8 (drop_bit k b))) [16, 8, 0]"

lemma put_block_octets: "p \<le> 3 \<Longrightarrow> put_block b p = Inr (take (3 - p) (octets b))"
  by (simp only: put_block_def octets_def masks field low_field) simp

lemma promoted_byte: "char_of_word (take_bit 8 (promoted c)) = c"
proof -
  have "unat (take_bit 8 (promoted c)) = byte c"
    by (simp add: promoted_def take_bit_signed_take_bit unsigned_take_bit_eq unsigned_of_nat take_bit_nat_eq_self byte_less [THEN less_trans])
  then show ?thesis by (simp add: char_of_word_def)
qed

lemma block_bytes:
  "take_bit 8 (drop_bit 16 (block_of (a, b, c) n)) = take_bit 8 (promoted a)"
  "n \<ge> 1 \<Longrightarrow> take_bit 8 (drop_bit 8 (block_of (a, b, c) n)) = take_bit 8 (promoted b)"
  "n \<ge> 2 \<Longrightarrow> take_bit 8 (block_of (a, b, c) n) = take_bit 8 (promoted c)"
  by (auto intro!: bit_word_eqI simp: block_of_def Let_def masks bit_simps)

lemma encoded_octets: "n \<in> {1, 2, 3} \<Longrightarrow> take n (octets (block_of (a, b, c) n)) = take n [a, b, c]"
  by (auto simp: octets_def block_bytes promoted_byte)

lemma encode_blocks:
  "encode_block st 1 = map digit6 (take 2 (sextets (block_of st 1))) @ ''==''"
  "encode_block st 2 = map digit6 (take 3 (sextets (block_of st 2))) @ ''=''"
  "encode_block st 3 = map digit6 (sextets (block_of st 3))"
  by (simp_all only: encode_block_def Let_def masks field low_field) (simp_all add: sextets_def)

lemma decode_pad:
  "decode_loop junk (CHR ''='' # s) block n p out =
    (if n + 1 = 4 then bindr (put_block (push_bit 6 block) (p + 1)) (\<lambda>bs. decode_loop junk s 0 0 0 (out @ bs))
     else decode_loop junk s (push_bit 6 block) (n + 1) (p + 1) out)"
  by (simp add: Let_def decode_loop.simps(2))

lemma decode_blocks:
  "decode_loop junk (map digit6 (sextets b) @ s) 0 0 0 out = decode_loop junk s 0 0 0 (out @ octets b)"
  "decode_loop junk (map digit6 (take 3 (sextets b)) @ ''='' @ s) 0 0 0 out = decode_loop junk s 0 0 0 (out @ take 2 (octets b))"
  "decode_loop junk (map digit6 (take 2 (sextets b)) @ ''=='' @ s) 0 0 0 out = decode_loop junk s 0 0 0 (out @ take 1 (octets b))"
proof -
  have o: "octets (join6 (sextets b)) = octets b"
    by (simp add: join_sextets octets_def drop_bit_take_bit)
  then show "decode_loop junk (map digit6 (sextets b) @ s) 0 0 0 out = decode_loop junk s 0 0 0 (out @ octets b)"
    by (simp add: sextets_def decode_digit six_bits join6_def put_block_octets) (simp add: octets_def)
  show "decode_loop junk (map digit6 (take 3 (sextets b)) @ ''='' @ s) 0 0 0 out = decode_loop junk s 0 0 0 (out @ take 2 (octets b))"
    using join_high [of "take_bit 6 (drop_bit 6 b)" b] join_middle [of b]
    by (simp add: sextets_def decode_digit decode_pad six_bits join6_def put_block_octets octets_def)
  show "decode_loop junk (map digit6 (take 2 (sextets b)) @ ''=='' @ s) 0 0 0 out = decode_loop junk s 0 0 0 (out @ take 1 (octets b))"
    using join_high [of 0 b]
    by (simp add: sextets_def decode_digit decode_pad six_bits join6_def put_block_octets octets_def)
qed

lemma decode_encoded: "decode_loop junk (encode_loop st s) 0 0 0 out = Inr (True, out @ s)"
proof (induction st s arbitrary: out rule: encode_loop.induct)
  case (2 s0 s1 s2 a)
  show ?case using decode_blocks(3) [of junk _ "[]"] encoded_octets [of 1 a s1 s2] by (simp add: encode_blocks [simplified])
next
  case (3 s0 s1 s2 a b)
  show ?case using decode_blocks(2) [of junk _ "[]"] encoded_octets [of 2 a b s2] by (simp add: encode_blocks)
next
  case (4 st a b c r)
  then show ?case using decode_blocks(1) encoded_octets [of 3 a b c] by (simp add: encode_blocks octets_def)
qed simp

text \<open>C17: What was encoded is decoded to itself, appended to what the output held: whatever the buffers held
  before, and though the last digits of an encoding may depend on it.\<close>
theorem base64_roundtrip:
  "base64_decode_string junk out (base64_encode_string stale s []) = Inr (True, out @ s) \<and>
   base64_decode_file junk out (base64_encode_file stale s []) = Inr (True, out @ s)"
  by (simp add: base64_decode_string_def base64_encode_string_def base64_decode_file_def base64_encode_file_def decode_encoded)

section \<open>Bounds\<close>

lemma put_block_length: "p \<le> 3 \<Longrightarrow> \<exists>bs. put_block b p = Inr bs \<and> length bs \<le> 3"
  by (simp add: put_block_def)

lemma decode_loop_bounded:
  assumes "list_all (\<lambda>c. byte c < 128) s" "n < 4" "p + length (filter (\<lambda>c. c = CHR ''='') s) < 4"
  shows "\<exists>ok out'. decode_loop junk s b n p out = Inr (ok, out @ out') \<and> length out' \<le> 3 * ((n + length s) div 4)"
  using assms
proof (induction s arbitrary: b n p out)
  case (Cons c s)
  have go: "\<exists>ok out'. (if n + 1 = 4 then bindr (put_block b' p') (\<lambda>bs. decode_loop junk s 0 0 0 (out @ bs))
      else decode_loop junk s b' (n + 1) p' out) = Inr (ok, out @ out') \<and> length out' \<le> 3 * ((n + Suc (length s)) div 4)"
    if pads: "p' + length (filter (\<lambda>c. c = CHR ''='') s) < 4" for b' p'
  proof (cases "n + 1 = 4")
    case True
    obtain bs where bs: "put_block b' p' = Inr bs" "length bs \<le> 3" using put_block_length [of p' b'] pads by auto
    obtain ok out' where "decode_loop junk s 0 0 0 (out @ bs) = Inr (ok, (out @ bs) @ out')" "length out' \<le> 3 * ((0 + length s) div 4)"
      using Cons.IH [of 0 0 0 "out @ bs"] Cons.prems pads by auto
    moreover have "(4 + length s) div 4 = Suc (length s div 4)" by simp
    ultimately show ?thesis using True bs by (intro exI [of _ ok] exI [of _ "bs @ out'"]) auto
  next
    case False
    then show ?thesis using Cons.IH [of "n + 1" p' b' out] Cons.prems pads by auto
  qed
  consider "c = CHR ''=''" | "c \<noteq> CHR ''=''" "is_blank c"
    | "c \<noteq> CHR ''=''" "\<not> is_blank c" "b64_rev_table junk (byte c) = 0xFF"
    | "c \<noteq> CHR ''=''" "\<not> is_blank c" "b64_rev_table junk (byte c) \<noteq> 0xFF" by blast
  then show ?case
  proof cases
    case 1
    then show ?thesis using go [of "p + 1" "push_bit 6 b"] Cons.prems
      by (cases "n = 3") (simp_all add: decode_loop.simps(2) Let_def)
  next
    case 2
    then obtain ok out' where "decode_loop junk s b n p out = Inr (ok, out @ out')" "length out' \<le> 3 * ((n + length s) div 4)"
      using Cons.IH [of n p b out] Cons.prems by auto
    moreover from this(2) have "length out' \<le> 3 * ((n + length (c # s)) div 4)"
      by (rule order_trans) (simp add: div_le_mono)
    ultimately show ?thesis using 2 by (simp add: decode_loop.simps(2))
  next
    case 3
    then show ?thesis using Cons.prems by (auto simp: decode_loop.simps(2))
  next
    case 4
    then show ?thesis using go [of p "push_bit 6 b OR ucast (b64_rev_table junk (byte c))"] Cons.prems
      by (cases "n = 3") (simp_all add: decode_loop.simps(2) Let_def)
  qed
qed auto

text \<open>Decoding text of 7 bit characters with less than four pads reads and writes inside its buffers
  (nothing undefined happens), leaves what the output held, and writes at most three bytes for four characters.\<close>
theorem base64_decode_bounded:
  assumes "list_all (\<lambda>c. byte c < 128) b64" "length (filter (\<lambda>c. c = CHR ''='') b64) < 4"
  shows "\<exists>ok out'. base64_decode_string junk out b64 = Inr (ok, out @ out') \<and> length out' \<le> 3 * (length b64 div 4)"
  using decode_loop_bounded [OF assms(1), of 0 0 junk 0 out] assms(2) by (simp add: base64_decode_string_def)

lemma base64_decode_bounded_witness:
  "\<exists>ok out'. base64_decode_string (\<lambda>_. 0) ''x'' ''QQ==!'' = Inr (ok, ''x'' @ out') \<and> length out' \<le> 3 * (length ''QQ==!'' div 4)"
  by (rule base64_decode_bounded) (simp_all add: byte_def)

text \<open>A group of four pads makes the count of bytes to copy wrap; a byte from 128 on is a negative index.\<close>

lemma four_pads: "base64_decode_string junk out (''===='' @ s) = Inl (UB ''read past block_str'')"
  by (simp add: base64_decode_string_def decode_pad put_block_def)

lemma high_byte: "128 \<le> byte c \<Longrightarrow> base64_decode_string junk out (c # s) = Inl (UB ''negative index'')"
proof -
  assume c: "128 \<le> byte c"
  then have "c \<noteq> CHR ''=''" "\<not> is_blank c" by (auto simp: byte_def is_blank_def)
  then show ?thesis using c by (simp add: base64_decode_string_def decode_loop.simps(2))
qed

end
