(* ===== verification/DataWire.thy ===== *)
theory DataWire
  imports StdMap
begin

text \<open>
  The format in which the engine, the forker, the monitors and the agent exchange data over pipes:
  src/Process/DataSerializer.cpp. A descriptor that is read is the list of the bytes that arrive on it until
  its end. The readers put their data in arrays on the stack; \<open>stack\<close> is how much fits there.
\<close>

section \<open>Writing\<close>

text \<open>\<open>sprintf("%0<w>ld", n)\<close>.\<close>

definition pad_num :: "nat \<Rightarrow> nat \<Rightarrow> string" where
  "pad_num w n = replicate (w - length (show_nat n)) (CHR ''0'') @ show_nat n"

definition Serialize_string :: "string \<Rightarrow> string" where
  "Serialize_string s = pad_num 9 (length s) @ s"

definition Serialize_int :: "int \<Rightarrow> string" where
  "Serialize_int n = Serialize_string (to_string n)"

definition Serialize_vector :: "string list \<Rightarrow> string" where
  "Serialize_vector xs = pad_num 3 (length xs) @ concat (map (\<lambda>s. pad_num 9 (length s) @ s) xs)"

definition Serialize_map :: "(string, string) smap \<Rightarrow> string" where
  "Serialize_map m = pad_num 3 (length m) @
     concat (map (\<lambda>(k, v). pad_num 9 (length k) @ pad_num 9 (length v) @ k @ v) m)"

section \<open>Reading\<close>

text \<open>\<open>readlen\<close> gives fewer bytes than asked for at the end of the data only.\<close>

definition readlen :: "string \<Rightarrow> int \<Rightarrow> string \<times> string" where
  "readlen fd n = (take (nat n) fd, drop (nat n) fd)"

text \<open>A \<open>char\<close> array read as a C string.\<close>

definition cstr :: "string \<Rightarrow> string" where
  "cstr s = takeWhile (\<lambda>c. c \<noteq> CHR 0x00) s"

text \<open>A result is what the function returns, the object it was to fill and the rest of the data.\<close>

type_synonym 'a reader = "string \<Rightarrow> (bool \<times> 'a \<times> string) res"

primrec unserialize_pairs :: "nat \<Rightarrow> (string, string) smap \<Rightarrow> (string, string) smap reader" where
  "unserialize_pairs 0 m fd = Inr (True, m, fd)"
| "unserialize_pairs (Suc nparameters) m fd =
     (case readlen fd 18 of (buf, fd1) \<Rightarrow>
        if length buf \<noteq> 18 then Inr (False, m, fd1)
        else bindr (atoi (drop 9 buf)) (\<lambda>value_len. bindr (atoi (take 9 buf)) (\<lambda>name_len.
          if value_len > 4096 \<or> name_len > 4096 then Inr (False, m, fd1)
          else case readlen fd1 name_len of (name, fd2) \<Rightarrow>
            if int (length name) \<noteq> name_len then Inr (False, m, fd2)
            else case readlen fd2 value_len of (value, fd3) \<Rightarrow>
              if int (length value) \<noteq> value_len then Inr (False, m, fd3)
              else unserialize_pairs nparameters
                (smap_put m (if cstr name \<noteq> [] then cstr name else ''DEFAULT_PARAMETER_NAME'') (cstr value)) fd3)))"

definition Unserialize_map :: "(string, string) smap \<Rightarrow> (string, string) smap reader" where
  "Unserialize_map m fd =
     (case readlen fd 3 of (buf, fd1) \<Rightarrow>
        if length buf \<noteq> 3 then Inr (False, m, fd1)
        else bindr (atoi buf) (\<lambda>n. unserialize_pairs (nat n) m fd1))"

text \<open>\<open>char value[len]\<close>, \<open>readlen\<close> and \<open>assign\<close>: common to the two readers of strings.\<close>

definition read_value :: "nat \<Rightarrow> int \<Rightarrow> string reader" where
  "read_value stack len fd =
     (if len < 0 then Inl (UB ''negative array size'')
      else if len > int stack then Inl (UB ''stack overflow'')
      else case readlen fd len of (value, fd1) \<Rightarrow>
        Inr (int (length value) = len, value, fd1))"

primrec unserialize_values :: "nat \<Rightarrow> nat \<Rightarrow> string list \<Rightarrow> string list reader" where
  "unserialize_values stack 0 xs fd = Inr (True, xs, fd)"
| "unserialize_values stack (Suc nparameters) xs fd =
     (case readlen fd 9 of (buf, fd1) \<Rightarrow>
        if length buf \<noteq> 9 then Inr (False, xs, fd1)
        else bindr (atoi buf) (\<lambda>len. bindr (read_value stack len fd1) (\<lambda>(ok, value, fd2).
          if \<not> ok then Inr (False, xs, fd2) else unserialize_values stack nparameters (xs @ [value]) fd2)))"

definition Unserialize_vector :: "nat \<Rightarrow> string list \<Rightarrow> string list reader" where
  "Unserialize_vector stack xs fd =
     (case readlen fd 3 of (buf, fd1) \<Rightarrow>
        if length buf \<noteq> 3 then Inr (False, xs, fd1)
        else bindr (atoi buf) (\<lambda>n. unserialize_values stack (nat n) xs fd1))"

definition Unserialize_string :: "nat \<Rightarrow> string \<Rightarrow> string reader" where
  "Unserialize_string stack str fd =
     (case readlen fd 9 of (buf, fd1) \<Rightarrow>
        if length buf \<noteq> 9 then Inr (False, str, fd1)
        else bindr (atoi buf) (\<lambda>len. bindr (read_value stack len fd1) (\<lambda>(ok, value, fd2).
          Inr (ok, if ok then value else str, fd2))))"

definition Unserialize_int :: "nat \<Rightarrow> int \<Rightarrow> int reader" where
  "Unserialize_int stack n fd =
     bindr (Unserialize_string stack [] fd) (\<lambda>(ok, str, fd1).
       if \<not> ok then Inr (False, n, fd1)
       else catch_all (bindr (stoi str) (\<lambda>(i, p). Inr (True, i, fd1))) (Inr (False, n, fd1)))"

section \<open>The interface\<close>

text \<open>
  What a protocol over a pipe relies on: a reader that gets what a writer wrote and leaves what follows.
  Messages are then read back in the order they were written, and the format is uniquely readable.
\<close>

locale codec =
  fixes enc :: "'a \<Rightarrow> string"
    and dec :: "'a reader"
    and ok :: "'a \<Rightarrow> bool"
  assumes dec_enc: "ok x \<Longrightarrow> dec (enc x @ rest) = Inr (True, x, rest)"
begin

lemma dec_enc_end: "ok x \<Longrightarrow> dec (enc x) = Inr (True, x, [])"
  using dec_enc [of x "[]"] by simp

lemma enc_unique: "ok x \<Longrightarrow> ok y \<Longrightarrow> enc x @ r = enc y @ s \<Longrightarrow> x = y \<and> r = s"
  by (metis Inr_inject Pair_inject dec_enc)

fun dec_all :: "nat \<Rightarrow> string \<Rightarrow> 'a list option" where
  "dec_all 0 fd = (if fd = [] then Some [] else None)"
| "dec_all (Suc n) fd = (case dec fd of Inr (True, x, fd1) \<Rightarrow> map_option (\<lambda>xs. x # xs) (dec_all n fd1) | _ \<Rightarrow> None)"

lemma dec_all_enc: "list_all ok xs \<Longrightarrow> dec_all (length xs) (concat (map enc xs)) = Some xs"
  by (induction xs) (simp_all add: dec_enc)

end

section \<open>Numbers\<close>

lemma show_nat_length: "n < 10 ^ k \<Longrightarrow> k > 0 \<Longrightarrow> length (show_nat n) \<le> k"
proof (induction k arbitrary: n)
  case (Suc k)
  show ?case
  proof (cases "n < 10")
    case True
    then show ?thesis by (subst show_nat.simps) simp
  next
    case False
    then have k: "k > 0" using Suc.prems by (cases k) auto
    have "n div 10 < 10 ^ k" using Suc.prems by (simp add: less_mult_imp_div_less mult.commute)
    then have "length (show_nat (n div 10)) \<le> k" using k by (rule Suc.IH)
    then show ?thesis using False by (subst show_nat.simps) simp
  qed
qed simp

lemma pad_num_length: "n < 10 ^ w \<Longrightarrow> w > 0 \<Longrightarrow> length (pad_num w n) = w"
  using show_nat_length [of n w] by (simp add: pad_num_def)

lemma digits_val_zeros: "digits_val (replicate k (CHR ''0'') @ ds) = digits_val ds"
  by (induction k) (simp_all add: digits_val_def digit_val_def byte_def)

lemma atoi_pad: "n < 2147483648 \<Longrightarrow> atoi (pad_num w n) = Inr (int n)"
proof -
  assume n: "n < 2147483648"
  have "list_all isdigit (pad_num w n)"
    by (simp add: pad_num_def show_nat_digits) (simp add: list_all_iff isdigit_def byte_def)
  then have "strtol10 (pad_num w n) = Some (int n, length (pad_num w n))"
    using strtol10_digits [of "pad_num w n" "[]"] by (simp add: pad_num_def digits_val_zeros)
  then show ?thesis using n by (simp add: atoi_def int_range_def)
qed

lemma readlen_append: "length xs = nat n \<Longrightarrow> readlen (xs @ ys) n = (xs, ys)"
  by (simp add: readlen_def)

lemma cstr_id: "CHR 0x00 \<notin> set s \<Longrightarrow> cstr s = s"
  by (auto simp: cstr_def takeWhile_eq_all_conv)

section \<open>Codecs\<close>

definition string_fits :: "nat \<Rightarrow> string \<Rightarrow> bool" where
  "string_fits stack s \<longleftrightarrow> length s \<le> stack \<and> length s < 10 ^ 9"

definition vector_fits :: "nat \<Rightarrow> string list \<Rightarrow> bool" where
  "vector_fits stack xs \<longleftrightarrow> length xs < 1000 \<and> list_all (string_fits stack) xs"

definition pair_fits :: "string \<times> string \<Rightarrow> bool" where
  "pair_fits = (\<lambda>(k, v). k \<noteq> [] \<and> length k \<le> 4096 \<and> length v \<le> 4096 \<and> CHR 0x00 \<notin> set k \<and> CHR 0x00 \<notin> set v)"

definition map_fits :: "(string, string) smap \<Rightarrow> bool" where
  "map_fits m \<longleftrightarrow> smap_inv m \<and> length m < 1000 \<and> list_all pair_fits m"

lemma read_value_fits: "string_fits stack s \<Longrightarrow> read_value stack (int (length s)) (s @ rest) = Inr (True, s, rest)"
  by (simp add: read_value_def readlen_append string_fits_def)

lemma read_string:
  "string_fits stack s \<Longrightarrow> Unserialize_string stack str (Serialize_string s @ rest) = Inr (True, s, rest)"
  by (simp add: Unserialize_string_def Serialize_string_def readlen_append pad_num_length string_fits_def atoi_pad
      read_value_fits)

lemma to_string_length: "int_range n \<Longrightarrow> length (to_string n) \<le> 11"
proof -
  assume r: "int_range n"
  have "length (show_nat k) \<le> 10" if "k \<le> 2147483648" for k
    using show_nat_length [of k 10] that by simp
  moreover have "nat n \<le> 2147483648" "nat (- n) \<le> 2147483648" using r by (auto simp: int_range_def)
  ultimately have "length (show_nat (nat n)) \<le> 10" "length (show_nat (nat (- n))) \<le> 10" by blast+
  then show ?thesis by (simp add: to_string_def)
qed

lemma read_int: "int_range n \<Longrightarrow> 11 \<le> stack \<Longrightarrow> Unserialize_int stack i (Serialize_int n @ rest) = Inr (True, n, rest)"
  using to_string_length [of n] read_string [of stack "to_string n" "[]" rest]
  by (simp add: Unserialize_int_def Serialize_int_def stoi_to_string string_fits_def)

lemma read_values:
  "list_all (string_fits stack) xs \<Longrightarrow>
   unserialize_values stack (length xs) ys (concat (map (\<lambda>s. pad_num 9 (length s) @ s) xs) @ rest) = Inr (True, ys @ xs, rest)"
  by (induction xs arbitrary: ys)
    (simp_all add: readlen_append pad_num_length string_fits_def atoi_pad read_value_fits [unfolded string_fits_def])

lemma read_vector: "vector_fits stack xs \<Longrightarrow> Unserialize_vector stack [] (Serialize_vector xs @ rest) = Inr (True, xs, rest)"
  by (simp add: Unserialize_vector_def Serialize_vector_def vector_fits_def readlen_append pad_num_length atoi_pad read_values)

lemma smap_put_last: "\<forall>(a, w) \<in> set m. a < k \<Longrightarrow> smap_put m k v = m @ [(k, v)]"
  by (induction m) auto

lemma read_pairs:
  "smap_inv (m @ ps) \<Longrightarrow> list_all pair_fits ps \<Longrightarrow>
   unserialize_pairs (length ps) m (concat (map (\<lambda>(k, v). pad_num 9 (length k) @ pad_num 9 (length v) @ k @ v) ps) @ rest) =
     Inr (True, m @ ps, rest)"
proof (induction ps arbitrary: m)
  case (Cons p ps)
  obtain k v where p: "p = (k, v)" by (cases p)
  have f: "k \<noteq> []" "length k \<le> 4096" "length v \<le> 4096" "cstr k = k" "cstr v = v"
    using Cons.prems(2) by (auto simp: p pair_fits_def cstr_id)
  have "smap_put m k v = m @ [(k, v)]"
    using Cons.prems(1) by (intro smap_put_last) (auto simp: p smap_inv_def sorted_wrt_append)
  moreover have "readlen (pad_num 9 (length k) @ pad_num 9 (length v) @ k @ v @ r) 18 = (pad_num 9 (length k) @ pad_num 9 (length v), k @ v @ r)" for r
    using f readlen_append [of "pad_num 9 (length k) @ pad_num 9 (length v)" 18 "k @ v @ r"] by (simp add: pad_num_length)
  moreover have "take 9 (pad_num 9 (length k) @ r) = pad_num 9 (length k)" "drop 9 (pad_num 9 (length k) @ r) = r" for r
    using f by (simp_all add: pad_num_length)
  ultimately show ?case
    using Cons.IH [of "m @ [(k, v)]"] Cons.prems f by (simp add: p pad_num_length atoi_pad readlen_append)
qed simp

lemma read_map: "map_fits m \<Longrightarrow> Unserialize_map [] (Serialize_map m @ rest) = Inr (True, m, rest)"
  using read_pairs [of "[]" m rest]
  by (simp add: Unserialize_map_def Serialize_map_def map_fits_def readlen_append pad_num_length atoi_pad)

interpretation string_codec: codec Serialize_string "Unserialize_string stack str" "string_fits stack" for stack str
  by unfold_locales (rule read_string)

interpretation int_codec: codec Serialize_int "Unserialize_int stack i" "\<lambda>n. int_range n \<and> 11 \<le> stack" for stack i
  by unfold_locales (simp add: read_int)

interpretation vector_codec: codec Serialize_vector "Unserialize_vector stack []" "vector_fits stack" for stack
  by unfold_locales (rule read_vector)

interpretation map_codec: codec Serialize_map "Unserialize_map []" map_fits
  by unfold_locales (rule read_map)

text \<open>C18: Strings, numbers, vectors and maps are read back as they were written, and what follows them is left
  on the pipe: for fewer than 1000 elements, numbers of an \<open>int\<close>, names and values of a map of at most 4096
  bytes without NUL, names that are not empty, and data that fits on the stack of the reader.\<close>
theorem data_roundtrip:
  assumes "string_fits stack s" "int_range n" "vector_fits stack xs" "map_fits m" "11 \<le> stack"
  shows "Unserialize_string stack s0 (Serialize_string s @ rest) = Inr (True, s, rest) \<and>
    Unserialize_int stack n0 (Serialize_int n @ rest) = Inr (True, n, rest) \<and>
    Unserialize_vector stack [] (Serialize_vector xs @ rest) = Inr (True, xs, rest) \<and>
    Unserialize_map [] (Serialize_map m @ rest) = Inr (True, m, rest)"
  using assms string_codec.dec_enc int_codec.dec_enc vector_codec.dec_enc map_codec.dec_enc by blast

lemma data_roundtrip_witness:
  "Unserialize_map [] (Serialize_map [(''A'', ''x''), (''B'', [])] @ ''rest'') = Inr (True, [(''A'', ''x''), (''B'', [])], ''rest'')"
  using data_roundtrip [of 20 "''s''" "- 7" "[''a'', []]" "[(''A'', ''x''), (''B'', [])]" "[]" "''rest''" 0]
  by (simp add: string_fits_def vector_fits_def map_fits_def pair_fits_def int_range_def smap_inv_def)

end
