(* ===== verification/Conf.thy ===== *)
theory Conf
  imports StdMap
begin

text \<open>
  The configuration: src/Configuration/Configuration.cpp and ConfigurationReader.cpp. A configuration is the
  map of its entries; the master has the entries of the configurations registered with it, one per part of the
  program. The environment, the files and the home directory are arguments.
\<close>

section \<open>Entries\<close>

type_synonym entries = "(string, string) smap"

record configuration =
  entries :: entries
  configs :: "entries list"

definition RegisterConfig :: "entries \<Rightarrow> configuration \<Rightarrow> configuration" where
  "RegisterConfig c s = s\<lparr>configs := configs s @ [c]\<rparr>"

fun merge_entries :: "entries \<Rightarrow> entries \<Rightarrow> entries res" where
  "merge_entries [] m = Inr m"
| "merge_entries ((k, v) # c) m =
     (if smap_find m k \<noteq> None then Inl (Exn ''Configuration'' (''Duplicated configuration entry : '' @ k) [])
      else merge_entries c (smap_put m k v))"

fun merge_configs :: "entries list \<Rightarrow> entries \<Rightarrow> entries res" where
  "merge_configs [] m = Inr m"
| "merge_configs (c # cs) m = bindr (merge_entries c m) (merge_configs cs)"

definition Merge :: "configuration \<Rightarrow> configuration res" where
  "Merge s = bindr (merge_configs (configs s) (entries s)) (\<lambda>m. Inr (s\<lparr>entries := m\<rparr>))"

definition Set :: "entries \<Rightarrow> string \<Rightarrow> string \<Rightarrow> bool \<times> entries" where
  "Set m entry v = (if smap_find m entry = None then (False, m) else (True, smap_put m entry v))"

definition Get :: "entries \<Rightarrow> string \<Rightarrow> string res" where
  "Get m entry = (case smap_find m entry of
     None \<Rightarrow> Inl (Exn ''Configuration'' (''Unknown configuration entry: '' @ entry) []) | Some v \<Rightarrow> Inr v)"

definition Split :: "configuration \<Rightarrow> configuration res" where
  "Split s = bindr (mapr (mapr (\<lambda>(k, v). bindr (Get (entries s) k) (\<lambda>w. Inr (k, w)))) (configs s))
     (\<lambda>cs. Inr (s\<lparr>configs := cs\<rparr>))"

section \<open>Variables of the environment\<close>

text \<open>The matches of \<open>\{[a-zA-Z_]+\}\<close>, from left to right.\<close>

definition var_char :: "char \<Rightarrow> bool" where
  "var_char c \<longleftrightarrow> isalpha c \<or> c = CHR ''_''"

definition var_at :: "string \<Rightarrow> string option" where
  "var_at s = (case s of
     c # r \<Rightarrow> (if c = CHR ''{'' \<and> takeWhile var_char r \<noteq> [] \<and> take 1 (dropWhile var_char r) = ''}''
        then Some (takeWhile var_char r) else None)
   | [] \<Rightarrow> None)"

function variables :: "string \<Rightarrow> string list" where
  "variables s = (case s of [] \<Rightarrow> [] | c # r \<Rightarrow>
     (case var_at s of None \<Rightarrow> variables r | Some v \<Rightarrow> v # variables (drop (length v + 2) s)))"
  by pat_completeness auto
termination by (relation "measure length") (auto simp: var_at_def)

declare variables.simps [simp del]

text \<open>\<open>find\<close> and \<open>replace\<close>: the first occurrence.\<close>

fun replace_first :: "string \<Rightarrow> string \<Rightarrow> string \<Rightarrow> string res" where
  "replace_first var v [] = Inl (StdExn ''out_of_range'')"
| "replace_first var v (c # s) =
     (if take (length var) (c # s) = var then Inr (v @ drop (length var) (c # s))
      else bindr (replace_first var v s) (\<lambda>s'. Inr (c # s')))"

fun substitute_all :: "(string \<Rightarrow> string option) \<Rightarrow> string list \<Rightarrow> string \<Rightarrow> string res" where
  "substitute_all getenv [] s = Inr s"
| "substitute_all getenv (v # vs) s =
     (case getenv v of
        None \<Rightarrow> substitute_all getenv vs s
      | Some x \<Rightarrow> bindr (replace_first (''{'' @ v @ ''}'') x s) (substitute_all getenv vs))"

definition Substitute :: "(string \<Rightarrow> string option) \<Rightarrow> configuration \<Rightarrow> configuration res" where
  "Substitute getenv s =
     bindr (mapr (\<lambda>(k, v). bindr (substitute_all getenv (variables v) v) (\<lambda>w. Inr (k, w))) (entries s))
       (\<lambda>m. Inr (s\<lparr>entries := m\<rparr>))"

section \<open>Typed values\<close>

text \<open>\<open>strtol\<close> saturates at the ends of \<open>long\<close>; the conversion to \<open>int\<close> wraps.\<close>

definition long_clamp :: "int \<Rightarrow> int" where
  "long_clamp i = max (- (2 ^ 63)) (min (2 ^ 63 - 1) i)"

definition strtol_dec :: "string \<Rightarrow> int" where
  "strtol_dec s = (case strtol10 s of None \<Rightarrow> 0 | Some (v, p) \<Rightarrow> long_clamp v)"

definition to_int :: "int \<Rightarrow> int" where
  "to_int i = sint (word_of_int i :: 32 word)"

definition long_ck :: "int \<Rightarrow> int res" where
  "long_ck i = (if - (2 ^ 63) \<le> i \<and> i < 2 ^ 63 then Inr i else Inl (UB ''signed overflow''))"

definition unit_of :: "string \<Rightarrow> int" where
  "unit_of s = (if s = ''K'' then 1024 else if s = ''M'' then 1024 * 1024 else if s = ''G'' then 1024 * 1024 * 1024 else 1)"

definition GetSize :: "entries \<Rightarrow> string \<Rightarrow> int res" where
  "GetSize m entry = bindr (Get m entry) (\<lambda>v.
     if v = [] then Inl (StdExn ''out_of_range'')
     else bindr (long_ck (strtol_dec v * unit_of [last v])) (\<lambda>i. Inr (to_int i)))"

text \<open>\<open>strtol(s,0,16)\<close> of a text that begins with \<open>0x\<close>.\<close>

definition hex_val :: "char \<Rightarrow> nat option" where
  "hex_val c = (if isdigit c then Some (digit_val c)
     else if 97 \<le> byte c \<and> byte c \<le> 102 then Some (byte c - 87)
     else if 65 \<le> byte c \<and> byte c \<le> 70 then Some (byte c - 55) else None)"

definition strtol_hex :: "string \<Rightarrow> int" where
  "strtol_hex s = long_clamp (int (foldl (\<lambda>v c. 16 * v + the (hex_val c)) 0 (takeWhile (\<lambda>c. hex_val c \<noteq> None) s)))"

definition GetInt :: "entries \<Rightarrow> string \<Rightarrow> int res" where
  "GetInt m entry = bindr (Get m entry) (\<lambda>v.
     Inr (to_int (if take 2 v = ''0x'' then strtol_hex (drop 2 v) else strtol_dec v)))"

definition GetBool :: "entries \<Rightarrow> string \<Rightarrow> bool res" where
  "GetBool m entry = bindr (Get m entry) (\<lambda>v. Inr (v \<in> {''yes'', ''true'', ''1''}))"

text \<open>The checks read with \<open>entries[name]\<close>, which adds a missing entry as an empty one.\<close>

definition touch :: "entries \<Rightarrow> string \<Rightarrow> string \<times> entries" where
  "touch m name = (case smap_find m name of None \<Rightarrow> ([], smap_put m name []) | Some v \<Rightarrow> (v, m))"

definition invalid_entry :: "string \<Rightarrow> string \<Rightarrow> string \<Rightarrow> unit res" where
  "invalid_entry name what v =
     Inl (Exn ''Configuration'' (name @ '': invalid '' @ what @ '' value '' @ [CHR 0x27] @ v @ [CHR 0x27]) [])"

definition check_bool_entry :: "entries \<Rightarrow> string \<Rightarrow> unit res \<times> entries" where
  "check_bool_entry m name = (case touch m name of (v, m') \<Rightarrow>
     (if v \<in> {''yes'', ''true'', ''1'', ''no'', ''false'', ''0''} then Inr () else invalid_entry name ''boolean'' v, m'))"

definition check_int_entry :: "entries \<Rightarrow> string \<Rightarrow> bool \<Rightarrow> unit res \<times> entries" where
  "check_int_entry m name signed_int = (case touch m name of (v, m') \<Rightarrow>
     (case stoi v of
        Inl e \<Rightarrow> invalid_entry name ''integer'' v
      | Inr (i, l) \<Rightarrow> if l \<noteq> length v \<or> (\<not> signed_int \<and> i < 0) then invalid_entry name ''integer'' v else Inr (), m'))"

definition check_size_entry :: "entries \<Rightarrow> string \<Rightarrow> unit res \<times> entries" where
  "check_size_entry m name = (case touch m name of (v, m') \<Rightarrow>
     (case stoi v of
        Inl e \<Rightarrow> invalid_entry name ''size'' v
      | Inr (i, l) \<Rightarrow> if l = length v \<or> drop l v \<in> {''K'', ''M'', ''G''} then Inr () else invalid_entry name ''size'' v, m'))"

section \<open>Reading a file\<close>

text \<open>
  A line as \<open>fgets\<close> gives it: up to the end of line, or 4095 characters. The rest of the line stands for the
  index \<open>i\<close>; its end is the NUL.
\<close>

definition trim_line :: "string \<Rightarrow> string" where
  "trim_line line =
     (let l1 = (if line \<noteq> [] \<and> last line = CHR 0x0A then butlast line else line)
      in if l1 \<noteq> [] \<and> last l1 = CHR 0x0D then butlast l1 else l1)"

definition space_char :: "char \<Rightarrow> bool" where
  "space_char c \<longleftrightarrow> c = CHR '' '' \<or> c = CHR 0x09"

definition entry_char :: "char \<Rightarrow> bool" where
  "entry_char c \<longleftrightarrow> isalnum c \<or> c = CHR ''.'' \<or> c = CHR ''_''"

definition conf_error :: "string \<Rightarrow> nat \<Rightarrow> 'a res" where
  "conf_error msg lineno = Inl (Exn ''ConfigurationReader'' (msg @ '' on line '' @ show_nat lineno) [])"

text \<open>Where the value ends: the precedence of \<open>&&\<close> makes tabs and \<open>#\<close> end a quoted one as well.\<close>

definition value_ends :: "nat \<Rightarrow> char \<Rightarrow> bool" where
  "value_ends quoted c \<longleftrightarrow> (quoted = 0 \<and> c = CHR '' '' \<or> c = CHR 0x09 \<or> c = CHR ''#'') \<or>
     (quoted = 1 \<and> c = CHR 0x27) \<or> (quoted = 2 \<and> c = CHR 0x22)"

definition read_value_part :: "nat \<Rightarrow> string \<Rightarrow> string \<Rightarrow> (string \<times> string) option res" where
  "read_value_part lineno entry l =
     (let quoted = (if hd l = CHR 0x27 then 1 else if hd l = CHR 0x22 then 2 else 0);
          l1 = (if quoted = 0 then l else tl l)
      in if l1 = [] then conf_error ''Empty value'' lineno
         else let v = takeWhile (\<lambda>c. \<not> value_ends quoted c) l1;
                  l2 = dropWhile (\<lambda>c. \<not> value_ends quoted c) l1
              in if quoted > 0 \<and> l2 = [] then conf_error ''Missing ending quote'' lineno
                 else let l3 = dropWhile space_char (if quoted > 0 then tl l2 else l2)
                      in if l3 \<noteq> [] \<and> hd l3 \<noteq> CHR ''#'' then conf_error ''Garbage data after value'' lineno
                         else Inr (Some (entry, v)))"

definition read_line :: "nat \<Rightarrow> string \<Rightarrow> (string \<times> string) option res" where
  "read_line lineno line =
     (let l1 = dropWhile space_char (trim_line line)
      in if l1 = [] \<or> hd l1 = CHR ''#'' then Inr None
         else let entry = takeWhile entry_char l1; l2 = dropWhile entry_char l1
              in if entry = [] then conf_error ''Expected configuration entry'' lineno
                 else if l2 = [] then conf_error ''Missing value'' lineno
                 else let l3 = dropWhile space_char l2
                      in if l3 = [] \<or> hd l3 \<noteq> CHR ''='' then Inl (Exn ''ConfigurationReader'' (''Expecting '' @ [CHR 0x27] @ ''='' @ [CHR 0x27] @ '' on line '' @ show_nat lineno) [])
                         else let l4 = dropWhile space_char (tl l3)
                              in if l4 = [] then conf_error ''Missing value'' lineno
                                 else read_value_part lineno entry l4)"

fun read_lines :: "nat \<Rightarrow> string list \<Rightarrow> entries \<Rightarrow> entries res" where
  "read_lines lineno [] m = Inr m"
| "read_lines lineno (l # ls) m =
     bindr (read_line (lineno + 1) l) (\<lambda>r. case r of
       None \<Rightarrow> read_lines (lineno + 1) ls m
     | Some (entry, v) \<Rightarrow> (case Set m entry v of
         (False, m') \<Rightarrow> Inl (Exn ''ConfigurationReader'' (''Unknown configuration entry : '' @ entry) [])
       | (True, m') \<Rightarrow> read_lines (lineno + 1) ls m'))"

text \<open>\<open>fgets(line,4096,f)\<close> over a whole file; a NUL ends the line for the reader.\<close>

function fgets_all :: "string \<Rightarrow> string list" where
  "fgets_all s = (if s = [] then [] else
     let n = min 4095 (Suc (length (takeWhile (\<lambda>c. c \<noteq> CHR 0x0A) s)))
     in takeWhile (\<lambda>c. c \<noteq> CHR 0x00) (take n s) # fgets_all (drop n s))"
  by pat_completeness auto
termination by (relation "measure length") auto

declare fgets_all.simps [simp del]

definition Read :: "(string \<Rightarrow> string option) \<Rightarrow> string \<Rightarrow> entries \<Rightarrow> entries res" where
  "Read files filename m =
     (case files filename of
        None \<Rightarrow> Inl (Exn ''ConfigurationReader'' ''Unable to open configuration file'' [])
      | Some s \<Rightarrow> read_lines 0 (fgets_all s) m)"

definition ReadDefaultPaths :: "(string \<Rightarrow> string option) \<Rightarrow> string option \<Rightarrow> string \<Rightarrow> entries \<Rightarrow> entries res" where
  "ReadDefaultPaths files home filename m =
     bindr (if files (''/etc/'' @ filename) \<noteq> None then Read files (''/etc/'' @ filename) m else Inr m) (\<lambda>m1.
     case home of
       None \<Rightarrow> Inr m1
     | Some h \<Rightarrow> if files (h @ ''/.'' @ filename) \<noteq> None then Read files (h @ ''/.'' @ filename) m1 else Inr m1)"

section \<open>Command line\<close>

text \<open>The types of the accepted keys: the first declaration of a key counts.\<close>

definition filter_of :: "string \<Rightarrow> string \<times> string" where
  "filter_of f = (if take 7 f = ''string:'' then (drop 7 f, ''string'')
     else if take 5 f = ''bool:'' then (drop 5 f, ''bool'') else (f, ''string''))"

text \<open>\<open>cur\<close> is the index of the argument; the result is -1, or the index of the first argument left.\<close>

fun command_args :: "(string \<times> string) list \<Rightarrow> string \<Rightarrow> int \<Rightarrow> string list \<Rightarrow> entries \<Rightarrow> int \<times> entries" where
  "command_args types prefix cur [] m = (cur, m)"
| "command_args types prefix cur (arg # args) m =
     (if take 2 arg \<noteq> ''--'' then (-1, m)
      else if arg = ''--'' then (cur + 1, m)
      else let key = drop 2 arg in
        case map_of types key of
          None \<Rightarrow> (cur, m)
        | Some t \<Rightarrow>
            if t = ''string'' then
              (case args of [] \<Rightarrow> (-1, m)
               | v # args' \<Rightarrow> command_args types prefix (cur + 2) args' (snd (Set m (prefix @ ''.'' @ key) v)))
            else command_args types prefix (cur + 1) args (snd (Set m (prefix @ ''.'' @ key) ''yes'')))"

definition ReadCommandLine :: "string list \<Rightarrow> string list \<Rightarrow> string \<Rightarrow> entries \<Rightarrow> int \<times> entries" where
  "ReadCommandLine args filters prefix m = command_args (map filter_of filters) prefix 1 args m"

section \<open>Sizes\<close>

lemma to_int_exact: "- (2 ^ 31) \<le> i \<Longrightarrow> i < 2 ^ 31 \<Longrightarrow> to_int i = i"
  by (simp add: to_int_def int_word_sint)

lemma to_int_range: "to_int i < 2 ^ 31"
  unfolding to_int_def using sint_lt [of "word_of_int i :: 32 word"] by simp

lemma size_texts:
  assumes "n < 2 ^ 31" "u \<in> {[], ''K'', ''M'', ''G''}"
  shows "strtol10 (show_nat n @ u) = Some (int n, length (show_nat n))"
    "unit_of [last (show_nat n @ u)] = unit_of u" "unit_of u \<in> {1, 1024, 1048576, 1073741824}"
proof -
  have "u = [] \<or> \<not> isdigit (hd u)" using assms(2) by (auto simp: isdigit_def byte_def)
  then show "strtol10 (show_nat n @ u) = Some (int n, length (show_nat n))"
    using strtol10_digits [of "show_nat n" u] by (simp add: show_nat_digits)
  have "last (show_nat n) \<noteq> c" if "\<not> isdigit c" for c
    using show_nat_digits [of n] that by (metis last_in_set list_all_iff show_nat_nonempty)
  then have "last (show_nat n) \<noteq> CHR ''K''" "last (show_nat n) \<noteq> CHR ''M''" "last (show_nat n) \<noteq> CHR ''G''"
    by (simp_all add: isdigit_def byte_def)
  then show "unit_of [last (show_nat n @ u)] = unit_of u" using assms(2) by (auto simp: unit_of_def)
  show "unit_of u \<in> {1, 1024, 1048576, 1073741824}" by (simp add: unit_of_def)
qed

text \<open>A size that the check accepts, a number and perhaps one of the units K, M, G, is read as its number of
  bytes exactly when that is below 2 GB: from there on the number wraps (4G is 0).\<close>
theorem sizes_wrap:
  assumes "n < 2 ^ 31" "u \<in> {[], ''K'', ''M'', ''G''}" "smap_find m name = Some (show_nat n @ u)"
  shows "check_size_entry m name = (Inr (), m) \<and> GetSize m name = Inr (to_int (int n * unit_of u)) \<and>
    (to_int (int n * unit_of u) = int n * unit_of u) = (int n * unit_of u < 2 ^ 31)"
proof -
  note t = size_texts [OF assms(1,2)]
  have "int n * unit_of u < 2 ^ 31 * 2 ^ 30"
    using assms(1) t(3) by auto
  then have "long_ck (strtol_dec (show_nat n @ u) * unit_of u) = Inr (int n * unit_of u)"
    using t(1,3) assms(1) by (auto simp: strtol_dec_def long_clamp_def long_ck_def)
  then have "GetSize m name = Inr (to_int (int n * unit_of u))"
    using assms(3) t(2) by (simp add: GetSize_def Get_def)
  moreover have "check_size_entry m name = (Inr (), m)"
    using assms t(1) by (auto simp: check_size_entry_def touch_def stoi_def int_range_def Let_def)
  moreover have "0 \<le> int n * unit_of u" using t(3) by auto
  ultimately show ?thesis using to_int_exact [of "int n * unit_of u"] to_int_range [of "int n * unit_of u"] by auto
qed

lemma sizes_wrap_witness: "GetSize [(''size'', ''4G'')] ''size'' = Inr 0 \<and> GetSize [(''size'', ''2M'')] ''size'' = Inr 2097152"
proof -
  have "show_nat 4 = ''4''" "show_nat 2 = ''2''" by code_simp+
  then show ?thesis using sizes_wrap [of 4 "''G''" "[(''size'', ''4G'')]" "''size''"] sizes_wrap [of 2 "''M''" "[(''size'', ''2M'')]" "''size''"]
    by (simp add: unit_of_def to_int_def)
qed

section \<open>Reading what was written\<close>

definition print_setting :: "string \<times> string \<Rightarrow> string" where
  "print_setting = (\<lambda>(k, v). k @ '' = '' @ [CHR 0x27] @ v @ [CHR 0x27, CHR 0x0A])"

definition setting_ok :: "entries \<Rightarrow> string \<times> string \<Rightarrow> bool" where
  "setting_ok m = (\<lambda>(k, v). smap_find m k \<noteq> None \<and> k \<noteq> [] \<and> list_all entry_char k \<and> v \<noteq> [] \<and>
     set v \<inter> {CHR 0x27, CHR 0x09, CHR 0x0A, CHR 0x00, CHR ''#''} = {} \<and> length k + length v \<le> 4000)"

lemma entry_char_facts: "entry_char c \<Longrightarrow> c \<notin> {CHR '' '', CHR 0x09, CHR 0x0A, CHR 0x0D, CHR 0x00, CHR ''#'', CHR 0x27}"
  by (auto simp: entry_char_def isalnum_def isalpha_def isdigit_def byte_def)

lemma read_setting:
  assumes "setting_ok m (k, v)"
  shows "read_line n (print_setting (k, v)) = Inr (Some (k, v))"
proof -
  have k: "list_all entry_char k" "k \<noteq> []" and v: "v \<noteq> []" "set v \<inter> {CHR 0x27, CHR 0x09, CHR 0x0A, CHR 0x00, CHR ''#''} = {}"
    using assms by (auto simp: setting_ok_def)
  let ?r = "'' = '' @ [CHR 0x27] @ v @ [CHR 0x27]"
  have "trim_line (print_setting (k, v)) = k @ ?r"
    by (simp add: trim_line_def print_setting_def Let_def butlast_append)
  moreover have "dropWhile space_char (k @ ?r) = k @ ?r" "hd (k @ ?r) \<noteq> CHR ''#''"
    using k entry_char_facts [of "hd k"] by (cases k; auto simp: space_char_def)+
  moreover have "\<not> entry_char (CHR '' '')" by (simp add: entry_char_def isalnum_def isalpha_def isdigit_def byte_def)
  then have "takeWhile entry_char (k @ ?r) = k" "dropWhile entry_char (k @ ?r) = ?r"
    using k(1) by (auto simp: takeWhile_append dropWhile_append list_all_iff)
  moreover have ve: "list_all (\<lambda>c. \<not> value_ends 1 c) v" "value_ends 1 (CHR 0x27)"
    using v(2) by (auto simp: list_all_iff value_ends_def)
  then have "takeWhile (\<lambda>c. \<not> value_ends 1 c) (v @ [CHR 0x27]) = v" "dropWhile (\<lambda>c. \<not> value_ends 1 c) (v @ [CHR 0x27]) = [CHR 0x27]"
    by (auto simp: takeWhile_append dropWhile_append list_all_iff)
  then have "read_value_part n k (CHR 0x27 # v @ [CHR 0x27]) = Inr (Some (k, v))"
    by (simp add: read_value_part_def Let_def)
  ultimately show ?thesis using k(2) by (simp add: read_line_def Let_def space_char_def)
qed

lemma fgets_setting:
  assumes "setting_ok m p" shows "fgets_all (print_setting p @ rest) = print_setting p # fgets_all rest"
proof -
  obtain k v where p: "p = (k, v)" by (cases p)
  let ?l = "k @ '' = '' @ [CHR 0x27] @ v @ [CHR 0x27]"
  have chars: "CHR 0x0A \<notin> set ?l" "CHR 0x00 \<notin> set ?l"
    using assms entry_char_facts by (fastforce simp: p setting_ok_def list_all_iff)+
  have l: "print_setting p = ?l @ [CHR 0x0A]" "length ?l < 4010" using assms by (simp_all add: p print_setting_def setting_ok_def)
  have "takeWhile (\<lambda>c. c \<noteq> CHR 0x0A) (print_setting p @ rest) = ?l"
    using chars(1) by (auto simp: l(1) takeWhile_append)
  then have "min 4095 (Suc (length (takeWhile (\<lambda>c. c \<noteq> CHR 0x0A) (print_setting p @ rest)))) = length (print_setting p)"
    using l by simp
  moreover have "takeWhile (\<lambda>c. c \<noteq> CHR 0x00) (print_setting p) = print_setting p"
    using chars(2) by (auto simp: l(1) takeWhile_eq_all_conv)
  moreover have "print_setting p @ rest \<noteq> []" using l(1) by simp
  ultimately show ?thesis by (subst fgets_all.simps) (simp add: Let_def)
qed

lemma setting_ok_put: "smap_inv m \<Longrightarrow> setting_ok m q \<Longrightarrow> setting_ok (smap_put m k v) q"
  by (auto simp: setting_ok_def smap_find_put split: prod.splits)

lemma read_settings:
  "smap_inv m \<Longrightarrow> list_all (setting_ok m) ps \<Longrightarrow>
   read_lines n (fgets_all (concat (map print_setting ps))) m = Inr (foldl (\<lambda>m (k, v). smap_put m k v) m ps)"
proof (induction ps arbitrary: m n)
  case Nil
  then show ?case by (subst fgets_all.simps) simp
next
  case (Cons p ps)
  obtain k v where p: "p = (k, v)" by (cases p)
  have ok: "setting_ok m (k, v)" using Cons.prems(2) by (simp add: p)
  then have "Set m k v = (True, smap_put m k v)" by (simp add: Set_def setting_ok_def)
  moreover have "list_all (setting_ok (smap_put m k v)) ps"
    using Cons.prems setting_ok_put by (auto simp: list_all_iff)
  ultimately show ?case using Cons.IH [of "smap_put m k v" "n + 1"] Cons.prems(1) read_setting [OF ok]
    by (simp add: p fgets_setting [OF ok] smap_inv_put)
qed

text \<open>C19: A file of lines \<open>entry = 'value'\<close> sets exactly these entries to exactly these values, the last one of
  an entry counting, for known entries and values without quote, tab, \<open>#\<close>, line break and NUL.\<close>
theorem configuration_roundtrip:
  assumes "smap_inv m" "list_all (setting_ok m) ps" "files filename = Some (concat (map print_setting ps))"
  shows "Read files filename m = Inr (foldl (\<lambda>m (k, v). smap_put m k v) m ps)"
  using read_settings [OF assms(1,2)] assms(3) by (simp add: Read_def)

lemma configuration_roundtrip_witness:
  "Read (\<lambda>f. Some (concat (map print_setting [(''a.b'', ''x y''), (''c'', ''1'')]))) ''f'' [(''a.b'', ''0''), (''c'', []), (''d'', [])] =
     Inr [(''a.b'', ''x y''), (''c'', ''1''), (''d'', [])]"
  by (subst configuration_roundtrip [where ps = "[(''a.b'', ''x y''), (''c'', ''1'')]"])
    (simp_all add: smap_inv_def setting_ok_def entry_char_def isalnum_def isalpha_def isdigit_def byte_def)

text \<open>A \<open>#\<close> ends a quoted value too, and then counts as its closing quote.\<close>

lemma quoted_hash:
  "read_line 1 ([CHR ''a'', CHR ''='', CHR 0x27] @ ''b##c'') = Inr (Some (''a'', ''b''))"
  by (simp add: read_line_def read_value_part_def trim_line_def value_ends_def space_char_def entry_char_def isalnum_def
      isalpha_def isdigit_def byte_def Let_def)

end
