(* ===== verification/Piper.thy ===== *)
theory Piper
  imports StdMap
begin

text \<open>
  The thread that writes the data of the tasks to their pipes: src/Process/DataPiper.cpp. A round of it takes
  the descriptors, waits, and writes at most a page on each one that is ready; the engine adds data in
  between. What a descriptor has received, and what was closed, is recorded to state what the thread does.
\<close>

section \<open>State\<close>

record st_data =
  data :: string
  written :: nat

text \<open>
  \<open>pending_wakes\<close> counts the bytes in the self pipe. \<open>polled\<close> are the descriptors the thread has yet to look at in
  this round, \<open>None\<close> at the top of its loop. \<open>received\<close> and \<open>closed\<close> (descriptor, data, what was received, whether
  a write had failed) record the past.
\<close>

record piper =
  pipe_data :: "(int, st_data) smap"
  is_shutting_down :: bool
  pending_wakes :: nat
  polled :: "int list option"
  exited :: bool
  received :: "int \<Rightarrow> string"
  closed :: "(int \<times> string \<times> string \<times> bool) list"

definition DataPiper_new :: piper where
  "DataPiper_new = \<lparr>pipe_data = [], is_shutting_down = False, pending_wakes = 0, polled = None, exited = False,
     received = (\<lambda>_. []), closed = []\<rparr>"

section \<open>Operations\<close>

text \<open>A descriptor is not given twice: it is open until the thread closes it.\<close>

definition PipeData :: "int \<Rightarrow> string \<Rightarrow> piper \<Rightarrow> piper" where
  "PipeData fd d s = s\<lparr>pending_wakes := pending_wakes s + 1, pipe_data := smap_put (pipe_data s) fd \<lparr>data = d, written = 0\<rparr>,
     received := (received s)(fd := [])\<rparr>"

definition piper_Shutdown :: "piper \<Rightarrow> piper" where
  "piper_Shutdown s = s\<lparr>is_shutting_down := True, pending_wakes := pending_wakes s + 1\<rparr>"

text \<open>What \<open>write\<close> answers: a number of bytes, that it would block, or another error.\<close>

datatype write_answer = Wrote nat | Again | Broken

definition to_write :: "st_data \<Rightarrow> nat" where
  "to_write e = min 4096 (length (data e) - written e)"

text \<open>The number of bytes written, or \<open>None\<close>: the first attempt, and the second one of a single byte.\<close>

definition attempt :: "st_data \<Rightarrow> write_answer \<Rightarrow> write_answer \<Rightarrow> nat option" where
  "attempt e first second = (case first of
     Wrote n \<Rightarrow> Some n
   | Again \<Rightarrow> (case second of Wrote n \<Rightarrow> Some n | _ \<Rightarrow> None)
   | Broken \<Rightarrow> None)"

text \<open>A write writes what it was asked for at most, and something when it was asked for something.\<close>

definition answer_ok :: "nat \<Rightarrow> write_answer \<Rightarrow> bool" where
  "answer_ok k a = (case a of Wrote n \<Rightarrow> n \<le> k \<and> (n = 0 \<longrightarrow> k = 0) | _ \<Rightarrow> True)"

definition close_fd :: "int \<Rightarrow> bool \<Rightarrow> piper \<Rightarrow> piper" where
  "close_fd fd failed s = (case smap_find (pipe_data s) fd of
     None \<Rightarrow> s
   | Some e \<Rightarrow> (let s1 = s\<lparr>pipe_data := smap_del (pipe_data s) fd, closed := closed s @ [(fd, data e, received s fd, failed)]\<rparr>
       in if pipe_data s1 = [] \<and> is_shutting_down s1 then s1\<lparr>exited := True\<rparr> else s1))"

definition serve :: "int \<Rightarrow> write_answer \<Rightarrow> write_answer \<Rightarrow> piper \<Rightarrow> piper" where
  "serve fd first second s = (case smap_find (pipe_data s) fd of
     None \<Rightarrow> s
   | Some e \<Rightarrow> (case attempt e first second of
       None \<Rightarrow> close_fd fd True s
     | Some n \<Rightarrow>
         (let e' = e\<lparr>written := written e + n\<rparr>;
              s1 = s\<lparr>pipe_data := smap_put (pipe_data s) fd e', received := (received s)(fd := received s fd @ take n (drop (written e) (data e)))\<rparr>
          in if n = 0 \<or> length (data e') = written e' then close_fd fd False s1 else s1)))"

section \<open>Steps\<close>

text \<open>
  The thread: the descriptors are taken; \<open>poll\<close> returns, when it was woken a byte is read and the thread may leave;
  each descriptor is ready or not; the round ends.
\<close>

inductive piper_step :: "piper \<Rightarrow> piper \<Rightarrow> bool" where
  add: "smap_find (pipe_data s) fd = None \<Longrightarrow> \<not> exited s \<Longrightarrow> piper_step s (PipeData fd d s)"
| stop: "piper_step s (piper_Shutdown s)"
| begin_round: "\<not> exited s \<Longrightarrow> polled s = None \<Longrightarrow> piper_step s (s\<lparr>polled := Some (map fst (pipe_data s))\<rparr>)"
| woken: "\<not> exited s \<Longrightarrow> polled s = Some fds \<Longrightarrow> pending_wakes s = Suc n \<Longrightarrow>
    piper_step s (if pipe_data s = [] \<and> is_shutting_down s then s\<lparr>pending_wakes := n, exited := True\<rparr> else s\<lparr>pending_wakes := n\<rparr>)"
| ready: "\<not> exited s \<Longrightarrow> polled s = Some (fd # fds) \<Longrightarrow> smap_find (pipe_data s) fd = Some e \<Longrightarrow>
    answer_ok (to_write e) first \<Longrightarrow> answer_ok 1 second \<Longrightarrow> (first = Again \<longrightarrow> to_write e > 0) \<Longrightarrow>
    piper_step s (serve fd first second (s\<lparr>polled := Some fds\<rparr>))"
| not_ready: "\<not> exited s \<Longrightarrow> polled s = Some (fd # fds) \<Longrightarrow> piper_step s (s\<lparr>polled := Some fds\<rparr>)"
| end_round: "\<not> exited s \<Longrightarrow> polled s = Some [] \<Longrightarrow> piper_step s (s\<lparr>polled := None\<rparr>)"

section \<open>Invariant\<close>

definition entry_ok :: "piper \<Rightarrow> int \<times> st_data \<Rightarrow> bool" where
  "entry_ok s = (\<lambda>(fd, e). written e \<le> length (data e) \<and> received s fd = take (written e) (data e))"

definition closed_ok :: "int \<times> string \<times> string \<times> bool \<Rightarrow> bool" where
  "closed_ok = (\<lambda>(fd, d, got, failed). if failed then take (length got) d = got else got = d)"

definition piper_inv :: "piper \<Rightarrow> bool" where
  "piper_inv s \<longleftrightarrow> smap_inv (pipe_data s) \<and> (\<forall>fd e. smap_find (pipe_data s) fd = Some e \<longrightarrow> entry_ok s (fd, e)) \<and>
     list_all closed_ok (closed s) \<and> (exited s \<longrightarrow> is_shutting_down s \<and> pipe_data s = []) \<and>
     (\<forall>fds. polled s = Some fds \<longrightarrow> distinct fds \<and> (\<forall>fd \<in> set fds. smap_find (pipe_data s) fd \<noteq> None))"

lemma piper_inv_new: "piper_inv DataPiper_new"
  by (simp add: piper_inv_def DataPiper_new_def smap_inv_def)

lemma smap_find_keys: "smap_find m k \<noteq> None \<longleftrightarrow> k \<in> set (map fst m)"
  by (induction m) auto

lemma piper_inv_entry: "piper_inv s \<Longrightarrow> smap_find (pipe_data s) fd = Some e \<Longrightarrow>
  written e \<le> length (data e) \<and> received s fd = take (written e) (data e)"
  by (simp add: piper_inv_def entry_ok_def)

lemma attempt_ok:
  assumes "answer_ok (to_write e) first" "answer_ok 1 second" "first = Again \<longrightarrow> to_write e > 0" "attempt e first second = Some n"
  shows "n \<le> length (data e) - written e" "n = 0 \<Longrightarrow> length (data e) - written e = 0"
  using assms by (auto simp: attempt_def answer_ok_def to_write_def split: write_answer.splits)

lemma close_inv:
  assumes "piper_inv s" "\<not> exited s" "\<forall>fds. polled s = Some fds \<longrightarrow> fd \<notin> set fds"
    and "failed \<or> (\<exists>e. smap_find (pipe_data s) fd = Some e \<and> written e = length (data e))"
  shows "piper_inv (close_fd fd failed s)"
proof (cases "smap_find (pipe_data s) fd")
  case None
  then show ?thesis using assms by (simp add: close_fd_def)
next
  case (Some e)
  then have "closed_ok (fd, data e, received s fd, failed)"
    using piper_inv_entry [OF assms(1) Some] assms(4) by (auto simp: closed_ok_def)
  moreover have "smap_inv (smap_del (pipe_data s) fd)" using assms(1) by (simp add: piper_inv_def smap_inv_del)
  moreover have "k = fd" if "smap_del (pipe_data s) fd = []" "smap_find (pipe_data s) k = Some x" for k x
    using smap_find_del [of "pipe_data s" fd k] that by (simp split: if_splits)
  then have "fds = []" if "smap_del (pipe_data s) fd = []" "polled s = Some fds" for fds
    using that assms(1,3) by (cases fds) (auto simp: piper_inv_def)
  ultimately show ?thesis using assms Some
    by (auto simp: close_fd_def piper_inv_def entry_ok_def smap_find_del Let_def)
qed

lemma serve_inv:
  assumes inv: "piper_inv s" "\<not> exited s" "\<forall>fds. polled s = Some fds \<longrightarrow> fd \<notin> set fds" "smap_find (pipe_data s) fd = Some e"
    and ans: "answer_ok (to_write e) first" "answer_ok 1 second" "first = Again \<longrightarrow> to_write e > 0"
  shows "piper_inv (serve fd first second s)"
proof (cases "attempt e first second")
  case None
  then show ?thesis using close_inv [OF inv(1-3), of True] inv(4) by (simp add: serve_def)
next
  case (Some n)
  note n = attempt_ok [OF ans Some]
  note e = piper_inv_entry [OF inv(1,4)]
  define e' where "e' = e\<lparr>written := written e + n\<rparr>"
  define s1 where "s1 = s\<lparr>pipe_data := smap_put (pipe_data s) fd e',
    received := (received s)(fd := received s fd @ take n (drop (written e) (data e)))\<rparr>"
  have e': "written e' \<le> length (data e')" "received s1 fd = take (written e') (data e')"
    using n e by (auto simp: e'_def s1_def take_add)
  have find: "smap_find (pipe_data s1) k = (if k = fd then Some e' else smap_find (pipe_data s) k)" for k
    using inv(1) by (simp add: s1_def smap_find_put piper_inv_def)
  have "piper_inv s1"
    using inv(1,2) e' find by (auto simp: piper_inv_def entry_ok_def smap_inv_put) (simp_all add: s1_def smap_inv_put)
  then have "piper_inv (if n = 0 \<or> length (data e') = written e' then close_fd fd False s1 else s1)"
    using close_inv [of s1 fd False] inv(2,3) find n e by (auto simp: s1_def e'_def)
  moreover have "serve fd first second s = (if n = 0 \<or> length (data e') = written e' then close_fd fd False s1 else s1)"
    unfolding serve_def s1_def e'_def Let_def by (simp only: inv(4) Some option.case)
  ultimately show ?thesis by simp
qed

lemma step_inv: "piper_step s t \<Longrightarrow> piper_inv s \<Longrightarrow> piper_inv t"
proof (induction rule: piper_step.induct)
  case (add s fd d)
  then show ?case by (auto simp: piper_inv_def PipeData_def smap_inv_put smap_find_put entry_ok_def)
next
  case (ready s fd fds e first second)
  let ?s = "s\<lparr>polled := Some fds\<rparr>"
  have "piper_inv ?s" using ready.prems ready.hyps(2) by (auto simp: piper_inv_def entry_ok_def)
  moreover have "fd \<notin> set fds" using ready.prems ready.hyps(2) by (auto simp: piper_inv_def)
  ultimately show ?case using ready.hyps by (intro serve_inv) auto
next
  case (begin_round s)
  let ?s = "s\<lparr>polled := Some (map fst (pipe_data s))\<rparr>"
  have keys: "\<forall>fd \<in> set (map fst (pipe_data s)). smap_find (pipe_data s) fd \<noteq> None"
    by (rule ballI) (rule smap_find_keys [THEN iffD2])
  have dist: "distinct (map fst (pipe_data s))" using begin_round.prems smap_inv_distinct [of "pipe_data s"] by (simp add: piper_inv_def)
  have "entry_ok ?s p = entry_ok s p" for p by (simp add: entry_ok_def)
  moreover have "distinct fds \<and> (\<forall>fd \<in> set fds. smap_find (pipe_data ?s) fd \<noteq> None)" if f: "polled ?s = Some fds" for fds
  proof -
    have "fds = map fst (pipe_data s)" "pipe_data ?s = pipe_data s" using f by simp_all
    then show ?thesis using keys dist by (simp only:)
  qed
  ultimately show ?case using begin_round.prems unfolding piper_inv_def by simp
next
  case (woken s fds n)
  moreover have "fds = []" if "pipe_data s = []"
    using woken.prems woken.hyps(2) that by (cases fds) (auto simp: piper_inv_def)
  moreover have "smap_inv ([] :: (int, st_data) smap)" by (simp add: smap_inv_def)
  ultimately show ?case unfolding piper_inv_def entry_ok_def by simp
next
  case (not_ready s fd fds)
  then show ?case unfolding piper_inv_def entry_ok_def by simp
qed (simp_all add: piper_inv_def piper_Shutdown_def entry_ok_def)

text \<open>C20: Whatever the order of the writes, and whatever the pipes accept at a time, each descriptor has received a
  prefix of its data, in order; when it was closed it has received all of it unless a write failed; and the thread
  leaves only on shutdown, when no data is left.\<close>
theorem piper_delivers:
  assumes "piper_step\<^sup>*\<^sup>* DataPiper_new s"
  shows "(\<forall>fd e. smap_find (pipe_data s) fd = Some e \<longrightarrow> received s fd = take (written e) (data e)) \<and>
    (\<forall>(fd, d, got, failed) \<in> set (closed s). take (length got) d = got \<and> (\<not> failed \<longrightarrow> got = d)) \<and>
    (exited s \<longrightarrow> is_shutting_down s \<and> pipe_data s = [])"
proof -
  have "piper_inv s" using assms by (induction rule: rtranclp_induct) (auto intro: piper_inv_new step_inv)
  then have p: "list_all closed_ok (closed s)" "exited s \<longrightarrow> is_shutting_down s \<and> pipe_data s = []"
    "\<forall>fd e. smap_find (pipe_data s) fd = Some e \<longrightarrow> received s fd = take (written e) (data e)"
    by (auto simp: piper_inv_def entry_ok_def)
  have "take (length got) d = got \<and> (\<not> failed \<longrightarrow> got = d)" if c: "(fd, d, got, failed) \<in> set (closed s)" for fd d got failed
    using p(1) c by (cases failed) (auto simp: list_all_iff closed_ok_def)
  then show ?thesis using p(2,3) by auto
qed

definition one_task :: piper where
  "one_task = serve 5 (Wrote 3) Again ((PipeData 5 ''abc'' DataPiper_new)\<lparr>polled := Some []\<rparr>)"

lemma piper_delivers_witness:
  "closed one_task = [(5, ''abc'', ''abc'', False)] \<and> \<not> exited one_task \<and>
   list_all (\<lambda>(fd, d, got, failed). take (length got) d = got \<and> (failed \<or> got = d)) (closed one_task)"
proof -
  let ?a = "PipeData 5 ''abc'' DataPiper_new"
  let ?b = "?a\<lparr>polled := Some [5]\<rparr>"
  have 1: "piper_step DataPiper_new ?a" by (rule piper_step.add) (simp_all add: DataPiper_new_def)
  have "piper_step ?a (?a\<lparr>polled := Some (map fst (pipe_data ?a))\<rparr>)"
    by (rule piper_step.begin_round) (simp_all add: PipeData_def DataPiper_new_def)
  then have 2: "piper_step ?a ?b" by (simp add: PipeData_def DataPiper_new_def)
  have "piper_step ?b (serve 5 (Wrote 3) Again (?b\<lparr>polled := Some []\<rparr>))"
    by (rule piper_step.ready [where e = "\<lparr>data = ''abc'', written = 0\<rparr>"]) (simp_all add: PipeData_def DataPiper_new_def answer_ok_def to_write_def)
  then have 3: "piper_step ?b one_task" by (simp add: one_task_def)
  have "piper_step\<^sup>*\<^sup>* DataPiper_new one_task"
    by (rule converse_rtranclp_into_rtranclp [where r = piper_step], rule 1,
        rule converse_rtranclp_into_rtranclp [where r = piper_step], rule 2, rule r_into_rtranclp, rule 3)
  moreover have "closed one_task = [(5, ''abc'', ''abc'', False)]" "\<not> exited one_task"
    by (simp_all add: one_task_def serve_def attempt_def close_fd_def PipeData_def DataPiper_new_def smap_del_def Let_def)
  ultimately show ?thesis using piper_delivers [of one_task] by (simp add: list_all_iff)
qed

section \<open>Progress\<close>

definition remaining :: "piper \<Rightarrow> nat" where
  "remaining s = sum_list (map (\<lambda>(fd, e). Suc (length (data e) - written e)) (pipe_data s))"

lemma remaining_split:
  "smap_inv m \<Longrightarrow> smap_find m fd = Some e \<Longrightarrow> sum_list (map (\<lambda>(fd, e). f e :: nat) m) = f e + sum_list (map (\<lambda>(fd, e). f e) (smap_del m fd))"
proof (induction m)
  case (Cons p m)
  obtain k x where p: "p = (k, x)" by (cases p)
  show ?case
  proof (cases "k = fd")
    case True
    have "\<forall>(a, v) \<in> set m. a \<noteq> fd" using Cons.prems(1) True by (auto simp: smap_inv_def p)
    then have "smap_del (p # m) fd = m" by (auto simp: smap_del_def p True filter_id_conv)
    then show ?thesis using Cons.prems(2) True by (simp add: p)
  next
    case False
    then show ?thesis using Cons by (auto simp: smap_inv_def p smap_del_def)
  qed
qed simp

lemma smap_del_put: "smap_inv m \<Longrightarrow> smap_del (smap_put m k v) k = smap_del m k"
  by (induction m k v rule: smap_put.induct) (auto simp: smap_del_def smap_inv_def)

text \<open>Each time a ready descriptor is served less is left to do; so the data given is written in that many turns at most.\<close>

lemma serve_progress:
  assumes "piper_inv s" "smap_find (pipe_data s) fd = Some e"
    and ans: "answer_ok (to_write e) first" "answer_ok 1 second" "first = Again \<longrightarrow> to_write e > 0"
  shows "remaining (serve fd first second s) < remaining s"
proof -
  have m: "smap_inv (pipe_data s)" using assms(1) by (simp add: piper_inv_def)
  let ?f = "\<lambda>e :: st_data. Suc (length (data e) - written e)"
  let ?rest = "sum_list (map (\<lambda>(fd, e). ?f e) (smap_del (pipe_data s) fd))"
  have all: "remaining s = ?f e + ?rest" using remaining_split [OF m assms(2), of ?f] by (simp add: remaining_def)
  show ?thesis
  proof (cases "attempt e first second")
    case None
    then show ?thesis using all assms(2) by (simp add: serve_def close_fd_def remaining_def Let_def)
  next
    case (Some n)
    define e' where "e' = e\<lparr>written := written e + n\<rparr>"
    have put: "smap_find (smap_put (pipe_data s) fd e') fd = Some e'" using m by (simp add: smap_find_put)
    have "sum_list (map (\<lambda>(fd, e). ?f e) (smap_put (pipe_data s) fd e')) = ?f e' + ?rest"
      using remaining_split [OF smap_inv_put [OF m] put, of ?f] m by (simp add: smap_del_put)
    moreover have "n > 0 \<Longrightarrow> ?f e' < ?f e" using attempt_ok(1) [OF ans Some] by (simp add: e'_def)
    ultimately show ?thesis using all assms(2) Some put m
      by (auto simp: serve_def close_fd_def remaining_def Let_def smap_del_put e'_def)
  qed
qed

end
