(* ===== verification/TaskLaunch.thy ===== *)
theory TaskLaunch
  imports InstanceTasks DataWire Conf
begin

text \<open>
  From a task of a running instance to the data its monitor gets: src/WorkflowInstance/Task.cpp,
  \<open>ProcessManager::ExecuteTask\<close>, src/Process/Forker.cpp and what \<open>Monitor::main\<close> reads. The expansion
  of words (\<open>wordexp\<close>), the serialization of a node and what the system calls answer are arguments.
\<close>

section \<open>The description of a task\<close>

datatype task_parameters_mode = ENV | CMDLINE
datatype task_output_method = TEXT | XML
datatype task_type = BINARY | SCRIPT

record task =
  path :: string
  arguments :: "string list"
  wd :: string
  use_agent :: bool
  parameters_mode :: task_parameters_mode
  output_method :: task_output_method
  type_of_task :: task_type
  merge_stderr :: bool

text \<open>An attribute that is one of two words, or absent.\<close>

definition choice :: "attrs \<Rightarrow> string \<Rightarrow> string \<Rightarrow> (string \<times> 'a) list \<Rightarrow> 'a \<Rightarrow> 'a res" where
  "choice a name msg words other =
     (if \<not> hasAttribute a name then Inr other
      else case map_of words (getAttribute a name) of
             None \<Rightarrow> Inl (Exn ''Task'' (msg @ getAttribute a name) [])
           | Some x \<Rightarrow> Inr x)"

definition flag :: "attrs \<Rightarrow> string \<Rightarrow> bool res" where
  "flag a name = (if hasAttribute a name then bindr (GetAttributeBool a name False) (\<lambda>(b, a'). Inr b) else Inr False)"

text \<open>\<open>wordexp\<close> gives the words, or fails. Without a word \<open>w[0]\<close> is a null pointer.\<close>

definition expand :: "(string \<Rightarrow> string list option) \<Rightarrow> string \<Rightarrow> (string \<times> string list) res" where
  "expand wordexp p = (case wordexp p of
     None \<Rightarrow> Inl (Exn ''Task'' ''Error expanding task command line'' [])
   | Some [] \<Rightarrow> Inl (UB ''null string'')
   | Some (w # ws) \<Rightarrow> Inr (w, ws))"

definition Task_new :: "(string \<Rightarrow> string list option) \<Rightarrow> winst \<Rightarrow> nat \<Rightarrow> task res" where
  "Task_new wordexp w t =
     (let a = attrs_of w t; p = getAttribute a ''path'' in
      bindr (flag a ''use-agent'') (\<lambda>agent.
      bindr (choice a ''parameters-mode'' ''Unkown parameters mode '' [(''CMDLINE'', CMDLINE), (''ENV'', ENV)] CMDLINE) (\<lambda>mode.
      bindr (choice a ''output-method'' ''Unkown output method '' [(''TEXT'', TEXT), (''XML'', XML)] TEXT) (\<lambda>method.
      bindr (choice a ''type'' ''Unkown type '' [(''BINARY'', BINARY), (''SCRIPT'', SCRIPT)] BINARY) (\<lambda>ty.
      bindr (flag a ''merge-stderr'') (\<lambda>merge.
      bindr (if ty = BINARY then expand wordexp p else Inr (p, [])) (\<lambda>(p', args).
        Inr \<lparr>path = p', arguments = args,
          wd = (if hasAttribute a ''wd'' then getAttribute a ''wd'' else []), use_agent = agent,
          parameters_mode = mode, output_method = method, type_of_task = ty, merge_stderr = merge\<rparr>)))))))"

definition IsAbsolutePath :: "task \<Rightarrow> bool" where
  "IsAbsolutePath tk \<longleftrightarrow> take 1 (path tk) = ''/''"

definition text_content :: "winst \<Rightarrow> nat \<Rightarrow> string" where
  "text_content w n = concat (map (\<lambda>m. n_text (doc w ! m)) (n # descendants w n))"

definition GetParameters :: "winst \<Rightarrow> nat \<Rightarrow> (string \<times> string) list" where
  "GetParameters w t =
     map (\<lambda>n. (if has w n ''name'' then attr w n ''name'' else [], text_content w n))
       (filter (\<lambda>n. \<not> (has w n ''status'' \<and> attr w n ''status'' = ''SKIPPED'')) (named w ''input'' t))"

definition GetUser :: "winst \<Rightarrow> nat \<Rightarrow> string" where
  "GetUser w t =
     (if has w t ''host'' then (if has w t ''user'' then attr w t ''user'' else [])
      else if has w 0 ''host'' then (if has w 0 ''user'' then attr w 0 ''user'' else [])
      else [])"

definition GetHost :: "winst \<Rightarrow> nat \<Rightarrow> string" where
  "GetHost w t = (if has w t ''host'' then attr w t ''host'' else if has w 0 ''host'' then attr w 0 ''host'' else [])"

definition GetTypeStr :: "task \<Rightarrow> string" where
  "GetTypeStr tk = (case type_of_task tk of BINARY \<Rightarrow> ''BINARY'' | SCRIPT \<Rightarrow> ''SCRIPT'')"

definition GetScript :: "winst \<Rightarrow> nat \<Rightarrow> string" where
  "GetScript w t = (case named w ''script'' t of [] \<Rightarrow> [] | n # ns \<Rightarrow> text_content w n)"

definition GetStdin :: "(winst \<Rightarrow> nat \<Rightarrow> string) \<Rightarrow> winst \<Rightarrow> nat \<Rightarrow> string" where
  "GetStdin serialize w t = (case named w ''stdin'' t of
     [] \<Rightarrow> []
   | n # ns \<Rightarrow> if has w n ''mode'' \<and> attr w n ''mode'' = ''text'' then text_content w n else serialize w n)"

section \<open>What is sent to the monitor\<close>

record launch =
  l_filename :: string
  l_tid :: int
  l_args :: "string list"
  l_config :: "(string, string) smap"
  l_env :: "(string, string) smap"
  l_script :: string
  l_stdin :: string

definition put_all :: "(string, string) smap \<Rightarrow> (string \<times> string) list \<Rightarrow> (string, string) smap" where
  "put_all m ps = foldl (\<lambda>m (k, v). smap_put m k v) m ps"

definition yes_no :: "bool \<Rightarrow> string" where
  "yes_no b = (if b then ''yes'' else ''no'')"

definition task_env :: "task \<Rightarrow> (string \<times> string) list \<Rightarrow> (string, string) smap" where
  "task_env tk params =
     put_all [] ([(''EVQUEUE_IPC_QID'', ''0''), (''EVQUEUE_ENV'', ''true'')] @ (if parameters_mode tk = ENV then params else []))"

definition monitor_config :: "winst \<Rightarrow> nat \<Rightarrow> task \<Rightarrow> (string, string) smap" where
  "monitor_config w t tk = put_all []
     [(''monitor.ssh.useagent'', yes_no (use_agent tk)), (''monitor.ssh.host'', GetHost w t),
      (''monitor.ssh.user'', GetUser w t), (''monitor.wd'', wd tk),
      (''monitor.merge_stderr'', yes_no (merge_stderr tk)), (''monitor.task.type'', GetTypeStr tk)]"

definition prepare_task :: "entries \<Rightarrow> (winst \<Rightarrow> nat \<Rightarrow> string) \<Rightarrow> winst \<Rightarrow> nat \<Rightarrow> task \<Rightarrow> int \<Rightarrow> launch res" where
  "prepare_task conf serialize w t tk tid =
     (if type_of_task tk = SCRIPT \<and> GetHost w t \<noteq> [] \<and> \<not> use_agent tk
      then Inl (Exn ''ProcessManager'' ''Script tasks cannot be remote without using evQueue agent'' [])
      else bindr (if IsAbsolutePath tk then Inr (path tk)
                  else bindr (Get conf ''processmanager.tasks.directory'') (\<lambda>d. Inr (d @ ''/'' @ path tk))) (\<lambda>filename.
        let params = GetParameters w t in
        Inr \<lparr>l_filename = filename, l_tid = tid,
          l_args = arguments tk @ (if parameters_mode tk = CMDLINE then map snd params else []),
          l_config = monitor_config w t tk, l_env = task_env tk params,
          l_script = (if type_of_task tk = SCRIPT then GetScript w t else []),
          l_stdin = GetStdin serialize w t\<rparr>))"

definition launch_data :: "task \<Rightarrow> launch \<Rightarrow> string" where
  "launch_data tk l =
     Serialize_string (l_filename l) @ Serialize_int (l_tid l) @ Serialize_vector (l_args l) @ Serialize_map (l_config l) @
     Serialize_map (l_env l) @ (if type_of_task tk = SCRIPT then Serialize_string (l_script l) else []) @
     Serialize_string (l_stdin l)"

text \<open>\<open>forker type data\<close> is what \<open>Forker::Execute\<close> returns.\<close>

definition ExecuteTask :: "entries \<Rightarrow> (winst \<Rightarrow> nat \<Rightarrow> string) \<Rightarrow> (string \<Rightarrow> string \<Rightarrow> int) \<Rightarrow> winst \<Rightarrow> nat \<Rightarrow> task \<Rightarrow> int \<Rightarrow> int res" where
  "ExecuteTask conf serialize forker w t tk tid =
     bindr (prepare_task conf serialize w t tk tid) (\<lambda>l.
       let pid = forker ''evq_monitor'' (launch_data tk l)
       in if pid < 0 then Inl (Exn ''WorkflowInstance'' ''Could not fork task monitor, see engine logs'' []) else Inr pid)"

text \<open>The field \<open>execute_task\<close> of the environment of an instance.\<close>

definition start_task :: "(string \<Rightarrow> string list option) \<Rightarrow> entries \<Rightarrow> (winst \<Rightarrow> nat \<Rightarrow> string) \<Rightarrow> (string \<Rightarrow> string \<Rightarrow> int) \<Rightarrow> winst \<Rightarrow> nat \<Rightarrow> int \<Rightarrow> int res" where
  "start_task wordexp conf serialize forker w t tid =
     bindr (Task_new wordexp w t) (\<lambda>tk. ExecuteTask conf serialize forker w t tk tid)"

section \<open>The forker\<close>

text \<open>
  The engine writes the kind of process and the path of a FIFO to the forker and reads back a process
  number. What a request makes the forker do: leave, go on, or start a process that reads the FIFO.
\<close>

datatype forker_action = ForkerExit | ForkerInit string | ForkerStart string string string

definition forker_read :: "nat \<Rightarrow> string \<Rightarrow> forker_action res" where
  "forker_read stack fd =
     bindr (Unserialize_string stack [] fd) (\<lambda>(ok, ty, fd1).
       if \<not> ok then Inr ForkerExit
       else if ty = ''init'' then Inr (ForkerInit fd1)
       else bindr (Unserialize_string stack [] fd1) (\<lambda>(ok, pipe_path, fd2).
         if \<not> ok then Inr ForkerExit else Inr (ForkerStart ty pipe_path fd2)))"

text \<open>\<open>opens\<close>: the FIFO can be opened by the forker; \<open>forks\<close>: what \<open>fork\<close> returns there.\<close>

definition forker_answer :: "bool \<Rightarrow> int \<Rightarrow> string" where
  "forker_answer opens forks = Serialize_int (if opens then forks else -2)"

text \<open>
  The engine's side. The state is \<open>pipe_id\<close>; the result is the number of the process, what was written to
  the forker and the data given to the piper. \<open>opened\<close>: the engine could open the FIFO; \<open>written\<close>: the
  request could be written; \<open>reply\<close>: what comes back, given the request.
\<close>

record fork_outcome =
  fo_pid :: int
  fo_request :: string
  fo_piped :: "string option"

definition Forker_Execute :: "nat \<Rightarrow> string \<Rightarrow> string \<Rightarrow> bool \<Rightarrow> bool \<Rightarrow> (string \<Rightarrow> string) \<Rightarrow> string \<Rightarrow> string \<Rightarrow> nat \<Rightarrow> (fork_outcome \<times> nat) res" where
  "Forker_Execute stack pipes_directory node_name opened written reply ty data pipe_id =
     (let pipe_path = pipes_directory @ ''/evq_forker_fifo_'' @ node_name @ ''_'' @ show_nat pipe_id;
          request = Serialize_string ty @ Serialize_string pipe_path
      in if \<not> opened then Inr (\<lparr>fo_pid = -1, fo_request = [], fo_piped = None\<rparr>, pipe_id + 1)
         else if \<not> written then Inr (\<lparr>fo_pid = -1, fo_request = [], fo_piped = None\<rparr>, pipe_id + 1)
         else bindr (Unserialize_int stack 0 (reply request)) (\<lambda>(ok, pid, rest).
           if \<not> ok then Inr (\<lparr>fo_pid = -1, fo_request = request, fo_piped = None\<rparr>, pipe_id + 1)
           else Inr (\<lparr>fo_pid = pid, fo_request = request, fo_piped = (if pid > 0 then Some data else None)\<rparr>, pipe_id + 1)))"

definition Forker_Init :: string where
  "Forker_Init = Serialize_string ''init''"

section \<open>What the monitor reads\<close>

definition expect :: "string \<Rightarrow> (bool \<times> 'a \<times> string) res \<Rightarrow> ('a \<Rightarrow> string \<Rightarrow> 'b res) \<Rightarrow> 'b res" where
  "expect what m k = bindr m (\<lambda>(ok, x, fd).
     if ok then k x fd else Inl (Exn ''evq_monitor'' (''Could not read '' @ what) []))"

definition monitor_head :: "nat \<Rightarrow> string \<Rightarrow> (string \<times> int \<times> string) res" where
  "monitor_head stack fd =
     expect ''task filename'' (Unserialize_string stack [] fd) (\<lambda>filename fd1.
     expect ''tid'' (Unserialize_int stack 0 fd1) (\<lambda>tid fd2. Inr (filename, tid, fd2)))"

text \<open>Whether the arguments could be read is not tested.\<close>

definition monitor_body :: "nat \<Rightarrow> string \<Rightarrow> int \<Rightarrow> string \<Rightarrow> launch res" where
  "monitor_body stack filename tid fd =
     bindr (Unserialize_vector stack [] fd) (\<lambda>(_, args, fd1).
     expect ''configuration'' (Unserialize_map [] fd1) (\<lambda>config fd2.
     expect ''environment'' (Unserialize_map [] fd2) (\<lambda>env fd3.
     bindr (Get config ''monitor.task.type'') (\<lambda>ty.
     let rest = (\<lambda>script fd4. expect ''stdin'' (Unserialize_string stack [] fd4) (\<lambda>inp fd5.
       Inr \<lparr>l_filename = filename, l_tid = tid, l_args = args, l_config = config, l_env = env, l_script = script, l_stdin = inp\<rparr>))
     in if ty = ''SCRIPT'' then expect ''script'' (Unserialize_string stack [] fd3) rest else rest [] fd3))))"

text \<open>
  The result, and the task number that an exit message of the monitor would have. Between the two parts
  the outputs are redirected to files, of which \<open>opens\<close> says whether they can be opened.
\<close>

definition redirect_outputs :: "entries \<Rightarrow> (string \<Rightarrow> bool) \<Rightarrow> int \<Rightarrow> unit res" where
  "redirect_outputs conf opens tid = bindr (Get conf ''processmanager.logs.directory'') (\<lambda>d.
     case find (\<lambda>f. \<not> opens f) (map (\<lambda>suffix. d @ ''/'' @ to_string tid @ suffix) [''.stdout'', ''.stderr'', ''.log'']) of
       None \<Rightarrow> Inr ()
     | Some f \<Rightarrow> Inl (Exn ''ProcessExec'' (''Unable to open task output log file: '' @ f) []))"

definition monitor_read :: "nat \<Rightarrow> entries \<Rightarrow> (string \<Rightarrow> bool) \<Rightarrow> string \<Rightarrow> launch res \<times> int" where
  "monitor_read stack conf opens fd = (case monitor_head stack fd of
     Inl e \<Rightarrow> (Inl e, -1)
   | Inr (filename, tid, fd1) \<Rightarrow> (bindr (redirect_outputs conf opens tid) (\<lambda>_. monitor_body stack filename tid fd1), tid))"

section \<open>The monitor gets what the engine prepared\<close>

definition launch_fits :: "nat \<Rightarrow> launch \<Rightarrow> bool" where
  "launch_fits stack l \<longleftrightarrow> 11 \<le> stack \<and> string_fits stack (l_filename l) \<and> int_range (l_tid l) \<and>
     vector_fits stack (l_args l) \<and> map_fits (l_config l) \<and> map_fits (l_env l) \<and>
     string_fits stack (l_script l) \<and> string_fits stack (l_stdin l)"

lemma smap_find_put_all:
  "smap_inv m \<Longrightarrow> smap_inv (put_all m ps) \<and> smap_find (put_all m ps) k = (case map_of (rev ps) k of None \<Rightarrow> smap_find m k | Some v \<Rightarrow> Some v)"
proof (induction ps arbitrary: m)
  case (Cons p ps)
  obtain a v where p: "p = (a, v)" by (cases p)
  have "put_all m (p # ps) = put_all (smap_put m a v) ps" by (simp add: put_all_def p)
  then show ?case using Cons.IH [of "smap_put m a v"] Cons.prems
    by (auto simp: p smap_inv_put smap_find_put map_add_def split: option.splits)
qed (simp add: put_all_def)

lemma config_type: "Get (monitor_config w t tk) ''monitor.task.type'' = Inr (GetTypeStr tk)"
proof -
  have "smap_inv ([] :: (string, string) smap)" by (simp add: smap_inv_def)
  then show ?thesis unfolding Get_def monitor_config_def by (subst smap_find_put_all [THEN conjunct2]) simp_all
qed

lemma prepared:
  assumes "prepare_task conf serialize w t tk tid = Inr l"
  shows "l_tid l = tid" "l_config l = monitor_config w t tk" "type_of_task tk = BINARY \<Longrightarrow> l_script l = []"
  using assms by (auto simp: prepare_task_def bindr_eq_Inr Let_def split: if_splits)

lemma monitor_reads:
  assumes "launch_fits stack l" "l_config l = monitor_config w t tk" "type_of_task tk = BINARY \<Longrightarrow> l_script l = []"
    and "redirect_outputs mconf opens (l_tid l) = Inr ()"
  shows "monitor_read stack mconf opens (launch_data tk l) = (Inr l, l_tid l)"
proof -
  have f: "11 \<le> stack" "string_fits stack (l_filename l)" "int_range (l_tid l)" "vector_fits stack (l_args l)"
    "map_fits (l_config l)" "map_fits (l_env l)" "string_fits stack (l_script l)" "string_fits stack (l_stdin l)"
    using assms(1) by (simp_all add: launch_fits_def)
  note r = string_codec.dec_enc [OF f(2)] int_codec.dec_enc [of "l_tid l" stack] vector_codec.dec_enc [OF f(4)]
    map_codec.dec_enc [OF f(5)] map_codec.dec_enc [OF f(6)] string_codec.dec_enc [OF f(7)] string_codec.dec_enc_end [OF f(8)]
  have ty: "Get (l_config l) ''monitor.task.type'' = Inr (GetTypeStr tk)" by (simp add: assms(2) config_type)
  show ?thesis
    by (cases "type_of_task tk")
      (simp_all add: monitor_read_def monitor_head_def monitor_body_def launch_data_def expect_def r f ty assms(3,4) GetTypeStr_def Let_def)
qed

text \<open>The forker, as the engine sees it: it reads the request and answers.\<close>

definition forker_reply :: "nat \<Rightarrow> (string \<Rightarrow> bool) \<Rightarrow> int \<Rightarrow> string \<Rightarrow> string" where
  "forker_reply stack opens forks request = (case forker_read stack request of
     Inr (ForkerStart ty pipe_path rest) \<Rightarrow> forker_answer (opens pipe_path) forks | _ \<Rightarrow> [])"

definition fifo_path :: "string \<Rightarrow> string \<Rightarrow> nat \<Rightarrow> string" where
  "fifo_path dir node n = dir @ ''/evq_forker_fifo_'' @ node @ ''_'' @ show_nat n"

lemma forker_answers:
  assumes "11 \<le> stack" "string_fits stack ty" "ty \<noteq> ''init''" "string_fits stack (fifo_path dir node n)" "int_range forks"
  shows "Forker_Execute stack dir node True True (forker_reply stack opens forks) ty data n =
    (let pid = if opens (fifo_path dir node n) then forks else -2
     in Inr (\<lparr>fo_pid = pid, fo_request = Serialize_string ty @ Serialize_string (fifo_path dir node n),
          fo_piped = (if pid > 0 then Some data else None)\<rparr>, n + 1))"
proof -
  have "forker_read stack (Serialize_string ty @ Serialize_string (fifo_path dir node n)) = Inr (ForkerStart ty (fifo_path dir node n) [])"
    using string_codec.dec_enc [OF assms(2)] string_codec.dec_enc_end [OF assms(4)] assms(3) by (simp add: forker_read_def)
  moreover have "int_range (-2)" by (simp add: int_range_def)
  ultimately show ?thesis using assms(1,5) int_codec.dec_enc_end [of _ stack]
    by (simp add: Forker_Execute_def forker_reply_def forker_answer_def fifo_path_def Let_def)
qed

definition via_forker :: "nat \<Rightarrow> string \<Rightarrow> string \<Rightarrow> (string \<Rightarrow> bool) \<Rightarrow> int \<Rightarrow> nat \<Rightarrow> string \<Rightarrow> string \<Rightarrow> int" where
  "via_forker stack dir node opens forks n ty data =
     (case Forker_Execute stack dir node True True (forker_reply stack opens forks) ty data n of
        Inr (out, n') \<Rightarrow> fo_pid out | Inl e \<Rightarrow> -1)"

text \<open>C21: A task that the engine describes is started by the forker, and the monitor it starts decodes, from the
  data the engine gives to the piper, exactly the program, arguments, configuration, environment, script and input
  the engine prepared: for data that fits the formats. When the FIFO cannot be opened nothing is piped and the
  execution fails.\<close>
theorem task_reaches_monitor:
  assumes task: "Task_new wordexp w t = Inr tk" "prepare_task conf serialize w t tk tid = Inr l"
    and fits: "launch_fits stack l" "string_fits stack (fifo_path dir node n)" "int_range forks" "0 < forks"
    and mon: "redirect_outputs mconf mopens tid = Inr ()"
  shows "\<exists>out. Forker_Execute stack dir node True True (forker_reply stack opens forks) ''evq_monitor'' (launch_data tk l) n = Inr (out, n + 1) \<and>
    (if opens (fifo_path dir node n)
     then start_task wordexp conf serialize (via_forker stack dir node opens forks n) w t tid = Inr forks \<and>
       (\<exists>d. fo_piped out = Some d \<and> monitor_read stack mconf mopens d = (Inr l, tid))
     else fo_piped out = None \<and> (\<exists>e. start_task wordexp conf serialize (via_forker stack dir node opens forks n) w t tid = Inl e))"
proof -
  have s: "11 \<le> stack" "string_fits stack ''evq_monitor''" using fits(1) by (simp_all add: launch_fits_def string_fits_def)
  note run = forker_answers [OF s _ fits(2,3), of opens "launch_data tk l"]
  have "monitor_read stack mconf mopens (launch_data tk l) = (Inr l, tid)"
    using monitor_reads [OF fits(1) prepared(2,3) [OF task(2)]] prepared(1) [OF task(2)] mon by simp
  moreover have "via_forker stack dir node opens forks n ''evq_monitor'' (launch_data tk l) = (if opens (fifo_path dir node n) then forks else -2)"
    using run by (simp add: via_forker_def Let_def)
  ultimately show ?thesis using run task fits(4) by (simp add: start_task_def ExecuteTask_def Let_def)
qed

text \<open>A script to be run on the host \<open>h\<close> by the agent.\<close>

definition script_doc :: winst where
  "script_doc = \<lparr>root_attrs = Map.empty, error_tasks = 0, retrying_tasks = 0, running_tasks = 0, timers = [],
     doc = [\<lparr>n_name = ''workflow'', n_attrs = Map.empty, n_parent = None, n_children = [1], n_text = []\<rparr>,
       \<lparr>n_name = ''task'', n_attrs = [''path'' \<mapsto> ''/s'', ''type'' \<mapsto> ''SCRIPT'', ''host'' \<mapsto> ''h'', ''use-agent'' \<mapsto> ''yes'',
          ''parameters-mode'' \<mapsto> ''ENV''], n_parent = Some 0, n_children = [2, 4], n_text = []\<rparr>,
       \<lparr>n_name = ''script'', n_attrs = Map.empty, n_parent = Some 1, n_children = [3], n_text = []\<rparr>,
       \<lparr>n_name = ''#text'', n_attrs = Map.empty, n_parent = Some 2, n_children = [], n_text = ''echo $A''\<rparr>,
       \<lparr>n_name = ''input'', n_attrs = [''name'' \<mapsto> ''A''], n_parent = Some 1, n_children = [], n_text = []\<rparr>],
     queued_tasks = 0, waiting_conditions = 0, waiting_nodes = [], is_cancelling = False,
     context_job = 0, context_parent_job = 0, current_id = -1, id_node = Map.empty, exn_logged = False,
     enqueued = [], retried = [], adopted = []\<rparr>"

definition script_task :: task where
  "script_task = \<lparr>path = ''/s'', arguments = [], wd = [], use_agent = True, parameters_mode = ENV, output_method = TEXT,
     type_of_task = SCRIPT, merge_stderr = False\<rparr>"

definition script_launch :: launch where
  "script_launch = \<lparr>l_filename = ''/s'', l_tid = 5, l_args = [],
     l_config = [(''monitor.merge_stderr'', ''no''), (''monitor.ssh.host'', ''h''), (''monitor.ssh.useagent'', ''yes''),
       (''monitor.ssh.user'', []), (''monitor.task.type'', ''SCRIPT''), (''monitor.wd'', [])],
     l_env = [(''A'', []), (''EVQUEUE_ENV'', ''true''), (''EVQUEUE_IPC_QID'', ''0'')], l_script = ''echo $A'', l_stdin = []\<rparr>"

lemmas script_defs = script_doc_def attrs_of_def has_def attr_def named_def name_of_def children_def text_content_def
  descendants_def getAttribute_def

lemma script_described: "Task_new wordexp script_doc 1 = Inr script_task"
  by (simp add: Task_new_def script_task_def choice_def flag_def script_defs GetAttributeBool_def GetAttribute_def Let_def)

lemma script_prepared: "prepare_task conf serialize script_doc 1 script_task 5 = Inr script_launch"
proof -
  have "GetHost script_doc 1 = ''h''" "GetUser script_doc 1 = []" "GetParameters script_doc 1 = [(''A'', [])]"
    "GetScript script_doc 1 = ''echo $A''" "GetStdin serialize script_doc 1 = []"
    by (simp_all add: GetHost_def GetUser_def GetParameters_def GetScript_def GetStdin_def script_defs numeral_eq_Suc)
  then show ?thesis
    by (simp add: prepare_task_def script_launch_def script_task_def IsAbsolutePath_def monitor_config_def task_env_def put_all_def
        GetTypeStr_def yes_no_def Let_def)
qed

lemma script_fits: "launch_fits 100 script_launch"
  by (simp add: launch_fits_def script_launch_def string_fits_def vector_fits_def map_fits_def pair_fits_def int_range_def smap_inv_def)

lemma task_reaches_monitor_witness:
  "\<exists>out d. Forker_Execute 100 ''/p'' ''n'' True True (forker_reply 100 (\<lambda>_. True) 7) ''evq_monitor'' (launch_data script_task script_launch) 3 = Inr (out, 4) \<and>
     fo_piped out = Some d \<and> monitor_read 100 [(''processmanager.logs.directory'', ''/l'')] (\<lambda>_. True) d = (Inr script_launch, 5)"
proof -
  have "string_fits 100 (fifo_path ''/p'' ''n'' 3)" by (simp add: fifo_path_def string_fits_def show_nat.simps)
  moreover have "redirect_outputs [(''processmanager.logs.directory'', ''/l'')] (\<lambda>_. True) 5 = Inr ()"
    by (simp add: redirect_outputs_def Get_def)
  moreover have "int_range 7" by (simp add: int_range_def)
  ultimately show ?thesis
    using task_reaches_monitor [OF script_described [of "\<lambda>_. None"] script_prepared [of "[]" "\<lambda>_ _. []"] script_fits,
      of "''/p''" "''n''" 3 7 "[(''processmanager.logs.directory'', ''/l'')]" "\<lambda>_. True" "\<lambda>_. True"] by auto
qed

end
