(* ===== verification/MonitorRun.thy ===== *)
theory MonitorRun
  imports TaskLaunch
begin

text \<open>
  The monitor of a task and the agent: src/Process/ProcessExec.cpp, the rest of \<open>Monitor::main\<close>,
  src/evqueue_agent.cpp and \<open>ipc_send_progress_message\<close> of src/Process/tools_ipc.cpp. The monitor runs the task
  itself, or over ssh on another host, there perhaps through the agent. What the task writes on its log is relayed
  by the monitor; the agent sends it, with the outputs, in frames over its standard output.
\<close>

section \<open>A process to execute\<close>

text \<open>
  \<open>p_stdin\<close> is \<open>None\<close> as long as no pipe was made for the input. \<open>p_fd_rdr\<close> and \<open>p_parent_rdr\<close> are maps, from
  the descriptor of the child; of the second the pipe's ends are left out.
\<close>

record proc =
  p_path :: string
  p_args :: "string list"
  p_stdin :: "string option"
  p_fd_rdr :: "(int, int) smap"
  p_parent_rdr :: "int set"

definition ProcessExec_new :: proc where
  "ProcessExec_new = \<lparr>p_path = [], p_args = [], p_stdin = None, p_fd_rdr = [], p_parent_rdr = {}\<rparr>"

definition SetPath :: "string \<Rightarrow> proc \<Rightarrow> proc" where
  "SetPath f p = p\<lparr>p_path := f\<rparr>"

text \<open>\<open>creates f\<close>: the file can be created and written in one go. The result has the file and its content.\<close>

definition SetScript :: "(string \<Rightarrow> bool) \<Rightarrow> int \<Rightarrow> string \<Rightarrow> string \<Rightarrow> proc \<Rightarrow> (proc \<times> string \<times> string) res" where
  "SetScript creates self directory script p =
     (let filename = directory @ ''/'' @ to_string self @ ''.script''
      in if creates filename then Inr (SetPath filename p, filename, script)
         else Inl (Exn ''ProcessExec'' (''Unable to create temporary script : '' @ filename) []))"

definition shell_escape :: "string \<Rightarrow> string" where
  "shell_escape v = [CHR 0x27] @ concat (map (\<lambda>c. if c = CHR 0x27 then [CHR 0x5C, CHR 0x27] else [c]) v) @ [CHR 0x27]"

definition AddArgument :: "string \<Rightarrow> bool \<Rightarrow> proc \<Rightarrow> proc" where
  "AddArgument v escape p = p\<lparr>p_args := p_args p @ [if escape then shell_escape v else v]\<rparr>"

definition pipe_in :: "string \<Rightarrow> proc \<Rightarrow> proc" where
  "pipe_in d p = p\<lparr>p_stdin := Some ((case p_stdin p of None \<Rightarrow> [] | Some s \<Rightarrow> s) @ d)\<rparr>"

definition PipeMap :: "(string, string) smap \<Rightarrow> proc \<Rightarrow> proc" where
  "PipeMap m = pipe_in (Serialize_map m)"

definition PipeString :: "string \<Rightarrow> proc \<Rightarrow> proc" where
  "PipeString s = pipe_in (Serialize_string s)"

definition Pipe :: "string \<Rightarrow> proc \<Rightarrow> proc" where
  "Pipe d p = (if d = [] then p else pipe_in d p)"

definition FDRedirect :: "int \<Rightarrow> int \<Rightarrow> proc \<Rightarrow> proc" where
  "FDRedirect src dst p = (if smap_find (p_fd_rdr p) src = None then p\<lparr>p_fd_rdr := smap_put (p_fd_rdr p) src dst\<rparr> else p)"

definition ParentRedirect :: "int \<Rightarrow> proc \<Rightarrow> proc" where
  "ParentRedirect fd p = p\<lparr>p_parent_rdr := insert fd (p_parent_rdr p)\<rparr>"

text \<open>The descriptors of the child, as \<open>Exec\<close> sets them before \<open>execv\<close>.\<close>

datatype fd_target = Inherited int | StdinPipe | ToParent int

definition child_fds :: "proc \<Rightarrow> int \<Rightarrow> fd_target" where
  "child_fds p =
     (let f0 = Inherited;
          f1 = (if p_stdin p = None then f0 else f0(0 := StdinPipe));
          f2 = foldl (\<lambda>f (src, dst). f(src := f dst)) f1 (p_fd_rdr p)
      in (\<lambda>fd. if fd \<in> p_parent_rdr p then ToParent fd else f2 fd))"

section \<open>What the monitor prepares\<close>

text \<open>
  \<open>m_env\<close> are the variables set, \<open>m_file\<close> the script written, \<open>m_chdir\<close> the directory changed to; \<open>m_remote\<close> and
  \<open>m_agent\<close> how the task is run.
\<close>

record monitored =
  m_proc :: proc
  m_env :: "(string \<times> string) list"
  m_file :: "(string \<times> string) option"
  m_chdir :: "string option"
  m_remote :: bool
  m_agent :: bool

text \<open>The configuration that is sent to the agent.\<close>

definition agent_config :: "entries \<Rightarrow> launch \<Rightarrow> string \<Rightarrow> (string, string) smap res" where
  "agent_config conf l ty =
     (if ty = ''SCRIPT'' then
        bindr (Get conf ''processmanager.scripts.delete'') (\<lambda>del.
        bindr (Get conf ''processmanager.scripts.directory'') (\<lambda>dir.
          Inr (smap_put (smap_put (l_config l) ''processmanager.scripts.delete'' del) ''processmanager.scripts.directory'' dir)))
      else Inr (l_config l))"

definition prepare_agent :: "entries \<Rightarrow> launch \<Rightarrow> string \<Rightarrow> proc \<Rightarrow> proc res" where
  "prepare_agent conf l ty p =
     bindr (Get conf ''processmanager.agent.path'') (\<lambda>agent.
     bindr (agent_config conf l ty) (\<lambda>c.
       Inr ((if ty = ''SCRIPT'' then PipeString (l_script l) else (\<lambda>p. p))
         (PipeMap (l_env l) (PipeMap c (ParentRedirect 1 (AddArgument agent False p)))))))"

definition ssh_command :: "string \<Rightarrow> string \<Rightarrow> string \<Rightarrow> string \<Rightarrow> string \<Rightarrow> proc" where
  "ssh_command ssh key user host dir =
     (let p1 = SetPath ssh ProcessExec_new;
          p2 = (if key \<noteq> [] then AddArgument key False (AddArgument ''-i'' False p1) else p1);
          p3 = AddArgument (if user \<noteq> [] then user @ ''@'' @ host else host) False p2
      in if dir \<noteq> [] then AddArgument (''cd '' @ dir @ '';'') False p3 else p3)"

definition prepare_ssh :: "entries \<Rightarrow> launch \<Rightarrow> string \<Rightarrow> (proc \<times> bool) res" where
  "prepare_ssh conf l ty =
     bindr (Get conf ''processmanager.monitor.ssh_path'') (\<lambda>ssh.
     bindr (Get conf ''processmanager.monitor.ssh_key'') (\<lambda>key.
     bindr (Get (l_config l) ''monitor.ssh.user'') (\<lambda>user.
     bindr (Get (l_config l) ''monitor.ssh.host'') (\<lambda>host.
     bindr (Get (l_config l) ''monitor.wd'') (\<lambda>wd.
     bindr (GetBool (l_config l) ''monitor.ssh.useagent'') (\<lambda>useagent.
     bindr (if useagent then prepare_agent conf l ty (ssh_command ssh key user host wd) else Inr (ssh_command ssh key user host wd)) (\<lambda>p.
       Inr (Pipe (l_stdin l) (AddArgument (l_filename l) False p), useagent))))))))"

definition prepare_local :: "(string \<Rightarrow> bool) \<Rightarrow> (string \<Rightarrow> bool) \<Rightarrow> int \<Rightarrow> entries \<Rightarrow> launch \<Rightarrow> string \<Rightarrow> (proc \<times> (string \<times> string) option \<times> string option) res" where
  "prepare_local creates enters self conf l ty =
     bindr (if ty = ''BINARY'' then Inr (SetPath (l_filename l) ProcessExec_new, None)
            else if ty = ''SCRIPT'' then
              bindr (Get conf ''processmanager.scripts.directory'') (\<lambda>d.
              bindr (SetScript creates self d (l_script l) ProcessExec_new) (\<lambda>(p, f). Inr (p, Some f)))
            else Inr (ProcessExec_new, None)) (\<lambda>(p, file).
     bindr (Get (l_config l) ''monitor.wd'') (\<lambda>wd.
       if wd \<noteq> [] \<and> \<not> enters wd
       then Inl (Exn ''evq_monitor'' (''Unable to change working directory to '' @ [CHR 0x27] @ wd @ [CHR 0x27]) [])
       else Inr (Pipe (l_stdin l) (ParentRedirect 3 p), file, if wd \<noteq> [] then Some wd else None)))"

definition prepare_how :: "(string \<Rightarrow> bool) \<Rightarrow> (string \<Rightarrow> bool) \<Rightarrow> int \<Rightarrow> entries \<Rightarrow> launch \<Rightarrow> monitored res" where
  "prepare_how creates enters self conf l =
     bindr (Get (l_config l) ''monitor.task.type'') (\<lambda>ty.
     bindr (Get (l_config l) ''monitor.ssh.host'') (\<lambda>host.
       if host \<noteq> [] then bindr (prepare_ssh conf l ty) (\<lambda>(p, useagent).
         Inr \<lparr>m_proc = p, m_env = [], m_file = None, m_chdir = None, m_remote = True, m_agent = useagent\<rparr>)
       else bindr (prepare_local creates enters self conf l ty) (\<lambda>(p, file, dir).
         Inr \<lparr>m_proc = p, m_env = l_env l, m_file = file, m_chdir = dir, m_remote = False, m_agent = False\<rparr>)))"

definition prepare_run :: "(string \<Rightarrow> bool) \<Rightarrow> (string \<Rightarrow> bool) \<Rightarrow> int \<Rightarrow> entries \<Rightarrow> launch \<Rightarrow> monitored res" where
  "prepare_run creates enters self conf l =
     bindr (prepare_how creates enters self conf l) (\<lambda>m.
     bindr (Get (l_config l) ''monitor.merge_stderr'') (\<lambda>merge.
       let p1 = (if merge = ''yes'' then FDRedirect 2 0 (m_proc m) else m_proc m)
       in Inr (m\<lparr>m_proc := foldl (\<lambda>p a. AddArgument a (m_remote m) p) p1 (l_args l)\<rparr>)))"

section \<open>The agent\<close>

definition agent_expect :: "string \<Rightarrow> string \<Rightarrow> (bool \<times> 'a \<times> string) res \<Rightarrow> ('a \<Rightarrow> string \<Rightarrow> 'b res) \<Rightarrow> 'b res" where
  "agent_expect context what m k = bindr m (\<lambda>(ok, x, fd).
     if ok then k x fd else Inl (Exn context (''Could not read '' @ what) []))"

text \<open>The configuration, the environment, the script, and what is left on its input for the task.\<close>

definition agent_read :: "nat \<Rightarrow> string \<Rightarrow> ((string, string) smap \<times> (string, string) smap \<times> string \<times> string) res" where
  "agent_read stack fd =
     agent_expect ''evqueue_agent'' ''configuration'' (Unserialize_map [] fd) (\<lambda>config fd1.
     agent_expect ''evqueue_monitor'' ''environment'' (Unserialize_map [] fd1) (\<lambda>env fd2.
     bindr (Get config ''monitor.task.type'') (\<lambda>ty.
       if ty = ''SCRIPT'' then agent_expect ''evqueue_monitor'' ''script'' (Unserialize_string stack [] fd2) (\<lambda>script fd3. Inr (config, env, script, fd3))
       else Inr (config, env, [], fd2))))"

text \<open>\<open>argv\<close> is what follows the name of the agent; its three outputs go to the agent.\<close>

definition agent_prepare :: "(string \<Rightarrow> bool) \<Rightarrow> int \<Rightarrow> nat \<Rightarrow> string list \<Rightarrow> string \<Rightarrow> (proc \<times> (string \<times> string) list \<times> (string \<times> string) option \<times> string) res" where
  "agent_prepare creates self stack argv fd =
     bindr (agent_read stack fd) (\<lambda>(config, env, script, rest).
     bindr (Get config ''monitor.task.type'') (\<lambda>ty.
     bindr (if ty = ''BINARY'' then Inr (SetPath (hd argv) ProcessExec_new, None)
            else if ty = ''SCRIPT'' then
              bindr (Get config ''processmanager.scripts.directory'') (\<lambda>d.
              bindr (SetScript creates self d script ProcessExec_new) (\<lambda>(p, f). Inr (p, Some f)))
            else Inr (ProcessExec_new, None)) (\<lambda>(p, file).
       Inr (foldl (\<lambda>p a. AddArgument a False p) (ParentRedirect 3 (ParentRedirect 2 (ParentRedirect 1 p))) (tl argv), env, file, rest))))"

text \<open>One read of at most 4096 bytes from output \<open>fd\<close>, as a frame.\<close>

definition frame :: "nat \<times> string \<Rightarrow> string" where
  "frame = (\<lambda>(fd, d). pad_num 2 fd @ pad_num 9 (length d) @ d)"

definition mux :: "(nat \<times> string) list \<Rightarrow> string" where
  "mux fs = concat (map frame fs)"

section \<open>Relaying the log\<close>

definition ipc_send_progress_message :: "string \<Rightarrow> int option res" where
  "ipc_send_progress_message buf =
     (if take 1 buf \<noteq> ''%'' \<or> take 1 (drop 1 buf) = ''%'' then Inr None
      else bindr (atoi (drop 1 buf)) (\<lambda>prct. Inr (Some (if prct < 0 then 0 else if prct > 100 then 100 else prct))))"

text \<open>What was relayed: the progress messages, and what was written on the descriptors, in order.\<close>

record relayed =
  r_progress :: "int list"
  r_written :: "(int \<times> string) list"

definition write_fd :: "int \<Rightarrow> string \<Rightarrow> relayed \<Rightarrow> relayed" where
  "write_fd fd s r = r\<lparr>r_written := r_written r @ [(fd, s)]\<rparr>"

definition relay_line :: "string \<Rightarrow> relayed \<Rightarrow> relayed res" where
  "relay_line line r = bindr (ipc_send_progress_message (cstr line)) (\<lambda>m. case m of
     Some prct \<Rightarrow> Inr (r\<lparr>r_progress := r_progress r @ [prct]\<rparr>)
   | None \<Rightarrow> Inr (write_fd 3 (if take 1 line = ''%'' then drop 1 line else line) r))"

definition close_line :: string where
  "close_line = [CHR 0x5C] @ ''close'' @ [CHR 0x0A]"

text \<open>Locally: the lines of the log as \<open>fgets\<close> gives them.\<close>

fun relay_local :: "string list \<Rightarrow> relayed \<Rightarrow> relayed res" where
  "relay_local [] r = Inr r"
| "relay_local (l # ls) r = (if l = close_line then Inr r else bindr (relay_line l r) (relay_local ls))"

text \<open>From the agent: the bytes of a frame of the log, with the line so far.\<close>

fun relay_bytes :: "string \<Rightarrow> string \<Rightarrow> relayed \<Rightarrow> (string \<times> relayed) res" where
  "relay_bytes line [] r = Inr (line, r)"
| "relay_bytes line (c # s) r =
     (let line1 = line @ [c] in
      if c = CHR 0x0A \<or> length line1 = 4095 then
        (if cstr line1 = close_line then Inr (line1, r)
         else bindr (relay_line line1 r) (relay_bytes [] s))
      else relay_bytes line1 s r)"

text \<open>The bytes that arrive from the agent. A corrupted frame ends the loop.\<close>

function demux :: "string \<Rightarrow> string \<Rightarrow> relayed \<Rightarrow> (string \<times> relayed) res" where
  "demux fd line r =
     (if length fd < 2 then Inr (line, r)
      else bindr (atoi (take 2 fd)) (\<lambda>data_fd.
        let fd1 = drop 2 fd in
        if length fd1 < 9 then Inr (line, r)
        else bindr (atoi (take 9 fd1)) (\<lambda>data_size.
          let fd2 = drop 9 fd1 in
          if data_size > 4096 then Inr (line, r)
          else if data_size < 0 then Inl (UB ''read past buf'')
          else if int (length fd2) < data_size then Inr (line, r)
          else let buf = take (nat data_size) fd2; fd3 = drop (nat data_size) fd2 in
            if data_fd = 3 then bindr (relay_bytes line buf r) (\<lambda>(line', r'). demux fd3 line' r')
            else demux fd3 line (write_fd data_fd buf r))))"
  by pat_completeness auto
termination by (relation "measure (\<lambda>(fd, line, r). length fd)") auto

declare demux.simps [simp del]

section \<open>The end of the task\<close>

text \<open>\<open>retcode\<close> is a signed \<open>char\<close>; \<open>None\<close>: the task was killed by a signal.\<close>

definition exit_retcode :: "nat option \<Rightarrow> int" where
  "exit_retcode ended = (case ended of Some s \<Rightarrow> sint (word_of_nat s :: 8 word) | None \<Rightarrow> -1)"

text \<open>The file that is removed when the task has ended.\<close>

definition removed_file :: "entries \<Rightarrow> launch \<Rightarrow> proc \<Rightarrow> string option res" where
  "removed_file conf l p = bindr (Get (l_config l) ''monitor.task.type'') (\<lambda>ty.
     if ty = ''SCRIPT'' then bindr (GetBool conf ''processmanager.scripts.delete'') (\<lambda>del. Inr (if del then Some (p_path p) else None))
     else Inr None)"

section \<open>Relaying locally and through the agent\<close>

definition lines_ok :: "string \<Rightarrow> bool" where
  "lines_ok s \<longleftrightarrow> CHR 0x00 \<notin> set s \<and> (s = [] \<or> last s = CHR 0x0A) \<and> close_line \<notin> set (fgets_all s)"

text \<open>The bytes that were sent on one descriptor.\<close>

definition sent :: "nat \<Rightarrow> (nat \<times> string) list \<Rightarrow> string" where
  "sent fd fs = concat (map snd (filter (\<lambda>(f, d). f = fd) fs))"

definition on_fd :: "int \<Rightarrow> relayed \<Rightarrow> string" where
  "on_fd fd r = concat (map snd (filter (\<lambda>(f, d). f = fd) (r_written r)))"

text \<open>No line of the text, after what is left of a line, is the closing line.\<close>

fun no_close :: "string \<Rightarrow> string \<Rightarrow> bool" where
  "no_close line [] = True"
| "no_close line (c # s) =
     (if c = CHR 0x0A \<or> length (line @ [c]) = 4095 then cstr (line @ [c]) \<noteq> close_line \<and> no_close [] s
      else no_close (line @ [c]) s)"

lemma relay_bytes_append:
  "no_close line s \<Longrightarrow> relay_bytes line (s @ t) r = bindr (relay_bytes line s r) (\<lambda>(line', r'). relay_bytes line' t r')"
proof (induction line s r rule: relay_bytes.induct)
  case (2 line c s r)
  then show ?case by (cases "relay_line (line @ [c]) r") (auto simp: Let_def)
qed simp

lemma no_close_append:
  "no_close line (s @ t) \<Longrightarrow> no_close line s \<and> (\<forall>line' r r'. relay_bytes line s r = Inr (line', r') \<longrightarrow> no_close line' t)"
proof (induction line s rule: no_close.induct)
  case (2 line c s)
  then show ?case by (simp add: Let_def bindr_eq_Inr split: if_splits) blast+
qed simp

text \<open>A line up to its cut.\<close>

lemma one_line:
  assumes "CHR 0x0A \<notin> set xs" "length line + length xs < 4095" "c = CHR 0x0A \<or> length line + length xs = 4094"
    and "CHR 0x00 \<notin> set (line @ xs @ [c])" "line @ xs @ [c] \<noteq> close_line"
  shows "relay_bytes line (xs @ c # s) r = bindr (relay_line (line @ xs @ [c]) r) (relay_bytes [] s)"
    and "no_close line (xs @ c # s) = no_close [] s"
  using assms
proof (induction xs arbitrary: line)
  case Nil
  { case 1 then show ?case by (auto simp: cstr_id Let_def) }
  { case 2 then show ?case by (auto simp: cstr_id) }
next
  case (Cons x xs)
  { case 1 then show ?case using Cons.IH(1) [of "line @ [x]"] by auto }
  { case 2 then show ?case using Cons.IH(2) [of "line @ [x]"] by auto }
qed

lemma fgets_line:
  assumes "s \<noteq> []" "last s = CHR 0x0A" "CHR 0x00 \<notin> set s"
  obtains xs c rest where "s = xs @ c # rest" "fgets_all s = (xs @ [c]) # fgets_all rest" "CHR 0x0A \<notin> set xs"
    "length xs < 4095" "c = CHR 0x0A \<or> length xs = 4094" "rest = [] \<or> last rest = CHR 0x0A"
proof -
  let ?t = "takeWhile (\<lambda>c. c \<noteq> CHR 0x0A) s"
  let ?n = "min 4095 (Suc (length ?t))"
  have "CHR 0x0A \<in> set s" using assms(1,2) last_in_set by metis
  then obtain ys zs where ys: "s = ys @ CHR 0x0A # zs" "CHR 0x0A \<notin> set ys" by (meson split_list_first)
  then have "?t = ys" by (auto simp: takeWhile_append)
  then have len: "length ?t < length s" "s ! length ?t = CHR 0x0A" using ys(1) by simp_all
  define m where "m = ?n - 1"
  have m: "?n = Suc m" "m \<le> length ?t" "m < length s" "m < 4095" using len by (auto simp: m_def)
  have split: "s = take m s @ s ! m # drop (Suc m) s" using m(3) by (simp add: id_take_nth_drop [symmetric])
  have "take (Suc m) s = take m s @ [s ! m]" using m(3) by (simp add: take_Suc_conv_app_nth)
  moreover have "takeWhile (\<lambda>c. c \<noteq> CHR 0x00) (take (Suc m) s) = take (Suc m) s"
    using assms(3) by (auto simp: takeWhile_eq_all_conv dest: in_set_takeD)
  ultimately have "fgets_all s = (take m s @ [s ! m]) # fgets_all (drop (Suc m) s)"
    using assms(1) m(1) by (subst fgets_all.simps) (simp add: Let_def)
  moreover have "take m s = take m ?t"
    using m(2) by (metis takeWhile_eq_take take_take min.absorb1)
  then have "CHR 0x0A \<notin> set (take m s)" by (metis (mono_tags, lifting) in_set_takeD set_takeWhileD)
  moreover have "s ! m = CHR 0x0A \<or> length (take m s) = 4094"
    using len m by (cases "Suc (length ?t) \<le> 4095") (auto simp: m_def)
  moreover have "drop (Suc m) s = [] \<or> last (drop (Suc m) s) = CHR 0x0A"
    using assms(2) by (metis last_drop drop_eq_Nil not_le)
  ultimately show thesis using that [of "take m s" "s ! m" "drop (Suc m) s"] split m by simp
qed

text \<open>Relaying a whole text byte by byte is relaying its lines.\<close>

lemma relay_lines:
  "CHR 0x00 \<notin> set s \<Longrightarrow> s = [] \<or> last s = CHR 0x0A \<Longrightarrow> close_line \<notin> set (fgets_all s) \<Longrightarrow>
   no_close [] s \<and> relay_bytes [] s r = bindr (relay_local (fgets_all s) r) (\<lambda>r'. Inr ([], r'))"
proof (induction "length s" arbitrary: s r rule: less_induct)
  case less
  show ?case
  proof (cases "s = []")
    case True
    then show ?thesis by (simp add: fgets_all.simps [of "[]"])
  next
    case False
    then obtain xs c rest where x: "s = xs @ c # rest" "fgets_all s = (xs @ [c]) # fgets_all rest" "CHR 0x0A \<notin> set xs"
      "length xs < 4095" "c = CHR 0x0A \<or> length xs = 4094" "rest = [] \<or> last rest = CHR 0x0A"
      using fgets_line [of s] less.prems by metis
    have l: "CHR 0x00 \<notin> set ([] @ xs @ [c])" "[] @ xs @ [c] \<noteq> close_line" using less.prems(1,3) x(1,2) by auto
    have ih: "no_close [] rest \<and> relay_bytes [] rest r' = bindr (relay_local (fgets_all rest) r') (\<lambda>r'. Inr ([], r'))" for r'
      using less.prems x by (intro less.hyps) auto
    then have "relay_bytes [] rest = (\<lambda>r'. bindr (relay_local (fgets_all rest) r') (\<lambda>r'. Inr ([], r')))" by blast
    then show ?thesis using one_line [of xs "[]" c rest, OF x(3) _ _ l] x(4,5) l(2) ih
      by (simp add: x(2)) (simp add: x(1) bindr_assoc)
  qed
qed

section \<open>Frames\<close>

definition frame_ok :: "nat \<times> string \<Rightarrow> bool" where
  "frame_ok = (\<lambda>(fd, d). fd \<in> {1, 2, 3} \<and> length d \<le> 4096)"

lemma demux_frame:
  assumes "frame_ok (fd, d)"
  shows "demux (frame (fd, d) @ rest) line r =
    (if fd = 3 then bindr (relay_bytes line d r) (\<lambda>(line', r'). demux rest line' r')
     else demux rest line (write_fd (int fd) d r))"
proof -
  have f: "fd < 10 ^ 2" "fd < 10 ^ 9" "length d < 10 ^ 9" "length d \<le> 4096" "fd \<in> {1, 2, 3}"
    using assms by (auto simp: frame_ok_def)
  have n: "length (pad_num 2 fd) = 2" "length (pad_num 9 (length d)) = 9" "atoi (pad_num 2 fd) = Inr (int fd)"
    "atoi (pad_num 9 (length d)) = Inr (int (length d))"
    using f by (simp_all add: pad_num_length atoi_pad)
  show ?thesis
    by (subst demux.simps) (use f n in \<open>auto simp: frame_def Let_def\<close>)
qed

lemma demux_end: "demux [] line r = Inr (line, r)"
  by (simp add: demux.simps)

text \<open>Two states that agree on the log and its messages.\<close>

definition same_log :: "relayed \<Rightarrow> relayed \<Rightarrow> bool" where
  "same_log r q \<longleftrightarrow> r_progress r = r_progress q \<and> on_fd 3 r = on_fd 3 q"

lemma on_fd_write: "on_fd fd (write_fd fd' s r) = on_fd fd r @ (if fd' = fd then s else [])"
  by (simp add: on_fd_def write_fd_def)

lemma relay_line_same:
  assumes "relay_line l q = Inr q'" "same_log r q"
  shows "\<exists>r'. relay_line l r = Inr r' \<and> same_log r' q' \<and> (\<forall>fd \<in> {1, 2}. on_fd fd r' = on_fd fd r)"
  using assms by (cases "ipc_send_progress_message (cstr l)")
    (auto simp: relay_line_def same_log_def on_fd_def write_fd_def split: option.splits)

lemma relay_bytes_same:
  "relay_bytes line s q = Inr (line', q') \<Longrightarrow> same_log r q \<Longrightarrow>
   \<exists>r'. relay_bytes line s r = Inr (line', r') \<and> same_log r' q' \<and> (\<forall>fd \<in> {1, 2}. on_fd fd r' = on_fd fd r)"
proof (induction line s q arbitrary: r rule: relay_bytes.induct)
  case (2 line c s q)
  show ?case
  proof (cases "c = CHR 0x0A \<or> length (line @ [c]) = 4095")
    case cut: True
    show ?thesis
    proof (cases "cstr (line @ [c]) = close_line")
      case False
      then obtain q1 where q1: "relay_line (line @ [c]) q = Inr q1" "relay_bytes [] s q1 = Inr (line', q')"
        using 2(3) cut by (auto simp: Let_def bindr_eq_Inr)
      obtain r1 where r1: "relay_line (line @ [c]) r = Inr r1" "same_log r1 q1" "\<forall>fd \<in> {1, 2}. on_fd fd r1 = on_fd fd r"
        using relay_line_same [OF q1(1) 2(4)] by blast
      obtain r' where "relay_bytes [] s r1 = Inr (line', r')" "same_log r' q'" "\<forall>fd \<in> {1, 2}. on_fd fd r' = on_fd fd r1"
        using 2(1) [OF refl cut False q1(1,2) r1(2)] by blast
      then show ?thesis using r1 cut False by (intro exI [of _ r']) (simp add: Let_def)
    qed (use 2 cut in \<open>auto simp: Let_def\<close>)
  next
    case False
    then show ?thesis using 2(2) [OF refl False _ 2(4)] 2(3) by (simp add: Let_def)
  qed
qed auto

lemma sent_Cons: "sent n ((fd, d) # fs) = (if fd = n then d else []) @ sent n fs"
  by (simp add: sent_def)

lemma mux_Cons: "mux (f # fs) = frame f @ mux fs"
  by (simp add: mux_def)

lemma demux_mux:
  "list_all frame_ok fs \<Longrightarrow> no_close line (sent 3 fs) \<Longrightarrow> relay_bytes line (sent 3 fs) q = Inr (line', q') \<Longrightarrow> same_log r q \<Longrightarrow>
   \<exists>r'. demux (mux fs) line r = Inr (line', r') \<and> same_log r' q' \<and>
     (\<forall>fd \<in> {1, 2}. on_fd (int fd) r' = on_fd (int fd) r @ sent fd fs)"
proof (induction fs arbitrary: line q r)
  case Nil
  then show ?case by (simp add: mux_def demux_end sent_def)
next
  case (Cons f fs)
  obtain fd d where f: "f = (fd, d)" by (cases f)
  have ok: "frame_ok (fd, d)" "fd \<in> {1, 2, 3}" using Cons.prems(1) by (auto simp: f frame_ok_def)
  show ?case
  proof (cases "fd = 3")
    case True
    have nc: "no_close line (d @ sent 3 fs)" using Cons.prems(2) by (simp add: f sent_Cons True)
    note split = no_close_append [OF nc]
    have "bindr (relay_bytes line d q) (\<lambda>(l1, q1). relay_bytes l1 (sent 3 fs) q1) = Inr (line', q')"
      using Cons.prems(3) relay_bytes_append [of line d "sent 3 fs" q] split by (simp add: f sent_Cons True)
    then obtain l1 q1 where q1: "relay_bytes line d q = Inr (l1, q1)" "relay_bytes l1 (sent 3 fs) q1 = Inr (line', q')"
      by (auto simp: bindr_eq_Inr)
    obtain r1 where r1: "relay_bytes line d r = Inr (l1, r1)" "same_log r1 q1" "\<forall>fd \<in> {1, 2}. on_fd fd r1 = on_fd fd r"
      using relay_bytes_same [OF q1(1) Cons.prems(4)] by blast
    have "no_close l1 (sent 3 fs)" using split q1(1) by blast
    then obtain r' where "demux (mux fs) l1 r1 = Inr (line', r')" "same_log r' q'"
      "\<forall>fd \<in> {1, 2}. on_fd (int fd) r' = on_fd (int fd) r1 @ sent fd fs"
      using Cons.IH [OF _ _ q1(2) r1(2)] Cons.prems(1) by auto
    then show ?thesis using r1 ok by (intro exI [of _ r']) (auto simp: mux_Cons demux_frame True f sent_Cons)
  next
    case False
    have "same_log (write_fd (int fd) d r) q" using Cons.prems(4) False ok(2) by (auto simp: same_log_def on_fd_write) (simp_all add: write_fd_def)
    then obtain r' where "demux (mux fs) line (write_fd (int fd) d r) = Inr (line', r')" "same_log r' q'"
      "\<forall>fd' \<in> {1, 2}. on_fd (int fd') r' = on_fd (int fd') (write_fd (int fd) d r) @ sent fd' fs"
      using Cons.IH [of line q "write_fd (int fd) d r"] Cons.prems False by (auto simp: f sent_Cons)
    then show ?thesis using ok False by (intro exI [of _ r']) (auto simp: mux_Cons demux_frame f sent_Cons on_fd_write)
  qed
qed

definition nothing_relayed :: relayed where
  "nothing_relayed = \<lparr>r_progress = [], r_written = []\<rparr>"

text \<open>C22: However the agent cuts the outputs of a task into frames and interleaves them, the monitor writes exactly
  its standard output and its standard error, and relays of its log the same progress messages and the same text as
  if the task ran locally: for a log of complete lines, without NUL and without the closing line.\<close>
theorem agent_relays_like_local:
  assumes "list_all frame_ok fs" "lines_ok (sent 3 fs)" "relay_local (fgets_all (sent 3 fs)) nothing_relayed = Inr q"
  shows "\<exists>r. demux (mux fs) [] nothing_relayed = Inr ([], r) \<and> on_fd 1 r = sent 1 fs \<and> on_fd 2 r = sent 2 fs \<and>
    r_progress r = r_progress q \<and> on_fd 3 r = on_fd 3 q"
proof -
  have "no_close [] (sent 3 fs)" "relay_bytes [] (sent 3 fs) nothing_relayed = Inr ([], q)"
    using relay_lines [of "sent 3 fs" nothing_relayed] assms(2,3) by (auto simp: lines_ok_def)
  moreover have "same_log nothing_relayed nothing_relayed" by (simp add: same_log_def)
  ultimately obtain r' where "demux (mux fs) [] nothing_relayed = Inr ([], r')" "same_log r' q"
    "\<forall>fd \<in> {1, 2}. on_fd (int fd) r' = on_fd (int fd) nothing_relayed @ sent fd fs"
    using demux_mux [OF assms(1)] by blast
  moreover have "on_fd fd nothing_relayed = []" for fd by (simp add: on_fd_def nothing_relayed_def)
  ultimately show ?thesis by (auto simp: same_log_def)
qed

lemma agent_relays_like_local_witness:
  "\<exists>r. demux (mux [(1, ''out''), (3, ''%5''), (2, ''err''), (3, ''0'' @ [CHR 0x0A])]) [] nothing_relayed = Inr ([], r) \<and>
     on_fd 1 r = ''out'' \<and> on_fd 2 r = ''err'' \<and> r_progress r = [50] \<and> on_fd 3 r = []"
proof -
  let ?fs = "[(1, ''out''), (3, ''%5''), (2, ''err''), (3, ''0'' @ [CHR 0x0A])] :: (nat \<times> string) list"
  have f: "fgets_all (sent 3 ?fs) = [sent 3 ?fs]" by (simp add: sent_def fgets_all.simps Let_def)
  have n: "atoi (''50'' @ [CHR 0x0A]) = Inr 50"
    by (simp add: atoi_def strtol10_def isspace_def isdigit_def byte_def digits_val_def digit_val_def int_range_def)
  have "relay_local (fgets_all (sent 3 ?fs)) nothing_relayed = Inr \<lparr>r_progress = [50], r_written = []\<rparr>"
    using n by (subst f) (simp add: sent_def close_line_def relay_line_def ipc_send_progress_message_def cstr_def nothing_relayed_def)
  moreover have "lines_ok (sent 3 ?fs)" unfolding lines_ok_def by (subst f) (simp add: sent_def close_line_def)
  moreover have "list_all frame_ok ?fs" by (simp add: frame_ok_def)
  ultimately show ?thesis using agent_relays_like_local [of ?fs] by (auto simp: sent_def on_fd_def)
qed

text \<open>Through the agent the end of a log without line break is lost; locally it is relayed.\<close>

lemma last_line_lost:
  "demux (mux [(3, ''end'')]) [] nothing_relayed = Inr (''end'', nothing_relayed)"
  "relay_local (fgets_all ''end'') nothing_relayed = Inr (write_fd 3 ''end'' nothing_relayed)"
proof -
  have "relay_bytes [] ''end'' nothing_relayed = Inr (''end'', nothing_relayed)" by simp
  then show "demux (mux [(3, ''end'')]) [] nothing_relayed = Inr (''end'', nothing_relayed)"
    using demux_frame [of 3 "''end''" "[]"] by (simp add: mux_def frame_ok_def demux_end)
  show "relay_local (fgets_all ''end'') nothing_relayed = Inr (write_fd 3 ''end'' nothing_relayed)"
    by (simp add: fgets_all.simps Let_def close_line_def relay_line_def ipc_send_progress_message_def cstr_def)
qed

text \<open>A negative length passes the test of the length: an agent whose read failed sends one.\<close>

lemma negative_length: "demux (''01-00000001'' @ s) line r = Inl (UB ''read past buf'')"
  by (subst demux.simps) (simp add: atoi_def strtol10_def isspace_def isdigit_def byte_def digits_val_def digit_val_def int_range_def Let_def)

section \<open>The task on the other host\<close>

text \<open>What a POSIX shell takes from a text that begins with a quote: the characters up to the next quote, as they are.\<close>

definition sh_quoted :: "string \<Rightarrow> (string \<times> string) option" where
  "sh_quoted s = (case s of
     c # r \<Rightarrow> (if c = CHR 0x27 \<and> CHR 0x27 \<in> set r
        then Some (takeWhile (\<lambda>c. c \<noteq> CHR 0x27) r, tl (dropWhile (\<lambda>c. c \<noteq> CHR 0x27) r)) else None)
   | [] \<Rightarrow> None)"

lemma escape_plain: "CHR 0x27 \<notin> set v \<Longrightarrow> shell_escape v = [CHR 0x27] @ v @ [CHR 0x27]"
  by (induction v) (auto simp: shell_escape_def)

text \<open>An argument of a remote task reaches the shell of the other host as one quoted word with its value exactly
  when it has no single quote: the escape of a quote inside quotes is no escape for a shell.\<close>
theorem escape_exactly: "sh_quoted (shell_escape v @ rest) = Some (v, rest) \<longleftrightarrow> CHR 0x27 \<notin> set v"
proof (cases "CHR 0x27 \<in> set v")
  case True
  then obtain a b where v: "v = a @ CHR 0x27 # b" "CHR 0x27 \<notin> set a" by (meson split_list_first)
  have "shell_escape v = [CHR 0x27] @ a @ [CHR 0x5C, CHR 0x27] @ tl (shell_escape b)"
    using escape_plain [OF v(2)] by (simp add: v(1) shell_escape_def)
  then have "fst (the (sh_quoted (shell_escape v @ rest))) = a @ [CHR 0x5C]"
    using v(2) by (auto simp: sh_quoted_def takeWhile_append)
  moreover have "a @ [CHR 0x5C] \<noteq> v" by (simp add: v(1))
  ultimately show ?thesis using True by auto
next
  case False
  then show ?thesis using escape_plain [OF False] by (auto simp: sh_quoted_def takeWhile_append dropWhile_append)
qed

lemma add_arguments:
  "p_args (foldl (\<lambda>p a. AddArgument a e p) p as) = p_args p @ map (\<lambda>a. if e then shell_escape a else a) as"
  "p_stdin (foldl (\<lambda>p a. AddArgument a e p) p as) = p_stdin p" "p_path (foldl (\<lambda>p a. AddArgument a e p) p as) = p_path p"
  "p_fd_rdr (foldl (\<lambda>p a. AddArgument a e p) p as) = p_fd_rdr p" "p_parent_rdr (foldl (\<lambda>p a. AddArgument a e p) p as) = p_parent_rdr p"
  by (induction as arbitrary: p) (simp_all add: AddArgument_def)

lemmas proc_defs = SetPath_def AddArgument_def PipeMap_def PipeString_def pipe_in_def Pipe_def FDRedirect_def ParentRedirect_def
  ProcessExec_new_def

lemma agent_stdin:
  assumes "prepare_run creates enters self conf l = Inr m" "m_agent m" "Get (l_config l) ''monitor.task.type'' = Inr ty"
  shows "\<exists>c pre. agent_config conf l ty = Inr c \<and> p_args (m_proc m) = pre @ [l_filename l] @ map shell_escape (l_args l) \<and>
    p_stdin (m_proc m) = Some (Serialize_map c @ Serialize_map (l_env l) @
      (if ty = ''SCRIPT'' then Serialize_string (l_script l) else []) @ l_stdin l)"
proof -
  obtain merge m0 where m0: "prepare_how creates enters self conf l = Inr m0" "m = m0\<lparr>m_proc := foldl (\<lambda>p a. AddArgument a (m_remote m0) p)
      (if merge = ''yes'' then FDRedirect 2 0 (m_proc m0) else m_proc m0) (l_args l)\<rparr>"
    using assms(1) unfolding prepare_run_def bindr_eq_Inr Let_def by blast
  then obtain p where p: "prepare_ssh conf l ty = Inr (p, True)" "m_proc m0 = p" "m_remote m0"
    using assms(2,3) by (auto simp: prepare_how_def bindr_eq_Inr split: if_splits)
  obtain ssh key user host wd p5 where p5: "prepare_agent conf l ty (ssh_command ssh key user host wd) = Inr p5"
    "p = Pipe (l_stdin l) (AddArgument (l_filename l) False p5)"
    using p(1) by (auto simp: prepare_ssh_def bindr_eq_Inr split: if_splits)
  have p4: "p_stdin (ssh_command ssh key user host wd) = None" by (simp add: ssh_command_def proc_defs Let_def)
  obtain c where c: "agent_config conf l ty = Inr c"
    "p_stdin p5 = Some (Serialize_map c @ Serialize_map (l_env l) @ (if ty = ''SCRIPT'' then Serialize_string (l_script l) else []))"
    using p5(1) p4 by (auto simp: prepare_agent_def bindr_eq_Inr proc_defs)
  have "p_args p = p_args p5 @ [l_filename l]" by (simp add: p5(2) proc_defs)
  moreover have "p_stdin p = Some (the (p_stdin p5) @ l_stdin l)" by (simp add: p5(2) proc_defs c(2))
  moreover have "p_args (FDRedirect 2 0 p) = p_args p" "p_stdin (FDRedirect 2 0 p) = p_stdin p" by (simp_all add: FDRedirect_def)
  ultimately show ?thesis using c p(2,3) by (simp add: m0(2) add_arguments)
qed

lemma agent_config_type:
  assumes "agent_config conf l ty = Inr c" "smap_inv (l_config l)"
  shows "Get c ''monitor.task.type'' = Get (l_config l) ''monitor.task.type''"
  using assms by (auto simp: agent_config_def bindr_eq_Inr Get_def smap_find_put smap_inv_put split: if_splits)


definition agent_settings :: entries where
  "agent_settings = [(''processmanager.agent.path'', ''/a''), (''processmanager.monitor.ssh_key'', []), (''processmanager.monitor.ssh_path'', ''/ssh''),
     (''processmanager.scripts.delete'', ''yes''), (''processmanager.scripts.directory'', ''/t'')]"

definition remote_script :: monitored where
  "remote_script = \<lparr>m_proc = \<lparr>p_path = ''/ssh'', p_args = [''h'', ''/a'', ''/s''],
     p_stdin = Some (Serialize_map (smap_put (smap_put (l_config script_launch) ''processmanager.scripts.delete'' ''yes'')
       ''processmanager.scripts.directory'' ''/t'') @ Serialize_map (l_env script_launch) @ Serialize_string ''echo $A''),
     p_fd_rdr = [], p_parent_rdr = {1}\<rparr>, m_env = [], m_file = None, m_chdir = None, m_remote = True, m_agent = True\<rparr>"

lemma remote_script_prepared: "prepare_run creates enters self agent_settings script_launch = Inr remote_script"
  by (simp add: prepare_run_def prepare_how_def prepare_ssh_def prepare_agent_def agent_config_def agent_settings_def Get_def GetBool_def
      remote_script_def script_launch_def ssh_command_def proc_defs Let_def)


section \<open>What the redirections and the clean-up do\<close>

text \<open>A local task whose errors are to be merged gets its input as standard error, not its output.\<close>

lemma merged_errors_go_to_input:
  assumes "prepare_run creates enters self conf l = Inr m" "\<not> m_remote m" "Get (l_config l) ''monitor.merge_stderr'' = Inr ''yes''"
    "Get (l_config l) ''monitor.task.type'' = Inr ''BINARY''"
  shows "child_fds (m_proc m) 2 = child_fds (m_proc m) 0 \<and> child_fds (m_proc m) 1 = Inherited 1"
proof -
  obtain m0 where m0: "prepare_how creates enters self conf l = Inr m0"
    "m = m0\<lparr>m_proc := foldl (\<lambda>p a. AddArgument a (m_remote m0) p) (FDRedirect 2 0 (m_proc m0)) (l_args l)\<rparr>"
    using assms(1,3) by (auto simp: prepare_run_def bindr_eq_Inr)
  then have "m_proc m0 = Pipe (l_stdin l) (ParentRedirect 3 (SetPath (l_filename l) ProcessExec_new))"
    using assms(2,4) by (auto simp: prepare_how_def prepare_local_def bindr_eq_Inr split: if_splits)
  then show ?thesis by (simp add: m0(2) child_fds_def add_arguments Let_def FDRedirect_def ParentRedirect_def Pipe_def pipe_in_def SetPath_def
      ProcessExec_new_def)
qed

text \<open>For a script that runs on another host the file that is removed is the ssh client.\<close>

lemma ssh_client_removed: "removed_file agent_settings script_launch (m_proc remote_script) = Inr (Some ''/ssh'')"
  by (simp add: removed_file_def Get_def GetBool_def agent_settings_def script_launch_def remote_script_def)

text \<open>Exit codes from 128 on are recorded as negative numbers; 255 and a kill are the same.\<close>

lemma exit_codes: "s < 256 \<Longrightarrow> exit_retcode (Some s) = (if s < 128 then int s else int s - 256)"
  using int_word_sint [where 'a = 8, of "int s"] mod_add_self2 [of "int s - 128" 256]
  by (cases "s < 128") (simp_all add: exit_retcode_def add.commute)

end
