(* ===== verification/TaskOutput.thy ===== *)
theory TaskOutput
  imports MonitorRun
begin

text \<open>
  What the engine does with the messages of the monitors: the rest of src/Process/ProcessManager.cpp. The
  message queue, the files of the logs and the registers of tasks are arguments.
\<close>

section \<open>Reading the outputs\<close>

definition iscntrl :: "char \<Rightarrow> bool" where
  "iscntrl c \<longleftrightarrow> byte c < 32 \<or> byte c = 127"

definition clean_char :: "char \<Rightarrow> char" where
  "clean_char c = (if c \<noteq> CHR 0x0D \<and> c \<noteq> CHR 0x0A \<and> c \<noteq> CHR 0x09 \<and> iscntrl c then CHR ''?'' else c)"

definition log_filename :: "string \<Rightarrow> int \<Rightarrow> int \<Rightarrow> string" where
  "log_filename logs_directory tid log_fileno =
     logs_directory @ ''/'' @ to_string tid @ (if log_fileno = 1 then ''.stdout'' else if log_fileno = 2 then ''.stderr'' else ''.log'')"

text \<open>
  The content of the file and the size to read: a file that is too long is cut and marked. It cannot be cut to a
  negative size, and is then marked only; the size is computed all the same.
\<close>

definition truncated_mark :: string where
  "truncated_mark = ''...TRUNCATED...''"

definition truncate_log :: "int \<Rightarrow> string \<Rightarrow> (string \<times> int) res" where
  "truncate_log log_maxsize s =
     (if int (length s) > log_maxsize
      then bindr (int_ck (log_maxsize + 15)) (\<lambda>n. Inr ((if log_maxsize \<ge> 0 then take (nat log_maxsize) s else s) @ truncated_mark, n))
      else Inr (s, int (length s)))"

definition read_log_file :: "int \<Rightarrow> string option \<Rightarrow> string option res" where
  "read_log_file log_maxsize file = (case file of
     None \<Rightarrow> Inr None
   | Some s \<Rightarrow> bindr (truncate_log log_maxsize s) (\<lambda>(t, log_size).
       if log_size < -1 then Inl (StdExn ''bad_array_new_length'')
       else if log_size < 0 then Inl (UB ''write past output'')
       else Inr (Some (map clean_char (take (nat log_size) t)))))"

text \<open>The seek from the end fails when the file is shorter; the position is then the start. The result ends at a NUL.\<close>

definition tail_log_file :: "int \<Rightarrow> string option \<Rightarrow> string res" where
  "tail_log_file tailsize file = (case file of
     None \<Rightarrow> Inl (Exn ''ProcessManager'' ''Error opening log file'' [])
   | Some s \<Rightarrow>
       if tailsize < 0 then Inl (UB ''negative array size'')
       else Inr (cstr (if int (length s) < tailsize then s else drop (length s - nat tailsize) s)))"

definition log_fileno_of :: "string \<Rightarrow> int res" where
  "log_fileno_of type_str =
     (if type_str = ''stdout'' then Inr 1 else if type_str = ''stderr'' then Inr 2 else if type_str = ''log'' then Inr 3
      else Inl (Exn ''ProcessManager'' (''Unknown log type : '' @ type_str) []))"

section \<open>The gatherer\<close>

text \<open>A message of a monitor: type 1 is the end of a task, 2 the end of a notification, 3 progress.\<close>

record st_msgbuf =
  msg_type :: int
  msg_pid :: int
  msg_tid :: int
  msg_retcode :: int

definition exit_message :: "int \<Rightarrow> int \<Rightarrow> nat option \<Rightarrow> st_msgbuf" where
  "exit_message pid tid ended = \<lparr>msg_type = 1, msg_pid = pid, msg_tid = tid, msg_retcode = exit_retcode ended\<rparr>"

definition progress_message :: "int \<Rightarrow> int \<Rightarrow> int \<Rightarrow> st_msgbuf" where
  "progress_message pid tid prct = \<lparr>msg_type = 3, msg_pid = pid, msg_tid = tid, msg_retcode = prct\<rparr>"

definition shutdown_message :: st_msgbuf where
  "shutdown_message = \<lparr>msg_type = 1, msg_pid = 0, msg_tid = 0, msg_retcode = 0\<rparr>"

text \<open>
  What the gatherer does with a message: leave, nothing, update the progress of a task, end a task with a result
  and its outputs, or end a notification. \<open>known\<close> says whether the pool has the task.
\<close>

datatype gather_action =
    GExit | GNothing | GProgress int int | GStop int int string "string option" "string option" | GNotification int int int

definition no_output :: string where
  "no_output = ''[ ProcessManager ] Could not read task log, setting retcode to -1 to block subjobs''"

definition gather :: "bool \<Rightarrow> (int \<Rightarrow> bool) \<Rightarrow> int \<Rightarrow> (string \<Rightarrow> string option) \<Rightarrow> string \<Rightarrow> st_msgbuf \<Rightarrow> gather_action res" where
  "gather is_shutting_down known log_maxsize files dir m =
     (if msg_pid m = 0 then Inr (if is_shutting_down then GExit else GNothing)
      else if msg_type m = 3 then Inr (if known (msg_tid m) then GProgress (msg_tid m) (msg_retcode m) else GNothing)
      else if msg_type m = 1 then
        bindr (read_log_file log_maxsize (files (log_filename dir (msg_tid m) 1))) (\<lambda>out.
        bindr (read_log_file log_maxsize (files (log_filename dir (msg_tid m) 2))) (\<lambda>err.
        bindr (read_log_file log_maxsize (files (log_filename dir (msg_tid m) 3))) (\<lambda>log.
          Inr (if \<not> known (msg_tid m) then GNothing
               else case out of
                 Some o1 \<Rightarrow> GStop (msg_tid m) (msg_retcode m) o1 err log
               | None \<Rightarrow> GStop (msg_tid m) (-1) no_output err log))))
      else if msg_type m = 2 then Inr (GNotification (msg_pid m) (msg_tid m) (msg_retcode m))
      else Inr GNothing)"

section \<open>What is recorded\<close>

lemma clean_ok: "clean_char c \<in> {CHR 0x0D, CHR 0x0A, CHR 0x09} \<or> \<not> iscntrl (clean_char c)"
  by (simp add: clean_char_def iscntrl_def byte_def)

lemma read_log:
  assumes "0 \<le> log_maxsize" "log_maxsize + 15 < 2 ^ 31"
  shows "read_log_file log_maxsize (Some s) =
    Inr (Some (if int (length s) > log_maxsize then map clean_char (take (nat log_maxsize) s) @ truncated_mark else map clean_char s))"
proof -
  have "map clean_char truncated_mark = truncated_mark" "length truncated_mark = 15"
    by (simp_all add: truncated_mark_def clean_char_def iscntrl_def byte_def)
  moreover have "int_ck (log_maxsize + 15) = Inr (log_maxsize + 15)" using assms by (simp add: int_ck_def int_range_def)
  ultimately show ?thesis using assms by (auto simp: read_log_file_def truncate_log_def nat_add_distrib)
qed



text \<open>With the size that a setting of 2 GB gives, the gatherer ends with an exception of the library.\<close>

lemma huge_size_stops_gatherer:
  assumes "\<And>n. files (log_filename dir tid n) = Some s" "pid \<noteq> 0" "GetSize conf ''datastore.db.maxsize'' = Inr n" "n = - (2 ^ 31)"
  shows "gather b known n files dir (exit_message pid tid ended) = Inl (StdExn ''bad_array_new_length'')"
  using assms by (simp add: gather_def exit_message_def read_log_file_def truncate_log_def int_ck_def int_range_def)

end
