(* ===== verification/Access.thy ===== *)
theory Access
  imports StdMap "HOL-Library.Product_Lexorder"
begin

text \<open>
  Users and their rights: src/User/User.cpp, src/User/Users.cpp and include/API/APIObjectList.h, over the
  tables t_user, t_user_right and t_user_module. The tables are maps from their keys; \<open>same_login\<close>, the collation
  of the column of names, and the digest of passwords are arguments. Queries are their root attributes. The
  engine's log of actions and the notification of the cluster are left out.
\<close>

section \<open>Users\<close>

record user_right =
  edit :: bool
  read :: bool
  exec :: bool
  kill :: bool

type_synonym module_object = "string \<times> string \<times> nat"

record user =
  user_id :: nat
  user_name :: string
  user_password :: string
  user_profile :: string
  user_preferences :: string
  user_rights :: "(nat, user_right) smap"
  module_rights :: "(module_object, int) smap"

text \<open>\<open>User::anonymous\<close>: its id is never set; no user has 0.\<close>

definition anonymous :: user where
  "anonymous = \<lparr>user_id = 0, user_name = ''anonymous'', user_password = [], user_profile = ''ADMIN'', user_preferences = [],
     user_rights = [], module_rights = []\<rparr>"

definition IsAdmin :: "user \<Rightarrow> bool" where
  "IsAdmin u \<longleftrightarrow> user_profile u = ''ADMIN''"

definition HasAccessToWorkflow :: "user \<Rightarrow> nat \<Rightarrow> string \<Rightarrow> bool" where
  "HasAccessToWorkflow u workflow_id access_type =
     (if IsAdmin u then True
      else case smap_find (user_rights u) workflow_id of
        None \<Rightarrow> False
      | Some r \<Rightarrow> (access_type = ''edit'' \<and> edit r) \<or> (access_type = ''read'' \<and> read r) \<or>
          (access_type = ''exec'' \<and> exec r) \<or> (access_type = ''kill'' \<and> kill r))"

definition HasAccessToModule :: "user \<Rightarrow> string \<Rightarrow> string \<Rightarrow> nat \<Rightarrow> bool" where
  "HasAccessToModule u module_name type object_id =
     (if IsAdmin u then True
      else case smap_find (module_rights u) (module_name, type, object_id) of None \<Rightarrow> False | Some r \<Rightarrow> r \<noteq> 0)"

definition GetReadAccessWorkflows :: "user \<Rightarrow> nat list" where
  "GetReadAccessWorkflows u = map fst (filter (\<lambda>(w, r). read r) (user_rights u))"

definition CheckUserName :: "string \<Rightarrow> bool" where
  "CheckUserName name \<longleftrightarrow> name \<noteq> [] \<and> length name \<le> 32 \<and>
     list_all (\<lambda>c. isalnum c \<or> c = CHR ''_'' \<or> c = CHR ''-'') name"

section \<open>Tables\<close>

record user_row =
  r_login :: string
  r_password :: string
  r_profile :: string
  r_preferences :: string

record user_db =
  t_user :: "(nat, user_row) smap"
  t_user_right :: "(nat \<times> nat, user_right) smap"
  t_user_module :: "(nat \<times> string \<times> string \<times> nat, int) smap"
  auto_increment :: nat

definition User_new :: "user_db \<Rightarrow> nat \<Rightarrow> user res" where
  "User_new db uid = (case smap_find (t_user db) uid of
     None \<Rightarrow> Inl (Exn ''User'' ''Unknown User'' [])
   | Some r \<Rightarrow> Inr \<lparr>user_id = uid, user_name = r_login r, user_password = r_password r, user_profile = r_profile r,
       user_preferences = r_preferences r,
       user_rights = foldl (\<lambda>m ((u, w), r). if u = uid then smap_put m w r else m) [] (t_user_right db),
       module_rights = foldl (\<lambda>m ((u, k), a). if u = uid then smap_put m k a else m) [] (t_user_module db)\<rparr>)"

section \<open>The list of users\<close>

text \<open>\<open>APIObjectList\<close>: two maps to the same objects; an object without id, or without name, is in one only.\<close>

record 'a object_list =
  objects_id :: "(nat, 'a) smap"
  objects_name :: "(string, 'a) smap"
  object_type :: string

definition list_add :: "nat \<Rightarrow> string \<Rightarrow> 'a \<Rightarrow> 'a object_list \<Rightarrow> 'a object_list" where
  "list_add uid name x l =
     l\<lparr>objects_id := (if uid \<noteq> 0 then smap_put (objects_id l) uid x else objects_id l),
       objects_name := (if name \<noteq> [] then smap_put (objects_name l) name x else objects_name l)\<rparr>"

definition list_clear :: "'a object_list \<Rightarrow> 'a object_list" where
  "list_clear l = l\<lparr>objects_id := [], objects_name := []\<rparr>"

definition Exists :: "'a object_list \<Rightarrow> nat \<Rightarrow> bool" where
  "Exists l uid \<longleftrightarrow> smap_find (objects_id l) uid \<noteq> None"

definition Exists_name :: "'a object_list \<Rightarrow> string \<Rightarrow> bool" where
  "Exists_name l name \<longleftrightarrow> smap_find (objects_name l) name \<noteq> None"

definition GetById :: "'a object_list \<Rightarrow> nat \<Rightarrow> 'a res" where
  "GetById l uid = (case smap_find (objects_id l) uid of
     None \<Rightarrow> Inl (Exn ''API'' (''Unknown '' @ object_type l @ '' ID : '' @ show_nat uid) ''UNKNOWN_OBJECT'')
   | Some x \<Rightarrow> Inr x)"

definition GetByName :: "'a object_list \<Rightarrow> string \<Rightarrow> 'a res" where
  "GetByName l name = (case smap_find (objects_name l) name of
     None \<Rightarrow> Inl (Exn ''API'' (''Unknown '' @ object_type l @ '' name : '' @ name) ''UKNOWN_OBJECT'')
   | Some x \<Rightarrow> Inr x)"

fun load_users :: "user_db \<Rightarrow> (nat \<times> user_row) list \<Rightarrow> user object_list \<Rightarrow> user object_list" where
  "load_users db [] l = l"
| "load_users db ((uid, r) # rows) l =
     (case User_new db uid of Inl e \<Rightarrow> load_users db rows l | Inr u \<Rightarrow> load_users db rows (list_add uid (r_login r) u l))"

definition Users_Reload :: "user_db \<Rightarrow> user object_list \<Rightarrow> user object_list" where
  "Users_Reload db l = load_users db (t_user db) (list_clear l)"

section \<open>Operations\<close>

text \<open>The state, the events created, and what is known of the rest of the engine.\<close>

record access =
  db :: user_db
  users :: "user object_list"
  created :: "(string \<times> nat) list"

record access_env =
  same_login :: "string \<Rightarrow> string \<Rightarrow> bool"
  digest :: "string \<Rightarrow> string"
  known_workflow :: "nat \<Rightarrow> bool"

type_synonym 'a op = "access \<Rightarrow> 'a res \<times> access"

definition yield_op :: "'a \<Rightarrow> 'a op" where
  "yield_op x s = (Inr x, s)"

definition raise :: "string \<Rightarrow> string \<Rightarrow> string \<Rightarrow> 'a op" where
  "raise c e k s = (Inl (Exn c e k), s)"

definition bind_op :: "'a op \<Rightarrow> ('a \<Rightarrow> 'b op) \<Rightarrow> 'b op" where
  "bind_op m f s = (case m s of (Inl e, s') \<Rightarrow> (Inl e, s') | (Inr x, s') \<Rightarrow> f x s')"

definition from_res :: "(access \<Rightarrow> 'a res) \<Rightarrow> 'a op" where
  "from_res f s = (f s, s)"

definition check :: "(access \<Rightarrow> bool) \<Rightarrow> string \<Rightarrow> string \<Rightarrow> string \<Rightarrow> unit op" where
  "check b c e k s = (if b s then (Inr (), s) else (Inl (Exn c e k), s))"

definition change_db :: "(user_db \<Rightarrow> user_db) \<Rightarrow> unit op" where
  "change_db f s = (Inr (), s\<lparr>db := f (db s)\<rparr>)"

definition Reload :: "unit op" where
  "Reload s = (Inr (), s\<lparr>users := Users_Reload (db s) (users s)\<rparr>)"

definition Create_event :: "string \<Rightarrow> nat \<Rightarrow> unit op" where
  "Create_event ty uid s = (Inr (), s\<lparr>created := created s @ [(ty, uid)]\<rparr>)"

definition require :: "bool \<Rightarrow> unit op" where
  "require b = check (\<lambda>_. b) ''Access Control'' ''insufficient rights'' ''INSUFFICIENT_RIGHTS''"

definition existing_user :: "nat \<Rightarrow> unit op" where
  "existing_user uid = check (\<lambda>s. Exists (users s) uid) ''User'' ''User not found'' ''UNKNOWN_USER''"

definition create_edit_check :: "string \<Rightarrow> string \<Rightarrow> unit op" where
  "create_edit_check name profile =
     bind_op (check (\<lambda>_. CheckUserName name) ''User'' ''Invalid user name'' ''INVALID_PARAMETER'') (\<lambda>_.
     check (\<lambda>_. profile = ''ADMIN'' \<or> profile = ''USER'') ''User''
       (''Invalid profile, should be '' @ [CHR 0x27] @ ''ADMIN'' @ [CHR 0x27] @ '' or '' @ [CHR 0x27] @ ''USER'' @ [CHR 0x27]) ''INVALID_PARAMETER'')"

text \<open>The names of the table are unique.\<close>

definition login_free :: "access_env \<Rightarrow> nat option \<Rightarrow> string \<Rightarrow> access \<Rightarrow> bool" where
  "login_free env uid name s \<longleftrightarrow> list_all (\<lambda>(i, r). Some i = uid \<or> \<not> same_login env (r_login r) name) (t_user (db s))"

definition sql_unique :: "access_env \<Rightarrow> nat option \<Rightarrow> string \<Rightarrow> unit op" where
  "sql_unique env uid name = check (login_free env uid name) ''DB'' ''Duplicate entry'' ''SQL_ERROR''"

definition Create :: "access_env \<Rightarrow> string \<Rightarrow> string \<Rightarrow> string \<Rightarrow> nat op" where
  "Create env name password profile =
     bind_op (create_edit_check name profile) (\<lambda>_.
     bind_op (check (\<lambda>_. password \<noteq> []) ''User'' ''Empty password'' ''INVALID_PARAMETER'') (\<lambda>_.
     bind_op (sql_unique env None name) (\<lambda>_.
     bind_op (from_res (\<lambda>s. Inr (auto_increment (db s)))) (\<lambda>uid.
     bind_op (change_db (\<lambda>d. d\<lparr>t_user := smap_put (t_user d) uid
        \<lparr>r_login = name, r_password = digest env password, r_profile = profile, r_preferences = []\<rparr>, auto_increment := uid + 1\<rparr>)) (\<lambda>_.
       yield_op uid)))))"

definition update_row :: "nat \<Rightarrow> (user_row \<Rightarrow> user_row) \<Rightarrow> unit op" where
  "update_row uid f = change_db (\<lambda>d. case smap_find (t_user d) uid of
     None \<Rightarrow> d | Some r \<Rightarrow> d\<lparr>t_user := smap_put (t_user d) uid (f r)\<rparr>)"

definition Edit :: "access_env \<Rightarrow> nat \<Rightarrow> string \<Rightarrow> string \<Rightarrow> string \<Rightarrow> unit op" where
  "Edit env uid name password profile =
     bind_op (create_edit_check name profile) (\<lambda>_.
     bind_op (existing_user uid) (\<lambda>_.
     bind_op (sql_unique env (Some uid) name) (\<lambda>_.
     bind_op (update_row uid (\<lambda>r. r\<lparr>r_login := name, r_profile := profile\<rparr>)) (\<lambda>_.
       if password \<noteq> [] then update_row uid (\<lambda>r. r\<lparr>r_password := digest env password\<rparr>) else yield_op ()))))"

definition ChangePassword :: "access_env \<Rightarrow> nat \<Rightarrow> string \<Rightarrow> unit op" where
  "ChangePassword env uid password =
     bind_op (existing_user uid) (\<lambda>_.
     bind_op (check (\<lambda>_. password \<noteq> []) ''User'' ''Invalid password'' ''INVALID_PARAMETER'') (\<lambda>_.
       update_row uid (\<lambda>r. r\<lparr>r_password := digest env password\<rparr>)))"

definition UpdatePreferences :: "nat \<Rightarrow> string \<Rightarrow> unit op" where
  "UpdatePreferences uid preferences =
     bind_op (existing_user uid) (\<lambda>_. update_row uid (\<lambda>r. r\<lparr>r_preferences := preferences\<rparr>))"

definition Delete :: "nat \<Rightarrow> unit op" where
  "Delete uid =
     bind_op (check (\<lambda>s. smap_find (t_user (db s)) uid \<noteq> None) ''User'' ''User not found'' ''UNKNOWN_USER'') (\<lambda>_.
     change_db (\<lambda>d. d\<lparr>t_user := smap_del (t_user d) uid, t_user_right := filter (\<lambda>((u, w), r). u \<noteq> uid) (t_user_right d),
       t_user_module := filter (\<lambda>((u, k), a). u \<noteq> uid) (t_user_module d)\<rparr>))"

definition ClearRights :: "nat \<Rightarrow> unit op" where
  "ClearRights uid =
     bind_op (existing_user uid) (\<lambda>_. change_db (\<lambda>d. d\<lparr>t_user_right := filter (\<lambda>((u, w), r). u \<noteq> uid) (t_user_right d)\<rparr>))"

definition GrantRight :: "access_env \<Rightarrow> nat \<Rightarrow> nat \<Rightarrow> user_right \<Rightarrow> unit op" where
  "GrantRight env uid workflow_id r =
     bind_op (existing_user uid) (\<lambda>_.
     bind_op (check (\<lambda>_. known_workflow env workflow_id) ''User'' ''Workflow not found'' ''UNKNOWN_WORKFLOW'') (\<lambda>_.
       change_db (\<lambda>d. d\<lparr>t_user_right := smap_put (t_user_right d) (uid, workflow_id) r\<rparr>)))"

definition RevokeRight :: "nat \<Rightarrow> nat \<Rightarrow> unit op" where
  "RevokeRight uid workflow_id =
     bind_op (existing_user uid) (\<lambda>_.
     bind_op (from_res (\<lambda>s. Inr (smap_find (t_user_right (db s)) (uid, workflow_id) \<noteq> None))) (\<lambda>found.
     bind_op (change_db (\<lambda>d. d\<lparr>t_user_right := smap_del (t_user_right d) (uid, workflow_id)\<rparr>)) (\<lambda>_.
       check (\<lambda>_. found) ''User'' ''No right found on that workflow'' ''ALREADY_NO_RIGHTS'')))"

definition GrantModuleRight :: "nat \<Rightarrow> module_object \<Rightarrow> unit op" where
  "GrantModuleRight uid obj =
     bind_op (existing_user uid) (\<lambda>_. change_db (\<lambda>d. d\<lparr>t_user_module := smap_put (t_user_module d) (uid, obj) 1\<rparr>))"

definition RevokeModuleRight :: "nat \<Rightarrow> module_object \<Rightarrow> unit op" where
  "RevokeModuleRight uid obj =
     bind_op (existing_user uid) (\<lambda>_.
     bind_op (from_res (\<lambda>s. Inr (smap_find (t_user_module (db s)) (uid, obj) \<noteq> None))) (\<lambda>found.
     bind_op (change_db (\<lambda>d. d\<lparr>t_user_module := smap_del (t_user_module d) (uid, obj)\<rparr>)) (\<lambda>_.
       check (\<lambda>_. found) ''User'' ''No right found on that workflow'' ''ALREADY_NO_RIGHTS'')))"

definition RevokeModuleRight_all :: "module_object \<Rightarrow> unit op" where
  "RevokeModuleRight_all obj = change_db (\<lambda>d. d\<lparr>t_user_module := filter (\<lambda>((u, k), a). k \<noteq> obj) (t_user_module d)\<rparr>)"

section \<open>Queries\<close>

text \<open>A query has a context (the server it came to), a group and root attributes.\<close>

record query =
  q_context :: string
  q_group :: string
  q_attrs :: "string \<Rightarrow> string option"

definition missing_attribute :: "query \<Rightarrow> string \<Rightarrow> 'a res" where
  "missing_attribute q name = Inl (Exn (q_context q) (''Missing '' @ [CHR 0x27] @ name @ [CHR 0x27] @ '' attribute'') ''MISSING_PARAMETER'')"

definition GetRootAttribute :: "query \<Rightarrow> string \<Rightarrow> string res" where
  "GetRootAttribute q name = (case q_attrs q name of None \<Rightarrow> missing_attribute q name | Some v \<Rightarrow> Inr v)"

definition GetRootAttribute_default :: "query \<Rightarrow> string \<Rightarrow> string \<Rightarrow> string" where
  "GetRootAttribute_default q name d = (case q_attrs q name of None \<Rightarrow> d | Some v \<Rightarrow> v)"

definition attribute_int :: "query \<Rightarrow> string \<Rightarrow> string \<Rightarrow> int res" where
  "attribute_int q name v = catch_all (bindr (stoi v) (\<lambda>(i, p). Inr i))
     (Inl (Exn (q_context q) (''Attribute '' @ [CHR 0x27] @ name @ [CHR 0x27] @ '' has invalid integer value'') ''INVALID_INTEGER''))"

definition GetRootAttributeInt :: "query \<Rightarrow> string \<Rightarrow> int res" where
  "GetRootAttributeInt q name = (case q_attrs q name of None \<Rightarrow> missing_attribute q name | Some v \<Rightarrow> attribute_int q name v)"

definition GetRootAttributeInt_default :: "query \<Rightarrow> string \<Rightarrow> int \<Rightarrow> int res" where
  "GetRootAttributeInt_default q name d = (case q_attrs q name of None \<Rightarrow> Inr d | Some v \<Rightarrow> attribute_int q name v)"

definition GetRootAttributeBool :: "query \<Rightarrow> string \<Rightarrow> bool res" where
  "GetRootAttributeBool q name = (case q_attrs q name of None \<Rightarrow> missing_attribute q name
   | Some v \<Rightarrow> if v = ''yes'' then Inr True else if v = ''no'' then Inr False
       else catch_all (bindr (stoi v) (\<lambda>(i, p). Inr (i \<noteq> 0)))
         (Inl (Exn (q_context q) (''Attribute '' @ [CHR 0x27] @ name @ [CHR 0x27] @ '' has invalid boolean value'') ''INVALID_BOOLEAN'')))"

definition GetRootAttributeBool_default :: "query \<Rightarrow> string \<Rightarrow> bool \<Rightarrow> bool res" where
  "GetRootAttributeBool_default q name d = (case q_attrs q name of None \<Rightarrow> Inr d | Some v \<Rightarrow> GetRootAttributeBool q name)"

text \<open>The conversion of an \<open>int\<close> to \<open>unsigned int\<close>.\<close>

definition to_unsigned :: "int \<Rightarrow> nat" where
  "to_unsigned i = nat (i mod 2 ^ 32)"

definition text_attr :: "query \<Rightarrow> string \<Rightarrow> string op" where
  "text_attr q name = from_res (\<lambda>s. GetRootAttribute q name)"

definition id_attr :: "query \<Rightarrow> string \<Rightarrow> nat op" where
  "id_attr q name = from_res (\<lambda>s. bindr (GetRootAttributeInt q name) (\<lambda>i. Inr (to_unsigned i)))"

definition bool_attr :: "query \<Rightarrow> string \<Rightarrow> bool op" where
  "bool_attr q name = from_res (\<lambda>s. GetRootAttributeBool q name)"

definition get_id_from_query :: "query \<Rightarrow> nat op" where
  "get_id_from_query q = from_res (\<lambda>s.
     bindr (GetRootAttributeInt_default q ''id'' 0) (\<lambda>i.
       if to_unsigned i \<noteq> 0 then Inr (to_unsigned i)
       else let name = GetRootAttribute_default q ''name'' [] in
         if name = [] then Inl (Exn ''User'' (''Missing '' @ [CHR 0x27] @ ''id'' @ [CHR 0x27] @ '' or '' @ [CHR 0x27] @ ''name'' @ [CHR 0x27] @ '' attribute'') ''MISSING_PARAMETER'')
         else bindr (GetByName (users s) name) (\<lambda>u. Inr (user_id u))))"

section \<open>Answers\<close>

text \<open>The elements of a response, with their attributes and their children; of the root only \<open>user-id\<close> is set.\<close>

type_synonym element = "string \<times> (string \<times> string) list"
type_synonym response = "(element \<times> element list) list"

definition yes_or_no :: "bool \<Rightarrow> string" where
  "yes_or_no b = (if b then ''yes'' else ''no'')"

definition right_node :: "nat \<times> user_right \<Rightarrow> element" where
  "right_node = (\<lambda>(w, r). (''right'', [(''workflow-id'', show_nat w), (''edit'', yes_or_no (edit r)), (''read'', yes_or_no (read r)),
     (''exec'', yes_or_no (exec r)), (''kill'', yes_or_no (kill r))]))"

definition Get :: "nat \<Rightarrow> response op" where
  "Get uid = bind_op (from_res (\<lambda>s. GetById (users s) uid)) (\<lambda>u. yield_op
     [((''user'', [(''id'', show_nat (user_id u)), (''name'', user_name u), (''profile'', user_profile u), (''preferences'', user_preferences u)]),
       map right_node (user_rights u))])"

definition ListRights :: "nat \<Rightarrow> response op" where
  "ListRights uid = bind_op (from_res (\<lambda>s. GetById (users s) uid)) (\<lambda>u. yield_op (map (\<lambda>r. (right_node r, [])) (user_rights u)))"

definition ListModuleRights :: "nat \<Rightarrow> string \<Rightarrow> string \<Rightarrow> response op" where
  "ListModuleRights uid module type = bind_op (from_res (\<lambda>s. GetById (users s) uid)) (\<lambda>u. yield_op
     (map (\<lambda>((m, t, i), a). ((''right'', [(''object-id'', show_nat i), (''right'', yes_or_no (a \<noteq> 0))]), []))
       (filter (\<lambda>((m, t, i), a). m = module \<and> t = type) (module_rights u))))"

section \<open>The handlers\<close>

text \<open>Whether the query was handled, and the response.\<close>

definition after :: "unit op \<Rightarrow> string \<Rightarrow> nat \<Rightarrow> (bool \<times> response) op" where
  "after m event uid = bind_op m (\<lambda>_. bind_op Reload (\<lambda>_. bind_op (Create_event event uid) (\<lambda>_. yield_op (True, []))))"

definition handle_create :: "access_env \<Rightarrow> user \<Rightarrow> query \<Rightarrow> (bool \<times> response) op" where
  "handle_create env u q =
     bind_op (text_attr q ''name'') (\<lambda>name. bind_op (text_attr q ''profile'') (\<lambda>profile.
     bind_op (require (IsAdmin u)) (\<lambda>_.
     bind_op (Create env name (GetRootAttribute_default q ''password'' []) profile) (\<lambda>uid.
     bind_op Reload (\<lambda>_. bind_op (Create_event ''USER_CREATED'' uid) (\<lambda>_. yield_op (True, [((''response'', [(''user-id'', show_nat uid)]), [])])))))))"

definition handle_edit :: "access_env \<Rightarrow> user \<Rightarrow> query \<Rightarrow> (bool \<times> response) op" where
  "handle_edit env u q =
     bind_op (text_attr q ''name'') (\<lambda>name. bind_op (text_attr q ''profile'') (\<lambda>profile.
     bind_op (require (IsAdmin u)) (\<lambda>_.
     bind_op (get_id_from_query q) (\<lambda>uid.
       after (Edit env uid name (GetRootAttribute_default q ''password'' []) profile) ''USER_MODIFIED'' uid))))"

definition handle_grant :: "access_env \<Rightarrow> user \<Rightarrow> query \<Rightarrow> (bool \<times> response) op" where
  "handle_grant env u q =
     bind_op (require (IsAdmin u)) (\<lambda>_.
     bind_op (get_id_from_query q) (\<lambda>uid. bind_op (id_attr q ''workflow_id'') (\<lambda>wid.
     bind_op (bool_attr q ''edit'') (\<lambda>e. bind_op (bool_attr q ''read'') (\<lambda>r.
     bind_op (bool_attr q ''exec'') (\<lambda>x. bind_op (bool_attr q ''kill'') (\<lambda>k.
       after (GrantRight env uid wid \<lparr>edit = e, read = r, exec = x, kill = k\<rparr>) ''USER_MODIFIED'' uid)))))))"

definition handle_get :: "user \<Rightarrow> query \<Rightarrow> (bool \<times> response) op" where
  "handle_get u q =
     bind_op (get_id_from_query q) (\<lambda>uid. bind_op (require (IsAdmin u \<or> user_id u = uid)) (\<lambda>_.
     bind_op (Get uid) (\<lambda>r. yield_op (True, r))))"

definition handle_change_password :: "access_env \<Rightarrow> user \<Rightarrow> query \<Rightarrow> (bool \<times> response) op" where
  "handle_change_password env u q =
     bind_op (get_id_from_query q) (\<lambda>uid. bind_op (text_attr q ''password'') (\<lambda>password.
     bind_op (require (IsAdmin u \<or> user_id u = uid)) (\<lambda>_. after (ChangePassword env uid password) ''USER_MODIFIED'' uid)))"

definition handle_update_preferences :: "user \<Rightarrow> query \<Rightarrow> (bool \<times> response) op" where
  "handle_update_preferences u q =
     bind_op (get_id_from_query q) (\<lambda>uid. bind_op (text_attr q ''preferences'') (\<lambda>preferences.
     bind_op (require (IsAdmin u \<or> user_id u = uid)) (\<lambda>_. after (UpdatePreferences uid preferences) ''USER_MODIFIED'' uid)))"

definition handle_delete :: "user \<Rightarrow> query \<Rightarrow> (bool \<times> response) op" where
  "handle_delete u q =
     bind_op (require (IsAdmin u)) (\<lambda>_. bind_op (get_id_from_query q) (\<lambda>uid. after (Delete uid) ''USER_REMOVED'' uid))"

definition handle_clear_rights :: "user \<Rightarrow> query \<Rightarrow> (bool \<times> response) op" where
  "handle_clear_rights u q =
     bind_op (require (IsAdmin u)) (\<lambda>_. bind_op (get_id_from_query q) (\<lambda>uid. after (ClearRights uid) ''USER_MODIFIED'' uid))"

definition handle_list_rights :: "user \<Rightarrow> query \<Rightarrow> (bool \<times> response) op" where
  "handle_list_rights u q =
     bind_op (require (IsAdmin u)) (\<lambda>_. bind_op (get_id_from_query q) (\<lambda>uid. bind_op (ListRights uid) (\<lambda>r. yield_op (True, r))))"

definition handle_list_module_rights :: "user \<Rightarrow> query \<Rightarrow> (bool \<times> response) op" where
  "handle_list_module_rights u q =
     bind_op (require (IsAdmin u)) (\<lambda>_. bind_op (get_id_from_query q) (\<lambda>uid.
     bind_op (text_attr q ''module'') (\<lambda>module. bind_op (text_attr q ''type'') (\<lambda>type.
     bind_op (ListModuleRights uid module type) (\<lambda>r. yield_op (True, r))))))"

definition handle_revoke :: "user \<Rightarrow> query \<Rightarrow> (bool \<times> response) op" where
  "handle_revoke u q =
     bind_op (require (IsAdmin u)) (\<lambda>_. bind_op (get_id_from_query q) (\<lambda>uid. bind_op (id_attr q ''workflow_id'') (\<lambda>wid.
       after (RevokeRight uid wid) ''USER_MODIFIED'' uid)))"

definition HandleQuery :: "access_env \<Rightarrow> user \<Rightarrow> query \<Rightarrow> (bool \<times> response) op" where
  "HandleQuery env u q = bind_op (text_attr q ''action'') (\<lambda>action.
     if action = ''get'' then handle_get u q
     else if action = ''create'' then handle_create env u q
     else if action = ''edit'' then handle_edit env u q
     else if action = ''change_password'' then handle_change_password env u q
     else if action = ''update_preferences'' then handle_update_preferences u q
     else if action = ''delete'' then handle_delete u q
     else if action = ''clear_rights'' then handle_clear_rights u q
     else if action = ''list_rights'' then handle_list_rights u q
     else if action = ''list_module_rights'' then handle_list_module_rights u q
     else if action = ''grant'' then handle_grant env u q
     else if action = ''revoke'' then handle_revoke u q
     else yield_op (False, []))"

definition Users_HandleQuery :: "user \<Rightarrow> query \<Rightarrow> (bool \<times> response) op" where
  "Users_HandleQuery u q =
     bind_op (require (IsAdmin u)) (\<lambda>_. bind_op (text_attr q ''action'') (\<lambda>action.
       if action = ''list'' then
         bind_op (from_res (\<lambda>s. Inr (map (\<lambda>(n, x). ((''user'', [(''id'', show_nat (user_id x)), (''name'', user_name x), (''profile'', user_profile x)]), []))
           (objects_name (users s))))) (\<lambda>r. yield_op (True, r))
       else yield_op (False, [])))"

section \<open>What an operation keeps\<close>

text \<open>
  A relation between the states before and after that holds of every step of a kind holds of the operations
  composed of them, whether they return or raise.
\<close>

locale kept_relation =
  fixes rel :: "access \<Rightarrow> access \<Rightarrow> bool"
  assumes rel_refl: "rel s s"
    and rel_trans: "rel s t \<Longrightarrow> rel t v \<Longrightarrow> rel s v"
begin

definition keeps :: "'a op \<Rightarrow> bool" where
  "keeps m \<longleftrightarrow> (\<forall>s. rel s (snd (m s)))"

lemma keeps_bind: "keeps m \<Longrightarrow> (\<And>x. keeps (f x)) \<Longrightarrow> keeps (bind_op m f)"
  unfolding keeps_def
proof (intro allI)
  fix s assume m: "\<forall>s. rel s (snd (m s))" and f: "\<And>x. \<forall>s. rel s (snd (f x s))"
  obtain r t where r: "m s = (r, t)" by (cases "m s")
  then have "rel s t" using m by (metis snd_conv)
  then show "rel s (snd (bind_op m f s))" using f rel_trans by (cases r) (auto simp: bind_op_def r)
qed

lemma keeps_pure:
  "keeps (yield_op x)" "keeps (from_res g)" "keeps (check b c e k)" "keeps (text_attr q n)" "keeps (id_attr q n)" "keeps (bool_attr q n)"
  "keeps (get_id_from_query q)" "keeps (require d)" "keeps (existing_user i)" "keeps (sql_unique env j n)" "keeps (create_edit_check n p)"
  "keeps (Get i)" "keeps (ListRights i)" "keeps (ListModuleRights i n p)"
proof -
  have p: "keeps (yield_op x)" "keeps (from_res g)" "keeps (check b c e k)"
    for x :: 'z and g :: "access \<Rightarrow> 'y res" and b c e k
    by (simp_all add: keeps_def yield_op_def from_res_def check_def rel_refl)
  show "keeps (yield_op x)" "keeps (from_res g)" "keeps (check b c e k)" "keeps (text_attr q n)" "keeps (id_attr q n)" "keeps (bool_attr q n)"
    "keeps (get_id_from_query q)" "keeps (require d)" "keeps (existing_user i)" "keeps (sql_unique env j n)"
    by (simp_all add: p text_attr_def id_attr_def bool_attr_def get_id_from_query_def require_def existing_user_def sql_unique_def)
  show "keeps (create_edit_check n p)" "keeps (Get i)" "keeps (ListRights i)" "keeps (ListModuleRights i n p)"
    unfolding create_edit_check_def Get_def ListRights_def ListModuleRights_def by (intro keeps_bind p)+
qed

lemma keeps_branch: "(b \<Longrightarrow> keeps m) \<Longrightarrow> (\<not> b \<Longrightarrow> keeps n) \<Longrightarrow> keeps (if b then m else n)"
  by simp

lemma keeps_denied: "\<not> b \<Longrightarrow> keeps (bind_op (require b) f)"
  by (simp add: keeps_def bind_op_def require_def check_def rel_refl)

lemma keeps_allowed: "(b \<Longrightarrow> keeps m) \<Longrightarrow> keeps (bind_op (require b) (\<lambda>_. m))"
  by (cases b) (simp_all add: keeps_denied keeps_bind keeps_pure)

text \<open>The handlers keep the relation when the operations they end with do, for the users who may call them.\<close>

lemma keeps_query:
  assumes own: "\<And>i p. IsAdmin u \<or> user_id u = i \<Longrightarrow> keeps (after (ChangePassword env i p) ''USER_MODIFIED'' i)"
      "\<And>i p. IsAdmin u \<or> user_id u = i \<Longrightarrow> keeps (after (UpdatePreferences i p) ''USER_MODIFIED'' i)"
    and admin: "IsAdmin u \<Longrightarrow> keeps (handle_create env u q)" "IsAdmin u \<Longrightarrow> keeps (handle_edit env u q)"
      "\<And>i. IsAdmin u \<Longrightarrow> keeps (after (Delete i) ''USER_REMOVED'' i)" "\<And>i. IsAdmin u \<Longrightarrow> keeps (after (ClearRights i) ''USER_MODIFIED'' i)"
      "\<And>i w r. IsAdmin u \<Longrightarrow> keeps (after (GrantRight env i w r) ''USER_MODIFIED'' i)"
      "\<And>i w. IsAdmin u \<Longrightarrow> keeps (after (RevokeRight i w) ''USER_MODIFIED'' i)"
  shows "keeps (HandleQuery env u q)"
proof -
  have "keeps (handle_get u q)"
    unfolding handle_get_def by (intro keeps_bind keeps_pure)
  moreover have "keeps (handle_create env u q)"
    by (cases "IsAdmin u") (use admin(1) in \<open>simp_all add: handle_create_def keeps_bind keeps_pure keeps_denied\<close>)
  moreover have "keeps (handle_edit env u q)"
    by (cases "IsAdmin u") (use admin(2) in \<open>simp_all add: handle_edit_def keeps_bind keeps_pure keeps_denied\<close>)
  moreover have "keeps (handle_change_password env u q)" "keeps (handle_update_preferences u q)"
    unfolding handle_change_password_def handle_update_preferences_def using own
    by (auto intro!: keeps_bind [OF keeps_pure(7)] keeps_bind [OF keeps_pure(4)] keeps_allowed)
  moreover have "keeps (handle_delete u q)" "keeps (handle_clear_rights u q)" "keeps (handle_revoke u q)" "keeps (handle_grant env u q)"
    unfolding handle_delete_def handle_clear_rights_def handle_revoke_def handle_grant_def
    using admin(3-) by (auto intro!: keeps_allowed keeps_bind [OF keeps_pure(7)] keeps_bind [OF keeps_pure(5)] keeps_bind [OF keeps_pure(6)])
  moreover have "keeps (handle_list_rights u q)" "keeps (handle_list_module_rights u q)"
    unfolding handle_list_rights_def handle_list_module_rights_def by (intro keeps_bind keeps_pure)+
  moreover have "keeps (yield_op (False, [] :: response))" by (rule keeps_pure)
  ultimately show ?thesis unfolding HandleQuery_def by (intro keeps_bind keeps_pure(4)) simp
qed

end

section \<open>Users change nothing but themselves\<close>

definition only_self :: "nat \<Rightarrow> access \<Rightarrow> access \<Rightarrow> bool" where
  "only_self me s t \<longleftrightarrow> (smap_inv (t_user (db s)) \<longrightarrow> smap_inv (t_user (db t)) \<and>
     t_user_right (db t) = t_user_right (db s) \<and> t_user_module (db t) = t_user_module (db s) \<and>
     (\<forall>i. i \<noteq> me \<longrightarrow> smap_find (t_user (db t)) i = smap_find (t_user (db s)) i) \<and>
     (\<forall>i. map_option (\<lambda>r. (r_login r, r_profile r)) (smap_find (t_user (db t)) i) =
          map_option (\<lambda>r. (r_login r, r_profile r)) (smap_find (t_user (db s)) i)))"

interpretation self: kept_relation "only_self me" for me
  by unfold_locales (auto simp: only_self_def)

lemma self_update:
  "(\<And>r. r_login (f r) = r_login r \<and> r_profile (f r) = r_profile r) \<Longrightarrow> self.keeps me (update_row me f)"
  by (auto simp: self.keeps_def only_self_def update_row_def change_db_def smap_inv_put smap_find_put split: option.splits)

lemma self_steps: "self.keeps me Reload" "self.keeps me (Create_event e i)"
  by (simp_all add: self.keeps_def only_self_def Reload_def Create_event_def)

lemma self_after: "self.keeps me m \<Longrightarrow> self.keeps me (after m e i)"
  unfolding after_def by (intro self.keeps_bind self.keeps_pure self_steps)

lemma self_change: "i = me \<Longrightarrow> self.keeps me (ChangePassword env i p)" "i = me \<Longrightarrow> self.keeps me (UpdatePreferences i p)"
  unfolding ChangePassword_def UpdatePreferences_def by (auto intro!: self.keeps_bind self.keeps_pure self_update)

lemma self_query:
  assumes "\<not> IsAdmin u" shows "self.keeps (user_id u) (HandleQuery env u q)"
  using assms by (intro self.keeps_query) (auto intro: self_after self_change)

text \<open>Whatever a user without the profile ADMIN asks, no right of any user changes, no name or profile changes, and
  no row of another user: only the own password and preferences can.\<close>
theorem users_change_only_themselves:
  assumes "\<not> IsAdmin u" "smap_inv (t_user (db s))" "HandleQuery env u q s = (r, t)"
  shows "t_user_right (db t) = t_user_right (db s) \<and> t_user_module (db t) = t_user_module (db s) \<and>
    (\<forall>i. i \<noteq> user_id u \<longrightarrow> smap_find (t_user (db t)) i = smap_find (t_user (db s)) i) \<and>
    (\<forall>i. map_option (\<lambda>r. (r_login r, r_profile r)) (smap_find (t_user (db t)) i) =
         map_option (\<lambda>r. (r_login r, r_profile r)) (smap_find (t_user (db s)) i))"
  using self_query [OF assms(1), of env q] assms(2,3) by (auto simp: self.keeps_def only_self_def dest: spec [of _ s])

section \<open>The list of users matches the tables\<close>

definition matches_db :: "access \<Rightarrow> bool" where
  "matches_db s \<longleftrightarrow> users s = Users_Reload (db s) (users s)"

interpretation matching: kept_relation "\<lambda>s t. matches_db s \<longrightarrow> matches_db t"
  by unfold_locales auto

lemma reload_reload: "Users_Reload d (Users_Reload d l) = Users_Reload d l"
proof -
  have "object_type (load_users d rows m) = object_type m" for rows m
    by (induction d rows m rule: load_users.induct) (auto simp: list_add_def split: sum.splits)
  then have "list_clear (load_users d rows (list_clear l)) = list_clear l" for rows by (simp add: list_clear_def)
  then show ?thesis by (simp add: Users_Reload_def)
qed

text \<open>An operation that changes the tables only when it returns, and one that changes nothing.\<close>

definition all_or_nothing :: "'a op \<Rightarrow> bool" where
  "all_or_nothing m \<longleftrightarrow> (\<forall>s. users (snd (m s)) = users s \<and> (\<forall>e. fst (m s) = Inl e \<longrightarrow> db (snd (m s)) = db s))"

definition changes_nothing :: "'a op \<Rightarrow> bool" where
  "changes_nothing m \<longleftrightarrow> (\<forall>s. snd (m s) = s)"

definition returns :: "'a op \<Rightarrow> bool" where
  "returns m \<longleftrightarrow> (\<forall>s. users (snd (m s)) = users s \<and> (\<exists>x. fst (m s) = Inr x))"

lemma all_or_nothing_first: "changes_nothing m \<Longrightarrow> (\<And>x. all_or_nothing (f x)) \<Longrightarrow> all_or_nothing (bind_op m f)"
  unfolding all_or_nothing_def changes_nothing_def bind_op_def by (auto split: prod.splits sum.splits) (metis snd_conv)+

lemma all_or_nothing_last: "all_or_nothing m \<Longrightarrow> (\<And>x. returns (f x)) \<Longrightarrow> all_or_nothing (bind_op m f)"
  unfolding all_or_nothing_def returns_def bind_op_def by (auto split: prod.splits sum.splits) (metis fst_conv snd_conv Inl_Inr_False)+

lemma pure_steps:
  "changes_nothing (check b c e k)" "changes_nothing (from_res g)" "changes_nothing (existing_user i)" "changes_nothing (sql_unique env j n)"
  "changes_nothing (create_edit_check n p)" "returns (update_row i h)" "returns (change_db k')" "returns (yield_op x)"
  by (auto simp: changes_nothing_def check_def from_res_def existing_user_def sql_unique_def create_edit_check_def bind_op_def returns_def
      update_row_def change_db_def yield_op_def)

lemma returning: "returns m \<Longrightarrow> all_or_nothing m"
  by (auto simp: returns_def all_or_nothing_def) (metis Inl_Inr_False)

lemmas atomic_rules = all_or_nothing_first [OF pure_steps(1)] all_or_nothing_first [OF pure_steps(2)] all_or_nothing_first [OF pure_steps(3)]
  all_or_nothing_first [OF pure_steps(4)] all_or_nothing_first [OF pure_steps(5)]

lemma atomic_operations:
  "all_or_nothing (Create env n p f)" "all_or_nothing (Edit env i n p f)" "all_or_nothing (ChangePassword env i p)"
  "all_or_nothing (UpdatePreferences i p)" "all_or_nothing (Delete i)" "all_or_nothing (ClearRights i)" "all_or_nothing (GrantRight env i w r)"
proof -
  show "all_or_nothing (Create env n p f)"
    unfolding Create_def by (intro atomic_rules all_or_nothing_last [OF returning [OF pure_steps(7)]] pure_steps)
  have "returns (if p \<noteq> [] then update_row i (\<lambda>r. r\<lparr>r_password := digest env p\<rparr>) else yield_op ())"
    by (simp add: pure_steps)
  then show "all_or_nothing (Edit env i n p f)"
    unfolding Edit_def by (intro atomic_rules all_or_nothing_last [OF returning [OF pure_steps(6)]])
  show "all_or_nothing (ChangePassword env i p)" "all_or_nothing (UpdatePreferences i p)" "all_or_nothing (Delete i)" "all_or_nothing (ClearRights i)"
    "all_or_nothing (GrantRight env i w r)"
    unfolding ChangePassword_def UpdatePreferences_def Delete_def ClearRights_def GrantRight_def
    by (intro atomic_rules returning pure_steps)+
qed

lemma smap_del_missing: "smap_find m k = None \<Longrightarrow> smap_del m k = m"
  by (induction m) (auto simp: smap_del_def split: if_splits)

lemma atomic_revoke: "all_or_nothing (RevokeRight i w)"
  by (auto simp: all_or_nothing_def RevokeRight_def existing_user_def check_def from_res_def change_db_def bind_op_def smap_del_missing)

lemma matching_after: "all_or_nothing m \<Longrightarrow> matching.keeps (after m e i)"
  unfolding matching.keeps_def
proof (intro allI impI)
  fix s assume m: "all_or_nothing m" "matches_db s"
  obtain r t where r: "m s = (r, t)" by (cases "m s")
  show "matches_db (snd (after m e i s))"
  proof (cases r)
    case (Inl f)
    then have "db t = db s" "users t = users s" using m(1) r by (auto simp: all_or_nothing_def dest: spec [of _ s])
    then show ?thesis using m(2) Inl r by (simp add: after_def bind_op_def matches_db_def)
  next
    case (Inr x)
    then show ?thesis using r by (simp add: after_def bind_op_def Reload_def Create_event_def yield_op_def matches_db_def reload_reload)
  qed
qed

lemma matching_create:
  assumes "all_or_nothing m"
  shows "matching.keeps (bind_op m (\<lambda>uid. bind_op Reload (\<lambda>_. bind_op (Create_event e uid) (\<lambda>_. yield_op (g uid)))))"
  unfolding matching.keeps_def
proof (intro allI impI)
  fix s assume s: "matches_db s"
  obtain r t where r: "m s = (r, t)" by (cases "m s")
  show "matches_db (snd (bind_op m (\<lambda>uid. bind_op Reload (\<lambda>_. bind_op (Create_event e uid) (\<lambda>_. yield_op (g uid)))) s))"
  proof (cases r)
    case (Inl f)
    then have "db t = db s" "users t = users s" using assms r by (auto simp: all_or_nothing_def dest: spec [of _ s])
    then show ?thesis using s Inl r by (simp add: bind_op_def matches_db_def)
  next
    case (Inr x)
    then show ?thesis using r by (simp add: bind_op_def Reload_def Create_event_def yield_op_def matches_db_def reload_reload)
  qed
qed



end
