(* ===== verification/Sha1.thy ===== *)
theory Sha1
  imports EvqBase
begin

text \<open>
  SHA-1: src/Crypto/sha1.c and the class Sha1String of src/Crypto/Sha1String.cpp. A context is the five words,
  the number of bytes processed as two words, and the bytes that wait in the buffer; what the buffer holds behind
  them is never read before it is written. The words of the buffer are read with the bytes swapped, as big endian
  numbers.
\<close>

unbundle bit_operations_syntax

section \<open>The compression\<close>

type_synonym regs = "32 word \<times> 32 word \<times> 32 word \<times> 32 word \<times> 32 word"

definition rol :: "32 word \<Rightarrow> nat \<Rightarrow> 32 word" where
  "rol x n = push_bit n x OR drop_bit (32 - n) x"

definition F1 :: "32 word \<Rightarrow> 32 word \<Rightarrow> 32 word \<Rightarrow> 32 word" where
  "F1 b c d = d XOR (b AND (c XOR d))"

definition F2 :: "32 word \<Rightarrow> 32 word \<Rightarrow> 32 word \<Rightarrow> 32 word" where
  "F2 b c d = b XOR c XOR d"

definition F3 :: "32 word \<Rightarrow> 32 word \<Rightarrow> 32 word \<Rightarrow> 32 word" where
  "F3 b c d = (b AND c) OR (d AND (b OR c))"

text \<open>The function and the constant of round \<open>t\<close>.\<close>

definition round_fk :: "nat \<Rightarrow> (32 word \<Rightarrow> 32 word \<Rightarrow> 32 word \<Rightarrow> 32 word) \<times> 32 word" where
  "round_fk t = (if t < 20 then (F1, 0x5a827999) else if t < 40 then (F2, 0x6ed9eba1)
     else if t < 60 then (F3, 0x8f1bbcdc) else (F2, 0xca62c1d6))"

text \<open>\<open>M(I)\<close>: the next word, which replaces the one sixteen rounds back.\<close>

definition next_word :: "nat \<Rightarrow> 32 word list \<Rightarrow> 32 word list" where
  "next_word t x = (if t < 16 then x
     else x[t mod 16 := rol (x ! (t mod 16) XOR x ! ((t - 14) mod 16) XOR x ! ((t - 8) mod 16) XOR x ! ((t - 3) mod 16)) 1])"

text \<open>
  A round. The calls of the macro rotate the names of the variables; here the values move instead.
\<close>

definition R :: "nat \<Rightarrow> regs \<times> 32 word list \<Rightarrow> regs \<times> 32 word list" where
  "R t = (\<lambda>((a, b, c, d, e), x).
     let x' = next_word t x; (f, k) = round_fk t
     in ((e + rol a 5 + f b c d + k + x' ! (t mod 16), a, rol b 30, c, d), x'))"

definition be_word :: "string \<Rightarrow> 32 word" where
  "be_word s = foldl (\<lambda>w c. push_bit 8 w OR of_nat (byte c)) 0 s"

fun words_of :: "string \<Rightarrow> 32 word list" where
  "words_of (a # b # c # d # s) = be_word [a, b, c, d] # words_of s"
| "words_of _ = []"

definition sha1_block :: "regs \<Rightarrow> string \<Rightarrow> regs" where
  "sha1_block h block =
     (case (h, fst (foldl (\<lambda>s t. R t s) (h, words_of block) [0..<80])) of
        ((a, b, c, d, e), (a', b', c', d', e')) \<Rightarrow> (a + a', b + b', c + c', d + d', e + e'))"

text \<open>The blocks of 64 bytes of a text whose length is a multiple of 64.\<close>

function blocks :: "string \<Rightarrow> string list" where
  "blocks s = (if length s < 64 then [] else take 64 s # blocks (drop 64 s))"
  by pat_completeness auto
termination by (relation "measure length") auto

declare blocks.simps [simp del]

section \<open>Contexts\<close>

record sha1_ctx =
  regs :: regs
  total0 :: "32 word"
  total1 :: "32 word"
  buffer :: string

definition sha1_start :: regs where
  "sha1_start = (0x67452301, 0xefcdab89, 0x98badcfe, 0x10325476, 0xc3d2e1f0)"

definition sha1_init_ctx :: sha1_ctx where
  "sha1_init_ctx = \<lparr>regs = sha1_start, total0 = 0, total1 = 0, buffer = []\<rparr>"

text \<open>The sum is compared with the length as 64 bit numbers.\<close>

definition add_total :: "nat \<Rightarrow> sha1_ctx \<Rightarrow> sha1_ctx" where
  "add_total len ctx =
     (let t0 = total0 ctx + of_nat len
      in ctx\<lparr>total0 := t0, total1 := (if unat t0 < len then total1 ctx + 1 else total1 ctx)\<rparr>)"

definition sha1_process_block :: "string \<Rightarrow> sha1_ctx \<Rightarrow> sha1_ctx" where
  "sha1_process_block s ctx = (add_total (length s) ctx)\<lparr>regs := foldl sha1_block (regs ctx) (blocks s)\<rparr>"

definition whole :: "nat \<Rightarrow> nat" where
  "whole n = n - n mod 64"

text \<open>The three parts of \<open>sha1_process_bytes\<close>: filling the buffer, whole blocks, the rest.\<close>

definition fill_buffer :: "string \<Rightarrow> sha1_ctx \<Rightarrow> string \<times> sha1_ctx" where
  "fill_buffer s ctx =
     (if buffer ctx = [] then (s, ctx)
      else let add = min (length s) (128 - length (buffer ctx)); b = buffer ctx @ take add s
           in (drop add s,
               if length b > 64
               then (sha1_process_block (take (whole (length b)) b) ctx)\<lparr>buffer := drop (whole (length b)) b\<rparr>
               else ctx\<lparr>buffer := b\<rparr>))"

text \<open>When the pointer is not aligned the blocks are copied one at a time, and the last one is left.\<close>

function copied_blocks :: "string \<Rightarrow> sha1_ctx \<Rightarrow> string \<times> sha1_ctx" where
  "copied_blocks s ctx = (if length s > 64 then copied_blocks (drop 64 s) (sha1_process_block (take 64 s) ctx) else (s, ctx))"
  by pat_completeness auto
termination by (relation "measure (\<lambda>(s, ctx). length s)") auto

declare copied_blocks.simps [simp del]

definition whole_blocks :: "bool \<Rightarrow> string \<Rightarrow> sha1_ctx \<Rightarrow> string \<times> sha1_ctx" where
  "whole_blocks unaligned s ctx =
     (if length s < 64 then (s, ctx)
      else if unaligned then copied_blocks s ctx
      else (drop (whole (length s)) s, sha1_process_block (take (whole (length s)) s) ctx))"

definition move_rest :: "string \<Rightarrow> sha1_ctx \<Rightarrow> sha1_ctx" where
  "move_rest s ctx =
     (if s = [] then ctx
      else let b = buffer ctx @ s
           in if length b \<ge> 64 then (sha1_process_block (take 64 b) ctx)\<lparr>buffer := drop 64 b\<rparr> else ctx\<lparr>buffer := b\<rparr>)"

definition sha1_process_bytes :: "bool \<Rightarrow> string \<Rightarrow> sha1_ctx \<Rightarrow> sha1_ctx" where
  "sha1_process_bytes unaligned s ctx =
     (case fill_buffer s ctx of (s1, ctx1) \<Rightarrow> case whole_blocks unaligned s1 ctx1 of (s2, ctx2) \<Rightarrow> move_rest s2 ctx2)"

definition bytes_of :: "32 word \<Rightarrow> string" where
  "bytes_of w = map (\<lambda>k. char_of (unat (take_bit 8 (drop_bit k w)))) [24, 16, 8, 0]"

definition sha1_read_ctx :: "sha1_ctx \<Rightarrow> string" where
  "sha1_read_ctx ctx = (case regs ctx of (a, b, c, d, e) \<Rightarrow> concat (map bytes_of [a, b, c, d, e]))"

definition sha1_finish_ctx :: "sha1_ctx \<Rightarrow> string" where
  "sha1_finish_ctx ctx =
     (let bytes = length (buffer ctx); size = (if bytes < 56 then 16 else 32);
          ctx1 = add_total bytes ctx;
          hi = push_bit 3 (total1 ctx1) OR drop_bit 29 (total0 ctx1); lo = push_bit 3 (total0 ctx1);
          fill = CHR 0x80 # replicate ((size - 2) * 4 - bytes - 1) (CHR 0x00)
      in sha1_read_ctx (sha1_process_block (buffer ctx @ fill @ bytes_of hi @ bytes_of lo) ctx1))"

text \<open>Sha1String: the calls of \<open>ProcessBytes\<close>, with the alignment of each pointer, then the digest.\<close>

definition Sha1String :: "(bool \<times> string) list \<Rightarrow> string" where
  "Sha1String cs = sha1_finish_ctx (foldl (\<lambda>ctx (u, s). sha1_process_bytes u s ctx) sha1_init_ctx cs)"

definition hex_digit :: "nat \<Rightarrow> char" where
  "hex_digit n = ''0123456789abcdef'' ! n"

definition to_hex :: "string \<Rightarrow> string" where
  "to_hex s = concat (map (\<lambda>c. [hex_digit (byte c div 16), hex_digit (byte c mod 16)]) s)"

section \<open>The reference\<close>

text \<open>The padded message, and the digest of its blocks.\<close>

definition sha1_pad :: "nat \<Rightarrow> string" where
  "sha1_pad n = CHR 0x80 # replicate ((119 - n mod 64) mod 64) (CHR 0x00) @
     (let bits = of_nat (8 * n) :: 64 word in bytes_of (ucast (drop_bit 32 bits)) @ bytes_of (ucast bits))"

definition sha1_ref :: "string \<Rightarrow> string" where
  "sha1_ref m = (case foldl sha1_block sha1_start (blocks (m @ sha1_pad (length m))) of
     (a, b, c, d, e) \<Rightarrow> concat (map bytes_of [a, b, c, d, e]))"

section \<open>What a context stands for\<close>

definition total :: "sha1_ctx \<Rightarrow> 64 word" where
  "total ctx = push_bit 32 (ucast (total1 ctx)) OR ucast (total0 ctx)"

definition processed :: "sha1_ctx \<Rightarrow> string \<Rightarrow> bool" where
  "processed ctx p \<longleftrightarrow> length p mod 64 = 0 \<and> regs ctx = foldl sha1_block sha1_start (blocks p) \<and> total ctx = of_nat (length p)"

definition stands_for :: "sha1_ctx \<Rightarrow> string \<Rightarrow> bool" where
  "stands_for ctx m \<longleftrightarrow> (\<exists>p. m = p @ buffer ctx \<and> processed ctx p \<and> length (buffer ctx) \<le> 64)"

lemma blocks_append: "length p mod 64 = 0 \<Longrightarrow> blocks (p @ s) = blocks p @ blocks s"
proof (induction p rule: blocks.induct)
  case (1 p)
  show ?case
  proof (cases "length p < 64")
    case True
    then have "p = []" using 1(2) by auto
    then show ?thesis by (simp add: blocks.simps [of "[]"])
  next
    case False
    then have "length (drop 64 p) mod 64 = 0" using 1(2) by (simp add: mod_if)
    then show ?thesis using False 1(1) by (simp add: blocks.simps [of "p @ s"] blocks.simps [of p])
  qed
qed

lemma total_alt: "total ctx = ucast (total1 ctx) * 2 ^ 32 + ucast (total0 ctx)"
proof -
  have "\<not> bit (push_bit 32 (ucast (total1 ctx) :: 64 word)) n \<or> \<not> bit (ucast (total0 ctx) :: 64 word) n" for n
    by (auto simp: bit_simps dest: bit_imp_le_length)
  then have "push_bit 32 (ucast (total1 ctx)) + ucast (total0 ctx) = total ctx"
    unfolding total_def by (rule disjunctive_add)
  then show ?thesis by (simp add: push_bit_eq_mult)
qed

lemma ucast_of_nat: "ucast w = (of_nat (unat w) :: 64 word)" for w :: "32 word"
  by simp

lemma unat_word32: "unat (of_nat n :: 32 word) = n mod 2 ^ 32"
  by (simp add: unsigned_of_nat take_bit_eq_mod)

lemma carry_high: "ucast (t + 1 :: 32 word) * 2 ^ 32 = (ucast t + 1) * (2 ^ 32 :: 64 word)"
proof -
  have t: "t + 1 = of_nat (Suc (unat t))" by (simp add: add.commute)
  have "unat t < 2 ^ 32" using unsigned_less [of t] by simp
  then have "unat (t + 1) = (if unat t = 2 ^ 32 - 1 then 0 else Suc (unat t))"
    unfolding t unat_word32 by auto
  then show ?thesis
    by (cases "unat t = 2 ^ 32 - 1") (simp_all add: ucast_of_nat del: of_nat_unat)
qed

lemma add_total_total:
  assumes "len < 2 ^ 32" shows "total (add_total len ctx) = total ctx + of_nat len"
proof -
  let ?t0 = "total0 ctx"
  have sum: "?t0 + of_nat len = of_nat (unat ?t0 + len)" by simp
  have b: "unat ?t0 < 2 ^ 32" using unsigned_less [of ?t0] by simp
  show ?thesis
  proof (cases "unat ?t0 + len < 2 ^ 32")
    case True
    then have u: "unat (?t0 + of_nat len) = unat ?t0 + len" unfolding sum unat_word32 by simp
    have "ucast (?t0 + of_nat len) = (ucast ?t0 + of_nat len :: 64 word)" unfolding ucast_of_nat u by simp
    then show ?thesis using u by (simp add: total_alt add_total_def Let_def)
  next
    case False
    then have u: "unat (?t0 + of_nat len) = unat ?t0 + len - 2 ^ 32"
      unfolding sum unat_word32 using b assms by (simp add: le_mod_geq)
    have "ucast (?t0 + of_nat len) = (ucast ?t0 + of_nat len - 2 ^ 32 :: 64 word)"
      unfolding ucast_of_nat u using False by (simp add: of_nat_diff)
    moreover have "unat (?t0 + of_nat len) < len" using u b False by linarith
    ultimately show ?thesis using carry_high [of "total1 ctx"] by (simp add: total_alt add_total_def Let_def algebra_simps)
  qed
qed

lemma processed_buffer [simp]: "processed (ctx\<lparr>buffer := b\<rparr>) p = processed ctx p"
  by (simp add: processed_def total_def)

lemma total_regs [simp]: "total (ctx\<lparr>regs := r\<rparr>) = total ctx"
  by (simp add: total_def)

lemma add_total_regs [simp]: "regs (add_total n ctx) = regs ctx" "buffer (add_total n ctx) = buffer ctx"
  by (simp_all add: add_total_def Let_def)

lemma process_block:
  assumes "processed ctx p" "length s mod 64 = 0" "length s < 2 ^ 32"
  shows "processed (sha1_process_block s ctx) (p @ s)" "buffer (sha1_process_block s ctx) = buffer ctx"
proof -
  have "(length p + length s) mod 64 = 0" using assms(1,2) by (simp add: processed_def mod_add_eq [symmetric])
  then show "processed (sha1_process_block s ctx) (p @ s)"
    using assms add_total_total [OF assms(3), of ctx] by (simp add: processed_def sha1_process_block_def blocks_append)
  show "buffer (sha1_process_block s ctx) = buffer ctx" by (simp add: sha1_process_block_def)
qed

lemma whole_facts: "whole n mod 64 = 0" "whole n \<le> n" "n - whole n < 64"
  by (simp_all add: whole_def minus_mod_eq_mult_div)

lemma take_whole: "length (take (whole (length s)) s) mod 64 = 0" "length (take (whole (length s)) s) \<le> length s"
  using whole_facts [of "length s"] by simp_all

lemma fill_stands:
  assumes "stands_for ctx m" "fill_buffer s ctx = (s1, ctx1)"
  shows "\<exists>s0. s = s0 @ s1 \<and> stands_for ctx1 (m @ s0) \<and> (s1 = [] \<or> buffer ctx1 = [])"
proof (cases "buffer ctx = []")
  case True
  then show ?thesis using assms by (intro exI [of _ "[]"]) (auto simp: fill_buffer_def)
next
  case False
  obtain p where p: "m = p @ buffer ctx" "processed ctx p" "length (buffer ctx) \<le> 64" using assms(1) by (auto simp: stands_for_def)
  define add where "add = min (length s) (128 - length (buffer ctx))"
  define b where "b = buffer ctx @ take add s"
  have lb: "length b = length (buffer ctx) + add" "length b \<le> 128" using p(3) by (auto simp: b_def add_def)
  have r: "s1 = drop add s" "ctx1 = (if length b > 64
      then (sha1_process_block (take (whole (length b)) b) ctx)\<lparr>buffer := drop (whole (length b)) b\<rparr> else ctx\<lparr>buffer := b\<rparr>)"
    using assms(2) False unfolding fill_buffer_def Let_def add_def b_def by simp_all
  have mb: "m @ take add s = p @ b" by (simp add: p(1) b_def)
  have st: "stands_for ctx1 (p @ b)"
  proof (cases "length b > 64")
    case True
    have "processed (sha1_process_block (take (whole (length b)) b) ctx) (p @ take (whole (length b)) b)"
      using process_block(1) [OF p(2) take_whole(1) [of b]] take_whole(2) [of b] lb(2) by simp
    moreover have "length (drop (whole (length b)) b) \<le> 64" using whole_facts(3) [of "length b"] by simp
    ultimately show ?thesis unfolding stands_for_def r(2) using True by (intro exI [of _ "p @ take (whole (length b)) b"]) simp
  next
    case False
    then show ?thesis unfolding stands_for_def r(2) using p(2) by (intro exI [of _ p]) simp
  qed
  then have "stands_for ctx1 (m @ take add s)" by (simp only: mb)
  moreover have "s1 = [] \<or> buffer ctx1 = []"
  proof (cases "length s \<le> 128 - length (buffer ctx)")
    case False
    then have "length b = 128" using lb(1) p(3) by (simp add: add_def)
    then show ?thesis by (simp add: r(2) whole_def)
  qed (simp add: r(1) add_def)
  ultimately show ?thesis by (intro exI [of _ "take add s"]) (simp add: r(1))
qed

lemma copied_stands:
  "processed ctx p \<Longrightarrow> copied_blocks s ctx = (s2, ctx2) \<Longrightarrow>
   \<exists>s0. s = s0 @ s2 \<and> processed ctx2 (p @ s0) \<and> buffer ctx2 = buffer ctx \<and> length s2 \<le> 64"
proof (induction s ctx arbitrary: p rule: copied_blocks.induct)
  case (1 s ctx)
  show ?case
  proof (cases "length s > 64")
    case True
    have b: "processed (sha1_process_block (take 64 s) ctx) (p @ take 64 s)" "buffer (sha1_process_block (take 64 s) ctx) = buffer ctx"
      using process_block [OF 1(2), of "take 64 s"] True by simp_all
    have "copied_blocks (drop 64 s) (sha1_process_block (take 64 s) ctx) = (s2, ctx2)"
      using 1(3) True by (subst (asm) copied_blocks.simps) simp
    then obtain s0 where "drop 64 s = s0 @ s2" "processed ctx2 ((p @ take 64 s) @ s0)" "buffer ctx2 = buffer ctx" "length s2 \<le> 64"
      using 1(1) [OF True b(1)] b(2) by auto
    then show ?thesis by (intro exI [of _ "take 64 s @ s0"]) (simp, metis append_take_drop_id)
  next
    case False
    then show ?thesis using 1(2,3) by (subst (asm) copied_blocks.simps) auto
  qed
qed

lemma whole_stands:
  assumes "stands_for ctx m" "s = [] \<or> buffer ctx = []" "whole_blocks u s ctx = (s2, ctx2)" "length s < 2 ^ 32"
  shows "\<exists>s0. s = s0 @ s2 \<and> stands_for ctx2 (m @ s0) \<and> (s2 = [] \<or> buffer ctx2 = []) \<and> length s2 \<le> 64"
proof (cases "length s < 64")
  case True
  then show ?thesis using assms by (intro exI [of _ "[]"]) (auto simp: whole_blocks_def)
next
  case False
  then have e: "buffer ctx = []" using assms(2) by auto
  then have p: "processed ctx m" using assms(1) by (simp add: stands_for_def)
  have "\<exists>s0. s = s0 @ s2 \<and> processed ctx2 (m @ s0) \<and> buffer ctx2 = [] \<and> length s2 \<le> 64"
  proof (cases u)
    case True
    then show ?thesis using copied_stands [OF p] assms(3) False e by (simp add: whole_blocks_def)
  next
    case u: False
    then have "s2 = drop (whole (length s)) s" "ctx2 = sha1_process_block (take (whole (length s)) s) ctx"
      using assms(3) False by (simp_all add: whole_blocks_def)
    then show ?thesis using process_block [OF p take_whole(1) [of s]] take_whole(2) [of s] assms(4) whole_facts(3) [of "length s"] e
      by (intro exI [of _ "take (whole (length s)) s"]) simp
  qed
  then show ?thesis by (auto simp: stands_for_def)
qed

lemma move_stands:
  assumes "stands_for ctx m" "s = [] \<or> buffer ctx = []" "length s \<le> 64"
  shows "stands_for (move_rest s ctx) (m @ s)"
proof (cases "s = []")
  case False
  then have e: "buffer ctx = []" using assms(2) by auto
  then have p: "processed ctx m" using assms(1) by (simp add: stands_for_def)
  show ?thesis
  proof (cases "length s = 64")
    case True
    then show ?thesis using process_block [OF p, of s] False e by (simp add: move_rest_def stands_for_def)
  next
    case f: False
    then show ?thesis using p False e assms(3) by (simp add: move_rest_def stands_for_def)
  qed
qed (use assms in \<open>simp add: move_rest_def\<close>)

lemma process_bytes:
  assumes "stands_for ctx m" "length s < 2 ^ 32" shows "stands_for (sha1_process_bytes u s ctx) (m @ s)"
proof -
  obtain s1 ctx1 where 1: "fill_buffer s ctx = (s1, ctx1)" by (cases "fill_buffer s ctx")
  obtain s2 ctx2 where 2: "whole_blocks u s1 ctx1 = (s2, ctx2)" by (cases "whole_blocks u s1 ctx1")
  obtain s0 where a: "s = s0 @ s1" "stands_for ctx1 (m @ s0)" "s1 = [] \<or> buffer ctx1 = []"
    using fill_stands [OF assms(1) 1] by blast
  obtain s0' where b: "s1 = s0' @ s2" "stands_for ctx2 ((m @ s0) @ s0')" "s2 = [] \<or> buffer ctx2 = []" "length s2 \<le> 64"
    using whole_stands [OF a(2,3) 2] assms(2) a(1) by auto
  have "sha1_process_bytes u s ctx = move_rest s2 ctx2" by (simp add: sha1_process_bytes_def 1 2)
  then show ?thesis using move_stands [OF b(2,3,4)] by (simp add: a(1) b(1))
qed

section \<open>The digest\<close>

lemma bit_length:
  "push_bit 3 (total0 ctx) = ucast (push_bit 3 (total ctx))"
  "push_bit 3 (total1 ctx) OR drop_bit 29 (total0 ctx) = ucast (drop_bit 32 (push_bit 3 (total ctx)))"
proof -
  have "bit (total1 ctx) k \<Longrightarrow> k < 32" "bit (total0 ctx) k \<Longrightarrow> k < 32" for k by (auto dest: bit_imp_le_length)
  then show "push_bit 3 (total0 ctx) = ucast (push_bit 3 (total ctx))"
    "push_bit 3 (total1 ctx) OR drop_bit 29 (total0 ctx) = ucast (drop_bit 32 (push_bit 3 (total ctx)))"
    by (auto intro!: bit_word_eqI simp: bit_simps total_def)
qed

lemma padding:
  assumes "length p mod 64 = 0" "length b \<le> 64"
  shows "((if length b < 56 then 16 else 32) - 2) * 4 - length b - 1 = (119 - length (p @ b) mod 64) mod 64"
proof -
  have m: "length (p @ b) mod 64 = length b mod 64" using assms(1) by (simp add: mod_add_eq [symmetric])
  consider "length b < 56" | "56 \<le> length b" "length b < 64" | "length b = 64" using assms(2) by linarith
  then show ?thesis unfolding m by cases (simp_all add: le_mod_geq)
qed

lemma finish:
  assumes "stands_for ctx m" shows "sha1_finish_ctx ctx = sha1_ref m"
proof -
  obtain p where p: "m = p @ buffer ctx" "processed ctx p" "length (buffer ctx) \<le> 64" using assms by (auto simp: stands_for_def)
  let ?c = "add_total (length (buffer ctx)) ctx"
  have "total ?c = of_nat (length m)" using add_total_total [of "length (buffer ctx)" ctx] p by (simp add: processed_def)
  then have bits: "push_bit 3 (total ?c) = of_nat (8 * length m)" by (simp add: push_bit_eq_mult)
  have "CHR 0x80 # replicate (((if length (buffer ctx) < 56 then 16 else 32) - 2) * 4 - length (buffer ctx) - 1) (CHR 0x00) @
      bytes_of (push_bit 3 (total1 ?c) OR drop_bit 29 (total0 ?c)) @ bytes_of (push_bit 3 (total0 ?c)) = sha1_pad (length m)"
    unfolding sha1_pad_def bit_length bits Let_def p(1) using padding [of p "buffer ctx"] p(2,3) by (simp add: processed_def)
  then have "sha1_finish_ctx ctx = sha1_read_ctx (sha1_process_block (buffer ctx @ sha1_pad (length m)) ?c)"
    unfolding sha1_finish_ctx_def Let_def by simp
  moreover have "blocks (m @ sha1_pad (length m)) = blocks p @ blocks (buffer ctx @ sha1_pad (length m))"
    using p(2) blocks_append [of p "buffer ctx @ sha1_pad (length m)"] by (simp add: p(1) processed_def)
  ultimately show ?thesis using p(2) by (simp add: sha1_read_ctx_def sha1_ref_def sha1_process_block_def processed_def)
qed

lemma sha1_any_pieces_of:
  assumes "list_all (\<lambda>(u, s). length s < 2 ^ 32) cs"
  shows "Sha1String cs = sha1_ref (concat (map snd cs))"
proof -
  have "stands_for ctx m \<Longrightarrow> list_all (\<lambda>(u, s). length s < 2 ^ 32) cs \<Longrightarrow>
    stands_for (foldl (\<lambda>ctx (u, s). sha1_process_bytes u s ctx) ctx cs) (m @ concat (map snd cs))" for ctx m
  proof (induction cs arbitrary: ctx m)
    case (Cons c cs)
    obtain u s where c: "c = (u, s)" by (cases c)
    then show ?case using Cons.IH [OF process_bytes [OF Cons.prems(1), of s u]] Cons.prems(2) by simp
  qed simp
  moreover have "stands_for sha1_init_ctx []"
    by (simp add: stands_for_def processed_def sha1_init_ctx_def total_def blocks.simps [of "[]"])
  ultimately show ?thesis using finish assms by (fastforce simp: Sha1String_def)
qed

text \<open>C25: However a text is cut into pieces that are hashed one after the other, and wherever they lie in memory, the
  digest is the one of the padded text: for pieces below 4 GB.\<close>
theorem sha1_any_pieces:
  assumes "list_all (\<lambda>(u, s). length s < 2 ^ 32) cs"
  shows "Sha1String cs = sha1_ref (concat (map snd cs))"
  using assms by (rule sha1_any_pieces_of)

lemma sha1_any_pieces_witness:
  "Sha1String [(True, ''a''), (False, replicate 130 (CHR ''b''))] = Sha1String [(False, ''a'' @ replicate 130 (CHR ''b''))]"
  using sha1_any_pieces [of "[(True, ''a''), (False, replicate 130 (CHR ''b''))]"] sha1_any_pieces [of "[(False, ''a'' @ replicate 130 (CHR ''b''))]"]
  by simp

end
