(* ===== verification/Hmac.thy ===== *)
theory Hmac
  imports Sha1
begin

text \<open>
  src/Crypto/hmac.cpp and src/Crypto/pbkdf2.cpp, and the comparison of src/API/AuthHandler.cpp. Where the strings
  that are hashed lie in memory is an argument \<open>al\<close>.
\<close>

section \<open>HMAC\<close>

definition hexchar2bin :: "char \<Rightarrow> nat res" where
  "hexchar2bin c =
     (if isdigit c then Inr (byte c - 48)
      else if 97 \<le> byte c \<and> byte c \<le> 102 then Inr (byte c - 97 + 10)
      else if 65 \<le> byte c \<and> byte c \<le> 70 then Inr (byte c - 65 + 10)
      else Inl (Exn ''hmac'' ''Invalid hexadecimal string'' []))"

fun hex_pairs :: "string \<Rightarrow> string res" where
  "hex_pairs (a # b # s) = bindr (hexchar2bin a) (\<lambda>i. bindr (hexchar2bin b) (\<lambda>j. bindr (hex_pairs s) (\<lambda>r. Inr (char_of (16 * i + j) # r))))"
| "hex_pairs _ = Inr []"

definition hex2bin :: "string \<Rightarrow> string res" where
  "hex2bin hex = (if length hex mod 2 \<noteq> 0 then Inl (Exn ''hmac'' ''Invalid hexadecimal string'' []) else hex_pairs hex)"

definition xor_char :: "char \<Rightarrow> char \<Rightarrow> char" where
  "xor_char c d = char_of (byte c XOR byte d)"

text \<open>The key is cut, or filled with zeros, to 64 bytes.\<close>

definition key_pad :: "string \<Rightarrow> char \<Rightarrow> string" where
  "key_pad bkey pad = map (\<lambda>i. if i < length bkey then xor_char (bkey ! i) pad else pad) [0..<64]"

definition hash_hmac :: "(string \<Rightarrow> bool) \<Rightarrow> string \<Rightarrow> string \<Rightarrow> bool \<Rightarrow> string res" where
  "hash_hmac al key data binary =
     bindr (if binary then Inr key else hex2bin key) (\<lambda>bkey.
     bindr (if binary then Inr data else hex2bin data) (\<lambda>bdata.
       let ikey = key_pad bkey (CHR 0x36); okey = key_pad bkey (CHR 0x5C);
           inner = Sha1String [(al ikey, ikey), (al bdata, bdata)];
           outer = Sha1String [(al okey, okey), (al inner, inner)]
       in Inr (if binary then outer else to_hex outer)))"

section \<open>PBKDF2\<close>

definition it_bytes :: string where
  "it_bytes = [CHR 0x00, CHR 0x00, CHR 0x00, CHR 0x01]"

fun pbkdf2_rounds :: "(string \<Rightarrow> bool) \<Rightarrow> string \<Rightarrow> nat \<Rightarrow> string \<Rightarrow> string \<Rightarrow> string res" where
  "pbkdf2_rounds al password 0 hash_it hash = Inr hash"
| "pbkdf2_rounds al password (Suc n) hash_it hash =
     bindr (hash_hmac al password hash_it True) (\<lambda>h. pbkdf2_rounds al password n h (map2 xor_char hash h))"

text \<open>The salt that is used is a constant.\<close>

definition hash_pbkdf2 :: "(string \<Rightarrow> bool) \<Rightarrow> string \<Rightarrow> string \<Rightarrow> int \<Rightarrow> string res" where
  "hash_pbkdf2 al password salt iterations =
     bindr (hash_hmac al password (''salt'' @ it_bytes) True) (\<lambda>h.
     bindr (pbkdf2_rounds al password (nat (iterations - 1)) h h) (\<lambda>r. Inr (to_hex (take 20 r))))"

section \<open>Comparison\<close>

definition strcmp_fold :: "string \<Rightarrow> string \<Rightarrow> nat" where
  "strcmp_fold s t = fold (\<lambda>(a, b) r. r OR (byte a XOR byte b)) (zip s t) 0"

definition time_constant_strcmp :: "string \<Rightarrow> string \<Rightarrow> nat" where
  "time_constant_strcmp str1 str2 = (if length str1 \<noteq> length str2 then 1 else strcmp_fold str1 str2)"

section \<open>Properties\<close>

lemma sha1_length [simp]: "length (sha1_ref m) = 20"
  by (simp add: sha1_ref_def bytes_of_def split: prod.splits)

lemma key_pad_length [simp]: "length (key_pad k p) = 64"
  by (simp add: key_pad_def)

text \<open>The construction of RFC 2104 over the digest of the reference, for keys of at most 64 bytes.\<close>

lemma hmac_ref:
  assumes "length data < 2 ^ 32"
  shows "hash_hmac al key data True = Inr (sha1_ref (key_pad key (CHR 0x5C) @ sha1_ref (key_pad key (CHR 0x36) @ data)))"
  using assms by (simp add: hash_hmac_def sha1_any_pieces_of Let_def)

lemma or_zero: "a OR b = 0 \<longleftrightarrow> a = 0 \<and> b = 0" for a b :: nat
  by (metis or_eq_0_iff)

lemma xor_zero: "byte a XOR byte b = 0 \<longleftrightarrow> a = b"
  by (metis char_of_byte xor.assoc xor_self_eq xor.right_neutral xor.left_neutral)

lemma strcmp_zero: "fold (\<lambda>(a, b) r. r OR (byte a XOR byte b)) ps r = 0 \<longleftrightarrow> r = 0 \<and> (\<forall>(a, b) \<in> set ps. a = b)"
  by (induction ps arbitrary: r) (auto simp: or_zero xor_zero)

lemma time_constant_strcmp_eq: "time_constant_strcmp s t = 0 \<longleftrightarrow> s = t"
  by (auto simp: time_constant_strcmp_def strcmp_fold_def strcmp_zero list_eq_iff_zip_eq)

text \<open>The salt makes no difference; neither do the bytes of a key from the 65th on.\<close>

lemma salt_ignored: "hash_pbkdf2 al password salt iterations = hash_pbkdf2 al password salt' iterations"
  by (simp add: hash_pbkdf2_def)

lemma long_key_cut: "hash_hmac al (take 64 key) data True = hash_hmac al key data True"
proof -
  have "key_pad (take 64 key) p = key_pad key p" for p by (simp add: key_pad_def)
  then show ?thesis by (simp add: hash_hmac_def)
qed

end
