(* ===== verification/Session.thy ===== *)
theory Session
  imports Access Hmac "HOL-Library.Sublist"
begin

text \<open>
  A client of the API: src/API/AuthHandler.cpp, QueryResponse.cpp, QueryHandlers.cpp, APISession.cpp and the thread of a TCP
  connection, handle_connection.cpp. The handlers of the queries and the rest of the engine they change, \<open>'w\<close>, are
  arguments, as are the parser, the evaluation of an XPath filter, the random challenge and the clock; a child of a
  response is an \<open>'n\<close>. A response is a tree whose root has the attributes set by the session.
\<close>

section \<open>Responses\<close>

record 'n query_response =
  to_client :: bool
  root_node_name :: string
  attributes :: "(string, string) smap"
  children :: "'n list"
  status_ok :: bool
  error :: string
  error_code :: string

type_synonym 'n message = "string \<times> (string, string) smap \<times> 'n list"

text \<open>Without a socket and without a websocket nothing is sent.\<close>

definition QueryResponse_new :: "string \<Rightarrow> string \<Rightarrow> 'n query_response" where
  "QueryResponse_new node root = \<lparr>to_client = False, root_node_name = root, attributes = [(''node'', node)], children = [],
     status_ok = True, error = [], error_code = []\<rparr>"

definition SetClient :: "'n query_response \<Rightarrow> 'n query_response" where
  "SetClient r = r\<lparr>to_client := True\<rparr>"

definition SetError :: "string \<Rightarrow> 'n query_response \<Rightarrow> 'n query_response" where
  "SetError e r = r\<lparr>error := e, status_ok := False\<rparr>"

definition SetErrorCode :: "string \<Rightarrow> 'n query_response \<Rightarrow> 'n query_response" where
  "SetErrorCode k r = r\<lparr>error_code := k, status_ok := False\<rparr>"

definition SetAttribute :: "string \<Rightarrow> string \<Rightarrow> 'n query_response \<Rightarrow> 'n query_response" where
  "SetAttribute name v r = r\<lparr>attributes := smap_put (attributes r) name v\<rparr>"

definition Empty :: "string \<Rightarrow> 'n query_response \<Rightarrow> 'n query_response" where
  "Empty node r = r\<lparr>attributes := [(''node'', node)], children := [], status_ok := True, error := [], error_code := []\<rparr>"

definition response_sent :: "'n query_response \<Rightarrow> 'n message list" where
  "response_sent r =
     (let r = (if status_ok r then SetAttribute ''status'' ''OK'' r
               else (let r = SetAttribute ''status'' ''KO'' r;
                         r = (if error r \<noteq> [] then SetAttribute ''error'' (error r) r else r)
                     in if error_code r \<noteq> [] then SetAttribute ''error-code'' (error_code r) r else r))
      in if to_client r then [(root_node_name r, attributes r, children r)] else [])"

section \<open>The handlers of the groups of queries\<close>

type_synonym ('w, 'n) handler = "user \<Rightarrow> query \<Rightarrow> 'w \<Rightarrow> 'n query_response \<Rightarrow> bool res \<times> 'w \<times> 'n query_response"

record ('w, 'n) session_env =
  auth_enabled :: bool
  node_name :: string
  version :: string
  modules :: "(string, string) smap"
  module_node :: "string \<Rightarrow> string \<Rightarrow> 'n"
  modules_node :: "'n list \<Rightarrow> 'n"
  aligned :: "string \<Rightarrow> bool"
  user_list :: "'w \<Rightarrow> user object_list"
  query_handlers :: "(string, ('w, 'n) handler) smap"
  xpath_filter :: "string \<Rightarrow> 'n query_response \<Rightarrow> 'n list res"

definition RegisterHandler :: "string \<Rightarrow> ('w, 'n) handler \<Rightarrow> (string, ('w, 'n) handler) smap \<Rightarrow> (string, ('w, 'n) handler) smap" where
  "RegisterHandler ty h m = smap_put m ty h"

definition dispatch :: "(string, ('w, 'n) handler) smap \<Rightarrow> ('w, 'n) handler" where
  "dispatch handlers u q w r = (case smap_find handlers (q_group q) of None \<Rightarrow> (Inr False, w, r) | Some h \<Rightarrow> h u q w r)"

section \<open>Authentication\<close>

definition invalid_authentication :: "'a res" where
  "invalid_authentication = Inl (Exn ''Authentication Handler'' ''Invalid authentication'' ''AUTH_ERROR'')"

definition HandleChallenge :: "(string \<Rightarrow> bool) \<Rightarrow> user object_list \<Rightarrow> string \<Rightarrow> query \<Rightarrow> user res" where
  "HandleChallenge al us challenge q =
     (if q_group q \<noteq> ''auth'' then Inl (Exn ''Authentication Handler'' (''Expected '' @ [CHR 0x27] @ ''auth'' @ [CHR 0x27] @ '' node'') ''AUTH_ERROR'')
      else bindr (GetRootAttribute q ''response'') (\<lambda>response. bindr (GetRootAttribute q ''user'') (\<lambda>name.
        bindr (catch_exn (GetByName us name) (\<lambda>c e k. invalid_authentication)) (\<lambda>u.
        bindr (hash_hmac al (user_password u) challenge False) (\<lambda>hmac.
          if time_constant_strcmp ''hmac'' response \<noteq> 0 \<and> time_constant_strcmp hmac response \<noteq> 0 then invalid_authentication
          else Inr u)))))"

section \<open>Sessions\<close>

datatype en_status = INITIALIZED | WAITING_CHALLENGE_RESPONSE | AUTHENTICATED | READY

record 'n session =
  deleted :: bool
  acquired :: int
  status :: en_status
  s_context :: string
  challenge :: string
  s_user :: user
  responses :: "'n query_response list"

text \<open>The user of a new session: only its profile and its names have a value.\<close>

definition unset_user :: user where
  "unset_user = \<lparr>user_id = 0, user_name = [], user_password = [], user_profile = [], user_preferences = [], user_rights = [], module_rights = []\<rparr>"

definition APISession_new :: "string \<Rightarrow> 'n session" where
  "APISession_new c = \<lparr>deleted = False, acquired = 0, status = INITIALIZED, s_context = c, challenge = [], s_user = unset_user, responses = []\<rparr>"

definition Acquire :: "'n session \<Rightarrow> 'n session" where
  "Acquire ss = ss\<lparr>acquired := acquired ss + 1\<rparr>"

text \<open>Whether the caller has to delete the session.\<close>

definition Release :: "'n session \<Rightarrow> bool \<times> 'n session" where
  "Release ss = (let ss = ss\<lparr>acquired := acquired ss - 1\<rparr> in (acquired ss = 0 \<and> deleted ss, ss))"

text \<open>Whether the deletion is left to the last thread that uses the session.\<close>

definition FlagDeleted :: "'n session \<Rightarrow> bool \<times> 'n session" where
  "FlagDeleted ss = (if acquired ss = 0 then (False, ss) else (True, ss\<lparr>deleted := True\<rparr>))"

text \<open>\<open>fresh\<close> is what \<open>generate_challenge\<close> returns or raises.\<close>

definition SendChallenge :: "('w, 'n) session_env \<Rightarrow> string res \<Rightarrow> 'n session \<Rightarrow> 'n message list res \<times> 'n session" where
  "SendChallenge env fresh ss =
     (if \<not> auth_enabled env then (Inr [], ss\<lparr>s_user := anonymous, status := AUTHENTICATED\<rparr>)
      else case fresh of Inl e \<Rightarrow> (Inl e, ss)
        | Inr c \<Rightarrow> (Inr (response_sent (SetAttribute ''challenge'' c (SetClient (QueryResponse_new (node_name env) ''auth'')))),
            ss\<lparr>challenge := c, status := WAITING_CHALLENGE_RESPONSE\<rparr>))"

definition ChallengeReceived :: "('w, 'n) session_env \<Rightarrow> 'w \<Rightarrow> query \<Rightarrow> 'n session \<Rightarrow> unit res \<times> 'n session" where
  "ChallengeReceived env w q ss =
     (case HandleChallenge (aligned env) (user_list env w) (challenge ss) q of Inl e \<Rightarrow> (Inl e, ss)
      | Inr u \<Rightarrow> (Inr (), ss\<lparr>s_user := u, status := AUTHENTICATED\<rparr>))"

definition SendGreeting :: "('w, 'n) session_env \<Rightarrow> string \<Rightarrow> 'n session \<Rightarrow> 'n message list \<times> 'n session" where
  "SendGreeting env time ss =
     (let r = SetClient (QueryResponse_new (node_name env) ''ready'');
          r = SetAttribute ''profile'' (user_profile (s_user ss)) r;
          r = SetAttribute ''version'' (version env) r;
          r = SetAttribute ''node'' (node_name env) r;
          r = SetAttribute ''time'' time r;
          r = r\<lparr>children := [modules_node env (map (\<lambda>(n, v). module_node env n v) (modules env))]\<rparr>
      in (response_sent r, ss\<lparr>status := READY\<rparr>))"

text \<open>The answer to a query that was handled. That of a filter is a response of its own.\<close>

definition answer :: "('w, 'n) session_env \<Rightarrow> query \<Rightarrow> 'n query_response \<Rightarrow> 'n query_response res" where
  "answer env q r =
     (let xpath = GetRootAttribute_default q ''xpathfilter'' [] in
      if xpath \<noteq> [] then bindr (xpath_filter env xpath r) (\<lambda>ns. Inr ((QueryResponse_new (node_name env) ''response'')\<lparr>children := ns\<rparr>))
      else Inr r)"

definition label :: "int \<Rightarrow> string \<Rightarrow> nat \<Rightarrow> 'n query_response \<Rightarrow> 'n query_response" where
  "label external_id object_id event_id r =
     (let r = (if external_id \<noteq> 0 then SetAttribute ''external-id'' (to_string external_id) r else r);
          r = (if object_id \<noteq> [] then SetAttribute ''object-id'' object_id r else r)
      in if event_id \<noteq> 0 then SetAttribute ''event-id'' (show_nat event_id) r else r)"

definition push_response :: "'n query_response \<Rightarrow> 'n session \<Rightarrow> 'n session" where
  "push_response r ss = ss\<lparr>responses := responses ss @ [r]\<rparr>"

definition QueryReceived ::
  "('w, 'n) session_env \<Rightarrow> query \<Rightarrow> int \<Rightarrow> string \<Rightarrow> nat \<Rightarrow> 'n session \<times> 'w \<Rightarrow> bool res \<times> 'n session \<times> 'w" where
  "QueryReceived env q external_id object_id event_id = (\<lambda>(ss, w).
     if q_group q = ''quit'' then (Inr True, ss, w)
     else case dispatch (query_handlers env) (s_user ss) q w (SetClient (QueryResponse_new (node_name env) ''response'')) of (handled, w, r) \<Rightarrow>
       case (case handled of Inr False \<Rightarrow> Inl (Exn ''API'' ''Unknown command or action'' ''UNKNOWN_COMMAND'') | h \<Rightarrow> h) of
         Inl (Exn c e k) \<Rightarrow> (Inr False, push_response (SetErrorCode k (SetError e r)) ss, w)
       | Inl f \<Rightarrow> (Inl f, ss, w)
       | Inr _ \<Rightarrow> (case answer env q r of Inl f \<Rightarrow> (Inl f, ss, w)
           | Inr r \<Rightarrow> (Inr False, push_response (label external_id object_id event_id r) ss, w)))"

text \<open>Whether there was a response, and what was sent.\<close>

definition SendResponse :: "'n session \<Rightarrow> (bool \<times> 'n message list) \<times> 'n session" where
  "SendResponse ss = (case responses ss of [] \<Rightarrow> ((False, []), ss)
     | r # rs \<Rightarrow> ((True, response_sent r), ss\<lparr>responses := rs\<rparr>))"

section \<open>A TCP connection\<close>

text \<open>
  What arrives is the list of the queries, or the exceptions reading them raises; at its end the thread waits for more.
  An exception that is none of \<open>Exception\<close> ends the process.
\<close>

datatype ending = Waiting | Quit | Raised fault

fun query_loop :: "('w, 'n) session_env \<Rightarrow> query res list \<Rightarrow> 'n session \<times> 'w \<Rightarrow> 'n message list \<Rightarrow> ending \<times> 'w \<times> 'n message list" where
  "query_loop env [] (ss, w) out = (Waiting, w, out)"
| "query_loop env (Inl e # ins) (ss, w) out = (Raised e, w, out)"
| "query_loop env (Inr q # ins) (ss, w) out =
     (case QueryReceived env q 0 [] 0 (ss, w) of
        (Inl e, ss, w) \<Rightarrow> (Raised e, w, out)
      | (Inr quit, ss, w) \<Rightarrow>
          if quit then (Quit, w, out)
          else case SendResponse ss of ((_, ms), ss) \<Rightarrow> query_loop env ins (ss, w) (out @ ms))"

definition greet :: "('w, 'n) session_env \<Rightarrow> string \<Rightarrow> query res list \<Rightarrow> 'n session \<times> 'w \<Rightarrow> 'n message list \<Rightarrow> ending \<times> 'w \<times> 'n message list" where
  "greet env time ins = (\<lambda>(ss, w) out. case SendGreeting env time ss of (ms, ss) \<Rightarrow> query_loop env ins (ss, w) (out @ ms))"

definition authenticate :: "('w, 'n) session_env \<Rightarrow> string res \<Rightarrow> string \<Rightarrow> query res list \<Rightarrow> 'w \<Rightarrow> ending \<times> 'w \<times> 'n message list" where
  "authenticate env fresh time ins w =
     (case SendChallenge env fresh (APISession_new ''API'') of
        (Inl e, ss) \<Rightarrow> (Raised e, w, [])
      | (Inr ms, ss) \<Rightarrow>
          if status ss = WAITING_CHALLENGE_RESPONSE then
            (case ins of [] \<Rightarrow> (Waiting, w, ms)
             | Inl e # ins \<Rightarrow> (Raised e, w, ms)
             | Inr q # ins \<Rightarrow> (case ChallengeReceived env w q ss of (Inl e, ss) \<Rightarrow> (Raised e, w, ms)
                 | (Inr _, ss) \<Rightarrow> greet env time ins (ss, w) ms))
          else greet env time ins (ss, w) ms)"

definition handle_connection :: "('w, 'n) session_env \<Rightarrow> string res \<Rightarrow> string \<Rightarrow> query res list \<Rightarrow> 'w \<Rightarrow> ending \<times> 'w \<times> 'n message list" where
  "handle_connection env fresh time ins w =
     (case authenticate env fresh time ins w of (en, w, out) \<Rightarrow>
        case en of Raised (Exn c e k) \<Rightarrow>
          (en, w, out @ response_sent (SetErrorCode (if k \<noteq> [] then k else ''UNEXPECTED_EXCEPTION'')
             (SetError e (SetClient (QueryResponse_new (node_name env) ''response'')))))
        | _ \<Rightarrow> (en, w, out))"

section \<open>Who is let in\<close>

lemma challenge_accepts:
  "HandleChallenge al us c q = Inr u \<longleftrightarrow> q_group q = ''auth'' \<and>
     (\<exists>r n h. q_attrs q ''response'' = Some r \<and> q_attrs q ''user'' = Some n \<and> smap_find (objects_name us) n = Some u \<and>
       hash_hmac al (user_password u) c False = Inr h \<and> (r = ''hmac'' \<or> r = h))"
  by (auto simp: HandleChallenge_def GetRootAttribute_def missing_attribute_def GetByName_def invalid_authentication_def bindr_eq_Inr
      time_constant_strcmp_eq split: option.splits if_splits)

text \<open>The word hmac is accepted as the response of any user.\<close>

lemma hmac_accepted:
  assumes "smap_find (objects_name us) n = Some u" "hash_hmac al (user_password u) c False = Inr h"
  shows "HandleChallenge al us c \<lparr>q_context = ctx, q_group = ''auth'', q_attrs = [''response'' \<mapsto> ''hmac'', ''user'' \<mapsto> n]\<rparr> = Inr u"
  using assms by (simp add: challenge_accepts)

text \<open>The changes made by queries of a user, in the order of the queries.\<close>

fun run_queries :: "(string, ('w, 'n) handler) smap \<Rightarrow> string \<Rightarrow> user \<Rightarrow> query list \<Rightarrow> 'w \<Rightarrow> 'w" where
  "run_queries hs node u [] w = w"
| "run_queries hs node u (q # qs) w =
     run_queries hs node u qs (fst (snd (dispatch hs u q w (SetClient (QueryResponse_new node ''response'')))))"

lemma QueryReceived_world:
  assumes "QueryReceived env q x i e (ss, w) = (r, ss', w')"
  shows "w' = run_queries (query_handlers env) (node_name env) (s_user ss) (if q_group q = ''quit'' then [] else [q]) w \<and> s_user ss' = s_user ss \<and>
    status ss' = status ss \<and> acquired ss' = acquired ss \<and> deleted ss' = deleted ss \<and> challenge ss' = challenge ss"
  using assms
  by (auto simp: QueryReceived_def push_response_def split: if_splits prod.splits sum.splits fault.splits bool.splits)

lemma SendResponse_user: "SendResponse ss = (b, ss') \<Longrightarrow> s_user ss' = s_user ss"
  by (auto simp: SendResponse_def split: list.splits)

lemma query_loop_world:
  assumes "query_loop env ins (ss, w) out = (en, w', out')"
  shows "\<exists>qs. prefix (map Inr qs) ins \<and> w' = run_queries (query_handlers env) (node_name env) (s_user ss) qs w"
  using assms
proof (induction env ins "(ss, w)" out arbitrary: ss w rule: query_loop.induct)
  case (1 env ss w out)
  then show ?case by auto
next
  case (2 env e ins ss w out)
  then show ?case by (intro exI [of _ "[]"]) simp
next
  case (3 env q ins ss w out)
  obtain r ss1 w1 where q: "QueryReceived env q 0 [] 0 (ss, w) = (r, ss1, w1)" by (metis prod_cases3)
  note world = QueryReceived_world [OF q]
  let ?run = "run_queries (query_handlers env) (node_name env) (s_user ss)"
  have one: "\<exists>qs. prefix (map Inr qs) (Inr q # ins) \<and> w1 = ?run qs w"
    using world by (intro exI [of _ "if q_group q = ''quit'' then [] else [q]"]) simp
  show ?case
  proof (cases r)
    case (Inl e)
    then show ?thesis using one q 3(2) by simp
  next
    case (Inr b)
    show ?thesis
    proof (cases b)
      case True
      then show ?thesis using one q Inr 3(2) by simp
    next
      case False
      obtain ms ss2 where s: "SendResponse ss1 = (ms, ss2)" by (metis surj_pair)
      have "q_group q \<noteq> ''quit''" using q Inr False by (auto simp: QueryReceived_def)
      moreover have "\<exists>qs. prefix (map Inr qs) ins \<and> w' = run_queries (query_handlers env) (node_name env) (s_user ss2) qs w1"
        using 3(1) [OF q [symmetric], of b] 3(2) Inr False s by (cases ms) (simp add: q s)
      moreover have "s_user ss2 = s_user ss" using SendResponse_user [OF s] world by simp
      ultimately obtain qs where "prefix (map Inr qs) ins" "w' = ?run qs w1" by auto
      then show ?thesis using world \<open>q_group q \<noteq> ''quit''\<close> by (intro exI [of _ "q # qs"]) simp
    qed
  qed
qed

lemma SendGreeting_user: "SendGreeting env time ss = (ms, ss') \<Longrightarrow> s_user ss' = s_user ss"
  by (auto simp: SendGreeting_def Let_def)

lemma greet_world:
  assumes "greet env time ins (ss, w) out = (en, w', out')"
  shows "\<exists>qs. prefix (map Inr qs) ins \<and> w' = run_queries (query_handlers env) (node_name env) (s_user ss) qs w"
proof -
  obtain ms ss' where g: "SendGreeting env time ss = (ms, ss')" by (metis surj_pair)
  then show ?thesis
    using assms query_loop_world [of env ins ss' w "out @ ms" en w' out'] SendGreeting_user [OF g] by (simp add: greet_def)
qed

lemma handle_connection_world: "fst (snd (handle_connection env fresh time ins w)) = fst (snd (authenticate env fresh time ins w))"
  by (auto simp: handle_connection_def split: prod.splits ending.splits fault.splits)

lemma authenticated_world:
  assumes "auth_enabled env" "authenticate env fresh time ins w = (en, w', out)" "w' \<noteq> w"
  shows "\<exists>c q rest u qs. fresh = Inr c \<and> ins = Inr q # rest \<and> HandleChallenge (aligned env) (user_list env w) c q = Inr u \<and>
     prefix (map Inr qs) rest \<and> w' = run_queries (query_handlers env) (node_name env) u qs w"
proof -
  obtain c where c: "fresh = Inr c" using assms by (cases fresh) (auto simp: authenticate_def SendChallenge_def)
  obtain q rest where i: "ins = Inr q # rest"
    using assms c by (cases ins; cases "hd ins") (auto simp: authenticate_def SendChallenge_def)
  obtain u where u: "HandleChallenge (aligned env) (user_list env w) c q = Inr u"
    using assms c i by (cases "HandleChallenge (aligned env) (user_list env w) c q")
      (auto simp: authenticate_def SendChallenge_def ChallengeReceived_def)
  obtain ss ms where "greet env time rest (ss, w) ms = (en, w', out)" "s_user ss = u"
    using assms c i u by (auto simp: authenticate_def SendChallenge_def ChallengeReceived_def)
  then show ?thesis using greet_world [of env time rest ss w ms en w' out] c i u by auto
qed

text \<open>C27: A connection changes the engine only by the handlers of its queries, in their order, run as the user the engine
  accepted its first message for; nothing is run before, and with authentication disabled all run as the anonymous user.\<close>
theorem connection_runs_as_accepted:
  assumes "handle_connection env fresh time ins w = (en, w', out)" "w' \<noteq> w"
  shows "if auth_enabled env
    then \<exists>c q rest u qs. fresh = Inr c \<and> ins = Inr q # rest \<and> HandleChallenge (aligned env) (user_list env w) c q = Inr u \<and>
      prefix (map Inr qs) rest \<and> w' = run_queries (query_handlers env) (node_name env) u qs w
    else \<exists>qs. prefix (map Inr qs) ins \<and> w' = run_queries (query_handlers env) (node_name env) anonymous qs w"
proof (cases "auth_enabled env")
  case True
  obtain en' out' where "authenticate env fresh time ins w = (en', w', out')"
    using handle_connection_world [of env fresh time ins w] assms(1) by (metis fst_conv snd_conv prod_cases3)
  then show ?thesis using authenticated_world [OF True] assms(2) True by simp
next
  case False
  obtain en' out' where "authenticate env fresh time ins w = (en', w', out')"
    using handle_connection_world [of env fresh time ins w] assms(1) by (metis fst_conv snd_conv prod_cases3)
  then obtain ss ms where "greet env time ins (ss, w) ms = (en', w', out')" "s_user ss = anonymous"
    using False by (auto simp: authenticate_def SendChallenge_def)
  then show ?thesis using greet_world [of env time ins ss w ms en' w' out'] False by auto
qed

section \<open>Users over a connection\<close>

text \<open>The handlers of the groups user and users put their answer into the response.\<close>

definition respond :: "response \<Rightarrow> (element \<times> element list) query_response \<Rightarrow> (element \<times> element list) query_response" where
  "respond rs r = fold (\<lambda>((name, attrs), ns) r. if name = ''response'' then fold (\<lambda>(a, v). SetAttribute a v) attrs r
     else r\<lparr>children := children r @ [((name, attrs), ns)]\<rparr>) rs r"

definition as_handler :: "(user \<Rightarrow> query \<Rightarrow> (bool \<times> response) op) \<Rightarrow> (access, element \<times> element list) handler" where
  "as_handler h u q w r = (case h u q w of (Inl e, w) \<Rightarrow> (Inl e, w, r) | (Inr (b, rs), w) \<Rightarrow> (Inr b, w, respond rs r))"

definition access_handlers :: "access_env \<Rightarrow> (string, (access, element \<times> element list) handler) smap" where
  "access_handlers aenv = RegisterHandler ''users'' (as_handler Users_HandleQuery) (RegisterHandler ''user'' (as_handler (HandleQuery aenv)) [])"

lemma access_dispatch:
  assumes "\<not> IsAdmin u" shows "only_self (user_id u) w (fst (snd (dispatch (access_handlers aenv) u q w r)))"
proof -
  have r: "fst (snd (as_handler h u q w r)) = snd (h u q w)" for h
    by (auto simp: as_handler_def split: prod.splits sum.splits)
  have d: "dispatch (access_handlers aenv) u q w r = (if q_group q = ''user'' then as_handler (HandleQuery aenv) u q w r
      else if q_group q = ''users'' then as_handler Users_HandleQuery u q w r else (Inr False, w, r))"
    by (simp add: dispatch_def access_handlers_def RegisterHandler_def)
  have "self.keeps (user_id u) (Users_HandleQuery u q)"
    unfolding Users_HandleQuery_def by (intro self.keeps_bind self.keeps_pure self.keeps_branch)
  then show ?thesis
    using self_query [OF assms, of aenv q] self.rel_refl [of "user_id u" w] by (simp add: d r self.keeps_def)
qed

lemma only_self_run:
  assumes "\<not> IsAdmin u" shows "only_self (user_id u) w (run_queries (access_handlers aenv) node u qs w)"
  using assms
proof (induction qs arbitrary: w)
  case Nil
  then show ?case by (simp add: only_self_def)
next
  case (Cons q qs)
  have "only_self (user_id u) w (fst (snd (dispatch (access_handlers aenv) u q w (SetClient (QueryResponse_new node ''response'')))))"
    by (rule access_dispatch [OF Cons.prems])
  then show ?case using Cons.IH [OF Cons.prems] self.rel_trans by simp
qed


definition sample_bob :: user where
  "sample_bob = \<lparr>user_id = 2, user_name = ''bob'', user_password = [], user_profile = ''USER'', user_preferences = [], user_rights = [], module_rights = []\<rparr>"

definition sample_auth :: "query res" where
  "sample_auth = Inr \<lparr>q_context = ''API'', q_group = ''auth'', q_attrs = [''response'' \<mapsto> ''hmac'', ''user'' \<mapsto> ''bob'']\<rparr>"

definition sample_env :: "('w \<Rightarrow> user object_list) \<Rightarrow> (string, ('w, 'n) handler) smap \<Rightarrow> 'n \<Rightarrow> ('w, 'n) session_env" where
  "sample_env us hs x = \<lparr>auth_enabled = True, node_name = ''n1'', version = ''3'', modules = [], module_node = (\<lambda>_ _. x), modules_node = (\<lambda>_. x),
     aligned = (\<lambda>_. True), user_list = us, query_handlers = hs, xpath_filter = (\<lambda>_ _. Inr [])\<rparr>"

lemma connection_runs_as_accepted_witness:
  "\<exists>en w' out. handle_connection (sample_env (\<lambda>_. \<lparr>objects_id = [], objects_name = [(''bob'', sample_bob)], object_type = ''User''\<rparr>)
       [(''count'', \<lambda>u q w r. (Inr True, w + user_id u, r))] ()) (Inr []) [] [sample_auth, Inr \<lparr>q_context = ''API'', q_group = ''count'', q_attrs = Map.empty\<rparr>] 0 =
     (en, w', out) \<and> w' = 2"
proof -
  let ?us = "\<lambda>_. \<lparr>objects_id = [], objects_name = [(''bob'', sample_bob)], object_type = ''User''\<rparr>"
  let ?hs = "[(''count'', \<lambda>u q w r. (Inr True, w + user_id u, r))] :: (string, (nat, unit) handler) smap"
  let ?env = "sample_env ?us ?hs ()"
  let ?q = "\<lparr>q_context = ''API'', q_group = ''auth'', q_attrs = [''response'' \<mapsto> ''hmac'', ''user'' \<mapsto> ''bob'']\<rparr> :: query"
  let ?n = "\<lparr>q_context = ''API'', q_group = ''count'', q_attrs = Map.empty\<rparr> :: query"
  obtain h where "hash_hmac (\<lambda>_. True) [] [] False = Inr h" by (auto simp: hash_hmac_def hex2bin_def Let_def)
  then have u: "HandleChallenge (\<lambda>_. True) (?us (0 :: nat)) [] ?q = Inr sample_bob" by (simp add: challenge_accepts sample_bob_def)
  obtain en w' out where c: "handle_connection ?env (Inr []) [] [sample_auth, Inr ?n] 0 = (en, w', out)" by (metis prod_cases3)
  then have w: "w' = 2"
    using u handle_connection_world [of ?env "Inr []" "[]" "[sample_auth, Inr ?n]" 0]
    by (simp add: authenticate_def SendChallenge_def sample_env_def sample_auth_def APISession_new_def ChallengeReceived_def greet_def SendGreeting_def
        Let_def QueryReceived_def dispatch_def answer_def GetRootAttribute_default_def SendResponse_def push_response_def sample_bob_def)
  then have "w' \<noteq> 0" by simp
  from connection_runs_as_accepted [OF c this] show ?thesis using c w by blast
qed


section \<open>Answers that are lost\<close>

text \<open>The answer to a query with a filter has no client, and that to a query of no known group has no event id.\<close>

lemma filtered_answer_not_sent:
  assumes "GetRootAttribute_default q ''xpathfilter'' [] \<noteq> []" "answer env q r = Inr r'"
  shows "response_sent (label x i e r') = []"
  using assms by (auto simp: answer_def Let_def bindr_eq_Inr response_sent_def label_def SetAttribute_def QueryResponse_new_def)

lemma failed_event_not_labelled:
  assumes "smap_find (query_handlers env) (q_group q) = None" "q_group q \<noteq> ''quit''" "QueryReceived env q x i e (ss, w) = (r, ss', w')"
  shows "\<exists>a. responses ss' = responses ss @ [a] \<and> smap_find (attributes a) ''event-id'' = None \<and> smap_find (attributes a) ''external-id'' = None"
  using assms by (auto simp: QueryReceived_def dispatch_def push_response_def SetError_def SetErrorCode_def SetClient_def QueryResponse_new_def)

end
