(* ===== verification/Events.thy ===== *)
theory Events
  imports StdMap
begin

text \<open>
  src/WS/Events.cpp: what the clients of the websocket server have subscribed to, the events waiting to be turned
  into responses and, with throttling, the events sent and not yet acknowledged. A client is the address of its
  connection, 0 for none. Each operation runs under the lock of the object, so it is one step. A client that is
  absent from \<open>processing_events\<close> and one with an empty set there are the same.
\<close>

section \<open>State\<close>

record subscription =
  object_filter :: nat
  sub_api_cmd :: string
  sub_external_id :: int

record event =
  ev_api_cmd :: string
  ev_external_id :: int
  ev_object_id :: string
  ev_id :: "64 word"

definition event_eq :: "event \<Rightarrow> event \<Rightarrow> bool" where
  "event_eq e f \<longleftrightarrow> ev_api_cmd e = ev_api_cmd f \<and> ev_external_id e = ev_external_id f"

record online_event =
  oe_event :: event
  need_resend :: bool
  object_ids :: string

record events_state =
  ready :: bool
  throttling :: bool
  event_id :: "64 word"
  events_map_id :: "32 word"
  events_map :: "(string, int) smap"
  queues :: "(nat, event list) smap"
  online_events :: "(nat, online_event list) smap"
  processing_events :: "(nat, string set) smap"
  subscriptions :: "(int, (nat \<times> subscription) list) smap"
  ws_subscriptions :: int
  ws_events :: nat

definition Events_new :: "bool \<Rightarrow> events_state" where
  "Events_new th = \<lparr>ready = False, throttling = th, event_id = 0, events_map_id = 0, events_map = [], queues = [], online_events = [],
     processing_events = [], subscriptions = [], ws_subscriptions = 0, ws_events = 0\<rparr>"

definition Ready :: "events_state \<Rightarrow> events_state" where
  "Ready st = st\<lparr>ready := True\<rparr>"

definition RegisterEvent :: "string \<Rightarrow> events_state \<Rightarrow> events_state" where
  "RegisterEvent name st = st\<lparr>events_map_id := events_map_id st + 1, events_map := smap_put (events_map st) name (sint (events_map_id st + 1))\<rparr>"

definition RegisterEvents :: "string list \<Rightarrow> events_state \<Rightarrow> events_state" where
  "RegisterEvents names st = fold RegisterEvent names st"

definition get_type :: "events_state \<Rightarrow> string \<Rightarrow> int" where
  "get_type st type_str = (case smap_find (events_map st) type_str of Some t \<Rightarrow> t | None \<Rightarrow> 0)"

text \<open>\<open>m[k]\<close> of a map to lists.\<close>

definition entry :: "('k::linorder, 'v list) smap \<Rightarrow> 'k \<Rightarrow> 'v list" where
  "entry m k = (case smap_find m k of Some xs \<Rightarrow> xs | None \<Rightarrow> [])"

section \<open>Subscriptions\<close>

definition Subscribe :: "string \<Rightarrow> nat \<Rightarrow> nat \<Rightarrow> int \<Rightarrow> string \<Rightarrow> events_state \<Rightarrow> unit res \<times> events_state" where
  "Subscribe type_str wsi flt ext cmd st =
     (let type = get_type st type_str in
      if type = 0 then (Inl (Exn ''Websocket'' (''Unknown event : '' @ type_str) ''INVALID_PARAMETER''), st)
      else (Inr (), st\<lparr>subscriptions := smap_put (subscriptions st) type
              (mmap_insert (entry (subscriptions st) type) wsi \<lparr>object_filter = flt, sub_api_cmd = cmd, sub_external_id = ext\<rparr>),
            ws_subscriptions := ws_subscriptions st + 1\<rparr>))"

definition Unsubscribe :: "string \<Rightarrow> nat \<Rightarrow> nat \<Rightarrow> int \<Rightarrow> events_state \<Rightarrow> events_state" where
  "Unsubscribe type_str wsi flt ext st =
     (let type = get_type st type_str in
      case smap_find (subscriptions st) type of None \<Rightarrow> st
      | Some subs \<Rightarrow>
          let left = filter (\<lambda>(w, s). \<not> (w = wsi \<and> object_filter s = flt \<and> (ext = 0 \<or> ext = sub_external_id s))) subs
          in st\<lparr>subscriptions := (if left = [] then smap_del (subscriptions st) type else smap_put (subscriptions st) type left),
               ws_subscriptions := ws_subscriptions st - int (length subs - length left),
               online_events := smap_del (online_events st) wsi\<rparr>)"

definition without :: "nat \<Rightarrow> (int, (nat \<times> subscription) list) smap \<Rightarrow> (int, (nat \<times> subscription) list) smap" where
  "without wsi m = filter (\<lambda>(t, subs). subs \<noteq> []) (map (\<lambda>(t, subs). (t, filter (\<lambda>(w, s). w \<noteq> wsi) subs)) m)"

definition subscription_count :: "(int, (nat \<times> subscription) list) smap \<Rightarrow> nat" where
  "subscription_count m = sum_list (map (\<lambda>(t, subs). length subs) m)"

definition UnsubscribeAll :: "nat \<Rightarrow> events_state \<Rightarrow> events_state" where
  "UnsubscribeAll wsi st = st\<lparr>subscriptions := without wsi (subscriptions st),
     ws_subscriptions := ws_subscriptions st - int (subscription_count (map (\<lambda>(t, subs). (t, filter (\<lambda>(w, s). w = wsi) subs)) (subscriptions st))),
     queues := smap_del (queues st) wsi, online_events := smap_del (online_events st) wsi,
     processing_events := smap_del (processing_events st) wsi\<rparr>"

section \<open>Events\<close>

definition insert_event :: "nat \<Rightarrow> event \<Rightarrow> events_state \<Rightarrow> events_state" where
  "insert_event wsi e st = st\<lparr>queues := smap_put (queues st) wsi (entry (queues st) wsi @ [e]),
     online_events := (if throttling st then smap_put (online_events st) wsi
       (entry (online_events st) wsi @ [\<lparr>oe_event = e, need_resend = False, object_ids = []\<rparr>]) else online_events st),
     ws_events := ws_events st + 1\<rparr>"

text \<open>The first event that is online and the same is marked to be sent again.\<close>

definition joined :: "string \<Rightarrow> nat \<Rightarrow> string" where
  "joined ids object_id = (if object_id = 0 then ids else (if ids \<noteq> [] then ids @ '','' else []) @ show_nat object_id)"

fun delay :: "event \<Rightarrow> nat \<Rightarrow> online_event list \<Rightarrow> online_event list option" where
  "delay e object_id [] = None"
| "delay e object_id (oe # oes) =
     (if event_eq (oe_event oe) e
      then Some (oe\<lparr>need_resend := True, object_ids := joined (object_ids oe) object_id\<rparr> # oes)
      else map_option ((#) oe) (delay e object_id oes))"

definition wanted :: "nat \<Rightarrow> nat \<Rightarrow> int \<Rightarrow> nat \<times> subscription \<Rightarrow> bool" where
  "wanted object_id filter_wsi filter_ext = (\<lambda>(wsi, sub).
     \<not> (filter_wsi \<noteq> 0 \<and> wsi \<noteq> filter_wsi) \<and> \<not> (filter_ext \<noteq> 0 \<and> sub_external_id sub \<noteq> filter_ext) \<and>
     \<not> (object_filter sub \<noteq> 0 \<and> object_filter sub \<noteq> object_id))"

definition event_for :: "nat \<Rightarrow> subscription \<Rightarrow> 64 word \<Rightarrow> event" where
  "event_for object_id sub i = \<lparr>ev_api_cmd = sub_api_cmd sub, ev_external_id = sub_external_id sub,
     ev_object_id = (if object_id = 0 then [] else show_nat object_id), ev_id = i\<rparr>"

definition notify :: "nat \<Rightarrow> nat \<times> subscription \<Rightarrow> events_state \<Rightarrow> events_state" where
  "notify object_id = (\<lambda>(wsi, sub) st.
     let st = st\<lparr>event_id := event_id st + 1\<rparr>;
         e = event_for object_id sub (event_id st)
     in case (if throttling st then delay e object_id (entry (online_events st) wsi) else None) of
          Some oes \<Rightarrow> st\<lparr>online_events := smap_put (online_events st) wsi oes\<rparr>
        | None \<Rightarrow> insert_event wsi e st)"

definition Create :: "string \<Rightarrow> nat \<Rightarrow> nat \<Rightarrow> int \<Rightarrow> events_state \<Rightarrow> events_state" where
  "Create type_str object_id filter_wsi filter_ext st =
     (if \<not> ready st then st
      else let type = get_type st type_str in
        if type = 0 then st
        else case smap_find (subscriptions st) type of None \<Rightarrow> st
          | Some subs \<Rightarrow> fold (notify object_id) (filter (wanted object_id filter_wsi filter_ext) subs) st)"

definition processing :: "events_state \<Rightarrow> nat \<Rightarrow> string \<Rightarrow> bool" where
  "processing st wsi cmd = (case smap_find (processing_events st) wsi of Some cmds \<Rightarrow> cmd \<in> cmds | None \<Rightarrow> False)"

definition available :: "events_state \<Rightarrow> nat \<times> event list \<Rightarrow> bool" where
  "available st = (\<lambda>(wsi, q). q \<noteq> [] \<and> \<not> processing st wsi (ev_api_cmd (hd q)))"

definition data_available :: "events_state \<Rightarrow> bool" where
  "data_available st \<longleftrightarrow> list_ex (available st) (queues st)"

definition Get :: "events_state \<Rightarrow> (nat \<times> event) option \<times> events_state" where
  "Get st = (case List.find (available st) (queues st) of None \<Rightarrow> (None, st)
     | Some (wsi, q) \<Rightarrow> (Some (wsi, hd q),
         st\<lparr>queues := smap_adjust (queues st) wsi tl,
            processing_events := smap_put (processing_events st) wsi
              (insert (ev_api_cmd (hd q)) (case smap_find (processing_events st) wsi of Some cmds \<Rightarrow> cmds | None \<Rightarrow> {}))\<rparr>))"

definition Processed :: "nat \<Rightarrow> string \<Rightarrow> events_state \<Rightarrow> events_state" where
  "Processed wsi cmd st = st\<lparr>processing_events := smap_adjust (processing_events st) wsi (\<lambda>cmds. cmds - {cmd})\<rparr>"

definition Ack :: "nat \<Rightarrow> 64 word \<Rightarrow> events_state \<Rightarrow> events_state" where
  "Ack wsi i st =
     (if \<not> throttling st then st
      else case List.extract (\<lambda>oe. ev_id (oe_event oe) = i) (entry (online_events st) wsi) of None \<Rightarrow> st
        | Some (before, oe, after) \<Rightarrow>
            let st = st\<lparr>online_events := smap_put (online_events st) wsi (before @ after)\<rparr>
            in if \<not> need_resend oe then st
               else let st = st\<lparr>event_id := event_id st + 1\<rparr>
                 in insert_event wsi ((oe_event oe)\<lparr>ev_id := event_id st, ev_object_id := object_ids oe\<rparr>) st)"

section \<open>Histories\<close>

datatype operation =
    OpSubscribe string nat nat int string
  | OpUnsubscribe string nat nat int
  | OpUnsubscribeAll nat
  | OpCreate string nat nat int
  | OpGet
  | OpProcessed nat string
  | OpAck nat "64 word"

fun perform :: "operation \<Rightarrow> events_state \<Rightarrow> events_state" where
  "perform (OpSubscribe ty w flt ext cmd) st = snd (Subscribe ty w flt ext cmd st)"
| "perform (OpUnsubscribe ty w flt ext) st = Unsubscribe ty w flt ext st"
| "perform (OpUnsubscribeAll w) st = UnsubscribeAll w st"
| "perform (OpCreate ty i w ext) st = Create ty i w ext st"
| "perform OpGet st = snd (Get st)"
| "perform (OpProcessed w cmd) st = Processed w cmd st"
| "perform (OpAck w i) st = Ack w i st"

definition leaves :: "nat \<Rightarrow> operation \<Rightarrow> bool" where
  "leaves w opn = (case opn of OpUnsubscribe ty v flt ext \<Rightarrow> v = w | OpUnsubscribeAll v \<Rightarrow> v = w | _ \<Rightarrow> False)"

text \<open>The events given to the workers by an operation.\<close>

definition given :: "operation \<Rightarrow> events_state \<Rightarrow> (nat \<times> event) option" where
  "given opn st = (if opn = OpGet then fst (Get st) else None)"

section \<open>What one client sees\<close>

definition key :: "event \<Rightarrow> string \<times> int" where
  "key e = (ev_api_cmd e, ev_external_id e)"

abbreviation queue_of :: "events_state \<Rightarrow> nat \<Rightarrow> event list" where
  "queue_of st w \<equiv> entry (queues st) w"

abbreviation online_of :: "events_state \<Rightarrow> nat \<Rightarrow> online_event list" where
  "online_of st w \<equiv> entry (online_events st) w"

definition fresh_online :: "event \<Rightarrow> online_event" where
  "fresh_online e = \<lparr>oe_event = e, need_resend = False, object_ids = []\<rparr>"

definition maps_ok :: "events_state \<Rightarrow> bool" where
  "maps_ok st \<longleftrightarrow> smap_inv (queues st) \<and> smap_inv (online_events st)"

lemma event_eq_key: "event_eq e f \<longleftrightarrow> key e = key f"
  by (auto simp: event_eq_def key_def)

lemma entry_put: "smap_inv m \<Longrightarrow> entry (smap_put m k v) j = (if j = k then v else entry m j)"
  by (simp add: entry_def smap_find_put)

lemma entry_del: "entry (smap_del m k) j = (if j = k then [] else entry m j)"
  by (simp add: entry_def smap_find_del)

lemma entry_adjust: "f [] = [] \<Longrightarrow> entry (smap_adjust m k f) j = (if j = k then f (entry m j) else entry m j)"
  by (simp add: entry_def smap_find_adjust split: option.splits)

lemma insert_event_view:
  assumes "maps_ok st"
  shows "maps_ok (insert_event w e st)" "throttling (insert_event w e st) = throttling st"
    "queue_of (insert_event w e st) v = (if v = w then queue_of st v @ [e] else queue_of st v)"
    "online_of (insert_event w e st) v = (if v = w \<and> throttling st then online_of st v @ [fresh_online e] else online_of st v)"
  using assms by (simp_all add: insert_event_def maps_ok_def smap_inv_put entry_put fresh_online_def)

lemma delay_Some:
  "delay e i oes = Some oes' \<Longrightarrow> \<exists>b oe a. oes = b @ oe # a \<and> key (oe_event oe) = key e \<and>
     oes' = b @ oe\<lparr>need_resend := True, object_ids := joined (object_ids oe) i\<rparr> # a"
proof (induction oes arbitrary: oes')
  case (Cons oe oes)
  show ?case
  proof (cases "event_eq (oe_event oe) e")
    case True
    then have "oe # oes = [] @ oe # oes" "oes' = [] @ oe\<lparr>need_resend := True, object_ids := joined (object_ids oe) i\<rparr> # oes"
      using Cons.prems by simp_all
    then show ?thesis using True by (metis event_eq_key)
  next
    case False
    then obtain rest where r: "delay e i oes = Some rest" "oes' = oe # rest" using Cons.prems by auto
    then obtain b o' a where "oes = b @ o' # a" "key (oe_event o') = key e"
        "rest = b @ o'\<lparr>need_resend := True, object_ids := joined (object_ids o') i\<rparr> # a"
      using Cons.IH by blast
    then show ?thesis using r(2) by (metis append_Cons)
  qed
qed simp

lemma delay_None: "delay e i oes = None \<Longrightarrow> oe \<in> set oes \<Longrightarrow> key (oe_event oe) \<noteq> key e"
  by (induction oes) (auto simp: event_eq_key split: if_splits)

lemma find_available: "List.find P xs = Some x \<Longrightarrow> x \<in> set xs \<and> P x"
  by (induction xs) (auto split: if_splits)

text \<open>
  A property of the events a client waits for and of its events online is kept by every operation when it is kept by the
  five ways they change: an event is added, marked, given to a worker, acknowledged, or acknowledged and sent again.
\<close>

locale client_view =
  fixes th :: bool
    and seen :: "event list \<Rightarrow> online_event list \<Rightarrow> bool"
    and may_ack :: "64 word \<Rightarrow> event list \<Rightarrow> bool"
    and may_give :: "event \<Rightarrow> bool"
  assumes push: "seen q oes \<Longrightarrow> (th \<Longrightarrow> \<forall>oe \<in> set oes. key (oe_event oe) \<noteq> key e) \<Longrightarrow>
      seen (q @ [e]) (if th then oes @ [fresh_online e] else oes)"
    and mark: "th \<Longrightarrow> seen q (b @ oe # a) \<Longrightarrow> seen q (b @ oe\<lparr>need_resend := True, object_ids := joined (object_ids oe) i\<rparr> # a)"
    and pop: "seen (e # q) oes \<Longrightarrow> may_give e \<Longrightarrow> seen q oes"
    and acked: "th \<Longrightarrow> seen q (b @ oe # a) \<Longrightarrow> may_ack (ev_id (oe_event oe)) q \<Longrightarrow> \<not> need_resend oe \<Longrightarrow> seen q (b @ a)"
    and resent: "th \<Longrightarrow> seen q (b @ oe # a) \<Longrightarrow> may_ack (ev_id (oe_event oe)) q \<Longrightarrow> need_resend oe \<Longrightarrow>
      key e = key (oe_event oe) \<Longrightarrow> ev_object_id e = object_ids oe \<Longrightarrow> seen (q @ [e]) (b @ a @ [fresh_online e])"
begin

definition sees :: "nat \<Rightarrow> events_state \<Rightarrow> bool" where
  "sees w st \<longleftrightarrow> maps_ok st \<and> throttling st = th \<and> seen (queue_of st w) (online_of st w)"

definition permitted :: "nat \<Rightarrow> operation \<Rightarrow> events_state \<Rightarrow> bool" where
  "permitted w opn st \<longleftrightarrow> \<not> leaves w opn \<and> (\<forall>i. opn = OpAck w i \<longrightarrow> may_ack i (queue_of st w)) \<and>
     (\<forall>e. given opn st = Some (w, e) \<longrightarrow> may_give e)"

lemma sees_insert:
  assumes "sees w st" "th \<Longrightarrow> v = w \<Longrightarrow> \<forall>oe \<in> set (online_of st w). key (oe_event oe) \<noteq> key e"
  shows "sees w (insert_event v e st)"
  using assms push [of "queue_of st w" "online_of st w" e] by (auto simp: sees_def insert_event_view)

lemma sees_notify:
  assumes "sees w st" shows "sees w (notify i (v, sub) st)"
proof -
  let ?st = "st\<lparr>event_id := event_id st + 1\<rparr>"
  let ?e = "event_for i sub (event_id st + 1)"
  have s: "sees w ?st" using assms by (simp add: sees_def maps_ok_def)
  let ?d = "if throttling st then delay ?e i (online_of st v) else None"
  show ?thesis
  proof (cases ?d)
    case None
    then have "sees w (insert_event v ?e ?st)"
      using s assms [unfolded sees_def] delay_None [of ?e i "online_of st w"] by (intro sees_insert) simp_all
    then show ?thesis using None by (cases "throttling st") (simp_all add: notify_def)
  next
    case (Some oes)
    then have th: th and d: "delay ?e i (online_of st v) = Some oes" using assms by (auto simp: sees_def split: if_splits)
    obtain b oe a where "online_of st v = b @ oe # a" "oes = b @ oe\<lparr>need_resend := True, object_ids := joined (object_ids oe) i\<rparr> # a"
      using delay_Some [OF d] by blast
    then have "seen (queue_of st w) (entry (smap_put (online_events st) v oes) w)"
      using assms mark [OF th] by (auto simp: sees_def maps_ok_def entry_put)
    then show ?thesis using Some assms by (auto simp: notify_def Let_def sees_def maps_ok_def smap_inv_put)
  qed
qed

lemma sees_create: "sees w st \<Longrightarrow> sees w (Create ty i v ext st)"
proof -
  have "sees w st \<Longrightarrow> sees w (fold (notify i) subs st)" for subs st
    by (induction subs arbitrary: st) (auto intro: sees_notify)
  then show "sees w st \<Longrightarrow> ?thesis" by (simp add: Create_def Let_def split: option.split)
qed

lemma sees_get:
  assumes "sees w st" "\<forall>e. fst (Get st) = Some (w, e) \<longrightarrow> may_give e" shows "sees w (snd (Get st))"
proof (cases "List.find (available st) (queues st)")
  case None
  then show ?thesis using assms by (simp add: Get_def)
next
  case (Some p)
  obtain v q where p: "p = (v, q)" by (cases p)
  have q: "(v, q) \<in> set (queues st)" "q \<noteq> []" using find_available [OF Some] by (auto simp: p available_def)
  have "entry (queues st) v = q"
    using q(1) assms(1) by (auto simp: sees_def maps_ok_def entry_def sm.find_in_pairs [THEN iffD2])
  then have "w = v \<Longrightarrow> seen (tl q) (online_of st w)"
    using assms Some p q(2) pop [of "hd q" "tl q"] by (auto simp: sees_def Get_def)
  then show ?thesis using assms(1) Some p \<open>entry (queues st) v = q\<close> by (auto simp: Get_def sees_def maps_ok_def entry_adjust)
qed

lemma sees_ack:
  assumes "sees w st" "v = w \<Longrightarrow> may_ack i (queue_of st w)" shows "sees w (Ack v i st)"
proof (cases "List.extract (\<lambda>oe. ev_id (oe_event oe) = i) (online_of st v)")
  case None
  then show ?thesis using assms by (simp add: Ack_def)
next
  case (Some p)
  obtain b oe a where p: "p = (b, oe, a)" by (cases p)
  have o: "online_of st v = b @ oe # a" "ev_id (oe_event oe) = i" using Some p by (auto simp: extract_Some_iff)
  let ?st = "st\<lparr>online_events := smap_put (online_events st) v (b @ a)\<rparr>"
  let ?e = "(oe_event oe)\<lparr>ev_id := event_id st + 1, ev_object_id := object_ids oe\<rparr>"
  let ?st' = "insert_event v ?e (?st\<lparr>event_id := event_id st + 1\<rparr>)"
  have m: "maps_ok (?st\<lparr>event_id := event_id st + 1\<rparr>)" using assms by (simp add: sees_def maps_ok_def smap_inv_put)
  have k: "key ?e = key (oe_event oe)" by (simp add: key_def)
  show ?thesis
  proof (cases "throttling st")
    case True
    then have th: th using assms by (simp add: sees_def)
    have "seen (queue_of ?st w) (online_of ?st w)" if "\<not> need_resend oe"
      using assms o that acked [OF th, of "queue_of st w" b oe a] by (auto simp: sees_def maps_ok_def entry_put)
    moreover have "seen (queue_of ?st' w) (online_of ?st' w)" if "need_resend oe"
      using that assms o resent [OF th, of "queue_of st w" b oe a ?e] True k by (auto simp: sees_def insert_event_view [OF m] maps_ok_def entry_put)
    ultimately show ?thesis
      using True assms(1) m unfolding sees_def by (simp add: Ack_def Some p Let_def insert_event_view [OF m]) (simp add: maps_ok_def smap_inv_put)
  qed (use assms in \<open>simp add: Ack_def\<close>)
qed

lemma sees_perform: "sees w st \<Longrightarrow> permitted w opn st \<Longrightarrow> sees w (perform opn st)"
proof (cases opn)
  case (OpUnsubscribe ty v flt ext)
  moreover assume "sees w st" "permitted w opn st"
  ultimately show ?thesis
    by (auto simp: Unsubscribe_def Let_def sees_def maps_ok_def smap_inv_del entry_del permitted_def leaves_def split: option.splits)
next
  case (OpUnsubscribeAll v)
  moreover assume "sees w st" "permitted w opn st"
  ultimately show ?thesis by (simp add: UnsubscribeAll_def sees_def maps_ok_def smap_inv_del entry_del permitted_def leaves_def)
qed (simp_all add: permitted_def given_def sees_create sees_get sees_ack, simp_all add: sees_def maps_ok_def Subscribe_def Let_def Processed_def)

end

section \<open>No event is forgotten\<close>

text \<open>The ids of a list separated by commas.\<close>

definition mentions :: "nat \<Rightarrow> string \<Rightarrow> bool" where
  "mentions i ids \<longleftrightarrow> i = 0 \<or> (\<exists>before after. ids = before @ show_nat i @ after \<and> (before = [] \<or> last before = CHR '','') \<and>
     (after = [] \<or> hd after = CHR '',''))"

lemma mentions_joined: "mentions i ids \<Longrightarrow> mentions i (joined ids j)"
proof -
  have "mentions i (ids @ CHR '','' # more)" if "mentions i ids" for more
  proof (cases "i = 0")
    case False
    then obtain b a where "ids = b @ show_nat i @ a" "b = [] \<or> last b = CHR '',''" "a = [] \<or> hd a = CHR '',''"
      using \<open>mentions i ids\<close> by (auto simp: mentions_def)
    then show ?thesis unfolding mentions_def
      by (intro disjI2 exI [of _ b] exI [of _ "a @ CHR '','' # more"]) (cases a; simp)
  qed (simp add: mentions_def)
  moreover assume "mentions i ids"
  moreover have "i \<noteq> 0 \<Longrightarrow> mentions i ids \<Longrightarrow> ids \<noteq> []" using show_nat_nonempty by (auto simp: mentions_def)
  ultimately show ?thesis by (cases "i = 0") (auto simp: joined_def mentions_def)
qed

lemma mentions_self: "mentions i (joined ids i)" "mentions i (show_nat i)"
proof -
  have "\<exists>b a. ids @ CHR '','' # show_nat i = b @ show_nat i @ a \<and> (b = [] \<or> last b = CHR '','') \<and> (a = [] \<or> hd a = CHR '','')"
    by (intro exI [of _ "ids @ '',''"] exI [of _ "[]"]) simp
  moreover have "\<exists>b a. show_nat i = b @ show_nat i @ a \<and> (b = [] \<or> last b = CHR '','') \<and> (a = [] \<or> hd a = CHR '','')"
    by (intro exI [of _ "[]"]) simp
  ultimately show "mentions i (joined ids i)" "mentions i (show_nat i)" by (auto simp: mentions_def joined_def)
qed

text \<open>The client waits for an event with the key that names the object, or one online will be sent again with it.\<close>

definition owed_in :: "string \<times> int \<Rightarrow> nat \<Rightarrow> event list \<Rightarrow> online_event list \<Rightarrow> bool" where
  "owed_in k i q oes \<longleftrightarrow> (\<exists>e \<in> set q. key e = k \<and> mentions i (ev_object_id e)) \<or>
     (\<exists>oe \<in> set oes. need_resend oe \<and> key (oe_event oe) = k \<and> mentions i (object_ids oe))"

definition owed :: "nat \<Rightarrow> string \<times> int \<Rightarrow> nat \<Rightarrow> events_state \<Rightarrow> bool" where
  "owed w k i st \<longleftrightarrow> owed_in k i (queue_of st w) (online_of st w)"

interpretation owing: client_view th "owed_in k i" "\<lambda>_ _. True" "\<lambda>e. \<not> (key e = k \<and> mentions i (ev_object_id e))" for th k i
  by unfold_locales (auto simp: owed_in_def mentions_joined)

lemma notify_owes:
  assumes "maps_ok st"
  shows "owed w (sub_api_cmd sub, sub_external_id sub) i (notify i (w, sub) st)"
proof -
  let ?e = "event_for i sub (event_id st + 1)"
  let ?st = "st\<lparr>event_id := event_id st + 1\<rparr>"
  have m: "maps_ok ?st" using assms by (simp add: maps_ok_def)
  have k: "key ?e = (sub_api_cmd sub, sub_external_id sub)" "mentions i (ev_object_id ?e)"
    by (simp_all add: key_def event_for_def mentions_self) (simp add: mentions_def)
  show ?thesis
  proof (cases "if throttling st then delay ?e i (online_of st w) else None")
    case None
    then have "notify i (w, sub) st = insert_event w ?e ?st" by (cases "throttling st") (simp_all add: notify_def)
    then show ?thesis using k by (auto simp: owed_def owed_in_def insert_event_view [OF m])
  next
    case (Some oes)
    then have d: "delay ?e i (online_of st w) = Some oes" and t: "throttling st" by (auto split: if_splits)
    obtain b oe a where "key (oe_event oe) = key ?e" "oes = b @ oe\<lparr>need_resend := True, object_ids := joined (object_ids oe) i\<rparr> # a"
      using delay_Some [OF d] by blast
    then have "owed_in (key ?e) i (queue_of st w) oes" by (auto simp: owed_in_def mentions_self)
    then show ?thesis using d t k(1) assms by (simp add: notify_def owed_def maps_ok_def entry_put)
  qed
qed

lemma notify_maps: "maps_ok st \<Longrightarrow> maps_ok (notify i s st) \<and> throttling (notify i s st) = throttling st"
  by (cases s) (auto simp: notify_def Let_def insert_event_def maps_ok_def smap_inv_put split: option.splits)

lemma notify_all_owes:
  "maps_ok st \<Longrightarrow> (w, sub) \<in> set subs \<Longrightarrow> owing.sees (throttling st) (sub_api_cmd sub, sub_external_id sub) i w (fold (notify i) subs st)"
proof (induction subs arbitrary: st)
  case (Cons s subs)
  have n: "maps_ok (notify i s st)" "throttling (notify i s st) = throttling st" using notify_maps Cons.prems(1) by blast+
  show ?case
  proof (cases "s = (w, sub)")
    case True
    have step: "owing.sees th k i w st \<Longrightarrow> owing.sees th k i w (fold (notify i) subs st)" for th k st
      by (induction subs arbitrary: st) (auto intro: owing.sees_notify)
    have "owing.sees (throttling st) (sub_api_cmd sub, sub_external_id sub) i w (notify i s st)"
      using notify_owes [OF Cons.prems(1), of w sub i] n True by (simp add: owing.sees_def owed_def)
    then show ?thesis using step by simp
  next
    case False
    then show ?thesis using Cons n by fastforce
  qed
qed simp

fun sent :: "nat \<Rightarrow> operation list \<Rightarrow> events_state \<Rightarrow> event list" where
  "sent w [] st = []"
| "sent w (opn # ops) st = (case given opn st of Some (v, e) \<Rightarrow> if v = w then [e] else [] | None \<Rightarrow> []) @ sent w ops (perform opn st)"

text \<open>C29: When an event is created, every client with a subscription that wants it gets it: from then on, whatever the
  clients and the workers do, as long as the client does not unsubscribe, either a worker has been given an event for that
  command and external id that names the object, or one is waiting or will be sent on the next acknowledgement.\<close>
theorem no_event_forgotten:
  assumes "maps_ok st" "ready st" "get_type st ty \<noteq> 0"
    and "(w, sub) \<in> set (entry (subscriptions st) (get_type st ty))" "wanted i fw fx (w, sub)"
    and "\<forall>opn \<in> set ops. \<not> leaves w opn"
  shows "(\<exists>e \<in> set (sent w ops (Create ty i fw fx st)). key e = (sub_api_cmd sub, sub_external_id sub) \<and> mentions i (ev_object_id e)) \<or>
    owed w (sub_api_cmd sub, sub_external_id sub) i (fold perform ops (Create ty i fw fx st))"
proof -
  let ?k = "(sub_api_cmd sub, sub_external_id sub)"
  have kept: "owing.sees th ?k i w s \<Longrightarrow> \<forall>opn \<in> set ops. \<not> leaves w opn \<Longrightarrow>
      \<not> (\<exists>e \<in> set (sent w ops s). key e = ?k \<and> mentions i (ev_object_id e)) \<Longrightarrow> owing.sees th ?k i w (fold perform ops s)" for th s
  proof (induction ops arbitrary: s)
    case (Cons opn ops)
    have "owing.permitted ?k i w opn s" unfolding owing.permitted_def using Cons.prems by auto
    then have "owing.sees th ?k i w (perform opn s)" by (rule owing.sees_perform [OF Cons.prems(1)])
    then show ?case using Cons.IH [of "perform opn s"] Cons.prems(2,3) by simp
  qed simp
  have "owing.sees (throttling st) ?k i w (Create ty i fw fx st)"
    using assms(2-5) notify_all_owes [OF assms(1), of w sub "filter (wanted i fw fx) (entry (subscriptions st) (get_type st ty))" i]
    by (auto simp: Create_def Let_def entry_def split: option.splits)
  then show ?thesis using kept [OF _ assms(6)] by (auto simp: owing.sees_def owed_def)
qed

definition sample_events :: events_state where
  "sample_events = \<lparr>ready = True, throttling = True, event_id = 0, events_map_id = 1, events_map = [(''TASK'', 1)], queues = [], online_events = [],
     processing_events = [], subscriptions = [(1, [(5, \<lparr>object_filter = 0, sub_api_cmd = ''<task/>'', sub_external_id = 7\<rparr>)])],
     ws_subscriptions = 1, ws_events = 0\<rparr>"

lemma no_event_forgotten_witness:
  "(\<exists>e \<in> set (sent 5 [OpProcessed 5 ''<task/>'', OpAck 5 9, OpCreate ''TASK'' 3 0 0] (Create ''TASK'' 2 0 0 sample_events)).
      key e = (''<task/>'', 7) \<and> mentions 2 (ev_object_id e)) \<or>
   owed 5 (''<task/>'', 7) 2 (fold perform [OpProcessed 5 ''<task/>'', OpAck 5 9, OpCreate ''TASK'' 3 0 0] (Create ''TASK'' 2 0 0 sample_events))"
  using no_event_forgotten [of sample_events "''TASK''" 5 "\<lparr>object_filter = 0, sub_api_cmd = ''<task/>'', sub_external_id = 7\<rparr>" 2 0 0
      "[OpProcessed 5 ''<task/>'', OpAck 5 9, OpCreate ''TASK'' 3 0 0]"]
  by (simp add: sample_events_def maps_ok_def smap_inv_def get_type_def entry_def wanted_def leaves_def)

section \<open>One event at a time\<close>

definition waiting :: "event list \<Rightarrow> online_event list \<Rightarrow> bool" where
  "waiting q oes \<longleftrightarrow> distinct (map (\<lambda>oe. key (oe_event oe)) oes) \<and> distinct (map key q) \<and> set q \<subseteq> oe_event ` set oes"

definition in_flight :: "event \<Rightarrow> event list \<Rightarrow> online_event list \<Rightarrow> bool" where
  "in_flight e q oes \<longleftrightarrow> waiting q oes \<and> e \<in> oe_event ` set oes \<and> key e \<notin> key ` set q"

lemma marked_same:
  "waiting q (b @ oe\<lparr>need_resend := True, object_ids := x\<rparr> # a) = waiting q (b @ oe # a)"
  "in_flight e q (b @ oe\<lparr>need_resend := True, object_ids := x\<rparr> # a) = in_flight e q (b @ oe # a)"
  by (simp_all add: waiting_def in_flight_def)

lemma waiting_push:
  assumes "waiting q oes" "\<forall>oe \<in> set oes. key (oe_event oe) \<noteq> key e"
  shows "waiting (q @ [e]) (oes @ [fresh_online e])" "key e \<notin> key ` set q"
proof -
  have "set q \<subseteq> oe_event ` set oes" using assms(1) by (simp add: waiting_def)
  then show k: "key e \<notin> key ` set q" using assms(2) by (metis (no_types, lifting) imageE subsetD)
  show "waiting (q @ [e]) (oes @ [fresh_online e])"
    using assms k by (auto simp: waiting_def fresh_online_def)
qed

lemma waiting_removed:
  assumes "waiting q (b @ oe # a)" "ev_id (oe_event oe) \<notin> ev_id ` set q"
  shows "waiting q (b @ a)" "\<forall>x \<in> set (b @ a). key (oe_event x) \<noteq> key (oe_event oe)"
proof -
  have "oe_event oe \<notin> set q" using assms(2) by blast
  then show "waiting q (b @ a)" using assms(1) by (auto simp: waiting_def)
  have "key (oe_event oe) \<notin> (\<lambda>x. key (oe_event x)) ` set (b @ a)" using assms(1) by (auto simp: waiting_def)
  then show "\<forall>x \<in> set (b @ a). key (oe_event x) \<noteq> key (oe_event oe)" by (metis imageI)
qed

lemma waiting_pop: "waiting (e # q) oes \<Longrightarrow> waiting q oes"
  by (simp add: waiting_def)

text \<open>A client that acknowledges only what it was sent.\<close>

interpretation throttled: client_view True waiting "\<lambda>i q. i \<notin> ev_id ` set q" "\<lambda>_. True"
proof unfold_locales
  show "waiting (q @ [e]) (if True then oes @ [fresh_online e] else oes)"
    if "waiting q oes" "True \<Longrightarrow> \<forall>oe \<in> set oes. key (oe_event oe) \<noteq> key e" for q oes e
    using that waiting_push(1) by simp
  fix q b oe a
  assume i: "waiting q (b @ oe # a)" "ev_id (oe_event oe) \<notin> ev_id ` set q"
  show r: "waiting q (b @ a)" by (rule waiting_removed(1) [OF i])
  show "waiting (q @ [e]) (b @ a @ [fresh_online e])" if "key e = key (oe_event oe)" for e
    using waiting_push(1) [OF r, of e] waiting_removed(2) [OF i] that by simp
qed (simp_all only: marked_same waiting_pop)

interpretation flying: client_view True "in_flight e" "\<lambda>i q. i \<notin> ev_id ` set q \<and> i \<noteq> ev_id e" "\<lambda>_. True" for e
proof unfold_locales
  show "in_flight e (q @ [f]) (if True then oes @ [fresh_online f] else oes)"
    if i: "in_flight e q oes" and new: "True \<Longrightarrow> \<forall>oe \<in> set oes. key (oe_event oe) \<noteq> key f" for q oes f
  proof -
    have "waiting q oes" "e \<in> oe_event ` set oes" "key e \<notin> key ` set q" using i by (simp_all add: in_flight_def)
    moreover have "key e \<noteq> key f" using new calculation(2) by auto
    ultimately show ?thesis using new waiting_push(1) [of q oes f] by (simp add: in_flight_def)
  qed
  fix q b oe a
  assume i: "in_flight e q (b @ oe # a)" and ack: "ev_id (oe_event oe) \<notin> ev_id ` set q \<and> ev_id (oe_event oe) \<noteq> ev_id e"
  have w: "waiting q (b @ oe # a)" "e \<in> oe_event ` set (b @ oe # a)" "key e \<notin> key ` set q" using i by (simp_all add: in_flight_def)
  have e: "e \<in> oe_event ` set (b @ a)" using w(2) ack by auto
  show r: "in_flight e q (b @ a)" using w e waiting_removed(1) ack by (simp add: in_flight_def)
  show "in_flight e (q @ [f]) (b @ a @ [fresh_online f])" if f: "key f = key (oe_event oe)" for f
  proof -
    have "\<forall>x \<in> set (b @ a). key (oe_event x) \<noteq> key f" using w(1) f waiting_removed(2) ack by simp
    moreover from this have "key e \<noteq> key f" using e by auto
    ultimately show ?thesis using w r waiting_push(1) [of q "b @ a" f] by (simp add: in_flight_def)
  qed
next
  show "in_flight e q oes" if "in_flight e (f # q) oes" for f q oes
    using that waiting_pop [of f q oes] by (simp add: in_flight_def)
qed (simp_all only: marked_same)

fun careful :: "nat \<Rightarrow> operation list \<Rightarrow> events_state \<Rightarrow> bool" where
  "careful w [] st \<longleftrightarrow> True"
| "careful w (opn # ops) st \<longleftrightarrow> \<not> leaves w opn \<and> (\<forall>i \<in> ev_id ` set (queue_of st w). opn \<noteq> OpAck w i) \<and> careful w ops (perform opn st)"

lemma careful_append: "careful w (xs @ ys) st \<longleftrightarrow> careful w xs st \<and> careful w ys (fold perform xs st)"
  by (induction xs arbitrary: st) auto

lemma careful_waits: "throttled.sees w st \<Longrightarrow> careful w ops st \<Longrightarrow> throttled.sees w (fold perform ops st)"
proof (induction ops arbitrary: st)
  case (Cons opn ops)
  then have "throttled.permitted w opn st" by (auto simp: throttled.permitted_def)
  then show ?case using Cons throttled.sees_perform [OF Cons.prems(1)] by simp
qed simp

lemma careful_flies:
  "flying.sees e w st \<Longrightarrow> careful w ops st \<Longrightarrow> OpAck w (ev_id e) \<notin> set ops \<Longrightarrow> flying.sees e w (fold perform ops st)"
proof (induction ops arbitrary: st)
  case (Cons opn ops)
  have "flying.permitted e w opn st" using Cons.prems(2,3) by (auto simp: flying.permitted_def)
  then show ?case using Cons flying.sees_perform [OF Cons.prems(1)] by simp
qed simp

lemma get_given:
  assumes "throttled.sees w st" "fst (Get st) = Some (w, e)"
  shows "e \<in> set (queue_of st w)" "flying.sees e w (snd (Get st))"
proof -
  obtain q where f: "List.find (available st) (queues st) = Some (w, q)" "e = hd q"
    using assms(2) by (auto simp: Get_def split: option.splits)
  have q: "(w, q) \<in> set (queues st)" "q \<noteq> []" using find_available [OF f(1)] by (auto simp: available_def)
  have m: "maps_ok st" using assms(1) by (simp add: throttled.sees_def)
  then have e: "queue_of st w = q" using q(1) by (simp add: maps_ok_def entry_def sm.find_in_pairs [THEN iffD2])
  then obtain rest where r: "queue_of st w = e # rest" using q(2) f(2) by (cases q) auto
  then show "e \<in> set (queue_of st w)" by simp
  have "throttled.sees w (snd (Get st))" using throttled.sees_get [OF assms(1)] by simp
  moreover have "queue_of (snd (Get st)) w = rest" "online_of (snd (Get st)) w = online_of st w"
    using f r by (simp_all add: Get_def entry_adjust)
  moreover have "waiting (e # rest) (online_of st w)" using assms(1) r by (simp add: throttled.sees_def)
  ultimately show "flying.sees e w (snd (Get st))"
    by (auto simp: flying.sees_def throttled.sees_def in_flight_def waiting_def)
qed

text \<open>C30: With throttling, a client is sent two events for the same command and external id only when it has acknowledged
  the first between the two, whatever is created meanwhile, if it never unsubscribes nor acknowledges an event before it is sent.\<close>
theorem one_event_at_a_time:
  assumes "maps_ok st" "throttling st" "queue_of st w = []" "online_of st w = []"
    and "careful w (ops @ OpGet # ops' @ [OpGet]) st"
    and "given OpGet (fold perform ops st) = Some (w, e)"
    and "given OpGet (fold perform (ops @ OpGet # ops') st) = Some (w, f)" "key f = key e"
  shows "OpAck w (ev_id e) \<in> set ops'"
proof (rule ccontr)
  assume "OpAck w (ev_id e) \<notin> set ops'"
  have "throttled.sees w st" using assms(1-4) by (simp add: throttled.sees_def waiting_def)
  then have t: "throttled.sees w (fold perform ops st)" using assms(5) by (simp add: careful_append careful_waits)
  have "flying.sees e w (snd (Get (fold perform ops st)))" using get_given(2) [OF t] assms(6) by (simp add: given_def)
  then have s: "flying.sees e w (fold perform (ops @ OpGet # ops') st)"
    using careful_flies \<open>OpAck w (ev_id e) \<notin> set ops'\<close> assms(5) by (simp add: careful_append)
  then have "throttled.sees w (fold perform (ops @ OpGet # ops') st)" by (simp add: flying.sees_def throttled.sees_def in_flight_def)
  then have "f \<in> set (queue_of (fold perform (ops @ OpGet # ops') st) w)" using get_given(1) assms(7) by (simp add: given_def)
  then have "key e \<in> key ` set (queue_of (fold perform (ops @ OpGet # ops') st) w)" using assms(8) by (metis imageI)
  then show False using s by (simp add: flying.sees_def in_flight_def)
qed

lemma one_event_at_a_time_witness:
  "\<exists>e f. given OpGet (fold perform [OpCreate ''TASK'' 2 0 0] sample_events) = Some (5, e) \<and>
     given OpGet (fold perform ([OpCreate ''TASK'' 2 0 0] @ OpGet # [OpCreate ''TASK'' 3 0 0, OpProcessed 5 ''<task/>'', OpAck 5 1]) sample_events) = Some (5, f) \<and>
     ev_object_id f = ''3'' \<and> OpAck 5 (ev_id e) \<in> set [OpCreate ''TASK'' 3 0 0, OpProcessed 5 ''<task/>'', OpAck 5 1]"
proof -
  let ?ops = "[OpCreate ''TASK'' 2 0 0]" and ?ops' = "[OpCreate ''TASK'' 3 0 0, OpProcessed 5 ''<task/>'', OpAck 5 1]"
  let ?e = "\<lparr>ev_api_cmd = ''<task/>'', ev_external_id = 7, ev_object_id = ''2'', ev_id = 1\<rparr>"
  let ?f = "\<lparr>ev_api_cmd = ''<task/>'', ev_external_id = 7, ev_object_id = ''3'', ev_id = 3\<rparr>"
  have n: "show_nat 2 = ''2''" "show_nat 3 = ''3''" by code_simp+
  note defs = sample_events_def given_def Get_def Create_def get_type_def wanted_def notify_def Let_def entry_def event_for_def insert_event_def
    available_def processing_def smap_adjust_def Processed_def Ack_def extract_Cons_code joined_def event_eq_def n
  have 1: "given OpGet (fold perform ?ops sample_events) = Some (5, ?e)" by (simp add: defs)
  have 2: "given OpGet (fold perform (?ops @ OpGet # ?ops') sample_events) = Some (5, ?f)" by (simp add: defs)
  have "careful 5 (?ops @ OpGet # ?ops' @ [OpGet]) sample_events" by (simp add: defs leaves_def)
  moreover have "maps_ok sample_events" "throttling sample_events" "queue_of sample_events 5 = []" "online_of sample_events 5 = []"
    by (simp_all add: sample_events_def maps_ok_def smap_inv_def entry_def)
  moreover have "key ?f = key ?e" by (simp add: key_def)
  ultimately have "OpAck 5 (ev_id ?e) \<in> set ?ops'" using 1 2 by (intro one_event_at_a_time [of sample_events 5 ?ops ?ops' ?e ?f])
  with 1 2 show ?thesis by (intro exI [of _ ?e] exI [of _ ?f]) simp
qed

section \<open>Further facts\<close>

text \<open>The wait of a worker ends exactly when there is an event for it.\<close>

lemma find_ex: "(List.find P xs \<noteq> None) = list_ex P xs"
  by (induction xs) auto

lemma data_available_gets: "data_available st \<longleftrightarrow> fst (Get st) \<noteq> None"
  by (auto simp: data_available_def Get_def find_ex [symmetric] split: option.splits)

text \<open>The number of subscriptions the statistics show is that of the subscriptions there are.\<close>

lemma subscription_count_put:
  assumes "smap_inv m"
  shows "subscription_count (smap_put m k v) + length (entry m k) = subscription_count m + length v"
  using assms
proof (induction m k v rule: smap_put.induct)
  case (2 a w m k v)
  have "k < a \<Longrightarrow> smap_find m k = None"
    using 2(2) by (fastforce simp: smap_inv_def smap_find_map_of map_of_eq_None_iff)
  then show ?case using 2 by (auto simp: subscription_count_def entry_def smap_inv_def)
qed (simp add: subscription_count_def entry_def)

lemma subscription_count_del:
  "smap_inv m \<Longrightarrow> subscription_count (smap_del m k) + length (entry m k) = subscription_count m"
proof (induction m)
  case (Cons p m)
  obtain a w where p: "p = (a, w)" by (cases p)
  have "a = k \<Longrightarrow> smap_del m k = m"
    using Cons.prems p by (auto simp: smap_del_def smap_inv_def intro!: filter_True)
  then show ?case using Cons p by (auto simp: subscription_count_def smap_del_def entry_def smap_inv_def)
qed (simp add: subscription_count_def smap_del_def entry_def)

lemma subscription_count_without:
  "subscription_count (without w m) + subscription_count (map (\<lambda>(t, subs). (t, filter (\<lambda>(v, s). v = w) subs)) m) = subscription_count m"
proof (induction m)
  case (Cons p m)
  obtain t subs where p: "p = (t, subs)" by (cases p)
  have "length (filter (\<lambda>(v, s). v \<noteq> w) subs) + length (filter (\<lambda>(v, s). v = w) subs) = length subs"
    by (induction subs) auto
  then show ?case using Cons by (cases "filter (\<lambda>(v, s). v \<noteq> w) subs = []") (simp_all add: p subscription_count_def without_def)
qed (simp add: subscription_count_def without_def)

definition subscriptions_counted :: "events_state \<Rightarrow> bool" where
  "subscriptions_counted st \<longleftrightarrow> smap_inv (subscriptions st) \<and> ws_subscriptions st = int (subscription_count (subscriptions st))"

lemma smap_inv_without: "smap_inv m \<Longrightarrow> smap_inv (without w m)"
  unfolding without_def by (rule smap_inv_filter) (simp add: smap_inv_def comp_def case_prod_unfold)

lemma notify_subscriptions: "subscriptions (fold (notify i) subs st) = subscriptions st \<and> ws_subscriptions (fold (notify i) subs st) = ws_subscriptions st"
proof (induction subs arbitrary: st)
  case (Cons s subs)
  have "subscriptions (notify i s st) = subscriptions st \<and> ws_subscriptions (notify i s st) = ws_subscriptions st"
    by (cases s) (auto simp: notify_def Let_def insert_event_def split: option.split)
  then show ?case using Cons by simp
qed simp

lemma subscriptions_stay_counted: "subscriptions_counted st \<Longrightarrow> subscriptions_counted (perform opn st)"
proof (cases opn)
  case (OpSubscribe ty w flt ext cmd)
  moreover assume "subscriptions_counted st"
  ultimately show ?thesis
    using subscription_count_put [of "subscriptions st" "get_type st ty"
        "mmap_insert (entry (subscriptions st) (get_type st ty)) w \<lparr>object_filter = flt, sub_api_cmd = cmd, sub_external_id = ext\<rparr>"]
    by (auto simp: subscriptions_counted_def Subscribe_def Let_def smap_inv_put)
next
  case (OpUnsubscribe ty w flt ext)
  assume c: "subscriptions_counted st"
  show ?thesis
  proof (cases "smap_find (subscriptions st) (get_type st ty)")
    case None
    then show ?thesis using c OpUnsubscribe by (simp add: Unsubscribe_def Let_def)
  next
    case (Some subs)
    define left where "left = filter (\<lambda>(v, s). \<not> (v = w \<and> object_filter s = flt \<and> (ext = 0 \<or> ext = sub_external_id s))) subs"
    have u: "Unsubscribe ty w flt ext st = st\<lparr>subscriptions := (if left = [] then smap_del (subscriptions st) (get_type st ty)
          else smap_put (subscriptions st) (get_type st ty) left),
        ws_subscriptions := ws_subscriptions st - int (length subs - length left), online_events := smap_del (online_events st) w\<rparr>"
      by (simp add: Unsubscribe_def Let_def Some left_def)
    have "length left \<le> length subs" by (simp add: left_def)
    then show ?thesis
      using c OpUnsubscribe Some subscription_count_put [of "subscriptions st" "get_type st ty" left] subscription_count_del [of "subscriptions st" "get_type st ty"]
      by (auto simp: subscriptions_counted_def u smap_inv_put smap_inv_del entry_def)
  qed
next
  case (OpUnsubscribeAll w)
  moreover assume "subscriptions_counted st"
  ultimately show ?thesis
    using subscription_count_without [of w "subscriptions st"] by (auto simp: subscriptions_counted_def UnsubscribeAll_def smap_inv_without)
qed (auto simp: subscriptions_counted_def Create_def Let_def notify_subscriptions Get_def Processed_def Ack_def insert_event_def split: option.splits)

text \<open>Leaving one type makes the client forget the events of all types that were to be sent again.\<close>

lemma unsubscribe_forgets:
  "smap_find (subscriptions st) (get_type st ty) \<noteq> None \<Longrightarrow> online_of (Unsubscribe ty w flt ext st) w = []"
  by (auto simp: Unsubscribe_def Let_def entry_del)

end
