(* ===== verification/WSServer.thy ===== *)
theory WSServer
  imports Session Events Base64
begin

text \<open>
  The websocket server: the callbacks of src/WS/WSServer.cpp, the buffer of commands (include/WS/APICmdBuffer.h) and the
  workers of src/WS/APIWorker.cpp and src/WS/EventsWorker.cpp, over the sessions of the API and the events. Callbacks run on
  one thread; a step of a worker is its \<open>get\<close>, which holds the lock of its producer, its query, or what it does after it.
  A session is an object: \<open>sessions\<close> are those that are allocated, and a use of another is undefined behaviour. An
  exception in a callback makes the library close the connection, one in a worker ends the process. The data of a
  connection and what the library knows of it exist as long as the connection.
\<close>

section \<open>State\<close>

datatype protocol = API | EVENTS

record client =
  protocol_of :: protocol
  session_of :: nat
  cmd_buffer :: string

datatype job = ApiJob string | EventJob event

record worker =
  w_wsi :: nat
  w_session :: nat
  w_job :: job
  answered :: bool

record ('w, 'n) server =
  clients :: "(nat, client) smap"
  sessions :: "(nat, 'n session) smap"
  next_session :: nat
  api_cmds :: "(nat \<times> string) list"
  workers :: "worker list"
  events :: events_state
  world :: 'w
  writable :: "nat set"
  sent_msgs :: "(nat \<times> 'n message) list"

record ('w, 'n) ws_env = "('w, 'n) session_env" +
  parse :: "string \<Rightarrow> string \<Rightarrow> query res"
  table_end :: "nat \<Rightarrow> 8 word"

definition session_freed :: "'a res" where
  "session_freed = Inl (UB ''use of a deleted session'')"

definition with_session :: "('w, 'n) server \<Rightarrow> nat \<Rightarrow> ('n session \<Rightarrow> 'a res) \<Rightarrow> 'a res" where
  "with_session sv sid f = (case smap_find (sessions sv) sid of None \<Rightarrow> session_freed | Some ss \<Rightarrow> f ss)"

definition put_session :: "nat \<Rightarrow> 'n session \<Rightarrow> ('w, 'n) server \<Rightarrow> ('w, 'n) server" where
  "put_session sid ss sv = sv\<lparr>sessions := smap_put (sessions sv) sid ss\<rparr>"

definition want_write :: "nat \<Rightarrow> ('w, 'n) server \<Rightarrow> ('w, 'n) server" where
  "want_write wsi sv = sv\<lparr>writable := insert wsi (writable sv)\<rparr>"

definition send :: "nat \<Rightarrow> 'n message list \<Rightarrow> ('w, 'n) server \<Rightarrow> ('w, 'n) server" where
  "send wsi ms sv = sv\<lparr>sent_msgs := sent_msgs sv @ map (Pair wsi) ms\<rparr>"

section \<open>Callbacks\<close>

definition established :: "nat \<Rightarrow> protocol \<Rightarrow> ('w, 'n) server \<Rightarrow> ('w, 'n) server" where
  "established wsi p sv = want_write wsi (sv\<lparr>
     sessions := smap_put (sessions sv) (next_session sv) (APISession_new ''Websocket''),
     clients := smap_put (clients sv) wsi \<lparr>protocol_of = p, session_of = next_session sv, cmd_buffer = []\<rparr>,
     next_session := next_session sv + 1\<rparr>)"

definition closed :: "nat \<Rightarrow> ('w, 'n) server \<Rightarrow> ('w, 'n) server res" where
  "closed wsi sv = (case smap_find (clients sv) wsi of None \<Rightarrow> Inr sv
     | Some cl \<Rightarrow> with_session sv (session_of cl) (\<lambda>ss. case FlagDeleted ss of (later, ss) \<Rightarrow>
         Inr (sv\<lparr>events := UnsubscribeAll wsi (events sv), clients := smap_del (clients sv) wsi, writable := writable sv - {wsi},
           sessions := (if later then smap_put (sessions sv) (session_of cl) ss else smap_del (sessions sv) (session_of cl))\<rparr>)))"

text \<open>The value is that of \<open>stoll\<close>.\<close>

definition GetRootAttributeLL :: "query \<Rightarrow> string \<Rightarrow> 64 word res" where
  "GetRootAttributeLL q name = (case q_attrs q name of None \<Rightarrow> missing_attribute q name
   | Some v \<Rightarrow> (case strtol10 v of
       Some (i, p) \<Rightarrow> if - (2 ^ 63) \<le> i \<and> i < 2 ^ 63 then Inr (word_of_int i)
         else Inl (Exn (q_context q) (''Attribute '' @ [CHR 0x27] @ name @ [CHR 0x27] @ '' has invalid integer value'') ''INVALID_INTEGER'')
     | None \<Rightarrow> Inl (Exn (q_context q) (''Attribute '' @ [CHR 0x27] @ name @ [CHR 0x27] @ '' has invalid integer value'') ''INVALID_INTEGER'')))"

definition subscribe_action :: "('w, 'n) ws_env \<Rightarrow> nat \<Rightarrow> query \<Rightarrow> events_state \<Rightarrow> unit res \<times> events_state" where
  "subscribe_action env wsi q ev =
     (case bindr (GetRootAttribute q ''type'') (\<lambda>ty. bindr (GetRootAttributeInt_default q ''object_id'' 0) (\<lambda>i.
           bindr (GetRootAttributeInt_default q ''external_id'' 0) (\<lambda>ext. bindr (GetRootAttribute q ''api_cmd'') (\<lambda>cmd64.
           bindr (base64_decode_string (table_end env) [] cmd64) (\<lambda>(ok, cmd).
             if \<not> ok then Inl (Exn ''Websocket'' ''Invalid base64 sequence'' ''INVALID_PARAMETER'') else Inr (ty, to_unsigned i, ext, cmd)))))) of
        Inl e \<Rightarrow> (Inl e, ev)
      | Inr (ty, i, ext, cmd) \<Rightarrow> (case Subscribe ty wsi i ext cmd ev of (Inl e, ev) \<Rightarrow> (Inl e, ev)
          | (Inr _, ev) \<Rightarrow> (case GetRootAttributeBool_default q ''send_now'' False of Inl e \<Rightarrow> (Inl e, ev)
              | Inr now \<Rightarrow> (Inr (), if now then Events.Create ty i wsi ext ev else ev))))"

definition event_query :: "('w, 'n) ws_env \<Rightarrow> nat \<Rightarrow> query \<Rightarrow> events_state \<Rightarrow> unit res \<times> events_state" where
  "event_query env wsi q ev =
     (if q_group q \<noteq> ''event'' then (Inl (Exn ''Websocket'' ''Only event query group is supported by this protocol'' ''UNKNOWN_COMMAND''), ev)
      else case GetRootAttribute q ''action'' of Inl e \<Rightarrow> (Inl e, ev)
        | Inr action \<Rightarrow>
            if action = ''subscribe'' then subscribe_action env wsi q ev
            else if action = ''unsubscribe'' then
              (case bindr (GetRootAttribute q ''type'') (\<lambda>ty. bindr (GetRootAttributeInt_default q ''object_id'' 0) (\<lambda>i.
                   bindr (GetRootAttributeInt_default q ''external_id'' 0) (\<lambda>ext. Inr (ty, to_unsigned i, ext)))) of
                 Inl e \<Rightarrow> (Inl e, ev) | Inr (ty, i, ext) \<Rightarrow> (Inr (), Unsubscribe ty wsi i ext ev))
            else if action = ''unsubscribeall'' then (Inr (), UnsubscribeAll wsi ev)
            else if action = ''ack'' then
              (case GetRootAttributeLL q ''event_id'' of Inl e \<Rightarrow> (Inl e, ev) | Inr i \<Rightarrow> (Inr (), Ack wsi i ev))
            else (Inr (), ev))"

text \<open>What a callback does, and whether it returned or raised; it ends as \<open>closing\<close> says.\<close>

definition closing :: "nat \<Rightarrow> unit res \<times> ('w, 'n) server \<Rightarrow> ('w, 'n) server res" where
  "closing wsi = (\<lambda>(r, sv). case r of Inr _ \<Rightarrow> Inr sv | Inl (Exn c e k) \<Rightarrow> closed wsi sv | Inl f \<Rightarrow> Inl f)"

definition message :: "('w, 'n) ws_env \<Rightarrow> nat \<Rightarrow> client \<Rightarrow> 'n session \<Rightarrow> string \<Rightarrow> ('w, 'n) server \<Rightarrow> unit res \<times> ('w, 'n) server" where
  "message env wsi cl ss input_xml sv =
     (case parse env ''Websocket'' input_xml of Inl e \<Rightarrow> (Inl e, sv)
      | Inr q \<Rightarrow>
          if status ss = WAITING_CHALLENGE_RESPONSE then
            (case ChallengeReceived (session_env.truncate env) (world sv) q ss of (Inl e, ss) \<Rightarrow> (Inl e, put_session (session_of cl) ss sv)
             | (Inr _, ss) \<Rightarrow> (Inr (), want_write wsi (put_session (session_of cl) ss sv)))
          else if status ss = READY then
            (case protocol_of cl of API \<Rightarrow> (Inr (), sv\<lparr>api_cmds := api_cmds sv @ [(wsi, input_xml)]\<rparr>)
             | EVENTS \<Rightarrow> (case event_query env wsi q (events sv) of (r, ev) \<Rightarrow> (r, sv\<lparr>events := ev\<rparr>)))
          else (Inr (), sv))"

definition receive :: "('w, 'n) ws_env \<Rightarrow> nat \<Rightarrow> string \<Rightarrow> bool \<Rightarrow> ('w, 'n) server \<Rightarrow> ('w, 'n) server res" where
  "receive env wsi data partial sv = (case smap_find (clients sv) wsi of None \<Rightarrow> Inr sv
     | Some cl \<Rightarrow>
         if partial then Inr (sv\<lparr>clients := smap_put (clients sv) wsi (cl\<lparr>cmd_buffer := cmd_buffer cl @ data\<rparr>)\<rparr>)
         else with_session sv (session_of cl) (\<lambda>ss.
           closing wsi (message env wsi cl ss (cmd_buffer cl @ data) (sv\<lparr>clients := smap_put (clients sv) wsi (cl\<lparr>cmd_buffer := []\<rparr>)\<rparr>))))"

definition writeable :: "('w, 'n) ws_env \<Rightarrow> nat \<Rightarrow> string res \<Rightarrow> string \<Rightarrow> ('w, 'n) server \<Rightarrow> ('w, 'n) server res" where
  "writeable env wsi fresh time sv = (case smap_find (clients sv) wsi of None \<Rightarrow> Inr sv
     | Some cl \<Rightarrow>
       if wsi \<notin> writable sv then Inr sv
       else let sv = sv\<lparr>writable := writable sv - {wsi}\<rparr> in
         with_session sv (session_of cl) (\<lambda>ss. closing wsi
           (case status ss of
              INITIALIZED \<Rightarrow> (case SendChallenge (session_env.truncate env) fresh ss of
                  (Inl e, ss) \<Rightarrow> (Inl e, put_session (session_of cl) ss sv)
                | (Inr ms, ss) \<Rightarrow> let sv = send wsi ms (put_session (session_of cl) ss sv)
                    in (Inr (), if status ss = AUTHENTICATED then want_write wsi sv else sv))
            | AUTHENTICATED \<Rightarrow> (case SendGreeting (session_env.truncate env) time ss of (ms, ss) \<Rightarrow> (Inr (), send wsi ms (put_session (session_of cl) ss sv)))
            | READY \<Rightarrow> (case SendResponse ss of ((some, ms), ss) \<Rightarrow>
                let sv = send wsi ms (put_session (session_of cl) ss sv)
                in (Inr (), if protocol_of cl = EVENTS \<and> some then want_write wsi sv else sv))
            | WAITING_CHALLENGE_RESPONSE \<Rightarrow> (Inr (), sv))))"

section \<open>Workers\<close>

definition start_job :: "nat \<Rightarrow> job \<Rightarrow> ('w, 'n) server \<Rightarrow> ('w, 'n) server res" where
  "start_job wsi j sv = (case smap_find (clients sv) wsi of None \<Rightarrow> session_freed
     | Some cl \<Rightarrow> with_session sv (session_of cl) (\<lambda>ss. Inr (put_session (session_of cl) (Acquire ss)
         (sv\<lparr>workers := workers sv @ [\<lparr>w_wsi = wsi, w_session = session_of cl, w_job = j, answered = False\<rparr>]\<rparr>))))"

definition api_get :: "('w, 'n) server \<Rightarrow> ('w, 'n) server res" where
  "api_get sv = (case api_cmds sv of [] \<Rightarrow> Inr sv | (wsi, cmd) # cmds \<Rightarrow> start_job wsi (ApiJob cmd) (sv\<lparr>api_cmds := cmds\<rparr>))"

definition event_get :: "('w, 'n) server \<Rightarrow> ('w, 'n) server res" where
  "event_get sv = (case Events.Get (events sv) of (None, _) \<Rightarrow> Inr sv
     | (Some (wsi, e), ev) \<Rightarrow> start_job wsi (EventJob e) (sv\<lparr>events := ev\<rparr>))"

definition job_query :: "('w, 'n) ws_env \<Rightarrow> job \<Rightarrow> query res" where
  "job_query env j = (case j of ApiJob cmd \<Rightarrow> parse env ''Websocket API worker'' cmd
     | EventJob e \<Rightarrow> parse env ''Websocket events worker'' (ev_api_cmd e))"

definition job_received :: "('w, 'n) ws_env \<Rightarrow> job \<Rightarrow> query \<Rightarrow> 'n session \<times> 'w \<Rightarrow> bool res \<times> 'n session \<times> 'w" where
  "job_received env j q = (case j of ApiJob cmd \<Rightarrow> QueryReceived (session_env.truncate env) q 0 [] 0
     | EventJob e \<Rightarrow> QueryReceived (session_env.truncate env) q (ev_external_id e) (ev_object_id e) (unat (ev_id e)))"

text \<open>The query of the \<open>i\<close>th job.\<close>

definition work :: "('w, 'n) ws_env \<Rightarrow> nat \<Rightarrow> ('w, 'n) server \<Rightarrow> ('w, 'n) server res" where
  "work env i sv =
     (if length (workers sv) \<le> i \<or> answered (workers sv ! i) then Inr sv
      else let k = workers sv ! i in
        bindr (job_query env (w_job k)) (\<lambda>q. with_session sv (w_session k) (\<lambda>ss.
          case job_received env (w_job k) q (ss, world sv) of (r, ss, w) \<Rightarrow>
            bindr r (\<lambda>_. Inr (put_session (w_session k) ss (sv\<lparr>world := w, workers := (workers sv)[i := k\<lparr>answered := True\<rparr>]\<rparr>))))))"

definition finish :: "nat \<Rightarrow> ('w, 'n) server \<Rightarrow> ('w, 'n) server res" where
  "finish i sv =
     (if length (workers sv) \<le> i \<or> \<not> answered (workers sv ! i) then Inr sv
      else let k = workers sv ! i; sv = sv\<lparr>workers := take i (workers sv) @ drop (Suc i) (workers sv)\<rparr> in
        with_session sv (w_session k) (\<lambda>ss. case Release ss of (gone, ss) \<Rightarrow>
          if gone then Inr (sv\<lparr>sessions := smap_del (sessions sv) (w_session k)\<rparr>)
          else let sv = put_session (w_session k) ss sv;
                   sv = (case w_job k of EventJob e \<Rightarrow> sv\<lparr>events := Processed (w_wsi k) (ev_api_cmd e) (events sv)\<rparr> | ApiJob cmd \<Rightarrow> sv)
            in Inr (want_write (w_wsi k) sv)))"

section \<open>Steps\<close>

datatype ws_step =
    Established nat protocol
  | Closed nat
  | Receive nat string bool
  | Writeable nat "string res" string
  | ApiGet
  | EventGet
  | Work nat
  | Finish nat
  | EngineEvent string nat

fun ws_run :: "('w, 'n) ws_env \<Rightarrow> ws_step \<Rightarrow> ('w, 'n) server \<Rightarrow> ('w, 'n) server res" where
  "ws_run env (Established wsi p) sv = Inr (established wsi p sv)"
| "ws_run env (Closed wsi) sv = closed wsi sv"
| "ws_run env (Receive wsi data partial) sv = receive env wsi data partial sv"
| "ws_run env (Writeable wsi fresh time) sv = writeable env wsi fresh time sv"
| "ws_run env ApiGet sv = api_get sv"
| "ws_run env EventGet sv = event_get sv"
| "ws_run env (Work i) sv = work env i sv"
| "ws_run env (Finish i) sv = finish i sv"
| "ws_run env (EngineEvent ty i) sv = Inr (sv\<lparr>events := Events.Create ty i 0 0 (events sv)\<rparr>)"

section \<open>Sessions live as long as they are used\<close>

text \<open>The clients the events know of.\<close>

definition subscribers :: "(int, (nat \<times> subscription) list) smap \<Rightarrow> nat set" where
  "subscribers m = fst ` (\<Union>p \<in> set m. set (snd p))"

definition mentioned :: "events_state \<Rightarrow> nat set" where
  "mentioned ev = {w. queue_of ev w \<noteq> []} \<union> subscribers (subscriptions ev)"

lemma entry_subscribers: "fst ` set (entry m t) \<subseteq> subscribers m"
proof (cases "smap_find m t")
  case (Some subs)
  then have "(t, subs) \<in> set m" by (simp add: smap_find_map_of map_of_SomeD)
  then show ?thesis using Some by (force simp: entry_def subscribers_def)
qed (simp add: entry_def)

lemma set_smap_put: "set (smap_put m k v) \<subseteq> insert (k, v) (set m)"
  by (induction m k v rule: smap_put.induct) auto

lemma subscribers_put: "subscribers (smap_put m k v) \<subseteq> subscribers m \<union> fst ` set v"
  using set_smap_put [of m k v] by (fastforce simp: subscribers_def)

lemma subscribers_del: "subscribers (smap_del m k) \<subseteq> subscribers m"
  by (auto simp: subscribers_def smap_del_def)

lemma subscribers_without: "subscribers (without w m) \<subseteq> subscribers m - {w}"
proof
  fix v assume "v \<in> subscribers (without w m)"
  then obtain p x where "p \<in> set (without w m)" "x \<in> set (snd p)" "v = fst x" by (auto simp: subscribers_def)
  moreover from this obtain t subs where "(t, subs) \<in> set m" "x \<in> set subs" "fst x \<noteq> w" by (auto simp: without_def)
  ultimately show "v \<in> subscribers m - {w}" by (force simp: subscribers_def)
qed

lemma subscribe_mentioned: "mentioned (snd (Subscribe ty w flt ext cmd ev)) \<subseteq> insert w (mentioned ev)"
proof -
  have "fst ` set (mmap_insert (entry (subscriptions ev) (get_type ev ty)) w s) \<subseteq> insert w (subscribers (subscriptions ev))" for s
    using entry_subscribers [of "subscriptions ev" "get_type ev ty"] by auto
  then have "subscribers (smap_put (subscriptions ev) (get_type ev ty) (mmap_insert (entry (subscriptions ev) (get_type ev ty)) w s)) \<subseteq>
      insert w (subscribers (subscriptions ev))" for s
    using subscribers_put [of "subscriptions ev" "get_type ev ty" "mmap_insert (entry (subscriptions ev) (get_type ev ty)) w s"] by blast
  then show ?thesis by (simp add: Subscribe_def Let_def mentioned_def) blast
qed

lemma insert_event_mentioned:
  assumes "maps_ok ev" shows "mentioned (insert_event w e ev) \<subseteq> insert w (mentioned ev)"
proof -
  have "subscriptions (insert_event w e ev) = subscriptions ev" by (simp add: insert_event_def)
  then show ?thesis using insert_event_view(3) [OF assms, of w e] by (auto simp: mentioned_def)
qed

lemma notify_mentioned: "maps_ok ev \<Longrightarrow> mentioned (notify i (w, s) ev) \<subseteq> insert w (mentioned ev)"
proof -
  assume "maps_ok ev"
  then have "maps_ok (ev\<lparr>event_id := event_id ev + 1\<rparr>)" by (simp add: maps_ok_def)
  moreover have "mentioned (ev\<lparr>event_id := event_id ev + 1\<rparr>) = mentioned ev" by (simp add: mentioned_def)
  ultimately show ?thesis
    using insert_event_mentioned [of "ev\<lparr>event_id := event_id ev + 1\<rparr>" w]
    by (auto simp: notify_def Let_def split: option.split) (auto simp: mentioned_def)
qed

lemma notify_all_mentioned:
  "maps_ok ev \<Longrightarrow> fst ` set subs \<subseteq> mentioned ev \<Longrightarrow> maps_ok (fold (notify i) subs ev) \<and> mentioned (fold (notify i) subs ev) \<subseteq> mentioned ev"
proof (induction subs arbitrary: ev)
  case (Cons s subs)
  obtain w t where s: "s = (w, t)" by (cases s)
  have m: "maps_ok (notify i s ev)" using notify_maps Cons.prems(1) by blast
  have le: "mentioned (notify i s ev) \<subseteq> mentioned ev" using notify_mentioned [OF Cons.prems(1)] Cons.prems(2) s by force
  have "fst ` set subs \<subseteq> mentioned (notify i s ev)"
  proof
    fix v assume "v \<in> fst ` set subs"
    then have "v \<in> mentioned ev" using Cons.prems(2) by auto
    moreover have "queue_of (notify i s ev) v = [] \<longrightarrow> queue_of ev v = []"
      using insert_event_view(3) [of "ev\<lparr>event_id := event_id ev + 1\<rparr>" w "event_for i t (event_id ev + 1)" v] Cons.prems(1) s
      by (auto simp: notify_def Let_def maps_ok_def split: option.splits)
    moreover have "subscriptions (notify i s ev) = subscriptions ev" using notify_subscriptions [of i "[s]" ev] by simp
    ultimately show "v \<in> mentioned (notify i s ev)" by (auto simp: mentioned_def)
  qed
  then show ?case using Cons.IH [OF m] le by fastforce
qed simp

lemma create_mentioned:
  assumes "maps_ok ev" shows "maps_ok (Events.Create ty i w ext ev) \<and> mentioned (Events.Create ty i w ext ev) \<subseteq> mentioned ev"
proof -
  have "fst ` set (filter (wanted i w ext) (entry (subscriptions ev) (get_type ev ty))) \<subseteq> mentioned ev"
    using entry_subscribers [of "subscriptions ev" "get_type ev ty"] by (auto simp: mentioned_def)
  from notify_all_mentioned [OF assms this, of i] show ?thesis
    using assms by (auto simp: Events.Create_def Let_def entry_def split: option.splits)
qed

lemma get_mentioned:
  assumes "maps_ok ev" "Events.Get ev = (Some (w, e), ev')"
  shows "w \<in> mentioned ev" "maps_ok ev'" "mentioned ev' \<subseteq> mentioned ev"
proof -
  obtain q where f: "List.find (available ev) (queues ev) = Some (w, q)"
    and ev': "ev' = snd (Events.Get ev)" using assms(2) by (auto simp: Events.Get_def split: option.splits)
  have q: "(w, q) \<in> set (queues ev)" "q \<noteq> []" using find_available [OF f] by (auto simp: available_def)
  then have "queue_of ev w = q" using assms(1) by (simp add: maps_ok_def entry_def sm.find_in_pairs [THEN iffD2])
  then show "w \<in> mentioned ev" using q(2) by (simp add: mentioned_def)
  show "maps_ok ev'" using assms(1) f by (simp add: ev' Events.Get_def maps_ok_def)
  show "mentioned ev' \<subseteq> mentioned ev" using f by (auto simp: ev' Events.Get_def mentioned_def entry_adjust split: if_splits)
qed

lemma ack_mentioned: "maps_ok ev \<Longrightarrow> maps_ok (Ack w i ev) \<and> mentioned (Ack w i ev) \<subseteq> insert w (mentioned ev)"
proof (cases "List.extract (\<lambda>oe. ev_id (oe_event oe) = i) (online_of ev w)")
  case (Some p)
  obtain b oe a where p: "p = (b, oe, a)" by (cases p)
  assume m: "maps_ok ev"
  let ?ev = "ev\<lparr>online_events := smap_put (online_events ev) w (b @ a)\<rparr>"
  have "maps_ok ?ev" "maps_ok (?ev\<lparr>event_id := event_id ev + 1\<rparr>)" using m by (simp_all add: maps_ok_def smap_inv_put)
  moreover have "mentioned ?ev = mentioned ev" "mentioned (?ev\<lparr>event_id := event_id ev + 1\<rparr>) = mentioned ev" by (simp_all add: mentioned_def)
  ultimately show ?thesis
    using m insert_event_view(1) insert_event_mentioned [of "?ev\<lparr>event_id := event_id ev + 1\<rparr>" w] by (auto simp: Ack_def Some p Let_def)
qed (auto simp: Ack_def)

lemma leave_mentioned:
  "maps_ok ev \<Longrightarrow> maps_ok (UnsubscribeAll w ev) \<and> mentioned (UnsubscribeAll w ev) \<subseteq> mentioned ev - {w}"
  using subscribers_without [of w "subscriptions ev"]
  by (auto simp: UnsubscribeAll_def maps_ok_def smap_inv_del mentioned_def entry_del split: if_splits)

lemma unsubscribe_mentioned:
  assumes "maps_ok ev" shows "maps_ok (Unsubscribe ty w flt ext ev) \<and> mentioned (Unsubscribe ty w flt ext ev) \<subseteq> mentioned ev"
proof -
  have "subscribers (smap_put (subscriptions ev) (get_type ev ty) (filter P subs)) \<subseteq> subscribers (subscriptions ev)"
    if "smap_find (subscriptions ev) (get_type ev ty) = Some subs" for P subs
    using that subscribers_put [of "subscriptions ev" "get_type ev ty" "filter P subs"] entry_subscribers [of "subscriptions ev" "get_type ev ty"]
    by (fastforce simp: entry_def)
  then show ?thesis
    using assms subscribers_del [of "subscriptions ev" "get_type ev ty"]
    by (auto simp: Unsubscribe_def Let_def maps_ok_def smap_inv_del mentioned_def split: option.split)
qed

lemma processed_mentioned: "maps_ok (Processed w cmd ev) = maps_ok ev" "mentioned (Processed w cmd ev) = mentioned ev"
  by (simp_all add: Processed_def maps_ok_def mentioned_def)

definition accepted :: "('w, 'n) session_env \<Rightarrow> user \<Rightarrow> bool" where
  "accepted env u \<longleftrightarrow> \<not> auth_enabled env \<and> u = anonymous \<or> (\<exists>w c q. HandleChallenge (aligned env) (user_list env w) c q = Inr u)"

text \<open>Sessions, clients, workers and the next session, all the invariant is about.\<close>

definition held :: "(nat, client) smap \<Rightarrow> nat set" where
  "held cls = {session_of cl | w cl. smap_find cls w = Some cl}"

definition uses :: "worker list \<Rightarrow> nat \<Rightarrow> nat" where
  "uses ks sid = length (filter (\<lambda>k. w_session k = sid) ks)"

definition session_ok :: "('w, 'n) session_env \<Rightarrow> nat set \<Rightarrow> nat \<Rightarrow> nat \<Rightarrow> nat \<Rightarrow> 'n session \<Rightarrow> bool" where
  "session_ok env holds n uses_n sid ss \<longleftrightarrow> acquired ss = int uses_n \<and> sid < n \<and>
     (status ss = AUTHENTICATED \<or> status ss = READY \<longrightarrow> accepted env (s_user ss)) \<and>
     (if sid \<in> holds then \<not> deleted ss else deleted ss \<and> uses_n \<noteq> 0)"

definition ready_session :: "(nat, 'n session) smap \<Rightarrow> nat \<Rightarrow> bool" where
  "ready_session m sid \<longleftrightarrow> (\<exists>ss. smap_find m sid = Some ss \<and> status ss = READY)"

definition ws_inv :: "('w, 'n) session_env \<Rightarrow> ('w, 'n) server \<Rightarrow> bool" where
  "ws_inv env sv \<longleftrightarrow> smap_inv (clients sv) \<and> smap_inv (sessions sv) \<and> maps_ok (events sv) \<and>
     (\<forall>w cl. smap_find (clients sv) w = Some cl \<longrightarrow> smap_find (sessions sv) (session_of cl) \<noteq> None) \<and>
     (\<forall>w v cl cl'. smap_find (clients sv) w = Some cl \<longrightarrow> smap_find (clients sv) v = Some cl' \<longrightarrow> session_of cl = session_of cl' \<longrightarrow> w = v) \<and>
     (\<forall>k \<in> set (workers sv). ready_session (sessions sv) (w_session k)) \<and>
     (\<forall>sid ss. smap_find (sessions sv) sid = Some ss \<longrightarrow> session_ok env (held (clients sv)) (next_session sv) (uses (workers sv) sid) sid ss) \<and>
     (\<forall>w \<in> fst ` set (api_cmds sv) \<union> mentioned (events sv). \<exists>cl. smap_find (clients sv) w = Some cl \<and> ready_session (sessions sv) (session_of cl))"

lemma ws_invD:
  assumes "ws_inv env sv"
  shows "smap_inv (clients sv)" "smap_inv (sessions sv)" "maps_ok (events sv)"
    "smap_find (clients sv) w = Some cl \<Longrightarrow> \<exists>ss. smap_find (sessions sv) (session_of cl) = Some ss"
    "smap_find (clients sv) w = Some cl \<Longrightarrow> smap_find (clients sv) v = Some cl' \<Longrightarrow> session_of cl = session_of cl' \<Longrightarrow> w = v"
    "k \<in> set (workers sv) \<Longrightarrow> ready_session (sessions sv) (w_session k)"
    "smap_find (sessions sv) sid = Some ss \<Longrightarrow> session_ok env (held (clients sv)) (next_session sv) (uses (workers sv) sid) sid ss"
    "w \<in> fst ` set (api_cmds sv) \<union> mentioned (events sv) \<Longrightarrow> \<exists>cl. smap_find (clients sv) w = Some cl \<and> ready_session (sessions sv) (session_of cl)"
proof -
  note c = assms [unfolded ws_inv_def]
  show "smap_inv (clients sv)" "smap_inv (sessions sv)" "maps_ok (events sv)" using c by simp_all
  from c have "\<forall>w cl. smap_find (clients sv) w = Some cl \<longrightarrow> smap_find (sessions sv) (session_of cl) \<noteq> None" by (elim conjE)
  then show "smap_find (clients sv) w = Some cl \<Longrightarrow> \<exists>ss. smap_find (sessions sv) (session_of cl) = Some ss" by auto
  from c have "\<forall>w v cl cl'. smap_find (clients sv) w = Some cl \<longrightarrow> smap_find (clients sv) v = Some cl' \<longrightarrow> session_of cl = session_of cl' \<longrightarrow> w = v"
    by (elim conjE)
  then show "smap_find (clients sv) w = Some cl \<Longrightarrow> smap_find (clients sv) v = Some cl' \<Longrightarrow> session_of cl = session_of cl' \<Longrightarrow> w = v" by simp
  from c have "\<forall>k \<in> set (workers sv). ready_session (sessions sv) (w_session k)" by (elim conjE)
  then show "k \<in> set (workers sv) \<Longrightarrow> ready_session (sessions sv) (w_session k)" by simp
  from c have "\<forall>sid ss. smap_find (sessions sv) sid = Some ss \<longrightarrow> session_ok env (held (clients sv)) (next_session sv) (uses (workers sv) sid) sid ss"
    by (elim conjE)
  then show "smap_find (sessions sv) sid = Some ss \<Longrightarrow> session_ok env (held (clients sv)) (next_session sv) (uses (workers sv) sid) sid ss" by simp
  from c have "\<forall>w \<in> fst ` set (api_cmds sv) \<union> mentioned (events sv). \<exists>cl. smap_find (clients sv) w = Some cl \<and> ready_session (sessions sv) (session_of cl)"
    by (elim conjE)
  then show "w \<in> fst ` set (api_cmds sv) \<union> mentioned (events sv) \<Longrightarrow> \<exists>cl. smap_find (clients sv) w = Some cl \<and> ready_session (sessions sv) (session_of cl)"
    by (rule bspec)
qed

lemma ws_invI:
  assumes "smap_inv (clients sv)" "smap_inv (sessions sv)" "maps_ok (events sv)"
    "\<And>w cl. smap_find (clients sv) w = Some cl \<Longrightarrow> smap_find (sessions sv) (session_of cl) \<noteq> None"
    "\<And>w v cl cl'. smap_find (clients sv) w = Some cl \<Longrightarrow> smap_find (clients sv) v = Some cl' \<Longrightarrow> session_of cl = session_of cl' \<Longrightarrow> w = v"
    "\<And>k. k \<in> set (workers sv) \<Longrightarrow> ready_session (sessions sv) (w_session k)"
    "\<And>sid ss. smap_find (sessions sv) sid = Some ss \<Longrightarrow> session_ok env (held (clients sv)) (next_session sv) (uses (workers sv) sid) sid ss"
    "\<And>w. w \<in> fst ` set (api_cmds sv) \<union> mentioned (events sv) \<Longrightarrow> \<exists>cl. smap_find (clients sv) w = Some cl \<and> ready_session (sessions sv) (session_of cl)"
  shows "ws_inv env sv"
  unfolding ws_inv_def
proof (intro conjI)
  show "\<forall>w cl. smap_find (clients sv) w = Some cl \<longrightarrow> smap_find (sessions sv) (session_of cl) \<noteq> None" using assms(4) by blast
  show "\<forall>w v cl cl'. smap_find (clients sv) w = Some cl \<longrightarrow> smap_find (clients sv) v = Some cl' \<longrightarrow> session_of cl = session_of cl' \<longrightarrow> w = v"
    using assms(5) by blast
  show "\<forall>sid ss. smap_find (sessions sv) sid = Some ss \<longrightarrow> session_ok env (held (clients sv)) (next_session sv) (uses (workers sv) sid) sid ss"
    using assms(7) by blast
qed (use assms(1-3) in simp_all, use assms(6) in blast, rule ballI, rule assms(8))

text \<open>Fields the invariant does not mention, and the jobs of the workers.\<close>

lemma ws_inv_frame:
  assumes "ws_inv env sv" "clients tv = clients sv" "sessions tv = sessions sv" "next_session tv = next_session sv"
    "map w_session (workers tv) = map w_session (workers sv)" "api_cmds tv = api_cmds sv" "events tv = events sv"
  shows "ws_inv env tv"
proof -
  have "uses (workers tv) = uses (workers sv)"
  proof
    fix sid
    have "uses ks sid = length (filter (\<lambda>s. s = sid) (map w_session ks))" for ks by (simp add: uses_def filter_map comp_def)
    then show "uses (workers tv) sid = uses (workers sv) sid" using assms(5) by metis
  qed
  moreover have "(\<forall>k \<in> set (workers tv). ready_session m (w_session k)) = (\<forall>k \<in> set (workers sv). ready_session m (w_session k))" for m :: "(nat, 'b session) smap"
    using assms(5) by (metis (no_types, opaque_lifting) image_iff list.set_map)
  ultimately show ?thesis using assms unfolding ws_inv_def by simp
qed

lemma ws_inv_write: "ws_inv env sv \<Longrightarrow> ws_inv env (want_write w sv)" "ws_inv env sv \<Longrightarrow> ws_inv env (send w ms sv)"
  "ws_inv env sv \<Longrightarrow> ws_inv env (sv\<lparr>writable := ws\<rparr>)" "ws_inv env sv \<Longrightarrow> ws_inv env (sv\<lparr>world := x\<rparr>)"
  by (auto intro: ws_inv_frame simp: want_write_def send_def)

text \<open>A session changes, without becoming less than ready.\<close>

lemma ws_inv_put:
  assumes "ws_inv env sv" "smap_find (sessions sv) sid = Some ss" "acquired ss' = acquired ss" "deleted ss' = deleted ss"
    "status ss = READY \<longrightarrow> status ss' = READY" "status ss' = AUTHENTICATED \<or> status ss' = READY \<longrightarrow> accepted env (s_user ss')"
  shows "ws_inv env (put_session sid ss' sv)"
proof -
  have r: "ready_session (sessions sv) t \<Longrightarrow> ready_session (smap_put (sessions sv) sid ss') t" for t
    using assms(2,5) ws_invD(2) [OF assms(1)] by (auto simp: ready_session_def smap_find_put)
  have ok: "session_ok env (held (clients sv)) (next_session sv) (uses (workers sv) sid) sid ss'"
    using ws_invD(7) [OF assms(1,2)] assms(3,4,6) by (simp add: session_ok_def)
  have find: "smap_find (smap_put (sessions sv) sid ss') t = (if t = sid then Some ss' else smap_find (sessions sv) t)" for t
    using ws_invD(2) [OF assms(1)] by (simp add: smap_find_put)
  show ?thesis
  proof (rule ws_invI)
    show "w = v" if "smap_find (clients (put_session sid ss' sv)) w = Some cl" "smap_find (clients (put_session sid ss' sv)) v = Some cl'"
      "session_of cl = session_of cl'" for w v cl cl' using that ws_invD(5) [OF assms(1)] by (simp add: put_session_def)
    show "smap_find (sessions (put_session sid ss' sv)) (session_of cl) \<noteq> None" if "smap_find (clients (put_session sid ss' sv)) w = Some cl" for w cl
      using that ws_invD(4) [OF assms(1)] by (fastforce simp: put_session_def find)
    show "ready_session (sessions (put_session sid ss' sv)) (w_session k)" if "k \<in> set (workers (put_session sid ss' sv))" for k
      using that ws_invD(6) [OF assms(1)] r by (simp add: put_session_def)
    show "session_ok env (held (clients (put_session sid ss' sv))) (next_session (put_session sid ss' sv)) (uses (workers (put_session sid ss' sv)) t) t tt"
      if "smap_find (sessions (put_session sid ss' sv)) t = Some tt" for t tt
      using that ok ws_invD(7) [OF assms(1)] by (auto simp: put_session_def find split: if_splits)
    show "\<exists>cl. smap_find (clients (put_session sid ss' sv)) w = Some cl \<and> ready_session (sessions (put_session sid ss' sv)) (session_of cl)"
      if "w \<in> fst ` set (api_cmds (put_session sid ss' sv)) \<union> mentioned (events (put_session sid ss' sv))" for w
      using that r ws_invD(8) [OF assms(1), of w] by (auto simp: put_session_def)
  qed (use ws_invD(1-3) [OF assms(1)] in \<open>simp_all add: put_session_def smap_inv_put\<close>)
qed

text \<open>The events change, and only clients that are ready come to be known.\<close>

lemma ws_inv_events:
  assumes "ws_inv env sv" "maps_ok ev" "mentioned ev \<subseteq> mentioned (events sv) \<union> W"
    "\<And>w. w \<in> W \<Longrightarrow> \<exists>cl. smap_find (clients sv) w = Some cl \<and> ready_session (sessions sv) (session_of cl)"
  shows "ws_inv env (sv\<lparr>events := ev\<rparr>)"
proof -
  have "\<exists>cl. smap_find (clients sv) w = Some cl \<and> ready_session (sessions sv) (session_of cl)"
    if "w \<in> fst ` set (api_cmds sv) \<union> mentioned ev" for w
    using that assms(3,4) ws_invD(8) [OF assms(1), of w] by blast
  then show ?thesis using assms(1,2) unfolding ws_inv_def by simp
qed

lemma ws_inv_cmd:
  assumes "ws_inv env sv" "smap_find (clients sv) w = Some cl" "ready_session (sessions sv) (session_of cl)"
  shows "ws_inv env (sv\<lparr>api_cmds := api_cmds sv @ [(w, cmd)]\<rparr>)"
  using assms unfolding ws_inv_def by auto

lemma ws_inv_cmds:
  assumes "ws_inv env sv" "set cmds \<subseteq> set (api_cmds sv)" shows "ws_inv env (sv\<lparr>api_cmds := cmds\<rparr>)"
proof -
  have "fst ` set cmds \<subseteq> fst ` set (api_cmds sv)" using assms(2) by auto
  then have "\<exists>cl. smap_find (clients sv) w = Some cl \<and> ready_session (sessions sv) (session_of cl)"
    if "w \<in> fst ` set cmds \<union> mentioned (events sv)" for w
    using that ws_invD(8) [OF assms(1), of w] by blast
  then show ?thesis using ws_invD [OF assms(1)] by (intro ws_invI) simp_all
qed

lemma ws_inv_buffer:
  assumes "ws_inv env sv" "smap_find (clients sv) w = Some cl" shows "ws_inv env (sv\<lparr>clients := smap_put (clients sv) w (cl\<lparr>cmd_buffer := b\<rparr>)\<rparr>)"
proof -
  have find: "smap_find (smap_put (clients sv) w (cl\<lparr>cmd_buffer := b\<rparr>)) v = (if v = w then Some (cl\<lparr>cmd_buffer := b\<rparr>) else smap_find (clients sv) v)" for v
    using ws_invD(1) [OF assms(1)] by (simp add: smap_find_put)
  have h: "held (smap_put (clients sv) w (cl\<lparr>cmd_buffer := b\<rparr>)) = held (clients sv)"
  proof (intro set_eqI iffI)
    fix sid assume "sid \<in> held (smap_put (clients sv) w (cl\<lparr>cmd_buffer := b\<rparr>))"
    then show "sid \<in> held (clients sv)" using assms(2) by (auto simp: held_def find split: if_splits)
  next
    fix sid assume "sid \<in> held (clients sv)"
    then obtain v cl' where "smap_find (clients sv) v = Some cl'" "sid = session_of cl'" by (auto simp: held_def)
    then show "sid \<in> held (smap_put (clients sv) w (cl\<lparr>cmd_buffer := b\<rparr>))"
      using assms(2) unfolding held_def
      by (cases "v = w") (auto simp: smap_find_put ws_invD(1) [OF assms(1)] intro!: exI [of _ v] exI [of _ "if v = w then cl'\<lparr>cmd_buffer := b\<rparr> else cl'"])
  qed
  show ?thesis
  proof (rule ws_invI)
    let ?sv = "sv\<lparr>clients := smap_put (clients sv) w (cl\<lparr>cmd_buffer := b\<rparr>)\<rparr>"
    show "v = u" if "smap_find (clients ?sv) v = Some cl1" "smap_find (clients ?sv) u = Some cl2" "session_of cl1 = session_of cl2" for v u cl1 cl2
      using that assms(2) ws_invD(5) [OF assms(1)] by (auto simp: find split: if_splits)
    show "\<exists>cl. smap_find (clients ?sv) v = Some cl \<and> ready_session (sessions ?sv) (session_of cl)"
      if "v \<in> fst ` set (api_cmds ?sv) \<union> mentioned (events ?sv)" for v
      using that assms(2) ws_invD(8) [OF assms(1), of v] by (auto simp: find)
    show "smap_find (sessions ?sv) (session_of c) \<noteq> None" if "smap_find (clients ?sv) v = Some c" for v c
      using that assms(2) ws_invD(4) [OF assms(1)] by (fastforce simp: find split: if_splits)
  qed (use ws_invD [OF assms(1)] in \<open>simp_all add: h smap_inv_put\<close>)
qed

lemma subscribe_maps: "maps_ok (snd (Subscribe ty w flt ext cmd ev)) = maps_ok ev"
  by (simp add: Subscribe_def Let_def maps_ok_def)

lemma subscribe_action_mentioned:
  assumes "maps_ok ev" "subscribe_action env wsi q ev = (r, ev')" shows "maps_ok ev' \<and> mentioned ev' \<subseteq> insert wsi (mentioned ev)"
proof -
  define ok where "ok x \<longleftrightarrow> maps_ok x \<and> mentioned x \<subseteq> insert wsi (mentioned ev)" for x
  have "ok ev" using assms(1) unfolding ok_def by blast
  moreover have s: "ok x" if "Subscribe ty wsi i ext cmd ev = (r, x)" for ty i ext cmd r x
    using that assms(1) subscribe_maps [of ty wsi i ext cmd ev] subscribe_mentioned [of ty wsi i ext cmd ev] by (simp add: ok_def)
  moreover have "ok (Events.Create ty i wsi ext x)" if "Subscribe ty wsi i ext cmd ev = (r, x)" for ty i ext cmd r x
    using s [OF that] create_mentioned [of x ty i wsi ext] unfolding ok_def by blast
  ultimately have "ok ev'" using assms(2) unfolding subscribe_action_def by (auto split: sum.splits prod.splits if_splits)
  then show ?thesis by (simp add: ok_def)
qed

lemma event_query_mentioned:
  assumes "maps_ok ev" "event_query env wsi q ev = (r, ev')" shows "maps_ok ev' \<and> mentioned ev' \<subseteq> insert wsi (mentioned ev)"
proof -
  define ok where "ok x \<longleftrightarrow> maps_ok x \<and> mentioned x \<subseteq> insert wsi (mentioned ev)" for x
  have "ok (UnsubscribeAll wsi ev)" using leave_mentioned [OF assms(1)] unfolding ok_def by blast
  moreover have "ok (Unsubscribe ty wsi i ext ev)" for ty i ext using unsubscribe_mentioned [OF assms(1)] unfolding ok_def by blast
  moreover have "ok (Ack wsi i ev)" for i using ack_mentioned [OF assms(1)] unfolding ok_def by blast
  moreover have "ok ev" using assms(1) unfolding ok_def by blast
  moreover have "subscribe_action env wsi q ev = (r, ev') \<Longrightarrow> ok ev'" for r ev'
    using subscribe_action_mentioned [OF assms(1)] unfolding ok_def by blast
  ultimately have "ok ev'" using assms(2) unfolding event_query_def by (auto split: sum.splits prod.splits if_splits)
  then show ?thesis by (simp add: ok_def)
qed

lemma ChallengeReceived_ok:
  assumes "ChallengeReceived (session_env.truncate env) w q ss = (r, ss')"
  shows "acquired ss' = acquired ss \<and> deleted ss' = deleted ss \<and> (status ss' \<noteq> status ss \<longrightarrow> status ss' = AUTHENTICATED) \<and>
    (r = Inr () \<longrightarrow> accepted (session_env.truncate env) (s_user ss')) \<and> (r \<noteq> Inr () \<longrightarrow> ss' = ss)"
  using assms by (auto simp: ChallengeReceived_def accepted_def session_env.truncate_def split: sum.splits)

lemma uses_Cons: "uses (k # ks) sid = (if w_session k = sid then 1 else 0) + uses ks sid"
  by (simp add: uses_def)

lemma uses_append: "uses (ks @ ls) sid = uses ks sid + uses ls sid"
  by (simp add: uses_def)

lemma uses_mem: "k \<in> set ks \<Longrightarrow> 0 < uses ks (w_session k)"
  by (auto simp: uses_def filter_empty_conv)

lemma uses_pos: "uses ks sid \<noteq> 0 \<longleftrightarrow> (\<exists>k \<in> set ks. w_session k = sid)"
  by (auto simp: uses_def filter_empty_conv)

lemma uses_remove:
  assumes "i < length ks" shows "uses ks sid = uses (take i ks @ drop (Suc i) ks) sid + (if w_session (ks ! i) = sid then 1 else 0)"
proof -
  have "uses ks sid = uses (take i ks @ ks ! i # drop (Suc i) ks) sid" using id_take_nth_drop [OF assms] by simp
  then show ?thesis by (simp add: uses_append uses_Cons)
qed

lemma ready_put: "smap_inv m \<Longrightarrow> ready_session (smap_put m sid ss) t \<longleftrightarrow> (if t = sid then status ss = READY else ready_session m t)"
  by (simp add: ready_session_def smap_find_put)

lemma ready_del: "ready_session (smap_del m sid) t \<longleftrightarrow> t \<noteq> sid \<and> ready_session m t"
  by (simp add: ready_session_def smap_find_del)

lemma held_find: "sid \<in> held cls \<longleftrightarrow> (\<exists>w cl. smap_find cls w = Some cl \<and> session_of cl = sid)"
  by (auto simp: held_def)

lemma established_inv:
  assumes "ws_inv env sv" "smap_find (clients sv) wsi = None" shows "ws_inv env (established wsi p sv)"
proof -
  let ?n = "next_session sv"
  have old: "smap_find (sessions sv) sid \<noteq> None \<Longrightarrow> sid < ?n" for sid
    using ws_invD(7) [OF assms(1)] by (auto simp: session_ok_def)
  have cold: "smap_find (clients sv) w = Some cl \<Longrightarrow> session_of cl < ?n" for w cl
    using ws_invD(4) [OF assms(1)] old by fastforce
  have wold: "k \<in> set (workers sv) \<Longrightarrow> w_session k < ?n" for k
    using ws_invD(6) [OF assms(1)] old by (fastforce simp: ready_session_def)
  have u: "uses (workers sv) ?n = 0" using wold uses_pos [of "workers sv" ?n] by fastforce
  let ?cls = "smap_put (clients sv) wsi \<lparr>protocol_of = p, session_of = ?n, cmd_buffer = []\<rparr>"
  have find: "smap_find ?cls w = (if w = wsi then Some \<lparr>protocol_of = p, session_of = ?n, cmd_buffer = []\<rparr> else smap_find (clients sv) w)" for w
    using ws_invD(1) [OF assms(1)] by (simp add: smap_find_put)
  have sfind: "smap_find (smap_put (sessions sv) ?n x) t = (if t = ?n then Some x else smap_find (sessions sv) t)" for t and x :: "'b session"
    using ws_invD(2) [OF assms(1)] by (simp add: smap_find_put)
  have h: "held ?cls = insert ?n (held (clients sv))"
  proof (intro set_eqI iffI)
    show "sid \<in> insert ?n (held (clients sv))" if "sid \<in> held ?cls" for sid
      using that by (auto simp: held_find find split: if_splits)
    show "sid \<in> held ?cls" if s: "sid \<in> insert ?n (held (clients sv))" for sid
    proof (cases "sid = ?n")
      case True
      then show ?thesis by (auto simp: held_find find intro!: exI [of _ wsi])
    next
      case False
      then obtain w cl where "smap_find (clients sv) w = Some cl" "session_of cl = sid" using s by (auto simp: held_find)
      then show ?thesis using assms(2) by (auto simp: held_find find intro!: exI [of _ w])
    qed
  qed
  let ?sv = "sv\<lparr>sessions := smap_put (sessions sv) ?n (APISession_new ''Websocket''), clients := ?cls, next_session := ?n + 1\<rparr>"
  have "ws_inv env ?sv"
  proof (rule ws_invI)
    show "w = v" if "smap_find (clients ?sv) w = Some cl" "smap_find (clients ?sv) v = Some cl'" "session_of cl = session_of cl'" for w v cl cl'
      using that cold ws_invD(5) [OF assms(1)] by (fastforce simp: find split: if_splits)
    show "smap_find (sessions ?sv) (session_of cl) \<noteq> None" if "smap_find (clients ?sv) w = Some cl" for w cl
      using that ws_invD(4) [OF assms(1)] by (fastforce simp: find sfind split: if_splits)
    show "ready_session (sessions ?sv) (w_session k)" if "k \<in> set (workers ?sv)" for k
      using that wold ws_invD(6) [OF assms(1)] ws_invD(2) [OF assms(1)] by (fastforce simp: ready_put)
    show "session_ok env (held (clients ?sv)) (next_session ?sv) (uses (workers ?sv) sid) sid ss" if "smap_find (sessions ?sv) sid = Some ss" for sid ss
      using that u old [of sid, THEN less_SucI] ws_invD(7) [OF assms(1), of sid ss] by (auto simp: sfind h session_ok_def APISession_new_def split: if_splits)
    show "\<exists>cl. smap_find (clients ?sv) w = Some cl \<and> ready_session (sessions ?sv) (session_of cl)"
      if known: "w \<in> fst ` set (api_cmds ?sv) \<union> mentioned (events ?sv)" for w
    proof -
      obtain cl where "smap_find (clients sv) w = Some cl" "ready_session (sessions sv) (session_of cl)"
        using known ws_invD(8) [OF assms(1), of w] by auto
      then show ?thesis using cold [of w cl] assms(2) ws_invD(2) [OF assms(1)] by (auto simp: find ready_put)
    qed
  qed (use ws_invD(1-3) [OF assms(1)] in \<open>simp_all add: smap_inv_put\<close>)
  then show ?thesis by (simp add: established_def ws_inv_write)
qed

lemma closed_defined: "ws_inv env sv \<Longrightarrow> \<exists>sv'. closed wsi sv = Inr sv'"
  using ws_invD(4) [of env sv wsi] by (auto simp: closed_def with_session_def split: option.split prod.split)

lemma closed_inv:
  assumes "ws_inv env sv" "closed wsi sv = Inr sv'" "\<forall>c \<in> set (api_cmds sv'). smap_find (clients sv') (fst c) \<noteq> None"
  shows "ws_inv env sv'"
proof (cases "smap_find (clients sv) wsi")
  case None
  then show ?thesis using assms by (simp add: closed_def)
next
  case (Some cl)
  obtain ss where ss: "smap_find (sessions sv) (session_of cl) = Some ss" using ws_invD(4) [OF assms(1) Some] by blast
  let ?sid = "session_of cl" and ?cls = "smap_del (clients sv) wsi"
  define later where "later \<longleftrightarrow> acquired ss \<noteq> 0"
  define sess where "sess = (if later then smap_put (sessions sv) ?sid (ss\<lparr>deleted := True\<rparr>) else smap_del (sessions sv) ?sid)"
  have sv': "sv' = sv\<lparr>events := UnsubscribeAll wsi (events sv), clients := ?cls, writable := writable sv - {wsi}, sessions := sess\<rparr>"
    using assms(2) Some ss by (simp add: closed_def with_session_def FlagDeleted_def sess_def later_def split: if_splits)
  have ok: "session_ok env (held (clients sv)) (next_session sv) (uses (workers sv) ?sid) ?sid ss" by (rule ws_invD(7) [OF assms(1) ss])
  have other: "smap_find ?cls w = Some c \<Longrightarrow> session_of c \<noteq> ?sid" for w c
    using ws_invD(5) [OF assms(1) _ Some, of w c] by (auto simp: smap_find_del split: if_splits)
  have h: "held ?cls = held (clients sv) - {?sid}"
  proof (intro set_eqI iffI)
    show "t \<in> held (clients sv) - {?sid}" if "t \<in> held ?cls" for t
      using that other by (auto simp: held_find) (auto simp: smap_find_del split: if_splits)
    show "t \<in> held ?cls" if t: "t \<in> held (clients sv) - {?sid}" for t
    proof -
      obtain w c where "smap_find (clients sv) w = Some c" "session_of c = t" using t by (auto simp: held_find)
      moreover from this have "w \<noteq> wsi" using Some t by auto
      ultimately show ?thesis by (auto simp: held_find smap_find_del)
    qed
  qed
  have find: "smap_find sess t = (if t = ?sid then (if later then Some (ss\<lparr>deleted := True\<rparr>) else None) else smap_find (sessions sv) t)" for t
    using ws_invD(2) [OF assms(1)] by (simp add: sess_def smap_find_put smap_find_del)
  have u: "uses (workers sv) ?sid \<noteq> 0 \<longleftrightarrow> later" using ok by (simp add: session_ok_def later_def)
  have r: "ready_session sess t" if "ready_session (sessions sv) t" "t \<noteq> ?sid \<or> later" for t
    using that ss by (auto simp: ready_session_def find)
  show ?thesis unfolding sv'
  proof (rule ws_invI, simp_all)
    show "smap_inv ?cls" "smap_inv sess" "maps_ok (UnsubscribeAll wsi (events sv))"
      using ws_invD(1-3) [OF assms(1)] leave_mentioned [of "events sv" wsi] by (simp_all add: sess_def smap_inv_del smap_inv_put)
    show "\<exists>y. smap_find sess (session_of c) = Some y" if "smap_find ?cls w = Some c" for w c
      using that other [OF that] ws_invD(4) [OF assms(1), of w c] by (auto simp: find smap_find_del split: if_splits)
    show "w = v" if "smap_find ?cls w = Some c" "smap_find ?cls v = Some c'" "session_of c = session_of c'" for w v c c'
      using that ws_invD(5) [OF assms(1)] by (auto simp: smap_find_del split: if_splits)
    show "ready_session sess (w_session k)" if "k \<in> set (workers sv)" for k
      using that ws_invD(6) [OF assms(1) that] u uses_mem [OF that] by (intro r) auto
    show "session_ok env (held ?cls) (next_session sv) (uses (workers sv) t) t tt" if "smap_find sess t = Some tt" for t tt
      using that ok u ws_invD(7) [OF assms(1), of t tt] by (auto simp: find h session_ok_def split: if_splits)
    show "\<exists>c. smap_find ?cls w = Some c \<and> ready_session sess (session_of c)"
      if "w \<in> fst ` set (api_cmds sv) \<or> w \<in> mentioned (UnsubscribeAll wsi (events sv))" for w
    proof -
      have "w \<noteq> wsi" using that assms(3) leave_mentioned [OF ws_invD(3) [OF assms(1)], of wsi] by (auto simp: sv' smap_find_del)
      moreover have "w \<in> fst ` set (api_cmds sv) \<union> mentioned (events sv)"
        using that leave_mentioned [OF ws_invD(3) [OF assms(1)], of wsi] by blast
      ultimately obtain c where "smap_find ?cls w = Some c" "ready_session (sessions sv) (session_of c)"
        using ws_invD(8) [OF assms(1)] by (auto simp: smap_find_del)
      then show ?thesis using r other by blast
    qed
  qed
qed

text \<open>What the callbacks do before they return or raise.\<close>

abbreviation base_env :: "('w, 'n) ws_env \<Rightarrow> ('w, 'n) session_env" where
  "base_env env \<equiv> session_env.truncate env"

lemma accepted_base:
  "\<not> auth_enabled env \<Longrightarrow> accepted (base_env env) anonymous"
  "HandleChallenge (aligned env) (user_list env w) c q = Inr u \<Longrightarrow> accepted (base_env env) u"
  by (auto simp: accepted_def session_env.truncate_def)

lemma ChallengeReceived_inv:
  assumes "ws_inv (base_env env) sv" "smap_find (sessions sv) sid = Some ss" "status ss \<noteq> READY"
    "ChallengeReceived (base_env env) w q ss = (r, ss')"
  shows "ws_inv (base_env env) (put_session sid ss' sv)"
proof (rule ws_inv_put [OF assms(1,2)])
  note c = ChallengeReceived_ok [OF assms(4)]
  show "acquired ss' = acquired ss" "deleted ss' = deleted ss" "status ss = READY \<longrightarrow> status ss' = READY"
    using c assms(3) by auto
  show "status ss' = AUTHENTICATED \<or> status ss' = READY \<longrightarrow> accepted (base_env env) (s_user ss')"
    using c ws_invD(7) [OF assms(1,2)] by (cases r) (auto simp: session_ok_def)
qed

lemma message_inv:
  assumes "ws_inv (base_env env) sv" "smap_find (clients sv) wsi = Some cl'" "session_of cl' = session_of cl"
    "smap_find (sessions sv) (session_of cl) = Some ss"
  shows "ws_inv (base_env env) (snd (message env wsi cl ss input_xml sv))"
proof (cases "parse env ''Websocket'' input_xml")
  case (Inr q)
  consider "status ss = WAITING_CHALLENGE_RESPONSE" | "status ss = READY" | "status ss \<noteq> WAITING_CHALLENGE_RESPONSE" "status ss \<noteq> READY" by blast
  then show ?thesis
  proof cases
    case 1
    obtain r ss' where c: "ChallengeReceived (base_env env) (world sv) q ss = (r, ss')" by fastforce
    have "ws_inv (base_env env) (put_session (session_of cl) ss' sv)"
      by (rule ChallengeReceived_inv [OF assms(1,4) _ c]) (simp add: 1)
    then show ?thesis using 1 c by (cases r) (simp_all add: message_def Inr ws_inv_write)
  next
    case 2
    have r: "\<exists>c. smap_find (clients sv) wsi = Some c \<and> ready_session (sessions sv) (session_of c)"
      using assms(2-4) 2 by (simp add: ready_session_def)
    show ?thesis
    proof (cases "protocol_of cl")
      case API
      then show ?thesis using 2 r ws_inv_cmd [OF assms(1), of wsi cl' input_xml] assms(2) by (auto simp: message_def Inr)
    next
      case EVENTS
      obtain res ev where e: "event_query env wsi q (events sv) = (res, ev)" by fastforce
      have "ws_inv (base_env env) (sv\<lparr>events := ev\<rparr>)"
        using event_query_mentioned [OF ws_invD(3) [OF assms(1)] e] r by (intro ws_inv_events [OF assms(1), where W = "{wsi}"]) auto
      then show ?thesis using EVENTS 2 e by (simp add: message_def Inr)
    qed
  qed (simp add: message_def Inr assms(1))
qed (simp add: message_def assms(1))

definition no_cmd_lost :: "('w, 'n) server \<Rightarrow> bool" where
  "no_cmd_lost sv \<longleftrightarrow> (\<forall>c \<in> set (api_cmds sv). smap_find (clients sv) (fst c) \<noteq> None)"

lemma closing_inv:
  assumes "ws_inv env (snd p)" "closing wsi p = Inr sv'" "no_cmd_lost sv'" shows "ws_inv env sv'"
  using assms closed_inv [of env "snd p" wsi sv']
  by (auto simp: closing_def no_cmd_lost_def split: prod.splits sum.splits fault.splits)

lemma receive_inv:
  assumes "ws_inv (base_env env) sv" "receive env wsi data partial sv = Inr sv'" "no_cmd_lost sv'"
  shows "ws_inv (base_env env) sv'"
proof (cases "smap_find (clients sv) wsi")
  case (Some cl)
  have b: "ws_inv (base_env env) (sv\<lparr>clients := smap_put (clients sv) wsi (cl\<lparr>cmd_buffer := x\<rparr>)\<rparr>)" for x
    by (rule ws_inv_buffer [OF assms(1) Some])
  show ?thesis
  proof (cases partial)
    case False
    obtain ss where ss: "smap_find (sessions sv) (session_of cl) = Some ss" using ws_invD(4) [OF assms(1) Some] by blast
    have c: "closing wsi (message env wsi cl ss (cmd_buffer cl @ data) (sv\<lparr>clients := smap_put (clients sv) wsi (cl\<lparr>cmd_buffer := []\<rparr>)\<rparr>)) = Inr sv'"
      using assms(2) Some ss False by (simp add: receive_def with_session_def)
    show ?thesis
      by (rule closing_inv [OF message_inv [OF b, where cl' = "cl\<lparr>cmd_buffer := []\<rparr>"] c assms(3)])
        (simp_all add: smap_find_put ws_invD(1) [OF assms(1)] ss)
  qed (use assms b Some in \<open>auto simp: receive_def\<close>)
qed (use assms in \<open>simp add: receive_def\<close>)

lemma SendChallenge_ok:
  assumes "SendChallenge (base_env env) fresh ss = (r, ss')"
  shows "acquired ss' = acquired ss \<and> deleted ss' = deleted ss \<and> (ss' = ss \<or> status ss' = WAITING_CHALLENGE_RESPONSE \<or>
    status ss' = AUTHENTICATED \<and> accepted (base_env env) (s_user ss'))"
  using assms by (auto simp: SendChallenge_def accepted_def session_env.truncate_def split: if_splits sum.splits)

lemma writeable_inv:
  assumes "ws_inv (base_env env) sv" "writeable env wsi fresh time sv = Inr sv'" "no_cmd_lost sv'"
  shows "ws_inv (base_env env) sv'"
proof (cases "smap_find (clients sv) wsi")
  case (Some cl)
  show ?thesis
  proof (cases "wsi \<in> writable sv")
    case True
    let ?sv = "sv\<lparr>writable := writable sv - {wsi}\<rparr>" and ?sid = "session_of cl"
    obtain ss where ss: "smap_find (sessions sv) ?sid = Some ss" using ws_invD(4) [OF assms(1) Some] by blast
    have inv: "ws_inv (base_env env) ?sv" by (rule ws_inv_write(3) [OF assms(1)])
    have put: "ws_inv (base_env env) (put_session ?sid ss' ?sv)"
      if "acquired ss' = acquired ss" "deleted ss' = deleted ss" "status ss = READY \<longrightarrow> status ss' = READY"
        "status ss' = AUTHENTICATED \<or> status ss' = READY \<longrightarrow> accepted (base_env env) (s_user ss')" for ss'
      using that ss by (intro ws_inv_put [OF inv]) simp_all
    have acc: "status ss = AUTHENTICATED \<or> status ss = READY \<longrightarrow> accepted (base_env env) (s_user ss)"
      using ws_invD(7) [OF assms(1) ss] by (simp add: session_ok_def)
    obtain p where p: "closing wsi p = Inr sv'" and "ws_inv (base_env env) (snd p)"
    proof (cases "status ss")
      case INITIALIZED
      obtain r ss' where c: "SendChallenge (base_env env) fresh ss = (r, ss')" by fastforce
      have i: "ws_inv (base_env env) (put_session ?sid ss' ?sv)"
        using SendChallenge_ok [OF c] INITIALIZED by (intro put) auto
      show thesis
      proof (rule that)
        show "closing wsi (case r of Inl e \<Rightarrow> (Inl e, put_session ?sid ss' ?sv)
            | Inr ms \<Rightarrow> let sv = send wsi ms (put_session ?sid ss' ?sv) in (Inr (), if status ss' = AUTHENTICATED then want_write wsi sv else sv)) = Inr sv'"
          using assms(2) Some True ss INITIALIZED c by (cases r) (simp_all add: writeable_def with_session_def Let_def)
        show "ws_inv (base_env env) (snd (case r of Inl e \<Rightarrow> (Inl e, put_session ?sid ss' ?sv)
            | Inr ms \<Rightarrow> let sv = send wsi ms (put_session ?sid ss' ?sv) in (Inr (), if status ss' = AUTHENTICATED then want_write wsi sv else sv)))"
          using i by (cases r) (simp_all add: Let_def ws_inv_write)
      qed
    next
      case AUTHENTICATED
      obtain ms ss' where g: "SendGreeting (base_env env) time ss = (ms, ss')" by fastforce
      have "acquired ss' = acquired ss" "deleted ss' = deleted ss" "s_user ss' = s_user ss" "status ss' = READY"
        using g by (auto simp: SendGreeting_def Let_def)
      then have "ws_inv (base_env env) (put_session ?sid ss' ?sv)" using acc AUTHENTICATED by (intro put) simp_all
      then show thesis
        using assms(2) Some True ss AUTHENTICATED g
        by (intro that [of "(Inr (), send wsi ms (put_session ?sid ss' ?sv))"]) (simp_all add: writeable_def with_session_def Let_def ws_inv_write)
    next
      case READY
      obtain got ms ss' where g: "SendResponse ss = ((got, ms), ss')" by (metis surj_pair)
      have "acquired ss' = acquired ss" "deleted ss' = deleted ss" "s_user ss' = s_user ss" "status ss' = status ss"
        using g by (auto simp: SendResponse_def split: list.splits)
      then have "ws_inv (base_env env) (put_session ?sid ss' ?sv)" using acc READY by (intro put) simp_all
      then show thesis
        using assms(2) Some True ss READY g
        by (intro that [of "(Inr (), if protocol_of cl = EVENTS \<and> got then want_write wsi (send wsi ms (put_session ?sid ss' ?sv)) else send wsi ms (put_session ?sid ss' ?sv))"])
          (simp_all add: writeable_def with_session_def Let_def ws_inv_write)
    next
      case WAITING_CHALLENGE_RESPONSE
      then show thesis
        using assms(2) Some True ss inv by (intro that [of "(Inr (), ?sv)"]) (simp_all add: writeable_def with_session_def Let_def)
    qed
    then show ?thesis using closing_inv [OF _ p assms(3)] by blast
  qed (use assms Some in \<open>simp add: writeable_def\<close>)
qed (use assms in \<open>simp add: writeable_def\<close>)

text \<open>The workers.\<close>

lemma start_job_inv:
  assumes "ws_inv env sv" "smap_find (clients sv) wsi = Some cl" "ready_session (sessions sv) (session_of cl)" "start_job wsi j sv = Inr sv'"
  shows "ws_inv env sv'"
proof -
  let ?sid = "session_of cl"
  obtain ss where ss: "smap_find (sessions sv) ?sid = Some ss" "status ss = READY" using assms(3) by (auto simp: ready_session_def)
  let ?ks = "workers sv @ [\<lparr>w_wsi = wsi, w_session = ?sid, w_job = j, answered = False\<rparr>]"
  have sv': "sv' = sv\<lparr>sessions := smap_put (sessions sv) ?sid (Acquire ss), workers := ?ks\<rparr>"
    using assms(2,4) ss(1) by (auto simp: start_job_def with_session_def put_session_def)
  have find: "smap_find (smap_put (sessions sv) ?sid (Acquire ss)) t = (if t = ?sid then Some (Acquire ss) else smap_find (sessions sv) t)" for t
    using ws_invD(2) [OF assms(1)] by (simp add: smap_find_put)
  have acq: "status (Acquire ss) = READY" using ss(2) by (simp add: Acquire_def)
  have r: "ready_session (smap_put (sessions sv) ?sid (Acquire ss)) t = ready_session (sessions sv) t" for t
    using ss acq by (simp add: ready_session_def find)
  have u: "uses ?ks t = uses (workers sv) t + (if t = ?sid then 1 else 0)" for t by (simp add: uses_append uses_def)
  show ?thesis unfolding sv'
  proof (rule ws_invI, simp_all del: smap_find.simps)
    show "session_ok env (held (clients sv)) (next_session sv) (uses ?ks t) t tt" if "smap_find (smap_put (sessions sv) ?sid (Acquire ss)) t = Some tt" for t tt
    proof (cases "t = ?sid")
      case True
      then have "tt = Acquire ss" using that by (simp add: find)
      then show ?thesis using True ws_invD(7) [OF assms(1) ss(1)] by (simp add: u session_ok_def Acquire_def)
    next
      case False
      then have "smap_find (sessions sv) t = Some tt" using that by (simp add: find)
      then show ?thesis using False ws_invD(7) [OF assms(1)] by (simp add: u)
    qed
    show "\<exists>y. smap_find (smap_put (sessions sv) ?sid (Acquire ss)) (session_of c) = Some y" if "smap_find (clients sv) w = Some c" for w c
      using ws_invD(4) [OF assms(1) that] by (auto simp: find)
    show "w = v" if "smap_find (clients sv) w = Some c" "smap_find (clients sv) v = Some c'" "session_of c = session_of c'" for w v c c'
      using that by (rule ws_invD(5) [OF assms(1)])
    show "ready_session (smap_put (sessions sv) ?sid (Acquire ss)) (w_session k)"
      if "k = \<lparr>w_wsi = wsi, w_session = ?sid, w_job = j, answered = False\<rparr> \<or> k \<in> set (workers sv)" for k
      using that ws_invD(6) [OF assms(1), of k] assms(3) by (auto simp: r)
    show "\<exists>c. smap_find (clients sv) w = Some c \<and> ready_session (smap_put (sessions sv) ?sid (Acquire ss)) (session_of c)"
      if "w \<in> fst ` set (api_cmds sv) \<or> w \<in> mentioned (events sv)" for w
      using that ws_invD(8) [OF assms(1), of w] by (simp add: r)
  qed (use ws_invD(1-3) [OF assms(1)] in \<open>simp_all add: smap_inv_put\<close>)
qed

lemma start_job_defined:
  "smap_find (clients sv) wsi = Some cl \<Longrightarrow> ready_session (sessions sv) (session_of cl) \<Longrightarrow> \<exists>sv'. start_job wsi j sv = Inr sv'"
  by (auto simp: start_job_def with_session_def ready_session_def)

lemma api_get_inv:
  assumes "ws_inv env sv" shows "\<exists>sv'. api_get sv = Inr sv' \<and> ws_inv env sv'"
proof (cases "api_cmds sv")
  case (Cons c cmds)
  obtain wsi cmd where c: "c = (wsi, cmd)" by (cases c)
  have i: "ws_inv env (sv\<lparr>api_cmds := cmds\<rparr>)" by (rule ws_inv_cmds [OF assms]) (auto simp: Cons)
  obtain cl where cl: "smap_find (clients sv) wsi = Some cl" "ready_session (sessions sv) (session_of cl)"
    using ws_invD(8) [OF assms, of wsi] Cons c by auto
  then obtain sv' where "start_job wsi (ApiJob cmd) (sv\<lparr>api_cmds := cmds\<rparr>) = Inr sv'"
    using start_job_defined [of "sv\<lparr>api_cmds := cmds\<rparr>"] by fastforce
  then show ?thesis using start_job_inv [OF i, of wsi cl] cl Cons c by (simp add: api_get_def)
qed (simp add: api_get_def assms)

lemma event_get_inv:
  assumes "ws_inv env sv" shows "\<exists>sv'. event_get sv = Inr sv' \<and> ws_inv env sv'"
proof (cases "Events.Get (events sv)")
  case (Pair g ev)
  show ?thesis
  proof (cases g)
    case (Some we)
    obtain wsi e where g: "Events.Get (events sv) = (Some (wsi, e), ev)" using Pair Some by (cases we) simp
    note m = get_mentioned [OF ws_invD(3) [OF assms] g]
    have i: "ws_inv env (sv\<lparr>events := ev\<rparr>)" using m by (intro ws_inv_events [OF assms, where W = "{}"]) auto
    obtain cl where cl: "smap_find (clients sv) wsi = Some cl" "ready_session (sessions sv) (session_of cl)"
      using ws_invD(8) [OF assms, of wsi] m(1) by auto
    then obtain sv' where "start_job wsi (EventJob e) (sv\<lparr>events := ev\<rparr>) = Inr sv'"
      using start_job_defined [of "sv\<lparr>events := ev\<rparr>"] by fastforce
    then show ?thesis using start_job_inv [OF i, of wsi cl] cl g by (simp add: event_get_def)
  qed (simp add: event_get_def Pair assms)
qed

lemma work_inv:
  assumes "ws_inv (base_env env) sv" "work env i sv = Inr sv'" shows "ws_inv (base_env env) sv'"
proof (cases "length (workers sv) \<le> i \<or> answered (workers sv ! i)")
  case False
  let ?k = "workers sv ! i"
  have k: "?k \<in> set (workers sv)" using False by simp
  obtain ss where ss: "smap_find (sessions sv) (w_session ?k) = Some ss" "status ss = READY"
    using ws_invD(6) [OF assms(1) k] by (auto simp: ready_session_def)
  obtain q where q: "job_query env (w_job ?k) = Inr q" using assms(2) False by (cases "job_query env (w_job ?k)") (auto simp: work_def Let_def)
  obtain r ss' w where j: "job_received env (w_job ?k) q (ss, world sv) = (r, ss', w)" by (metis prod_cases3)
  have same: "s_user ss' = s_user ss \<and> status ss' = status ss \<and> acquired ss' = acquired ss \<and> deleted ss' = deleted ss"
    using j QueryReceived_world by (fastforce simp: job_received_def split: job.splits)
  let ?sv = "sv\<lparr>world := w, workers := (workers sv)[i := ?k\<lparr>answered := True\<rparr>]\<rparr>"
  have sv': "sv' = put_session (w_session ?k) ss' ?sv"
    using assms(2) False q j ss(1) by (auto simp: work_def Let_def with_session_def bindr_eq_Inr)
  have "map w_session ((workers sv)[i := ?k\<lparr>answered := True\<rparr>]) = map w_session (workers sv)"
    using False by (simp add: map_update list_update_same_conv)
  then have "ws_inv (base_env env) ?sv" by (intro ws_inv_frame [OF assms(1)]) simp_all
  then show ?thesis unfolding sv'
    by (rule ws_inv_put) (use ss same ws_invD(7) [OF assms(1) ss(1)] in \<open>auto simp: session_ok_def\<close>)
qed (use assms in \<open>auto simp: work_def\<close>)

lemma finish_inv:
  assumes "ws_inv env sv" shows "\<exists>sv'. finish i sv = Inr sv' \<and> ws_inv env sv'"
proof (cases "length (workers sv) \<le> i \<or> \<not> answered (workers sv ! i)")
  case False
  let ?k = "workers sv ! i" and ?ks = "take i (workers sv) @ drop (Suc i) (workers sv)"
  let ?sid = "w_session ?k"
  have k: "?k \<in> set (workers sv)" using False by simp
  obtain ss where ss: "smap_find (sessions sv) ?sid = Some ss" "status ss = READY"
    using ws_invD(6) [OF assms k] by (auto simp: ready_session_def)
  have ok: "session_ok env (held (clients sv)) (next_session sv) (uses (workers sv) ?sid) ?sid ss" by (rule ws_invD(7) [OF assms ss(1)])
  have u: "uses (workers sv) t = uses ?ks t + (if ?sid = t then 1 else 0)" for t using uses_remove [of i "workers sv" t] False by simp
  have sub: "k \<in> set ?ks \<Longrightarrow> k \<in> set (workers sv)" for k by (auto dest: in_set_takeD in_set_dropD)
  define ss' where "ss' = ss\<lparr>acquired := acquired ss - 1\<rparr>"
  define gone where "gone \<longleftrightarrow> acquired ss' = 0 \<and> deleted ss"
  define sess where "sess = (if gone then smap_del (sessions sv) ?sid else smap_put (sessions sv) ?sid ss')"
  let ?sv = "sv\<lparr>workers := ?ks, sessions := sess\<rparr>"
  have find: "smap_find sess t = (if t = ?sid then (if gone then None else Some ss') else smap_find (sessions sv) t)" for t
    using ws_invD(2) [OF assms] by (simp add: sess_def smap_find_put smap_find_del)
  have a: "acquired ss' = int (uses ?ks ?sid)" using ok u [of ?sid] by (simp add: session_ok_def ss'_def)
  have nh: "gone \<Longrightarrow> ?sid \<notin> held (clients sv)" using ok by (auto simp: session_ok_def gone_def)
  have nu: "gone \<Longrightarrow> k \<in> set ?ks \<Longrightarrow> w_session k \<noteq> ?sid" for k using a uses_mem [of k ?ks] by (auto simp: gone_def)
  have r: "ready_session sess t" if "ready_session (sessions sv) t" "\<not> (gone \<and> t = ?sid)" for t
    using that ss by (auto simp: ready_session_def find ss'_def)
  have held: "smap_find (clients sv) w = Some c \<Longrightarrow> session_of c \<in> held (clients sv)" for w c by (auto simp: held_find)
  have "ws_inv env ?sv"
  proof (rule ws_invI)
    show "session_ok env (held (clients ?sv)) (next_session ?sv) (uses (workers ?sv) t) t tt" if "smap_find (sessions ?sv) t = Some tt" for t tt
      using that ok a u [of t] ws_invD(7) [OF assms, of t tt] by (auto simp: find session_ok_def ss'_def gone_def split: if_splits)
    show "smap_find (sessions ?sv) (session_of c) \<noteq> None" if "smap_find (clients ?sv) w = Some c" for w c
      using that ws_invD(4) [OF assms, of w c] nh held [of w c] by (auto simp: find)
    show "w = v" if "smap_find (clients ?sv) w = Some c" "smap_find (clients ?sv) v = Some c'" "session_of c = session_of c'" for w v c c'
      using that ws_invD(5) [OF assms] by simp
    show "ready_session (sessions ?sv) (w_session k)" if "k \<in> set (workers ?sv)" for k
      using that sub [of k] nu [of k] ws_invD(6) [OF assms, of k] r [of "w_session k"] by auto
    show "\<exists>c. smap_find (clients ?sv) w = Some c \<and> ready_session (sessions ?sv) (session_of c)"
      if known: "w \<in> fst ` set (api_cmds ?sv) \<union> mentioned (events ?sv)" for w
    proof -
      obtain c where "smap_find (clients sv) w = Some c" "ready_session (sessions sv) (session_of c)"
        using known ws_invD(8) [OF assms, of w] by auto
      moreover from this have "\<not> (gone \<and> session_of c = ?sid)" using nh held by metis
      ultimately show ?thesis using r by auto
    qed
  qed (use ws_invD(1-3) [OF assms] in \<open>simp_all add: sess_def smap_inv_put smap_inv_del\<close>)
  moreover have "ws_inv env (?sv\<lparr>events := Processed w cmd (events sv)\<rparr>)" for w cmd
    using calculation by (intro ws_inv_events [where W = "{}"]) (simp_all add: processed_mentioned ws_invD(3) [OF assms])
  ultimately show ?thesis
    using False ss(1) by (auto simp: finish_def Let_def with_session_def Release_def put_session_def sess_def gone_def ss'_def ws_inv_write split: job.split)
qed (auto simp: finish_def assms)

text \<open>The start, and what follows it when no connection is closed while a command of it waits.\<close>

definition ws_start :: "string list \<Rightarrow> bool \<Rightarrow> 'w \<Rightarrow> ('w, 'n) server" where
  "ws_start names th w = \<lparr>clients = [], sessions = [], next_session = 0, api_cmds = [], workers = [],
     events = Ready (RegisterEvents names (Events_new th)), world = w, writable = {}, sent_msgs = []\<rparr>"

definition ws_possible :: "ws_step \<Rightarrow> ('w, 'n) server \<Rightarrow> bool" where
  "ws_possible st sv = (case st of Established wsi p \<Rightarrow> smap_find (clients sv) wsi = None | _ \<Rightarrow> True)"

inductive ws_reachable :: "('w, 'n) ws_env \<Rightarrow> ('w, 'n) server \<Rightarrow> bool" for env where
  start: "ws_reachable env (ws_start names th w)"
| step: "ws_reachable env sv \<Longrightarrow> ws_possible st sv \<Longrightarrow> ws_run env st sv = Inr sv' \<Longrightarrow> no_cmd_lost sv' \<Longrightarrow> ws_reachable env sv'"

lemma ws_start_inv: "ws_inv env (ws_start names th w)"
proof -
  have "queues (fold RegisterEvent names ev) = queues ev \<and> online_events (fold RegisterEvent names ev) = online_events ev \<and>
      subscriptions (fold RegisterEvent names ev) = subscriptions ev" for ev
    by (induction names arbitrary: ev) (simp_all add: RegisterEvent_def)
  then show ?thesis
    by (intro ws_invI) (simp_all add: ws_start_def smap_inv_def maps_ok_def mentioned_def subscribers_def Ready_def RegisterEvents_def Events_new_def entry_def)
qed

lemma ws_run_inv:
  assumes "ws_inv (base_env env) sv" "ws_possible st sv" "ws_run env st sv = Inr sv'" "no_cmd_lost sv'"
  shows "ws_inv (base_env env) sv'"
proof (cases st)
  case (Established wsi p)
  then show ?thesis using assms established_inv by (auto simp: ws_possible_def)
next
  case (Closed wsi)
  then show ?thesis using assms closed_inv by (auto simp: no_cmd_lost_def)
next
  case (EngineEvent ty i)
  have "ws_inv (base_env env) (sv\<lparr>events := Events.Create ty i 0 0 (events sv)\<rparr>)"
    using create_mentioned [OF ws_invD(3) [OF assms(1)], of ty i 0 0] by (intro ws_inv_events [OF assms(1), where W = "{}"]) auto
  then show ?thesis using assms(3) EngineEvent by auto
next
  case ApiGet
  then show ?thesis using assms(3) api_get_inv [OF assms(1)] by auto
next
  case EventGet
  then show ?thesis using assms(3) event_get_inv [OF assms(1)] by auto
next
  case (Finish i)
  then show ?thesis using assms(3) finish_inv [OF assms(1), of i] by auto
qed (use assms receive_inv writeable_inv work_inv in auto)

lemma ws_reachable_inv: "ws_reachable env sv \<Longrightarrow> ws_inv (base_env env) sv"
  by (induction rule: ws_reachable.induct) (auto intro: ws_start_inv ws_run_inv)


text \<open>A command that still waits when its connection is closed is run on freed memory, and a job that cannot be read ends the process.\<close>

lemma closed_client_cmd:
  assumes "api_cmds sv = (wsi, cmd) # cmds" "closed wsi sv = Inr sv'" shows "ws_run env ApiGet sv' = session_freed"
proof -
  have "api_cmds sv' = api_cmds sv \<and> smap_find (clients sv') wsi = None"
    using assms(2) by (auto simp: closed_def with_session_def session_freed_def smap_find_del split: option.splits prod.splits)
  then show ?thesis using assms(1) by (simp add: api_get_def start_job_def)
qed

lemma unreadable_job:
  "i < length (workers sv) \<Longrightarrow> \<not> answered (workers sv ! i) \<Longrightarrow> job_query env (w_job (workers sv ! i)) = Inl e \<Longrightarrow> ws_run env (Work i) sv = Inl e"
  by (simp add: work_def Let_def)

fun ws_steps :: "('w, 'n) ws_env \<Rightarrow> ws_step list \<Rightarrow> ('w, 'n) server \<Rightarrow> ('w, 'n) server option" where
  "ws_steps env [] sv = Some sv"
| "ws_steps env (st # sts) sv = (case ws_run env st sv of Inl e \<Rightarrow> None
     | Inr sv' \<Rightarrow> if ws_possible st sv \<and> no_cmd_lost sv' then ws_steps env sts sv' else None)"

lemma ws_steps_reachable: "ws_reachable env sv \<Longrightarrow> ws_steps env sts sv = Some sv' \<Longrightarrow> ws_reachable env sv'"
  by (induction sts arbitrary: sv) (auto intro: ws_reachable.step split: sum.splits if_splits)

definition sample_ws_env :: "(nat, unit) ws_env" where
  "sample_ws_env = \<lparr>auth_enabled = False, node_name = ''n'', version = ''3'', modules = [], module_node = (\<lambda>_ _. ()), modules_node = (\<lambda>_. ()),
     aligned = (\<lambda>_. True), user_list = (\<lambda>_. \<lparr>objects_id = [], objects_name = [], object_type = ''User''\<rparr>),
     query_handlers = [(''count'', \<lambda>u q w r. (Inr True, w + 1, r))], xpath_filter = (\<lambda>_ _. Inr []),
     parse = (\<lambda>c s. Inr \<lparr>q_context = c, q_group = s, q_attrs = Map.empty\<rparr>), table_end = (\<lambda>_. 0)\<rparr>"


end
