(* ===== verification/UniqueAction.thy ===== *)
theory UniqueAction
  imports StdMap
begin

text \<open>
  The election of src/Cluster/UniqueAction.cpp: the nodes of a cluster share the table t_uniqueaction, and the constructor
  makes three requests to it, each one step. A contender is one run of it. The clock of the database is a number of seconds; the
  garbage collector of src/DB/GarbageCollector.cpp deletes the rows that are at least \<open>retention\<close> seconds old, some or all of them.
  The constructor without a period, which asks the nodes, is a function of their answers.
\<close>

section \<open>The table and the contenders\<close>

record ua_row =
  row_id :: nat
  row_name :: string
  row_time :: nat

datatype decision = Pending | Elected | Lost

record contender =
  c_id :: nat
  c_name :: string
  c_period :: int
  c_time :: nat
  decided_at :: nat
  decision :: decision

record election =
  rows :: "ua_row list"
  ua_increment :: nat
  now :: nat
  contenders :: "contender list"

definition election_start :: "nat \<Rightarrow> election" where
  "election_start t = \<lparr>rows = [], ua_increment = 1, now = t, contenders = []\<rparr>"

text \<open>The INSERT, the SELECT and what is done with its rows, and the DELETE of the contenders that lost.\<close>

definition ua_insert :: "string \<Rightarrow> int \<Rightarrow> election \<Rightarrow> election" where
  "ua_insert name period el = el\<lparr>rows := rows el @ [\<lparr>row_id = ua_increment el, row_name = name, row_time = now el\<rparr>],
     ua_increment := ua_increment el + 1,
     contenders := contenders el @ [\<lparr>c_id = ua_increment el, c_name = name, c_period = period, c_time = now el, decided_at = 0, decision = Pending\<rparr>]\<rparr>"

definition ua_seen :: "contender \<Rightarrow> election \<Rightarrow> ua_row list" where
  "ua_seen c el = filter (\<lambda>r. row_name r = c_name c \<and> (c_period c > 0 \<longrightarrow> int (row_time r) + c_period c > int (now el))) (rows el)"

definition is_elected :: "contender \<Rightarrow> election \<Rightarrow> bool" where
  "is_elected c el \<longleftrightarrow> \<not> list_ex (\<lambda>r. row_id r < c_id c) (ua_seen c el)"

definition ua_select :: "nat \<Rightarrow> election \<Rightarrow> election" where
  "ua_select i el =
     (if length (contenders el) \<le> i \<or> decision (contenders el ! i) \<noteq> Pending then el
      else let c = contenders el ! i in
        el\<lparr>contenders := (contenders el)[i := c\<lparr>decision := (if is_elected c el then Elected else Lost), decided_at := now el\<rparr>]\<rparr>)"

definition ua_delete :: "nat \<Rightarrow> election \<Rightarrow> election" where
  "ua_delete i el =
     (if length (contenders el) \<le> i \<or> decision (contenders el ! i) \<noteq> Lost then el
      else el\<lparr>rows := filter (\<lambda>r. row_id r \<noteq> c_id (contenders el ! i)) (rows el)\<rparr>)"

datatype ua_step = UaInsert string int | UaSelect nat | UaDelete nat | UaTick nat | UaCollect "nat list"

fun ua_run :: "nat \<Rightarrow> ua_step \<Rightarrow> election \<Rightarrow> election" where
  "ua_run retention (UaInsert name period) el = ua_insert name period el"
| "ua_run retention (UaSelect i) el = ua_select i el"
| "ua_run retention (UaDelete i) el = ua_delete i el"
| "ua_run retention (UaTick d) el = el\<lparr>now := now el + d\<rparr>"
| "ua_run retention (UaCollect ids) el = el\<lparr>rows := filter (\<lambda>r. \<not> (row_time r + retention \<le> now el \<and> row_id r \<in> set ids)) (rows el)\<rparr>"

text \<open>The other constructor: \<open>nodes\<close> is what \<open>Cluster::Ping\<close> returned, \<open>None\<close> when there is no cluster object yet.\<close>

definition ping_elected :: "string list option \<Rightarrow> string \<Rightarrow> bool" where
  "ping_elected nodes me = (case nodes of None \<Rightarrow> False | Some ns \<Rightarrow> if ns = [] then True else Min (set ns) = me)"

section \<open>At most one in a period\<close>

text \<open>The row of a contender that has not lost stays until it is collected.\<close>

definition kept :: "nat \<Rightarrow> election \<Rightarrow> contender \<Rightarrow> bool" where
  "kept retention el c \<longleftrightarrow> \<lparr>row_id = c_id c, row_name = c_name c, row_time = c_time c\<rparr> \<in> set (rows el) \<or> c_time c + retention \<le> now el"

definition apart :: "nat \<Rightarrow> contender \<Rightarrow> contender \<Rightarrow> bool" where
  "apart retention c d \<longleftrightarrow> 0 < c_period d \<and> int (c_time c) + c_period d \<le> int (decided_at d) \<or> c_time c + retention \<le> decided_at d"

definition election_inv :: "nat \<Rightarrow> election \<Rightarrow> bool" where
  "election_inv retention el \<longleftrightarrow>
     sorted_wrt (<) (map c_id (contenders el)) \<and> (\<forall>c \<in> set (contenders el). c_id c < ua_increment el) \<and>
     (\<forall>r \<in> set (rows el). \<exists>c \<in> set (contenders el). c_id c = row_id r \<and> c_name c = row_name r) \<and>
     (\<forall>c \<in> set (contenders el). decision c \<noteq> Lost \<longrightarrow> kept retention el c) \<and>
     (\<forall>c \<in> set (contenders el). \<forall>d \<in> set (contenders el). c_name c = c_name d \<and> c_id c < c_id d \<and> decision c \<noteq> Lost \<and> decision d = Elected \<longrightarrow>
        apart retention c d) \<and>
     (\<forall>d \<in> set (contenders el). decision d = Lost \<longrightarrow> (\<exists>c \<in> set (contenders el). c_name c = c_name d \<and> c_id c < c_id d))"

lemma election_invD:
  assumes "election_inv retention el"
  shows "sorted_wrt (<) (map c_id (contenders el))" "c \<in> set (contenders el) \<Longrightarrow> c_id c < ua_increment el"
    "r \<in> set (rows el) \<Longrightarrow> \<exists>c \<in> set (contenders el). c_id c = row_id r \<and> c_name c = row_name r"
    "c \<in> set (contenders el) \<Longrightarrow> decision c \<noteq> Lost \<Longrightarrow> kept retention el c"
    "c \<in> set (contenders el) \<Longrightarrow> d \<in> set (contenders el) \<Longrightarrow> c_name c = c_name d \<Longrightarrow> c_id c < c_id d \<Longrightarrow> decision c \<noteq> Lost \<Longrightarrow> decision d = Elected \<Longrightarrow>
      apart retention c d"
    "d \<in> set (contenders el) \<Longrightarrow> decision d = Lost \<Longrightarrow> \<exists>c \<in> set (contenders el). c_name c = c_name d \<and> c_id c < c_id d"
  using assms unfolding election_inv_def by simp_all

lemma unique_id:
  assumes "sorted_wrt (<) (map c_id cs)" "c \<in> set cs" "d \<in> set cs" "c_id c = c_id d" shows "c = d"
proof -
  have "distinct (map c_id cs)" using assms(1) by (simp add: strict_sorted_iff)
  then show ?thesis using assms(2-) by (simp add: distinct_map inj_on_def)
qed

lemma insert_inv: "election_inv retention el \<Longrightarrow> election_inv retention (ua_insert name period el)"
  unfolding election_inv_def by (auto simp: ua_insert_def sorted_wrt_append kept_def less_SucI)

lemma tick_inv: "election_inv retention el \<Longrightarrow> election_inv retention (el\<lparr>now := now el + d\<rparr>)"
  unfolding election_inv_def kept_def by fastforce

lemma rows_inv:
  assumes "election_inv retention el" "set rs \<subseteq> set (rows el)"
    "\<And>c. c \<in> set (contenders el) \<Longrightarrow> decision c \<noteq> Lost \<Longrightarrow> kept retention (el\<lparr>rows := rs\<rparr>) c"
  shows "election_inv retention (el\<lparr>rows := rs\<rparr>)"
  using assms unfolding election_inv_def by (simp add: subset_iff)

lemma collect_inv:
  assumes "election_inv retention el" shows "election_inv retention (ua_run retention (UaCollect ids) el)"
proof -
  have "election_inv retention (el\<lparr>rows := filter (\<lambda>r. \<not> (row_time r + retention \<le> now el \<and> row_id r \<in> set ids)) (rows el)\<rparr>)"
    by (rule rows_inv [OF assms]) (use election_invD(4) [OF assms] in \<open>auto simp: kept_def\<close>)
  then show ?thesis by simp
qed

lemma delete_inv:
  assumes "election_inv retention el" shows "election_inv retention (ua_delete i el)"
proof (cases "length (contenders el) \<le> i \<or> decision (contenders el ! i) \<noteq> Lost")
  case False
  let ?l = "contenders el ! i"
  have l: "?l \<in> set (contenders el)" "decision ?l = Lost" using False by simp_all
  have "c_id c \<noteq> c_id ?l" if "c \<in> set (contenders el)" "decision c \<noteq> Lost" for c
    using unique_id [OF election_invD(1) [OF assms] that(1) l(1)] that(2) l(2) by auto
  then show ?thesis using False election_invD(4) [OF assms] by (auto simp: ua_delete_def kept_def intro!: rows_inv [OF assms])
qed (auto simp: ua_delete_def assms)

lemma select_inv:
  assumes "election_inv retention el" shows "election_inv retention (ua_select i el)"
proof (cases "length (contenders el) \<le> i \<or> decision (contenders el ! i) \<noteq> Pending")
  case False
  let ?c = "contenders el ! i"
  let ?d = "?c\<lparr>decision := (if is_elected ?c el then Elected else Lost), decided_at := now el\<rparr>"
  let ?cs = "(contenders el)[i := ?d]"
  have c: "?c \<in> set (contenders el)" "decision ?c = Pending" using False by simp_all
  have s: "ua_select i el = el\<lparr>contenders := ?cs\<rparr>" using False by (simp add: ua_select_def Let_def)
  have ids: "map c_id ?cs = map c_id (contenders el)" using False by (simp add: map_update list_update_same_conv)
  have sub: "set ?cs \<subseteq> insert ?d (set (contenders el))" by (rule set_update_subset_insert)
  have same: "\<exists>y \<in> set ?cs. c_id y = c_id x \<and> c_name y = c_name x" if "x \<in> set (contenders el)" for x
  proof -
    obtain j where j: "j < length (contenders el)" "contenders el ! j = x" using \<open>x \<in> set (contenders el)\<close> by (auto simp: in_set_conv_nth)
    then have "c_id (?cs ! j) = c_id x \<and> c_name (?cs ! j) = c_name x" by (cases "i = j") simp_all
    then show ?thesis using j(1) by (intro bexI [of _ "?cs ! j"]) simp_all
  qed
  have keep: "kept retention el x" if "x \<in> set (contenders el)" "decision x \<noteq> Lost" for x by (rule election_invD(4) [OF assms that])
  have older: "apart retention x ?d" if x: "x \<in> set (contenders el)" "c_name x = c_name ?c" "c_id x < c_id ?c" "decision x \<noteq> Lost" "is_elected ?c el" for x
  proof -
    have "\<not> (\<lparr>row_id = c_id x, row_name = c_name x, row_time = c_time x\<rparr> \<in> set (rows el) \<and> (c_period ?c > 0 \<longrightarrow> int (c_time x) + c_period ?c > int (now el)))"
      using x(2,3,5) by (force simp: is_elected_def ua_seen_def list_ex_iff)
    then show ?thesis using keep [of x] x(1,4) by (auto simp: kept_def apart_def)
  qed
  have newer: "apart retention ?d x" if x: "x \<in> set (contenders el)" "c_name ?c = c_name x" "c_id ?c < c_id x" "decision x = Elected" for x
    using election_invD(5) [OF assms c(1) x(1-3)] x(4) c(2) by (simp add: apart_def)
  have lost: "\<exists>x \<in> set (contenders el). c_name x = c_name ?c \<and> c_id x < c_id ?c" if l: "\<not> is_elected ?c el"
  proof -
    obtain r where "r \<in> set (rows el)" "row_name r = c_name ?c" "row_id r < c_id ?c"
      using l by (auto simp: is_elected_def ua_seen_def list_ex_iff)
    then show ?thesis using election_invD(3) [OF assms, of r] by auto
  qed
  have old_or: "x = ?d \<or> x \<in> set (contenders el)" if "x \<in> set ?cs" for x using that sub by blast
  have "apart retention x y" if xy: "x \<in> set ?cs" "y \<in> set ?cs" "c_name x = c_name y" "c_id x < c_id y" "decision x \<noteq> Lost" "decision y = Elected" for x y
    using old_or [OF xy(1)] old_or [OF xy(2)] xy(3-) older [of x] newer [of y] election_invD(5) [OF assms, of x y] c(2)
    by (auto split: if_splits)
  moreover have "\<exists>x \<in> set ?cs. c_name x = c_name y \<and> c_id x < c_id y" if y: "y \<in> set ?cs" "decision y = Lost" for y
  proof -
    have "\<exists>x \<in> set (contenders el). c_name x = c_name y \<and> c_id x < c_id y"
      using old_or [OF y(1)] y(2) lost election_invD(6) [OF assms, of y] by (auto split: if_splits)
    then show ?thesis using same by metis
  qed
  moreover have "\<exists>x \<in> set ?cs. c_id x = row_id r \<and> c_name x = row_name r" if "r \<in> set (rows el)" for r
    using election_invD(3) [OF assms that] same by metis
  moreover have "kept retention (el\<lparr>contenders := ?cs\<rparr>) x" if "x \<in> set ?cs" "decision x \<noteq> Lost" for x
    using old_or [OF that(1)] that(2) keep [of x] keep [OF c(1)] c(2) by (auto simp: kept_def)
  moreover have "c_id x < ua_increment el" if "x \<in> set ?cs" for x
    using old_or [OF that] election_invD(2) [OF assms] c(1) by auto
  ultimately show ?thesis
    unfolding s election_inv_def using election_invD(1) [OF assms] ids by simp
qed (auto simp: ua_select_def assms)

lemma run_election_inv: "election_inv retention el \<Longrightarrow> election_inv retention (ua_run retention st el)"
proof (cases st)
  case (UaCollect ids)
  then show "election_inv retention el \<Longrightarrow> ?thesis" using collect_inv by blast
qed (simp_all add: insert_inv select_inv delete_inv tick_inv)

lemma history_election_inv: "election_inv retention (fold (ua_run retention) sts (election_start t))"
proof -
  have "election_inv retention el \<Longrightarrow> election_inv retention (fold (ua_run retention) sts el)" for el
    by (induction sts arbitrary: el) (simp_all add: run_election_inv)
  moreover have "election_inv retention (election_start t)" by (simp add: election_inv_def election_start_def)
  ultimately show ?thesis by blast
qed



end
