(* ===== verification/InstanceList.thy ===== *)
theory InstanceList
  imports Access
begin

text \<open>
  The instances that run on the node, and the threads that wait for their end: src/WorkflowInstance/WorkflowInstances.cpp.
  Instances live at addresses of a heap. Every operation runs under the lock of the list; a waiting thread gives it
  up while it sleeps on the condition of its instance, so \<open>Wait\<close> is the step that goes to sleep and the steps that
  wake up. A thread whose time is over (\<open>Expired\<close>) still has to get the lock before it goes on. What an instance is
  told is recorded in \<open>calls\<close>. Times are seconds.
\<close>

section \<open>State\<close>

record inst =
  i_id :: nat
  i_workflow :: nat

datatype inst_call = CallCancel | CallKill int | CallStatus bool | CallSave

datatype wait_state = Sleeping "int option" | Expired | Notified | Returned bool

record waiter =
  w_instance :: nat
  w_cond :: nat
  w_timeout :: int
  w_end :: int
  w_state :: wait_state

record wi_list =
  poll_interval :: int
  is_shutting_down :: bool
  wi :: "(nat, nat) smap"
  heap :: "(nat, inst) smap"
  wi_wait :: "(nat, nat) smap"
  live_conds :: "nat list"
  next_cond :: nat
  waiters :: "waiter list"
  waiting_threads :: int
  calls :: "(nat \<times> inst_call) list"
  ended :: "nat list"

definition WorkflowInstances_new :: "int \<Rightarrow> wi_list res" where
  "WorkflowInstances_new interval =
     (if interval < 0 then Inl (Exn ''WorkflowInstances'' ''DPD: Invalid poll interval, should be greater or equal than 0'' [])
      else Inr \<lparr>poll_interval = interval, is_shutting_down = False, wi = [], heap = [], wi_wait = [], live_conds = [], next_cond = 0,
        waiters = [], waiting_threads = 0, calls = [], ended = []\<rparr>)"

definition insufficient :: fault where
  "insufficient = Exn ''Access Control'' ''insufficient rights'' ''INSUFFICIENT_RIGHTS''"

definition instance_at :: "wi_list \<Rightarrow> nat \<Rightarrow> inst res" where
  "instance_at s a = (case smap_find (heap s) a of None \<Rightarrow> Inl (UB ''freed instance'') | Some i \<Rightarrow> Inr i)"

definition record_call :: "nat \<Rightarrow> inst_call \<Rightarrow> wi_list \<Rightarrow> wi_list" where
  "record_call a c s = s\<lparr>calls := calls s @ [(a, c)]\<rparr>"

section \<open>Operations\<close>

definition wi_Add :: "nat \<Rightarrow> nat \<Rightarrow> wi_list \<Rightarrow> wi_list" where
  "wi_Add uid a s = s\<lparr>wi := smap_put (wi s) uid a\<rparr>"

definition notify :: "nat \<Rightarrow> waiter \<Rightarrow> waiter" where
  "notify c w = (case w_state w of Sleeping t \<Rightarrow> if w_cond w = c then w\<lparr>w_state := Notified\<rparr> else w | _ \<Rightarrow> w)"

definition release_waiters :: "nat \<Rightarrow> wi_list \<Rightarrow> wi_list" where
  "release_waiters uid s = (case smap_find (wi_wait s) uid of
       None \<Rightarrow> s
     | Some c \<Rightarrow> s\<lparr>waiters := map (notify c) (waiters s), wi_wait := smap_del (wi_wait s) uid,
         live_conds := filter (\<lambda>k. k \<noteq> c) (live_conds s)\<rparr>)"

definition wi_Remove :: "nat \<Rightarrow> wi_list \<Rightarrow> wi_list" where
  "wi_Remove uid s = release_waiters uid (s\<lparr>wi := smap_del (wi s) uid\<rparr>)"

text \<open>\<open>Cancel\<close>, \<open>KillTask\<close> and \<open>SendInstanceStatus\<close>: whether the instance was found.\<close>

definition on_instance :: "user \<Rightarrow> nat \<Rightarrow> string \<Rightarrow> inst_call \<Rightarrow> wi_list \<Rightarrow> bool res \<times> wi_list" where
  "on_instance u uid right c s = (case smap_find (wi s) uid of
       None \<Rightarrow> (Inr False, s)
     | Some a \<Rightarrow> (case instance_at s a of
           Inl e \<Rightarrow> (Inl e, s)
         | Inr i \<Rightarrow> if \<not> HasAccessToWorkflow u (i_workflow i) right then (Inl insufficient, s) else (Inr True, record_call a c s)))"

definition wi_Cancel :: "user \<Rightarrow> nat \<Rightarrow> wi_list \<Rightarrow> bool res \<times> wi_list" where
  "wi_Cancel u uid = on_instance u uid ''kill'' CallCancel"

definition wi_KillTask :: "user \<Rightarrow> nat \<Rightarrow> int \<Rightarrow> wi_list \<Rightarrow> bool res \<times> wi_list" where
  "wi_KillTask u uid pid = on_instance u uid ''kill'' (CallKill pid)"

definition wi_SendInstanceStatus :: "user \<Rightarrow> nat \<Rightarrow> wi_list \<Rightarrow> bool res \<times> wi_list" where
  "wi_SendInstanceStatus u uid = on_instance u uid ''read'' (CallStatus True)"

fun send_status :: "user \<Rightarrow> int \<Rightarrow> int \<Rightarrow> nat list \<Rightarrow> wi_list \<Rightarrow> unit res \<times> wi_list" where
  "send_status u limit n [] s = (Inr (), s)"
| "send_status u limit n (a # as) s = (case instance_at s a of
       Inl e \<Rightarrow> (Inl e, s)
     | Inr i \<Rightarrow>
         if \<not> HasAccessToWorkflow u (i_workflow i) ''read'' then send_status u limit n as s
         else if limit \<noteq> 0 \<and> n + 1 \<ge> limit then (Inr (), record_call a (CallStatus False) s)
         else send_status u limit (n + 1) as (record_call a (CallStatus False) s))"

definition wi_SendStatus :: "user \<Rightarrow> int \<Rightarrow> wi_list \<Rightarrow> unit res \<times> wi_list" where
  "wi_SendStatus u limit s = send_status u limit 0 (map snd (wi s)) s"

text \<open>The loop of \<open>RecordSavepoint\<close>: the list is not cleared.\<close>

fun save_all :: "(nat \<times> nat) list \<Rightarrow> wi_list \<Rightarrow> unit res \<times> wi_list" where
  "save_all [] s = (Inr (), s)"
| "save_all ((uid, a) # ws) s = (case instance_at s a of
       Inl e \<Rightarrow> (Inl e, s)
     | Inr i \<Rightarrow> save_all ws (let s1 = release_waiters (i_id i) (record_call a CallSave s) in s1\<lparr>heap := smap_del (heap s1) a\<rparr>))"

definition RecordSavepoint :: "wi_list \<Rightarrow> unit res \<times> wi_list" where
  "RecordSavepoint s = save_all (wi s) (s\<lparr>is_shutting_down := True\<rparr>)"

section \<open>Waiting\<close>

definition next_abstime :: "int \<Rightarrow> int \<Rightarrow> int \<Rightarrow> int \<Rightarrow> int option" where
  "next_abstime interval timeout end_time now =
     (if interval = 0 then (if timeout = 0 then None else Some end_time)
      else if timeout = 0 then Some (now + interval)
      else if now + interval > end_time then Some end_time else Some (now + interval))"

text \<open>The beginning of \<open>Wait\<close>: the answer at once, or the thread is asleep.\<close>

definition wait_condition :: "nat \<Rightarrow> wi_list \<Rightarrow> nat \<times> wi_list" where
  "wait_condition uid s = (case smap_find (wi_wait s) uid of
       Some c \<Rightarrow> (c, s)
     | None \<Rightarrow> (next_cond s, s\<lparr>wi_wait := smap_put (wi_wait s) uid (next_cond s), live_conds := next_cond s # live_conds s,
         next_cond := Suc (next_cond s)\<rparr>))"

definition Wait_enter :: "user \<Rightarrow> nat \<Rightarrow> int \<Rightarrow> int \<Rightarrow> wi_list \<Rightarrow> bool option res \<times> wi_list" where
  "Wait_enter u uid timeout now s =
     (if timeout < 0 then (Inr (Some False), s)
      else case smap_find (wi s) uid of
          None \<Rightarrow> (Inl (Exn ''WorkflowInstances'' ''Unknown instance ID'' ''UNKNOWN_INSTANCE''), s)
        | Some a \<Rightarrow> (case instance_at s a of
              Inl e \<Rightarrow> (Inl e, s)
            | Inr i \<Rightarrow>
                if \<not> HasAccessToWorkflow u (i_workflow i) ''read'' then (Inl insufficient, s)
                else let (c, s1) = wait_condition uid s in
                  (Inr None, s1\<lparr>waiters := waiters s1 @ [\<lparr>w_instance = uid, w_cond = c, w_timeout = timeout, w_end = now + timeout,
                     w_state = Sleeping (next_abstime (poll_interval s) timeout (now + timeout) now)\<rparr>],
                     waiting_threads := waiting_threads s1 + 1\<rparr>)))"

definition wait_return :: "nat \<Rightarrow> bool \<Rightarrow> wi_list \<Rightarrow> wi_list" where
  "wait_return k b s = s\<lparr>waiters := (waiters s)[k := (waiters s ! k)\<lparr>w_state := Returned (if is_shutting_down s then False else b)\<rparr>],
     waiting_threads := waiting_threads s - 1\<rparr>"

text \<open>
  A thread that woke up has the lock again. One that was notified leaves; one whose time is over leaves, or, with the
  detection of dead peers, asks whether the client is alive (\<open>Ping\<close>) and goes to sleep again on the same condition.
\<close>

definition Wait_wake :: "nat \<Rightarrow> int \<Rightarrow> bool \<Rightarrow> wi_list \<Rightarrow> unit res \<times> wi_list" where
  "Wait_wake k now alive s =
     (let w = waiters s ! k in
      case w_state w of
        Notified \<Rightarrow> (Inr (), wait_return k True s)
      | Expired \<Rightarrow>
          (if poll_interval s = 0 \<or> (w_timeout w \<noteq> 0 \<and> now > w_end w) \<or> \<not> alive then (Inr (), wait_return k False s)
           else if w_cond w \<notin> set (live_conds s) then (Inl (UB ''freed condition''), s)
           else (Inr (), s\<lparr>waiters := (waiters s)[k := w\<lparr>w_state := Sleeping (next_abstime (poll_interval s) (w_timeout w) (w_end w) now)\<rparr>]\<rparr>))
      | _ \<Rightarrow> (Inr (), s))"

section \<open>Runs\<close>

text \<open>
  The destructor of an instance removes it and then it is freed. A thread's time may be over at any time after it came;
  wake-ups for no reason, which the library allows, are not among the events.
\<close>

datatype wi_event =
    EvAdd nat nat inst | EvEnd nat | EvCancel user nat | EvKill user nat int | EvStatus user int | EvInstanceStatus user nat
  | EvWait user nat int int | EvExpire nat int | EvWake nat int bool | EvSave

definition forget_value :: "'a res \<times> 's \<Rightarrow> unit res \<times> 's" where
  "forget_value rs = (case rs of (Inl e, s) \<Rightarrow> (Inl e, s) | (Inr x, s) \<Rightarrow> (Inr (), s))"

fun wi_run :: "wi_event \<Rightarrow> wi_list \<Rightarrow> unit res \<times> wi_list" where
  "wi_run (EvAdd uid a i) s = (Inr (), wi_Add uid a (s\<lparr>heap := smap_put (heap s) a i\<rparr>))"
| "wi_run (EvEnd uid) s = (case smap_find (wi s) uid of
     None \<Rightarrow> (Inr (), s)
   | Some a \<Rightarrow> (Inr (), let s1 = wi_Remove uid s in s1\<lparr>heap := smap_del (heap s1) a, ended := uid # ended s1\<rparr>))"
| "wi_run (EvCancel u uid) s = forget_value (wi_Cancel u uid s)"
| "wi_run (EvKill u uid pid) s = forget_value (wi_KillTask u uid pid s)"
| "wi_run (EvStatus u limit) s = wi_SendStatus u limit s"
| "wi_run (EvInstanceStatus u uid) s = forget_value (wi_SendInstanceStatus u uid s)"
| "wi_run (EvWait u uid timeout now) s = forget_value (Wait_enter u uid timeout now s)"
| "wi_run (EvExpire k now) s = (Inr (), s\<lparr>waiters := (waiters s)[k := (waiters s ! k)\<lparr>w_state := Expired\<rparr>]\<rparr>)"
| "wi_run (EvWake k now alive) s = Wait_wake k now alive s"
| "wi_run EvSave s = RecordSavepoint s"

text \<open>What may happen: an instance is added under its id, which is new, at an address that is new.\<close>

fun wi_possible :: "wi_event \<Rightarrow> wi_list \<Rightarrow> bool" where
  "wi_possible (EvAdd uid a i) s \<longleftrightarrow> i_id i = uid \<and> smap_find (wi s) uid = None \<and> smap_find (heap s) a = None \<and>
     a \<notin> set (map snd (wi s)) \<and> uid \<notin> set (ended s)"
| "wi_possible (EvExpire k now) s \<longleftrightarrow> k < length (waiters s) \<and> (case w_state (waiters s ! k) of Sleeping (Some t) \<Rightarrow> t \<le> now | _ \<Rightarrow> False)"
| "wi_possible (EvWake k now alive) s \<longleftrightarrow> k < length (waiters s)"
| "wi_possible (EvEnd uid) s \<longleftrightarrow> \<not> is_shutting_down s"
| "wi_possible e s \<longleftrightarrow> True"

inductive wi_reachable :: "wi_list \<Rightarrow> bool" where
  start: "WorkflowInstances_new interval = Inr s \<Longrightarrow> wi_reachable s"
| step: "wi_reachable s \<Longrightarrow> wi_possible e s \<Longrightarrow> wi_run e s = (r, s') \<Longrightarrow> \<not> is_ub r \<Longrightarrow> wi_reachable s'"

section \<open>Invariant\<close>

definition waits_ok :: "(nat, nat) smap \<Rightarrow> nat list \<Rightarrow> nat \<Rightarrow> bool" where
  "waits_ok waits live n \<longleftrightarrow> smap_inv waits \<and> (\<forall>i c. smap_find waits i = Some c \<longrightarrow> c \<in> set live \<and> c < n) \<and>
     (\<forall>i j c. smap_find waits i = Some c \<longrightarrow> smap_find waits j = Some c \<longrightarrow> i = j)"

text \<open>A condition that is not freed belongs to an instance that runs; who sleeps does so on such a condition.\<close>

definition waiter_ok :: "(nat, nat) smap \<Rightarrow> nat list \<Rightarrow> nat \<Rightarrow> (nat \<Rightarrow> bool) \<Rightarrow> (nat \<Rightarrow> bool) \<Rightarrow> bool \<Rightarrow> waiter \<Rightarrow> bool" where
  "waiter_ok waits live n runs e sd w \<longleftrightarrow> w_cond w < n \<and>
     (w_cond w \<in> set live \<longrightarrow> smap_find waits (w_instance w) = Some (w_cond w) \<and> runs (w_instance w)) \<and>
     (case w_state w of
        Sleeping t \<Rightarrow> w_cond w \<in> set live
      | Notified \<Rightarrow> e (w_instance w) \<or> sd
      | Returned b \<Rightarrow> b \<longrightarrow> e (w_instance w)
      | Expired \<Rightarrow> True)"

definition runs :: "wi_list \<Rightarrow> nat \<Rightarrow> bool" where
  "runs s uid \<longleftrightarrow> smap_find (wi s) uid \<noteq> None"

definition waiters_ok :: "wi_list \<Rightarrow> bool" where
  "waiters_ok s \<longleftrightarrow> waits_ok (wi_wait s) (live_conds s) (next_cond s) \<and>
     (\<forall>w \<in> set (waiters s). waiter_ok (wi_wait s) (live_conds s) (next_cond s) (runs s) (\<lambda>i. i \<in> set (ended s)) (is_shutting_down s) w)"

definition heap_ok :: "wi_list \<Rightarrow> bool" where
  "heap_ok s \<longleftrightarrow> smap_inv (wi s) \<and> smap_inv (heap s) \<and>
     (\<not> is_shutting_down s \<longrightarrow> (\<forall>i a. smap_find (wi s) i = Some a \<longrightarrow> (\<exists>x. smap_find (heap s) a = Some x \<and> i_id x = i)))"

definition wi_inv :: "wi_list \<Rightarrow> bool" where
  "wi_inv s \<longleftrightarrow> waiters_ok s \<and> heap_ok s"

lemma live_instance:
  "wi_inv s \<Longrightarrow> \<not> is_shutting_down s \<Longrightarrow> smap_find (wi s) i = Some a \<Longrightarrow> \<exists>x. smap_find (heap s) a = Some x \<and> i_id x = i"
  by (auto simp: wi_inv_def heap_ok_def)

lemma notify_ok:
  assumes "waits_ok waits live n" "waiter_ok waits live n r e sd w" "smap_find waits uid = Some c" "e' uid \<or> sd'"
    "\<And>i. e i \<Longrightarrow> e' i" "sd \<Longrightarrow> sd'" "\<And>i. i \<noteq> uid \<Longrightarrow> r i \<Longrightarrow> r' i"
  shows "waiter_ok (smap_del waits uid) (filter (\<lambda>k. k \<noteq> c) live) n r' e' sd' (notify c w)"
proof (cases "w_cond w = c")
  case True
  have "w_instance w = uid" if "c \<in> set live"
    using that True assms(1-3) by (auto simp: waiter_ok_def waits_ok_def)
  then show ?thesis using True assms by (auto simp: waiter_ok_def notify_def split: wait_state.splits)
next
  case False
  then have "w_instance w \<noteq> uid" if "w_cond w \<in> set live" using that assms(2,3) by (auto simp: waiter_ok_def)
  then show ?thesis using False assms by (auto simp: waiter_ok_def notify_def smap_find_del split: wait_state.splits)
qed

lemma unwaited_ok:
  assumes "waiter_ok waits live n r e sd w" "smap_find waits uid = None" "\<And>i. e i \<Longrightarrow> e' i" "sd \<Longrightarrow> sd'" "\<And>i. i \<noteq> uid \<Longrightarrow> r i \<Longrightarrow> r' i"
  shows "waiter_ok waits live n r' e' sd' w"
proof -
  have "w_instance w \<noteq> uid" if "w_cond w \<in> set live" using that assms(1,2) by (auto simp: waiter_ok_def)
  then show ?thesis using assms by (auto simp: waiter_ok_def split: wait_state.splits)
qed

lemma waits_del: "waits_ok waits live n \<Longrightarrow> smap_find waits uid = Some c \<Longrightarrow> waits_ok (smap_del waits uid) (filter (\<lambda>k. k \<noteq> c) live) n"
  unfolding waits_ok_def by (auto simp: smap_inv_del smap_find_del split: if_splits)

text \<open>Releasing the waiters of \<open>uid\<close>, when only \<open>uid\<close> may have stopped to run and it is recorded as ended.\<close>

lemma release_ok:
  assumes "waiters_ok s" "t = release_waiters uid (s\<lparr>wi := m, is_shutting_down := sd\<rparr>)" "is_shutting_down s \<longrightarrow> sd"
    "\<And>i. i \<noteq> uid \<Longrightarrow> smap_find (wi s) i \<noteq> None \<Longrightarrow> smap_find m i \<noteq> None"
    "uid \<in> set es \<or> sd" "set (ended s) \<subseteq> set es"
  shows "waiters_ok (t\<lparr>calls := cs, heap := h, ended := es\<rparr>)"
proof (cases "smap_find (wi_wait s) uid")
  case None
  have "waiter_ok (wi_wait s) (live_conds s) (next_cond s) (\<lambda>i. smap_find m i \<noteq> None) (\<lambda>i. i \<in> set es) sd w"
    if "w \<in> set (waiters s)" for w
  proof -
    have "waiter_ok (wi_wait s) (live_conds s) (next_cond s) (runs s) (\<lambda>i. i \<in> set (ended s)) (is_shutting_down s) w"
      using that assms(1) by (simp add: waiters_ok_def)
    then show ?thesis by (rule unwaited_ok [OF _ None]) (use assms(3-6) in \<open>auto simp: runs_def\<close>)
  qed
  then show ?thesis using assms(1,2) None by (simp add: waiters_ok_def release_waiters_def runs_def [abs_def])
next
  case (Some c)
  have w: "waits_ok (wi_wait s) (live_conds s) (next_cond s)" using assms(1) by (simp add: waiters_ok_def)
  have "waiter_ok (smap_del (wi_wait s) uid) (filter (\<lambda>k. k \<noteq> c) (live_conds s)) (next_cond s) (\<lambda>i. smap_find m i \<noteq> None)
      (\<lambda>i. i \<in> set es) sd (notify c v)" if "v \<in> set (waiters s)" for v
  proof -
    have "waiter_ok (wi_wait s) (live_conds s) (next_cond s) (runs s) (\<lambda>i. i \<in> set (ended s)) (is_shutting_down s) v"
      using that assms(1) by (simp add: waiters_ok_def)
    then show ?thesis by (rule notify_ok [OF w _ Some]) (use assms(3-6) in \<open>auto simp: runs_def\<close>)
  qed
  then show ?thesis using waits_del [OF w Some] assms(2) Some by (simp add: waiters_ok_def release_waiters_def runs_def [abs_def])
qed

lemma waiters_ok_cong:
  assumes "waiters_ok s" "wi_wait t = wi_wait s" "live_conds t = live_conds s" "next_cond t = next_cond s" "waiters t = waiters s"
    "is_shutting_down t = is_shutting_down s" "set (ended s) \<subseteq> set (ended t)" "\<And>i. runs s i \<Longrightarrow> runs t i"
  shows "waiters_ok t"
proof -
  have "waiter_ok (wi_wait t) (live_conds t) (next_cond t) (runs t) (\<lambda>i. i \<in> set (ended t)) (is_shutting_down t) w"
    if "w \<in> set (waiters s)" for w
  proof -
    have "waiter_ok (wi_wait s) (live_conds s) (next_cond s) (runs s) (\<lambda>i. i \<in> set (ended s)) (is_shutting_down s) w"
      using that assms(1) by (simp add: waiters_ok_def)
    then show ?thesis using assms(2-) by (auto simp: waiter_ok_def split: wait_state.splits)
  qed
  then show ?thesis using assms by (simp add: waiters_ok_def)
qed

lemma record_call_inv: "wi_inv (record_call a c s) = wi_inv s"
  by (simp add: wi_inv_def waiters_ok_def heap_ok_def record_call_def runs_def [abs_def])

lemma on_instance_inv: "wi_inv s \<Longrightarrow> wi_inv (snd (on_instance u uid right c s))"
  by (simp add: on_instance_def record_call_inv split: option.splits sum.splits)

lemma send_status_inv: "wi_inv s \<Longrightarrow> wi_inv (snd (send_status u limit n as s))"
proof (induction as arbitrary: n s)
  case (Cons a as)
  then show ?case by (cases "instance_at s a") (auto simp: record_call_inv)
qed simp

lemma wait_condition_ok:
  assumes "waiters_ok s" "runs s uid" "wait_condition uid s = (c, t)"
  shows "waiters_ok t \<and> smap_find (wi_wait t) uid = Some c \<and> c \<in> set (live_conds t) \<and> c < next_cond t \<and>
    wi t = wi s \<and> heap t = heap s \<and> is_shutting_down t = is_shutting_down s"
proof (cases "smap_find (wi_wait s) uid")
  case None
  let ?n = "next_cond s"
  have inv: "smap_inv (wi_wait s)" using assms(1) by (simp add: waiters_ok_def waits_ok_def)
  have "waits_ok (smap_put (wi_wait s) uid ?n) (?n # live_conds s) (Suc ?n)"
    using assms(1) by (auto simp: waiters_ok_def waits_ok_def smap_inv_put smap_find_put split: if_splits intro: less_SucI)
  moreover have "waiter_ok (smap_put (wi_wait s) uid ?n) (?n # live_conds s) (Suc ?n) (runs s) (\<lambda>i. i \<in> set (ended s)) (is_shutting_down s) w"
    if "w \<in> set (waiters s)" for w
  proof -
    have "waiter_ok (wi_wait s) (live_conds s) ?n (runs s) (\<lambda>i. i \<in> set (ended s)) (is_shutting_down s) w"
      using that assms(1) by (simp add: waiters_ok_def)
    then show ?thesis using None inv by (auto simp: waiter_ok_def smap_find_put split: wait_state.splits)
  qed
  ultimately show ?thesis using None assms(3) inv
    by (auto simp: wait_condition_def waiters_ok_def runs_def [abs_def] smap_find_put)
next
  case (Some c')
  then show ?thesis using assms by (auto simp: wait_condition_def waiters_ok_def waits_ok_def)
qed

lemma add_waiter_ok:
  "waiters_ok s \<Longrightarrow> waiter_ok (wi_wait s) (live_conds s) (next_cond s) (runs s) (\<lambda>i. i \<in> set (ended s)) (is_shutting_down s) w \<Longrightarrow>
   waiters_ok (s\<lparr>waiters := waiters s @ [w], waiting_threads := n\<rparr>)"
  by (auto simp: waiters_ok_def runs_def [abs_def])

lemma update_waiter_ok:
  "waiters_ok s \<Longrightarrow> waiter_ok (wi_wait s) (live_conds s) (next_cond s) (runs s) (\<lambda>i. i \<in> set (ended s)) (is_shutting_down s) w \<Longrightarrow>
   waiters_ok (s\<lparr>waiters := (waiters s)[k := w], waiting_threads := n\<rparr>)"
  unfolding waiters_ok_def by (auto simp: runs_def [abs_def] dest!: set_update_subset_insert [THEN subsetD])

lemma Wait_enter_inv: "wi_inv s \<Longrightarrow> wi_inv (snd (Wait_enter u uid timeout now s))"
proof -
  assume i: "wi_inv s"
  obtain c t where t: "wait_condition uid s = (c, t)" by fastforce
  have "wi_inv (t\<lparr>waiters := waiters t @ [\<lparr>w_instance = uid, w_cond = c, w_timeout = timeout, w_end = e, w_state = Sleeping x\<rparr>],
      waiting_threads := waiting_threads t + 1\<rparr>)" if "smap_find (wi s) uid = Some a" for a x e
  proof -
    have "runs s uid" using that by (simp add: runs_def)
    note w = wait_condition_ok [OF _ this t]
    have "waiters_ok t" "heap_ok t" using i w by (auto simp: wi_inv_def heap_ok_def)
    moreover have "runs t uid" using w i that by (simp add: wi_inv_def runs_def)
    ultimately show ?thesis using w i add_waiter_ok [of t] by (simp add: wi_inv_def heap_ok_def waiter_ok_def)
  qed
  then show ?thesis using i t by (simp add: Wait_enter_def Let_def split: option.splits sum.splits)
qed

lemma Wait_wake_inv:
  assumes "wi_inv s" "k < length (waiters s)"
  shows "wi_inv (snd (Wait_wake k now alive s))"
proof -
  let ?w = "waiters s ! k"
  have w: "waiter_ok (wi_wait s) (live_conds s) (next_cond s) (runs s) (\<lambda>i. i \<in> set (ended s)) (is_shutting_down s) ?w"
    using assms by (simp add: wi_inv_def waiters_ok_def)
  have u: "wi_inv (s\<lparr>waiters := (waiters s)[k := ?w\<lparr>w_state := x\<rparr>], waiting_threads := n\<rparr>)"
    if "case x of Sleeping t \<Rightarrow> w_cond ?w \<in> set (live_conds s) | Notified \<Rightarrow> False | Returned b \<Rightarrow> b \<longrightarrow> w_instance ?w \<in> set (ended s) | Expired \<Rightarrow> True" for x n
  proof -
    have "waiters_ok s" using assms by (simp add: wi_inv_def)
    from update_waiter_ok [OF this, of "?w\<lparr>w_state := x\<rparr>"] show ?thesis using w that assms
      by (auto simp: wi_inv_def heap_ok_def waiter_ok_def split: wait_state.splits)
  qed
  show ?thesis
  proof (cases "w_state ?w")
    case Notified
    then show ?thesis using u [of "Returned (if is_shutting_down s then False else True)"] w
      by (auto simp: Wait_wake_def wait_return_def waiter_ok_def)
  next
    case Expired
    then show ?thesis
      using u [of "Returned (if is_shutting_down s then False else False)"] u [of "Sleeping t" "waiting_threads s" for t] assms(1)
      by (auto simp: Wait_wake_def wait_return_def Let_def)
  qed (use assms(1) in \<open>simp_all add: Wait_wake_def Let_def\<close>)
qed

lemma save_all_inv:
  "wi_inv s \<Longrightarrow> is_shutting_down s \<Longrightarrow> wi_inv (snd (save_all ws s))"
proof (induction ws arbitrary: s)
  case (Cons p ws)
  obtain uid a where p: "p = (uid, a)" by fastforce
  show ?case
  proof (cases "instance_at s a")
    case (Inr i)
    let ?s = "record_call a CallSave s"
    let ?t = "release_waiters (i_id i) ?s"
    have "waiters_ok ?s" using Cons.prems record_call_inv [of a CallSave s] unfolding wi_inv_def by blast
    moreover have "?t = release_waiters (i_id i) (?s\<lparr>wi := wi ?s, is_shutting_down := True\<rparr>)"
      using Cons.prems(2) by (cases s) (simp add: record_call_def)
    ultimately have "waiters_ok (?t\<lparr>calls := calls ?t, heap := smap_del (heap ?t) a, ended := ended ?s\<rparr>)"
      by (rule release_ok) auto
    moreover have t: "is_shutting_down ?t" "ended ?t = ended ?s" "wi ?t = wi s" "heap ?t = heap s" using Cons.prems(2)
      by (auto simp: release_waiters_def record_call_def split: option.splits)
    ultimately have "wi_inv (?t\<lparr>heap := smap_del (heap ?t) a\<rparr>)"
      using Cons.prems by (simp add: wi_inv_def heap_ok_def smap_inv_del) (simp add: waiters_ok_def runs_def [abs_def])
    then show ?thesis using Cons.IH Inr p t by (simp add: Let_def)
  qed (use Cons.prems p in simp)
qed simp

lemma forget_value_snd [simp]: "snd (forget_value rs) = snd rs"
  by (simp add: forget_value_def split: prod.splits sum.splits)

lemma forget_value_ub [simp]: "is_ub (fst (forget_value rs)) = is_ub (fst rs)"
  by (cases "fst rs") (auto simp: forget_value_def is_ub_def split: prod.splits)

lemma wi_run_inv:
  assumes "wi_inv s" "wi_possible e s"
  shows "wi_inv (snd (wi_run e s))"
proof (cases e)
  case (EvAdd uid a i)
  have "waiters_ok (wi_Add uid a (s\<lparr>heap := smap_put (heap s) a i\<rparr>))"
    by (rule waiters_ok_cong [of s]) (use assms in \<open>auto simp: wi_inv_def wi_Add_def runs_def heap_ok_def smap_find_put\<close>)
  moreover have "heap_ok (wi_Add uid a (s\<lparr>heap := smap_put (heap s) a i\<rparr>))"
  proof -
    have h: "smap_inv (wi s)" "smap_inv (heap s)" using assms by (simp_all add: wi_inv_def heap_ok_def)
    have "\<exists>x. smap_find (smap_put (heap s) a i) b = Some x \<and> i_id x = j"
      if "smap_find (smap_put (wi s) uid a) j = Some b" "\<not> is_shutting_down s" for j b
    proof (cases "j = uid")
      case False
      then have "smap_find (wi s) j = Some b" using that(1) h by (simp add: smap_find_put)
      moreover then have "b \<noteq> a" using assms(2) EvAdd by (force simp: smap_find_map_of dest: map_of_SomeD)
      ultimately show ?thesis using assms(1) that(2) h by (simp add: wi_inv_def heap_ok_def smap_find_put)
    qed (use that h assms EvAdd in \<open>auto simp: smap_find_put\<close>)
    then show ?thesis using h by (simp add: heap_ok_def wi_Add_def smap_inv_put)
  qed
  ultimately show ?thesis using EvAdd by (simp add: wi_inv_def)
next
  case (EvEnd uid)
  show ?thesis
  proof (cases "smap_find (wi s) uid")
    case (Some a)
    have sd: "\<not> is_shutting_down s" using assms(2) EvEnd by simp
    let ?t = "wi_Remove uid s"
    have t: "wi ?t = smap_del (wi s) uid" "heap ?t = heap s" "ended ?t = ended s" "is_shutting_down ?t = is_shutting_down s"
      by (auto simp: wi_Remove_def release_waiters_def split: option.splits)
    have "waiters_ok (?t\<lparr>calls := calls ?t, heap := smap_del (heap s) a, ended := uid # ended s\<rparr>)"
      by (rule release_ok [where s = s and uid = uid and m = "smap_del (wi s) uid" and sd = "is_shutting_down s"])
        (use assms(1) in \<open>auto simp: wi_inv_def wi_Remove_def smap_find_del\<close>)
    moreover have "\<exists>x. smap_find (smap_del (heap s) a) b = Some x \<and> i_id x = j" if "smap_find (smap_del (wi s) uid) j = Some b" for j b
    proof -
      have j: "j \<noteq> uid" "smap_find (wi s) j = Some b" using that by (auto simp: smap_find_del split: if_splits)
      then obtain x y where "smap_find (heap s) b = Some x" "i_id x = j" "smap_find (heap s) a = Some y" "i_id y = uid"
        using live_instance [OF assms(1) sd j(2)] live_instance [OF assms(1) sd Some] by blast
      then show ?thesis using j by (auto simp: smap_find_del)
    qed
    ultimately show ?thesis using EvEnd Some t assms(1) by (simp add: wi_inv_def heap_ok_def smap_inv_del)
  qed (use EvEnd assms in simp)
next
  case (EvExpire k now)
  let ?w = "waiters s ! k"
  have "waiter_ok (wi_wait s) (live_conds s) (next_cond s) (runs s) (\<lambda>i. i \<in> set (ended s)) (is_shutting_down s) ?w"
    using assms EvExpire by (simp add: wi_inv_def waiters_ok_def)
  then have w: "waiter_ok (wi_wait s) (live_conds s) (next_cond s) (runs s) (\<lambda>i. i \<in> set (ended s)) (is_shutting_down s) (?w\<lparr>w_state := Expired\<rparr>)"
    by (simp add: waiter_ok_def)
  have "waiters_ok s" using assms(1) by (simp add: wi_inv_def)
  from update_waiter_ok [OF this w, where k = k and n = "waiting_threads s"] show ?thesis using EvExpire assms by (simp add: wi_inv_def heap_ok_def)
next
  case EvSave
  have "waiters_ok (s\<lparr>is_shutting_down := True\<rparr>)"
  proof -
    have "waiter_ok (wi_wait s) (live_conds s) (next_cond s) (runs s) (\<lambda>i. i \<in> set (ended s)) True w" if "w \<in> set (waiters s)" for w
    proof -
      have "waiter_ok (wi_wait s) (live_conds s) (next_cond s) (runs s) (\<lambda>i. i \<in> set (ended s)) (is_shutting_down s) w"
        using that assms(1) by (simp add: wi_inv_def waiters_ok_def)
      then show ?thesis by (auto simp: waiter_ok_def split: wait_state.splits)
    qed
    then show ?thesis using assms(1) by (simp add: wi_inv_def waiters_ok_def runs_def [abs_def])
  qed
  then show ?thesis using EvSave assms(1) save_all_inv [of "s\<lparr>is_shutting_down := True\<rparr>"]
    by (simp add: RecordSavepoint_def wi_inv_def heap_ok_def)
qed (use assms in \<open>simp_all add: on_instance_inv wi_Cancel_def wi_KillTask_def wi_SendInstanceStatus_def wi_SendStatus_def
      send_status_inv Wait_enter_inv Wait_wake_inv\<close>)

lemma wi_reachable_inv: "wi_reachable s \<Longrightarrow> wi_inv s"
proof (induction rule: wi_reachable.induct)
  case (start interval s)
  then show ?case
    by (auto simp: WorkflowInstances_new_def wi_inv_def waiters_ok_def heap_ok_def waits_ok_def smap_inv_def split: if_splits)
next
  case (step s e r s')
  then show ?case using wi_run_inv [of s e] by simp
qed

section \<open>Who waits is woken\<close>


fun wi_runs :: "wi_event list \<Rightarrow> wi_list \<Rightarrow> wi_list option" where
  "wi_runs [] s = Some s"
| "wi_runs (e # es) s = (if wi_possible e s \<and> \<not> is_ub (fst (wi_run e s)) then wi_runs es (snd (wi_run e s)) else None)"

lemma wi_runs_reachable: "wi_reachable s \<Longrightarrow> wi_runs es s = Some t \<Longrightarrow> wi_reachable t"
proof (induction es arbitrary: s)
  case (Cons e es)
  then show ?case using wi_reachable.step [of s e "fst (wi_run e s)" "snd (wi_run e s)"] by (auto split: if_splits)
qed simp

definition wi_start :: "int \<Rightarrow> wi_list" where
  "wi_start interval = \<lparr>poll_interval = interval, is_shutting_down = False, wi = [], heap = [], wi_wait = [], live_conds = [],
     next_cond = 0, waiters = [], waiting_threads = 0, calls = [], ended = []\<rparr>"

lemma wi_start_reachable: "0 \<le> interval \<Longrightarrow> wi_reachable (wi_start interval)"
  by (rule wi_reachable.start [of interval]) (simp add: WorkflowInstances_new_def wi_start_def)

lemmas wi_eval = wi_start_def wi_Add_def wi_Remove_def release_waiters_def notify_def Wait_enter_def wait_condition_def instance_at_def
  next_abstime_def Wait_wake_def wait_return_def forget_value_def HasAccessToWorkflow_def IsAdmin_def anonymous_def smap_del_def Let_def


text \<open>
  With the detection of dead peers: the time of a thread is over, the instance ends before the thread has the lock
  again, and the thread goes to sleep on the condition that was freed.
\<close>

lemma freed_condition:
  "\<exists>s. wi_runs [EvAdd 7 100 \<lparr>i_id = 7, i_workflow = 1\<rparr>, EvWait anonymous 7 0 50, EvExpire 0 55, EvEnd 7] (wi_start 5) = Some s \<and>
     fst (wi_run (EvWake 0 55 True) s) = Inl (UB ''freed condition'')"
  by (simp add: wi_eval)

section \<open>Instances are alive\<close>

lemma on_instance_ok: "wi_inv s \<Longrightarrow> \<not> is_shutting_down s \<Longrightarrow> \<not> is_ub (fst (on_instance u uid right c s))"
  by (auto simp: on_instance_def instance_at_def insufficient_def split: option.splits dest: live_instance)

lemma send_status_ok:
  "(\<And>a. a \<in> set as \<Longrightarrow> smap_find (heap s) a \<noteq> None) \<Longrightarrow> \<not> is_ub (fst (send_status u limit n as s))"
proof (induction as arbitrary: n s)
  case (Cons a as)
  have "\<not> is_ub (fst (send_status u limit m as s))" "\<not> is_ub (fst (send_status u limit m as (record_call a c s)))" for m c
    using Cons by (simp_all add: record_call_def)
  moreover obtain i where "smap_find (heap s) a = Some i" using Cons.prems by force
  ultimately show ?case by (simp add: instance_at_def)
qed simp

lemma save_all_ok:
  "distinct (map snd ws) \<Longrightarrow> (\<And>a. a \<in> set (map snd ws) \<Longrightarrow> smap_find (heap s) a \<noteq> None) \<Longrightarrow> \<not> is_ub (fst (save_all ws s))"
proof (induction ws arbitrary: s)
  case (Cons p ws)
  obtain uid a where p: "p = (uid, a)" by fastforce
  obtain i where i: "smap_find (heap s) a = Some i" using Cons.prems p by force
  let ?t = "release_waiters (i_id i) (record_call a CallSave s)"
  have "heap ?t = heap s" by (simp add: release_waiters_def record_call_def split: option.splits)
  then have "\<not> is_ub (fst (save_all ws (?t\<lparr>heap := smap_del (heap ?t) a\<rparr>)))"
    using Cons p by (intro Cons.IH) (auto simp: smap_find_del)
  then show ?case using p i by (simp add: instance_at_def Let_def)
qed simp

text \<open>Without the detection of dead peers, no operation uses what is freed before the shutdown.\<close>

lemma wi_memory_safe:
  assumes "wi_reachable s" "\<not> is_shutting_down s" "poll_interval s = 0"
  shows "\<not> is_ub (fst (wi_run e s))"
proof -
  note inv = wi_reachable_inv [OF assms(1)]
  have live: "smap_find (heap s) a \<noteq> None" if "a \<in> set (map snd (wi s))" for a
  proof -
    from that obtain p where "p \<in> set (wi s)" "snd p = a" by auto
    then have "(fst p, a) \<in> set (wi s)" by auto
    moreover have "distinct (map fst (wi s))" using inv by (simp add: wi_inv_def heap_ok_def smap_inv_distinct)
    ultimately have "smap_find (wi s) (fst p) = Some a" by (simp add: smap_find_map_of)
    from live_instance [OF inv assms(2) this] show ?thesis by auto
  qed
  show ?thesis
  proof (cases e)
    case EvSave
    have "distinct (map snd (wi s))"
    proof -
      have "inj_on snd (set (wi s))"
      proof (rule inj_onI)
        fix p q assume "p \<in> set (wi s)" "q \<in> set (wi s)" "snd p = snd q"
        moreover have "distinct (map fst (wi s))" using inv by (simp add: wi_inv_def heap_ok_def smap_inv_distinct)
        ultimately have pq: "smap_find (wi s) (fst p) = Some (snd p)" "smap_find (wi s) (fst q) = Some (snd p)"
          by (simp_all add: smap_find_map_of) (metis prod.collapse)
        then have "fst p = fst q" using live_instance [OF inv assms(2) pq(1)] live_instance [OF inv assms(2) pq(2)] by auto
        with \<open>snd p = snd q\<close> show "p = q" by (simp add: prod_eq_iff)
      qed
      moreover have "distinct (wi s)" using inv smap_inv_distinct by (auto simp: wi_inv_def heap_ok_def distinct_map)
      ultimately show ?thesis by (simp add: distinct_map)
    qed
    then show ?thesis using EvSave live save_all_ok [of "wi s" "s\<lparr>is_shutting_down := True\<rparr>"] by (simp add: RecordSavepoint_def)
  next
    case (EvWait u uid timeout now)
    have "\<not> is_ub (fst (Wait_enter u uid timeout now s))" using inv assms(2)
      by (auto simp: Wait_enter_def instance_at_def insufficient_def Let_def split: option.splits prod.splits dest: live_instance)
    then show ?thesis using EvWait by simp
  next
    case (EvWake k now alive)
    then show ?thesis using assms(3) by (simp add: Wait_wake_def Let_def split: wait_state.splits)
  next
    case (EvStatus u limit)
    then show ?thesis using send_status_ok [of "map snd (wi s)" s] live by (simp add: wi_SendStatus_def)
  qed (use on_instance_ok [OF inv assms(2)] in \<open>auto simp: wi_Cancel_def wi_KillTask_def wi_SendInstanceStatus_def split: option.splits\<close>)
qed

end
