(* ===== verification/SqlQuery.thy ===== *)
theory SqlQuery
  imports StdMap
begin

text \<open>
  Queries to the database: \<open>QueryPrintf\<close>, \<open>get_query_value\<close> and the bulk insertions of src/DB/DB.cpp. A query
  is a text with holes (\<open>%s\<close>, \<open>%i\<close>, \<open>%l\<close>, \<open>%c\<close>) and a vector of pointers to their values. \<open>mysql_real_escape_string\<close>
  is the argument \<open>esc\<close>; the locale \<open>sql_escape\<close> states what its documentation promises: between single quotes its
  result is read by the server as the string it was given. How the server reads literals is the automaton
  \<open>sql_step\<close> (backslash escapes and doubled quotes, as in its manual; queries with comments are not considered).
\<close>

section \<open>How the server reads literals\<close>

datatype sql_tok = Code char | Literal string

datatype sql_mode = Out | In_literal char string | After_backslash char string | After_quote char string

definition is_quote :: "char \<Rightarrow> bool" where
  "is_quote c \<longleftrightarrow> c = CHR 0x27 \<or> c = CHR 0x22"

definition unescape :: "char \<Rightarrow> string" where
  "unescape c =
     (if c = CHR ''0'' then [CHR 0x00] else if c = CHR ''b'' then [CHR 0x08] else if c = CHR ''n'' then [CHR 0x0A]
      else if c = CHR ''r'' then [CHR 0x0D] else if c = CHR ''t'' then [CHR 0x09] else if c = CHR ''Z'' then [CHR 0x1A]
      else if c = CHR 0x25 \<or> c = CHR 0x5F then [c, CHR 0x5C] else [c])"

text \<open>The text of a literal is collected in reverse.\<close>

fun sql_step :: "sql_mode \<Rightarrow> char \<Rightarrow> sql_mode \<times> sql_tok list" where
  "sql_step Out c = (if is_quote c then (In_literal c [], []) else (Out, [Code c]))"
| "sql_step (In_literal q acc) c =
     (if c = q then (After_quote q acc, []) else if c = CHR 0x5C then (After_backslash q acc, []) else (In_literal q (c # acc), []))"
| "sql_step (After_backslash q acc) c = (In_literal q (unescape c @ acc), [])"
| "sql_step (After_quote q acc) c =
     (if c = q then (In_literal q (c # acc), [])
      else if is_quote c then (In_literal c [], [Literal (rev acc)]) else (Out, [Literal (rev acc), Code c]))"

fun sql_run :: "sql_mode \<Rightarrow> string \<Rightarrow> sql_mode \<times> sql_tok list" where
  "sql_run m [] = (m, [])"
| "sql_run m (c # s) = (let (m', ts) = sql_step m c; (m'', ts') = sql_run m' s in (m'', ts @ ts'))"

definition sql_read :: "string \<Rightarrow> sql_tok list option" where
  "sql_read s = (case sql_run Out s of
       (Out, ts) \<Rightarrow> Some ts
     | (After_quote q acc, ts) \<Rightarrow> Some (ts @ [Literal (rev acc)])
     | _ \<Rightarrow> None)"

lemma sql_run_append:
  "sql_run m (s @ t) = (fst (sql_run (fst (sql_run m s)) t), snd (sql_run m s) @ snd (sql_run (fst (sql_run m s)) t))"
  by (induction s arbitrary: m) (auto simp: Let_def split: prod.splits)

lemma sql_run_code: "list_all (\<lambda>c. \<not> is_quote c) s \<Longrightarrow> sql_run Out s = (Out, map Code s)"
  by (induction s) simp_all

text \<open>A text that begins with no quote is read after a literal as it is outside, once the literal is closed.\<close>

definition resting :: "sql_mode \<Rightarrow> bool" where
  "resting m = (case m of Out \<Rightarrow> True | After_quote q acc \<Rightarrow> q = CHR 0x27 | _ \<Rightarrow> False)"

fun closing_literal :: "sql_mode \<Rightarrow> sql_tok list" where
  "closing_literal (After_quote q acc) = [Literal (rev acc)]"
| "closing_literal m = []"

lemma sql_run_resting:
  assumes "resting m" "s = c # s'" "\<not> is_quote c"
  shows "sql_run m s = (fst (sql_run Out s), closing_literal m @ snd (sql_run Out s))"
  using assms by (cases m) (auto simp: resting_def is_quote_def Let_def split: prod.splits)

section \<open>Values\<close>

text \<open>What the pointers of the vector point to.\<close>

datatype sql_arg = SNull | SStr string | SInt "32 word" | SLong "64 word"

fun get_query_value :: "(string \<Rightarrow> string) \<Rightarrow> char \<Rightarrow> nat \<Rightarrow> sql_arg list \<Rightarrow> string res" where
  "get_query_value esc type idx args =
     (if length args \<le> idx then Inl (UB ''vector index'')
      else case args ! idx of
          SNull \<Rightarrow> Inr ''NULL''
        | SStr s \<Rightarrow> if type = CHR ''c'' then Inr (CHR 0x60 # s @ [CHR 0x60])
                  else if type = CHR ''s'' then Inr (CHR 0x27 # esc s @ [CHR 0x27])
                  else Inl (UB ''pointer cast'')
        | SInt i \<Rightarrow> if type = CHR ''i'' then Inr (to_string (sint i)) else Inl (UB ''pointer cast'')
        | SLong l \<Rightarrow> if type = CHR ''l'' then Inr (to_string (sint l)) else Inl (UB ''pointer cast''))"

declare get_query_value.simps [simp del]

definition is_hole :: "char \<Rightarrow> bool" where
  "is_hole d \<longleftrightarrow> d = CHR ''c'' \<or> d = CHR ''s'' \<or> d = CHR ''i'' \<or> d = CHR ''l''"

text \<open>The loop over the matches of \<open>%(c|s|i|l)\<close>.\<close>

fun expand :: "(string \<Rightarrow> string) \<Rightarrow> sql_arg list \<Rightarrow> nat \<Rightarrow> string \<Rightarrow> string res" where
  "expand esc args i [] = Inr []"
| "expand esc args i [c] = Inr [c]"
| "expand esc args i (c # d # s) =
     (if c = CHR 0x25 \<and> is_hole d
      then bindr (get_query_value esc d i args) (\<lambda>v. bindr (expand esc args (Suc i) s) (\<lambda>r. Inr (v @ r)))
      else bindr (expand esc args i (d # s)) (\<lambda>r. Inr (c # r)))"

text \<open>The query as text: what \<open>QueryPrintf\<close> gives to \<open>Query\<close>.\<close>

definition QueryPrintf_text :: "(string \<Rightarrow> string) \<Rightarrow> string \<Rightarrow> sql_arg list \<Rightarrow> string res" where
  "QueryPrintf_text esc query args = expand esc args 0 query"

section \<open>What a template means\<close>

text \<open>
  \<open>intended m q args\<close> reads the template itself: a string is one literal with exactly that text, a number its digits.
  It is undefined (\<open>None\<close>) where a hole stands inside a literal or directly after one, where the values do not fit the
  holes, and for identifiers (\<open>%c\<close>), which are not escaped.
\<close>

fun value_mode :: "char \<Rightarrow> sql_arg \<Rightarrow> (sql_mode \<times> sql_tok list) option" where
  "value_mode d SNull = Some (Out, map Code ''NULL'')"
| "value_mode d (SStr s) = (if d = CHR ''s'' then Some (After_quote (CHR 0x27) (rev s), []) else None)"
| "value_mode d (SInt i) = (if d = CHR ''i'' then Some (Out, map Code (to_string (sint i))) else None)"
| "value_mode d (SLong l) = (if d = CHR ''l'' then Some (Out, map Code (to_string (sint l))) else None)"

fun intended :: "sql_mode \<Rightarrow> string \<Rightarrow> sql_arg list \<Rightarrow> (sql_mode \<times> sql_tok list) option" where
  "intended m [] args = (if args = [] then Some (m, []) else None)"
| "intended m [c] args = (if args = [] then Some (sql_step m c) else None)"
| "intended m (c # d # s) args =
     (if c = CHR 0x25 \<and> is_hole d
      then (case (m, args) of
          (Out, a # args') \<Rightarrow> (case value_mode d a of
              None \<Rightarrow> None
            | Some (m', ts) \<Rightarrow> (case intended m' s args' of None \<Rightarrow> None | Some (m'', ts') \<Rightarrow> Some (m'', ts @ ts')))
        | _ \<Rightarrow> None)
      else (case intended (fst (sql_step m c)) (d # s) args of
          None \<Rightarrow> None | Some (m'', ts') \<Rightarrow> Some (m'', snd (sql_step m c) @ ts')))"

locale sql_escape =
  fixes esc :: "string \<Rightarrow> string"
  assumes esc_read: "sql_run (In_literal (CHR 0x27) acc) (esc s) = (In_literal (CHR 0x27) (rev s @ acc), [])"
begin

lemma quoted_run: "sql_run Out (CHR 0x27 # esc s @ [CHR 0x27]) = (After_quote (CHR 0x27) (rev s), [])"
  by (simp add: sql_run_append esc_read is_quote_def Let_def)

end

lemma to_string_code: "list_all (\<lambda>c. \<not> is_quote c) (to_string i)"
proof -
  have "\<not> is_quote c" if "isdigit c" for c
    using that by (auto simp: is_quote_def isdigit_def byte_def)
  then have "list_all (\<lambda>c. \<not> is_quote c) (show_nat n)" for n
    using show_nat_digits [of n] by (auto simp: list_all_iff)
  then show ?thesis by (simp add: to_string_def is_quote_def)
qed

context sql_escape begin

lemma value_run:
  assumes "i < length args" "value_mode d (args ! i) = Some (m, ts)" "is_hole d"
  shows "\<exists>v. get_query_value esc d i args = Inr v \<and> sql_run Out v = (m, ts)"
proof (cases "args ! i")
  case SNull
  then show ?thesis using assms by (auto simp: get_query_value.simps is_quote_def)
next
  case (SStr s)
  then show ?thesis using assms quoted_run [of s] by (auto simp: get_query_value.simps split: if_splits)
next
  case (SInt n)
  then show ?thesis using assms sql_run_code [OF to_string_code] by (auto simp: get_query_value.simps split: if_splits)
next
  case (SLong n)
  then show ?thesis using assms sql_run_code [OF to_string_code] by (auto simp: get_query_value.simps split: if_splits)
qed

lemma expand_intended:
  "intended m q (drop i args) = Some (m', ts) \<Longrightarrow> i \<le> length args \<Longrightarrow>
   \<exists>s. expand esc args i q = Inr s \<and> sql_run m s = (m', ts)"
proof (induction m q "drop i args" arbitrary: i m' ts rule: intended.induct)
  case (3 m c d s)
  show ?case
  proof (cases "c = CHR 0x25 \<and> is_hole d")
    case True
    then obtain a args' where m: "m = Out" and a: "drop i args = a # args'"
      using "3.prems" by (auto split: sql_mode.splits list.splits)
    then have i: "i < length args" by (metis drop_all linorder_not_less list.distinct(1))
    then have i': "args ! i = a" "args' = drop (Suc i) args" using a by (simp_all add: Cons_nth_drop_Suc [symmetric])
    obtain m1 t1 t2 where v: "value_mode d a = Some (m1, t1)" and r: "intended m1 s args' = Some (m', t2)" and ts: "ts = t1 @ t2"
      using "3.prems"(1) True m a by (auto split: option.splits)
    obtain x where x: "get_query_value esc d i args = Inr x" "sql_run Out x = (m1, t1)"
      using value_run [OF i] v i' True by blast
    obtain y where "expand esc args (Suc i) s = Inr y" "sql_run m1 y = (m', t2)"
      using "3.hyps"(1) [OF True refl m _ v refl, of "Suc i" m' t2] a r i i'(2) by auto
    then show ?thesis using x m ts True by (simp add: res_simps sql_run_append)
  next
    case False
    then obtain t2 where r: "intended (fst (sql_step m c)) (d # s) (drop i args) = Some (m', t2)" and ts: "ts = snd (sql_step m c) @ t2"
      using "3.prems"(1) by (auto split: option.splits)
    obtain y where "expand esc args i (d # s) = Inr y" "sql_run (fst (sql_step m c)) y = (m', t2)"
      using "3.hyps"(2) [OF False _ r "3.prems"(2)] by auto
    then show ?thesis using False ts by (auto simp: res_simps Let_def split: prod.splits)
  qed
qed (auto simp: Let_def split: if_splits prod.splits)

text \<open>The literals the server reads are the strings of the arguments, and nothing of them is read as code.\<close>

lemma printf_reads:
  assumes "intended Out query args = Some (m, ts)" "m = Out \<or> (\<exists>s. m = After_quote (CHR 0x27) s)"
  shows "\<exists>s. QueryPrintf_text esc query args = Inr s \<and> sql_read s = Some (ts @ closing_literal m)"
proof -
  obtain s where "expand esc args 0 query = Inr s" "sql_run Out s = (m, ts)"
    using expand_intended [of Out query 0 args m ts] assms(1) by auto
  then show ?thesis using assms(2) by (auto simp: QueryPrintf_text_def sql_read_def)
qed

end

section \<open>Templates in parts\<close>

lemma intended_append:
  assumes "intended m q1 a1 = Some (m1, t1)" "q1 = [] \<or> last q1 \<noteq> CHR 0x25"
  shows "intended m (q1 @ q2) (a1 @ a2) = (case intended m1 q2 a2 of None \<Rightarrow> None | Some (m2, t2) \<Rightarrow> Some (m2, t1 @ t2))"
  using assms
proof (induction m q1 a1 arbitrary: m1 t1 rule: intended.induct)
  case (2 m c args)
  then show ?case by (cases q2) (auto split: option.splits if_splits prod.splits)
next
  case (3 m c d s args)
  show ?case
  proof (cases "c = CHR 0x25 \<and> is_hole d")
    case True
    then obtain a args' m' ts' m'' ts'' where m: "m = Out" "args = a # args'" and v: "value_mode d a = Some (m', ts')"
      and r: "intended m' s args' = Some (m'', ts'')" and e: "m1 = m''" "t1 = ts' @ ts''"
      using "3.prems"(1) by (auto split: sql_mode.splits list.splits option.splits)
    have "s = [] \<or> last s \<noteq> CHR 0x25" using "3.prems"(2) by auto
    then show ?thesis using "3.IH"(1) [OF True refl m v refl r] True m v e by (auto split: option.splits)
  next
    case False
    obtain t2 where r: "intended (fst (sql_step m c)) (d # s) args = Some (m1, t2)" and ts: "t1 = snd (sql_step m c) @ t2"
      using "3.prems"(1) False by (auto split: option.splits)
    then show ?thesis using "3.IH"(2) [OF False r] "3.prems"(2) False by (auto split: option.splits)
  qed
qed (auto split: option.splits if_splits)

text \<open>A part that begins outside of literals, by a character that is no quote, means the same after a literal.\<close>

lemma intended_resting:
  assumes "intended Out q args = Some (m', ts)" "resting m" "q = c # q'" "\<not> is_quote c" "c \<noteq> CHR 0x25"
  shows "intended m q args = Some (m', closing_literal m @ ts)"
  using assms by (cases q'; cases m) (auto simp: resting_def is_quote_def split: option.splits if_splits)

section \<open>The documented escaping\<close>

text \<open>What the manual says of \<open>mysql_real_escape_string\<close>: the characters it encodes, each after a backslash.\<close>

definition escape_char :: "char \<Rightarrow> string" where
  "escape_char c =
     (if c = CHR 0x00 then [CHR 0x5C, CHR ''0''] else if c = CHR 0x0A then [CHR 0x5C, CHR ''n'']
      else if c = CHR 0x0D then [CHR 0x5C, CHR ''r''] else if c = CHR 0x1A then [CHR 0x5C, CHR ''Z'']
      else if is_quote c \<or> c = CHR 0x5C then [CHR 0x5C, c] else [c])"

definition documented_escape :: "string \<Rightarrow> string" where
  "documented_escape s = concat (map escape_char s)"

lemma escape_char_run: "sql_run (In_literal (CHR 0x27) acc) (escape_char c) = (In_literal (CHR 0x27) (c # acc), [])"
  by (auto simp: escape_char_def is_quote_def unescape_def Let_def)

interpretation documented: sql_escape documented_escape
proof unfold_locales
  show "sql_run (In_literal (CHR 0x27) acc) (documented_escape s) = (In_literal (CHR 0x27) (rev s @ acc), [])" for acc s
    by (induction s arbitrary: acc) (simp_all add: documented_escape_def sql_run_append escape_char_run)
qed

end
