(* ===== verification/SqlClient.thy ===== *)
theory SqlClient
  imports SqlQuery
begin

text \<open>
  The database client: src/DB/DB.cpp. A connection keeps whether it is connected and in a transaction, the result of
  the last query and the rows collected for bulk insertions. The server is an argument: what it answers to each
  request, by the number of the request. \<open>sent\<close> records what it received, with the number of the session, so that it
  can be stated what reaches it. Copies of a connection share the handle of the library and are not modelled.
\<close>

section \<open>State\<close>

datatype reply = Failed string int | NoResult | Rows "string option list list" | StoreFailed string int

record server =
  connect_reply :: "nat \<Rightarrow> (string \<times> int) option"
  query_reply :: "nat \<Rightarrow> string \<Rightarrow> reply"
  ping_reply :: "nat \<Rightarrow> (string \<times> int) option"

text \<open>The member \<open>row\<close>: not set by the constructor, null, into the current result, or into one that was freed.\<close>

datatype row_pointer = Unset | NullRow | RowAt "string option list" | FreedRow

datatype bulk_value = VNull | VInt "32 word" | VLong "64 word" | VString string

record bulk_query =
  bq_table :: string
  bq_columns :: string
  ncolumns :: nat
  bq_values :: "bulk_value list"

record conn =
  is_connected :: bool
  transaction_started :: bool
  auto_rollback :: bool
  result :: "string option list list option"
  row :: row_pointer
  bulk_queries :: "(int, bulk_query) smap"
  clock :: nat
  session :: nat
  sent :: "(nat \<times> string) list"

definition DB_new :: conn where
  "DB_new = \<lparr>is_connected = False, transaction_started = False, auto_rollback = True, result = None, row = Unset,
     bulk_queries = [], clock = 0, session = 0, sent = []\<rparr>"

section \<open>Connection and queries\<close>

definition DB_error :: "string \<Rightarrow> fault" where
  "DB_error e = Exn ''DB'' e ''SQL_ERROR''"

definition connect :: "server \<Rightarrow> conn \<Rightarrow> (string \<times> int) option \<times> conn" where
  "connect srv c =
     (if is_connected c then (None, c)
      else case connect_reply srv (clock c) of
          Some e \<Rightarrow> (Some e, c\<lparr>clock := Suc (clock c)\<rparr>)
        | None \<Rightarrow> (None, c\<lparr>is_connected := True, clock := Suc (clock c), session := Suc (session c)\<rparr>))"

text \<open>\<open>query.c_str()\<close>: what the library is given ends at the first NUL.\<close>

definition c_str :: "string \<Rightarrow> string" where
  "c_str s = takeWhile (\<lambda>c. c \<noteq> CHR 0x00) s"

definition free_result :: "conn \<Rightarrow> conn" where
  "free_result c = (case result c of None \<Rightarrow> c
     | Some rs \<Rightarrow> c\<lparr>result := None, row := (case row c of RowAt r \<Rightarrow> FreedRow | p \<Rightarrow> p)\<rparr>)"

definition send_query :: "string \<Rightarrow> conn \<Rightarrow> conn" where
  "send_query q c = (free_result c)\<lparr>clock := Suc (clock c), sent := sent c @ [(session c, c_str q)]\<rparr>"

definition store_result :: "reply \<Rightarrow> conn \<Rightarrow> unit res \<times> conn" where
  "store_result r c = (case r of
       Rows rs \<Rightarrow> (Inr (), c\<lparr>result := Some rs\<rparr>)
     | StoreFailed e k \<Rightarrow> (Inl (DB_error e), c)
     | _ \<Rightarrow> (Inr (), c))"

text \<open>
  \<open>Query\<close> from round \<open>i\<close> of its loop on. A query that fails in a transaction is followed by \<open>RollbackTransaction\<close>, which
  calls \<open>Query\<close> again; the first argument bounds the depth of these calls and the rounds.
\<close>

fun query_round :: "nat \<Rightarrow> nat \<Rightarrow> server \<Rightarrow> string \<Rightarrow> conn \<Rightarrow> unit res \<times> conn" where
  "query_round 0 i srv q c = (Inl NoFuel, c)"
| "query_round (Suc d) i srv q c =
     (if i \<ge> 2 then (Inl (Exn ''DB'' ''Reconnected to database, but still getting gone away error'' []), c)
      else case connect srv c of
          (Some (e, k), c1) \<Rightarrow> (Inl (DB_error e), c1)
        | (None, c1) \<Rightarrow> (case query_reply srv (clock c1) (c_str q) of
              Failed e k \<Rightarrow>
                (let c2 = send_query q c1
                 in if \<not> transaction_started c2 \<and> k = 2006 then query_round d (Suc i) srv q (c2\<lparr>is_connected := False\<rparr>)
                    else if auto_rollback c2 \<and> transaction_started c2
                    then (case query_round d 0 srv ''ROLLBACK'' c2 of
                        (Inl f, c3) \<Rightarrow> (Inl f, c3)
                      | (Inr u, c3) \<Rightarrow> (Inl (DB_error e), c3\<lparr>transaction_started := False\<rparr>))
                    else (Inl (DB_error e), c2))
            | r \<Rightarrow> store_result r (send_query q c1)))"

declare query_round.simps(2) [simp del]

definition Query :: "nat \<Rightarrow> server \<Rightarrow> string \<Rightarrow> conn \<Rightarrow> unit res \<times> conn" where
  "Query d srv q c = query_round d 0 srv q c"

definition then_set :: "(conn \<Rightarrow> conn) \<Rightarrow> unit res \<times> conn \<Rightarrow> unit res \<times> conn" where
  "then_set f rc = (case rc of (Inl e, c) \<Rightarrow> (Inl e, c) | (Inr u, c) \<Rightarrow> (Inr u, f c))"

definition StartTransaction :: "nat \<Rightarrow> server \<Rightarrow> conn \<Rightarrow> unit res \<times> conn" where
  "StartTransaction d srv c = then_set (\<lambda>c. c\<lparr>transaction_started := True\<rparr>) (Query d srv ''START TRANSACTION'' c)"

definition CommitTransaction :: "nat \<Rightarrow> server \<Rightarrow> conn \<Rightarrow> unit res \<times> conn" where
  "CommitTransaction d srv c = then_set (\<lambda>c. c\<lparr>transaction_started := False\<rparr>) (Query d srv ''COMMIT'' c)"

definition RollbackTransaction :: "nat \<Rightarrow> server \<Rightarrow> conn \<Rightarrow> unit res \<times> conn" where
  "RollbackTransaction d srv c = then_set (\<lambda>c. c\<lparr>transaction_started := False\<rparr>) (Query d srv ''ROLLBACK'' c)"

definition SetAutoRollback :: "bool \<Rightarrow> conn \<Rightarrow> conn" where
  "SetAutoRollback v c = c\<lparr>auto_rollback := v\<rparr>"

definition QueryPrintf :: "(string \<Rightarrow> string) \<Rightarrow> nat \<Rightarrow> server \<Rightarrow> string \<Rightarrow> sql_arg list \<Rightarrow> conn \<Rightarrow> unit res \<times> conn" where
  "QueryPrintf esc d srv q args c = (case QueryPrintf_text esc q args of Inl f \<Rightarrow> (Inl f, c) | Inr s \<Rightarrow> Query d srv s c)"

definition Ping :: "server \<Rightarrow> conn \<Rightarrow> (string \<times> int) option \<times> conn" where
  "Ping srv c = (case connect srv c of
       (Some e, c1) \<Rightarrow> (Some e, c1)
     | (None, c1) \<Rightarrow> (ping_reply srv (clock c1), c1\<lparr>clock := Suc (clock c1)\<rparr>))"

text \<open>\<open>Wait\<close>: at most \<open>d\<close> tries are followed.\<close>

fun Wait :: "nat \<Rightarrow> server \<Rightarrow> conn \<Rightarrow> unit res \<times> conn" where
  "Wait 0 srv c = (Inl NoFuel, c)"
| "Wait (Suc d) srv c = (case Ping srv c of
       (None, c1) \<Rightarrow> (Inr (), c1)
     | (Some (e, k), c1) \<Rightarrow> if k = 2002 \<or> k = 2013 then Wait d srv c1 else (Inl (DB_error e), c1))"

definition Disconnect :: "conn \<Rightarrow> conn" where
  "Disconnect c = (if is_connected c then c\<lparr>is_connected := False\<rparr> else c)"

section \<open>Results\<close>

text \<open>The rows that are left; \<open>mysql_fetch_row\<close> takes the first. \<open>Seek\<close> is called by nothing and left out.\<close>

definition FetchRow :: "conn \<Rightarrow> bool \<times> conn" where
  "FetchRow c = (case result c of
       None \<Rightarrow> (False, c)
     | Some [] \<Rightarrow> (False, c\<lparr>row := NullRow\<rparr>)
     | Some (r # rs) \<Rightarrow> (True, c\<lparr>result := Some rs, row := RowAt r\<rparr>))"

definition cell :: "nat \<Rightarrow> conn \<Rightarrow> string option res" where
  "cell n c = (case result c of None \<Rightarrow> Inr None
     | Some rs \<Rightarrow> (case row c of
           NullRow \<Rightarrow> Inr None
         | RowAt r \<Rightarrow> if n < length r then Inr (r ! n) else Inl (UB ''row index'')
         | Unset \<Rightarrow> Inl (UB ''uninitialised row'')
         | FreedRow \<Rightarrow> Inl (UB ''freed row'')))"

definition GetFieldIsNULL :: "nat \<Rightarrow> conn \<Rightarrow> bool res" where
  "GetFieldIsNULL n c = bindr (cell n c) (\<lambda>v. Inr (v = None))"

definition GetField :: "nat \<Rightarrow> conn \<Rightarrow> string res" where
  "GetField n c = bindr (cell n c) (\<lambda>v. Inr (case v of None \<Rightarrow> [] | Some s \<Rightarrow> s))"

definition GetFieldInt :: "nat \<Rightarrow> conn \<Rightarrow> int res" where
  "GetFieldInt n c = bindr (GetField n c) (\<lambda>v.
     if v = [] then Inr 0
     else catch_all (bindr (stoi v) (\<lambda>p. Inr (fst p))) (Inl (DB_error (v @ '' is not an integer value''))))"

definition stoll :: "string \<Rightarrow> int res" where
  "stoll s = (case strtol10 s of
       None \<Rightarrow> Inl (StdExn ''invalid_argument'')
     | Some (v, p) \<Rightarrow> if - (2 ^ 63) \<le> v \<and> v < 2 ^ 63 then Inr v else Inl (StdExn ''out_of_range''))"

definition GetFieldLong :: "nat \<Rightarrow> conn \<Rightarrow> int res" where
  "GetFieldLong n c = bindr (GetField n c) (\<lambda>v.
     if v = [] then Inr 0 else catch_all (stoll v) (Inl (DB_error (v @ '' is not an integer value''))))"

section \<open>Bulk insertions\<close>

definition BulkStart :: "int \<Rightarrow> string \<Rightarrow> string \<Rightarrow> nat \<Rightarrow> (int, bulk_query) smap \<Rightarrow> (int, bulk_query) smap" where
  "BulkStart i table columns n bs = smap_put bs i \<lparr>bq_table = table, bq_columns = columns, ncolumns = n, bq_values = []\<rparr>"

definition bulk_at :: "int \<Rightarrow> (int, bulk_query) smap \<Rightarrow> bulk_query" where
  "bulk_at i bs = (case smap_find bs i of Some b \<Rightarrow> b | None \<Rightarrow> \<lparr>bq_table = [], bq_columns = [], ncolumns = 0, bq_values = []\<rparr>)"

definition BulkData :: "int \<Rightarrow> bulk_value \<Rightarrow> (int, bulk_query) smap \<Rightarrow> (int, bulk_query) smap" where
  "BulkData i v bs = (let b = bulk_at i bs in smap_put bs i (b\<lparr>bq_values := bq_values b @ [v]\<rparr>))"

fun value_text :: "(string \<Rightarrow> string) \<Rightarrow> bulk_value \<Rightarrow> string" where
  "value_text esc VNull = ''NULL''"
| "value_text esc (VInt i) = to_string (sint i)"
| "value_text esc (VLong l) = to_string (sint l)"
| "value_text esc (VString s) = CHR 0x27 # esc s @ [CHR 0x27]"

fun list_text :: "string list \<Rightarrow> string" where
  "list_text [] = []"
| "list_text [s] = s"
| "list_text (s # t # ss) = s @ '','' @ list_text (t # ss)"

definition row_text :: "(string \<Rightarrow> string) \<Rightarrow> bulk_value list \<Rightarrow> string" where
  "row_text esc vs = ''('' @ list_text (map (value_text esc) vs) @ '')''"

text \<open>The rows: \<open>n\<close> times the next \<open>k\<close> values.\<close>

fun bulk_rows :: "nat \<Rightarrow> nat \<Rightarrow> bulk_value list \<Rightarrow> bulk_value list list" where
  "bulk_rows 0 k vs = []"
| "bulk_rows (Suc n) k vs = take k vs # bulk_rows n k (drop k vs)"

definition bulk_text :: "(string \<Rightarrow> string) \<Rightarrow> bulk_query \<Rightarrow> string" where
  "bulk_text esc b = ''INSERT INTO '' @ bq_table b @ ''('' @ bq_columns b @ '') VALUES'' @
     list_text (map (row_text esc) (bulk_rows (length (bq_values b) div ncolumns b) (ncolumns b) (bq_values b)))"

definition BulkExec :: "(string \<Rightarrow> string) \<Rightarrow> nat \<Rightarrow> server \<Rightarrow> int \<Rightarrow> conn \<Rightarrow> unit res \<times> conn" where
  "BulkExec esc d srv i c =
     (let b = bulk_at i (bulk_queries c); c' = c\<lparr>bulk_queries := smap_del (bulk_queries c) i\<rparr>
      in if ncolumns b = 0 then (Inl (UB ''division by zero''), c)
         else if length (bq_values b) div ncolumns b = 0 then (Inr (), c')
         else Query d srv (c_str (bulk_text esc b)) c')"

section \<open>What reaches the server\<close>

text \<open>A connection in a transaction is connected.\<close>

definition conn_ok :: "conn \<Rightarrow> bool" where
  "conn_ok c \<longleftrightarrow> (transaction_started c \<longrightarrow> is_connected c)"

lemma conn_ok_new: "conn_ok DB_new"
  by (simp add: conn_ok_def DB_new_def)

lemma send_query_simps [simp]:
  "is_connected (send_query q c) = is_connected c" "transaction_started (send_query q c) = transaction_started c"
  "auto_rollback (send_query q c) = auto_rollback c" "session (send_query q c) = session c"
  "sent (send_query q c) = sent c @ [(session c, c_str q)]" "clock (send_query q c) = Suc (clock c)"
  "bulk_queries (send_query q c) = bulk_queries c"
  by (simp_all add: send_query_def free_result_def split: option.splits)

lemma store_result_simps [simp]:
  "is_connected (snd (store_result r c)) = is_connected c" "transaction_started (snd (store_result r c)) = transaction_started c"
  "auto_rollback (snd (store_result r c)) = auto_rollback c" "session (snd (store_result r c)) = session c"
  "sent (snd (store_result r c)) = sent c"
  by (simp_all add: store_result_def split: reply.splits)

lemma connect_in_transaction: "conn_ok c \<Longrightarrow> transaction_started c \<Longrightarrow> connect srv c = (None, c)"
  by (simp add: conn_ok_def connect_def)

lemma query_in_transaction:
  assumes "query_round d i srv q c = (r, c')" "is_connected c" "transaction_started c"
  shows "is_connected c' \<and> session c' = session c \<and>
    (\<exists>qs. sent c' = sent c @ qs \<and> (\<forall>x \<in> set qs. fst x = session c) \<and>
      (qs = [] \<or> (\<exists>n. map snd qs = c_str q # replicate n ''ROLLBACK'')))"
  using assms
proof (induction d i srv q c arbitrary: r c' rule: query_round.induct)
  case (2 d i srv q c)
  have con: "connect srv c = (None, c)" using "2.prems" by (simp add: connect_def)
  show ?case
  proof (cases "i \<ge> 2")
    case False
    show ?thesis
    proof (cases "\<exists>e k. query_reply srv (clock c) (c_str q) = Failed e k \<and> auto_rollback c")
      case True
      then obtain e k where f: "query_reply srv (clock c) (c_str q) = Failed e k" "auto_rollback c" by blast
      obtain r3 c3 where q3: "query_round d 0 srv ''ROLLBACK'' (send_query q c) = (r3, c3)" by fastforce
      have "(r, c') = (case (r3, c3) of (Inl f, c3) \<Rightarrow> (Inl f, c3) | (Inr u, c3) \<Rightarrow> (Inl (DB_error e), c3\<lparr>transaction_started := False\<rparr>))"
        using "2.prems" False by (simp add: query_round.simps(2) con f q3 Let_def)
      then have c': "is_connected c' = is_connected c3 \<and> session c' = session c3 \<and> sent c' = sent c3"
        by (cases r3) simp_all
      have "\<not> (\<not> transaction_started (send_query q c) \<and> k = 2006)" "auto_rollback (send_query q c) \<and> transaction_started (send_query q c)"
        using "2.prems" f by simp_all
      from "2.IH"(2) [OF False con [symmetric] refl f(1) refl this q3] "2.prems"
      have "is_connected c3 \<and> session c3 = session c \<and> (\<exists>qs. sent c3 = (sent c @ [(session c, c_str q)]) @ qs \<and>
          (\<forall>x\<in>set qs. fst x = session c) \<and> (qs = [] \<or> (\<exists>n. map snd qs = c_str ''ROLLBACK'' # replicate n ''ROLLBACK'')))"
        by simp
      then obtain qs where qs: "is_connected c3" "session c3 = session c" "sent c3 = sent c @ (session c, c_str q) # qs"
        "\<forall>x\<in>set qs. fst x = session c" "qs = [] \<or> (\<exists>n. map snd qs = replicate (Suc n) ''ROLLBACK'')"
        by (auto simp: c_str_def)
      from qs(5) have "\<exists>n. map snd qs = replicate n ''ROLLBACK''"
      proof
        assume "qs = []"
        then show ?thesis by (intro exI [of _ 0]) simp
      qed blast
      then obtain n where n: "map snd ((session c, c_str q) # qs) = c_str q # replicate n ''ROLLBACK''" by auto
      show ?thesis
        by (intro conjI exI [of _ "(session c, c_str q) # qs"] disjI2 exI [of _ n], use qs c' n in simp_all)
    next
      case no: False
      then have "is_connected c' \<and> session c' = session c \<and> sent c' = sent c @ [(session c, c_str q)]"
        using "2.prems" False by (cases "query_reply srv (clock c) (c_str q)") (auto simp: query_round.simps(2) con Let_def store_result_def)
      then show ?thesis by (intro conjI exI [of _ "[(session c, c_str q)]"] disjI2 exI [of _ 0]) simp_all
    qed
  qed (use "2.prems" in \<open>simp add: query_round.simps(2)\<close>)
qed simp

lemma connect_cases:
  "connect srv c = (None, c1) \<Longrightarrow> is_connected c1 \<and> transaction_started c1 = transaction_started c \<and> auto_rollback c1 = auto_rollback c \<and>
     sent c1 = sent c \<and> (if is_connected c then session c1 = session c else session c1 = Suc (session c))"
  "connect srv c = (Some e, c1) \<Longrightarrow> transaction_started c1 = transaction_started c \<and> sent c1 = sent c"
  by (auto simp: connect_def split: if_splits option.splits)

lemma query_outside:
  assumes "query_round d i srv q c = (r, c')" "\<not> transaction_started c"
  shows "\<not> transaction_started c' \<and> (\<exists>ss. sent c' = sent c @ map (\<lambda>k. (k, c_str q)) ss \<and> length ss \<le> 2 - i \<and> sorted_wrt (<) ss \<and>
    (\<forall>k \<in> set ss. if is_connected c then session c \<le> k else session c < k))"
  using assms
proof (induction d arbitrary: i c r c')
  case (Suc d)
  show ?case
  proof (cases "i \<ge> 2")
    case False
    obtain e c1 where con: "connect srv c = (e, c1)" by fastforce
    show ?thesis
    proof (cases e)
      case None
      note c1 = connect_cases(1) [OF con [unfolded None]]
      show ?thesis
      proof (cases "\<exists>x. query_reply srv (clock c1) (c_str q) = Failed x 2006")
        case True
        then obtain x where "query_reply srv (clock c1) (c_str q) = Failed x 2006" by blast
        with Suc.prems False have "query_round d (Suc i) srv q ((send_query q c1)\<lparr>is_connected := False\<rparr>) = (r, c')"
          by (simp add: query_round.simps(2) con None c1 Let_def)
        from Suc.IH [OF this] Suc.prems(2) c1 obtain ss where ss: "\<not> transaction_started c'"
            "sent c' = (sent c1 @ [(session c1, c_str q)]) @ map (\<lambda>k. (k, c_str q)) ss"
            "length ss \<le> 2 - Suc i" "sorted_wrt (<) ss" "\<forall>k \<in> set ss. session c1 < k" by auto
        then show ?thesis using c1 False by (intro conjI exI [of _ "session c1 # ss"]) (auto split: if_splits)
      next
        case no: False
        then have "\<not> transaction_started c' \<and> sent c' = sent c1 @ [(session c1, c_str q)]" using Suc.prems False
          by (cases "query_reply srv (clock c1) (c_str q)") (auto simp: query_round.simps(2) con None c1 Let_def store_result_def)
        then show ?thesis using c1 False by (intro conjI exI [of _ "[session c1]"]) (auto split: if_splits)
      qed
    next
      case (Some x)
      then have "c' = c1" using Suc.prems con False by (cases x) (simp add: query_round.simps(2))
      then show ?thesis using connect_cases(2) [OF con [unfolded Some]] Suc.prems by (intro conjI exI [of _ "[]"]) auto
    qed
  qed (use Suc.prems in \<open>simp add: query_round.simps(2)\<close>)
qed simp

text \<open>C33: A query of a transaction is sent at most once, on the session the transaction was started on, and nothing but
  rollbacks follows it; outside of transactions it is sent at most twice, the second time on a new session.\<close>
theorem queries_reach_their_session:
  assumes "Query d srv q c = (r, c')" "conn_ok c"
  shows "conn_ok c' \<and>
    (if transaction_started c
     then session c' = session c \<and> (\<exists>qs. sent c' = sent c @ map (Pair (session c)) qs \<and> (qs = [] \<or> (\<exists>n. qs = c_str q # replicate n ''ROLLBACK'')))
     else \<not> transaction_started c' \<and>
       (\<exists>ss. sent c' = sent c @ map (\<lambda>k. (k, c_str q)) ss \<and> length ss \<le> 2 \<and> sorted_wrt (<) ss))"
proof (cases "transaction_started c")
  case True
  then have con: "is_connected c" using assms(2) by (simp add: conn_ok_def)
  from query_in_transaction [OF assms(1) [unfolded Query_def] con True] obtain qs where qs: "is_connected c'" "session c' = session c"
      "sent c' = sent c @ qs" "\<forall>x\<in>set qs. fst x = session c" "qs = [] \<or> (\<exists>n. map snd qs = c_str q # replicate n ''ROLLBACK'')"
    by (elim conjE exE) (rule that)
  have "map (Pair (session c)) (map snd qs) = qs" using qs(4) by (induction qs) auto
  then have "sent c' = sent c @ map (Pair (session c)) (map snd qs)" using qs(3) by simp
  moreover have "map snd qs = [] \<or> (\<exists>n. map snd qs = c_str q # replicate n ''ROLLBACK'')" using qs(5) by auto
  ultimately have "session c' = session c \<and> (\<exists>qs. sent c' = sent c @ map (Pair (session c)) qs \<and>
      (qs = [] \<or> (\<exists>n. qs = c_str q # replicate n ''ROLLBACK'')))"
    by (intro conjI qs(2) exI [of _ "map snd qs"])
  moreover have "conn_ok c'" using qs(1) by (simp add: conn_ok_def)
  ultimately show ?thesis using True by (simp only: if_True simp_thms)
next
  case False
  then show ?thesis using query_outside [OF assms(1) [unfolded Query_def] False] by (auto simp: conn_ok_def)
qed

text \<open>A server that drops the first session while it executes the query, and is there again afterwards.\<close>

definition flaky :: server where
  "flaky = \<lparr>connect_reply = (\<lambda>n. None), query_reply = (\<lambda>n q. if n = 1 then Failed ''gone away'' 2006 else NoResult),
     ping_reply = (\<lambda>n. None)\<rparr>"

lemma queries_reach_their_session_witness:
  "\<exists>c'. Query 3 flaky ''DELETE'' DB_new = (Inr (), c') \<and> conn_ok c' \<and> sent c' = [(1, ''DELETE''), (2, ''DELETE'')]"
proof -
  have q: "Query 3 flaky ''DELETE'' DB_new = (Inr (), DB_new\<lparr>is_connected := True, clock := 4, session := 2, sent := [(1, ''DELETE''), (2, ''DELETE'')]\<rparr>)"
    by (simp add: Query_def eval_nat_numeral query_round.simps(2) connect_def flaky_def DB_new_def Let_def send_query_def free_result_def
        store_result_def c_str_def)
  then show ?thesis using queries_reach_their_session [OF q conn_ok_new] by simp
qed

section \<open>Rollbacks\<close>

text \<open>When the server is gone \<open>Query\<close> and \<open>RollbackTransaction\<close> call each other without end.\<close>

lemma rollback_endless:
  assumes "\<forall>n q. \<exists>e k. query_reply srv n q = Failed e k" "transaction_started c" "auto_rollback c" "is_connected c"
  shows "fst (Query d srv q c) = Inl NoFuel"
proof -
  have "fst (query_round d 0 srv q c) = Inl NoFuel"
    using assms(2-4)
  proof (induction d arbitrary: q c)
    case (Suc d)
    obtain e k where f: "query_reply srv (clock c) (c_str q) = Failed e k" using assms(1) by blast
    obtain r3 c3 where q3: "query_round d 0 srv ''ROLLBACK'' (send_query q c) = (r3, c3)" by fastforce
    then have "r3 = Inl NoFuel" using Suc.IH [of "send_query q c" "''ROLLBACK''"] Suc.prems by simp
    then show ?case using Suc.prems by (simp add: query_round.simps(2) connect_def f q3 Let_def)
  qed simp
  then show ?thesis by (simp add: Query_def)
qed

text \<open>A server that executes every rollback is enough for a query to end.\<close>

lemma query_ends:
  assumes "\<forall>n e k. query_reply srv n ''ROLLBACK'' \<noteq> Failed e k" "2 - i < d" "0 < i \<longrightarrow> \<not> transaction_started c" "2 \<le> d"
  shows "fst (query_round d i srv q c) \<noteq> Inl NoFuel"
  using assms(2-4)
proof (induction d arbitrary: i c)
  case (Suc d)
  obtain e c1 where con: "connect srv c = (e, c1)" by fastforce
  have ts: "transaction_started c1 = transaction_started c" using con connect_cases by (cases e) auto
  have rb: "fst (query_round d 0 srv ''ROLLBACK'' (send_query q c1)) \<noteq> Inl NoFuel" if "transaction_started c1"
  proof -
    obtain d' where "d = Suc d'" using Suc.prems by (cases d) auto
    moreover obtain e2 c2 where "connect srv (send_query q c1) = (e2, c2)" by fastforce
    ultimately show ?thesis using assms(1)
      by (cases e2; cases "query_reply srv (clock c2) ''ROLLBACK''")
        (auto simp: query_round.simps(2) c_str_def store_result_def DB_error_def Let_def)
  qed
  show ?case
  proof (cases "i \<ge> 2 \<or> e \<noteq> None")
    case True
    then show ?thesis using con by (auto simp: query_round.simps(2) DB_error_def split: option.splits)
  next
    case False
    then have e: "e = None" by (cases e) auto
    note con = con [unfolded e]
    show ?thesis
    proof (cases "query_reply srv (clock c1) (c_str q)")
      case (Failed x k)
      show ?thesis
      proof (cases "transaction_started c1")
        case True
        then show ?thesis using False con Failed rb
          by (auto simp: query_round.simps(2) DB_error_def Let_def split: prod.splits sum.splits)
      next
        case no: False
        have "fst (query_round d (Suc i) srv q ((send_query q c1)\<lparr>is_connected := False\<rparr>)) \<noteq> Inl NoFuel" if "k = 2006"
        proof (cases "i = 0")
          case True
          then show ?thesis using Suc.IH [of "Suc i"] Suc.prems no by simp
        next
          case i: False
          then have "i = 1" "0 < d" using False Suc.prems by auto
          then show ?thesis by (cases d) (simp_all add: query_round.simps(2))
        qed
        then show ?thesis using False con Failed no by (auto simp: query_round.simps(2) DB_error_def Let_def)
      qed
    qed (use False in \<open>auto simp: query_round.simps(2) con store_result_def DB_error_def\<close>)
  qed
qed simp

section \<open>What the server reads of a bulk insertion\<close>

fun value_toks :: "bulk_value \<Rightarrow> sql_tok list" where
  "value_toks VNull = map Code ''NULL''"
| "value_toks (VInt i) = map Code (to_string (sint i))"
| "value_toks (VLong l) = map Code (to_string (sint l))"
| "value_toks (VString s) = [Literal s]"

fun list_toks :: "sql_tok list list \<Rightarrow> sql_tok list" where
  "list_toks [] = []"
| "list_toks [t] = t"
| "list_toks (t # u # ts) = t @ Code (CHR '','') # list_toks (u # ts)"

definition row_toks :: "bulk_value list \<Rightarrow> sql_tok list" where
  "row_toks vs = Code (CHR ''('') # list_toks (map value_toks vs) @ [Code (CHR '')'')]"

text \<open>A text that is read whole: after it, any character that is no quote is outside of literals.\<close>

definition reads_as :: "string \<Rightarrow> sql_tok list \<Rightarrow> bool" where
  "reads_as s ts \<longleftrightarrow> (\<exists>m u. sql_run Out s = (m, u) \<and> resting m \<and> ts = u @ closing_literal m)"

lemma reads_then: "reads_as s ts \<Longrightarrow> \<not> is_quote c \<Longrightarrow> sql_run Out (s @ c # r) = (fst (sql_run Out r), ts @ Code c # snd (sql_run Out r))"
  unfolding reads_as_def
proof (elim exE conjE)
  fix m u
  assume m: "\<not> is_quote c" "sql_run Out s = (m, u)" "resting m" "ts = u @ closing_literal m"
  show ?thesis using sql_run_resting [OF m(3) refl m(1), of r] m
    by (simp add: sql_run_append Let_def del: sql_run.simps) (simp add: Let_def split: prod.splits)
qed

lemma reads_code: "list_all (\<lambda>c. \<not> is_quote c) s \<Longrightarrow> reads_as s (map Code s)"
  by (simp add: reads_as_def sql_run_code resting_def)

lemma reads_list:
  "list_all2 reads_as ss ts \<Longrightarrow> reads_as (list_text ss) (list_toks ts)"
proof (induction ss arbitrary: ts rule: list_text.induct)
  case (3 s t ss)
  then obtain a b us where ts: "ts = a # b # us" "reads_as s a" "list_all2 reads_as (t # ss) (b # us)"
    by (auto simp: list_all2_Cons1)
  obtain m u where "sql_run Out (list_text (t # ss)) = (m, u)" "resting m" "list_toks (b # us) = u @ closing_literal m"
    using "3.IH" [OF ts(3)] unfolding reads_as_def by blast
  then show ?case using reads_then [OF ts(2), of "CHR '',''" "list_text (t # ss)"] ts(1)
    by (auto simp: reads_as_def is_quote_def)
qed (auto simp: reads_as_def resting_def list_all2_Cons1)

lemma sql_read_reads: "reads_as s ts \<Longrightarrow> sql_read s = Some ts"
  unfolding reads_as_def sql_read_def by (elim exE conjE, rename_tac m u, case_tac m) (auto simp: resting_def)

context sql_escape begin

lemma reads_value: "reads_as (value_text esc v) (value_toks v)"
proof (cases v)
  case (VString s)
  then show ?thesis using quoted_run [of s] by (simp add: reads_as_def resting_def)
qed (use reads_code [OF to_string_code] reads_code [of "''NULL''"] in \<open>simp_all add: is_quote_def\<close>)

lemma reads_row: "reads_as (row_text esc vs) (row_toks vs)"
proof -
  have "reads_as (list_text (map (value_text esc) vs)) (list_toks (map value_toks vs))"
    by (rule reads_list) (simp add: list_all2_conv_all_nth reads_value)
  from reads_then [OF this, of "CHR '')''" "[]"] show ?thesis
    by (simp add: reads_as_def row_text_def row_toks_def resting_def is_quote_def Let_def)
qed

lemma bulk_reads:
  assumes "list_all (\<lambda>c. \<not> is_quote c) (bq_table b)" "list_all (\<lambda>c. \<not> is_quote c) (bq_columns b)"
  shows "sql_read (bulk_text esc b) = Some (map Code (''INSERT INTO '' @ bq_table b @ ''('' @ bq_columns b @ '') VALUES'') @
    list_toks (map row_toks (bulk_rows (length (bq_values b) div ncolumns b) (ncolumns b) (bq_values b))))"
proof -
  let ?pre = "''INSERT INTO '' @ bq_table b @ ''('' @ bq_columns b @ '') VALUES''"
  let ?rows = "bulk_rows (length (bq_values b) div ncolumns b) (ncolumns b) (bq_values b)"
  have "reads_as (list_text (map (row_text esc) ?rows)) (list_toks (map row_toks ?rows))"
    by (rule reads_list) (simp add: list_all2_conv_all_nth reads_row)
  moreover have "sql_run Out ?pre = (Out, map Code ?pre)"
    by (rule sql_run_code) (use assms in \<open>simp add: is_quote_def\<close>)
  ultimately have "reads_as (?pre @ list_text (map (row_text esc) ?rows)) (map Code ?pre @ list_toks (map row_toks ?rows))"
    unfolding reads_as_def sql_run_append by auto
  then show ?thesis unfolding bulk_text_def by (intro sql_read_reads) simp
qed

end

lemma bulk_rows_concat:
  "list_all (\<lambda>r. length r = k) rs \<Longrightarrow> bulk_rows (length rs) k (concat rs) = rs"
  by (induction rs) auto

lemma length_concat_rows: "list_all (\<lambda>r. length r = k) rs \<Longrightarrow> length (concat rs) = length rs * k"
  by (induction rs) auto

end
