(* ===== verification/InstanceQuery.thy ===== *)
theory InstanceQuery
  imports Access SqlClient
begin

text \<open>
  The search for past instances: the action \<open>list\<close> of \<open>WorkflowInstances::HandleQuery\<close>
  (src/WorkflowInstance/WorkflowInstances.cpp). The query is assembled from the attributes and the parameters a client
  sends; the theory gives the text with its values and shows that, whatever they are, they stay inside literals.
  The rows of the answer are not modelled.
\<close>

section \<open>The parts of the query\<close>

type_synonym clause = "string \<times> sql_arg list"

definition groupby_select :: "string \<Rightarrow> string" where
  "groupby_select g =
     (if g = [] then ''SELECT SQL_CALC_FOUND_ROWS wi.workflow_instance_id, w.workflow_name, wi.node_name, wi.workflow_instance_host, wi.workflow_instance_start, wi.workflow_instance_end, wi.workflow_instance_errors, wi.workflow_instance_status, wi.workflow_schedule_id, wi.workflow_instance_comment''
      else ''SELECT SQL_CALC_FOUND_ROWS w.workflow_name, wi.node_name, COUNT(*) AS n''
        @ (if g = ''hour'' then '', HOUR(wi.workflow_instance_start) AS hour'' else [])
        @ (if g \<in> {''hour'', ''day''} then '', DAY(wi.workflow_instance_start) AS day'' else [])
        @ (if g \<in> {''hour'', ''day'', ''month''} then '', MONTH(wi.workflow_instance_start) AS month'' else [])
        @ (if g \<in> {''hour'', ''day'', ''month'', ''year''} then '', YEAR(wi.workflow_instance_start) AS year'' else []))"

definition groupby_clause :: "string \<Rightarrow> string" where
  "groupby_clause g =
     (if g = [] then []
      else ''GROUP BY w.workflow_name, wi.node_name''
        @ (if g = ''hour'' then '', HOUR(wi.workflow_instance_start)'' else [])
        @ (if g \<in> {''hour'', ''day''} then '', DAY(wi.workflow_instance_start)'' else [])
        @ (if g \<in> {''hour'', ''day'', ''month''} then '', MONTH(wi.workflow_instance_start)'' else [])
        @ (if g \<in> {''hour'', ''day'', ''month'', ''year''} then '', YEAR(wi.workflow_instance_start)'' else []))"

definition order_by :: "string \<Rightarrow> string" where
  "order_by g =
     (if g = [] then ''ORDER BY wi.workflow_instance_end DESC''
      else if g = ''hour'' then ''ORDER BY year DESC, month DESC, day DESC, hour DESC''
      else if g = ''day'' then ''ORDER BY year DESC, month DESC, day DESC''
      else if g = ''month'' then ''ORDER BY year DESC, month DESC''
      else if g = ''year'' then ''ORDER BY year DESC'' else [])"

text \<open>An \<open>unsigned int\<close> is read through a pointer to \<open>int\<close>.\<close>

definition id_clause :: "string \<Rightarrow> nat \<Rightarrow> clause list" where
  "id_clause text n = (if n \<noteq> 0 then [(text, [SInt (word_of_nat n)])] else [])"

definition text_clause :: "string \<Rightarrow> string \<Rightarrow> clause list" where
  "text_clause text v = (if v \<noteq> [] then [(text, [SStr v])] else [])"

text \<open>What a user who is no administrator may see.\<close>

fun id_list :: "nat list \<Rightarrow> string" where
  "id_list [] = []"
| "id_list [w] = to_string (sint (word_of_nat w :: 32 word))"
| "id_list (w # v # ws) = to_string (sint (word_of_nat w :: 32 word)) @ '', '' @ id_list (v # ws)"

definition access_clause :: "user \<Rightarrow> clause list" where
  "access_clause u =
     (if IsAdmin u then []
      else if GetReadAccessWorkflows u = [] then [('' AND false'', [])]
      else [('' AND w.workflow_id IN('' @ id_list (GetReadAccessWorkflows u) @ '')'', [])])"

definition parameter_text :: string where
  "parameter_text = '' AND EXISTS(SELECT * FROM t_workflow_instance_parameters wip WHERE wip.workflow_instance_id=wi.workflow_instance_id AND workflow_instance_parameter=%s AND workflow_instance_parameter_value=%s)''"

definition filter_text :: string where
  "filter_text = '' AND EXISTS(SELECT * FROM t_workflow_instance_filters wif WHERE wif.workflow_instance_id=wi.workflow_instance_id AND workflow_instance_filter=%s AND workflow_instance_filter_value=%s)''"

definition pair_clauses :: "string \<Rightarrow> (string \<times> string) list \<Rightarrow> clause list" where
  "pair_clauses text ps = map (\<lambda>(n, v). (text, [SStr n, SStr v])) ps"

text \<open>The attributes whose name begins with a prefix and whose value is not empty, in the order of the map.\<close>

definition prefixed :: "string \<Rightarrow> (string, string) smap \<Rightarrow> (string \<times> string) list" where
  "prefixed p attrs = map (\<lambda>(n, v). (drop (length p) n, v)) (filter (\<lambda>(n, v). take (length p) n = p \<and> v \<noteq> []) attrs)"

section \<open>The query\<close>

record list_query =
  lq_context :: string
  lq_attrs :: "(string, string) smap"
  lq_params :: "(string \<times> string) list"

definition attributes_of :: "list_query \<Rightarrow> query" where
  "attributes_of lq = \<lparr>q_context = lq_context lq, q_group = ''instances'', q_attrs = smap_find (lq_attrs lq)\<rparr>"

definition text_of :: "list_query \<Rightarrow> string \<Rightarrow> string" where
  "text_of lq name = GetRootAttribute_default (attributes_of lq) name []"

definition unsigned_of :: "list_query \<Rightarrow> string \<Rightarrow> int \<Rightarrow> nat res" where
  "unsigned_of lq name d = bindr (GetRootAttributeInt_default (attributes_of lq) name d) (\<lambda>i. Inr (to_unsigned i))"

definition where_clauses :: "user \<Rightarrow> list_query \<Rightarrow> nat \<Rightarrow> bool \<Rightarrow> nat \<Rightarrow> nat \<Rightarrow> clause list" where
  "where_clauses u lq filter_id filter_error filter_tag_id filter_schedule_id =
     id_clause '' AND wi.workflow_instance_id=%i'' filter_id @
     text_clause '' AND wi.node_name=%s'' (text_of lq ''filter_node'') @
     text_clause '' AND w.workflow_name=%s'' (text_of lq ''filter_workflow'') @
     text_clause '' AND wi.workflow_instance_start>=%s'' (text_of lq ''filter_launched_from'') @
     text_clause '' AND wi.workflow_instance_start<=%s'' (text_of lq ''filter_launched_until'') @
     text_clause '' AND wi.workflow_instance_end>=%s'' (text_of lq ''filter_ended_from'') @
     text_clause '' AND wi.workflow_instance_end<=%s'' (text_of lq ''filter_ended_until'') @
     text_clause '' AND wi.workflow_instance_status=%s'' (text_of lq ''filter_status'') @
     (if filter_error then [('' AND wi.workflow_instance_errors>0'', [])] else []) @
     id_clause '' AND wi.workflow_schedule_id=%i'' filter_schedule_id @
     id_clause '' AND EXISTS(SELECT * FROM t_workflow_instance_tag wit WHERE wi.workflow_instance_id=wit.workflow_instance_id AND wit.tag_id=%i)'' filter_tag_id @
     access_clause u @
     pair_clauses parameter_text (lq_params lq) @
     pair_clauses parameter_text (prefixed ''parameter_'' (lq_attrs lq)) @
     pair_clauses filter_text (prefixed ''customattribute_'' (lq_attrs lq))"

definition assemble :: "string \<Rightarrow> clause list \<Rightarrow> nat \<Rightarrow> nat \<Rightarrow> string \<times> sql_arg list" where
  "assemble g cs offset limit =
     (groupby_select g @ '' FROM t_workflow_instance wi, t_workflow w WHERE wi.workflow_id=w.workflow_id'' @ concat (map fst cs)
        @ '' '' @ groupby_clause g @ '' '' @ order_by g @ '' LIMIT '' @ show_nat offset @ '','' @ show_nat limit,
      concat (map snd cs))"

definition list_instances :: "user \<Rightarrow> list_query \<Rightarrow> (string \<times> sql_arg list) res" where
  "list_instances u lq =
     bindr (unsigned_of lq ''filter_id'' 0) (\<lambda>filter_id.
     bindr (GetRootAttributeBool_default (attributes_of lq) ''filter_error'' False) (\<lambda>filter_error.
     bindr (unsigned_of lq ''filter_tag_id'' 0) (\<lambda>filter_tag_id.
     bindr (unsigned_of lq ''filter_schedule_id'' 0) (\<lambda>filter_schedule_id.
     bindr (unsigned_of lq ''limit'' 30) (\<lambda>limit.
     bindr (unsigned_of lq ''offset'' 0) (\<lambda>offset.
       Inr (assemble (text_of lq ''groupby'') (where_clauses u lq filter_id filter_error filter_tag_id filter_schedule_id) offset limit)))))))"

section \<open>Parts that fit together\<close>

text \<open>A part of a query: it begins with a blank, has no quote, does not end in the middle of a hole, and fits its values.\<close>

definition fits :: "string \<Rightarrow> sql_arg list \<Rightarrow> bool" where
  "fits q args \<longleftrightarrow> list_all (\<lambda>c. \<not> is_quote c) q \<and> (q = [] \<or> last q \<noteq> CHR 0x25) \<and>
     (\<exists>m ts. intended Out q args = Some (m, ts) \<and> resting m)"

definition part :: "clause \<Rightarrow> bool" where
  "part c \<longleftrightarrow> (\<exists>q. fst c = CHR '' '' # q) \<and> fits (fst c) (snd c)"

lemma resting_In: "resting Out" "resting (After_quote (CHR 0x27) acc)"
  by (simp_all add: resting_def)

lemma fits_append:
  assumes "fits q a" "part (r, b)"
  shows "fits (q @ r) (a @ b)"
proof -
  obtain m ts where q: "intended Out q a = Some (m, ts)" "resting m" using assms(1) by (auto simp: fits_def)
  obtain m' ts' r' where r: "intended Out r b = Some (m', ts')" "resting m'" "r = CHR '' '' # r'"
    using assms(2) by (auto simp: part_def fits_def)
  have "intended m r b = Some (m', closing_literal m @ ts')"
    by (rule intended_resting [OF r(1) q(2) r(3)]) (simp_all add: is_quote_def)
  moreover have "q = [] \<or> last q \<noteq> CHR 0x25" using assms(1) by (simp add: fits_def)
  ultimately have "intended Out (q @ r) (a @ b) = Some (m', ts @ closing_literal m @ ts')"
    using intended_append [OF q(1), of r b] by simp
  then show ?thesis using assms r by (auto simp: fits_def part_def)
qed

lemma fits_parts:
  "fits q a \<Longrightarrow> list_all part cs \<Longrightarrow> fits (q @ concat (map fst cs)) (a @ concat (map snd cs))"
proof (induction cs arbitrary: q a)
  case (Cons c cs)
  have "part (fst c, snd c)" using Cons.prems by simp
  from Cons.IH [OF fits_append [OF Cons.prems(1) this]] Cons.prems(2) show ?case by simp
qed simp

definition plain_char :: "char \<Rightarrow> bool" where
  "plain_char c \<longleftrightarrow> \<not> is_quote c \<and> c \<noteq> CHR 0x25"

lemma intended_plain: "list_all plain_char q \<Longrightarrow> intended Out q [] = Some (Out, map Code q)"
proof (induction q)
  case (Cons c q)
  then show ?case by (cases q) (simp_all add: plain_char_def)
qed simp

lemma fits_plain:
  assumes "list_all plain_char q"
  shows "fits q []"
proof (cases "q = []")
  case False
  then have "last q \<noteq> CHR 0x25" using assms by (auto simp: list_all_iff plain_char_def)
  then show ?thesis using intended_plain [OF assms] assms by (auto simp: fits_def resting_In list_all_iff plain_char_def)
qed (simp add: fits_def resting_In)

lemma part_plain: "list_all plain_char q \<Longrightarrow> part (CHR '' '' # q, [])"
  using fits_plain [of "CHR '' '' # q"] by (simp add: part_def plain_char_def is_quote_def)

lemma plain_Char [simp]:
  "plain_char (Char a b c d e f g h) \<longleftrightarrow> Char a b c d e f g h \<noteq> CHR 0x27 \<and> Char a b c d e f g h \<noteq> CHR 0x22 \<and> Char a b c d e f g h \<noteq> CHR 0x25"
  by (simp add: plain_char_def is_quote_def del: char.inject)

lemma show_nat_plain [simp]: "list_all plain_char (show_nat n)"
proof -
  have "plain_char c" if "isdigit c" for c using that by (auto simp: plain_char_def is_quote_def isdigit_def byte_def)
  then show ?thesis using show_nat_digits [of n] by (auto simp: list_all_iff)
qed

lemma to_string_plain [simp]: "list_all plain_char (to_string i)"
  by (simp add: to_string_def)

lemma id_list_plain [simp]: "list_all plain_char (id_list ws)"
  by (induction ws rule: id_list.induct) simp_all

lemmas part_eval = part_def fits_def is_quote_def is_hole_def resting_def

lemma parts_with_holes:
  "part ('' AND wi.workflow_instance_id=%i'', [SInt n])" "part ('' AND wi.node_name=%s'', [SStr v])"
  "part ('' AND w.workflow_name=%s'', [SStr v])" "part ('' AND wi.workflow_instance_start>=%s'', [SStr v])"
  "part ('' AND wi.workflow_instance_start<=%s'', [SStr v])" "part ('' AND wi.workflow_instance_end>=%s'', [SStr v])"
  "part ('' AND wi.workflow_instance_end<=%s'', [SStr v])" "part ('' AND wi.workflow_instance_status=%s'', [SStr v])"
  "part ('' AND wi.workflow_schedule_id=%i'', [SInt n])"
  by (simp_all add: part_eval)

lemma parts_with_subqueries:
  "part ('' AND EXISTS(SELECT * FROM t_workflow_instance_tag wit WHERE wi.workflow_instance_id=wit.workflow_instance_id AND wit.tag_id=%i)'', [SInt n])"
  "part (parameter_text, [SStr v, SStr w])" "part (filter_text, [SStr v, SStr w])"
  by (simp_all add: part_eval parameter_text_def filter_text_def)

lemma access_parts: "list_all part (access_clause u)"
proof -
  have "part ('' AND w.workflow_id IN('' @ id_list ws @ '')'', [])" for ws
    using part_plain [of "''AND w.workflow_id IN('' @ id_list ws @ '')''"] by simp
  moreover have "part ('' AND false'', [])" using part_plain [of "''AND false''"] by simp
  ultimately show ?thesis by (simp add: access_clause_def)
qed

lemma clause_parts:
  "(\<And>n. part (t, [SInt n])) \<Longrightarrow> list_all part (id_clause t k)" "(\<And>v. part (t, [SStr v])) \<Longrightarrow> list_all part (text_clause t s)"
  "(\<And>v w. part (t, [SStr v, SStr w])) \<Longrightarrow> list_all part (pair_clauses t ps)"
  by (auto simp: id_clause_def text_clause_def pair_clauses_def list_all_iff)

lemma where_parts: "list_all part (where_clauses u lq i e t s)"
proof -
  have "part ('' AND wi.workflow_instance_errors>0'', [])"
    using part_plain [of "''AND wi.workflow_instance_errors>0''"] by simp
  then show ?thesis
    by (simp add: where_clauses_def access_parts parts_with_holes parts_with_subqueries clause_parts)
qed

lemma select_plain:
  "list_all plain_char (groupby_select g @ '' FROM t_workflow_instance wi, t_workflow w WHERE wi.workflow_id=w.workflow_id'')"
  by (simp add: groupby_select_def)

lemma tail_plain: "list_all plain_char (groupby_clause g @ '' '' @ order_by g @ '' LIMIT '' @ show_nat i @ '','' @ show_nat j)"
  by (simp add: groupby_clause_def order_by_def)

lemma assemble_fits:
  assumes "list_all part cs"
  shows "fits (fst (assemble g cs i j)) (snd (assemble g cs i j))"
proof -
  let ?head = "groupby_select g @ '' FROM t_workflow_instance wi, t_workflow w WHERE wi.workflow_id=w.workflow_id''"
  let ?tail = "CHR '' '' # groupby_clause g @ '' '' @ order_by g @ '' LIMIT '' @ show_nat i @ '','' @ show_nat j"
  have "fits (?head @ concat (map fst cs)) ([] @ concat (map snd cs))"
    by (rule fits_parts [OF fits_plain [OF select_plain] assms])
  from fits_append [OF this part_plain [OF tail_plain [of g i j]]] show ?thesis by (simp add: assemble_def)
qed

section \<open>What a client sends stays inside literals\<close>

fun literals :: "sql_tok list \<Rightarrow> string list" where
  "literals [] = []"
| "literals (Code c # ts) = literals ts"
| "literals (Literal s # ts) = s # literals ts"

fun strings_of :: "sql_arg list \<Rightarrow> string list" where
  "strings_of [] = []"
| "strings_of (SStr s # as) = s # strings_of as"
| "strings_of (a # as) = strings_of as"

lemma literals_append [simp]: "literals (ts @ us) = literals ts @ literals us"
  by (induction ts rule: literals.induct) simp_all

lemma literals_code [simp]: "literals (map Code s) = []"
  by (induction s) simp_all

lemma literals_intended:
  "intended m q args = Some (m', ts) \<Longrightarrow> resting m \<Longrightarrow> list_all (\<lambda>c. \<not> is_quote c) q \<Longrightarrow>
   literals (ts @ closing_literal m') = literals (closing_literal m) @ strings_of args"
proof (induction m q args arbitrary: m' ts rule: intended.induct)
  case (1 m args)
  then show ?case by (auto split: if_splits)
next
  case (2 m c args)
  then show ?case by (cases m) (auto simp: resting_def is_quote_def split: if_splits)
next
  case (3 m c d s args)
  show ?case
  proof (cases "c = CHR 0x25 \<and> is_hole d")
    case True
    then obtain a as m1 t1 t2 where m: "m = Out" "args = a # as" and v: "value_mode d a = Some (m1, t1)"
      and r: "intended m1 s as = Some (m', t2)" and ts: "ts = t1 @ t2"
      using "3.prems"(1) by (auto split: sql_mode.splits list.splits option.splits)
    have "resting m1" using v by (cases a) (auto simp: resting_def split: if_splits)
    from "3.IH"(1) [OF True refl m v refl r this] "3.prems"(3) have "literals (t2 @ closing_literal m') = literals (closing_literal m1) @ strings_of as"
      by simp
    then show ?thesis using v m ts by (cases a) (auto split: if_splits)
  next
    case False
    obtain t2 where r: "intended (fst (sql_step m c)) (d # s) args = Some (m', t2)" and ts: "ts = snd (sql_step m c) @ t2"
      using "3.prems"(1) False by (auto split: option.splits)
    have "resting (fst (sql_step m c))" "literals (snd (sql_step m c)) @ literals (closing_literal (fst (sql_step m c))) = literals (closing_literal m)"
      using "3.prems"(2,3) by (cases m; auto simp: resting_def is_quote_def split: if_splits)+
    then show ?thesis using "3.IH"(2) [OF False r] "3.prems"(3) ts by simp
  qed
qed

text \<open>C35: Whatever attributes and parameters a client sends, the query of the search is well formed: the database reads as
  literals exactly the strings that were sent, each one whole and in the order of its hole, and nothing of them as code.\<close>
theorem list_query_keeps_literals:
  assumes "sql_escape esc" "list_instances u lq = Inr (text, args)"
  shows "\<exists>s ts. QueryPrintf_text esc text args = Inr s \<and> sql_read s = Some ts \<and> literals ts = strings_of args"
proof -
  obtain g i e t sc off lim where "assemble g (where_clauses u lq i e t sc) off lim = (text, args)"
    using assms(2) by (auto simp: list_instances_def bindr_eq_Inr)
  then have "fits text args" using assemble_fits [OF where_parts, of g u lq i e t sc off lim] by (metis fst_conv snd_conv)
  then obtain m ts where m: "intended Out text args = Some (m, ts)" "resting m" "list_all (\<lambda>c. \<not> is_quote c) text"
    by (auto simp: fits_def)
  then have "m = Out \<or> (\<exists>s. m = After_quote (CHR 0x27) s)" by (cases m) (auto simp: resting_def)
  then obtain s where "QueryPrintf_text esc text args = Inr s" "sql_read s = Some (ts @ closing_literal m)"
    using sql_escape.printf_reads [OF assms(1) m(1)] by blast
  then show ?thesis using literals_intended [OF m(1) resting_In(1) m(3)] by auto
qed

definition hostile :: list_query where
  "hostile = \<lparr>lq_context = ''Query'', lq_attrs = [(''filter_node'', [CHR 0x27] @ '' OR 1='' @ [CHR 0x5C])], lq_params = []\<rparr>"

lemma list_query_keeps_literals_witness:
  "\<exists>text args s ts. list_instances anonymous hostile = Inr (text, args) \<and> QueryPrintf_text documented_escape text args = Inr s \<and>
     sql_read s = Some ts \<and> literals ts = [[CHR 0x27] @ '' OR 1='' @ [CHR 0x5C]]"
proof -
  let ?cs = "[('' AND wi.node_name=%s'', [SStr ([CHR 0x27] @ '' OR 1='' @ [CHR 0x5C])])]"
  have l: "list_instances anonymous hostile = Inr (fst (assemble [] ?cs 0 30), snd (assemble [] ?cs 0 30))"
    by (simp add: list_instances_def hostile_def unsigned_of_def GetRootAttributeInt_default_def GetRootAttributeBool_default_def attributes_of_def
        text_of_def GetRootAttribute_default_def where_clauses_def id_clause_def text_clause_def access_clause_def pair_clauses_def prefixed_def
        IsAdmin_def anonymous_def to_unsigned_def)
  have "snd (assemble [] ?cs 0 30) = [SStr ([CHR 0x27] @ '' OR 1='' @ [CHR 0x5C])]" by (simp add: assemble_def)
  then show ?thesis using list_query_keeps_literals [OF documented.sql_escape_axioms l] l by auto
qed

end
