(* ===== verification/LogQueue.thy ===== *)
theory LogQueue
  imports EvqBase
begin

text \<open>
  Producers and consumers: src/Thread/ConsumerThread.cpp and include/Thread/ProducerThread.h, with the queue of the
  storage of external logs (\<open>Log\<close>, \<open>get\<close>, \<open>data_available\<close> of src/ELogs/LogStorage.cpp). Several consumers may share a
  producer. A consumer holds the mutex of the producer while it tests its condition and takes data; between the test
  and the sleep (\<open>AboutToSleep\<close>) it still holds it, so no producer runs, but \<open>Shutdown\<close>, which does not take the
  mutex, may. Wake-ups for no reason are among the steps.
\<close>

section \<open>State\<close>

datatype 'a place = Top | AboutToSleep | Asleep | Processing "'a list" | Finished

record 'a log_queue =
  logs :: "'a list"
  max_queue_size :: nat
  bulk_size :: nat
  is_shutting_down :: bool
  consumers :: "'a place list"
  accepted :: "'a list"
  taken :: "'a list"
  discarded :: nat

definition LogQueue_new :: "nat \<Rightarrow> nat \<Rightarrow> nat \<Rightarrow> 'a log_queue" where
  "LogQueue_new max_size bulk n =
     \<lparr>logs = [], max_queue_size = max_size, bulk_size = bulk, is_shutting_down = False, consumers = replicate n Top,
      accepted = [], taken = [], discarded = 0\<rparr>"

definition data_available :: "'a log_queue \<Rightarrow> bool" where
  "data_available q \<longleftrightarrow> length (logs q) > 0"

text \<open>No consumer is between its test and its sleep: the mutex is free.\<close>

definition unlocked :: "'a log_queue \<Rightarrow> bool" where
  "unlocked q \<longleftrightarrow> AboutToSleep \<notin> set (consumers q)"

section \<open>Operations\<close>

definition set_place :: "nat \<Rightarrow> 'a place \<Rightarrow> 'a log_queue \<Rightarrow> 'a log_queue" where
  "set_place k p q = q\<lparr>consumers := (consumers q)[k := p]\<rparr>"

definition wake :: "nat \<Rightarrow> 'a log_queue \<Rightarrow> 'a log_queue" where
  "wake k q = (if consumers q ! k = Asleep then set_place k Top q else q)"

text \<open>\<open>Log\<close>, and the \<open>notify_one\<close> of \<open>produced\<close>, which wakes a thread that sleeps, if there is one.\<close>

definition push_log :: "'a \<Rightarrow> 'a log_queue \<Rightarrow> 'a log_queue" where
  "push_log x q =
     (if length (logs q) \<ge> max_queue_size q then q\<lparr>discarded := Suc (discarded q)\<rparr>
      else q\<lparr>logs := logs q @ [x], accepted := accepted q @ [x]\<rparr>)"

definition wakes :: "'a log_queue \<Rightarrow> nat option \<Rightarrow> bool" where
  "wakes q k \<longleftrightarrow> (case k of Some i \<Rightarrow> i < length (consumers q) \<and> consumers q ! i = Asleep | None \<Rightarrow> Asleep \<notin> set (consumers q))"

definition notify_one :: "nat option \<Rightarrow> 'a log_queue \<Rightarrow> 'a log_queue" where
  "notify_one k q = (case k of Some i \<Rightarrow> wake i q | None \<Rightarrow> q)"

text \<open>\<open>get\<close>: at most \<open>bulk_size\<close> logs, in order.\<close>

definition get_logs :: "nat \<Rightarrow> 'a log_queue \<Rightarrow> 'a log_queue" where
  "get_logs k q = (set_place k (Processing (take (bulk_size q) (logs q))) q)
     \<lparr>logs := drop (bulk_size q) (logs q), taken := taken q @ take (bulk_size q) (logs q)\<rparr>"

text \<open>The test of \<open>main\<close>, with the lock.\<close>

definition consumer_test :: "nat \<Rightarrow> 'a log_queue \<Rightarrow> 'a log_queue" where
  "consumer_test k q =
     (if is_shutting_down q then set_place k Finished q
      else if data_available q then get_logs k q
      else set_place k AboutToSleep q)"

definition wake_all :: "'a log_queue \<Rightarrow> 'a log_queue" where
  "wake_all q = q\<lparr>consumers := map (\<lambda>p. case p of Asleep \<Rightarrow> Top | p \<Rightarrow> p) (consumers q)\<rparr>"

inductive lq_step :: "'a log_queue \<Rightarrow> 'a log_queue \<Rightarrow> bool" where
  produce: "unlocked q \<Longrightarrow> length (logs q) < max_queue_size q \<Longrightarrow> wakes q k \<Longrightarrow> lq_step q (notify_one k (push_log x q))"
| discard: "unlocked q \<Longrightarrow> max_queue_size q \<le> length (logs q) \<Longrightarrow> lq_step q (push_log x q)"
| test: "unlocked q \<Longrightarrow> k < length (consumers q) \<Longrightarrow> consumers q ! k = Top \<Longrightarrow> lq_step q (consumer_test k q)"
| sleep: "k < length (consumers q) \<Longrightarrow> consumers q ! k = AboutToSleep \<Longrightarrow> lq_step q (set_place k Asleep q)"
| spurious: "k < length (consumers q) \<Longrightarrow> consumers q ! k = Asleep \<Longrightarrow> lq_step q (set_place k Top q)"
| processed: "k < length (consumers q) \<Longrightarrow> consumers q ! k = Processing xs \<Longrightarrow> lq_step q (set_place k Top q)"
| shutdown_flag: "lq_step q (q\<lparr>is_shutting_down := True\<rparr>)"
| shutdown_notify: "is_shutting_down q \<Longrightarrow> lq_step q (wake_all q)"

inductive_cases lq_stepE: "lq_step q q'"

section \<open>Invariant\<close>

definition active :: "'a place \<Rightarrow> bool" where
  "active p = (case p of Top \<Rightarrow> True | Processing xs \<Rightarrow> True | _ \<Rightarrow> False)"

definition lq_inv :: "'a log_queue \<Rightarrow> bool" where
  "lq_inv q \<longleftrightarrow> accepted q = taken q @ logs q \<and> length (logs q) \<le> max_queue_size q \<and>
     (AboutToSleep \<in> set (consumers q) \<longrightarrow> logs q = []) \<and>
     (Finished \<in> set (consumers q) \<longrightarrow> is_shutting_down q) \<and>
     (logs q \<noteq> [] \<longrightarrow> \<not> is_shutting_down q \<longrightarrow> consumers q \<noteq> [] \<longrightarrow> list_ex active (consumers q))"

lemma active_simps [simp]: "active Top" "active (Processing xs)" "\<not> active Asleep" "\<not> active AboutToSleep" "\<not> active Finished"
  by (simp_all add: active_def)

lemma list_ex_update: "k < length xs \<Longrightarrow> P x \<Longrightarrow> list_ex P (xs[k := x])"
  by (auto simp: list_ex_iff intro!: bexI [of _ x] set_update_memI)

lemma list_ex_keep: "list_ex P xs \<Longrightarrow> \<not> P (xs ! k) \<Longrightarrow> list_ex P (xs[k := x])"
  unfolding list_ex_length by (metis length_list_update nth_list_update_neq)

lemma in_update: "y \<in> set (xs[k := x]) \<Longrightarrow> y = x \<or> y \<in> set xs"
  using set_update_subset_insert [of xs k x] by auto

lemma lq_inv_new: "lq_inv (LogQueue_new m b n)"
  by (simp add: lq_inv_def LogQueue_new_def)

lemma set_place_simps [simp]:
  "logs (set_place k p q) = logs q" "accepted (set_place k p q) = accepted q" "taken (set_place k p q) = taken q"
  "max_queue_size (set_place k p q) = max_queue_size q" "is_shutting_down (set_place k p q) = is_shutting_down q"
  "consumers (set_place k p q) = (consumers q)[k := p]" "bulk_size (set_place k p q) = bulk_size q"
  by (simp_all add: set_place_def)

text \<open>With no lock held, a consumer that neither sleeps nor is finished is active.\<close>

lemma all_asleep_or_active:
  assumes "unlocked q" "lq_inv q" "\<not> is_shutting_down q" "consumers q \<noteq> []" "Asleep \<notin> set (consumers q)"
  shows "list_ex active (consumers q)"
proof -
  obtain p ps where c: "consumers q = p # ps" using assms(4) by (cases "consumers q") auto
  then have "p \<noteq> Asleep" "p \<noteq> AboutToSleep" "p \<noteq> Finished" using assms by (auto simp: unlocked_def lq_inv_def)
  then show ?thesis using c by (cases p) simp_all
qed

lemma lq_step_inv: "lq_step q q' \<Longrightarrow> lq_inv q \<Longrightarrow> lq_inv q'"
proof (induction rule: lq_step.induct)
  case (produce q k x)
  then show ?case
  proof (cases k)
    case None
    then have "list_ex active (consumers q)" if "\<not> is_shutting_down q" "consumers q \<noteq> []"
      using produce that all_asleep_or_active [of q] by (simp add: wakes_def)
    then show ?thesis using produce None by (auto simp: lq_inv_def push_log_def notify_one_def unlocked_def)
  next
    case (Some i)
    then show ?thesis using produce
      by (auto simp: lq_inv_def push_log_def notify_one_def wakes_def wake_def unlocked_def intro: list_ex_update dest: in_update)
  qed
next
  case (test q k)
  then show ?case
    by (auto simp: lq_inv_def consumer_test_def data_available_def get_logs_def unlocked_def intro: list_ex_update dest: in_update)
next
  case (sleep k q)
  then have "logs q = []" by (auto simp: lq_inv_def in_set_conv_nth)
  then show ?case using sleep by (auto simp: lq_inv_def dest: in_update)
next
  case (shutdown_notify q)
  then show ?case by (auto simp: lq_inv_def wake_all_def split: place.splits)
qed (auto simp: lq_inv_def push_log_def dest: in_update intro: list_ex_update)

text \<open>C36: Whatever producers, consumers and wake-ups do in whatever order: the logs taken and those still in the queue are
  the accepted ones, each once and in order; the queue never exceeds its maximum; and until the shutdown is requested,
  as long as the queue is not empty some consumer is awake, so that nothing stays in it for lack of a wake-up.\<close>
theorem logs_are_consumed:
  assumes "lq_step\<^sup>*\<^sup>* (LogQueue_new m b n) q" "0 < n"
  shows "accepted q = taken q @ logs q \<and> length (logs q) \<le> m \<and>
    (logs q \<noteq> [] \<and> \<not> is_shutting_down q \<longrightarrow> list_ex active (consumers q))"
proof -
  have "lq_inv q \<and> max_queue_size q = m \<and> length (consumers q) = n" using assms(1)
  proof (induction rule: rtranclp_induct)
    case base
    then show ?case using lq_inv_new by (simp add: LogQueue_new_def)
  next
    case (step y z)
    have "max_queue_size z = max_queue_size y \<and> length (consumers z) = length (consumers y)" using step(2)
      by (rule lq_stepE)
        (auto simp: push_log_def notify_one_def wake_def consumer_test_def get_logs_def wake_all_def set_place_def split: option.splits)
    then show ?case using step lq_step_inv by metis
  qed
  then show ?thesis using assms(2) by (auto simp: lq_inv_def)
qed

definition one_log :: "nat log_queue" where
  "one_log = notify_one None (push_log 7 (LogQueue_new 10 5 1))"

lemma logs_are_consumed_witness: "logs one_log = [7] \<and> list_ex active (consumers one_log)"
proof -
  have "lq_step (LogQueue_new 10 5 1) one_log"
    unfolding one_log_def by (rule lq_step.produce) (simp_all add: LogQueue_new_def unlocked_def wakes_def)
  then have "lq_step\<^sup>*\<^sup>* (LogQueue_new 10 5 1) one_log" by (rule r_into_rtranclp)
  from logs_are_consumed [OF this] show ?thesis
    by (simp add: one_log_def notify_one_def push_log_def LogQueue_new_def)
qed

section \<open>The shutdown may be missed\<close>

text \<open>
  The consumer has found no data and is about to sleep; \<open>Shutdown\<close> sets its flag and notifies; then the consumer
  sleeps, and \<open>Shutdown\<close> joins a thread that nothing wakes.
\<close>

definition missed :: "nat log_queue" where
  "missed = set_place 0 Asleep (wake_all ((consumer_test 0 (LogQueue_new 10 5 1))\<lparr>is_shutting_down := True\<rparr>))"

lemma shutdown_missed: "lq_step\<^sup>*\<^sup>* (LogQueue_new 10 5 1) missed \<and> is_shutting_down missed \<and> consumers missed = [Asleep]"
proof -
  let ?a = "consumer_test 0 (LogQueue_new 10 5 1) :: nat log_queue"
  let ?b = "?a\<lparr>is_shutting_down := True\<rparr>"
  have a: "consumers ?a = [AboutToSleep]" by (simp add: consumer_test_def LogQueue_new_def data_available_def)
  have "lq_step (LogQueue_new 10 5 1) ?a" by (rule lq_step.test) (simp_all add: LogQueue_new_def unlocked_def)
  moreover have "lq_step ?a ?b" by (rule lq_step.shutdown_flag)
  moreover have "lq_step ?b (wake_all ?b)" by (rule lq_step.shutdown_notify) simp
  moreover have "lq_step (wake_all ?b) missed" unfolding missed_def by (rule lq_step.sleep) (simp_all add: wake_all_def a [simplified])
  ultimately have "lq_step\<^sup>*\<^sup>* (LogQueue_new 10 5 1) missed" by (meson rtranclp.rtrancl_into_rtrancl rtranclp.rtrancl_refl)
  then show ?thesis by (simp add: missed_def wake_all_def a [simplified])
qed

end
