(* ===== verification/Json.thy ===== *)
theory Json
  imports StdMap
begin

text \<open>
  JSON values as the sources use those of the vendored library: the kinds of \<open>value_t\<close> they test, access to members and
  the conversions. Of a floating point number only the integer part is kept. The parser is an argument of the definitions that call it. Members of an object are in the order of
  their names, as in the \<open>std::map\<close> the library keeps them in. What the library raises is no \<open>Exception\<close>.
\<close>

datatype json =
    JNull | JBool bool | JUnsigned nat | JNegative int | JFloat int | JString string | JArray "json list"
  | JObject "(string \<times> json) list"

definition type_error :: "'a res" where
  "type_error = Inl (StdExn ''type_error'')"

definition is_string :: "json \<Rightarrow> bool" where
  "is_string j = (case j of JString s \<Rightarrow> True | _ \<Rightarrow> False)"

definition is_unsigned :: "json \<Rightarrow> bool" where
  "is_unsigned j = (case j of JUnsigned n \<Rightarrow> True | _ \<Rightarrow> False)"

definition is_object :: "json \<Rightarrow> bool" where
  "is_object j = (case j of JObject ms \<Rightarrow> True | _ \<Rightarrow> False)"

definition is_bool :: "json \<Rightarrow> bool" where
  "is_bool j = (case j of JBool b \<Rightarrow> True | _ \<Rightarrow> False)"

text \<open>\<open>j.contains(name)\<close>: false for what is no object.\<close>

definition contains :: "json \<Rightarrow> string \<Rightarrow> bool" where
  "contains j name = (case j of JObject ms \<Rightarrow> map_of ms name \<noteq> None | _ \<Rightarrow> False)"

text \<open>\<open>j[name]\<close>: null when there is no such member (which is then created) and for null; an error for other values.\<close>

definition member :: "json \<Rightarrow> string \<Rightarrow> json res" where
  "member j name = (case j of
       JObject ms \<Rightarrow> Inr (case map_of ms name of Some v \<Rightarrow> v | None \<Rightarrow> JNull)
     | JNull \<Rightarrow> Inr JNull
     | _ \<Rightarrow> type_error)"

definition as_string :: "json \<Rightarrow> string res" where
  "as_string j = (case j of JString s \<Rightarrow> Inr s | _ \<Rightarrow> type_error)"

definition as_bool :: "json \<Rightarrow> bool res" where
  "as_bool j = (case j of JBool b \<Rightarrow> Inr b | _ \<Rightarrow> type_error)"

text \<open>The conversion of a number, a 64 bit integer, to \<open>int\<close> and \<open>unsigned int\<close> keeps the low bits; a boolean converts too.\<close>

definition wrap_int :: "int \<Rightarrow> int" where
  "wrap_int i = (i + 2 ^ 31) mod 2 ^ 32 - 2 ^ 31"

definition as_int :: "json \<Rightarrow> int res" where
  "as_int j = (case j of JUnsigned n \<Rightarrow> Inr (wrap_int (int n)) | JNegative i \<Rightarrow> Inr (wrap_int i) | JFloat i \<Rightarrow> Inr (wrap_int i)
     | JBool b \<Rightarrow> Inr (if b then 1 else 0) | _ \<Rightarrow> type_error)"

definition as_unsigned :: "json \<Rightarrow> nat res" where
  "as_unsigned j = bindr (as_int j) (\<lambda>i. Inr (nat (i mod 2 ^ 32)))"

text \<open>The loops over the members: \<open>it.key()\<close> raises for what is no object, where there is something to iterate over.\<close>

definition members :: "json \<Rightarrow> (string \<times> json) list res" where
  "members j = (case j of
       JObject ms \<Rightarrow> Inr ms
     | JNull \<Rightarrow> Inr []
     | JArray [] \<Rightarrow> Inr []
     | _ \<Rightarrow> Inl (StdExn ''invalid_iterator''))"

text \<open>What is read of an object that was parsed: its members have different names, in order.\<close>

fun json_ok :: "json \<Rightarrow> bool" where
  "json_ok (JArray js) = list_all json_ok js"
| "json_ok (JObject ms) = (smap_inv ms \<and> list_all (\<lambda>m. json_ok (snd m)) ms)"
| "json_ok j = True"

lemma wrap_int_range [simp]: "int_range (wrap_int i)"
proof -
  have "0 \<le> (i + 2 ^ 31) mod 2 ^ 32" "(i + 2 ^ 31) mod 2 ^ 32 < 2 ^ 32" by simp_all
  then show ?thesis by (simp add: wrap_int_def int_range_def)
qed

lemma wrap_int_small: "int_range i \<Longrightarrow> wrap_int i = i"
  by (simp add: wrap_int_def int_range_def)

lemma json_not_ub [simp]:
  "\<not> is_ub (member j n)" "\<not> is_ub (as_string j)" "\<not> is_ub (as_bool j)" "\<not> is_ub (as_int j)" "\<not> is_ub (members j)"
  by (simp_all add: member_def as_string_def as_bool_def as_int_def members_def type_error_def split: json.splits list.splits)

end
