(* ===== verification/ElogField.thy ===== *)
theory ElogField
  imports Json
begin

text \<open>
  Fields of external logs: src/ELogs/Field.cpp, src/ELogs/Fields.cpp and the dictionary of packed strings of
  src/ELogs/LogStorage.cpp. The conversions of addresses of the C library are arguments; so is \<open>same_text\<close>, the
  comparison of the unique key of the table of packed strings (which ignores blanks at the end).
\<close>

section \<open>Fields\<close>

datatype field_type = F_NONE | F_CHAR | F_INT | F_IP | F_PACK | F_TEXT | F_ITEXT

record field =
  field_id :: nat
  field_name :: string
  f_type :: field_type

definition Field_none :: field where
  "Field_none = \<lparr>field_id = 2 ^ 32 - 1, field_name = [], f_type = F_NONE\<rparr>"

definition StringToFieldType :: "string \<Rightarrow> field_type res" where
  "StringToFieldType s =
     (if s = ''CHAR'' then Inr F_CHAR else if s = ''INT'' then Inr F_INT else if s = ''IP'' then Inr F_IP
      else if s = ''PACK'' then Inr F_PACK else if s = ''TEXT'' then Inr F_TEXT else if s = ''ITEXT'' then Inr F_ITEXT
      else Inl (Exn ''Field'' (''Unknown field type : '' @ s) []))"

fun FieldTypeToString :: "field_type \<Rightarrow> string res" where
  "FieldTypeToString F_CHAR = Inr ''CHAR''"
| "FieldTypeToString F_INT = Inr ''INT''"
| "FieldTypeToString F_IP = Inr ''IP''"
| "FieldTypeToString F_PACK = Inr ''PACK''"
| "FieldTypeToString F_TEXT = Inr ''TEXT''"
| "FieldTypeToString F_ITEXT = Inr ''ITEXT''"
| "FieldTypeToString F_NONE = Inl (Exn ''Field'' ''Unknown field type'' [])"

fun GetTableName :: "field_type \<Rightarrow> string" where
  "GetTableName F_CHAR = ''t_value_char''"
| "GetTableName F_TEXT = ''t_value_text''"
| "GetTableName F_ITEXT = ''t_value_itext''"
| "GetTableName F_INT = ''t_value_int''"
| "GetTableName F_IP = ''t_value_ip''"
| "GetTableName F_PACK = ''t_value_pack''"
| "GetTableName F_NONE = []"

fun GetDBType :: "field_type \<Rightarrow> string" where
  "GetDBType F_NONE = []"
| "GetDBType F_INT = ''%i''"
| "GetDBType F_PACK = ''%i''"
| "GetDBType t = ''%s''"

definition crit_names :: "string list" where
  "crit_names = [''LOG_EMERG'', ''LOG_ALERT'', ''LOG_CRIT'', ''LOG_ERR'', ''LOG_WARNING'', ''LOG_NOTICE'', ''LOG_INFO'', ''LOG_DEBUG'']"

definition PackCrit :: "string \<Rightarrow> int res" where
  "PackCrit s =
     (if s = ''LOG_EMERG'' then Inr 0 else if s = ''LOG_ALERT'' then Inr 1 else if s = ''LOG_CRIT'' then Inr 2
      else if s = ''LOG_ERR'' then Inr 3 else if s = ''LOG_WARNING'' then Inr 4 else if s = ''LOG_NOTICE'' then Inr 5
      else if s = ''LOG_INFO'' then Inr 6 else if s = ''LOG_DEBUG'' then Inr 7
      else Inl (Exn ''Field'' (''Invalid criticality : '' @ s) ''INVALID_PARAMETER''))"

definition UnpackCrit :: "int \<Rightarrow> string res" where
  "UnpackCrit i =
     (if 0 \<le> i \<and> i < 8 then Inr (crit_names ! nat i)
      else Inl (Exn ''Field'' (''Invalid integer criticality : '' @ to_string i) ''INVALID_PARAMETER''))"

section \<open>The dictionary of packed strings\<close>

text \<open>The maps in memory and the table; \<open>REPLACE\<close> removes the row with the same key and inserts a new one.\<close>

record dictionary =
  pack_str_id :: "(string, nat) smap"
  pack_id_str :: "(nat, string) smap"
  t_pack :: "(nat, string) smap"
  pack_next :: nat

definition load_dictionary :: "(nat, string) smap \<Rightarrow> nat \<Rightarrow> dictionary" where
  "load_dictionary t n =
     \<lparr>pack_str_id = foldl (\<lambda>m (i, s). smap_put m s i) [] t, pack_id_str = foldl (\<lambda>m (i, s). smap_put m i s) [] t, t_pack = t, pack_next = n\<rparr>"

definition PackString :: "(string \<Rightarrow> string \<Rightarrow> bool) \<Rightarrow> string \<Rightarrow> dictionary \<Rightarrow> nat \<times> dictionary" where
  "PackString same_text s d = (case smap_find (pack_str_id d) s of
       Some i \<Rightarrow> (i, d)
     | None \<Rightarrow>
        (let i = pack_next d
         in (i, d\<lparr>t_pack := smap_put (filter (\<lambda>(j, r). \<not> same_text r s) (t_pack d)) i s, pack_next := Suc i,
                 pack_str_id := smap_put (pack_str_id d) s i, pack_id_str := smap_put (pack_id_str d) i s\<rparr>)))"

definition UnpackString :: "int \<Rightarrow> dictionary \<Rightarrow> string \<times> dictionary" where
  "UnpackString i d =
     (let u = nat (i mod 2 ^ 32) in
      case smap_find (pack_id_str d) u of
        Some s \<Rightarrow> (s, d)
      | None \<Rightarrow> (case smap_find (t_pack d) u of
            Some s \<Rightarrow> (s, d\<lparr>pack_id_str := smap_put (pack_id_str d) u s, pack_str_id := smap_put (pack_str_id d) s u\<rparr>)
          | None \<Rightarrow> ([], d)))"

section \<open>Values\<close>

record inet =
  pton4 :: "string \<Rightarrow> string option"
  pton6 :: "string \<Rightarrow> string option"
  ntop4 :: "string \<Rightarrow> string option"
  ntop6 :: "string \<Rightarrow> string option"

definition PackInteger :: "string \<Rightarrow> int res" where
  "PackInteger s = catch_all (bindr (stoi s) (\<lambda>p. Inr (fst p))) (Inl (Exn ''Field'' (''Invalid integer : '' @ s) []))"

definition PackIP :: "inet \<Rightarrow> string \<Rightarrow> string res" where
  "PackIP n ip = (case pton4 n ip of
       Some b \<Rightarrow> Inr b
     | None \<Rightarrow> (case pton6 n ip of Some b \<Rightarrow> Inr b | None \<Rightarrow> Inl (Exn ''Field'' (''Invalid IP : '' @ ip) [])))"

definition UnpackIP :: "inet \<Rightarrow> string \<Rightarrow> string res" where
  "UnpackIP n b =
     (if length b = 4 then Inr (case ntop4 n b of Some s \<Rightarrow> s | None \<Rightarrow> [])
      else if length b = 16 then Inr (case ntop6 n b of Some s \<Rightarrow> s | None \<Rightarrow> [])
      else Inl (Exn ''Field'' ''Invalid binary IP length should be 4 ou 16'' []))"

text \<open>What \<open>Pack\<close> returns: a pointer to one of its two outputs, or null.\<close>

datatype packed = PInt int | PStr string | PNothing

definition Pack :: "inet \<Rightarrow> (string \<Rightarrow> string \<Rightarrow> bool) \<Rightarrow> field_type \<Rightarrow> string \<Rightarrow> dictionary \<Rightarrow> packed res \<times> dictionary" where
  "Pack n same_text t s d = (case t of
       F_INT \<Rightarrow> (bindr (PackInteger s) (\<lambda>i. Inr (PInt i)), d)
     | F_IP \<Rightarrow> (bindr (PackIP n s) (\<lambda>b. Inr (PStr b)), d)
     | F_PACK \<Rightarrow> (let (i, d') = PackString same_text s d in (Inr (PInt (wrap_int (int i))), d'))
     | F_NONE \<Rightarrow> (Inr PNothing, d)
     | _ \<Rightarrow> (Inr (PStr s), d))"

definition Unpack :: "inet \<Rightarrow> field_type \<Rightarrow> string \<Rightarrow> dictionary \<Rightarrow> string res \<times> dictionary" where
  "Unpack n t v d =
     (if v = [] then (Inr [], d)
      else case t of
          F_INT \<Rightarrow> (bindr (stoi v) (\<lambda>p. Inr (to_string (fst p))), d)
        | F_IP \<Rightarrow> (UnpackIP n v, d)
        | F_PACK \<Rightarrow> (case stoi v of
              Inl e \<Rightarrow> (Inl e, d)
            | Inr p \<Rightarrow> let (s, d') = UnpackString (fst p) d in (Inr s, d'))
        | F_NONE \<Rightarrow> (Inr [], d)
        | _ \<Rightarrow> (Inr v, d))"

section \<open>Round trips\<close>

lemma PackCrit_range: "PackCrit s = Inr i \<Longrightarrow> 0 \<le> i \<and> i < 8"
  unfolding PackCrit_def by (simp split: if_split_asm)

lemma crit_roundtrip: "PackCrit s = Inr i \<longleftrightarrow> UnpackCrit i = Inr s"
proof (cases "0 \<le> i \<and> i < 8")
  case True
  then have "i = 0 \<or> i = 1 \<or> i = 2 \<or> i = 3 \<or> i = 4 \<or> i = 5 \<or> i = 6 \<or> i = 7" by presburger
  then show ?thesis by (elim disjE) (auto simp: PackCrit_def UnpackCrit_def crit_names_def)
next
  case False
  then have "UnpackCrit i \<noteq> Inr s" by (auto simp: UnpackCrit_def)
  then show ?thesis using PackCrit_range [of s i] False by blast
qed

lemma field_type_roundtrip: "StringToFieldType s = Inr t \<longleftrightarrow> FieldTypeToString t = Inr s"
  by (cases t) (auto simp: StringToFieldType_def)

text \<open>The dictionary in memory agrees with itself and with the ids given so far.\<close>

definition dict_ok :: "dictionary \<Rightarrow> bool" where
  "dict_ok d \<longleftrightarrow> smap_inv (pack_str_id d) \<and> smap_inv (pack_id_str d) \<and> smap_inv (t_pack d) \<and> 0 < pack_next d \<and>
     (\<forall>s i. smap_find (pack_str_id d) s = Some i \<longrightarrow> smap_find (pack_id_str d) i = Some s \<and> i < pack_next d) \<and>
     (\<forall>i s. smap_find (pack_id_str d) i = Some s \<longrightarrow> i < pack_next d) \<and>
     (\<forall>i s. smap_find (t_pack d) i = Some s \<longrightarrow> i < pack_next d)"

lemma PackString_ok:
  assumes "dict_ok d" "PackString same_text s d = (i, d')"
  shows "dict_ok d' \<and> smap_find (pack_id_str d') i = Some s \<and> i < pack_next d' \<and>
    (\<forall>j r. smap_find (pack_id_str d) j = Some r \<longrightarrow> smap_find (pack_id_str d') j = Some r)"
proof (cases "smap_find (pack_str_id d) s")
  case None
  have fresh: "smap_find (pack_id_str d) (pack_next d) = None" using assms(1) by (cases "smap_find (pack_id_str d) (pack_next d)") (auto simp: dict_ok_def)
  have t: "smap_find (filter (\<lambda>(j, r). \<not> same_text r s) (t_pack d)) j = Some r \<Longrightarrow> smap_find (t_pack d) j = Some r" for j r
    using assms(1) by (auto simp: dict_ok_def smap_find_map_of smap_inv_distinct smap_inv_filter dest!: map_of_SomeD)
  show ?thesis using None assms fresh t
    by (auto simp: PackString_def Let_def dict_ok_def smap_find_put smap_inv_put smap_inv_filter less_Suc_eq split: if_splits)
next
  case (Some j)
  then show ?thesis using assms by (auto simp: PackString_def dict_ok_def)
qed

definition db_text :: "packed \<Rightarrow> string" where
  "db_text p = (case p of PInt i \<Rightarrow> to_string i | PStr s \<Rightarrow> s | PNothing \<Rightarrow> [])"

lemma to_string_nonempty [simp]: "to_string i \<noteq> []"
  by (simp add: to_string_def)

lemma pack_roundtrip:
  assumes "dict_ok d" "pack_next d < 2 ^ 31" "Pack n same_text t s d = (Inr p, d')" "t \<in> {F_CHAR, F_TEXT, F_ITEXT, F_PACK}"
  shows "Unpack n t (db_text p) d' = (Inr s, d') \<and> dict_ok d'"
proof (cases "t = F_PACK")
  case True
  obtain i e where i: "PackString same_text s d = (i, e)" by fastforce
  note ok = PackString_ok [OF assms(1) i]
  have "i \<le> pack_next d"
  proof (cases "smap_find (pack_str_id d) s")
    case (Some j)
    then have "j < pack_next d" using assms(1) by (simp add: dict_ok_def)
    then show ?thesis using i Some by (simp add: PackString_def)
  qed (use i in \<open>simp add: PackString_def Let_def\<close>)
  then have "i < 2 ^ 31" using assms(2) by simp
  then have "wrap_int (int i) = int i" by (intro wrap_int_small) (simp add: int_range_def)
  moreover have "int_range (int i)" using \<open>i < 2 ^ 31\<close> by (simp add: int_range_def)
  ultimately show ?thesis using True assms(3) i ok \<open>i < 2 ^ 31\<close>
    by (auto simp: Pack_def Unpack_def db_text_def UnpackString_def Let_def stoi_to_string)
next
  case False
  then show ?thesis using assms by (auto simp: Pack_def Unpack_def db_text_def)
qed

text \<open>A number is read back in its canonical form, an address in the form the C library gives it.\<close>

lemma pack_int_roundtrip: "Pack n same_text F_INT s d = (Inr p, d') \<Longrightarrow> \<exists>i k. stoi s = Inr (i, k) \<and> Unpack n F_INT (db_text p) d' = (Inr (to_string i), d)"
  by (auto simp: Pack_def Unpack_def db_text_def PackInteger_def bindr_eq_Inr stoi_to_string stoi_range
      elim!: catch_all.elims)

end
