(* ===== verification/ElogChannel.thy ===== *)
theory ElogChannel
  imports ElogField Access
begin

text \<open>
  Channels of external logs: src/ELogs/Channel.cpp, the reading of a log line by the regular expression of its channel.
  The regular expressions of the C++ library, the JSON parser, the calendar functions and the list of groups are
  arguments. The administration queries and \<open>testlog\<close>, which is \<open>Channel_new\<close> followed by \<open>ParseLog\<close>, are not modelled.
\<close>

section \<open>Channels\<close>

record elog_env =
  regex_error :: "string \<Rightarrow> string option"
  regex_search :: "string \<Rightarrow> string \<Rightarrow> string list option"
  parse_json :: "string \<Rightarrow> json option"
  date_now :: string
  parse_date :: "string \<Rightarrow> string \<Rightarrow> string option"
  known_group :: "nat \<Rightarrow> bool"

record channel =
  c_id :: nat
  c_group :: nat
  c_name :: string
  c_regex :: string
  date_format :: string
  date_idx :: int
  crit :: "int option"
  crit_idx :: int
  group_fields_idx :: "(string, int) smap"
  fields_idx :: "(string, int) smap"

definition CheckChannelName :: "string \<Rightarrow> bool" where
  "CheckChannelName name \<longleftrightarrow> name \<noteq> [] \<and> length name \<le> 32 \<and>
     list_all (\<lambda>c. isalnum c \<or> c = CHR ''_'' \<or> c = CHR ''-'') name"

definition channel_context :: "string \<Rightarrow> string" where
  "channel_context name = ''Channel '' @ [CHR 0xC2, CHR 0xAB] @ name @ [CHR 0xC2, CHR 0xBB]"

definition invalid :: "string \<Rightarrow> string \<Rightarrow> 'a res" where
  "invalid context e = Inl (Exn context e ''INVALID_PARAMETER'')"

definition guard :: "bool \<Rightarrow> string \<Rightarrow> string \<Rightarrow> unit res" where
  "guard b context e = (if b then Inr () else invalid context e)"

definition check_int_field :: "json \<Rightarrow> string \<Rightarrow> bool res" where
  "check_int_field j name =
     (if \<not> contains j name then Inr True
      else bindr (member j name) (\<lambda>v.
        if \<not> is_unsigned v then invalid ''Channel'' (''Attribute '' @ name @ '' must be an integer'') else Inr True))"

definition check_matches :: "json \<Rightarrow> string \<Rightarrow> unit res" where
  "check_matches j name =
     (if \<not> contains j name then Inr ()
      else bindr (member j name) (\<lambda>m. bindr (members m) (\<lambda>ms. bindr (mapr (\<lambda>(k, v). check_int_field m k) ms) (\<lambda>_. Inr ()))))"

text \<open>\<open>create_edit_check\<close>; the id -1 stands for no group.\<close>

definition check_crit :: "string \<Rightarrow> json \<Rightarrow> unit res" where
  "check_crit ctx j = bindr (member j ''crit'') (\<lambda>v.
     if is_string v then bindr (as_string v) (\<lambda>s. bindr (PackCrit s) (\<lambda>_. Inr ()))
     else guard (is_unsigned v) ctx ''crit attribute must be an integer or a string'')"

definition check_date :: "string \<Rightarrow> json \<Rightarrow> unit res" where
  "check_date ctx j = bindr (member j ''date_format'') (\<lambda>v.
     if v = JString ''auto'' then Inr ()
     else bindr (guard (contains j ''date_field'') ctx ''date_field must be provided if date format is not automatic'') (\<lambda>_.
       bindr (check_int_field j ''date_field'') (\<lambda>_. Inr ())))"

definition channel_check :: "elog_env \<Rightarrow> string \<Rightarrow> nat \<Rightarrow> string \<Rightarrow> unit res" where
  "channel_check env name group_id config =
     (let ctx = channel_context name in
      bindr (guard (CheckChannelName name) ctx ''Invalid channel name'') (\<lambda>_.
      bindr (if group_id = 2 ^ 32 - 1 \<or> known_group env group_id then Inr ()
             else Inl (Exn ''API'' (''Unknown ChannelGroup ID : '' @ show_nat group_id) ''UNKNOWN_OBJECT'')) (\<lambda>_.
      bindr (guard (config \<noteq> []) ctx ''Empty config'') (\<lambda>_.
      case parse_json env config of
        None \<Rightarrow> invalid ctx ''Invalid configuration json''
      | Some j \<Rightarrow>
          bindr (guard (contains j ''regex'') ctx ''Missing regex attribute in config'') (\<lambda>_.
          bindr (bindr (member j ''regex'') as_string) (\<lambda>re.
          bindr (guard (re \<noteq> []) ctx ''Empty regex'') (\<lambda>_.
          bindr (case regex_error env re of Some e \<Rightarrow> invalid ctx (''Invalid regex : '' @ e) | None \<Rightarrow> Inr ()) (\<lambda>_.
          bindr (guard (contains j ''date_format'') ctx ''Missing date_format attribute in config'') (\<lambda>_.
          bindr (member j ''date_format'') (\<lambda>df.
          bindr (guard (is_string df \<and> df \<noteq> JString []) ctx ''date_format attribute must be a non empty string'') (\<lambda>_.
          bindr (check_date ctx j) (\<lambda>_.
          bindr (guard (contains j ''crit'') ctx ''Missing crit attribute in config'') (\<lambda>_.
          bindr (check_crit ctx j) (\<lambda>_.
          bindr (check_matches j ''group_matches'') (\<lambda>_. check_matches j ''matches'')))))))))))))))"

text \<open>\<open>get_log_idx\<close>, and the loops that fill the two maps.\<close>

definition get_log_idx :: "json \<Rightarrow> string \<Rightarrow> int res" where
  "get_log_idx j name =
     (if \<not> contains j name then Inr (- 1)
      else bindr (member j name) (\<lambda>v. if is_unsigned v then as_int v else Inr (- 1)))"

definition index_map :: "json \<Rightarrow> string \<Rightarrow> (string, int) smap res" where
  "index_map j name = bindr (member j name) (\<lambda>m. bindr (members m) (\<lambda>ms.
     bindr (mapr (\<lambda>(k, v). bindr (get_log_idx m k) (\<lambda>i. Inr (k, i))) ms) (\<lambda>ps. Inr (foldl (\<lambda>t (k, i). smap_put t k i) [] ps))))"

definition Channel_new :: "elog_env \<Rightarrow> nat \<Rightarrow> nat \<Rightarrow> string \<Rightarrow> string \<Rightarrow> channel res" where
  "Channel_new env cid group_id name config =
     (let ctx = channel_context name in
      case parse_json env config of
        None \<Rightarrow> Inl (Exn ctx ''invalid config json'' [])
      | Some j \<Rightarrow>
          bindr (catch_all (bindr (bindr (member j ''regex'') as_string) (\<lambda>re. if regex_error env re = None then Inr re else Inl (StdExn ''regex_error'')))
             (Inl (Exn ctx ''invalid regex'' []))) (\<lambda>re.
          bindr (channel_check env name group_id config) (\<lambda>_.
          bindr (bindr (member j ''date_format'') as_string) (\<lambda>df.
          bindr (if df \<noteq> ''auto'' then bindr (member j ''date_field'') as_int else Inr 0) (\<lambda>di.
          bindr (member j ''crit'') (\<lambda>cv.
          bindr (if is_string cv then bindr (bindr (as_string cv) PackCrit) (\<lambda>c. Inr (Some c, - 1)) else bindr (as_int cv) (\<lambda>i. Inr (None, i))) (\<lambda>(c, ci).
          bindr (index_map j ''group_matches'') (\<lambda>gi.
          bindr (index_map j ''matches'') (\<lambda>fi.
            Inr \<lparr>c_id = cid, c_group = group_id, c_name = name, c_regex = re, date_format = df, date_idx = di, crit = c, crit_idx = ci,
              group_fields_idx = gi, fields_idx = fi\<rparr>)))))))))"

section \<open>Reading a line\<close>

type_synonym log_fields = "(string, string) smap"

definition get_log_part :: "string list \<Rightarrow> string \<Rightarrow> int \<Rightarrow> log_fields \<Rightarrow> log_fields res" where
  "get_log_part matches name idx m =
     (if idx < 0 then Inr m
      else if nat idx > length matches - 1
      then Inl (Exn ''Channel'' (''could not extract '' @ [CHR 0x27] @ name @ [CHR 0x27] @ '' field as group '' @ to_string idx @ '' has not been matched'') [])
      else Inr (smap_put m name (matches ! nat idx)))"

fun get_log_parts :: "string list \<Rightarrow> (string \<times> int) list \<Rightarrow> log_fields \<Rightarrow> log_fields res" where
  "get_log_parts matches [] m = Inr m"
| "get_log_parts matches ((name, idx) # is) m = bindr (get_log_part matches name idx m) (get_log_parts matches is)"

definition log_date :: "elog_env \<Rightarrow> channel \<Rightarrow> string list \<Rightarrow> log_fields res" where
  "log_date env c matches =
     (if date_format c = ''auto'' then Inr (smap_put [] ''date'' (date_now env))
      else bindr (get_log_part matches ''date'' (date_idx c) []) (\<lambda>m.
        let raw = (case smap_find m ''date'' of Some d \<Rightarrow> d | None \<Rightarrow> []) in
        case parse_date env raw (date_format c) of
          None \<Rightarrow> Inl (Exn ''Utils::Date'' (''Unable to parse date : '' @ raw) [])
        | Some d \<Rightarrow> Inr (smap_put m ''date'' d)))"

definition log_crit :: "channel \<Rightarrow> string list \<Rightarrow> log_fields \<Rightarrow> log_fields res" where
  "log_crit c matches m =
     (if crit_idx c < 0
      then (case crit c of None \<Rightarrow> Inl (UB ''uninitialised crit'') | Some i \<Rightarrow> bindr (UnpackCrit i) (\<lambda>s. Inr (smap_put m ''crit'' s)))
      else if nat (crit_idx c) \<ge> length matches then Inl (Exn ''Channel'' ''Unable to extract crit from log'' [])
      else let s = matches ! nat (crit_idx c) in bindr (PackCrit s) (\<lambda>i. Inr (if i > 0 then smap_put m ''crit'' s else m)))"

definition ParseLog :: "elog_env \<Rightarrow> channel \<Rightarrow> string \<Rightarrow> (log_fields \<times> log_fields) res" where
  "ParseLog env c line = (case regex_search env (c_regex c) line of
       None \<Rightarrow> Inl (Exn ''Channel'' (''unable to match log message for channel '' @ [CHR 0xC2, CHR 0xAB] @ c_name c @ [CHR 0xC2, CHR 0xBB]) [])
     | Some matches \<Rightarrow>
         bindr (log_date env c matches) (\<lambda>m.
         bindr (log_crit c matches m) (\<lambda>m.
         bindr (get_log_parts matches (group_fields_idx c) m) (\<lambda>gf.
         bindr (get_log_parts matches (fields_idx c) []) (\<lambda>cf. Inr (gf, cf))))))"

section \<open>What a configuration that was accepted ensures\<close>

definition channel_ok :: "channel \<Rightarrow> bool" where
  "channel_ok c \<longleftrightarrow> smap_inv (group_fields_idx c) \<and> smap_inv (fields_idx c) \<and> (crit_idx c < 0 \<longrightarrow> crit c \<noteq> None)"

lemma get_log_part_not_ub: "\<not> is_ub (get_log_part ms n i m)"
  by (simp add: get_log_part_def)

lemma get_log_parts_not_ub: "\<not> is_ub (get_log_parts ms is m)"
proof (induction ms "is" m rule: get_log_parts.induct)
  case (2 ms name idx "is" m)
  then show ?case using get_log_part_not_ub [of ms name idx m] by (cases "get_log_part ms name idx m") auto
qed simp

lemma is_ub_bindr: "is_ub (bindr m f) \<longleftrightarrow> is_ub m \<or> (\<exists>x. m = Inr x \<and> is_ub (f x))"
  by (cases m) (auto simp: is_ub_def split: fault.splits)

lemma PackCrit_not_ub [simp]: "\<not> is_ub (PackCrit s)"
  by (simp add: PackCrit_def)

lemma UnpackCrit_not_ub [simp]: "\<not> is_ub (UnpackCrit i)"
  by (simp add: UnpackCrit_def)

lemma log_crit_not_ub: "channel_ok c \<Longrightarrow> \<not> is_ub (log_crit c ms m)"
  by (auto simp: log_crit_def channel_ok_def is_ub_bindr Let_def)

lemma log_date_not_ub: "\<not> is_ub (log_date env c ms)"
  by (simp add: log_date_def is_ub_bindr get_log_part_not_ub Let_def split: option.splits)

lemma ParseLog_not_ub: "channel_ok c \<Longrightarrow> \<not> is_ub (ParseLog env c line)"
  by (simp add: ParseLog_def is_ub_bindr log_crit_not_ub log_date_not_ub get_log_parts_not_ub split: option.splits)

text \<open>The date and the criticality survive the other fields.\<close>

lemma get_log_parts_keys: "get_log_parts ms is m = Inr m' \<Longrightarrow> smap_inv m \<Longrightarrow> smap_inv m' \<and> (smap_find m k \<noteq> None \<longrightarrow> smap_find m' k \<noteq> None)"
proof (induction ms "is" m arbitrary: m' rule: get_log_parts.induct)
  case (2 ms name idx "is" m)
  then obtain x where x: "get_log_part ms name idx m = Inr x" "get_log_parts ms is x = Inr m'" by (auto simp: bindr_eq_Inr)
  then have "smap_inv x \<and> (smap_find m k \<noteq> None \<longrightarrow> smap_find x k \<noteq> None)"
    using "2.prems"(2) by (auto simp: get_log_part_def smap_inv_put smap_find_put split: if_splits)
  then show ?case using "2.IH" [OF x] by blast
qed simp

lemma ParseLog_date:
  assumes "ParseLog env c line = Inr (gf, cf)"
  shows "smap_inv gf \<and> smap_inv cf \<and> smap_find gf ''date'' \<noteq> None"
proof -
  obtain ms m m2 where m: "log_date env c ms = Inr m" "log_crit c ms m = Inr m2" "get_log_parts ms (group_fields_idx c) m2 = Inr gf"
    "get_log_parts ms (fields_idx c) [] = Inr cf"
    using assms by (auto simp: ParseLog_def bindr_eq_Inr split: option.splits)
  have e: "smap_inv ([] :: log_fields)" "smap_inv [(k, v)]" for k v :: string by (simp_all add: smap_inv_def)
  have "smap_inv m \<and> smap_find m ''date'' \<noteq> None" using m(1) e
    by (auto simp: log_date_def get_log_part_def bindr_eq_Inr Let_def smap_inv_put smap_find_put split: if_splits option.splits)
  then have "smap_inv m2 \<and> smap_find m2 ''date'' \<noteq> None" using m(2)
    by (auto simp: log_crit_def Let_def bindr_eq_Inr smap_inv_put smap_find_put split: if_splits option.splits)
  then show ?thesis using get_log_parts_keys [OF m(3)] get_log_parts_keys [OF m(4) e(1)] by blast
qed

end
