(* ===== verification/ElogStore.thy ===== *)
theory ElogStore
  imports ElogChannel SqlClient
begin

text \<open>
  The storage of external logs: src/ELogs/LogStorage.cpp. A batch of lines is parsed, each by its channel, and turned
  into the rows of seven bulk insertions, one for each table. The expression that finds the name of the channel is a
  constant of the source and is written out (\<open>search_channel\<close>). Arguments are the lists of channels and groups, the
  number of days of a date (\<open>DB::TO_DAYS\<close>), the digest of a text and the answers of the database to \<open>ALTER TABLE\<close>.
\<close>

section \<open>State\<close>

record store_env =
  el :: elog_env
  inet_of :: inet
  same_text :: "string \<Rightarrow> string \<Rightarrow> bool"
  sha1_binary :: "string \<Rightarrow> string"
  to_days :: "string \<Rightarrow> int"
  channel_list :: "channel object_list"
  group_fields :: "nat \<Rightarrow> (string, field) smap option"
  channel_fields :: "nat \<Rightarrow> (string, field) smap"
  alter_error :: "string \<Rightarrow> string \<Rightarrow> nat \<Rightarrow> string option"

record storage =
  bulks :: "(int, bulk_query) smap"
  next_log_id :: nat
  last_partition_days :: nat
  alters :: "(string \<times> string \<times> nat) list"
  dict :: dictionary
  errors :: "string list"

fun bulk_id :: "field_type \<Rightarrow> int" where
  "bulk_id F_NONE = 0"
| "bulk_id F_CHAR = 1"
| "bulk_id F_INT = 2"
| "bulk_id F_IP = 3"
| "bulk_id F_PACK = 4"
| "bulk_id F_TEXT = 5"
| "bulk_id F_ITEXT = 6"

section \<open>The channel of a line\<close>

definition is_name_char :: "char \<Rightarrow> bool" where
  "is_name_char c \<longleftrightarrow> isalnum c \<or> c = CHR ''_'' \<or> c = CHR ''-''"

text \<open>The first match of \<open>([a-zA-Z0-9_-]+)[ ]+\<close>: the whole match and the name.\<close>

function search_channel :: "string \<Rightarrow> (string \<times> string) option" where
  "search_channel s =
     (let r = dropWhile (\<lambda>c. \<not> is_name_char c) s in
      if r = [] then None
      else let n = takeWhile is_name_char r; t = dropWhile is_name_char r; b = takeWhile (\<lambda>c. c = CHR '' '') t in
        if b \<noteq> [] then Some (n @ b, n) else search_channel t)"
  by pat_completeness auto

termination
proof (relation "measure length", simp, goal_cases)
  case (1 s r n t b)
  have "is_name_char (hd r)" using 1 hd_dropWhile [of "\<lambda>c. \<not> is_name_char c" s] by auto
  moreover obtain x xs where r: "r = x # xs" using 1(2) by (cases r) auto
  ultimately have "t = dropWhile is_name_char xs" using 1(1,4) by simp
  then have "length t < length r" using r by (simp add: le_imp_less_Suc length_dropWhile_le)
  moreover have "length r \<le> length s" using 1 by (simp add: length_dropWhile_le)
  ultimately show ?case by simp
qed

declare search_channel.simps [simp del]

section \<open>Rows\<close>

definition push :: "field_type \<Rightarrow> bulk_value list \<Rightarrow> storage \<Rightarrow> storage" where
  "push t vs st = st\<lparr>bulks := foldl (\<lambda>bs v. BulkData (bulk_id t) v bs) (bulks st) vs\<rparr>"

definition log_value :: "store_env \<Rightarrow> nat \<Rightarrow> field \<Rightarrow> string \<Rightarrow> string \<Rightarrow> storage \<Rightarrow> unit res \<times> storage" where
  "log_value env log_id f date value st =
     (let t = f_type f in
      case Pack (inet_of env) (same_text env) t value (dict st) of
        (Inl e, d) \<Rightarrow> (Inl e, st\<lparr>dict := d\<rparr>)
      | (Inr p, d) \<Rightarrow>
          (let s = (case p of PStr s \<Rightarrow> s | _ \<Rightarrow> []);
               i = (case p of PInt i \<Rightarrow> i | _ \<Rightarrow> 0);
               vs = (if t = F_ITEXT then [VString (take 65535 s), VString (sha1_binary env s)]
                     else if t = F_TEXT then [VString (take 65535 s)]
                     else if t = F_CHAR then [VString (take 128 s)]
                     else if GetDBType t = ''%i'' then [VInt (word_of_int i)]
                     else if GetDBType t = ''%s'' then [VString s] else [])
           in (Inr (), push t ([VLong (word_of_nat log_id), VInt (word_of_nat (field_id f)), VString date] @ vs) (st\<lparr>dict := d\<rparr>))))"

definition get_field :: "(string, field) smap \<Rightarrow> string \<Rightarrow> field res" where
  "get_field fs name = (case smap_find fs name of
       None \<Rightarrow> Inl (Exn ''Fields'' (''Unknown field name : '' @ name) [])
     | Some f \<Rightarrow> Inr f)"

fun log_values :: "store_env \<Rightarrow> nat \<Rightarrow> (string, field) smap \<Rightarrow> string \<Rightarrow> (string \<times> string) list \<Rightarrow> storage \<Rightarrow> unit res \<times> storage" where
  "log_values env log_id fs date [] st = (Inr (), st)"
| "log_values env log_id fs date ((name, value) # vs) st = (case get_field fs name of
       Inl e \<Rightarrow> (Inl e, st)
     | Inr f \<Rightarrow> (case log_value env log_id f date value st of
           (Inl e, st') \<Rightarrow> (Inl e, st')
         | (Inr u, st') \<Rightarrow> log_values env log_id fs date vs st'))"

definition partitioned :: "string list" where
  "partitioned = [''t_log'', ''t_value_char'', ''t_value_text'', ''t_value_itext'', ''t_value_ip'', ''t_value_int'', ''t_value_pack'']"

fun alter_tables :: "store_env \<Rightarrow> string \<Rightarrow> nat \<Rightarrow> string list \<Rightarrow> storage \<Rightarrow> unit res \<times> storage" where
  "alter_tables env part days [] st = (Inr (), st)"
| "alter_tables env part days (t # ts) st = (case alter_error env t part days of
       Some e \<Rightarrow> (Inl (DB_error e), st)
     | None \<Rightarrow> alter_tables env part days ts (st\<lparr>alters := alters st @ [(t, part, days)]\<rparr>))"

text \<open>\<open>date.substr(5, 2)\<close> and \<open>date.substr(8, 2)\<close> raise when the text is too short.\<close>

definition create_partition :: "store_env \<Rightarrow> string \<Rightarrow> storage \<Rightarrow> unit res \<times> storage" where
  "create_partition env date st =
     (if length date < 8 then (Inl (StdExn ''out_of_range''), st)
      else let part = ''p'' @ substr date 0 4 @ substr date 5 2 @ substr date 8 2; days = to_unsigned (to_days env date + 1) in
        if days \<le> last_partition_days st then (Inr (), st)
        else (case alter_tables env part days partitioned st of
            (Inl e, st') \<Rightarrow> (Inl e, st')
          | (Inr u, st') \<Rightarrow> (Inr (), st'\<lparr>last_partition_days := days\<rparr>)))"

definition log_row :: "nat \<Rightarrow> nat \<Rightarrow> string \<Rightarrow> int \<Rightarrow> bulk_value list" where
  "log_row log_id channel_id date k = [VLong (word_of_nat log_id), VInt (word_of_nat channel_id), VString date, VInt (word_of_int k)]"

definition store_fields :: "store_env \<Rightarrow> channel \<Rightarrow> (string, field) smap \<Rightarrow> nat \<Rightarrow> string \<Rightarrow> log_fields \<Rightarrow> log_fields \<Rightarrow> storage \<Rightarrow> unit res \<times> storage" where
  "store_fields env c gfs log_id date gf cf st =
     (case log_values env log_id gfs date (filter (\<lambda>(n, v). n \<noteq> ''date'' \<and> n \<noteq> ''crit'') gf) st of
        (Inl e, st') \<Rightarrow> (Inl e, st')
      | (Inr u, st') \<Rightarrow> log_values env log_id (channel_fields env (c_id c)) date cf st')"

definition store_log :: "store_env \<Rightarrow> channel \<Rightarrow> log_fields \<Rightarrow> log_fields \<Rightarrow> storage \<Rightarrow> unit res \<times> storage" where
  "store_log env c gf cf st = (case group_fields env (c_group c) of
       None \<Rightarrow> (Inl (Exn ''API'' (''Unknown ChannelGroup ID : '' @ show_nat (c_group c)) ''UNKNOWN_OBJECT''), st)
     | Some gfs \<Rightarrow>
        (let log_id = next_log_id st; st = st\<lparr>next_log_id := Suc log_id\<rparr> in
         case smap_find gf ''date'' of
           None \<Rightarrow> (Inl (UB ''end iterator''), st)
         | Some date \<Rightarrow>
            (case (if to_unsigned (to_days env date) \<ge> last_partition_days st then create_partition env date st else (Inr (), st)) of
               (Inl e, st) \<Rightarrow> (Inl e, st)
             | (Inr u, st) \<Rightarrow>
                (case smap_find gf ''crit'' of
                   None \<Rightarrow> (Inl (UB ''end iterator''), st)
                 | Some cr \<Rightarrow> (case PackCrit cr of
                       Inl e \<Rightarrow> (Inl e, push F_NONE (take 3 (log_row log_id (c_id c) date 0)) st)
                     | Inr k \<Rightarrow> store_fields env c gfs log_id date gf cf (push F_NONE (log_row log_id (c_id c) date k) st))))))"

section \<open>A batch\<close>

definition log_line :: "store_env \<Rightarrow> string \<Rightarrow> storage \<Rightarrow> unit res \<times> storage" where
  "log_line env line st = (case search_channel line of
       None \<Rightarrow> (Inl (Exn ''LogStorage'' ''unable to get log message channel'' []), st)
     | Some (whole, name) \<Rightarrow> (case GetByName (channel_list env) name of
           Inl e \<Rightarrow> (Inl e, st)
         | Inr c \<Rightarrow> (case ParseLog (el env) c (drop (length whole) line) of
               Inl e \<Rightarrow> (Inl e, st)
             | Inr (gf, cf) \<Rightarrow> store_log env c gf cf st)))"

text \<open>An \<open>Exception\<close> is logged and the next line is read; nothing else is caught.\<close>

fun log_lines :: "store_env \<Rightarrow> string list \<Rightarrow> storage \<Rightarrow> unit res \<times> storage" where
  "log_lines env [] st = (Inr (), st)"
| "log_lines env (l # ls) st = (case log_line env l st of
       (Inr u, st') \<Rightarrow> log_lines env ls st'
     | (Inl (Exn ctx e k), st') \<Rightarrow> log_lines env ls (st'\<lparr>errors := errors st' @ [e]\<rparr>)
     | (Inl f, st') \<Rightarrow> (Inl f, st'))"

definition value_columns :: string where
  "value_columns = ''log_id, field_id, log_date, value''"

definition start_bulks :: "(int, bulk_query) smap \<Rightarrow> (int, bulk_query) smap" where
  "start_bulks bs =
     BulkStart (bulk_id F_ITEXT) ''t_value_itext'' ''log_id, field_id, log_date, value, value_sha1'' 5
     (BulkStart (bulk_id F_TEXT) ''t_value_text'' value_columns 4
     (BulkStart (bulk_id F_PACK) ''t_value_pack'' value_columns 4
     (BulkStart (bulk_id F_IP) ''t_value_ip'' value_columns 4
     (BulkStart (bulk_id F_INT) ''t_value_int'' value_columns 4
     (BulkStart (bulk_id F_CHAR) ''t_value_char'' value_columns 4
     (BulkStart (bulk_id F_NONE) ''t_log'' ''log_id, channel_id, log_date, log_crit'' 4 bs))))))"

text \<open>The first half of \<open>log\<close>: \<open>first\<close> is what the sequence gave, as many ids as there are lines.\<close>

definition log_batch :: "store_env \<Rightarrow> nat \<Rightarrow> string list \<Rightarrow> storage \<Rightarrow> unit res \<times> storage" where
  "log_batch env first ls st = log_lines env ls (st\<lparr>next_log_id := first, bulks := start_bulks (bulks st)\<rparr>)"

text \<open>The second half: the insertions in one transaction, up to the first that fails.\<close>

fun exec_bulks :: "(string \<Rightarrow> string) \<Rightarrow> nat \<Rightarrow> server \<Rightarrow> field_type list \<Rightarrow> conn \<Rightarrow> unit res \<times> conn" where
  "exec_bulks esc d srv [] c = (Inr (), c)"
| "exec_bulks esc d srv (t # ts) c = (case BulkExec esc d srv (bulk_id t) c of
       (Inl e, c') \<Rightarrow> (Inl e, c')
     | (Inr u, c') \<Rightarrow> exec_bulks esc d srv ts c')"

definition bulk_order :: "field_type list" where
  "bulk_order = [F_NONE, F_CHAR, F_INT, F_IP, F_PACK, F_TEXT, F_ITEXT]"

definition insert_batch :: "(string \<Rightarrow> string) \<Rightarrow> nat \<Rightarrow> server \<Rightarrow> (int, bulk_query) smap \<Rightarrow> conn \<Rightarrow> unit res \<times> conn" where
  "insert_batch esc d srv bs c = (case StartTransaction d srv (c\<lparr>bulk_queries := bs\<rparr>) of
       (Inl e, c1) \<Rightarrow> (Inl e, c1)
     | (Inr u, c1) \<Rightarrow> (case exec_bulks esc d srv bulk_order c1 of
           (Inl (Exn ctx e k), c2) \<Rightarrow> CommitTransaction d srv c2
         | (Inl f, c2) \<Rightarrow> (Inl f, c2)
         | (Inr v, c2) \<Rightarrow> CommitTransaction d srv c2))"

section \<open>Rows are complete\<close>

fun columns :: "field_type \<Rightarrow> nat" where
  "columns F_ITEXT = 5"
| "columns t = 4"

definition values_of :: "storage \<Rightarrow> field_type \<Rightarrow> bulk_value list" where
  "values_of st t = bq_values (bulk_at (bulk_id t) (bulks st))"

lemma bulk_id_inj [simp]: "bulk_id t = bulk_id u \<longleftrightarrow> t = u"
  by (cases t; cases u) simp_all

lemma BulkData_at:
  "smap_inv bs \<Longrightarrow> bulk_at j (BulkData i v bs) = (if j = i then (bulk_at i bs)\<lparr>bq_values := bq_values (bulk_at i bs) @ [v]\<rparr> else bulk_at j bs)"
  by (simp add: BulkData_def bulk_at_def Let_def smap_find_put)

lemma BulkData_inv: "smap_inv bs \<Longrightarrow> smap_inv (BulkData i v bs)"
  by (simp add: BulkData_def Let_def smap_inv_put)

lemma push_all:
  "smap_inv bs \<Longrightarrow> smap_inv (foldl (\<lambda>bs v. BulkData i v bs) bs vs) \<and>
     (\<forall>j. bulk_at j (foldl (\<lambda>bs v. BulkData i v bs) bs vs) =
       (if j = i then (bulk_at i bs)\<lparr>bq_values := bq_values (bulk_at i bs) @ vs\<rparr> else bulk_at j bs))"
proof (induction vs arbitrary: bs)
  case (Cons v vs)
  from Cons.IH [OF BulkData_inv [OF Cons.prems, of i v]] show ?case by (auto simp: BulkData_at [OF Cons.prems])
qed simp

lemma push_simps [simp]:
  "next_log_id (push t vs st) = next_log_id st" "dict (push t vs st) = dict st" "last_partition_days (push t vs st) = last_partition_days st"
  by (simp_all add: push_def)

lemma push_values:
  "smap_inv (bulks st) \<Longrightarrow> smap_inv (bulks (push t vs st)) \<and> values_of (push t vs st) u = (if u = t then values_of st t @ vs else values_of st u) \<and>
     ncolumns (bulk_at (bulk_id u) (bulks (push t vs st))) = ncolumns (bulk_at (bulk_id u) (bulks st))"
  using push_all [of "bulks st" "bulk_id t" vs] by (auto simp: push_def values_of_def)

text \<open>
  The log rows are complete and their ids increase; the rows of values are complete and belong to a log row of the batch.
\<close>

definition value_rows :: "nat set \<Rightarrow> nat \<Rightarrow> bulk_value list \<Rightarrow> bool" where
  "value_rows ids k vs \<longleftrightarrow> (\<exists>rs. vs = concat rs \<and> (\<forall>r \<in> set rs. length r = k \<and> (\<exists>i \<in> ids. r ! 0 = VLong (word_of_nat i))))"

definition log_rows :: "(nat \<times> nat \<times> string \<times> int) list \<Rightarrow> bulk_value list" where
  "log_rows ls = concat (map (\<lambda>(i, c, d, k). log_row i c d k) ls)"

definition rows_ok :: "nat \<Rightarrow> (nat \<times> nat \<times> string \<times> int) list \<Rightarrow> storage \<Rightarrow> bool" where
  "rows_ok lo ls st \<longleftrightarrow> smap_inv (bulks st) \<and> (\<forall>t. ncolumns (bulk_at (bulk_id t) (bulks st)) = columns t) \<and> lo \<le> next_log_id st \<and>
     values_of st F_NONE = log_rows ls \<and> sorted_wrt (<) (map fst ls) \<and> (\<forall>i \<in> set (map fst ls). lo \<le> i \<and> i < next_log_id st) \<and>
     (\<forall>t. t \<noteq> F_NONE \<longrightarrow> value_rows (set (map fst ls)) (columns t) (values_of st t))"

lemma value_rows_mono: "value_rows a k vs \<Longrightarrow> a \<subseteq> b \<Longrightarrow> value_rows b k vs"
  unfolding value_rows_def by blast

lemma value_rows_add:
  assumes "value_rows a k vs" "length r = k" "r ! 0 = VLong (word_of_nat i)" "i \<in> a"
  shows "value_rows a k (vs @ r)"
proof -
  obtain rs where "vs = concat rs" "\<forall>r \<in> set rs. length r = k \<and> (\<exists>i \<in> a. r ! 0 = VLong (word_of_nat i))"
    using assms(1) by (auto simp: value_rows_def)
  then show ?thesis using assms(2-) unfolding value_rows_def by (intro exI [of _ "rs @ [r]"]) auto
qed

lemma rows_ok_cong:
  "rows_ok lo ls st \<Longrightarrow> bulks st' = bulks st \<Longrightarrow> next_log_id st \<le> next_log_id st' \<Longrightarrow> rows_ok lo ls st'"
  unfolding rows_ok_def values_of_def by auto

text \<open>Pushing the log row of a new id, and a row of values of an id that has its log row.\<close>

lemma push_log_row:
  assumes "rows_ok lo ls st" "\<forall>j \<in> set (map fst ls). j < i" "lo \<le> i" "i < next_log_id st"
  shows "rows_ok lo (ls @ [(i, c, d, k)]) (push F_NONE (log_row i c d k) st)"
proof -
  have p: "smap_inv (bulks (push F_NONE (log_row i c d k) st)) \<and>
      values_of (push F_NONE (log_row i c d k) st) u = (if u = F_NONE then values_of st F_NONE @ log_row i c d k else values_of st u) \<and>
      ncolumns (bulk_at (bulk_id u) (bulks (push F_NONE (log_row i c d k) st))) = columns u" for u
    using push_values [of st F_NONE "log_row i c d k"] assms(1) by (simp add: rows_ok_def)
  then show ?thesis using assms
    by (auto simp: rows_ok_def log_rows_def sorted_wrt_append intro: value_rows_mono)
qed

lemma push_value_row:
  assumes "rows_ok lo ls st" "t \<noteq> F_NONE" "length r = columns t" "r ! 0 = VLong (word_of_nat i)" "i \<in> set (map fst ls)"
  shows "rows_ok lo ls (push t r st)"
proof -
  have p: "smap_inv (bulks (push t r st)) \<and> values_of (push t r st) u = (if u = t then values_of st t @ r else values_of st u) \<and>
      ncolumns (bulk_at (bulk_id u) (bulks (push t r st))) = columns u" for u
    using push_values [of st t r] assms(1) by (simp add: rows_ok_def)
  have "value_rows (set (map fst ls)) (columns t) (values_of st t @ r)"
    using assms by (intro value_rows_add) (auto simp: rows_ok_def)
  then show ?thesis using p assms unfolding rows_ok_def by auto
qed

definition typed :: "(string, field) smap \<Rightarrow> bool" where
  "typed fs \<longleftrightarrow> list_all (\<lambda>(n, f). f_type f \<noteq> F_NONE) fs"

lemma typed_find: "typed fs \<Longrightarrow> smap_find fs n = Some f \<Longrightarrow> f_type f \<noteq> F_NONE"
  by (auto simp: typed_def list_all_iff smap_find_map_of dest!: map_of_SomeD)

lemma log_value_rows:
  assumes "rows_ok lo ls st" "f_type f \<noteq> F_NONE" "i \<in> set (map fst ls)"
  shows "rows_ok lo ls (snd (log_value env i f date v st)) \<and> next_log_id (snd (log_value env i f date v st)) = next_log_id st"
proof -
  obtain r d where r: "Pack (inet_of env) (same_text env) (f_type f) v (dict st) = (r, d)" by fastforce
  have st: "rows_ok lo ls (st\<lparr>dict := d\<rparr>)" by (rule rows_ok_cong [OF assms(1)]) simp_all
  show ?thesis
  proof (cases r)
    case (Inr p)
    then show ?thesis using push_value_row [OF st assms(2) _ _ assms(3)] r assms(2)
      by (cases "f_type f") (simp_all add: log_value_def Let_def)
  qed (use r st in \<open>simp add: log_value_def Let_def\<close>)
qed

lemma log_values_rows:
  "rows_ok lo ls st \<Longrightarrow> typed fs \<Longrightarrow> i \<in> set (map fst ls) \<Longrightarrow>
   rows_ok lo ls (snd (log_values env i fs date vs st)) \<and> next_log_id (snd (log_values env i fs date vs st)) = next_log_id st"
proof (induction vs arbitrary: st)
  case (Cons nv vs)
  obtain n v where nv: "nv = (n, v)" by fastforce
  show ?case
  proof (cases "smap_find fs n")
    case (Some f)
    obtain r st' where r: "log_value env i f date v st = (r, st')" by fastforce
    have "f_type f \<noteq> F_NONE" using typed_find [OF Cons.prems(2) Some] .
    from log_value_rows [OF Cons.prems(1) this Cons.prems(3), of env date v] r
    have st': "rows_ok lo ls st'" "next_log_id st' = next_log_id st" by simp_all
    show ?thesis using Cons.IH [OF st'(1) Cons.prems(2,3)] st' by (cases r) (simp_all add: nv get_field_def Some r)
  qed (use Cons.prems nv in \<open>simp add: get_field_def\<close>)
qed simp

lemma alter_tables_keeps: "bulks (snd (alter_tables env part days ts st)) = bulks st \<and> next_log_id (snd (alter_tables env part days ts st)) = next_log_id st"
  by (induction ts arbitrary: st) (simp_all split: option.splits)

lemma create_partition_keeps: "bulks (snd (create_partition env date st)) = bulks st \<and> next_log_id (snd (create_partition env date st)) = next_log_id st"
proof -
  let ?a = "alter_tables env (''p'' @ substr date 0 4 @ substr date 5 2 @ substr date 8 2) (to_unsigned (to_days env date + 1)) partitioned st"
  have "bulks (snd ?a) = bulks st \<and> next_log_id (snd ?a) = next_log_id st" by (rule alter_tables_keeps)
  then show ?thesis by (cases ?a) (auto simp: create_partition_def Let_def split: sum.splits)
qed

text \<open>The criticality that was read is one of the eight names, unless a field of the group has its name.\<close>

definition plain_channel :: "store_env \<Rightarrow> channel \<Rightarrow> bool" where
  "plain_channel env c \<longleftrightarrow> ''crit'' \<notin> fst ` set (group_fields_idx c) \<and> typed (channel_fields env (c_id c)) \<and>
     (case group_fields env (c_group c) of None \<Rightarrow> True | Some fs \<Rightarrow> typed fs)"

definition plain_channels :: "store_env \<Rightarrow> bool" where
  "plain_channels env \<longleftrightarrow> list_all (\<lambda>(n, c). plain_channel env c) (objects_name (channel_list env))"

definition crit_known :: "log_fields \<Rightarrow> bool" where
  "crit_known m \<longleftrightarrow> (case smap_find m ''crit'' of None \<Rightarrow> True | Some s \<Rightarrow> \<exists>k. PackCrit s = Inr k)"

lemma get_log_parts_other:
  "get_log_parts ms is m = Inr m' \<Longrightarrow> smap_inv m \<Longrightarrow> k \<notin> fst ` set is \<Longrightarrow> smap_find m' k = smap_find m k"
proof (induction ms "is" m arbitrary: m' rule: get_log_parts.induct)
  case (2 ms name idx "is" m)
  then obtain x where x: "get_log_part ms name idx m = Inr x" "get_log_parts ms is x = Inr m'" by (auto simp: bindr_eq_Inr)
  then have "smap_inv x \<and> smap_find x k = smap_find m k"
    using "2.prems"(2,3) by (auto simp: get_log_part_def smap_inv_put smap_find_put split: if_splits)
  then show ?case using "2.IH" [OF x] "2.prems"(3) by simp
qed simp

lemma log_crit_known:
  assumes "log_crit c ms m = Inr m'" "smap_inv m" "smap_find m ''crit'' = None"
  shows "smap_inv m' \<and> crit_known m'"
proof (cases "crit_idx c < 0")
  case True
  then obtain i s where "UnpackCrit i = Inr s" "m' = smap_put m ''crit'' s"
    using assms(1) by (auto simp: log_crit_def bindr_eq_Inr split: option.splits)
  then show ?thesis using assms(2) crit_roundtrip by (auto simp: crit_known_def smap_inv_put smap_find_put)
next
  case False
  then show ?thesis using assms
    by (auto simp: log_crit_def bindr_eq_Inr Let_def crit_known_def smap_inv_put smap_find_put split: if_splits)
qed

lemma ParseLog_crit:
  assumes "ParseLog env c line = Inr (gf, cf)" "''crit'' \<notin> fst ` set (group_fields_idx c)"
  shows "crit_known gf"
proof -
  obtain ms m m2 where m: "log_date env c ms = Inr m" "log_crit c ms m = Inr m2" "get_log_parts ms (group_fields_idx c) m2 = Inr gf"
    using assms by (auto simp: ParseLog_def bindr_eq_Inr split: option.splits)
  have e: "smap_inv ([] :: log_fields)" "smap_inv [(k, v)]" for k v :: string by (simp_all add: smap_inv_def)
  have "smap_inv m \<and> smap_find m ''crit'' = None" using m(1) e
    by (auto simp: log_date_def get_log_part_def bindr_eq_Inr Let_def smap_inv_put smap_find_put split: if_splits option.splits)
  then have "smap_inv m2 \<and> crit_known m2" using log_crit_known [OF m(2)] by simp
  then show ?thesis using get_log_parts_other [OF m(3) _ assms(2)] by (simp add: crit_known_def)
qed

text \<open>A line adds at most one log row, of the id it took.\<close>

definition stored :: "nat \<Rightarrow> nat \<Rightarrow> storage \<Rightarrow> bool" where
  "stored lo n st \<longleftrightarrow> (\<exists>ls. rows_ok lo ls st) \<and> next_log_id st \<le> lo + n"

lemma stored_cong:
  "stored lo n st \<Longrightarrow> bulks st' = bulks st \<Longrightarrow> next_log_id st' = next_log_id st \<Longrightarrow> stored lo n st'"
  unfolding stored_def using rows_ok_cong [of lo _ st st'] by auto

lemma stored_mono: "stored lo n st \<Longrightarrow> n \<le> m \<Longrightarrow> stored lo m st"
  unfolding stored_def by auto

lemma stored_next: "stored lo n st \<Longrightarrow> bulks st' = bulks st \<Longrightarrow> next_log_id st' = Suc (next_log_id st) \<Longrightarrow> stored lo (Suc n) st'"
  unfolding stored_def using rows_ok_cong [of lo _ st st'] by auto

lemma store_fields_rows:
  assumes "rows_ok lo ls st" "typed gfs" "typed (channel_fields env (c_id c))" "i \<in> set (map fst ls)"
  shows "rows_ok lo ls (snd (store_fields env c gfs i date gf cf st)) \<and> next_log_id (snd (store_fields env c gfs i date gf cf st)) = next_log_id st"
proof -
  obtain r st1 where r: "log_values env i gfs date (filter (\<lambda>(n, v). n \<noteq> ''date'' \<and> n \<noteq> ''crit'') gf) st = (r, st1)" by fastforce
  from log_values_rows [OF assms(1,2,4), of env date "filter (\<lambda>(n, v). n \<noteq> ''date'' \<and> n \<noteq> ''crit'') gf"] r
  have st1: "rows_ok lo ls st1" "next_log_id st1 = next_log_id st" by simp_all
  show ?thesis using log_values_rows [OF st1(1) assms(3,4), of env date cf] st1 r by (cases r) (simp_all add: store_fields_def)
qed

lemma store_row:
  assumes st: "rows_ok lo ls st" "\<forall>j \<in> set (map fst ls). j < i" "lo \<le> i" "next_log_id st = Suc i"
    and c: "typed gfs" "typed (channel_fields env (c_id c))"
  shows "\<exists>ls'. rows_ok lo ls' (snd (store_fields env c gfs i date gf cf (push F_NONE (log_row i (c_id c) date k) st))) \<and>
    next_log_id (snd (store_fields env c gfs i date gf cf (push F_NONE (log_row i (c_id c) date k) st))) = Suc i"
proof -
  have "rows_ok lo (ls @ [(i, c_id c, date, k)]) (push F_NONE (log_row i (c_id c) date k) st)"
    using st by (intro push_log_row) simp_all
  from store_fields_rows [OF this c, of i date gf cf] st(4) show ?thesis by auto
qed

lemma store_log_stored:
  assumes "stored lo n st" "plain_channel env c" "crit_known gf"
  shows "stored lo (Suc n) (snd (store_log env c gf cf st))"
proof (cases "group_fields env (c_group c)")
  case None
  then show ?thesis using stored_mono [OF assms(1)] by (simp add: store_log_def)
next
  case gfs: (Some gfs)
  let ?s = "st\<lparr>next_log_id := Suc (next_log_id st)\<rparr>"
  have s: "stored lo (Suc n) ?s" by (rule stored_next [OF assms(1)]) simp_all
  show ?thesis
  proof (cases "smap_find gf ''date''")
    case None
    then show ?thesis using gfs s by (simp add: store_log_def Let_def)
  next
    case date: (Some date)
    define m where "m = (if to_unsigned (to_days env date) \<ge> last_partition_days ?s then create_partition env date ?s else (Inr (), ?s))"
    obtain r s1 where m: "m = (r, s1)" by fastforce
    have k: "bulks s1 = bulks st" "next_log_id s1 = Suc (next_log_id st)"
      using create_partition_keeps [of env date ?s] m by (auto simp: m_def split: if_splits)
    have s1: "stored lo (Suc n) s1" using stored_cong [OF s] k by simp
    have eq: "store_log env c gf cf st = (case m of (Inl e, s) \<Rightarrow> (Inl e, s) | (Inr u, s) \<Rightarrow>
        (case smap_find gf ''crit'' of None \<Rightarrow> (Inl (UB ''end iterator''), s)
         | Some cr \<Rightarrow> (case PackCrit cr of
              Inl e \<Rightarrow> (Inl e, push F_NONE (take 3 (log_row (next_log_id st) (c_id c) date 0)) s)
            | Inr k \<Rightarrow> store_fields env c gfs (next_log_id st) date gf cf (push F_NONE (log_row (next_log_id st) (c_id c) date k) s))))"
      by (simp add: store_log_def Let_def gfs date m_def)
    show ?thesis
    proof (cases "r = Inr () \<and> smap_find gf ''crit'' \<noteq> None")
      case True
      then obtain cr kk where cr: "smap_find gf ''crit'' = Some cr" "PackCrit cr = Inr kk" using assms(3) by (auto simp: crit_known_def)
      obtain ls where ls: "rows_ok lo ls st" and n: "next_log_id st \<le> lo + n" using assms(1) by (auto simp: stored_def)
      have "rows_ok lo ls s1" using rows_ok_cong [OF ls] k by simp
      from store_row [OF this _ _ k(2), of gfs env c date gf cf kk] ls assms(2) gfs
      obtain ls' where "rows_ok lo ls' (snd (store_fields env c gfs (next_log_id st) date gf cf (push F_NONE (log_row (next_log_id st) (c_id c) date kk) s1)))"
        "next_log_id (snd (store_fields env c gfs (next_log_id st) date gf cf (push F_NONE (log_row (next_log_id st) (c_id c) date kk) s1))) = Suc (next_log_id st)"
        by (auto simp: plain_channel_def rows_ok_def)
      then show ?thesis using True n by (auto simp: eq m cr stored_def)
    qed (use s1 in \<open>cases r; auto simp: eq m split: option.splits\<close>)
  qed
qed

lemma plain_found: "plain_channels env \<Longrightarrow> GetByName (channel_list env) name = Inr c \<Longrightarrow> plain_channel env c"
  by (auto simp: plain_channels_def GetByName_def list_all_iff split: option.splits simp: smap_find_map_of dest!: map_of_SomeD)

lemma log_line_stored:
  assumes "stored lo n st" "plain_channels env"
  shows "stored lo (Suc n) (snd (log_line env line st))"
proof -
  have "stored lo (Suc n) (snd (store_log env c gf cf st))"
    if "GetByName (channel_list env) name = Inr c" "ParseLog (el env) c l = Inr (gf, cf)" for name c l gf cf
    using store_log_stored [OF assms(1)] plain_found [OF assms(2) that(1)] ParseLog_crit [OF that(2)] by (simp add: plain_channel_def)
  then show ?thesis using stored_mono [OF assms(1), of "Suc n"] unfolding log_line_def by (auto split: option.splits sum.splits)
qed

lemma log_lines_stored:
  "stored lo n st \<Longrightarrow> plain_channels env \<Longrightarrow> stored lo (n + length ls) (snd (log_lines env ls st))"
proof (induction ls arbitrary: st n)
  case (Cons l ls)
  obtain r st' where r: "log_line env l st = (r, st')" by fastforce
  have st': "stored lo (Suc n) st'" using log_line_stored [OF Cons.prems, of l] r by simp
  have e: "stored lo (Suc n) (st'\<lparr>errors := es\<rparr>)" for es by (rule stored_cong [OF st']) simp_all
  show ?case using Cons.IH [OF st' Cons.prems(2)] Cons.IH [OF e Cons.prems(2)] stored_mono [OF st', of "n + length (l # ls)"] r
    by (auto split: sum.splits fault.splits)
qed simp

lemma start_bulks_at:
  assumes "smap_inv bs"
  shows "smap_inv (start_bulks bs) \<and> bq_values (bulk_at (bulk_id t) (start_bulks bs)) = [] \<and> ncolumns (bulk_at (bulk_id t) (start_bulks bs)) = columns t"
proof -
  have "smap_inv (start_bulks bs)" by (simp add: start_bulks_def BulkStart_def smap_inv_put assms)
  then show ?thesis using assms
    by (cases t) (simp_all add: start_bulks_def BulkStart_def bulk_at_def smap_find_put smap_inv_put)
qed


definition web_channel :: channel where
  "web_channel = \<lparr>c_id = 3, c_group = 1, c_name = ''web'', c_regex = ''(.*)'', date_format = ''auto'', date_idx = 0, crit = None, crit_idx = 1,
     group_fields_idx = [], fields_idx = [(''code'', 2)]\<rparr>"

definition web_env :: store_env where
  "web_env = \<lparr>el = \<lparr>regex_error = \<lambda>s. None, regex_search = \<lambda>re s. Some [s, ''LOG_ERR'', ''200''], parse_json = \<lambda>s. None, date_now = ''2024-01-05 10:00:00'',
       parse_date = \<lambda>d f. None, known_group = \<lambda>g. True\<rparr>,
     inet_of = \<lparr>pton4 = \<lambda>s. None, pton6 = \<lambda>s. None, ntop4 = \<lambda>s. None, ntop6 = \<lambda>s. None\<rparr>, same_text = (=), sha1_binary = id,
     to_days = \<lambda>d. 739255, channel_list = \<lparr>objects_id = [(3, web_channel)], objects_name = [(''web'', web_channel)], object_type = ''Channel''\<rparr>,
     group_fields = \<lambda>g. Some [], channel_fields = \<lambda>c. [(''code'', \<lparr>field_id = 9, field_name = ''code'', f_type = F_CHAR\<rparr>)], alter_error = \<lambda>t p d. None\<rparr>"

definition idle_storage :: storage where
  "idle_storage = \<lparr>bulks = [], next_log_id = 0, last_partition_days = 800000, alters = [], dict = load_dictionary [] 1, errors = []\<rparr>"

lemma web_search: "search_channel ''web a'' = Some (''web '', ''web'')" "search_channel ''ftp b'' = Some (''ftp '', ''ftp'')" "search_channel ''web c'' = Some (''web '', ''web'')"
  by (simp_all add: search_channel.simps is_name_char_def isalnum_def isalpha_def isdigit_def byte_def)

lemmas web_simps = Let_def log_line_def ParseLog_def log_date_def log_crit_def get_log_part_def store_log_def store_fields_def get_field_def
  log_value_def Pack_def PackCrit_def GetByName_def web_channel_def web_env_def to_unsigned_def

definition web_stored :: "storage \<Rightarrow> storage" where
  "web_stored st = push F_CHAR [VLong (word_of_nat (next_log_id st)), VInt 9, VString ''2024-01-05 10:00:00'', VString ''200'']
     (push F_NONE (log_row (next_log_id st) 3 ''2024-01-05 10:00:00'' 3) (st\<lparr>next_log_id := Suc (next_log_id st)\<rparr>))"

lemma web_line:
  "last_partition_days st = 800000 \<Longrightarrow> l = ''web a'' \<or> l = ''web c'' \<Longrightarrow> log_line web_env l st = (Inr (), web_stored st)"
  by (cases st) (auto simp: web_search web_simps web_stored_def push_def)

lemma ftp_line: "log_line web_env ''ftp b'' st = (Inl (Exn ''API'' ''Unknown Channel name : ftp'' ''UKNOWN_OBJECT''), st)"
  by (simp add: web_search web_simps)

lemma web_stored_rows:
  "smap_inv (bulks st) \<Longrightarrow> smap_inv (bulks (web_stored st)) \<and> next_log_id (web_stored st) = Suc (next_log_id st) \<and>
     last_partition_days (web_stored st) = last_partition_days st \<and>
     values_of (web_stored st) F_NONE = values_of st F_NONE @ log_row (next_log_id st) 3 ''2024-01-05 10:00:00'' 3"
  using push_values [of "st\<lparr>next_log_id := Suc (next_log_id st)\<rparr>" F_NONE "log_row (next_log_id st) 3 ''2024-01-05 10:00:00'' 3"]
  by (simp add: web_stored_def push_values) (simp add: values_of_def)

lemma web_lines:
  "values_of (snd (log_batch web_env 7 [''web a'', ''ftp b'', ''web c''] idle_storage)) F_NONE = log_row 7 3 ''2024-01-05 10:00:00'' 3 @ log_row 8 3 ''2024-01-05 10:00:00'' 3"
proof -
  let ?s = "idle_storage\<lparr>next_log_id := 7, bulks := start_bulks (bulks idle_storage)\<rparr>"
  let ?t = "web_stored ?s\<lparr>errors := errors (web_stored ?s) @ [''Unknown Channel name : ftp'']\<rparr>"
  have s: "last_partition_days ?s = 800000" "smap_inv (bulks ?s)" "values_of ?s F_NONE = []" "next_log_id ?s = 7"
    using start_bulks_at [of "[]" F_NONE] by (simp_all add: idle_storage_def values_of_def smap_inv_def)
  have t: "last_partition_days ?t = 800000" "smap_inv (bulks ?t)" "values_of ?t F_NONE = log_row 7 3 ''2024-01-05 10:00:00'' 3" "next_log_id ?t = 8"
    using web_stored_rows [OF s(2)] s by (simp_all add: values_of_def)
  have "log_batch web_env 7 [''web a'', ''ftp b'', ''web c''] idle_storage = (Inr (), web_stored ?t)"
    using web_line [OF s(1), of "''web a''"] web_line [OF t(1), of "''web c''"] by (simp add: log_batch_def ftp_line)
  then show ?thesis using web_stored_rows [OF t(2)] t by simp
qed

lemma web_plain: "plain_channels web_env"
  by (simp add: plain_channels_def plain_channel_def typed_def web_env_def web_channel_def)


text \<open>
  A line of the highest criticality: \<open>ParseLog\<close> leaves its criticality out, since its number is zero, and \<open>store_log\<close> reads
  through the iterator of a missing entry.
\<close>

lemma emergency_line:
  "last_partition_days st = 800000 \<Longrightarrow>
   fst (log_line (web_env\<lparr>el := (el web_env)\<lparr>regex_search := \<lambda>re s. Some [s, ''LOG_EMERG'', ''200'']\<rparr>\<rparr>) ''web a'' st) = Inl (UB ''end iterator'')"
  by (simp add: web_search web_simps)

end
