(* ===== verification/Statistics.thy ===== *)
theory Statistics
  imports Access
begin

text \<open>
  The counters of the engine, src/API/Statistics.cpp, and the list of active connections, src/API/ActiveConnections.cpp.
  Counters are unsigned 32 bit numbers. Every operation runs under a lock and is one step. Threads are named by the
  ids the library gives them.
\<close>

section \<open>Counters\<close>

record statistics =
  accepted_api_connections :: "32 word"
  accepted_ws_connections :: "32 word"
  api_queries :: "32 word"
  ws_queries :: "32 word"
  ws_events :: "32 word"
  ws_subscriptions :: "32 word"
  api_exceptions :: "32 word"
  workflow_queries :: "32 word"
  workflow_status_queries :: "32 word"
  workflow_cancel_queries :: "32 word"
  statistics_queries :: "32 word"
  workflow_exceptions :: "32 word"
  workflow_instance_launched :: "32 word"
  workflow_instance_executing :: "32 word"
  workflow_instance_errors :: "32 word"
  waiting_threads_count :: "32 word"

definition Statistics_new :: statistics where
  "Statistics_new = \<lparr>accepted_api_connections = 0, accepted_ws_connections = 0, api_queries = 0, ws_queries = 0, ws_events = 0,
     ws_subscriptions = 0, api_exceptions = 0, workflow_queries = 0, workflow_status_queries = 0, workflow_cancel_queries = 0,
     statistics_queries = 0, workflow_exceptions = 0, workflow_instance_launched = 0, workflow_instance_executing = 0,
     workflow_instance_errors = 0, waiting_threads_count = 0\<rparr>"

definition GetAcceptedConnections :: "statistics \<Rightarrow> 32 word" where
  "GetAcceptedConnections s = accepted_api_connections s + accepted_ws_connections s"

definition IncAPIAcceptedConnections :: "statistics \<Rightarrow> statistics" where
  "IncAPIAcceptedConnections s = s\<lparr>accepted_api_connections := accepted_api_connections s + 1\<rparr>"

definition IncWSAcceptedConnections :: "statistics \<Rightarrow> statistics" where
  "IncWSAcceptedConnections s = s\<lparr>accepted_ws_connections := accepted_ws_connections s + 1\<rparr>"

definition IncAPIQueries :: "statistics \<Rightarrow> statistics" where
  "IncAPIQueries s = s\<lparr>api_queries := api_queries s + 1\<rparr>"

definition IncWSQueries :: "statistics \<Rightarrow> statistics" where
  "IncWSQueries s = s\<lparr>ws_queries := ws_queries s + 1\<rparr>"

definition IncWSEvents :: "statistics \<Rightarrow> statistics" where
  "IncWSEvents s = s\<lparr>ws_events := ws_events s + 1\<rparr>"

definition IncWSSubscriptions :: "statistics \<Rightarrow> statistics" where
  "IncWSSubscriptions s = s\<lparr>ws_subscriptions := ws_subscriptions s + 1\<rparr>"

definition DecWSSubscriptions :: "int \<Rightarrow> statistics \<Rightarrow> statistics" where
  "DecWSSubscriptions n s = s\<lparr>ws_subscriptions := ws_subscriptions s - word_of_int n\<rparr>"

definition IncAPIExceptions :: "statistics \<Rightarrow> statistics" where
  "IncAPIExceptions s = s\<lparr>api_exceptions := api_exceptions s + 1\<rparr>"

definition IncWorkflowQueries :: "statistics \<Rightarrow> statistics" where
  "IncWorkflowQueries s = s\<lparr>workflow_queries := workflow_queries s + 1\<rparr>"

definition IncWorkflowStatusQueries :: "statistics \<Rightarrow> statistics" where
  "IncWorkflowStatusQueries s = s\<lparr>workflow_status_queries := workflow_status_queries s + 1\<rparr>"

definition IncWorkflowCancelQueries :: "statistics \<Rightarrow> statistics" where
  "IncWorkflowCancelQueries s = s\<lparr>workflow_cancel_queries := workflow_cancel_queries s + 1\<rparr>"

definition IncStatisticsQueries :: "statistics \<Rightarrow> statistics" where
  "IncStatisticsQueries s = s\<lparr>statistics_queries := statistics_queries s + 1\<rparr>"

definition IncWorkflowExceptions :: "statistics \<Rightarrow> statistics" where
  "IncWorkflowExceptions s = s\<lparr>workflow_exceptions := workflow_exceptions s + 1\<rparr>"

definition IncWorkflowInstanceExecuting :: "statistics \<Rightarrow> statistics" where
  "IncWorkflowInstanceExecuting s =
     s\<lparr>workflow_instance_launched := workflow_instance_launched s + 1, workflow_instance_executing := workflow_instance_executing s + 1\<rparr>"

definition DecWorkflowInstanceExecuting :: "statistics \<Rightarrow> statistics" where
  "DecWorkflowInstanceExecuting s =
     (if workflow_instance_executing s > 0 then s\<lparr>workflow_instance_executing := workflow_instance_executing s - 1\<rparr> else s)"

definition IncWorkflowInstanceErrors :: "statistics \<Rightarrow> statistics" where
  "IncWorkflowInstanceErrors s = s\<lparr>workflow_instance_errors := workflow_instance_errors s + 1\<rparr>"

definition IncWaitingThreads :: "statistics \<Rightarrow> statistics" where
  "IncWaitingThreads s = s\<lparr>waiting_threads_count := waiting_threads_count s + 1\<rparr>"

definition DecWaitingThreads :: "statistics \<Rightarrow> statistics" where
  "DecWaitingThreads s = s\<lparr>waiting_threads_count := waiting_threads_count s - 1\<rparr>"

text \<open>What counts the present is not reset.\<close>

definition ResetGlobalStatistics :: "statistics \<Rightarrow> statistics" where
  "ResetGlobalStatistics s = s\<lparr>accepted_api_connections := 0, accepted_ws_connections := 0, api_queries := 0, ws_queries := 0,
     ws_events := 0, api_exceptions := 0, workflow_queries := 0, workflow_status_queries := 0, workflow_cancel_queries := 0,
     statistics_queries := 0, workflow_exceptions := 0, workflow_instance_launched := 0, workflow_instance_errors := 0\<rparr>"

section \<open>Connections\<close>

record connections =
  conn_shutting_down :: bool
  active_api_threads :: "(nat, nat) smap"
  active_api_sockets :: "nat list"
  active_ws_sockets :: "nat list"
  adopted :: "nat list"
  closed_sockets :: "nat list"
  joined :: "nat list"

definition ActiveConnections_new :: connections where
  "ActiveConnections_new = \<lparr>conn_shutting_down = False, active_api_threads = [], active_api_sockets = [], active_ws_sockets = [],
     adopted = [], closed_sockets = [], joined = []\<rparr>"

text \<open>The map of threads holds, for each, the socket it was started with.\<close>

definition StartAPIConnection :: "nat \<Rightarrow> nat \<Rightarrow> connections \<Rightarrow> connections" where
  "StartAPIConnection tid s c =
     (if conn_shutting_down c then c
      else c\<lparr>active_api_threads := smap_put (active_api_threads c) tid s, active_api_sockets := List.insert s (active_api_sockets c)\<rparr>)"

definition EndAPIConnection :: "nat \<Rightarrow> connections \<Rightarrow> unit res \<times> connections" where
  "EndAPIConnection tid c =
     (if conn_shutting_down c then (Inr (), c)
      else case smap_find (active_api_threads c) tid of
          None \<Rightarrow> (Inl (StdExn ''out_of_range''), c)
        | Some s \<Rightarrow> (Inr (), c\<lparr>active_api_threads := smap_del (active_api_threads c) tid\<rparr>))"

definition StartWSConnection :: "nat \<Rightarrow> connections \<Rightarrow> connections" where
  "StartWSConnection s c =
     (if conn_shutting_down c then c
      else c\<lparr>active_ws_sockets := List.insert s (active_ws_sockets c), adopted := adopted c @ [s]\<rparr>)"

definition EndWSConnection :: "nat \<Rightarrow> connections \<Rightarrow> connections" where
  "EndWSConnection s c = (if conn_shutting_down c then c else c\<lparr>active_ws_sockets := removeAll s (active_ws_sockets c)\<rparr>)"

definition GetAPINumber :: "connections \<Rightarrow> 32 word" where
  "GetAPINumber c = word_of_nat (length (active_api_threads c))"

definition GetWSNumber :: "connections \<Rightarrow> 32 word" where
  "GetWSNumber c = word_of_nat (length (active_ws_sockets c))"

text \<open>Sockets are closed in their order.\<close>

definition Shutdown :: "bool \<Rightarrow> connections \<Rightarrow> connections" where
  "Shutdown fastshutdown c =
     (if fastshutdown then c\<lparr>closed_sockets := closed_sockets c @ sort (active_api_sockets c) @ sort (active_ws_sockets c), conn_shutting_down := True\<rparr>
      else c\<lparr>conn_shutting_down := True\<rparr>)"

definition WaitForShutdown :: "connections \<Rightarrow> connections" where
  "WaitForShutdown c = c\<lparr>joined := joined c @ map fst (active_api_threads c)\<rparr>"

section \<open>Queries\<close>

definition global_attributes :: "statistics \<Rightarrow> connections \<Rightarrow> (string \<times> string) list" where
  "global_attributes s c =
     [(''accepted_api_connections'', show_nat (unat (accepted_api_connections s))),
      (''accepted_ws_connections'', show_nat (unat (accepted_ws_connections s))),
      (''current_api_connections'', show_nat (unat (GetAPINumber c))),
      (''current_ws_connections'', show_nat (unat (GetWSNumber c))),
      (''api_queries'', show_nat (unat (api_queries s))),
      (''ws_queries'', show_nat (unat (ws_queries s))),
      (''ws_events'', show_nat (unat (ws_events s))),
      (''ws_subscriptions'', show_nat (unat (ws_subscriptions s))),
      (''api_exceptions'', show_nat (unat (api_exceptions s))),
      (''workflow_queries'', show_nat (unat (workflow_queries s))),
      (''workflow_status_queries'', show_nat (unat (workflow_status_queries s))),
      (''workflow_cancel_queries'', show_nat (unat (workflow_cancel_queries s))),
      (''statistics_queries'', show_nat (unat (statistics_queries s))),
      (''workflow_exceptions'', show_nat (unat (workflow_exceptions s))),
      (''workflow_instance_launched'', show_nat (unat (workflow_instance_launched s))),
      (''workflow_instance_executing'', show_nat (unat (workflow_instance_executing s))),
      (''workflow_instance_errors'', show_nat (unat (workflow_instance_errors s))),
      (''waiting_threads'', show_nat (unat (waiting_threads_count s)))]"

definition SendGlobalStatistics :: "statistics \<Rightarrow> connections \<Rightarrow> response" where
  "SendGlobalStatistics s c = [((''statistics'', global_attributes s c), [])]"

text \<open>\<open>queue_statistics\<close> is what the pool of queues answers.\<close>

definition statistics_query :: "response \<Rightarrow> connections \<Rightarrow> user \<Rightarrow> query \<Rightarrow> statistics \<Rightarrow> (bool \<times> response) res \<times> statistics" where
  "statistics_query queue_statistics c u q s =
     (case GetRootAttribute q ''action'' of
        Inl e \<Rightarrow> (Inl e, s)
      | Inr action \<Rightarrow>
          if action = ''query'' then
            (case GetRootAttribute q ''type'' of
               Inl e \<Rightarrow> (Inl e, s)
             | Inr type \<Rightarrow>
                 if type = ''global'' then (Inr (True, SendGlobalStatistics (IncStatisticsQueries s) c), IncStatisticsQueries s)
                 else if type = ''queue'' then (Inr (True, queue_statistics), IncStatisticsQueries s)
                 else (Inl (Exn ''Statistics'' ''Unknown statistics type'' ''UNKNOWN_TYPE''), s))
          else if action = ''reset'' then
            (if \<not> IsAdmin u then (Inl (Exn ''Access Control'' ''insufficient rights'' ''INSUFFICIENT_RIGHTS''), s)
             else case GetRootAttribute q ''type'' of
                 Inl e \<Rightarrow> (Inl e, s)
               | Inr type \<Rightarrow>
                   if type = ''global'' then (Inr (True, []), ResetGlobalStatistics s)
                   else (Inl (Exn ''Statistics'' ''Unknown statistics type for this action'' ''UNKNOWN_TYPE''), s))
          else (Inr (False, []), s))"

section \<open>Threads are joined\<close>

text \<open>
  The acceptor starts a connection under a new thread id; a connection ends once, in its thread. \<open>live\<close> are the threads
  that have not ended.
\<close>

datatype conn_event = EvStart nat nat | EvEnd nat | EvStartWS nat | EvEndWS nat | EvShutdown bool

fun conn_step :: "conn_event \<Rightarrow> nat list \<times> connections \<Rightarrow> (nat list \<times> connections) option" where
  "conn_step (EvStart tid s) (live, c) =
     (if conn_shutting_down c then Some (live, StartAPIConnection tid s c)
      else if tid \<in> set live then None else Some (tid # live, StartAPIConnection tid s c))"
| "conn_step (EvEnd tid) (live, c) =
     (if tid \<notin> set live then None
      else case EndAPIConnection tid c of (Inl e, c') \<Rightarrow> None | (Inr u, c') \<Rightarrow> Some (removeAll tid live, c'))"
| "conn_step (EvStartWS s) (live, c) = Some (live, StartWSConnection s c)"
| "conn_step (EvEndWS s) (live, c) = Some (live, EndWSConnection s c)"
| "conn_step (EvShutdown fast) (live, c) = Some (live, Shutdown fast c)"

fun conn_run :: "conn_event list \<Rightarrow> nat list \<times> connections \<Rightarrow> (nat list \<times> connections) option" where
  "conn_run [] s = Some s"
| "conn_run (e # es) s = (case conn_step e s of None \<Rightarrow> None | Some s' \<Rightarrow> conn_run es s')"

definition thread_ids :: "connections \<Rightarrow> nat set" where
  "thread_ids c = fst ` set (active_api_threads c)"

definition conn_inv :: "nat list \<times> connections \<Rightarrow> bool" where
  "conn_inv = (\<lambda>(live, c). set live \<subseteq> thread_ids c \<and> (conn_shutting_down c \<or> thread_ids c \<subseteq> set live))"

lemma find_None_iff: "smap_find m k = None \<longleftrightarrow> k \<notin> fst ` set m"
  by (simp add: smap_find_map_of map_of_eq_None_iff)

lemma fst_smap_del: "fst ` set (smap_del m k) = fst ` set m - {k}"
proof -
  have "x \<in> fst ` set (smap_del m k) \<longleftrightarrow> x \<in> fst ` set m - {k}" for x
    using find_None_iff [of "smap_del m k" x] find_None_iff [of m x] by (auto simp: smap_find_del split: if_splits)
  then show ?thesis by blast
qed

lemma thread_ids_simps [simp]:
  "thread_ids (c\<lparr>active_api_threads := smap_put (active_api_threads c) tid s, active_api_sockets := ss\<rparr>) = insert tid (thread_ids c)"
  "thread_ids (c\<lparr>active_api_threads := smap_del (active_api_threads c) tid\<rparr>) = thread_ids c - {tid}"
  "thread_ids (StartWSConnection s c) = thread_ids c" "thread_ids (EndWSConnection s c) = thread_ids c" "thread_ids (Shutdown f c) = thread_ids c"
  by (simp_all add: thread_ids_def fst_smap_put fst_smap_del StartWSConnection_def EndWSConnection_def Shutdown_def)

lemma shutting_simps [simp]:
  "conn_shutting_down (StartWSConnection s c) = conn_shutting_down c" "conn_shutting_down (EndWSConnection s c) = conn_shutting_down c"
  "conn_shutting_down (Shutdown f c)"
  by (simp_all add: StartWSConnection_def EndWSConnection_def Shutdown_def)

lemma conn_step_inv: "conn_inv s \<Longrightarrow> conn_step e s = Some s' \<Longrightarrow> conn_inv s'"
  by (cases s; cases e)
    (auto simp: conn_inv_def StartAPIConnection_def EndAPIConnection_def split: if_splits option.splits sum.splits prod.splits)

text \<open>No thread ends with an error, and all that have not ended are joined.\<close>

lemma conn_end_ok: "conn_inv (live, c) \<Longrightarrow> tid \<in> set live \<Longrightarrow> conn_step (EvEnd tid) (live, c) \<noteq> None"
  using find_None_iff [of "active_api_threads c" tid] by (auto simp: conn_inv_def thread_ids_def EndAPIConnection_def split: option.splits)

theorem connections_are_joined:
  assumes "conn_run es ([], ActiveConnections_new) = Some (live, c)"
  shows "set live \<subseteq> set (joined (WaitForShutdown c)) \<and> list_all (\<lambda>t. conn_step (EvEnd t) (live, c) \<noteq> None) live \<and>
    (\<not> conn_shutting_down c \<longrightarrow> set (joined (WaitForShutdown c)) = set live \<union> set (joined c))"
proof -
  have run: "conn_inv s \<Longrightarrow> conn_run es s = Some (live, c) \<Longrightarrow> conn_inv (live, c)" for s
  proof (induction es arbitrary: s)
    case (Cons e es)
    then show ?case using conn_step_inv [of s e] by (auto split: option.splits)
  qed simp
  have "conn_inv (live, c)" by (rule run [OF _ assms]) (simp add: conn_inv_def ActiveConnections_new_def thread_ids_def)
  then show ?thesis using conn_end_ok [of live c] by (auto simp: conn_inv_def thread_ids_def WaitForShutdown_def list_all_iff)
qed

theorem connections_are_joined_witness:
  "\<exists>live c. conn_run [EvStart 1 7, EvStart 2 8, EvEnd 1, EvShutdown True] ([], ActiveConnections_new) = Some (live, c) \<and>
     live = [2] \<and> set live \<subseteq> set (joined (WaitForShutdown c))"
proof -
  have r: "\<exists>c. conn_run [EvStart 1 7, EvStart 2 8, EvEnd 1, EvShutdown True] ([], ActiveConnections_new) = Some ([2], c)"
    by (simp add: ActiveConnections_new_def StartAPIConnection_def EndAPIConnection_def Shutdown_def)
  then show ?thesis using connections_are_joined by blast
qed

text \<open>The socket of a connection that ended stays in the set; a fast shutdown closes it, whatever it then stands for.\<close>

lemma stale_socket:
  "\<exists>c. conn_run [EvStart 1 7, EvEnd 1, EvShutdown True] ([], ActiveConnections_new) = Some ([], c) \<and> closed_sockets c = [7]"
  by (simp add: ActiveConnections_new_def StartAPIConnection_def EndAPIConnection_def Shutdown_def)

end
