(* ===== verification/InstanceApi.thy ===== *)
theory InstanceApi
  imports InstanceList SqlClient Statistics
begin

text \<open>
  The life of an instance as the engine and its clients see it: its construction, savepoints and destruction
  (src/WorkflowInstance/WorkflowInstance.cpp, savepoint.cpp, custom_filters.cpp, automatic_tags.cpp), the restart of the
  engine (\<open>WorkflowInstances::Resume\<close>), the parameters of a query (src/Workflow/WorkflowParameters.cpp) and the queries of
  src/WorkflowInstance/WorkflowInstanceAPI.cpp. What an instance does while it runs is the model of InstanceTasks; here it
  is whether it ended at once (\<open>terminates\<close>) and what other threads do meanwhile (\<open>others\<close>). The document is what these
  operations read of it. Expressions that hold a quote of a name, the parser of documents and the failures of the
  database are arguments.
\<close>

section \<open>Parameters of a query\<close>

type_synonym parameters = "(string \<times> string) list"

definition add_parameter :: "parameters \<Rightarrow> string \<times> string \<Rightarrow> parameters" where
  "add_parameter ps p = (if fst p \<in> fst ` set ps then ps else ps @ [p])"

definition GetWorkflowParameters :: "(string \<times> string) list \<Rightarrow> parameters" where
  "GetWorkflowParameters nodes = foldl add_parameter [] nodes"

lemma GetWorkflowParameters_distinct: "distinct (map fst (GetWorkflowParameters nodes))"
proof -
  have "distinct (map fst ps) \<Longrightarrow> distinct (map fst (foldl add_parameter ps nodes))" for ps
    by (induction nodes arbitrary: ps) (simp_all add: add_parameter_def)
  then show ?thesis by (simp add: GetWorkflowParameters_def)
qed

section \<open>State\<close>

record doc =
  d_attrs :: "(string, string) smap"
  d_params :: parameters
  d_task_schedules :: "string list"
  d_schedules :: "string list"

record workflow =
  w_id :: nat
  w_xml :: string
  w_notifications :: "nat list"

record wobj =
  o_id :: nat
  o_workflow :: nat
  o_schedule :: nat
  o_notifications :: "nat list"
  o_doc :: "doc option"
  o_errors :: nat
  o_shutting_down :: bool

text \<open>A row of t_workflow_instance.\<close>

record wi_row =
  rw_node :: string
  rw_workflow :: nat
  rw_schedule :: "nat option"
  rw_host :: "string option"
  rw_status :: string
  rw_comment :: "string option"
  rw_savepoint :: "string option"
  rw_errors :: nat

record engine =
  wl :: wi_list
  objects :: "(nat, wobj) smap"
  next_addr :: nat
  stats :: statistics
  rows :: "(nat, wi_row) smap"
  next_row :: nat
  seq :: "32 word"
  t_parameters :: "(nat \<times> string \<times> string) list"
  t_filters :: "(nat \<times> string \<times> string) list"
  t_datastore :: "(nat \<times> nat) list"
  t_tag :: "(nat, string) smap"
  next_tag :: nat
  t_tagged :: "(nat \<times> nat) list"
  called :: "(nat \<times> nat \<times> nat) list"
  stopped :: "(nat \<times> bool) list"
  flushed :: "nat list"
  sent_events :: "(string \<times> nat) list"

record api_env =
  workflows :: "workflow object_list"
  schedules :: "string object_list"
  parse_doc :: "string \<Rightarrow> doc res"
  serialize :: "doc \<Rightarrow> string"
  set_odd :: "string \<Rightarrow> string \<Rightarrow> doc \<Rightarrow> doc option res"
  odd_schedule :: "string \<Rightarrow> doc \<Rightarrow> bool res"
  custom_filters :: "doc \<Rightarrow> (string \<times> string) list"
  automatic_tags :: "doc \<Rightarrow> string list"
  savepoint_level :: int
  saveparameters :: bool
  retry_enable :: bool
  retry_times :: int
  node_name :: string
  now_text :: string
  row_error :: "nat \<Rightarrow> string option"
  parameter_error :: "string \<Rightarrow> string \<Rightarrow> string option"
  savepoint_fails :: "nat \<Rightarrow> bool"
  patience :: nat
  terminates :: "nat \<Rightarrow> bool"
  end_errors :: "nat \<Rightarrow> nat"
  others :: "engine \<Rightarrow> engine"

text \<open>The level an instance uses; the queries read the configuration itself.\<close>

definition level :: "api_env \<Rightarrow> int" where
  "level env = (if savepoint_level env < 0 \<or> savepoint_level env > 3 then 0 else savepoint_level env)"

text \<open>An operation on the object under construction and the engine.\<close>

type_synonym 'a act = "wobj \<times> engine \<Rightarrow> 'a res \<times> wobj \<times> engine"

definition andthen :: "('s \<Rightarrow> 'a res \<times> 's) \<Rightarrow> ('a \<Rightarrow> 's \<Rightarrow> 'b res \<times> 's) \<Rightarrow> 's \<Rightarrow> 'b res \<times> 's" where
  "andthen m f s = (case m s of (Inl e, s') \<Rightarrow> (Inl e, s') | (Inr x, s') \<Rightarrow> f x s')"

definition giving :: "('s \<Rightarrow> 'a res) \<Rightarrow> 's \<Rightarrow> 'a res \<times> 's" where
  "giving f s = (f s, s)"

definition doing :: "('s \<Rightarrow> 's) \<Rightarrow> 's \<Rightarrow> unit res \<times> 's" where
  "doing f s = (Inr (), f s)"

definition on_obj :: "(wobj \<Rightarrow> wobj) \<Rightarrow> unit act" where
  "on_obj f = doing (\<lambda>(w, e). (f w, e))"

definition on_engine :: "(engine \<Rightarrow> engine) \<Rightarrow> unit act" where
  "on_engine f = doing (\<lambda>(w, e). (w, f e))"

definition the_doc :: "wobj \<Rightarrow> doc" where
  "the_doc w = (case o_doc w of Some d \<Rightarrow> d | None \<Rightarrow> \<lparr>d_attrs = [], d_params = [], d_task_schedules = [], d_schedules = []\<rparr>)"

definition set_attr :: "string \<Rightarrow> string \<Rightarrow> wobj \<Rightarrow> wobj" where
  "set_attr n v w = w\<lparr>o_doc := map_option (\<lambda>d. d\<lparr>d_attrs := smap_put (d_attrs d) n v\<rparr>) (o_doc w)\<rparr>"

definition attr :: "string \<Rightarrow> wobj \<Rightarrow> string" where
  "attr n w = (case smap_find (d_attrs (the_doc w)) n of Some v \<Rightarrow> v | None \<Rightarrow> [])"

definition has_attr :: "string \<Rightarrow> wobj \<Rightarrow> bool" where
  "has_attr n w \<longleftrightarrow> smap_find (d_attrs (the_doc w)) n \<noteq> None"

definition send_event :: "string \<Rightarrow> nat \<Rightarrow> engine \<Rightarrow> engine" where
  "send_event t i e = e\<lparr>sent_events := sent_events e @ [(t, i)]\<rparr>"

section \<open>Tags\<close>

definition Tag_Create :: "string \<Rightarrow> engine \<Rightarrow> nat res \<times> engine" where
  "Tag_Create label e =
     (if label = [] then (Inl (Exn ''Tag'' ''Invalid tag label'' ''INVALID_PARAMETER''), e)
      else case filter (\<lambda>(i, l). l = label) (t_tag e) of
          (i, l) # _ \<Rightarrow> (Inr i, e)
        | [] \<Rightarrow> (Inr (next_tag e), send_event ''TAG_CREATED'' 0 (e\<lparr>t_tag := smap_put (t_tag e) (next_tag e) label, next_tag := Suc (next_tag e)\<rparr>)))"

definition tag_instance :: "nat \<Rightarrow> nat \<Rightarrow> engine \<Rightarrow> unit res \<times> engine" where
  "tag_instance uid tag_id e =
     (if smap_find (t_tag e) tag_id = None then (Inl (Exn ''Tag'' ''Unknown Tag'' ''UNKNOWN_TAG''), e)
      else case smap_find (rows e) uid of
          None \<Rightarrow> (Inl (Exn ''WorkflowInstanceAPI'' ''Instance ID not found'' ''UNKNOWN_INSTANCE''), e)
        | Some r \<Rightarrow>
            if rw_status r \<noteq> ''TERMINATED'' then (Inl (Exn ''WorkflowInstanceAPI'' ''Instance is not terminated'' ''INSTANCE_IS_RUNNING''), e)
            else if count_list (t_tagged e) (uid, tag_id) = 1 then (Inl (Exn ''WorkflowInstanceAPI'' ''Instance is already tagged'' ''INSTANCE_ALREADY_TAGGED''), e)
            else (Inr (), send_event ''INSTANCE_TAGGED'' uid (e\<lparr>t_tagged := t_tagged e @ [(uid, tag_id)]\<rparr>)))"

definition untag_instance :: "nat \<Rightarrow> nat \<Rightarrow> engine \<Rightarrow> unit res \<times> engine" where
  "untag_instance uid tag_id e =
     (if (uid, tag_id) \<notin> set (t_tagged e) then (Inl (Exn ''WorkflowInstanceAPI'' ''Instance ID or tag ID not found'' ''UNKNOWN_TAG_OR_INSTANCE''), e)
      else (Inr (), e\<lparr>t_tagged := removeAll (uid, tag_id) (t_tagged e)\<rparr>))"

text \<open>The first exception ends the loop.\<close>

fun fill_automatic_tags :: "nat \<Rightarrow> string list \<Rightarrow> engine \<Rightarrow> engine" where
  "fill_automatic_tags uid [] e = e"
| "fill_automatic_tags uid (n # ns) e = (case andthen (Tag_Create n) (\<lambda>t. tag_instance uid t) e of
       (Inr u, e') \<Rightarrow> fill_automatic_tags uid ns e'
     | (Inl f, e') \<Rightarrow> e')"

section \<open>Savepoints\<close>

text \<open>The loop of \<open>record_savepoint\<close>: attempt \<open>k\<close> either raises or changes the engine; whether some attempt did not raise.\<close>

fun attempts :: "bool \<Rightarrow> int \<Rightarrow> (nat \<Rightarrow> engine option) \<Rightarrow> nat \<Rightarrow> nat \<Rightarrow> engine option res" where
  "attempts retry limit f 0 k = Inl NoFuel"
| "attempts retry limit f (Suc n) k = (case f k of
       Some e \<Rightarrow> Inr (Some e)
     | None \<Rightarrow> if retry \<and> (limit = 0 \<or> int (Suc k) \<le> limit) then attempts retry limit f n (Suc k) else Inr None)"

definition text_or_null :: "string \<Rightarrow> string option" where
  "text_or_null s = (if s = [] then None else Some s)"

definition write_savepoint :: "api_env \<Rightarrow> wobj \<Rightarrow> engine \<Rightarrow> nat \<Rightarrow> engine option" where
  "write_savepoint env w e k =
     (let s = serialize env (the_doc w) in
      if savepoint_fails env k then None
      else if level env \<ge> 2 then
        Some (if attr ''status'' w \<noteq> ''TERMINATED''
          then (case smap_find (rows e) (o_id w) of None \<Rightarrow> e | Some r \<Rightarrow> e\<lparr>rows := smap_put (rows e) (o_id w) (r\<lparr>rw_savepoint := Some s\<rparr>)\<rparr>)
          else fill_automatic_tags (o_id w) (automatic_tags env (the_doc w))
            ((case smap_find (rows e) (o_id w) of None \<Rightarrow> e
              | Some r \<Rightarrow> e\<lparr>rows := smap_put (rows e) (o_id w) (r\<lparr>rw_savepoint := Some s, rw_status := ''TERMINATED'', rw_errors := o_errors w\<rparr>)\<rparr>)
             \<lparr>t_filters := t_filters e @ map (Pair (o_id w)) (custom_filters env (the_doc w))\<rparr>))
      else if smap_find (rows e) (o_id w) \<noteq> None then None
      else Some (e\<lparr>rows := smap_put (rows e) (o_id w)
        \<lparr>rw_node = [], rw_workflow = o_workflow w, rw_schedule = Some (o_schedule w), rw_host = text_or_null (if has_attr ''host'' w then attr ''host'' w else []),
         rw_status = attr ''status'' w, rw_comment = None, rw_savepoint = Some s, rw_errors = o_errors w\<rparr>,
        next_row := max (next_row e) (Suc (o_id w))\<rparr>))"

definition record_savepoint :: "api_env \<Rightarrow> bool \<Rightarrow> unit act" where
  "record_savepoint env force = (\<lambda>(w, e).
     if attr ''status'' w = ''TERMINATED'' \<and> level env = 0 \<or> attr ''status'' w \<noteq> ''TERMINATED'' \<and> \<not> force \<and> level env \<le> 2
     then (Inr (), w, e)
     else let w = (if attr ''status'' w = ''TERMINATED'' then set_attr ''errors'' (show_nat (o_errors w)) (set_attr ''end_time'' (now_text env) w) else w) in
       case attempts (retry_enable env) (retry_times env) (write_savepoint env w e) (patience env) 0 of
         Inl f \<Rightarrow> (Inl f, w, e)
       | Inr None \<Rightarrow> (Inr (), w, e)
       | Inr (Some e') \<Rightarrow> (Inr (), w, e'))"

section \<open>Construction\<close>

definition WorkflowInstance_new :: wobj where
  "WorkflowInstance_new = \<lparr>o_id = 0, o_workflow = 0, o_schedule = 0, o_notifications = [], o_doc = None, o_errors = 0, o_shutting_down = False\<rparr>"

fun set_first :: "string \<Rightarrow> string \<Rightarrow> parameters \<Rightarrow> parameters option" where
  "set_first n v [] = None"
| "set_first n v ((m, x) # ps) = (if m = n then Some ((m, v) # ps) else map_option ((#) (m, x)) (set_first n v ps))"

definition set_parameter :: "api_env \<Rightarrow> string \<Rightarrow> string \<Rightarrow> doc \<Rightarrow> doc option res" where
  "set_parameter env n v d =
     (if CHR 0x27 \<in> set n then set_odd env n v d else Inr (map_option (\<lambda>ps. d\<lparr>d_params := ps\<rparr>) (set_first n v (d_params d))))"

fun set_parameters :: "api_env \<Rightarrow> parameters \<Rightarrow> doc \<Rightarrow> doc res" where
  "set_parameters env [] d = Inr d"
| "set_parameters env ((n, v) # ps) d = (case set_parameter env n v d of
       Inl f \<Rightarrow> Inl f
     | Inr None \<Rightarrow> Inl (Exn ''WorkflowInstance'' (''Unknown parameter : '' @ n) ''INVALID_WORKFLOW_PARAMETERS'')
     | Inr (Some d') \<Rightarrow> set_parameters env ps d')"

definition count_parameters :: "nat \<Rightarrow> doc \<Rightarrow> unit res" where
  "count_parameters passed d =
     (if length (d_params d) \<noteq> passed
      then Inl (Exn ''WorkflowInstance'' (''Invalid number of parameters passed to workflow (passed '' @ show_nat passed @ '', expected '' @
        show_nat (length (d_params d)) @ '')'') ''INVALID_WORKFLOW_PARAMETERS'')
      else Inr ())"

fun import_schedules :: "api_env \<Rightarrow> string list \<Rightarrow> doc \<Rightarrow> doc res" where
  "import_schedules env [] d = Inr d"
| "import_schedules env (n # ns) d = (case (if CHR 0x27 \<in> set n then odd_schedule env n d else Inr (n \<in> set (d_schedules d))) of
       Inl f \<Rightarrow> Inl f
     | Inr True \<Rightarrow> import_schedules env ns d
     | Inr False \<Rightarrow> (case GetByName (schedules env) n of
           Inl f \<Rightarrow> Inl f
         | Inr xml \<Rightarrow> (case parse_doc env xml of
               Inl f \<Rightarrow> Inl f
             | Inr x \<Rightarrow> import_schedules env ns (d\<lparr>d_schedules := d_schedules d @ [n]\<rparr>))))"

definition insert_row :: "api_env \<Rightarrow> wobj \<Rightarrow> string \<Rightarrow> string \<Rightarrow> engine \<Rightarrow> nat res \<times> engine" where
  "insert_row env w host comment e = (case row_error env (next_row e) of
       Some m \<Rightarrow> (Inl (DB_error m), e)
     | None \<Rightarrow> (Inr (next_row e), e\<lparr>rows := smap_put (rows e) (next_row e)
         \<lparr>rw_node = node_name env, rw_workflow = o_workflow w, rw_schedule = (if o_schedule w = 0 then None else Some (o_schedule w)),
          rw_host = Some host, rw_status = ''EXECUTING'', rw_comment = Some comment, rw_savepoint = Some [], rw_errors = 0\<rparr>,
         next_row := Suc (next_row e)\<rparr>))"

fun insert_parameters :: "api_env \<Rightarrow> nat \<Rightarrow> parameters \<Rightarrow> engine \<Rightarrow> unit res \<times> engine" where
  "insert_parameters env uid [] e = (Inr (), e)"
| "insert_parameters env uid ((n, v) # ps) e = (case parameter_error env n v of
       Some m \<Rightarrow> (Inl (DB_error m), e)
     | None \<Rightarrow> insert_parameters env uid ps (e\<lparr>t_parameters := t_parameters e @ [(uid, n, v)]\<rparr>))"

definition GetInc :: "engine \<Rightarrow> nat \<times> engine" where
  "GetInc e = (unat (seq e), e\<lparr>seq := seq e + 1\<rparr>)"

definition take_id :: "api_env \<Rightarrow> string \<Rightarrow> string \<Rightarrow> parameters \<Rightarrow> unit act" where
  "take_id env host comment ps = (\<lambda>(w, e).
     if level env \<ge> 2 then
       (case insert_row env w host comment e of
          (Inl f, e) \<Rightarrow> (Inl f, w, e)
        | (Inr uid, e) \<Rightarrow>
            (case (if saveparameters env then insert_parameters env uid ps e else (Inr (), e)) of
               (r, e) \<Rightarrow> (r, w\<lparr>o_id := uid\<rparr>, e)))
     else (case GetInc e of (uid, e) \<Rightarrow> (Inr (), w\<lparr>o_id := uid\<rparr>, e)))"

definition register :: "nat \<Rightarrow> unit act" where
  "register a = (\<lambda>(w, e). (Inr (), w, e\<lparr>
     wl := wi_Add (o_id w) a ((wl e)\<lparr>InstanceList.heap := smap_put (InstanceList.heap (wl e)) a \<lparr>i_id = o_id w, i_workflow = o_workflow w\<rparr>\<rparr>),
     stats := IncWorkflowInstanceExecuting (stats e)\<rparr>))"

text \<open>The part of the constructor that reads, and the part that changes the engine.\<close>

definition decorate :: "string \<Rightarrow> string \<Rightarrow> string \<Rightarrow> string \<Rightarrow> wobj \<Rightarrow> wobj" where
  "decorate name host usr comment w =
     (let w = set_attr ''name'' name w;
          w = (if host = [] then w else if usr = [] then set_attr ''host'' host w else set_attr ''user'' usr (set_attr ''host'' host w))
      in if comment = [] then w else set_attr ''comment'' comment w)"

definition prepare :: "api_env \<Rightarrow> string \<Rightarrow> parameters \<Rightarrow> nat \<Rightarrow> string \<Rightarrow> string \<Rightarrow> string \<Rightarrow> unit act" where
  "prepare env name ps sched host usr comment =
     andthen (giving (\<lambda>_. if length name > 64 then Inl (Exn ''WorkflowInstance'' ''Workflow name is too long'' ''UNKNOWN_OBJECT'') else GetByName (workflows env) name)) (\<lambda>wf.
     andthen (on_obj (\<lambda>w. w\<lparr>o_workflow := w_id wf, o_notifications := w_notifications wf, o_schedule := sched\<rparr>)) (\<lambda>_.
     andthen (giving (\<lambda>_. parse_doc env (w_xml wf))) (\<lambda>d.
     andthen (on_obj (\<lambda>w. decorate name host usr comment (w\<lparr>o_doc := Some d\<rparr>))) (\<lambda>_.
     andthen (giving (\<lambda>(w, e). set_parameters env ps (the_doc w))) (\<lambda>d.
     andthen (giving (\<lambda>_. count_parameters (length ps) d)) (\<lambda>_.
     andthen (giving (\<lambda>_. import_schedules env (d_task_schedules d) d)) (\<lambda>d.
       on_obj (\<lambda>w. w\<lparr>o_doc := Some d\<rparr>))))))))"

definition construct :: "api_env \<Rightarrow> nat \<Rightarrow> string \<Rightarrow> parameters \<Rightarrow> nat \<Rightarrow> string \<Rightarrow> string \<Rightarrow> string \<Rightarrow> unit act" where
  "construct env a name ps sched host usr comment =
     andthen (prepare env name ps sched host usr comment) (\<lambda>_.
     andthen (take_id env host comment ps) (\<lambda>_.
     andthen (on_obj (\<lambda>w. set_attr ''id'' (show_nat (o_id w)) w)) (\<lambda>_.
     andthen (record_savepoint env False) (\<lambda>_. register a))))"

text \<open>The constructor that loads an instance by its id.\<close>

definition load_row :: "api_env \<Rightarrow> nat \<Rightarrow> nat \<Rightarrow> unit act" where
  "load_row env a uid = (\<lambda>(w, e). case smap_find (rows e) uid of
       None \<Rightarrow> (Inl (Exn ''WorkflowInstance'' ''Unknown workflow instance'' []), w, e)
     | Some r \<Rightarrow> (case rw_savepoint r of
           None \<Rightarrow> (Inl (Exn ''WorkflowInstance'' ''Could not resume workflow : empty savepoint'' []), w, e\<lparr>rows := smap_put (rows e) uid (r\<lparr>rw_status := ''TERMINATED''\<rparr>)\<rparr>)
         | Some s \<Rightarrow>
             if s = [] then (Inl (Exn ''WorkflowInstance'' ''Could not resume workflow : empty savepoint'' []), w, e\<lparr>rows := smap_put (rows e) uid (r\<lparr>rw_status := ''TERMINATED''\<rparr>)\<rparr>)
             else (case parse_doc env s of
                 Inl f \<Rightarrow> (Inl f, w\<lparr>o_id := uid\<rparr>, e)
               | Inr d \<Rightarrow> register a (set_attr ''id'' (show_nat uid)
                   (w\<lparr>o_id := uid, o_doc := Some d, o_schedule := (case rw_schedule r of Some i \<Rightarrow> i | None \<Rightarrow> 0), o_workflow := rw_workflow r\<rparr>), e))))"

text \<open>
  The destructor. It also runs when a constructor raises, since both constructors first call the one without arguments.
\<close>

definition destroy :: "wobj \<Rightarrow> engine \<Rightarrow> engine" where
  "destroy w e =
     (let e1 = (if \<not> o_shutting_down w \<and> o_doc w \<noteq> None then
          (let e = e\<lparr>called := called e @ map (\<lambda>n. (n, o_id w, o_errors w)) (o_notifications w)\<rparr>;
               e = e\<lparr>wl := wi_Remove (o_id w) (wl e)\<rparr>;
               e = (if o_schedule w \<noteq> 0 then e\<lparr>stopped := stopped e @ [(o_schedule w, o_errors w = 0)]\<rparr> else e)
           in if o_id w \<noteq> 0 then e\<lparr>stats := DecWorkflowInstanceExecuting (stats e)\<rparr> else e)
        else e)
      in send_event ''INSTANCE_TERMINATED'' (o_id w) e1)"

definition new_object :: "(nat \<Rightarrow> unit act) \<Rightarrow> engine \<Rightarrow> nat res \<times> engine" where
  "new_object c e = (let a = next_addr e in
     case c a (WorkflowInstance_new, e\<lparr>next_addr := Suc a\<rparr>) of
       (Inr u, w, e') \<Rightarrow> (Inr a, e'\<lparr>objects := smap_put (objects e') a w\<rparr>)
     | (Inl f, w, e') \<Rightarrow> (Inl f, destroy w e'))"

definition delete_object :: "nat \<Rightarrow> engine \<Rightarrow> engine" where
  "delete_object a e = (case smap_find (objects e) a of
       None \<Rightarrow> e
     | Some w \<Rightarrow> (let e' = destroy w e in
         e'\<lparr>objects := smap_del (objects e') a, wl := (wl e')\<lparr>InstanceList.heap := smap_del (InstanceList.heap (wl e')) a, ended := o_id w # ended (wl e')\<rparr>\<rparr>))"

section \<open>Running\<close>

text \<open>
  \<open>Start\<close>, \<open>Resume\<close>, \<open>DebugResume\<close> and \<open>Migrate\<close>: whether the instance ended at once (\<open>workflow_ended\<close>). \<open>fresh\<close> is
  whether the instance is put in the executing status first.
\<close>

definition run_object :: "bool \<Rightarrow> bool \<Rightarrow> nat \<Rightarrow> wobj \<Rightarrow> wobj" where
  "run_object fresh t n w =
     (let w = (if fresh then set_attr ''status'' ''EXECUTING'' w else w)
      in if \<not> t then w
         else let w = set_attr ''status'' ''TERMINATED'' (w\<lparr>o_errors := n\<rparr>) in if 0 < n then set_attr ''errors'' (show_nat n) w else w)"

definition run_stats :: "bool \<Rightarrow> nat \<Rightarrow> engine \<Rightarrow> engine" where
  "run_stats t n e = (if t \<and> 0 < n then e\<lparr>stats := IncWorkflowInstanceErrors (stats e)\<rparr> else e)"

definition begin_run :: "api_env \<Rightarrow> bool \<Rightarrow> nat \<Rightarrow> engine \<Rightarrow> bool res \<times> engine" where
  "begin_run env fresh a e = (case smap_find (objects e) a of
       None \<Rightarrow> (Inl (UB ''freed instance''), e)
     | Some w \<Rightarrow>
        (let t = terminates env (o_id w); n = end_errors env (o_id w)
         in case record_savepoint env False (run_object fresh t n w, run_stats t n e) of
              (r, w2, e') \<Rightarrow> (case r of Inl f \<Rightarrow> (Inl f, e'\<lparr>objects := smap_put (objects e') a w2\<rparr>)
                                  | Inr u \<Rightarrow> (Inr t, e'\<lparr>objects := smap_put (objects e') a w2\<rparr>))))"

definition start_instance :: "api_env \<Rightarrow> bool \<Rightarrow> nat \<Rightarrow> engine \<Rightarrow> bool res \<times> engine" where
  "start_instance env fresh a = andthen (begin_run env fresh a) (\<lambda>t. andthen (doing (\<lambda>e. case smap_find (objects e) a of
     None \<Rightarrow> e | Some w \<Rightarrow> send_event ''INSTANCE_STARTED'' (o_id w) e)) (\<lambda>_. giving (\<lambda>_. Inr t)))"

text \<open>\<open>delete wi\<close> when the instance ended at once.\<close>

definition delete_if :: "bool \<Rightarrow> nat \<Rightarrow> engine \<Rightarrow> engine" where
  "delete_if t a e = (if t then delete_object a e else e)"

section \<open>Restart of the engine\<close>

definition resume_one :: "api_env \<Rightarrow> nat \<Rightarrow> engine \<Rightarrow> unit res \<times> engine" where
  "resume_one env uid e = (case new_object (\<lambda>a. load_row env a uid) e of
       (Inl (Exn c m k), e') \<Rightarrow> (Inr (), e')
     | (Inl f, e') \<Rightarrow> (Inl f, e')
     | (Inr a, e') \<Rightarrow> (case start_instance env False a e' of
           (Inl (Exn c m k), e'') \<Rightarrow> (Inr (), delete_object a e'')
         | (Inl f, e'') \<Rightarrow> (Inl f, e'')
         | (Inr t, e'') \<Rightarrow> (Inr (), delete_if t a e'')))"

fun resume_each :: "api_env \<Rightarrow> nat list \<Rightarrow> engine \<Rightarrow> unit res \<times> engine" where
  "resume_each env [] e = (Inr (), e)"
| "resume_each env (i # is) e = (case resume_one env i e of (Inl f, e') \<Rightarrow> (Inl f, e') | (Inr u, e') \<Rightarrow> resume_each env is e')"

definition own_rows :: "api_env \<Rightarrow> engine \<Rightarrow> nat list" where
  "own_rows env e = map fst (filter (\<lambda>(i, r). rw_status r = ''EXECUTING'' \<and> rw_node r = node_name env) (rows e))"

definition Resume_all :: "api_env \<Rightarrow> engine \<Rightarrow> unit res \<times> engine" where
  "Resume_all env e = (case resume_each env (own_rows env e) e of
       (Inl f, e') \<Rightarrow> (Inl f, e')
     | (Inr u, e') \<Rightarrow> (Inr (), if savepoint_level env \<le> 1 then e'\<lparr>rows := filter (\<lambda>(i, r). rw_status r \<noteq> ''EXECUTING'') (rows e')\<rparr> else e'))"

text \<open>The savepoint of an instance when the engine stops (\<open>RecordSavepoint\<close> with \<open>force\<close>, then \<open>Shutdown\<close> and \<open>delete\<close>).\<close>

definition stop_instance :: "api_env \<Rightarrow> nat \<Rightarrow> engine \<Rightarrow> unit res \<times> engine" where
  "stop_instance env a e = (case smap_find (objects e) a of
       None \<Rightarrow> (Inl (UB ''freed instance''), e)
     | Some w \<Rightarrow> (case record_savepoint env True (w, e) of
           (Inl f, w', e') \<Rightarrow> (Inl f, e')
         | (Inr u, w', e') \<Rightarrow> (Inr (), delete_object a (e'\<lparr>objects := smap_put (objects e') a (w'\<lparr>o_shutting_down := True\<rparr>)\<rparr>))))"

section \<open>Queries\<close>

datatype api_answer = Answer "(string \<times> string) list" | Document string | Sleeps nat | NotHandled

definition need :: "bool \<Rightarrow> engine \<Rightarrow> unit res \<times> engine" where
  "need b = giving (\<lambda>_. if b then Inr () else Inl insufficient)"

definition on_list :: "(wi_list \<Rightarrow> 'a res \<times> wi_list) \<Rightarrow> engine \<Rightarrow> 'a res \<times> engine" where
  "on_list f e = (case f (wl e) of (r, l) \<Rightarrow> (r, e\<lparr>wl := l\<rparr>))"

definition check_mode :: "string \<Rightarrow> unit res" where
  "check_mode mode = (if mode \<noteq> ''synchronous'' \<and> mode \<noteq> ''asynchronous''
     then Inl (Exn ''WorkflowInstance'' (''mode must be '' @ [CHR 0x27] @ ''synchronous'' @ [CHR 0x27] @ '' or '' @ [CHR 0x27] @ ''asynchronous'' @ [CHR 0x27]) ''INVALID_PARAMETER'')
     else Inr ())"

definition launch_new :: "api_env \<Rightarrow> string \<Rightarrow> query \<Rightarrow> parameters \<Rightarrow> engine \<Rightarrow> nat res \<times> engine" where
  "launch_new env name q ps e =
     (case new_object (\<lambda>a. construct env a name ps 0 (GetRootAttribute_default q ''host'' []) (GetRootAttribute_default q ''user'' []) (GetRootAttribute_default q ''comment'' []))
          (e\<lparr>stats := IncWorkflowQueries (stats e)\<rparr>) of
        (Inl (Exn c m k), e1) \<Rightarrow> (Inl (Exn c m k), e1\<lparr>stats := IncWorkflowExceptions (stats e1)\<rparr>)
      | x \<Rightarrow> x)"

text \<open>After \<open>Start\<close> the object is read again; other threads may have ended the instance.\<close>

definition launch_end :: "api_env \<Rightarrow> string \<Rightarrow> user \<Rightarrow> int \<Rightarrow> int \<Rightarrow> nat \<Rightarrow> nat \<Rightarrow> bool \<Rightarrow> engine \<Rightarrow> api_answer res \<times> engine" where
  "launch_end env mode u timeout now a uid t e =
     (let e = (if t then e else others env e) in
      if smap_find (objects e) a = None then (Inl (UB ''freed instance''), e)
      else if \<not> t \<and> mode = ''synchronous'' then
        (case on_list (Wait_enter u uid timeout now) e of
           (Inl f, e) \<Rightarrow> (Inl f, e)
         | (Inr None, e) \<Rightarrow> (Inr (Sleeps uid), e)
         | (Inr (Some b), e) \<Rightarrow> (Inr (Answer ((''workflow-instance-id'', show_nat uid) # (if b then [] else [(''wait'', ''timedout'')]))), e))
      else (Inr (Answer [(''workflow-instance-id'', show_nat uid)]), delete_if t a e))"

definition launch_run :: "api_env \<Rightarrow> string \<Rightarrow> user \<Rightarrow> int \<Rightarrow> int \<Rightarrow> nat \<Rightarrow> engine \<Rightarrow> api_answer res \<times> engine" where
  "launch_run env mode u timeout now a =
     andthen (giving (\<lambda>e. case smap_find (objects e) a of None \<Rightarrow> Inl (UB ''freed instance'') | Some w \<Rightarrow> Inr (o_id w))) (\<lambda>uid.
     andthen (start_instance env True a) (\<lambda>t. launch_end env mode u timeout now a uid t))"

definition Launch :: "api_env \<Rightarrow> string \<Rightarrow> user \<Rightarrow> query \<Rightarrow> parameters \<Rightarrow> int \<Rightarrow> engine \<Rightarrow> api_answer res \<times> engine" where
  "Launch env name u q ps now =
     (let mode = GetRootAttribute_default q ''mode'' ''asynchronous'' in
      andthen (giving (\<lambda>_. check_mode mode)) (\<lambda>_.
      andthen (giving (\<lambda>_. GetRootAttributeInt_default q ''timeout'' 0)) (\<lambda>timeout.
      andthen (launch_new env name q ps) (\<lambda>a. launch_run env mode u timeout now a))))"

definition delete_instance :: "nat \<Rightarrow> engine \<Rightarrow> unit res \<times> engine" where
  "delete_instance uid e =
     (if (case smap_find (rows e) uid of None \<Rightarrow> True | Some r \<Rightarrow> rw_status r \<noteq> ''TERMINATED'')
      then (Inl (Exn ''WorkflowInstanceAPI'' ''Instance ID not found'' ''UNKNOWN_INSTANCE''), e)
      else (Inr (), e\<lparr>rows := smap_del (rows e) uid, t_parameters := filter (\<lambda>(i, p). i \<noteq> uid) (t_parameters e),
        t_filters := filter (\<lambda>(i, p). i \<noteq> uid) (t_filters e), t_datastore := filter (\<lambda>(k, i). i \<noteq> uid) (t_datastore e),
        t_tagged := filter (\<lambda>(i, t). i \<noteq> uid) (t_tagged e)\<rparr>))"

definition unknown_instance :: "bool \<Rightarrow> engine \<Rightarrow> unit res \<times> engine" where
  "unknown_instance found = giving (\<lambda>_. if found then Inr () else Inl (Exn ''WorkflowInstance'' ''Unknown workflow instance'' ''UNKNOWN_INSTANCE''))"

definition count_stat :: "(statistics \<Rightarrow> statistics) \<Rightarrow> engine \<Rightarrow> unit res \<times> engine" where
  "count_stat f = doing (\<lambda>e. e\<lparr>stats := f (stats e)\<rparr>)"

definition debug_row :: "api_env \<Rightarrow> nat \<Rightarrow> wi_row \<Rightarrow> engine \<Rightarrow> nat res \<times> engine" where
  "debug_row env uid r e =
     (let e = (if savepoint_level env < 2 then snd (GetInc e) else e); row = next_row e in
      case row_error env row of
        Some m \<Rightarrow> (Inl (DB_error m), e)
      | None \<Rightarrow>
         (let e = e\<lparr>rows := smap_put (rows e) row (r\<lparr>rw_node := node_name env, rw_schedule := Some 0, rw_host := Some (case rw_host r of Some h \<Rightarrow> h | None \<Rightarrow> []),
                rw_status := ''EXECUTING'', rw_comment := Some (case rw_comment r of Some c \<Rightarrow> c | None \<Rightarrow> []),
                rw_savepoint := Some (case rw_savepoint r of Some x \<Rightarrow> x | None \<Rightarrow> []), rw_errors := 0\<rparr>), next_row := Suc row\<rparr>;
              new_id = (if savepoint_level env \<ge> 2 then row else 0)
          in (Inr new_id, if saveparameters env
                then e\<lparr>t_parameters := t_parameters e @ map (\<lambda>(i, p). (new_id, p)) (filter (\<lambda>(i, p). i = uid) (t_parameters e))\<rparr> else e)))"

definition debug_resume :: "api_env \<Rightarrow> user \<Rightarrow> nat \<Rightarrow> engine \<Rightarrow> api_answer res \<times> engine" where
  "debug_resume env u uid e = (case smap_find (rows e) uid of
       Some r \<Rightarrow>
         (if rw_status r \<noteq> ''TERMINATED'' then (Inl (Exn ''Workflow Debug Resume'' ''Unable to find instance to resume, or instance is not terminated'' []), e)
          else if \<not> HasAccessToWorkflow u (rw_workflow r) ''read'' \<or> \<not> HasAccessToWorkflow u (rw_workflow r) ''exec'' then (Inl insufficient, e)
          else andthen (debug_row env uid r) (\<lambda>new_id.
            andthen (\<lambda>e. case new_object (\<lambda>a. load_row env a new_id) e of
                (Inl (Exn c m k), e1) \<Rightarrow> (Inl (Exn c m k), e1\<lparr>stats := IncWorkflowExceptions (stats e1)\<rparr>)
              | x \<Rightarrow> x) (\<lambda>a.
            andthen (start_instance env True a) (\<lambda>t.
            andthen (doing (delete_if t a)) (\<lambda>_.
              giving (\<lambda>_. Inr (Answer [(''workflow-instance-id'', show_nat new_id)])))))) e)
     | None \<Rightarrow> (Inl (Exn ''Workflow Debug Resume'' ''Unable to find instance to resume, or instance is not terminated'' []), e))"

definition migrate :: "api_env \<Rightarrow> nat \<Rightarrow> engine \<Rightarrow> api_answer res \<times> engine" where
  "migrate env uid e = (case smap_find (rows e) uid of
       Some r \<Rightarrow>
         (if rw_status r \<noteq> ''EXECUTING'' \<or> rw_node r = node_name env then (Inl (Exn ''Workflow Migration'' ''Workflow ID not found or already belongs to this node'' []), e)
          else (case new_object (\<lambda>a. load_row env a uid) e of
              (Inl f, e1) \<Rightarrow> (Inl f, e1)
            | (Inr a, e1) \<Rightarrow> (case begin_run env False a e1 of
                  (Inl (Exn c m k), e2) \<Rightarrow> (Inl (Exn c m k), delete_object a e2)
                | (Inl f, e2) \<Rightarrow> (Inl f, e2)
                | (Inr t, e2) \<Rightarrow>
                    (Inr (Answer []), delete_if t a (case smap_find (rows e2) uid of None \<Rightarrow> e2 | Some r \<Rightarrow> e2\<lparr>rows := smap_put (rows e2) uid (r\<lparr>rw_node := node_name env\<rparr>)\<rparr>)))))
     | None \<Rightarrow> (Inl (Exn ''Workflow Migration'' ''Workflow ID not found or already belongs to this node'' []), e))"

definition query_row :: "user \<Rightarrow> nat \<Rightarrow> engine \<Rightarrow> api_answer res" where
  "query_row u uid e = (case smap_find (rows e) uid of
       None \<Rightarrow> Inl (Exn ''WorkflowInstance'' ''Unknown workflow instance'' ''UNKNOWN_INSTANCE'')
     | Some r \<Rightarrow>
        if \<not> HasAccessToWorkflow u (rw_workflow r) ''read'' then Inl insufficient
        else if rw_status r \<noteq> ''TERMINATED'' then Inl (Exn ''WorkflowInstance'' ''Workflow instance is still running on another node, query the corresponding node'' ''WRONG_NODE'')
        else case rw_savepoint r of
            None \<Rightarrow> Inl (Exn ''WorkflowInstance'' ''Invalid workflow XML'' ''INVALID_XML'')
          | Some x \<Rightarrow> Inr (Document x))"

definition query_instance :: "user \<Rightarrow> nat \<Rightarrow> engine \<Rightarrow> api_answer res \<times> engine" where
  "query_instance u uid =
     andthen (count_stat IncWorkflowStatusQueries) (\<lambda>_.
     andthen (on_list (wi_SendInstanceStatus u uid)) (\<lambda>found. giving (\<lambda>e. if found then Inr (Answer []) else query_row u uid e)))"

text \<open>\<open>flushed\<close> are the instances whose retries and queued tasks are dropped.\<close>

definition cancel_instance :: "user \<Rightarrow> nat \<Rightarrow> engine \<Rightarrow> api_answer res \<times> engine" where
  "cancel_instance u uid =
     andthen (count_stat IncWorkflowCancelQueries) (\<lambda>_.
     andthen (on_list (wi_Cancel u uid)) (\<lambda>found.
     andthen (unknown_instance found) (\<lambda>_.
     andthen (doing (\<lambda>e. e\<lparr>flushed := flushed e @ [uid]\<rparr>)) (\<lambda>_. giving (\<lambda>_. Inr (Answer []))))))"

definition wait_instance :: "user \<Rightarrow> query \<Rightarrow> nat \<Rightarrow> int \<Rightarrow> engine \<Rightarrow> api_answer res \<times> engine" where
  "wait_instance u q uid now =
     andthen (giving (\<lambda>_. GetRootAttributeInt_default q ''timeout'' 0)) (\<lambda>timeout.
     andthen (on_list (Wait_enter u uid timeout now)) (\<lambda>b. giving (\<lambda>_. case b of
         None \<Rightarrow> Inr (Sleeps uid)
       | Some True \<Rightarrow> Inr (Answer [])
       | Some False \<Rightarrow> Inl (Exn ''WorkflowInstance'' ''Wait timed out'' ''TIMED_OUT''))))"

definition kill_task :: "user \<Rightarrow> query \<Rightarrow> nat \<Rightarrow> engine \<Rightarrow> api_answer res \<times> engine" where
  "kill_task u q uid =
     andthen (giving (\<lambda>_. GetRootAttributeInt q ''pid'')) (\<lambda>pid.
     andthen (on_list (wi_KillTask u uid pid)) (\<lambda>found.
     andthen (unknown_instance found) (\<lambda>_. giving (\<lambda>_. Inr (Answer [])))))"

text \<open>The rights are those on the workflow whose number is the number of the instance.\<close>

definition tag_query :: "user \<Rightarrow> query \<Rightarrow> nat \<Rightarrow> (nat \<Rightarrow> nat \<Rightarrow> engine \<Rightarrow> unit res \<times> engine) \<Rightarrow> engine \<Rightarrow> unit res \<times> engine" where
  "tag_query u q uid f =
     andthen (need (HasAccessToWorkflow u uid ''exec'' \<or> HasAccessToWorkflow u uid ''edit'')) (\<lambda>_.
     andthen (giving (\<lambda>_. GetRootAttributeInt q ''tag_id'')) (\<lambda>t. f uid (to_unsigned t)))"

definition plain_query :: "user \<Rightarrow> query \<Rightarrow> int \<Rightarrow> string \<Rightarrow> nat \<Rightarrow> engine \<Rightarrow> api_answer res \<times> engine" where
  "plain_query u q now action uid =
     (if action = ''query'' then query_instance u uid
      else if action = ''cancel'' then cancel_instance u uid
      else if action = ''wait'' then wait_instance u q uid now
      else if action = ''killtask'' then kill_task u q uid
      else if action = ''delete'' then
        andthen (need (IsAdmin u)) (\<lambda>_. andthen (delete_instance uid) (\<lambda>_.
        andthen (doing (send_event ''INSTANCE_REMOVED'' uid)) (\<lambda>_. giving (\<lambda>_. Inr (Answer [])))))
      else if action = ''tag'' then andthen (tag_query u q uid tag_instance) (\<lambda>_. giving (\<lambda>_. Inr (Answer [])))
      else if action = ''untag'' then
        andthen (tag_query u q uid untag_instance) (\<lambda>_. andthen (doing (send_event ''INSTANCE_UNTAGGED'' uid)) (\<lambda>_. giving (\<lambda>_. Inr (Answer []))))
      else giving (\<lambda>_. Inr NotHandled))"

definition launch_query :: "api_env \<Rightarrow> user \<Rightarrow> query \<Rightarrow> parameters \<Rightarrow> int \<Rightarrow> engine \<Rightarrow> api_answer res \<times> engine" where
  "launch_query env u q ps now =
     andthen (giving (\<lambda>_. GetRootAttribute q ''name'')) (\<lambda>name.
     andthen (giving (\<lambda>_. GetByName (workflows env) name)) (\<lambda>wf.
     andthen (need (HasAccessToWorkflow u (w_id wf) ''exec'')) (\<lambda>_. Launch env name u q ps now)))"

definition instance_query :: "api_env \<Rightarrow> user \<Rightarrow> query \<Rightarrow> parameters \<Rightarrow> int \<Rightarrow> engine \<Rightarrow> api_answer res \<times> engine" where
  "instance_query env u q ps now =
     andthen (giving (\<lambda>_. GetRootAttribute q ''action'')) (\<lambda>action.
     if action = ''launch'' then launch_query env u q ps now
     else andthen (giving (\<lambda>_. bindr (GetRootAttributeInt q ''id'') (\<lambda>i. Inr (to_unsigned i)))) (\<lambda>uid.
       if action = ''debugresume'' then debug_resume env u uid
       else if action = ''migrate'' then andthen (need (IsAdmin u)) (\<lambda>_. migrate env uid)
       else plain_query u q now action uid))"

section \<open>What a sequence of operations keeps\<close>

locale kept =
  fixes rel :: "'s \<Rightarrow> 's \<Rightarrow> bool"
  assumes rel_refl: "rel s s"
    and rel_trans: "rel s t \<Longrightarrow> rel t u \<Longrightarrow> rel s u"
begin

definition holds :: "('s \<Rightarrow> 'a res \<times> 's) \<Rightarrow> bool" where
  "holds m \<longleftrightarrow> (\<forall>s. rel s (snd (m s)))"

lemma holds_giving: "holds (giving f)"
  by (simp add: holds_def giving_def rel_refl)

lemma holds_doing: "(\<And>s. rel s (f s)) \<Longrightarrow> holds (doing f)"
  by (simp add: holds_def doing_def)

lemma holds_andthen:
  assumes "holds m" "\<And>x. holds (f x)"
  shows "holds (andthen m f)"
  unfolding holds_def
proof
  fix s
  obtain r t where r: "m s = (r, t)" by fastforce
  moreover have "rel s t" using assms(1) r by (metis holds_def snd_conv)
  moreover have "rel t (snd (f x t))" for x using assms(2) by (simp add: holds_def)
  ultimately show "rel s (snd (andthen m f s))" using rel_trans by (cases r) (auto simp: andthen_def)
qed

lemma holds_outcome: "holds m \<Longrightarrow> m s = (r, t) \<Longrightarrow> rel s t"
  unfolding holds_def by (metis snd_conv)

end

lemma andthen_Inr: "andthen m f s = (Inr y, t) \<longleftrightarrow> (\<exists>x u. m s = (Inr x, u) \<and> f x u = (Inr y, t))"
  by (auto simp: andthen_def split: prod.splits sum.splits)

lemma andthen_Inl: "andthen m f s = (Inl e, t) \<longleftrightarrow> m s = (Inl e, t) \<or> (\<exists>x u. m s = (Inr x, u) \<and> f x u = (Inl e, t))"
  by (auto simp: andthen_def split: prod.splits sum.splits)

lemma giving_eq: "giving f s = (r, t) \<longleftrightarrow> t = s \<and> f s = r"
  by (auto simp: giving_def)

lemma on_obj_eq: "on_obj f (w, e) = (r, v, e') \<longleftrightarrow> r = Inr () \<and> v = f w \<and> e' = e"
  by (auto simp: on_obj_def doing_def)

lemmas act_eqs = andthen_Inr andthen_Inl giving_eq on_obj_eq

section \<open>The parameters of a new instance\<close>

lemma set_first_Some:
  "set_first n v ps = Some ps' \<Longrightarrow> map fst ps' = map fst ps \<and> map_of ps' n = Some v \<and> n \<in> fst ` set ps \<and> (\<forall>m. m \<noteq> n \<longrightarrow> map_of ps' m = map_of ps m)"
  by (induction ps arbitrary: ps') (auto split: if_splits)

lemma set_parameters_sets:
  assumes "set_parameters env ps d = Inr d'" "distinct (map fst ps)" "list_all (\<lambda>p. CHR 0x27 \<notin> set (fst p)) ps"
  shows "map fst (d_params d') = map fst (d_params d) \<and> (\<forall>(n, v) \<in> set ps. map_of (d_params d') n = Some v \<and> n \<in> set (map fst (d_params d))) \<and>
    (\<forall>n. n \<notin> fst ` set ps \<longrightarrow> map_of (d_params d') n = map_of (d_params d) n) \<and> d_task_schedules d' = d_task_schedules d"
  using assms
proof (induction ps arbitrary: d)
  case (Cons p ps)
  obtain n v where p: "p = (n, v)" by fastforce
  then obtain qs where qs: "set_first n v (d_params d) = Some qs" "set_parameters env ps (d\<lparr>d_params := qs\<rparr>) = Inr d'"
    using Cons.prems by (auto simp: set_parameter_def split: option.splits)
  note first = set_first_Some [OF qs(1)]
  from Cons.IH [OF qs(2)] Cons.prems
  have IH: "map fst (d_params d') = map fst qs" "\<forall>(n, v) \<in> set ps. map_of (d_params d') n = Some v \<and> n \<in> set (map fst qs)"
    "\<forall>n. n \<notin> fst ` set ps \<longrightarrow> map_of (d_params d') n = map_of qs n" "d_task_schedules d' = d_task_schedules d" by auto
  have "n \<notin> fst ` set ps" using Cons.prems(2) p by simp
  then have "map_of (d_params d') n = Some v" using IH(3) first by simp
  moreover have "set (map fst qs) = set (map fst (d_params d))" using first by metis
  ultimately show ?case using IH first p by (intro conjI ballI allI impI) auto
qed simp

lemma import_keeps_parameters: "import_schedules env ns d = Inr d' \<Longrightarrow> d_params d' = d_params d"
proof (induction ns arbitrary: d)
  case (Cons n ns)
  obtain b where b: "(if CHR 0x27 \<in> set n then odd_schedule env n d else Inr (n \<in> set (d_schedules d))) = Inr b"
    using Cons.prems by (cases "if CHR 0x27 \<in> set n then odd_schedule env n d else Inr (n \<in> set (d_schedules d))") simp_all
  show ?case
  proof (cases b)
    case True
    then show ?thesis using Cons.IH [of d] Cons.prems b by simp
  next
    case False
    then show ?thesis using Cons.IH [of "d\<lparr>d_schedules := d_schedules d @ [n]\<rparr>"] Cons.prems b
      by (cases "GetByName (schedules env) n"; cases "parse_doc env (projr (GetByName (schedules env) n))") simp_all
  qed
qed simp

lemma the_doc_Some [simp]: "the_doc (w\<lparr>o_doc := Some d\<rparr>) = d"
  by (simp add: the_doc_def)

lemma the_doc_updates [simp]: "the_doc (w\<lparr>o_errors := n\<rparr>) = the_doc w" "the_doc (w\<lparr>o_id := i\<rparr>) = the_doc w"
  by (simp_all add: the_doc_def)

lemma set_attr_params [simp]: "d_params (the_doc (set_attr n v w)) = d_params (the_doc w)"
  by (simp add: set_attr_def the_doc_def split: option.splits)

lemma set_attr_fields [simp]:
  "o_id (set_attr n v w) = o_id w" "o_workflow (set_attr n v w) = o_workflow w" "o_shutting_down (set_attr n v w) = o_shutting_down w"
  "o_schedule (set_attr n v w) = o_schedule w" "o_notifications (set_attr n v w) = o_notifications w" "o_errors (set_attr n v w) = o_errors w"
  "o_doc (set_attr n v w) = None \<longleftrightarrow> o_doc w = None"
  by (simp_all add: set_attr_def)

lemma decorate_fields [simp]:
  "d_params (the_doc (decorate name host usr comment w)) = d_params (the_doc w)" "o_id (decorate name host usr comment w) = o_id w"
  "o_workflow (decorate name host usr comment w) = o_workflow w" "o_shutting_down (decorate name host usr comment w) = o_shutting_down w"
  "o_schedule (decorate name host usr comment w) = o_schedule w"
  by (simp_all add: decorate_def Let_def)

lemma same_names:
  assumes "distinct xs" "set xs \<subseteq> set ys" "length ys = length xs"
  shows "set ys = set xs \<and> distinct ys"
proof -
  have "card (set xs) = length xs" using assms(1) by (rule distinct_card)
  then have c: "card (set xs) \<le> card (set ys)" "card (set ys) \<le> card (set xs)"
    using assms card_mono [OF _ assms(2)] card_length [of ys] by simp_all
  then have "set xs = set ys" using assms(2) by (intro card_subset_eq) simp_all
  then show ?thesis using c assms(3) \<open>card (set xs) = length xs\<close> by (simp add: card_distinct)
qed

lemma prepare_Inr:
  assumes "prepare env name ps sched host usr comment (w, e) = (Inr (), v, e')" "distinct (map fst ps)" "list_all (\<lambda>p. CHR 0x27 \<notin> set (fst p)) ps"
  shows "\<exists>wf d. GetByName (workflows env) name = Inr wf \<and> parse_doc env (w_xml wf) = Inr d \<and> o_workflow v = w_id wf \<and> o_doc v \<noteq> None \<and> e' = e \<and>
    distinct (map fst (d_params d)) \<and> map fst (d_params (the_doc v)) = map fst (d_params d) \<and> set (d_params (the_doc v)) = set ps"
proof -
  obtain wf d d1 d2 w1 where wf: "GetByName (workflows env) name = Inr wf" "parse_doc env (w_xml wf) = Inr d"
    and w1: "w1 = decorate name host usr comment (w\<lparr>o_workflow := w_id wf, o_notifications := w_notifications wf, o_schedule := sched, o_doc := Some d\<rparr>)"
    and d1: "set_parameters env ps (the_doc w1) = Inr d1" "count_parameters (length ps) d1 = Inr ()"
    and d2: "import_schedules env (d_task_schedules d1) d1 = Inr d2" "v = w1\<lparr>o_doc := Some d2\<rparr>" "e' = e"
    using assms(1) unfolding prepare_def by (simp only: act_eqs split_paired_Ex prod.case) (auto split: if_split_asm)
  have w1': "d_params (the_doc w1) = d_params d" "o_workflow w1 = w_id wf" by (simp_all add: w1)
  from set_parameters_sets [OF d1(1) assms(2,3)] w1'
  have sp: "map fst (d_params d1) = map fst (d_params d)" "\<And>n v. (n, v) \<in> set ps \<Longrightarrow> map_of (d_params d1) n = Some v \<and> n \<in> set (map fst (d_params d))"
    by auto
  have "length (d_params d1) = length ps" using d1(2) by (simp add: count_parameters_def split: if_splits)
  then have len: "length (map fst (d_params d)) = length (map fst ps)" using arg_cong [OF sp(1), of length] by simp
  have sub: "set (map fst ps) \<subseteq> set (map fst (d_params d))" using sp(2) by fastforce
  from same_names [OF assms(2) sub len] have names: "set (map fst (d_params d)) = set (map fst ps)" "distinct (map fst (d_params d))" by simp_all
  have fin: "the_doc v = d2" "d_params d2 = d_params d1" using d2 import_keeps_parameters by (simp_all add: the_doc_def)
  have dist: "distinct (map fst (d_params d1))" using names(2) sp(1) by simp
  have "map_of (d_params d1) = map_of ps"
  proof
    fix n show "map_of (d_params d1) n = map_of ps n"
    proof (cases "n \<in> fst ` set ps")
      case True
      then obtain v where "(n, v) \<in> set ps" by auto
      then show ?thesis using sp(2) assms(2) by simp
    next
      case False
      then have "n \<notin> set (map fst ps)" "n \<notin> set (map fst (d_params d1))" using names(1) sp(1) by simp_all
      then show ?thesis by (simp add: map_of_eq_None_iff [THEN iffD2])
    qed
  qed
  then have "set (d_params d1) = set ps" using map_of_inject_set [OF dist assms(2)] by simp
  then show ?thesis using wf d2 w1' fin names(2) sp(1) by (intro exI [of _ wf] exI [of _ d]) simp
qed

section \<open>The list of instances\<close>

definition next_id :: "api_env \<Rightarrow> engine \<Rightarrow> nat" where
  "next_id env e = (if level env \<ge> 2 then next_row e else unat (seq e))"

text \<open>Nothing of the instances in memory changes.\<close>

definition quiet :: "api_env \<Rightarrow> engine \<Rightarrow> engine \<Rightarrow> bool" where
  "quiet env e e' \<longleftrightarrow> wl e' = wl e \<and> objects e' = objects e \<and> stats e' = stats e \<and> next_addr e' = next_addr e \<and> seq e' = seq e \<and> next_row e \<le> next_row e'"

text \<open>Nor of the identity of the object.\<close>

definition same_object :: "wobj \<Rightarrow> wobj \<Rightarrow> bool" where
  "same_object w v \<longleftrightarrow> o_id v = o_id w \<and> o_workflow v = o_workflow w \<and> o_shutting_down v = o_shutting_down w \<and> (o_doc v = None \<longleftrightarrow> o_doc w = None) \<and>
     d_params (the_doc v) = d_params (the_doc w)"

lemma quiet_refl [simp]: "quiet env e e"
  by (simp add: quiet_def)

lemma quiet_trans: "quiet env e f \<Longrightarrow> quiet env f g \<Longrightarrow> quiet env e g"
  by (simp add: quiet_def)

lemma same_object_refl [simp]: "same_object w w"
  by (simp add: same_object_def)

lemma quiet_updates [simp]:
  "quiet env e (e\<lparr>rows := rs\<rparr>)" "quiet env e (e\<lparr>t_filters := fs\<rparr>)" "quiet env e (e\<lparr>t_parameters := ps\<rparr>)" "quiet env e (send_event t i e)"
  "quiet env e (e\<lparr>t_tagged := ts\<rparr>)" "quiet env e (e\<lparr>t_tag := tg, next_tag := n\<rparr>)" "quiet env e (e\<lparr>rows := rs, t_filters := fs\<rparr>)"
  "quiet env e (e\<lparr>rows := rs, next_row := max (next_row e) m\<rparr>)" "quiet env e (e\<lparr>rows := rs, next_row := Suc (next_row e)\<rparr>)"
  by (simp_all add: quiet_def send_event_def)

lemma quiet_send: "quiet env e e' \<Longrightarrow> quiet env e (send_event t i e')"
  by (simp add: quiet_def send_event_def)

lemma Tag_Create_quiet: "quiet env e (snd (Tag_Create l e))"
  by (auto simp: Tag_Create_def intro!: quiet_send split: list.splits)

lemma tag_instance_quiet: "quiet env e (snd (tag_instance i t e))"
  by (auto simp: tag_instance_def intro!: quiet_send split: option.splits)

lemma untag_instance_quiet: "quiet env e (snd (untag_instance i t e))"
  by (simp add: untag_instance_def)

lemma fill_automatic_tags_quiet: "quiet env e (fill_automatic_tags uid ns e)"
proof (induction ns arbitrary: e)
  case (Cons n ns)
  obtain r e1 where r: "Tag_Create n e = (r, e1)" by fastforce
  have e1: "quiet env e e1" using Tag_Create_quiet [of env e n] r by simp
  show ?case
  proof (cases r)
    case (Inr t)
    obtain r2 e2 where r2: "tag_instance uid t e1 = (r2, e2)" by fastforce
    have e2: "quiet env e e2" using quiet_trans [OF e1] tag_instance_quiet [of env e1 uid t] r2 by simp
    show ?thesis using Cons.IH [of e2] quiet_trans [OF e2] e2 by (cases r2) (simp_all add: andthen_def r Inr r2)
  qed (use e1 in \<open>simp add: andthen_def r\<close>)
qed simp

lemma write_savepoint_quiet: "write_savepoint env w e k = Some e' \<Longrightarrow> quiet env e e'"
proof -
  have f: "quiet env e (fill_automatic_tags i ns (x\<lparr>t_filters := fs\<rparr>))" if "quiet env e x" for i ns x fs
    using quiet_trans [OF quiet_trans [OF that, of "x\<lparr>t_filters := fs\<rparr>"] fill_automatic_tags_quiet] by simp
  show "write_savepoint env w e k = Some e' \<Longrightarrow> quiet env e e'"
    by (auto simp: write_savepoint_def Let_def intro!: f split: if_splits option.splits)
qed

lemma attempts_quiet: "(\<And>k e'. f k = Some e' \<Longrightarrow> quiet env e e') \<Longrightarrow> attempts r l f n k = Inr (Some e') \<Longrightarrow> quiet env e e'"
  by (induction r l f n k rule: attempts.induct) (auto split: option.splits if_splits)

lemma attempts_faults: "attempts r l f n k = Inl x \<Longrightarrow> x = NoFuel"
  by (induction r l f n k rule: attempts.induct) (auto split: option.splits if_splits)

text \<open>
  The loop ends: without retries after one attempt, with a limit after one more than the limit, and without a limit as
  soon as an attempt does not raise.
\<close>

lemma attempts_end:
  "\<not> retry \<and> 0 < n \<or> retry \<and> 0 < limit \<and> int k \<le> limit \<and> limit < int (n + k) \<or> (\<exists>j. k \<le> j \<and> j < n + k \<and> f j \<noteq> None) \<Longrightarrow>
   attempts retry limit f n k \<noteq> Inl NoFuel"
proof (induction retry limit f n k rule: attempts.induct)
  case (2 retry limit f n k)
  show ?case
  proof (cases "f k")
    case None
    have "\<exists>j. Suc k \<le> j \<and> j < n + Suc k \<and> f j \<noteq> None" if "k \<le> j" "j < Suc n + k" "f j \<noteq> None" for j
      using that None by (intro exI [of _ j]) (auto simp: Suc_le_eq le_less)
    then show ?thesis using "2.IH" [OF None] "2.prems" None by auto
  qed simp
qed auto

lemma record_savepoint_quiet:
  assumes "record_savepoint env force (w, e) = (r, v, e')"
  shows "quiet env e e' \<and> same_object w v \<and> (r = Inr () \<or> r = Inl NoFuel)"
proof -
  have "quiet env e e'" if "attempts a b (write_savepoint env x e) n k = Inr (Some e')" for a b x n k e'
    using attempts_quiet [OF write_savepoint_quiet that] .
  then show ?thesis using assms
    by (auto simp: record_savepoint_def Let_def same_object_def dest: attempts_faults split: if_splits sum.splits option.splits)
qed

lemma insert_parameters_quiet: "quiet env' e (snd (insert_parameters env uid ps e))"
proof (induction ps arbitrary: e)
  case (Cons p ps)
  show ?case using quiet_trans [OF quiet_updates(3) Cons.IH] by (cases p) (simp split: option.splits)
qed simp

lemma insert_parameters_ok: "\<forall>n v. parameter_error env n v = None \<Longrightarrow> fst (insert_parameters env uid ps e) = Inr ()"
  by (induction ps arbitrary: e) auto

text \<open>When the engine has room for one more id and the parameters can be written, the id is taken last or not at all.\<close>

definition room :: "api_env \<Rightarrow> engine \<Rightarrow> bool" where
  "room env e \<longleftrightarrow> next_id env e + 1 < 2 ^ 32 \<and> (saveparameters env \<longrightarrow> (\<forall>n v. parameter_error env n v = None))"

definition took :: "api_env \<Rightarrow> wobj \<Rightarrow> engine \<Rightarrow> wobj \<Rightarrow> engine \<Rightarrow> bool" where
  "took env w e v e' \<longleftrightarrow> v = w\<lparr>o_id := next_id env e\<rparr> \<and> wl e' = wl e \<and> objects e' = objects e \<and> stats e' = stats e \<and>
     next_addr e' = next_addr e \<and> next_id env e < next_id env e'"

lemma word_next: "unat (x :: 32 word) + 1 < 2 ^ 32 \<Longrightarrow> unat (x + 1) = unat x + 1"
  by (simp add: unat_word_ariths)

lemma take_id_cases:
  assumes "room env e" "take_id env host comment ps (w, e) = (r, v, e')"
  shows "r = Inr () \<and> took env w e v e' \<or> (\<exists>m. r = Inl (DB_error m) \<and> v = w \<and> quiet env e e')"
proof (cases "level env \<ge> 2")
  case level: True
  show ?thesis
  proof (cases "row_error env (next_row e)")
    case (Some m)
    then show ?thesis using assms level by (auto simp: take_id_def insert_row_def)
  next
    case None
    then obtain e1 where row: "insert_row env w host comment e = (Inr (next_row e), e1)" "wl e1 = wl e" "objects e1 = objects e" "stats e1 = stats e"
      "next_addr e1 = next_addr e" "next_row e1 = Suc (next_row e)" by (simp add: insert_row_def)
    obtain r2 e2 where p: "(if saveparameters env then insert_parameters env (next_row e) ps e1 else (Inr (), e1)) = (r2, e2)" by fastforce
    have q: "r2 = Inr ()" "quiet env e1 e2"
      using p assms(1) insert_parameters_ok [of env "next_row e" ps e1] insert_parameters_quiet [where env' = env and e = e1 and env = env and uid = "next_row e" and ps = ps]
      by (auto simp: room_def split: if_splits)
    have "(r, v, e') = (r2, w\<lparr>o_id := next_row e\<rparr>, e2)" using assms(2) level row(1) p by (simp add: take_id_def)
    then show ?thesis using level row q by (auto simp: took_def quiet_def next_id_def)
  qed
next
  case False
  then show ?thesis using assms word_next [of "seq e"] by (auto simp: take_id_def GetInc_def took_def next_id_def room_def)
qed

text \<open>A construction that fails leaves an object without id; one that succeeds has registered it under the next one.\<close>

definition registered :: "api_env \<Rightarrow> nat \<Rightarrow> wobj \<Rightarrow> engine \<Rightarrow> engine \<Rightarrow> bool" where
  "registered env a w e e' \<longleftrightarrow> objects e' = objects e \<and> next_addr e' = next_addr e \<and> next_id env e \<le> next_id env e' \<and> o_id w < next_id env e' \<and>
     wl e' = wi_Add (o_id w) a ((wl e)\<lparr>InstanceList.heap := smap_put (InstanceList.heap (wl e)) a \<lparr>i_id = o_id w, i_workflow = o_workflow w\<rparr>\<rparr>) \<and>
     stats e' = IncWorkflowInstanceExecuting (stats e)"

lemma next_id_updates [simp]:
  "next_id env (e\<lparr>wl := l, stats := st\<rparr>) = next_id env e" "next_id env (e\<lparr>wl := l\<rparr>) = next_id env e" "next_id env (e\<lparr>objects := os\<rparr>) = next_id env e"
  "next_id env (e\<lparr>stats := st\<rparr>) = next_id env e" "next_id env (e\<lparr>next_addr := n\<rparr>) = next_id env e" "next_id env (e\<lparr>objects := os, wl := l\<rparr>) = next_id env e"
  "next_id env (e\<lparr>called := cs\<rparr>) = next_id env e" "next_id env (e\<lparr>stopped := ss\<rparr>) = next_id env e" "next_id env (send_event t i e) = next_id env e"
  by (simp_all add: next_id_def send_event_def)

lemma quiet_next_id: "quiet env e e' \<Longrightarrow> next_id env e \<le> next_id env e'"
  by (simp add: quiet_def next_id_def)

interpretation reading: kept "\<lambda>(s :: wobj \<times> engine) t. snd t = snd s \<and> o_id (fst t) = o_id (fst s) \<and> o_shutting_down (fst t) = o_shutting_down (fst s)"
  by unfold_locales simp_all

lemma prepare_reads: "reading.holds (prepare env name ps sched host usr comment)"
  unfolding prepare_def on_obj_def
  by (intro reading.holds_andthen reading.holds_giving reading.holds_doing) (auto split: prod.splits)

lemma construct_cases:
  assumes "room env e" "construct env a name ps sched host usr comment (w, e) = (r, v, e')" "r \<noteq> Inl NoFuel" "o_id w = 0" "\<not> o_shutting_down w"
  shows "(\<exists>f. r = Inl f \<and> o_id v = 0 \<and> quiet env e e') \<or>
    r = Inr () \<and> o_id v = next_id env e \<and> o_doc v \<noteq> None \<and> \<not> o_shutting_down v \<and> registered env a v e e'"
proof -
  obtain r1 w1 e1 where p: "prepare env name ps sched host usr comment (w, e) = (r1, w1, e1)" by (metis prod_cases3)
  from reading.holds_outcome [OF prepare_reads p] have w1: "e1 = e" "o_id w1 = 0" "\<not> o_shutting_down w1" using assms(4,5) by simp_all
  show ?thesis
  proof (cases r1)
    case (Inl f)
    then show ?thesis using assms(2) p w1 by (auto simp: construct_def andthen_def)
  next
    case (Inr u)
    have doc: "o_doc w1 \<noteq> None" using p Inr unfolding prepare_def by (auto simp: act_eqs)
    obtain r2 w2 e2 where t: "take_id env host comment ps (w1, e) = (r2, w2, e2)" by (metis prod_cases3)
    show ?thesis
    proof (cases r2)
      case (Inl f)
      then show ?thesis using assms(2) p w1 t Inr take_id_cases [OF assms(1) t] by (auto simp: construct_def andthen_def)
    next
      case t2: (Inr u2)
      then have took: "took env w1 e w2 e2" using take_id_cases [OF assms(1) t] by auto
      obtain r3 w3 e3 where s: "record_savepoint env False (set_attr ''id'' (show_nat (o_id w2)) w2, e2) = (r3, w3, e3)" by (metis prod_cases3)
      from record_savepoint_quiet [OF s] have s3: "quiet env e2 e3" "same_object (set_attr ''id'' (show_nat (o_id w2)) w2) w3" "r3 = Inr () \<or> r3 = Inl NoFuel" by simp_all
      have c: "(r, v, e') = (case r3 of Inl f \<Rightarrow> (Inl f, w3, e3) | Inr u \<Rightarrow> register a (w3, e3))"
        using assms(2) p w1 t s Inr t2 by (simp add: construct_def andthen_def on_obj_def doing_def split: sum.splits)
      then have "r3 = Inr ()" using assms(3) s3(3) by (cases r3) auto
      then show ?thesis using c took s3 doc w1 quiet_next_id [OF s3(1)]
        by (auto simp: register_def registered_def took_def quiet_def same_object_def)
    qed
  qed
qed

section \<open>The invariant of the engine\<close>

definition api_inv :: "api_env \<Rightarrow> engine \<Rightarrow> bool" where
  "api_inv env e \<longleftrightarrow> wi_inv (wl e) \<and> \<not> InstanceList.is_shutting_down (wl e) \<and> smap_inv (objects e) \<and>
     (\<forall>i a. smap_find (wi (wl e)) i = Some a \<longleftrightarrow> (\<exists>w. smap_find (objects e) a = Some w \<and> o_id w = i)) \<and>
     (\<forall>a w. smap_find (objects e) a = Some w \<longrightarrow> a < next_addr e \<and> 0 < o_id w \<and> o_id w < next_id env e \<and> o_doc w \<noteq> None \<and> \<not> o_shutting_down w \<and>
        smap_find (InstanceList.heap (wl e)) a = Some \<lparr>i_id = o_id w, i_workflow = o_workflow w\<rparr>) \<and>
     (\<forall>a. smap_find (InstanceList.heap (wl e)) a \<noteq> None \<longrightarrow> a < next_addr e) \<and> (\<forall>i \<in> set (ended (wl e)). i < next_id env e) \<and>
     workflow_instance_executing (stats e) = word_of_nat (length (wi (wl e))) \<and> length (wi (wl e)) < next_id env e \<and> next_id env e < 2 ^ 32"

lemma length_smap_put: "smap_inv m \<Longrightarrow> smap_find m k = None \<Longrightarrow> length (smap_put m k v) = Suc (length m)"
proof -
  assume m: "smap_inv m" "smap_find m k = None"
  have "length n = card (fst ` set n)" if "smap_inv n" for n :: "('a \<times> 'b) list"
    using smap_inv_distinct [OF that] by (metis distinct_card length_map list.set_map)
  then have "length (smap_put m k v) = card (insert k (fst ` set m))" "length m = card (fst ` set m)"
    using m smap_inv_put [of m k v] fst_smap_put [of m k v] by simp_all
  moreover have "k \<notin> fst ` set m" using m(2) by (simp add: find_None_iff)
  ultimately show ?thesis by simp
qed

lemma length_smap_del: "smap_inv m \<Longrightarrow> smap_find m k = Some v \<Longrightarrow> Suc (length (smap_del m k)) = length m"
proof -
  assume m: "smap_inv m" "smap_find m k = Some v"
  have "length n = card (fst ` set n)" if "smap_inv n" for n :: "('a \<times> 'b) list"
    using smap_inv_distinct [OF that] by (metis distinct_card length_map list.set_map)
  then have l: "length (smap_del m k) = card (fst ` set m - {k})" "length m = card (fst ` set m)"
    using m(1) smap_inv_del [of m k] fst_smap_del [of m k] by simp_all
  have "k \<in> fst ` set m" using m(2) find_None_iff [of m k] by simp
  then show ?thesis using l by (metis List.finite_set card_Suc_Diff1 finite_imageI)
qed

text \<open>A new instance.\<close>

lemma registered_inv:
  assumes inv: "api_inv env e" and new: "registered env (next_addr e) w (e\<lparr>next_addr := Suc (next_addr e)\<rparr>) e'"
    and w: "next_id env e \<le> o_id w" "o_doc w \<noteq> None" "\<not> o_shutting_down w" "next_id env e' < 2 ^ 32"
  shows "api_inv env (e'\<lparr>objects := smap_put (objects e') (next_addr e) w\<rparr>)"
proof -
  let ?a = "next_addr e" and ?i = "\<lparr>i_id = o_id w, i_workflow = o_workflow w\<rparr>"
  note parts = inv [unfolded api_inv_def]
  have fresh: "smap_find (wi (wl e)) (o_id w) = None"
  proof (cases "smap_find (wi (wl e)) (o_id w)")
    case (Some b)
    then obtain x where "smap_find (objects e) b = Some x" "o_id x = o_id w" using parts by blast
    then have "o_id w < next_id env e" using parts by metis
    then show ?thesis using w(1) by simp
  qed
  have addr: "smap_find (InstanceList.heap (wl e)) ?a = None" "smap_find (objects e) ?a = None" using parts by (metis less_irrefl not_None_eq)+
  have unused: "smap_find (wi (wl e)) i \<noteq> Some ?a" for i using parts addr(2) by (metis option.distinct(1))
  have ended: "o_id w \<notin> set (ended (wl e))" using parts w(1) by (meson leD)
  have sm: "smap_inv (wi (wl e))" "smap_inv (InstanceList.heap (wl e))" using parts by (simp_all add: wi_inv_def heap_ok_def)
  have run: "wl e' = snd (wi_run (EvAdd (o_id w) ?a ?i) (wl e))" using new by (simp add: registered_def)
  have "?a \<notin> set (map snd (wi (wl e)))" using unused smap_inv_distinct [OF sm(1)] by (force simp: smap_find_map_of)
  then have "wi_inv (wl e')" unfolding run using parts fresh addr(1) ended by (intro wi_run_inv) simp_all
  note wi_ok = this
  have l: "wi (wl e') = smap_put (wi (wl e)) (o_id w) ?a" "InstanceList.heap (wl e') = smap_put (InstanceList.heap (wl e)) ?a ?i" "ended (wl e') = ended (wl e)"
    "InstanceList.is_shutting_down (wl e') = InstanceList.is_shutting_down (wl e)" "objects e' = objects e" "next_addr e' = Suc ?a"
    "next_id env e \<le> next_id env e'" "o_id w < next_id env e'"
    "workflow_instance_executing (stats e') = workflow_instance_executing (stats e) + 1"
    using new by (simp_all add: registered_def wi_Add_def IncWorkflowInstanceExecuting_def)
  let ?os = "smap_put (objects e) ?a w"
  have os: "smap_find ?os b = (if b = ?a then Some w else smap_find (objects e) b)" for b using parts by (simp add: smap_find_put)
  have listed: "smap_find (wi (wl e')) i = Some b \<longleftrightarrow> (\<exists>x. smap_find ?os b = Some x \<and> o_id x = i)" for i b
  proof (cases "b = ?a")
    case True
    then show ?thesis using unused [of i] by (auto simp: l(1) os smap_find_put [OF sm(1)])
  next
    case False
    then have "smap_find (wi (wl e)) i = Some b \<longleftrightarrow> (\<exists>x. smap_find ?os b = Some x \<and> o_id x = i)" using parts by (simp add: os)
    then show ?thesis using False fresh by (auto simp: l(1) smap_find_put [OF sm(1)])
  qed
  have objs: "b < next_addr e' \<and> 0 < o_id x \<and> o_id x < next_id env e' \<and> o_doc x \<noteq> None \<and> \<not> o_shutting_down x \<and>
      smap_find (InstanceList.heap (wl e')) b = Some \<lparr>i_id = o_id x, i_workflow = o_workflow x\<rparr>" if "smap_find ?os b = Some x" for b x
  proof (cases "b = ?a")
    case True
    moreover have "0 < o_id w" using parts w(1) by linarith
    ultimately show ?thesis using that w l by (simp add: os smap_find_put [OF sm(2)])
  next
    case False
    then have "smap_find (objects e) b = Some x" using that by (simp add: os)
    then have "b < next_addr e \<and> 0 < o_id x \<and> o_id x < next_id env e \<and> o_doc x \<noteq> None \<and> \<not> o_shutting_down x \<and>
      smap_find (InstanceList.heap (wl e)) b = Some \<lparr>i_id = o_id x, i_workflow = o_workflow x\<rparr>" using parts by blast
    then show ?thesis using False l by (simp add: smap_find_put [OF sm(2)])
  qed
  have heap: "b < next_addr e'" if "smap_find (InstanceList.heap (wl e')) b \<noteq> None" for b
  proof (cases "b = ?a")
    case False
    then have "b < next_addr e" using that parts by (simp add: l(2) smap_find_put [OF sm(2)])
    then show ?thesis using l by simp
  qed (use l in simp)
  have past: "i < next_id env e'" if "i \<in> set (ended (wl e'))" for i using that parts l by fastforce
  have len: "length (wi (wl e')) = Suc (length (wi (wl e)))" using length_smap_put [OF sm(1) fresh] l(1) by simp
  have "length (wi (wl e)) < o_id w" using parts w(1) by linarith
  then show ?thesis using wi_ok parts w l listed objs heap past len by (simp add: api_inv_def smap_inv_put)
qed

text \<open>Removing what is not listed wakes nobody.\<close>

lemma remove_unlisted:
  assumes "wi_inv s" "smap_find (wi s) uid = None"
  shows "wi_inv (wi_Remove uid s) \<and> wi (wi_Remove uid s) = wi s \<and> InstanceList.heap (wi_Remove uid s) = InstanceList.heap s \<and>
    ended (wi_Remove uid s) = ended s \<and> InstanceList.is_shutting_down (wi_Remove uid s) = InstanceList.is_shutting_down s"
proof -
  have same: "smap_del (wi s) uid = wi s" using assms(2) by (force simp: smap_del_def filter_id_conv find_None_iff)
  show ?thesis
  proof (cases "smap_find (wi_wait s) uid")
    case None
    then show ?thesis using assms(1) same by (simp add: wi_Remove_def release_waiters_def)
  next
    case (Some c)
    let ?live = "filter (\<lambda>k. k \<noteq> c) (live_conds s)" and ?wait = "smap_del (wi_wait s) uid"
    have w: "waits_ok (wi_wait s) (live_conds s) (next_cond s)" using assms(1) by (simp add: wi_inv_def waiters_ok_def)
    have "waiter_ok ?wait ?live (next_cond s) (runs s) (\<lambda>i. i \<in> set (ended s)) (InstanceList.is_shutting_down s) v \<and> notify c v = v"
      if "v \<in> set (waiters s)" for v
    proof -
      have v: "waiter_ok (wi_wait s) (live_conds s) (next_cond s) (runs s) (\<lambda>i. i \<in> set (ended s)) (InstanceList.is_shutting_down s) v"
        using that assms(1) by (simp add: wi_inv_def waiters_ok_def)
      have "c \<in> set (live_conds s)" using w Some by (auto simp: waits_ok_def)
      then have c: "w_cond v \<noteq> c" using v w Some assms(2) unfolding waiter_ok_def waits_ok_def runs_def by metis
      moreover have "w_instance v \<noteq> uid" if "w_cond v \<in> set (live_conds s)" using that v assms(2) by (auto simp: waiter_ok_def runs_def)
      ultimately show ?thesis using v by (auto simp: waiter_ok_def notify_def smap_find_del split: wait_state.splits)
    qed
    then have "map (notify c) (waiters s) = waiters s"
      "\<forall>v \<in> set (waiters s). waiter_ok ?wait ?live (next_cond s) (runs s) (\<lambda>i. i \<in> set (ended s)) (InstanceList.is_shutting_down s) v"
      by (simp_all add: map_idI)
    then show ?thesis using assms(1) same Some waits_del [OF w Some]
      by (simp add: wi_Remove_def release_waiters_def wi_inv_def waiters_ok_def heap_ok_def runs_def [abs_def])
  qed
qed

lemma api_inv_wl:
  assumes "api_inv env e" "wi_inv l" "wi l = wi (wl e)" "InstanceList.heap l = InstanceList.heap (wl e)" "ended l = ended (wl e)"
    "InstanceList.is_shutting_down l = InstanceList.is_shutting_down (wl e)"
  shows "api_inv env (e\<lparr>wl := l\<rparr>)"
  using assms unfolding api_inv_def by simp

text \<open>What is written beside the instances in memory does not matter.\<close>

lemma api_inv_cong:
  assumes inv: "api_inv env e" and e': "wl e' = wl e" "objects e' = objects e" "next_addr e \<le> next_addr e'" "next_id env e \<le> next_id env e'"
    "next_id env e' < 2 ^ 32" "workflow_instance_executing (stats e') = workflow_instance_executing (stats e)"
  shows "api_inv env e'"
proof -
  note parts = inv [unfolded api_inv_def]
  have "a < next_addr e' \<and> 0 < o_id w \<and> o_id w < next_id env e' \<and> o_doc w \<noteq> None \<and> \<not> o_shutting_down w \<and>
      smap_find (InstanceList.heap (wl e)) a = Some \<lparr>i_id = o_id w, i_workflow = o_workflow w\<rparr>" if "smap_find (objects e) a = Some w" for a w
  proof -
    have "a < next_addr e \<and> 0 < o_id w \<and> o_id w < next_id env e \<and> o_doc w \<noteq> None \<and> \<not> o_shutting_down w \<and>
      smap_find (InstanceList.heap (wl e)) a = Some \<lparr>i_id = o_id w, i_workflow = o_workflow w\<rparr>" using parts that by blast
    then show ?thesis using e' by simp
  qed
  moreover have "a < next_addr e'" if "smap_find (InstanceList.heap (wl e)) a \<noteq> None" for a
    using that parts e'(3) less_le_trans by blast
  moreover have "i < next_id env e'" if "i \<in> set (ended (wl e))" for i using that parts e'(4) less_le_trans by blast
  moreover have "length (wi (wl e)) < next_id env e'" using parts e'(4) by linarith
  ultimately show ?thesis using parts e' by (simp add: api_inv_def)
qed

lemma quiet_inv: "api_inv env e \<Longrightarrow> quiet env e e' \<Longrightarrow> next_id env e' < 2 ^ 32 \<Longrightarrow> api_inv env e'"
  using quiet_next_id [of env e e'] by (intro api_inv_cong [of env e e']) (simp_all add: quiet_def)

lemma zero_unlisted: "api_inv env e \<Longrightarrow> smap_find (wi (wl e)) 0 = None"
proof (cases "smap_find (wi (wl e)) 0")
  case (Some a)
  assume "api_inv env e"
  then obtain w where "smap_find (objects e) a = Some w" "o_id w = 0" using Some unfolding api_inv_def by blast
  then have False using \<open>api_inv env e\<close> unfolding api_inv_def by (metis less_irrefl)
  then show ?thesis ..
qed

lemma destroy_unregistered:
  assumes "api_inv env e" "o_id w = 0"
  shows "api_inv env (destroy w e) \<and> next_id env (destroy w e) = next_id env e"
proof -
  note r = remove_unlisted [of "wl e" 0]
  have "api_inv env (e\<lparr>wl := wi_Remove 0 (wl e)\<rparr>)"
    using r zero_unlisted [OF assms(1)] assms(1) by (intro api_inv_wl) (simp_all add: api_inv_def)
  moreover have "wl (destroy w e) = wl (e\<lparr>wl := wi_Remove 0 (wl e)\<rparr>) \<or> wl (destroy w e) = wl e" "objects (destroy w e) = objects e"
    "next_addr (destroy w e) = next_addr e" "stats (destroy w e) = stats e" "next_id env (destroy w e) = next_id env e"
    using assms(2) by (auto simp: destroy_def Let_def send_event_def next_id_def)
  moreover have "next_id env e < 2 ^ 32" using assms(1) by (simp add: api_inv_def)
  ultimately show ?thesis
    using api_inv_cong [OF assms(1), of "destroy w e"] api_inv_cong [of env "e\<lparr>wl := wi_Remove 0 (wl e)\<rparr>" "destroy w e"] by auto
qed

lemma delete_object_inv:
  assumes inv: "api_inv env e"
  shows "api_inv env (delete_object a e) \<and> next_id env (delete_object a e) = next_id env e"
proof (cases "smap_find (objects e) a")
  case None
  then show ?thesis using inv by (simp add: delete_object_def)
next
  case (Some w)
  note parts = inv [unfolded api_inv_def]
  let ?e = "delete_object a e"
  have w: "0 < o_id w" "o_doc w \<noteq> None" "\<not> o_shutting_down w" "smap_find (wi (wl e)) (o_id w) = Some a" using parts Some by blast+
  have sm: "smap_inv (wi (wl e))" "smap_inv (InstanceList.heap (wl e))" using parts by (simp_all add: wi_inv_def heap_ok_def)
  have fields: "wl ?e = snd (wi_run (wi_event.EvEnd (o_id w)) (wl e))" "objects ?e = smap_del (objects e) a" "next_addr ?e = next_addr e" "next_id env ?e = next_id env e"
    "stats ?e = DecWorkflowInstanceExecuting (stats e)"
    using w Some by (auto simp: delete_object_def destroy_def Let_def send_event_def wi_Remove_def release_waiters_def next_id_def split: option.splits)
  have l: "wi (wl ?e) = smap_del (wi (wl e)) (o_id w)" "InstanceList.heap (wl ?e) = smap_del (InstanceList.heap (wl e)) a" "ended (wl ?e) = o_id w # ended (wl e)"
    "InstanceList.is_shutting_down (wl ?e) = InstanceList.is_shutting_down (wl e)"
    using w(4) by (simp_all add: fields(1) Let_def wi_Remove_def release_waiters_def split: option.splits)
  have "wi_inv (wl e)" "\<not> InstanceList.is_shutting_down (wl e)" using parts by simp_all
  then have ok: "wi_inv (wl ?e)" unfolding fields(1) by (intro wi_run_inv) simp_all
  have listed: "smap_find (wi (wl ?e)) i = Some b \<longleftrightarrow> (\<exists>x. smap_find (objects ?e) b = Some x \<and> o_id x = i)" for i b
  proof -
    have "smap_find (wi (wl e)) i = Some b \<longleftrightarrow> (\<exists>x. smap_find (objects e) b = Some x \<and> o_id x = i)" using parts by blast
    then show ?thesis using w(4) Some by (auto simp: l(1) fields(2) smap_find_del)
  qed
  have objs: "b < next_addr ?e \<and> 0 < o_id x \<and> o_id x < next_id env ?e \<and> o_doc x \<noteq> None \<and> \<not> o_shutting_down x \<and>
      smap_find (InstanceList.heap (wl ?e)) b = Some \<lparr>i_id = o_id x, i_workflow = o_workflow x\<rparr>" if "smap_find (objects ?e) b = Some x" for b x
  proof -
    have "b \<noteq> a" "smap_find (objects e) b = Some x" using that by (simp_all add: fields(2) smap_find_del split: if_splits)
    then have "b < next_addr e \<and> 0 < o_id x \<and> o_id x < next_id env e \<and> o_doc x \<noteq> None \<and> \<not> o_shutting_down x \<and>
      smap_find (InstanceList.heap (wl e)) b = Some \<lparr>i_id = o_id x, i_workflow = o_workflow x\<rparr>" using parts by blast
    then show ?thesis using \<open>b \<noteq> a\<close> fields(3,4) l(2) by (simp add: smap_find_del)
  qed
  have heap: "b < next_addr ?e" if "smap_find (InstanceList.heap (wl ?e)) b \<noteq> None" for b
    using that parts l(2) fields(3) by (auto simp: smap_find_del split: if_splits)
  have past: "i < next_id env ?e" if "i \<in> set (ended (wl ?e))" for i
    using that parts Some l(3) fields(4) by auto
  have len: "Suc (length (wi (wl ?e))) = length (wi (wl e))" using length_smap_del [OF sm(1) w(4)] l(1) by simp
  have "length (wi (wl e)) < 2 ^ 32" using parts by linarith
  then have "workflow_instance_executing (stats e) \<noteq> 0" using parts len by (auto simp: word_of_nat_eq_0_iff dest!: dvd_imp_le)
  then have "workflow_instance_executing (stats ?e) = word_of_nat (length (wi (wl ?e)))"
    using parts arg_cong [OF len, of "of_nat :: nat \<Rightarrow> 32 word"] by (simp add: fields(5) DecWorkflowInstanceExecuting_def word_gt_0 algebra_simps)
  moreover have "\<not> InstanceList.is_shutting_down (wl ?e)" using parts l(4) by simp
  moreover have "smap_inv (objects ?e)" using parts fields(2) by (simp add: smap_inv_del)
  moreover have "length (wi (wl ?e)) < next_id env ?e" "next_id env ?e < 2 ^ 32" using parts len fields(4) by simp_all
  moreover note ok listed objs heap past fields(4)
  ultimately show ?thesis unfolding api_inv_def by blast
qed

lemma new_object_cases:
  assumes inv: "api_inv env e" and "room env e" "new_object (\<lambda>a. construct env a name ps sched host usr comment) e = (r, e')" "r \<noteq> Inl NoFuel" "next_id env e' < 2 ^ 32"
  shows "api_inv env e' \<and> (\<forall>a. r = Inr a \<longrightarrow> a = next_addr e \<and> (\<exists>w. smap_find (objects e') a = Some w \<and> o_id w = next_id env e))"
proof -
  let ?e = "e\<lparr>next_addr := Suc (next_addr e)\<rparr>"
  obtain c v e1 where c: "construct env (next_addr e) name ps sched host usr comment (WorkflowInstance_new, ?e) = (c, v, e1)" by (metis prod_cases3)
  have nf: "c \<noteq> Inl NoFuel" using assms(3,4) c by (auto simp: new_object_def Let_def)
  have room: "room env ?e" using assms(2) by (simp add: room_def)
  from construct_cases [OF room c nf] consider (failed) f where "c = Inl f" "o_id v = 0" "quiet env ?e e1"
    | (ok) "c = Inr ()" "o_id v = next_id env e" "o_doc v \<noteq> None" "\<not> o_shutting_down v" "registered env (next_addr e) v ?e e1"
    by (auto simp: WorkflowInstance_new_def)
  then show ?thesis
  proof cases
    case failed
    have e': "e' = destroy v e1" "r = Inl f" using assms(3) c failed(1) by (simp_all add: new_object_def Let_def)
    have "next_id env (destroy v e1) = next_id env e1" using failed(2) by (auto simp: destroy_def Let_def)
    then have "next_id env e1 < 2 ^ 32" using assms(5) e'(1) by simp
    moreover have "api_inv env ?e" using inv by (intro api_inv_cong [OF inv]) (simp_all add: api_inv_def)
    ultimately have "api_inv env e1" using quiet_inv [OF _ failed(3)] by simp
    then show ?thesis using destroy_unregistered [OF _ failed(2)] e' by simp
  next
    case ok
    have e': "e' = e1\<lparr>objects := smap_put (objects e1) (next_addr e) v\<rparr>" "r = Inr (next_addr e)" using assms(3) c ok(1) by (simp_all add: new_object_def Let_def)
    have "next_id env e1 < 2 ^ 32" using assms(5) e'(1) by simp
    then have "api_inv env e'" unfolding e'(1) using registered_inv [OF inv ok(5)] ok by simp
    moreover have "smap_find (objects e') (next_addr e) = Some v"
      using e'(1) ok(5) inv by (simp add: registered_def smap_find_put api_inv_def)
    ultimately show ?thesis using e'(2) ok(2) by simp
  qed
qed

text \<open>The object of a running instance changes.\<close>

lemma replace_object_inv:
  assumes inv: "api_inv env e" and w: "smap_find (objects e) a = Some w" "same_object w v"
  shows "api_inv env (e\<lparr>objects := smap_put (objects e) a v\<rparr>)"
proof -
  note parts = inv [unfolded api_inv_def]
  have os: "smap_find (smap_put (objects e) a v) b = (if b = a then Some v else smap_find (objects e) b)" for b
    using parts by (simp add: smap_find_put)
  have v: "o_id v = o_id w" "o_workflow v = o_workflow w" "o_shutting_down v = o_shutting_down w" "o_doc v = None \<longleftrightarrow> o_doc w = None"
    using w(2) by (simp_all add: same_object_def)
  have "smap_find (wi (wl e)) i = Some b \<longleftrightarrow> (\<exists>x. smap_find (smap_put (objects e) a v) b = Some x \<and> o_id x = i)" for i b
    using parts w(1) v(1) by (auto simp: os)
  moreover have "b < next_addr e \<and> 0 < o_id x \<and> o_id x < next_id env e \<and> o_doc x \<noteq> None \<and> \<not> o_shutting_down x \<and>
      smap_find (InstanceList.heap (wl e)) b = Some \<lparr>i_id = o_id x, i_workflow = o_workflow x\<rparr>" if "smap_find (smap_put (objects e) a v) b = Some x" for b x
  proof (cases "b = a")
    case True
    have "a < next_addr e \<and> 0 < o_id w \<and> o_id w < next_id env e \<and> o_doc w \<noteq> None \<and> \<not> o_shutting_down w \<and>
      smap_find (InstanceList.heap (wl e)) a = Some \<lparr>i_id = o_id w, i_workflow = o_workflow w\<rparr>" using parts w(1) by blast
    then show ?thesis using True that v by (auto simp: os)
  next
    case False
    then show ?thesis using that parts by (simp add: os)
  qed
  ultimately show ?thesis using parts by (simp add: api_inv_def smap_inv_put)
qed

lemma run_object_same: "same_object w (run_object fresh t n w)"
  by (simp add: same_object_def run_object_def Let_def)

lemma run_stats_fields [simp]:
  "wl (run_stats t n e) = wl e" "objects (run_stats t n e) = objects e" "next_id env (run_stats t n e) = next_id env e"
  by (simp_all add: run_stats_def next_id_def)

lemma run_stats_inv: "api_inv env e \<Longrightarrow> api_inv env (run_stats t n e)"
  by (rule api_inv_cong [of env e]) (simp_all add: api_inv_def, simp_all add: run_stats_def IncWorkflowInstanceErrors_def)

lemma begin_run_inv:
  assumes inv: "api_inv env e" and "begin_run env fresh a e = (r, e')" "next_id env e' < 2 ^ 32"
  shows "api_inv env e' \<and> (smap_find (objects e) a \<noteq> None \<longrightarrow> smap_find (objects e') a \<noteq> None) \<and> (is_ub r \<longrightarrow> smap_find (objects e) a = None)"
proof (cases "smap_find (objects e) a")
  case None
  then show ?thesis using assms by (simp add: begin_run_def)
next
  case (Some w)
  let ?w = "run_object fresh (terminates env (o_id w)) (end_errors env (o_id w)) w"
  let ?e = "run_stats (terminates env (o_id w)) (end_errors env (o_id w)) e"
  obtain r1 v e1 where s: "record_savepoint env False (?w, ?e) = (r1, v, e1)" by (metis prod_cases3)
  note q = record_savepoint_quiet [OF s]
  have e': "e' = e1\<lparr>objects := smap_put (objects e1) a v\<rparr>" "\<not> is_ub r"
    using assms(2) s Some q by (auto simp: begin_run_def Let_def split: sum.splits)
  have "same_object w ?w" by (rule run_object_same)
  then have "same_object w v" using q by (simp add: same_object_def)
  moreover have "api_inv env e1" using run_stats_inv [OF inv] quiet_inv [of env ?e e1] q assms(3) e'(1) by simp
  moreover have "smap_find (objects e1) a = Some w" "smap_inv (objects e1)" using q Some inv by (simp_all add: quiet_def api_inv_def)
  ultimately show ?thesis using replace_object_inv e' q by (auto simp: smap_find_put)
qed

definition inv_kept :: "api_env \<Rightarrow> engine \<Rightarrow> engine \<Rightarrow> bool" where
  "inv_kept env s t \<longleftrightarrow> next_id env s \<le> next_id env t \<and> (api_inv env s \<and> next_id env t < 2 ^ 32 \<longrightarrow> api_inv env t)"

interpretation invk: kept "inv_kept env" for env
  by unfold_locales (auto simp: inv_kept_def)

lemma inv_keptI: "wl t = wl s \<Longrightarrow> objects t = objects s \<Longrightarrow> next_addr s \<le> next_addr t \<Longrightarrow> next_id env s \<le> next_id env t \<Longrightarrow>
   workflow_instance_executing (stats t) = workflow_instance_executing (stats s) \<Longrightarrow> inv_kept env s t"
  using api_inv_cong [of env s t] by (auto simp: inv_kept_def)

lemma quiet_kept: "quiet env s t \<Longrightarrow> inv_kept env s t"
  using quiet_inv [of env s t] quiet_next_id [of env s t] by (simp add: inv_kept_def)

lemma begin_run_next_id: "begin_run env fresh a e = (r, e') \<Longrightarrow> next_id env e \<le> next_id env e'"
proof (cases "smap_find (objects e) a")
  case (Some w)
  assume b: "begin_run env fresh a e = (r, e')"
  let ?w = "run_object fresh (terminates env (o_id w)) (end_errors env (o_id w)) w"
  let ?e = "run_stats (terminates env (o_id w)) (end_errors env (o_id w)) e"
  obtain r1 v e1 where s: "record_savepoint env False (?w, ?e) = (r1, v, e1)" by (metis prod_cases3)
  then have "quiet env ?e e1" using record_savepoint_quiet by blast
  moreover have "e' = e1\<lparr>objects := smap_put (objects e1) a v\<rparr>" using b s Some by (auto simp: begin_run_def Let_def split: sum.splits)
  ultimately show ?thesis using quiet_next_id [of env ?e e1] by simp
qed (simp add: begin_run_def)

lemma begin_run_kept: "invk.holds env (begin_run env fresh a)"
  unfolding invk.holds_def inv_kept_def
proof (intro allI conjI impI)
  fix e :: engine
  obtain r e' where b: "begin_run env fresh a e = (r, e')" by fastforce
  then show "next_id env e \<le> next_id env (snd (begin_run env fresh a e))" using begin_run_next_id by simp
  show "api_inv env (snd (begin_run env fresh a e))" if "api_inv env e \<and> next_id env (snd (begin_run env fresh a e)) < 2 ^ 32"
    using begin_run_inv [of env e fresh a r e'] that b by simp
qed

lemma delete_if_kept: "inv_kept env e (delete_if t a e)"
  using delete_object_inv [of env e a] by (auto simp: delete_if_def inv_kept_def next_id_def delete_object_def destroy_def Let_def send_event_def split: option.splits)

lemma start_instance_kept: "invk.holds env (start_instance env fresh a)"
  unfolding start_instance_def
  by (intro invk.holds_andthen invk.holds_giving invk.holds_doing begin_run_kept) (simp split: option.splits add: invk.rel_refl quiet_kept)

lemma on_list_kept:
  assumes "\<And>l. wi_inv l \<Longrightarrow> wi_inv (snd (f l)) \<and> wi (snd (f l)) = wi l \<and> InstanceList.heap (snd (f l)) = InstanceList.heap l \<and> ended (snd (f l)) = ended l \<and>
    InstanceList.is_shutting_down (snd (f l)) = InstanceList.is_shutting_down l"
  shows "invk.holds env (on_list f)"
  unfolding invk.holds_def inv_kept_def
proof (intro allI conjI impI)
  fix e :: engine
  obtain r l where f: "f (wl e) = (r, l)" by fastforce
  then show "next_id env e \<le> next_id env (snd (on_list f e))" by (simp add: on_list_def)
  show "api_inv env (snd (on_list f e))" if "api_inv env e \<and> next_id env (snd (on_list f e)) < 2 ^ 32"
    using that assms [of "wl e"] f api_inv_wl [of env e l] by (simp add: on_list_def api_inv_def)
qed

lemma on_instance_same:
  "wi_inv l \<Longrightarrow> wi_inv (snd (on_instance u uid right c l)) \<and> wi (snd (on_instance u uid right c l)) = wi l \<and>
   InstanceList.heap (snd (on_instance u uid right c l)) = InstanceList.heap l \<and> ended (snd (on_instance u uid right c l)) = ended l \<and>
   InstanceList.is_shutting_down (snd (on_instance u uid right c l)) = InstanceList.is_shutting_down l"
  using on_instance_inv [of l u uid right c] by (simp add: on_instance_def record_call_def split: option.splits sum.splits)

lemma wait_condition_same:
  "wait_condition uid l = (c, m) \<Longrightarrow> wi m = wi l \<and> InstanceList.heap m = InstanceList.heap l \<and> ended m = ended l \<and> InstanceList.is_shutting_down m = InstanceList.is_shutting_down l"
  by (auto simp: wait_condition_def split: option.splits)

lemma Wait_enter_same:
  "wi_inv l \<Longrightarrow> wi_inv (snd (Wait_enter u uid t now l)) \<and> wi (snd (Wait_enter u uid t now l)) = wi l \<and>
   InstanceList.heap (snd (Wait_enter u uid t now l)) = InstanceList.heap l \<and> ended (snd (Wait_enter u uid t now l)) = ended l \<and>
   InstanceList.is_shutting_down (snd (Wait_enter u uid t now l)) = InstanceList.is_shutting_down l"
proof -
  assume l: "wi_inv l"
  obtain r m where w: "Wait_enter u uid t now l = (r, m)" by fastforce
  have "wi_inv m" using wi_run_inv [of l "EvWait u uid t now"] l w by (cases r) (simp_all add: forget_value_def)
  moreover have "wi m = wi l \<and> InstanceList.heap m = InstanceList.heap l \<and> ended m = ended l \<and> InstanceList.is_shutting_down m = InstanceList.is_shutting_down l"
    using w wait_condition_same by (fastforce simp: Wait_enter_def Let_def split: if_splits option.splits sum.splits prod.splits)
  ultimately show ?thesis using w by auto
qed

lemma count_stat_kept:
  "(\<And>s. workflow_instance_executing (f s) = workflow_instance_executing s) \<Longrightarrow> invk.holds env (count_stat f)"
  unfolding count_stat_def by (intro invk.holds_doing inv_keptI) simp_all

lemma delete_instance_kept: "invk.holds env (delete_instance uid)"
  unfolding invk.holds_def by (auto simp: delete_instance_def next_id_def intro!: inv_keptI)

lemma tag_query_kept: "invk.holds env (tag_query u q uid tag_instance)" "invk.holds env (tag_query u q uid untag_instance)"
  unfolding tag_query_def need_def
  by (intro invk.holds_andthen invk.holds_giving, simp add: invk.holds_def quiet_kept tag_instance_quiet untag_instance_quiet)+

lemma executing_simps [simp]:
  "workflow_instance_executing (IncWorkflowStatusQueries s) = workflow_instance_executing s"
  "workflow_instance_executing (IncWorkflowCancelQueries s) = workflow_instance_executing s"
  "workflow_instance_executing (IncWorkflowQueries s) = workflow_instance_executing s"
  "workflow_instance_executing (IncWorkflowExceptions s) = workflow_instance_executing s"
  by (simp_all add: IncWorkflowStatusQueries_def IncWorkflowCancelQueries_def IncWorkflowQueries_def IncWorkflowExceptions_def)

lemma plain_queries_kept:
  "invk.holds env (query_instance u uid)" "invk.holds env (cancel_instance u uid)" "invk.holds env (wait_instance u q uid now)" "invk.holds env (kill_task u q uid)"
  unfolding query_instance_def cancel_instance_def wait_instance_def kill_task_def unknown_instance_def
    wi_SendInstanceStatus_def wi_Cancel_def wi_KillTask_def
  by (intro invk.holds_andthen invk.holds_giving count_stat_kept on_list_kept on_instance_same Wait_enter_same executing_simps invk.holds_doing inv_keptI; simp add: next_id_def)+

lemma plain_query_kept: "invk.holds env (plain_query u q now action uid)"
proof -
  have "invk.holds env (doing (send_event t i))" for t i by (intro invk.holds_doing quiet_kept) simp
  then show ?thesis unfolding plain_query_def need_def
    by (simp add: plain_queries_kept invk.holds_andthen invk.holds_giving tag_query_kept delete_instance_kept)
qed

text \<open>The queries that only look up touch no freed instance.\<close>

lemma on_instance_safe: "wi_inv l \<Longrightarrow> \<not> InstanceList.is_shutting_down l \<Longrightarrow> \<not> is_ub (fst (on_instance u uid right c l))"
  using live_instance [of l uid] by (auto simp: on_instance_def instance_at_def insufficient_def split: option.splits)

lemma Wait_enter_safe: "wi_inv l \<Longrightarrow> \<not> InstanceList.is_shutting_down l \<Longrightarrow> \<not> is_ub (fst (Wait_enter u uid t now l))"
  using live_instance [of l uid] by (auto simp: Wait_enter_def instance_at_def insufficient_def Let_def split: option.splits prod.splits)

lemma GetRootAttributeInt_safe [simp]: "\<not> is_ub (GetRootAttributeInt q n)" "\<not> is_ub (GetRootAttributeInt_default q n d)"
proof -
  have "\<not> is_ub (attribute_int q n v)" for v
    using stoi_not_ub [of v] by (cases "stoi v"; cases "projl (stoi v)") (auto simp: attribute_int_def simp del: stoi_not_ub)
  then show "\<not> is_ub (GetRootAttributeInt q n)" "\<not> is_ub (GetRootAttributeInt_default q n d)"
    by (simp_all add: GetRootAttributeInt_def GetRootAttributeInt_default_def missing_attribute_def split: option.splits)
qed

lemma andthen_safe:
  assumes "\<not> is_ub (fst (m s))" "\<And>x t. m s = (Inr x, t) \<Longrightarrow> \<not> is_ub (fst (f x t))"
  shows "\<not> is_ub (fst (andthen m f s))"
  using assms by (cases "m s"; cases "fst (m s)") (auto simp: andthen_def is_ub_def split: fault.splits)

lemma on_list_safe: "\<not> is_ub (fst (f (wl s))) \<Longrightarrow> \<not> is_ub (fst (on_list f s))"
  by (cases "f (wl s)") (simp add: on_list_def)

lemma plain_query_safe:
  assumes "api_inv env e"
  shows "\<not> is_ub (fst (plain_query u q now action uid e))"
proof -
  have l: "wi_inv (wl e)" "\<not> InstanceList.is_shutting_down (wl e)" using assms by (simp_all add: api_inv_def)
  have g: "\<not> is_ub (fst (giving f s))" if "\<not> is_ub (f s)" for f :: "engine \<Rightarrow> 'z res" and s using that by (simp add: giving_def)
  have n: "\<not> is_ub (fst (need b s))" for b s by (simp add: need_def giving_def insufficient_def)
  have d: "\<not> is_ub (fst (doing f s))" for f :: "engine \<Rightarrow> engine" and s by (simp add: doing_def)
  have un: "\<not> is_ub (fst (unknown_instance b s))" for b s by (simp add: unknown_instance_def giving_def)
  have "\<not> is_ub (fst (query_instance u uid e))"
    unfolding query_instance_def count_stat_def wi_SendInstanceStatus_def using l
    by (intro andthen_safe on_list_safe d g) (auto simp: doing_def query_row_def insufficient_def on_instance_safe split: option.splits)
  moreover have "\<not> is_ub (fst (cancel_instance u uid e))"
    unfolding cancel_instance_def count_stat_def wi_Cancel_def using l
    by (intro andthen_safe on_list_safe d g un) (auto simp: doing_def on_instance_safe)
  moreover have "\<not> is_ub (fst (wait_instance u q uid now e))"
    unfolding wait_instance_def using l
    by (intro andthen_safe on_list_safe g) (auto simp: giving_def Wait_enter_safe split: option.splits bool.splits)
  moreover have "\<not> is_ub (fst (kill_task u q uid e))"
    unfolding kill_task_def wi_KillTask_def using l
    by (intro andthen_safe on_list_safe g un) (auto simp: giving_def on_instance_safe)
  moreover have del: "\<not> is_ub (fst (delete_instance uid s))" for s by (simp add: delete_instance_def)
  moreover have tags: "\<not> is_ub (fst (tag_query u q uid tag_instance s))" "\<not> is_ub (fst (tag_query u q uid untag_instance s))" for s
    unfolding tag_query_def
    by (intro andthen_safe n g; simp add: tag_instance_def untag_instance_def split: option.splits)+
  moreover have "\<not> is_ub (fst (andthen (tag_query u q uid tag_instance) (\<lambda>_. giving (\<lambda>_. Inr (Answer []))) e))"
    by (rule andthen_safe [OF tags(1)]) (simp add: giving_def)
  moreover have "\<not> is_ub (fst (andthen (tag_query u q uid untag_instance) (\<lambda>_. andthen (doing (send_event ''INSTANCE_UNTAGGED'' uid)) (\<lambda>_. giving (\<lambda>_. Inr (Answer [])))) e))"
    by (rule andthen_safe [OF tags(2)]) (simp add: andthen_def doing_def giving_def)
  moreover have "\<not> is_ub (fst (andthen (need (IsAdmin u)) (\<lambda>_. andthen (delete_instance uid) (\<lambda>_. andthen (doing (send_event ''INSTANCE_REMOVED'' uid)) (\<lambda>_. giving (\<lambda>_. Inr (Answer []))))) e))"
    by (rule andthen_safe [OF n], rule andthen_safe [OF del]) (simp add: andthen_def doing_def giving_def)
  moreover have "\<not> is_ub (fst (giving (\<lambda>_. Inr NotHandled :: api_answer res) e))" by (simp add: giving_def)
  ultimately show ?thesis unfolding plain_query_def by simp
qed

text \<open>Launching. Other threads may end instances meanwhile.\<close>

definition ends_only :: "api_env \<Rightarrow> bool" where
  "ends_only env \<longleftrightarrow> (\<forall>e. \<exists>as. others env e = fold delete_object as e)"

lemma fold_delete_kept: "inv_kept env e (fold delete_object as e)"
proof (induction as arbitrary: e)
  case (Cons a as)
  have "inv_kept env e (delete_object a e)" using delete_if_kept [of env e True a] by (simp add: delete_if_def)
  then show ?case using Cons.IH invk.rel_trans by simp
qed (simp add: invk.rel_refl)

lemma launch_end_kept:
  assumes "ends_only env"
  shows "invk.holds env (launch_end env mode u timeout now a uid t)"
  unfolding invk.holds_def
proof
  fix e :: engine
  let ?e = "if t then e else others env e"
  have e: "inv_kept env e ?e" using assms fold_delete_kept unfolding ends_only_def by (metis invk.rel_refl)
  obtain r e2 where w: "on_list (Wait_enter u uid timeout now) ?e = (r, e2)" by fastforce
  have e2: "inv_kept env ?e e2" using invk.holds_outcome [OF on_list_kept [OF Wait_enter_same] w] .
  have "snd (launch_end env mode u timeout now a uid t e) = ?e \<or> snd (launch_end env mode u timeout now a uid t e) = e2 \<or>
      snd (launch_end env mode u timeout now a uid t e) = delete_if t a ?e"
    using w by (auto simp: launch_end_def Let_def split: sum.splits option.splits)
  then show "inv_kept env e (snd (launch_end env mode u timeout now a uid t e))"
    using e invk.rel_trans [OF e e2] invk.rel_trans [OF e delete_if_kept [of env ?e t a]] by presburger
qed

lemma launch_new_inv:
  assumes inv: "api_inv env e" "room env e" and l: "launch_new env name q ps e = (r, e')" "r \<noteq> Inl NoFuel" "next_id env e' < 2 ^ 32"
  shows "api_inv env e' \<and> (\<forall>a. r = Inr a \<longrightarrow> (\<exists>w. smap_find (objects e') a = Some w \<and> o_id w = next_id env e))"
proof -
  let ?e = "e\<lparr>stats := IncWorkflowQueries (stats e)\<rparr>"
  let ?c = "\<lambda>a. construct env a name ps 0 (GetRootAttribute_default q ''host'' []) (GetRootAttribute_default q ''user'' []) (GetRootAttribute_default q ''comment'' [])"
  have e: "api_inv env ?e" "room env ?e" using inv by (auto intro!: api_inv_cong [OF inv(1)] simp: room_def api_inv_def)
  obtain rn e1 where new: "new_object ?c ?e = (rn, e1)" by fastforce
  have eq: "r = rn" "e' = e1 \<or> e' = e1\<lparr>stats := IncWorkflowExceptions (stats e1)\<rparr>"
    using l(1) new by (auto simp: launch_new_def split: sum.splits fault.splits)
  then have "next_id env e1 < 2 ^ 32" "rn \<noteq> Inl NoFuel" using l(2,3) by auto
  from new_object_cases [OF e new this(2,1)]
  have e1: "api_inv env e1" "\<forall>a. rn = Inr a \<longrightarrow> (\<exists>w. smap_find (objects e1) a = Some w \<and> o_id w = next_id env e)" by auto
  have "inv_kept env e1 (e1\<lparr>stats := IncWorkflowExceptions (stats e1)\<rparr>)" by (intro inv_keptI) simp_all
  then show ?thesis using e1 eq l(3) by (auto simp: inv_kept_def)
qed

lemma Launch_inv:
  assumes inv: "api_inv env e" "room env e" "ends_only env" and "Launch env name u q ps now e = (r, e')" "r \<noteq> Inl NoFuel" "next_id env e' < 2 ^ 32"
  shows "api_inv env e'"
proof (cases "\<exists>timeout. check_mode (GetRootAttribute_default q ''mode'' ''asynchronous'') = Inr () \<and> GetRootAttributeInt_default q ''timeout'' 0 = Inr timeout")
  case False
  then have "e' = e" using assms(4)
    by (cases "check_mode (GetRootAttribute_default q ''mode'' ''asynchronous'')"; cases "GetRootAttributeInt_default q ''timeout'' 0")
      (auto simp: Launch_def Let_def andthen_def giving_def)
  then show ?thesis using inv by simp
next
  case True
  then obtain timeout where t: "check_mode (GetRootAttribute_default q ''mode'' ''asynchronous'') = Inr ()" "GetRootAttributeInt_default q ''timeout'' 0 = Inr timeout" by blast
  obtain rn e1 where new: "launch_new env name q ps e = (rn, e1)" by fastforce
  have l: "(r, e') = (case rn of Inl f \<Rightarrow> (Inl f, e1) | Inr a \<Rightarrow> launch_run env (GetRootAttribute_default q ''mode'' ''asynchronous'') u timeout now a e1)"
    using assms(4) t new by (simp add: Launch_def Let_def andthen_def giving_def split: sum.splits)
  show ?thesis
  proof (cases rn)
    case (Inl f)
    then show ?thesis using launch_new_inv [OF inv(1,2) new] l assms(5,6) by auto
  next
    case (Inr a)
    have "invk.holds env (launch_run env m u timeout now a)" for m
      unfolding launch_run_def by (intro invk.holds_andthen invk.holds_giving start_instance_kept launch_end_kept inv(3))
    then have k: "inv_kept env e1 e'" using invk.holds_outcome l Inr by (metis sum.simps(6))
    then have "api_inv env e1" using launch_new_inv [OF inv(1,2) new] Inr assms(6) by (simp add: inv_kept_def)
    then show ?thesis using k assms(6) by (simp add: inv_kept_def)
  qed
qed

section \<open>Histories\<close>

text \<open>
  The engine starts with no instance. Clients send queries other than the two that load an instance from the table;
  the threads that end tasks end instances and change them; threads that wait wake up. Ids stay below their bound.
\<close>

inductive api_reach :: "api_env \<Rightarrow> engine \<Rightarrow> bool" for env where
  start: "WorkflowInstances_new interval = Inr l \<Longrightarrow> wl e = l \<Longrightarrow> objects e = [] \<Longrightarrow> stats e = Statistics_new \<Longrightarrow>
    0 < next_id env e \<Longrightarrow> next_id env e < 2 ^ 32 \<Longrightarrow> api_reach env e"
| client: "api_reach env e \<Longrightarrow> room env e \<Longrightarrow> q_attrs q ''action'' \<notin> {Some ''debugresume'', Some ''migrate''} \<Longrightarrow>
    instance_query env u q ps now e = (r, e') \<Longrightarrow> r \<noteq> Inl NoFuel \<Longrightarrow> next_id env e' < 2 ^ 32 \<Longrightarrow> api_reach env e'"
| ended: "api_reach env e \<Longrightarrow> api_reach env (delete_object a e)"
| changed: "api_reach env e \<Longrightarrow> smap_find (objects e) a = Some w \<Longrightarrow> same_object w v \<Longrightarrow> api_reach env (e\<lparr>objects := smap_put (objects e) a v\<rparr>)"
| woken: "api_reach env e \<Longrightarrow> k < length (waiters (wl e)) \<Longrightarrow> wi_run (EvWake k now alive) (wl e) = (r, l) \<Longrightarrow> api_reach env (e\<lparr>wl := l\<rparr>)"
| expired: "api_reach env e \<Longrightarrow> wi_possible (EvExpire k now) (wl e) \<Longrightarrow> wi_run (EvExpire k now) (wl e) = (r, l) \<Longrightarrow> api_reach env (e\<lparr>wl := l\<rparr>)"

lemma Wait_wake_same:
  "wi_run (EvWake k now alive) l = (r, m) \<Longrightarrow> wi m = wi l \<and> InstanceList.heap m = InstanceList.heap l \<and> ended m = ended l \<and>
     InstanceList.is_shutting_down m = InstanceList.is_shutting_down l"
  by (auto simp: Wait_wake_def Let_def wait_return_def split: wait_state.splits if_splits)

lemma instance_query_inv:
  assumes inv: "api_inv env e" "room env e" "ends_only env" and q: "q_attrs q ''action'' \<notin> {Some ''debugresume'', Some ''migrate''}"
    and run: "instance_query env u q ps now e = (r, e')" "r \<noteq> Inl NoFuel" "next_id env e' < 2 ^ 32"
  shows "api_inv env e'"
proof (cases "q_attrs q ''action'' = Some ''launch''")
  case True
  then show ?thesis
  proof (cases "\<exists>name wf. GetRootAttribute q ''name'' = Inr name \<and> GetByName (workflows env) name = Inr wf \<and> HasAccessToWorkflow u (w_id wf) ''exec''")
    case True
    then obtain name wf where "GetRootAttribute q ''name'' = Inr name" "GetByName (workflows env) name = Inr wf" "HasAccessToWorkflow u (w_id wf) ''exec''" by blast
    then have "Launch env name u q ps now e = (r, e')" using run(1) \<open>q_attrs q ''action'' = Some ''launch''\<close>
      by (simp add: instance_query_def launch_query_def GetRootAttribute_def need_def andthen_def giving_def)
    then show ?thesis using Launch_inv [OF inv] run by blast
  next
    case False
    then have "e' = e" using run(1) \<open>q_attrs q ''action'' = Some ''launch''\<close>
      by (auto simp: instance_query_def launch_query_def GetRootAttribute_def [of q "''action''"] need_def andthen_def giving_def split: sum.splits if_splits)
    then show ?thesis using inv by simp
  qed
next
  case False
  have "inv_kept env e e'"
  proof (cases "\<exists>action uid. GetRootAttribute q ''action'' = Inr action \<and> bindr (GetRootAttributeInt q ''id'') (\<lambda>i. Inr (to_unsigned i)) = Inr uid")
    case True
    then obtain action uid where a: "GetRootAttribute q ''action'' = Inr action" "bindr (GetRootAttributeInt q ''id'') (\<lambda>i. Inr (to_unsigned i)) = Inr uid" by blast
    then have "plain_query u q now action uid e = (r, e')" using run(1) q False
      by (auto simp: instance_query_def andthen_def giving_def GetRootAttribute_def [of q "''action''"] missing_attribute_def split: option.splits)
    then show ?thesis by (rule invk.holds_outcome [OF plain_query_kept])
  next
    case False
    then have "e' = e" using run(1) \<open>q_attrs q ''action'' \<noteq> Some ''launch''\<close>
      by (auto simp: instance_query_def andthen_def giving_def GetRootAttribute_def [of q "''action''"] missing_attribute_def split: sum.splits option.splits if_splits)
    then show ?thesis by (simp add: invk.rel_refl)
  qed
  then show ?thesis using inv run(3) by (simp add: inv_kept_def)
qed

lemma api_reach_inv: "api_reach env e \<Longrightarrow> ends_only env \<Longrightarrow> api_inv env e"
proof (induction rule: api_reach.induct)
  case (start interval l e)
  have "wi_inv l" using start(1) by (intro wi_reachable_inv wi_reachable.start)
  moreover have "wi l = []" "InstanceList.heap l = []" "ended l = []" "\<not> InstanceList.is_shutting_down l"
    using start(1) by (auto simp: WorkflowInstances_new_def split: if_splits)
  ultimately show ?case using start by (simp add: api_inv_def smap_inv_def Statistics_new_def)
next
  case (client e q u ps now r e')
  then show ?case using instance_query_inv by blast
next
  case (ended e a)
  then show ?case using delete_object_inv by blast
next
  case (changed e a w v)
  then show ?case using replace_object_inv by blast
next
  case (woken e k now alive r l)
  then have "api_inv env e" by blast
  moreover have "wi_inv l" using wi_run_inv [of "wl e" "EvWake k now alive"] woken \<open>api_inv env e\<close> by (simp add: api_inv_def)
  ultimately show ?case using api_inv_wl Wait_wake_same [OF woken(3)] by blast
next
  case (expired e k now r l)
  then have inv: "api_inv env e" by blast
  have "wi_inv l" using wi_run_inv [OF _ expired(2)] expired(3) inv by (metis api_inv_def snd_conv)
  moreover have "l = (wl e)\<lparr>waiters := (waiters (wl e))[k := (waiters (wl e) ! k)\<lparr>w_state := Expired\<rparr>]\<rparr>" using expired(3) by simp
  ultimately show ?case using api_inv_wl [OF inv, of l] by simp
qed


section \<open>What a launch starts with\<close>

lemma construct_prepare:
  assumes "construct env a name ps sched host usr comment s = (Inr (), v, e')"
  shows "\<exists>v1 e1. prepare env name ps sched host usr comment s = (Inr (), v1, e1) \<and> d_params (the_doc v) = d_params (the_doc v1) \<and> o_workflow v = o_workflow v1"
proof -
  obtain v1 e1 v2 e2 v3 e3 where p: "prepare env name ps sched host usr comment s = (Inr (), v1, e1)"
    and t: "take_id env host comment ps (v1, e1) = (Inr (), v2, e2)"
    and s: "record_savepoint env False (set_attr ''id'' (show_nat (o_id v2)) v2, e2) = (Inr (), v3, e3)"
    and r: "register a (v3, e3) = (Inr (), v, e')"
    using assms unfolding construct_def by (auto simp: act_eqs)
  have "v2 = v1\<lparr>o_id := o_id v2\<rparr>" using t by (auto simp: take_id_def GetInc_def split: if_splits prod.splits sum.splits)
  then have "d_params (the_doc v2) = d_params (the_doc v1)" "o_workflow v2 = o_workflow v1"
    by (metis the_doc_updates(2), metis wobj.select_convs(2) wobj.surjective wobj.update_convs(1))
  moreover have "v = v3" using r by (simp add: register_def)
  ultimately show ?thesis using p record_savepoint_quiet [OF s] by (auto simp: same_object_def)
qed

lemma smap_find_same: "smap_find (smap_put m k v) k = Some v"
  by (induction m) (auto split: if_splits)


section \<open>Rights\<close>

text \<open>What a user with no right sees: the request is refused, and only the counters of the engine may change.\<close>

definition refused :: "engine \<Rightarrow> api_answer res \<times> engine \<Rightarrow> bool" where
  "refused e x \<longleftrightarrow> snd x = e\<lparr>stats := stats (snd x)\<rparr> \<and> (\<forall>y. fst x = Inr y \<longrightarrow> y = NotHandled)"

definition no_rights :: "user \<Rightarrow> bool" where
  "no_rights u \<longleftrightarrow> \<not> IsAdmin u \<and> user_rights u = []"

lemma no_rights_denied: "no_rights u \<Longrightarrow> \<not> HasAccessToWorkflow u i right"
  by (simp add: no_rights_def HasAccessToWorkflow_def)

lemma denied_on_instance:
  "on_list (on_instance u uid right c) e = (r, e') \<Longrightarrow> no_rights u \<Longrightarrow> e' = e \<and> r \<noteq> Inr True"
  by (auto simp: on_list_def on_instance_def no_rights_denied split: option.splits sum.splits)

lemma denied_wait: "on_list (Wait_enter u uid timeout now) e = (r, e') \<Longrightarrow> no_rights u \<Longrightarrow> e' = e \<and> (\<forall>b. r = Inr b \<longrightarrow> b = Some False)"
  by (auto simp: on_list_def Wait_enter_def no_rights_denied split: option.splits sum.splits if_splits)

lemma refused_query_instance: "no_rights u \<Longrightarrow> refused e (query_instance u uid e)"
  by (auto simp: refused_def query_instance_def query_row_def count_stat_def doing_def giving_def andthen_def wi_SendInstanceStatus_def no_rights_denied
      split: prod.splits sum.splits option.splits if_splits dest!: denied_on_instance)

lemma refused_cancel: "no_rights u \<Longrightarrow> refused e (cancel_instance u uid e)"
  by (auto simp: refused_def cancel_instance_def unknown_instance_def count_stat_def doing_def giving_def andthen_def wi_Cancel_def
      split: prod.splits sum.splits if_splits dest!: denied_on_instance)

lemma refused_kill: "no_rights u \<Longrightarrow> refused e (kill_task u q uid e)"
  by (auto simp: refused_def kill_task_def unknown_instance_def giving_def andthen_def wi_KillTask_def
      split: prod.splits sum.splits if_splits dest!: denied_on_instance)

lemma refused_wait: "no_rights u \<Longrightarrow> refused e (wait_instance u q uid now e)"
  by (auto simp: refused_def wait_instance_def giving_def andthen_def
      split: prod.splits sum.splits option.splits bool.splits if_splits dest!: denied_wait)

lemma refused_need: "\<not> b \<Longrightarrow> refused e (andthen (need b) f e)"
  by (simp add: refused_def need_def giving_def andthen_def)

lemma refused_plain:
  assumes "no_rights u"
  shows "refused e (plain_query u q now action uid e)"
proof -
  have tag: "\<And>f g. refused e (andthen (tag_query u q uid f) g e)"
    using no_rights_denied [OF assms] by (simp add: refused_def tag_query_def need_def giving_def andthen_def)
  have del: "\<And>f. refused e (andthen (need (IsAdmin u)) f e)" using assms by (intro refused_need) (simp add: no_rights_def)
  show ?thesis unfolding plain_query_def
    using refused_query_instance refused_cancel refused_wait refused_kill assms tag del by (simp add: refused_def giving_def)
qed

lemma refused_debug: "no_rights u \<Longrightarrow> refused e (debug_resume env u uid e)"
  by (auto simp: refused_def debug_resume_def no_rights_denied split: option.splits)

text \<open>C40: A request on instances of a user who is not an administrator and has no right on any workflow launches nothing, ends nothing and
  changes no table, list or object: only counters of the statistics may change, and no document or answer is sent.\<close>
theorem instances_need_rights:
  assumes "no_rights u"
  shows "refused e (instance_query env u q ps now e)"
proof -
  have r: "refused e (Inl f, e)" for f by (simp add: refused_def)
  have launch: "refused e (launch_query env u q ps now e)"
    by (simp add: launch_query_def andthen_def giving_def need_def no_rights_denied [OF assms] r split: sum.splits)
  have "refused e (andthen (need (IsAdmin u)) f e)" for f using assms by (intro refused_need) (simp add: no_rights_def)
  then show ?thesis
    using launch refused_debug [OF assms] refused_plain [OF assms] r by (simp add: instance_query_def andthen_def giving_def split: sum.splits)
qed

section \<open>A sample engine\<close>

definition sample_env :: api_env where
  "sample_env = \<lparr>workflows = \<lparr>objects_id = [], objects_name = [(''w'', \<lparr>w_id = 1, w_xml = ''x'', w_notifications = []\<rparr>)], object_type = ''Workflow''\<rparr>,
     schedules = \<lparr>objects_id = [], objects_name = [], object_type = ''Retry schedule''\<rparr>,
     parse_doc = \<lambda>x. Inr \<lparr>d_attrs = [], d_params = [(''p'', [])], d_task_schedules = [], d_schedules = []\<rparr>, serialize = \<lambda>d. ''x'',
     set_odd = \<lambda>n v d. Inr None, odd_schedule = \<lambda>n d. Inr False, custom_filters = \<lambda>d. [], automatic_tags = \<lambda>d. [], savepoint_level = 0,
     saveparameters = False, retry_enable = False, retry_times = 0, node_name = ''n'', now_text = [], row_error = \<lambda>n. None,
     parameter_error = \<lambda>n v. None, savepoint_fails = \<lambda>k. False, patience = 1, terminates = \<lambda>i. False, end_errors = \<lambda>i. 0, others = \<lambda>e. e\<rparr>"

definition sample_engine :: engine where
  "sample_engine = \<lparr>wl = projr (WorkflowInstances_new 1), objects = [], next_addr = 0, stats = Statistics_new, rows = [], next_row = 1, seq = 1,
     t_parameters = [], t_filters = [], t_datastore = [], t_tag = [], next_tag = 1, t_tagged = [], called = [], stopped = [], flushed = [],
     sent_events = []\<rparr>"

definition sample_launch :: query where
  "sample_launch = \<lparr>q_context = [], q_group = ''instance'', q_attrs = (\<lambda>n. if n = ''action'' then Some ''launch'' else if n = ''name'' then Some ''w'' else None)\<rparr>"

definition launched :: engine where
  "launched = snd (instance_query sample_env anonymous sample_launch (GetWorkflowParameters [(''p'', ''1'')]) 0 sample_engine)"

lemma sample_run:
  "fst (instance_query sample_env anonymous sample_launch (GetWorkflowParameters [(''p'', ''1'')]) 0 sample_engine) = Inr (Answer [(''workflow-instance-id'', ''1'')])"
  "wi (wl launched) = [(1, 0)]" "next_id sample_env launched = 2"
  by code_simp+

lemma sample_reach: "api_reach sample_env launched"
proof (rule api_reach.client)
  show "api_reach sample_env sample_engine"
    by (rule api_reach.start [of 1]) (simp_all add: sample_engine_def WorkflowInstances_new_def next_id_def level_def sample_env_def)
  show "room sample_env sample_engine" by (simp add: room_def next_id_def level_def sample_env_def sample_engine_def)
  show "q_attrs sample_launch ''action'' \<notin> {Some ''debugresume'', Some ''migrate''}" by (simp add: sample_launch_def)
  show "instance_query sample_env anonymous sample_launch (GetWorkflowParameters [(''p'', ''1'')]) 0 sample_engine =
    (Inr (Answer [(''workflow-instance-id'', ''1'')]), launched)"
    using sample_run(1) by (simp add: launched_def prod_eq_iff)
qed (simp_all add: sample_run(3))



lemma instances_need_rights_witness:
  "fst (instance_query sample_env (anonymous\<lparr>user_profile := ''USER''\<rparr>) sample_launch [] 0 launched) \<noteq> Inr (Document ''x'') \<and>
     wi (wl (snd (instance_query sample_env (anonymous\<lparr>user_profile := ''USER''\<rparr>) sample_launch [] 0 launched))) = [(1, 0)]"
proof -
  have "no_rights (anonymous\<lparr>user_profile := ''USER''\<rparr>)" by (simp add: no_rights_def anonymous_def IsAdmin_def)
  from instances_need_rights [OF this] show ?thesis
    unfolding refused_def by (metis api_answer.distinct engine.ext_inject engine.surjective engine.update_convs(4) sample_run(2))
qed

text \<open>
  Two runs at the edge. At the lowest level of savepoints the row written when the engine stops has no node, so the engine
  does not resume the instance when it starts again, and deletes its row.
\<close>

lemma restart_loses_instance:
  "map (rw_node \<circ> snd) (rows (snd (stop_instance sample_env 0 launched))) = [[]]"
  "rows (snd (Resume_all sample_env ((snd (stop_instance sample_env 0 launched))\<lparr>wl := projr (WorkflowInstances_new 1)\<rparr>))) = []"
  "objects (snd (Resume_all sample_env ((snd (stop_instance sample_env 0 launched))\<lparr>wl := projr (WorkflowInstances_new 1)\<rparr>))) = []"
  by code_simp+

text \<open>When the row of a parameter cannot be written the new instance was not counted yet, and it is uncounted; its own row stays.\<close>

definition strict_env :: api_env where
  "strict_env = sample_env\<lparr>savepoint_level := 2, saveparameters := True, parameter_error := (\<lambda>n v. if v = ''bad'' then Some ''too long'' else None)\<rparr>"

definition two_launches :: engine where
  "two_launches = snd (instance_query strict_env anonymous sample_launch [(''p'', ''bad'')] 0
     (snd (instance_query strict_env anonymous sample_launch [(''p'', ''1'')] 0 sample_engine)))"

lemma failed_parameter_uncounts:
  "workflow_instance_executing (stats two_launches) = 0" "wi (wl two_launches) = [(1, 0)]"
  "map (rw_status \<circ> snd) (rows two_launches) = [''EXECUTING'', ''EXECUTING'']"
  by code_simp+

end
