(* ===== verification/Spec2Isabelle.thy ===== *)
theory Spec2Isabelle
  imports PoolProps XPathClaims EventScheduler ScheduleTable RetryPolicy WfsProps InstanceClaims Base64 DataWire Conf Piper TaskOutput WSServer UniqueAction InstanceList InstanceQuery LogQueue ElogStore InstanceApi
begin

text \<open>
  A verification development of evQueue, the job scheduler and queueing engine under src/.

  \<^bold>\<open>The program.\<close> Clients send queries over TCP or websockets; a query may launch a workflow, a tree of jobs and
  tasks with conditions, loops and computed inputs. The engine runs an instance of it: the tasks that are ready go
  to queues, a thread takes them from the pool of queues and hands them to the forker, which starts a monitor for
  each; the monitor runs the script, here or over ssh, and a gatherer thread reads its end and its outputs and gives
  them back to the instance. Failed tasks are retried by a schedule, workflows are started by a calendar,
  and clients are told of changes by events. The development follows that path.

  \<^bold>\<open>Theories and sources.\<close> Each theory opens with its own description.

  \<^item> EvqBase, StdMap: the prelude. Results with the ways a C++ function is left (\<open>res\<close>: exceptions, undefined
    behaviour, a bound that was too small), machine integers, the texts of numbers (stoi, to_string), and
    \<open>smap\<close>, the map of the library as an ordered association list.
  \<^item> EvqQueue, QueueSpec, QueuePool, PoolSafety, PoolProps: src/Queue/Queue.cpp and QueuePool.cpp. QueueSpec has the
    abstract queue and the refinement; PoolSafety the lifetime of the queues on a heap of addresses; PoolProps the
    wake-ups of the dequeuer, the order of the tasks and the task ids.
  \<^item> XPathTokens, XPathLexer, XPathParser, XPathParserProps, XPathOps, XPathEval, XPathEvalProps, XPathPrecedence,
    XPathClaims: src/XPath. Lexer, parser and evaluator, with the tree of an operator precedence parser as reference.
  \<^item> EventScheduler, ScheduleTable, WorkflowScheduler, WfsProps, RetryPolicy: src/Schedule (Scheduler.cpp, Schedule.cpp,
    WorkflowScheduler.cpp, WorkflowSchedule.cpp, WorkflowSchedules.cpp) and src/WorkflowInstance/retry.cpp.
  \<^item> InstanceDom, InstanceRun, InstanceTasks: src/WorkflowInstance (job_task.cpp, condition_loop.cpp, value.cpp,
    start_stop.cpp, retry.cpp) on a store of document nodes; InstanceCalculus has the rules by which its operations
    are shown to keep a relation, InstanceCounters, InstanceStops and InstanceClaims use them.
  \<^item> Base64, Sha1, Hmac: src/Crypto. Conf: src/Configuration/Configuration.cpp and ConfigurationReader.cpp.
  \<^item> DataWire, Piper, TaskLaunch, MonitorRun, TaskOutput: src/Process (DataSerializer.cpp, DataPiper.cpp,
    ProcessManager.cpp, Forker.cpp, Monitor.cpp, ProcessExec.cpp, tools_ipc.cpp), src/evqueue_agent.cpp and
    src/WorkflowInstance/Task.cpp.
  \<^item> Access, Session, Events, WSServer: src/User, src/API (AuthHandler.cpp, APISession.cpp, QueryHandlers.cpp,
    QueryResponse.cpp, handle_connection.cpp, XMLMessage.cpp) and src/WS. UniqueAction: src/Cluster/UniqueAction.cpp.
  \<^item> InstanceList: src/WorkflowInstance/WorkflowInstances.cpp, the list of running instances and the threads that wait
    for one, on a heap of conditions. InstanceQuery: the query of its \<open>list\<close> action.
  \<^item> SqlQuery, SqlClient: src/DB/DB.cpp. SqlQuery has the templates of queries, the automaton by which the server reads
    literals, and the locale of escaping functions; SqlClient the connection, its retries and the bulk insertions.
  \<^item> LogQueue, Json, ElogField, ElogChannel, ElogStore: src/ELogs (LogStorage.cpp, Field.cpp, Channel.cpp) and
    src/Thread/ConsumerThread.cpp: the queue of external logs, the fields, the channels and the rows of a batch.
  \<^item> Statistics: src/API (Statistics.cpp, ActiveConnections.cpp): the counters, and the threads and sockets of clients.
  \<^item> InstanceApi: src/WorkflowInstance (WorkflowInstance.cpp, savepoint.cpp, WorkflowInstanceAPI.cpp), \<open>Resume\<close> of
    WorkflowInstances.cpp and what they call of src/Workflow, src/Tag and src/DB: construction, savepoints and
    destruction of an instance, the restart of the engine and the queries on instances, over the list of InstanceList.
    The loop of savepoints tries \<open>patience\<close> times at most; \<open>attempts_end\<close> says how many are enough when the
    configuration sets a limit. Without one it goes on for as long as the database fails, and \<open>NoFuel\<close> stands for that.

  \<^bold>\<open>How they meet.\<close> \<open>run\<close>ning an instance records the tasks it gives to the pool (\<open>enqueued\<close>, with the queue and
  host names the pool takes) and to the retrier (\<open>retried\<close>, whose delays RetryPolicy computes and EventScheduler
  fires). A task the pool dequeues is sent to its monitor in the format of DataWire by TaskLaunch through the piper;
  MonitorRun decodes and runs it; TaskOutput reads its end, which is the event \<open>TaskStop\<close> of InstanceTasks.
  WorkflowScheduler uses the list of EventScheduler and the tables of ScheduleTable. A session of Session is accepted
  by the digests of Hmac against the users of Access, and is served by WSServer, whose events come from Events.

  \<^bold>\<open>What is shown.\<close> The properties stand in their theories under a number, C1 and on; lemmas that are no property
  carry them. In short: queues implement their contract and are never used after they are freed while a name or a
  task id leads to them; no wake-up is lost; the language of expressions parses, binds and ends as its definition
  says; events fire in order and none is lost; the calendar yields times the table allows; retries follow their
  schedule; an instance is told to end exactly when nothing of it is left to wait for; what is written is read back
  (base64, data on pipes, configuration values, schedules, tokens); the agent relays what a local monitor would
  record; sessions run only as the user they accepted and outlive their use; elections elect one.

  \<^bold>\<open>Bounds.\<close> Where the source loops or recurses without a visible measure the definition takes a bound, and a theorem
  or lemma says which is enough, so that \<open>NoFuel\<close> is no behaviour of the code: \<open>x_depth\<close> and the nesting of an
  expression in XPathEval (the depth of the document and of the expression, \<open>Evaluate_terminates\<close>); the rounds of
  \<open>failing_run\<close> in RetryPolicy (the sum of the retries of the schedule); the steps of \<open>get_next_time\<close> in
  ScheduleTable; the depth of subjobs and of the job statistics in InstanceRun (the nesting of jobs).

  \<^bold>\<open>Defects.\<close> Several statements show histories in which the code misbehaves; they are lemmas on the same
  definitions and carry no number: \<open>no_leq_token\<close>, \<open>compare_path_fails\<close>, \<open>unknown_schedule_undefined\<close>,
  \<open>stop_of_idle_schedule\<close>, \<open>next_time_missed\<close>, \<open>reload_dangling_id\<close>, \<open>dequeued_task_lost\<close>, \<open>four_pads\<close>,
  \<open>hmac_accepted\<close>, \<open>closed_client_cmd\<close>, \<open>unreadable_job\<close>, and others next to the definitions they are about.

  \<^bold>\<open>Parameters.\<close> What is not under src/ is an argument: the calendar and the clock, Xerces (documents outside
  the instance model, the parser of queries), libwebsockets, the database beyond the rows that are read and written,
  system calls and their results, floating point arithmetic, uninitialised memory, and, in the instance model, the
  value of the expressions of the workflow, with \<open>context_job\<close> for the job that evqGetCurrentJob gives.

  \<^bold>\<open>Not modelled.\<close> The main programs (start-up, signals), the administration of stored objects other than users (workflows,
  tags, notifications, storage, retry schedules, channels: rows written from a query and read back), the listing of
  external logs and their alerts, Git, the transport of queries (sockets, SAX), and the
  generated schemas: they are glue over libraries or decide nothing of how tasks run. The vendored JSON library is
  not part of the program; Json has only the values the models use of it.
\<close>

end
